(* ===== verification/Prelude.thy ===== *)
theory Prelude
  imports Main "HOL-Library.Word"
begin

unbundle bit_operations_syntax

text \<open>
  Shared vocabulary of the development: bytes and byte strings, Rust's \<^verbatim>\<open>Result\<close>
  and its combinators, fixed-width integer encodings, checked arithmetic,
  \<^verbatim>\<open>slice::chunks\<close>, slice access with its bounds check, and the bytewise XOR
  the stream ciphers are made of.

  Unsigned machine integers other than bytes are natural numbers; every place where the
  source checks, wraps or panics on overflow writes the bound out
  (\<open>checked_add\<close>, \<open>checked_mul\<close>, \<open>try_from_u\<close>, \<open>usize_add\<close>, \<open>usize_mul\<close>). Signed 64-bit values are
  integers with \<open>i64_checked\<close>. A \<^verbatim>\<open>usize\<close> is 64 bits wide, as on the hosts and
  guests the program is built for.
\<close>

section \<open>Types\<close>

type_synonym byte = "8 word"
type_synonym bytes = "byte list"
type_synonym ('a, 'e) result = "'e + 'a"

text \<open>A \<^verbatim>\<open>String\<close> as the list of its Unicode scalar values.\<close>

type_synonym rstring = "nat list"

named_theorems result_simps \<open>rewrites for the Result combinators\<close>
named_theorems encode_simps \<open>lengths and round trips of the integer encodings\<close>

section \<open>Result and Option combinators\<close>

text \<open>\<open>Result::and_then\<close>, which is also what the \<open>?\<close> operator does.\<close>

definition and_then :: "('a, 'e) result \<Rightarrow> ('a \<Rightarrow> ('b, 'e) result) \<Rightarrow> ('b, 'e) result" where
  "and_then r f = (case r of Inl e \<Rightarrow> Inl e | Inr a \<Rightarrow> f a)"

definition ok_or :: "'e \<Rightarrow> 'a option \<Rightarrow> ('a, 'e) result" where
  "ok_or e x = (case x of None \<Rightarrow> Inl e | Some a \<Rightarrow> Inr a)"

definition map_err :: "('e \<Rightarrow> 'f) \<Rightarrow> ('a, 'e) result \<Rightarrow> ('a, 'f) result" where
  "map_err f r = (case r of Inl e \<Rightarrow> Inl (f e) | Inr a \<Rightarrow> Inr a)"

definition ensure :: "bool \<Rightarrow> 'e \<Rightarrow> (unit, 'e) result" where
  "ensure b e = (if b then Inr () else Inl e)"

text \<open>\<open>iter().map(f).collect::<Result<Vec<_>, _>>()\<close>: stops at the first error.\<close>

primrec try_map :: "('a \<Rightarrow> ('b, 'e) result) \<Rightarrow> 'a list \<Rightarrow> ('b list, 'e) result" where
  "try_map f [] = Inr []"
| "try_map f (x # xs) =
     and_then (f x) (\<lambda>y. and_then (try_map f xs) (\<lambda>ys. Inr (y # ys)))"

text \<open>A \<^verbatim>\<open>for\<close> loop whose body may fail and updates a state.\<close>

primrec try_fold :: "('s \<Rightarrow> 'a \<Rightarrow> ('s, 'e) result) \<Rightarrow> 's \<Rightarrow> 'a list \<Rightarrow> ('s, 'e) result" where
  "try_fold f s [] = Inr s"
| "try_fold f s (x # xs) = and_then (f s x) (\<lambda>s'. try_fold f s' xs)"

text \<open>A \<^verbatim>\<open>for\<close> loop of checks without a state.\<close>

primrec try_all :: "('a \<Rightarrow> (unit, 'e) result) \<Rightarrow> 'a list \<Rightarrow> (unit, 'e) result" where
  "try_all f [] = Inr ()"
| "try_all f (x # xs) = and_then (f x) (\<lambda>_. try_all f xs)"

lemma and_then_simps [simp, result_simps]:
  "and_then (Inl e) f = Inl e"
  "and_then (Inr a) f = f a"
  by (simp_all add: and_then_def)

lemma and_then_Inr_iff [result_simps]:
  "and_then r f = Inr b \<longleftrightarrow> (\<exists>a. r = Inr a \<and> f a = Inr b)"
  by (cases r) auto

lemma and_then_Inl_iff:
  "and_then r f = Inl e \<longleftrightarrow> r = Inl e \<or> (\<exists>a. r = Inr a \<and> f a = Inl e)"
  by (cases r) auto

lemma ok_or_simps [simp, result_simps]:
  "ok_or e None = Inl e"
  "ok_or e (Some a) = Inr a"
  by (simp_all add: ok_or_def)

lemma ok_or_Inr_iff [result_simps]: "ok_or e x = Inr a \<longleftrightarrow> x = Some a"
  by (cases x) auto

lemma map_err_simps [simp, result_simps]:
  "map_err f (Inl e) = Inl (f e)"
  "map_err f (Inr a) = Inr a"
  by (simp_all add: map_err_def)

lemma map_err_Inr_iff [result_simps]: "map_err f r = Inr a \<longleftrightarrow> r = Inr a"
  by (cases r) auto

lemma ensure_simps [simp, result_simps]:
  "ensure True e = Inr ()"
  "ensure False e = Inl e"
  by (simp_all add: ensure_def)

lemma ensure_Inr_iff [result_simps]: "ensure b e = Inr u \<longleftrightarrow> b"
  by (cases b) auto

lemma try_map_Inr_iff:
  "try_map f xs = Inr ys \<longleftrightarrow> list_all2 (\<lambda>x y. f x = Inr y) xs ys"
  by (induction xs arbitrary: ys) (auto simp: and_then_Inr_iff list_all2_Cons1)

lemma try_map_Inr_mem: "try_map f xs = Inr ys \<Longrightarrow> y \<in> set ys \<Longrightarrow> \<exists>x \<in> set xs. f x = Inr y"
  by (induction xs arbitrary: ys) (auto simp: and_then_Inr_iff)

lemma try_map_total:
  "(\<And>x. x \<in> set xs \<Longrightarrow> f x = Inr (g x)) \<Longrightarrow> try_map f xs = Inr (map g xs)"
  by (induction xs) auto

lemma try_map_length: "try_map f xs = Inr ys \<Longrightarrow> length ys = length xs"
  by (auto simp: try_map_Inr_iff dest: list_all2_lengthD)

lemma try_all_Inr_iff: "try_all f xs = Inr u \<longleftrightarrow> (\<forall>x \<in> set xs. f x = Inr ())"
  by (induction xs) (auto simp: and_then_Inr_iff)

lemma try_fold_append:
  "try_fold f s (xs @ ys) = and_then (try_fold f s xs) (\<lambda>s'. try_fold f s' ys)"
proof (induction xs arbitrary: s)
  case (Cons x xs)
  then show ?case by (cases "f s x") auto
qed simp

text \<open>An invariant of the body is an invariant of the loop.\<close>

lemma try_fold_invariant:
  assumes "try_fold f s xs = Inr t" and "P s"
    and "\<And>s x s'. x \<in> set xs \<Longrightarrow> P s \<Longrightarrow> f s x = Inr s' \<Longrightarrow> P s'"
  shows "P t"
  using assms
proof (induction xs arbitrary: s)
  case (Cons x xs)
  then obtain s' where s': "f s x = Inr s'" "try_fold f s' xs = Inr t"
    by (auto simp: and_then_Inr_iff)
  moreover have "P s'" using Cons.prems s'(1) by (meson list.set_intros(1))
  ultimately show ?case using Cons.IH Cons.prems(3) by (meson list.set_intros(2))
qed simp

section \<open>Checked arithmetic\<close>

definition checked_add :: "nat \<Rightarrow> nat \<Rightarrow> nat \<Rightarrow> nat option" where
  "checked_add w a b = (if a + b < 2 ^ w then Some (a + b) else None)"

definition checked_mul :: "nat \<Rightarrow> nat \<Rightarrow> nat \<Rightarrow> nat option" where
  "checked_mul w a b = (if a * b < 2 ^ w then Some (a * b) else None)"

definition checked_sub :: "nat \<Rightarrow> nat \<Rightarrow> nat option" where
  "checked_sub a b = (if b \<le> a then Some (a - b) else None)"

text \<open>Unchecked arithmetic on \<^verbatim>\<open>usize\<close> as a release build does it.\<close>

definition usize_add :: "nat \<Rightarrow> nat \<Rightarrow> nat" where
  "usize_add a b = (a + b) mod 2 ^ 64"

definition usize_mul :: "nat \<Rightarrow> nat \<Rightarrow> nat" where
  "usize_mul a b = (a * b) mod 2 ^ 64"

definition try_from_u :: "nat \<Rightarrow> nat \<Rightarrow> nat option" where
  "try_from_u w n = (if n < 2 ^ w then Some n else None)"

definition i64_checked :: "int \<Rightarrow> int option" where
  "i64_checked i = (if - (2 ^ 63) \<le> i \<and> i < 2 ^ 63 then Some i else None)"

definition div_ceil :: "nat \<Rightarrow> nat \<Rightarrow> nat" where
  "div_ceil a b = (if a mod b = 0 then a div b else a div b + 1)"

definition next_multiple_of :: "nat \<Rightarrow> nat \<Rightarrow> nat" where
  "next_multiple_of a b = (if a mod b = 0 then a else a + (b - a mod b))"

lemma checked_add_Some: "checked_add w a b = Some c \<longleftrightarrow> c = a + b \<and> a + b < 2 ^ w"
  by (auto simp: checked_add_def)

lemma checked_mul_Some: "checked_mul w a b = Some c \<longleftrightarrow> c = a * b \<and> a * b < 2 ^ w"
  by (auto simp: checked_mul_def)

lemma checked_sub_Some: "checked_sub a b = Some c \<longleftrightarrow> c = a - b \<and> b \<le> a"
  by (auto simp: checked_sub_def)

lemma try_from_u_Some: "try_from_u w n = Some m \<longleftrightarrow> m = n \<and> n < 2 ^ w"
  by (auto simp: try_from_u_def)

lemma i64_checked_Some: "i64_checked i = Some j \<longleftrightarrow> j = i \<and> - (2 ^ 63) \<le> i \<and> i < 2 ^ 63"
  by (auto simp: i64_checked_def)

lemmas checked_Some = checked_add_Some checked_mul_Some checked_sub_Some try_from_u_Some
  i64_checked_Some

lemma usize_add_small [simp]: "a + b < 2 ^ 64 \<Longrightarrow> usize_add a b = a + b"
  by (simp add: usize_add_def)

lemma usize_mul_small [simp]: "a * b < 2 ^ 64 \<Longrightarrow> usize_mul a b = a * b"
  by (simp add: usize_mul_def)

lemma usize_mul_0 [simp]: "usize_mul 0 b = 0" "usize_mul a 0 = 0"
  by (simp_all add: usize_mul_def)

lemma div_ceil_le_iff:
  assumes "0 < b"
  shows "div_ceil a b \<le> k \<longleftrightarrow> a \<le> k * b"
proof (cases "a mod b = 0")
  case True
  then have "a = a div b * b" by (metis add.right_neutral div_mult_mod_eq)
  then have "a \<le> k * b \<longleftrightarrow> a div b * b \<le> k * b" by simp
  with True assms show ?thesis by (simp add: div_ceil_def)
next
  case False
  then have "a \<noteq> k * b" by auto
  moreover have "a div b < k \<longleftrightarrow> a < k * b" using assms by (rule div_less_iff_less_mult)
  ultimately show ?thesis using False by (auto simp: div_ceil_def)
qed

lemma div_ceil_mult_ge: "0 < b \<Longrightarrow> a \<le> div_ceil a b * b"
  by (simp add: div_ceil_le_iff [symmetric])

lemma next_multiple_of_eq:
  assumes "0 < b"
  shows "next_multiple_of a b = div_ceil a b * b"
proof -
  have *: "a = a div b * b + a mod b" and "a mod b < b" using assms by simp_all
  then have "a + (b - a mod b) = a div b * b + b" by linarith
  with * show ?thesis by (auto simp: next_multiple_of_def div_ceil_def)
qed

lemma next_multiple_of_ge: "0 < b \<Longrightarrow> a \<le> next_multiple_of a b"
  by (simp add: next_multiple_of_eq div_ceil_mult_ge)

lemma next_multiple_of_dvd: "0 < b \<Longrightarrow> b dvd next_multiple_of a b"
  by (simp add: next_multiple_of_eq)

lemma next_multiple_of_le: "0 < b \<Longrightarrow> b dvd c \<Longrightarrow> a \<le> c \<Longrightarrow> next_multiple_of a b \<le> c"
  by (metis div_ceil_le_iff dvd_div_mult_self mult_le_mono1 next_multiple_of_eq)

section \<open>Integers as bytes\<close>

text \<open>\<open>to_le_bytes w n\<close> is the \<open>w\<close>-byte little-endian image of \<open>n\<close>.\<close>

primrec to_le_bytes :: "nat \<Rightarrow> nat \<Rightarrow> bytes" where
  "to_le_bytes 0 n = []"
| "to_le_bytes (Suc w) n = of_nat (n mod 256) # to_le_bytes w (n div 256)"

primrec from_le_bytes :: "bytes \<Rightarrow> nat" where
  "from_le_bytes [] = 0"
| "from_le_bytes (b # bs) = unat b + 256 * from_le_bytes bs"

definition to_be_bytes :: "nat \<Rightarrow> nat \<Rightarrow> bytes" where
  "to_be_bytes w n = rev (to_le_bytes w n)"

definition from_be_bytes :: "bytes \<Rightarrow> nat" where
  "from_be_bytes bs = from_le_bytes (rev bs)"

lemma from_le_bytes_zeros [simp]: "from_le_bytes (replicate k 0) = 0"
  by (induction k) simp_all

lemma length_to_le_bytes [simp, encode_simps]: "length (to_le_bytes w n) = w"
  by (induction w arbitrary: n) auto

lemma length_to_be_bytes [simp, encode_simps]: "length (to_be_bytes w n) = w"
  by (simp add: to_be_bytes_def)

lemma unat_of_nat_byte: "unat (of_nat n :: byte) = n mod 256"
  by (simp add: unat_of_nat)

lemma from_to_le_bytes_mod: "from_le_bytes (to_le_bytes w n) = n mod 256 ^ w"
proof (induction w arbitrary: n)
  case (Suc w)
  have "n mod (256 * 256 ^ w) = 256 * (n div 256 mod 256 ^ w) + n mod 256"
    by (simp add: mod_mult2_eq)
  then show ?case by (simp add: Suc unat_of_nat_byte)
qed simp

lemma from_to_le_bytes [encode_simps]: "n < 256 ^ w \<Longrightarrow> from_le_bytes (to_le_bytes w n) = n"
  by (simp add: from_to_le_bytes_mod)

lemma from_to_be_bytes [encode_simps]: "n < 256 ^ w \<Longrightarrow> from_be_bytes (to_be_bytes w n) = n"
  by (simp add: from_be_bytes_def to_be_bytes_def from_to_le_bytes)

lemma from_le_bytes_bound: "from_le_bytes bs < 256 ^ length bs"
proof (induction bs)
  case (Cons b bs)
  have "unat b < 256" using unsigned_less [of b] by simp
  with Cons show ?case by (simp add: algebra_simps)
qed simp

lemma from_le_bytes_append:
  "from_le_bytes (xs @ ys) = from_le_bytes xs + 256 ^ length xs * from_le_bytes ys"
  by (induction xs) (simp_all add: algebra_simps)

lemma from_be_bytes_bound: "from_be_bytes bs < 256 ^ length bs"
  using from_le_bytes_bound [of "rev bs"] by (simp add: from_be_bytes_def)

lemma to_from_le_bytes [encode_simps]: "to_le_bytes (length bs) (from_le_bytes bs) = bs"
proof (induction bs)
  case (Cons b bs)
  have "unat b < 256" using unsigned_less [of b] by simp
  then have "(unat b + 256 * from_le_bytes bs) mod 256 = unat b"
    and "(unat b + 256 * from_le_bytes bs) div 256 = from_le_bytes bs" by simp_all
  with Cons show ?case by simp
qed simp

lemma to_le_bytes_inj:
  "to_le_bytes w m = to_le_bytes w n \<Longrightarrow> m < 256 ^ w \<Longrightarrow> n < 256 ^ w \<Longrightarrow> m = n"
  by (metis from_to_le_bytes)

lemma to_be_bytes_inj:
  "to_be_bytes w m = to_be_bytes w n \<Longrightarrow> m < 256 ^ w \<Longrightarrow> n < 256 ^ w \<Longrightarrow> m = n"
  by (metis from_to_be_bytes)

section \<open>Slices\<close>

text \<open>\<open>data.get(lo..lo + n)\<close>: the sub-slice, or \<open>None\<close> out of range.\<close>

definition get_range :: "'a list \<Rightarrow> nat \<Rightarrow> nat \<Rightarrow> 'a list option" where
  "get_range xs lo n = (if lo + n \<le> length xs then Some (take n (drop lo xs)) else None)"

lemma get_range_Some_length: "get_range xs lo n = Some ys \<Longrightarrow> length ys = n"
  by (auto simp: get_range_def split: if_splits)

lemma get_range_append:
  "length xs = lo \<Longrightarrow> length ys = n \<Longrightarrow> get_range (xs @ ys @ zs) lo n = Some ys"
  by (auto simp: get_range_def)

text \<open>\<open>slice::chunks\<close>; the library panics for a zero chunk size, which the callers never pass.\<close>

function chunks :: "nat \<Rightarrow> 'a list \<Rightarrow> 'a list list" where
  "chunks n xs = (if xs = [] \<or> n = 0 then [] else take n xs # chunks n (drop n xs))"
  by pat_completeness auto
termination
  by (relation "measure (\<lambda>(n, xs). length xs)") auto

declare chunks.simps [simp del]

lemma chunks_Nil [simp]: "chunks n [] = []"
  by (simp add: chunks.simps)

lemma concat_chunks: "0 < n \<Longrightarrow> concat (chunks n xs) = xs"
proof (induction n xs rule: chunks.induct)
  case (1 n xs)
  then show ?case by (cases "xs = []") (simp_all add: chunks.simps [of n xs])
qed

lemma chunks_length_le: "c \<in> set (chunks n xs) \<Longrightarrow> 0 < length c \<and> length c \<le> n"
proof (induction n xs rule: chunks.induct)
  case (1 n xs)
  show ?case
  proof (cases "xs = [] \<or> n = 0")
    case True
    with 1 show ?thesis by (simp add: chunks.simps [of n xs])
  next
    case False
    with 1 show ?thesis by (auto simp: chunks.simps [of n xs])
  qed
qed

text \<open>Appending a full chunk in front adds one chunk.\<close>

lemma chunks_Cons: "length c = n \<Longrightarrow> 0 < n \<Longrightarrow> chunks n (c @ xs) = c # chunks n xs"
  by (subst chunks.simps) auto

lemma chunks_single:
  assumes "xs \<noteq> []" and "length xs \<le> n"
  shows "chunks n xs = [xs]"
proof -
  have "n \<noteq> 0" using assms by (metis le_zero_eq length_0_conv)
  with assms show ?thesis by (subst chunks.simps) simp
qed

section \<open>Bytewise XOR\<close>

text \<open>
  \<open>buf[i] ^= mask[i]\<close> over the whole buffer. Applying the same mask twice restores the
  buffer, which is what makes every cipher of the program its own inverse.
\<close>

definition xor_bytes :: "bytes \<Rightarrow> bytes \<Rightarrow> bytes" where
  "xor_bytes xs ys = map2 (XOR) xs ys"

lemma length_xor_bytes [simp]: "length (xor_bytes xs ys) = min (length xs) (length ys)"
  by (simp add: xor_bytes_def)

lemma nth_xor_bytes [simp]:
  "i < length xs \<Longrightarrow> i < length ys \<Longrightarrow> xor_bytes xs ys ! i = xs ! i XOR ys ! i"
  by (simp add: xor_bytes_def)

lemma xor_cancel_right [simp]: "((a :: byte) XOR b) XOR b = a"
  by (simp add: xor.assoc)

lemma xor_cancel_left [simp]: "(b :: byte) XOR (b XOR a) = a"
  by (simp add: xor.assoc [symmetric])

lemma xor_eq_0_iff: "(a :: byte) XOR b = 0 \<longleftrightarrow> a = b"
  by (metis xor.left_neutral xor.right_neutral xor_cancel_right xor_self_eq)

lemma xor_bytes_involution: "length xs \<le> length ys \<Longrightarrow> xor_bytes (xor_bytes xs ys) ys = xs"
  by (rule nth_equalityI) simp_all

lemma byte_nonzero_unat: "(a :: byte) \<noteq> 0 \<Longrightarrow> 0 < unat a"
  by (metis gr0I unat_eq_zero)

lemma unat_byte_less [simp]: "unat (a :: byte) < 256"
  using unsigned_less [of a] by simp

end
