(* ===== verification/Stream_Ciphers.thy ===== *)
theory Stream_Ciphers
  imports Prelude
begin

unbundle bit_operations_syntax

text \<open>
  The symmetric and hybrid encryption of \<^verbatim>\<open>drop-lib\<close>: \<^verbatim>\<open>chacha8.rs\<close>,
  \<^verbatim>\<open>kdf.rs\<close>, \<^verbatim>\<open>poseidon.rs\<close>, \<^verbatim>\<open>ecies.rs\<close> and \<^verbatim>\<open>elgamal.rs\<close>.

  The primitives live in third-party crates and are parameters: \<open>sha256\<close> (a function on
  byte strings), \<open>ks key nonce pos\<close> (the byte the ChaCha8 key stream has at absolute
  position \<open>pos\<close>; \<open>seek\<close> moves to a position and \<open>apply_keystream\<close> XORs the
  following bytes into the buffer), \<open>lib\<close> (the Poseidon byte hash) and the curve
  operations of \<^verbatim>\<open>k256\<close> as a record. Positions stay below the 256 GiB the 32-bit block
  counter of the cipher reaches.

  The locale \<open>involutive_cipher\<close> states what the clients of these ciphers use: an
  encryption that is its own inverse and keeps the length.
\<close>

section \<open>The interface\<close>

locale involutive_cipher =
  fixes crypt :: "'k \<Rightarrow> bytes \<Rightarrow> (bytes, 'e) result"
  assumes crypt_length: "crypt k m = Inr c \<Longrightarrow> length c = length m"
    and crypt_again: "crypt k m = Inr c \<Longrightarrow> crypt k c = Inr m"
begin

lemma crypt_swap: "crypt k m = Inr c \<longleftrightarrow> crypt k c = Inr m"
  by (blast intro: crypt_again)

lemma crypt_injective: "crypt k m = Inr c \<Longrightarrow> crypt k m' = Inr c \<Longrightarrow> m = m'"
  by (metis crypt_again sum.inject(2))

text \<open>Encrypting a sequence under a sequence of keys and decrypting it piece by piece.\<close>

lemma crypt_all_again:
  "try_map (\<lambda>(k, m). crypt k m) (zip ks ms) = Inr cs \<Longrightarrow> length ks = length ms \<Longrightarrow>
   try_map (\<lambda>(k, c). crypt k c) (zip ks cs) = Inr ms"
proof (induction ks ms arbitrary: cs rule: list_induct2')
  case (4 k ks m ms)
  then obtain c cs' where c: "crypt k m = Inr c" "cs = c # cs'"
    and rest: "try_map (\<lambda>(k, m). crypt k m) (zip ks ms) = Inr cs'"
    by (auto simp: and_then_Inr_iff)
  have "try_map (\<lambda>(k, c). crypt k c) (zip ks cs') = Inr ms"
    using rest "4.prems"(2) by (intro "4.IH") simp_all
  with c(2) crypt_again [OF c(1)] show ?case by simp
qed auto

end

section \<open>ChaCha8\<close>

type_synonym keystream = "bytes \<Rightarrow> bytes \<Rightarrow> nat \<Rightarrow> byte"

text \<open>\<open>cipher.seek(pos); cipher.apply_keystream(buf)\<close>.\<close>

definition apply_keystream :: "keystream \<Rightarrow> bytes \<Rightarrow> bytes \<Rightarrow> nat \<Rightarrow> bytes \<Rightarrow> bytes" where
  "apply_keystream ks key nonce pos buf =
     map (\<lambda>i. buf ! i XOR ks key nonce (pos + i)) [0..<length buf]"

definition derive_nonce :: "(bytes \<Rightarrow> bytes) \<Rightarrow> bytes \<Rightarrow> bytes \<Rightarrow> bytes" where
  "derive_nonce sha256 key aux_data = take 12 (sha256 (key @ aux_data))"

definition chacha8_encrypt ::
  "keystream \<Rightarrow> bytes \<Rightarrow> bytes \<Rightarrow> bytes \<Rightarrow> nat \<Rightarrow> (bytes, string) result" where
  "chacha8_encrypt ks msg key nonce initial_counter =
     (let block_index = initial_counter
      in Inr (apply_keystream ks key nonce block_index msg))"

definition chacha8_encrypt_in_place ::
  "keystream \<Rightarrow> bytes \<Rightarrow> bytes \<Rightarrow> bytes \<Rightarrow> nat \<Rightarrow> (unit, string) result \<times> bytes" where
  "chacha8_encrypt_in_place ks msg key nonce initial_counter =
     (Inr (), apply_keystream ks key nonce initial_counter msg)"

definition chacha8_decrypt ::
  "keystream \<Rightarrow> bytes \<Rightarrow> bytes \<Rightarrow> bytes \<Rightarrow> nat \<Rightarrow> (bytes, string) result" where
  "chacha8_decrypt ks msg key nonce initial_counter =
     (let block_index = initial_counter
      in Inr (apply_keystream ks key nonce block_index msg))"

definition chacha8_seal ::
  "(bytes \<Rightarrow> bytes) \<Rightarrow> keystream \<Rightarrow> bytes \<Rightarrow> bytes \<Rightarrow> bytes \<Rightarrow> (bytes, string) result" where
  "chacha8_seal sha256 ks msg key aux_data =
     chacha8_encrypt ks msg key (derive_nonce sha256 key aux_data) 0"

definition chacha8_seal_in_place ::
  "(bytes \<Rightarrow> bytes) \<Rightarrow> keystream \<Rightarrow> bytes \<Rightarrow> bytes \<Rightarrow> bytes \<Rightarrow>
   (unit, string) result \<times> bytes" where
  "chacha8_seal_in_place sha256 ks msg key aux_data =
     chacha8_encrypt_in_place ks msg key (derive_nonce sha256 key aux_data) 0"

definition chacha8_unseal ::
  "(bytes \<Rightarrow> bytes) \<Rightarrow> keystream \<Rightarrow> bytes \<Rightarrow> bytes \<Rightarrow> bytes \<Rightarrow> (bytes, string) result" where
  "chacha8_unseal sha256 ks msg key aux_data =
     chacha8_decrypt ks msg key (derive_nonce sha256 key aux_data) 0"

lemma length_apply_keystream [simp]: "length (apply_keystream ks key nonce pos buf) = length buf"
  by (simp add: apply_keystream_def)

lemma nth_apply_keystream [simp]:
  "i < length buf \<Longrightarrow> apply_keystream ks key nonce pos buf ! i = buf ! i XOR ks key nonce (pos + i)"
  by (simp add: apply_keystream_def)

lemma apply_keystream_again [simp]:
  "apply_keystream ks key nonce pos (apply_keystream ks key nonce pos buf) = buf"
  by (rule nth_equalityI) simp_all

lemma apply_keystream_append:
  "apply_keystream ks key nonce pos (xs @ ys) =
   apply_keystream ks key nonce pos xs @ apply_keystream ks key nonce (pos + length xs) ys"
  by (rule nth_equalityI) (auto simp: nth_append)

lemmas chacha8_defs = chacha8_encrypt_def chacha8_encrypt_in_place_def chacha8_decrypt_def
  chacha8_seal_def chacha8_seal_in_place_def chacha8_unseal_def Let_def

lemma chacha8_decrypt_is_encrypt: "chacha8_decrypt = chacha8_encrypt"
  by (intro ext) (simp add: chacha8_defs)

lemma chacha8_unseal_is_seal: "chacha8_unseal = chacha8_seal"
  by (intro ext) (simp add: chacha8_defs)

interpretation chacha8: involutive_cipher
  "\<lambda>(key, nonce, ctr) m. chacha8_encrypt ks m key nonce ctr" for ks
  by unfold_locales (auto simp: chacha8_defs)

interpretation chacha8_sealed: involutive_cipher
  "\<lambda>(key, aux) m. chacha8_seal sha256 ks m key aux" for sha256 ks
  by unfold_locales (auto simp: chacha8_defs)

section \<open>Key derivation\<close>

definition key_derive :: "(bytes \<Rightarrow> bytes) \<Rightarrow> bytes \<Rightarrow> bytes \<Rightarrow> (bytes, string) result" where
  "key_derive sha256 ecc_sk msg_hash =
     (if length ecc_sk \<noteq> 32 \<or> length msg_hash \<noteq> 32 then Inl ''length''
      else Inr (sha256 (ecc_sk @ msg_hash)))"

section \<open>Poseidon stream cipher\<close>

datatype 'e poseidon_error = EmptyInput | LibError 'e | UnwrapPanic

definition poseidon_fix_input :: "bytes \<Rightarrow> bytes" where
  "poseidon_fix_input v = (if length v = 32 then v[31 := 0] else v)"

definition poseidon_hash_bytes ::
  "(bytes list \<Rightarrow> (bytes, 'e) result) \<Rightarrow> bytes list \<Rightarrow> (bytes, 'e) result" where
  "poseidon_hash_bytes lib inputs = lib (map poseidon_fix_input inputs)"

definition poseidon_hash_single_bytes ::
  "(bytes list \<Rightarrow> (bytes, 'e) result) \<Rightarrow> bytes \<Rightarrow> (bytes, 'e) result" where
  "poseidon_hash_single_bytes lib input = poseidon_hash_bytes lib (chunks 32 input)"

text \<open>One turn of the block loop: the state is the output so far and the block index.\<close>

definition poseidon_block ::
  "(bytes list \<Rightarrow> (bytes, 'e) result) \<Rightarrow> bytes \<Rightarrow> bytes \<times> nat \<Rightarrow> bytes \<Rightarrow>
   (bytes \<times> nat, 'e poseidon_error) result" where
  "poseidon_block lib key = (\<lambda>(output, block_index) chunk.
     case poseidon_hash_single_bytes lib (key @ to_be_bytes 8 block_index) of
       Inl _ \<Rightarrow> Inl UnwrapPanic
     | Inr stream_block \<Rightarrow>
         Inr (output @ map (\<lambda>i. chunk ! i XOR stream_block ! i) [0..<length chunk],
              block_index + 1))"

definition poseidon_encrypt ::
  "(bytes list \<Rightarrow> (bytes, 'e) result) \<Rightarrow> bytes \<Rightarrow> bytes \<Rightarrow> (bytes, 'e poseidon_error) result" where
  "poseidon_encrypt lib key plaintext =
     (if key = [] then Inl EmptyInput
      else and_then (try_fold (poseidon_block lib key) ([], 0) (chunks 32 plaintext))
             (\<lambda>(output, _). Inr output))"

definition poseidon_decrypt ::
  "(bytes list \<Rightarrow> (bytes, 'e) result) \<Rightarrow> bytes \<Rightarrow> bytes \<Rightarrow> (bytes, 'e poseidon_error) result" where
  "poseidon_decrypt lib key ciphertext = poseidon_encrypt lib key ciphertext"

lemma poseidon_blocks_again:
  assumes "try_fold (poseidon_block lib key) (out, k) (chunks 32 m) = Inr (out @ c, k')"
  shows "length c = length m \<and>
    try_fold (poseidon_block lib key) (out', k) (chunks 32 c) = Inr (out' @ m, k')"
  using assms
proof (induction "32 :: nat" m arbitrary: out out' k c rule: chunks.induct)
  case (1 m)
  show ?case
  proof (cases "m = []")
    case True
    with 1 show ?thesis by simp
  next
    case False
    let ?f = "poseidon_block lib key"
    define h where "h = take 32 m"
    have ch: "chunks 32 m = h # chunks 32 (drop 32 m)"
      using False by (subst chunks.simps) (simp add: h_def)
    obtain sb where sb: "poseidon_hash_single_bytes lib (key @ to_be_bytes 8 k) = Inr sb"
      using "1.prems" ch
      by (cases "poseidon_hash_single_bytes lib (key @ to_be_bytes 8 k)")
        (auto simp: poseidon_block_def)
    define e where "e = map (\<lambda>i. h ! i XOR sb ! i) [0..<length h]"
    have step: "?f (acc, k) h = Inr (acc @ e, k + 1)" for acc
      by (simp add: poseidon_block_def sb e_def)
    have rest: "try_fold ?f (out @ e, k + 1) (chunks 32 (drop 32 m)) = Inr (out @ c, k')"
      using "1.prems" by (simp add: ch step)
    have grow: "\<exists>d. fst x = fst s @ d" if "try_fold ?f s xs = Inr x" for s xs x
      using that by (rule try_fold_invariant [where P = "\<lambda>x. \<exists>d. fst x = fst s @ d"])
        (auto simp: poseidon_block_def split: sum.splits)
    from grow [OF rest] obtain d where d: "c = e @ d" by auto
    have IH: "length d = length (drop 32 m) \<and>
      try_fold ?f (out' @ h, k + 1) (chunks 32 d) = Inr ((out' @ h) @ drop 32 m, k')" for out'
      using 1(1) [of "out @ e" "k + 1" d "out' @ h"] False rest d by simp
    have len: "length e = length h" by (simp add: e_def)
    have undo: "?f (acc, k) e = Inr (acc @ h, k + 1)" for acc
      by (auto simp: poseidon_block_def sb e_def intro!: nth_equalityI)
    have "chunks 32 c = e # chunks 32 d"
    proof (cases "length h = 32")
      case True
      then show ?thesis using len d by (simp add: chunks_Cons)
    next
      case short: False
      then have "length m < 32" by (simp add: h_def)
      then have "d = []" using IH by simp
      moreover have "e \<noteq> []" using False len by (metis h_def length_0_conv take_eq_Nil zero_neq_numeral)
      ultimately show ?thesis using d len by (simp add: chunks_single h_def)
    qed
    moreover have "length c = length m" using IH len d by (auto simp: h_def)
    ultimately show ?thesis using IH undo by (simp add: h_def)
  qed
qed

lemma poseidon_encrypt_again:
  assumes "poseidon_encrypt lib key m = Inr c"
  shows "length c = length m" and "poseidon_encrypt lib key c = Inr m"
proof -
  from assms obtain k where k: "key \<noteq> []"
    "try_fold (poseidon_block lib key) ([], 0) (chunks 32 m) = Inr ([] @ c, k)"
    by (auto simp: poseidon_encrypt_def and_then_Inr_iff split: if_splits)
  from poseidon_blocks_again [OF k(2), of "[]"] k(1)
  show "length c = length m" and "poseidon_encrypt lib key c = Inr m"
    by (simp_all add: poseidon_encrypt_def)
qed

interpretation poseidon: involutive_cipher "poseidon_encrypt lib" for lib
  by unfold_locales (rule poseidon_encrypt_again; assumption)+


section \<open>ECIES packages\<close>

text \<open>
  The curve operations of \<^verbatim>\<open>k256\<close>: parsing of keys, the compressed encoding, and
  Diffie-Hellman with its raw 32-byte secret. The ephemeral secret key, drawn from the
  operating system in the source, is an argument.
\<close>

record ('sk, 'pk) curve =
  pk_from_sec1 :: "bytes \<Rightarrow> 'pk option"
  sk_from_slice :: "bytes \<Rightarrow> 'sk option"
  public_key :: "'sk \<Rightarrow> 'pk"
  encode_compressed :: "'pk \<Rightarrow> bytes"
  diffie_hellman :: "'sk \<Rightarrow> 'pk \<Rightarrow> bytes"

datatype ecies_error =
    InvalidRecipientKey
  | InvalidSecretKey
  | InvalidEphemeralKey
  | InvalidPackageLength nat nat
  | UnsupportedVersion byte

definition PACKAGE_VERSION_XOR_SHA256_K256_COMPRESSED :: byte where
  "PACKAGE_VERSION_XOR_SHA256_K256_COMPRESSED = 1"

definition COMPRESSED_PUBKEY_LEN :: nat where
  "COMPRESSED_PUBKEY_LEN = 33"

definition SECRET_LEN :: nat where
  "SECRET_LEN = 32"

definition ecies_encrypt ::
  "('sk, 'pk) curve \<Rightarrow> (bytes \<Rightarrow> bytes) \<Rightarrow> 'sk \<Rightarrow> bytes \<Rightarrow> bytes \<Rightarrow>
   (bytes \<times> bytes, ecies_error) result" where
  "ecies_encrypt cv sha256 ephemeral_sk recipient_pubkey_bytes secret =
     and_then (ok_or InvalidRecipientKey (pk_from_sec1 cv recipient_pubkey_bytes)) (\<lambda>recipient.
     let ephemeral_pk = public_key cv ephemeral_sk;
         mask = sha256 (diffie_hellman cv ephemeral_sk recipient);
         ciphertext = map (\<lambda>i. secret ! i XOR mask ! i) [0..<32]
     in Inr (ciphertext, encode_compressed cv ephemeral_pk))"

definition encrypt_package ::
  "('sk, 'pk) curve \<Rightarrow> (bytes \<Rightarrow> bytes) \<Rightarrow> 'sk \<Rightarrow> bytes \<Rightarrow> bytes \<Rightarrow> (bytes, ecies_error) result" where
  "encrypt_package cv sha256 ephemeral_sk recipient_pubkey_bytes secret =
     and_then (ecies_encrypt cv sha256 ephemeral_sk recipient_pubkey_bytes secret)
       (\<lambda>(ciphertext, ephemeral_pubkey).
        Inr ([PACKAGE_VERSION_XOR_SHA256_K256_COMPRESSED] @ ephemeral_pubkey @ ciphertext))"

definition ecies_decrypt ::
  "('sk, 'pk) curve \<Rightarrow> (bytes \<Rightarrow> bytes) \<Rightarrow> bytes \<Rightarrow> bytes \<Rightarrow> bytes \<Rightarrow> (bytes, ecies_error) result" where
  "ecies_decrypt cv sha256 my_sk_bytes ciphertext ephemeral_pubkey_bytes =
     and_then (ok_or InvalidSecretKey (sk_from_slice cv my_sk_bytes)) (\<lambda>my_sk.
     and_then (ok_or InvalidEphemeralKey (pk_from_sec1 cv ephemeral_pubkey_bytes)) (\<lambda>ephemeral_pk.
     let mask = sha256 (diffie_hellman cv my_sk ephemeral_pk)
     in Inr (map (\<lambda>i. ciphertext ! i XOR mask ! i) [0..<32])))"

definition decrypt_package ::
  "('sk, 'pk) curve \<Rightarrow> (bytes \<Rightarrow> bytes) \<Rightarrow> bytes \<Rightarrow> bytes \<Rightarrow> (bytes, ecies_error) result" where
  "decrypt_package cv sha256 my_sk_bytes package =
     (let expected_len = 1 + COMPRESSED_PUBKEY_LEN + SECRET_LEN in
      if length package \<noteq> expected_len then Inl (InvalidPackageLength expected_len (length package))
      else if package ! 0 \<noteq> PACKAGE_VERSION_XOR_SHA256_K256_COMPRESSED
      then Inl (UnsupportedVersion (package ! 0))
      else ecies_decrypt cv sha256 my_sk_bytes (drop (1 + COMPRESSED_PUBKEY_LEN) package)
             (take COMPRESSED_PUBKEY_LEN (drop 1 package)))"

text \<open>
  What the package format needs of the curve: both sides compute the same shared secret, and
  the compressed encoding of a public key has 33 bytes and parses back.
\<close>

definition curve_ok :: "('sk, 'pk) curve \<Rightarrow> bool" where
  "curve_ok cv \<longleftrightarrow>
     (\<forall>a b. diffie_hellman cv a (public_key cv b) = diffie_hellman cv b (public_key cv a)) \<and>
     (\<forall>p. pk_from_sec1 cv (encode_compressed cv p) = Some p) \<and>
     (\<forall>p. length (encode_compressed cv p) = 33)"

lemma ecies_package_shape:
  assumes "curve_ok cv" and "encrypt_package cv sha256 esk pkb secret = Inr package"
  obtains pk where "pk_from_sec1 cv pkb = Some pk"
    and "package = 1 # encode_compressed cv (public_key cv esk) @
           map (\<lambda>i. secret ! i XOR sha256 (diffie_hellman cv esk pk) ! i) [0..<32]"
    and "length package = 66"
proof -
  from assms(2) obtain pk where "pk_from_sec1 cv pkb = Some pk"
    "package = 1 # encode_compressed cv (public_key cv esk) @
       map (\<lambda>i. secret ! i XOR sha256 (diffie_hellman cv esk pk) ! i) [0..<32]"
    by (auto simp: encrypt_package_def ecies_encrypt_def Let_def and_then_Inr_iff ok_or_Inr_iff
        PACKAGE_VERSION_XOR_SHA256_K256_COMPRESSED_def simp del: upt_conv_Cons)
  moreover from this assms(1) have "length package = 66" by (simp add: curve_ok_def)
  ultimately show thesis by (rule that)
qed

text \<open>A toy instance of the curve interface, used to show that its laws can hold.\<close>

definition demo_curve :: "(byte, byte) curve" where
  "demo_curve = \<lparr>
     pk_from_sec1 = (\<lambda>bs. if length bs = 33 then Some (bs ! 0) else None),
     sk_from_slice = (\<lambda>bs. if bs = [] then None else Some (bs ! 0)),
     public_key = (\<lambda>sk. sk),
     encode_compressed = (\<lambda>p. p # replicate 32 0),
     diffie_hellman = (\<lambda>a b. replicate 32 (a * b)) \<rparr>"

lemma demo_curve_ok: "curve_ok demo_curve"
  by (simp add: curve_ok_def demo_curve_def mult.commute)

section \<open>ElGamal on the curve\<close>

text \<open>
  Points form an additive group with a scalar action \<open>smul\<close>; \<open>parse_point\<close>,
  \<open>parse_scalar\<close> and \<open>encode\<close> are the library's conversions. A scalar that does not
  parse is replaced by 1, and a missing \<open>r_opt\<close> by the message itself.
\<close>

definition elgamal_encrypt_secp256k1 ::
  "(bytes \<Rightarrow> 'ep option) \<Rightarrow> ('ep \<Rightarrow> 'pt option) \<Rightarrow> (bytes \<Rightarrow> 'sc::comm_ring_1 option) \<Rightarrow>
   ('pt::ab_group_add \<Rightarrow> bytes) \<Rightarrow> ('sc \<Rightarrow> 'pt \<Rightarrow> 'pt) \<Rightarrow> 'pt \<Rightarrow>
   bytes \<Rightarrow> bytes \<Rightarrow> bytes option \<Rightarrow> (bytes \<times> bytes, string) result" where
  "elgamal_encrypt_secp256k1 encoded_point from_encoded_point from_repr to_bytes smul generator
     pk_bytes msg r_opt =
     and_then (ok_or ''invalid pk encoding'' (encoded_point pk_bytes)) (\<lambda>ep.
     and_then (ok_or ''invalid public key point'' (from_encoded_point ep)) (\<lambda>pk_affine.
     let m_scalar = (case from_repr msg of None \<Rightarrow> 1 | Some s \<Rightarrow> s);
         r_scalar = (case r_opt of
             Some rb \<Rightarrow> (case from_repr rb of None \<Rightarrow> 1 | Some s \<Rightarrow> s)
           | None \<Rightarrow> (case from_repr msg of None \<Rightarrow> 1 | Some s \<Rightarrow> s));
         m_proj = smul m_scalar generator;
         c1_proj = smul r_scalar generator;
         rpk_proj = smul r_scalar pk_affine;
         c2_proj = m_proj + rpk_proj
     in Inr (to_bytes c1_proj, to_bytes c2_proj)))"


section \<open>Properties\<close>

text \<open>Sealing a message with ChaCha8 always succeeds, keeps the length, is undone by
  unsealing with the same key and auxiliary data, and the in-place variant leaves exactly the
  sealed bytes in the buffer.\<close>

theorem chacha8_seal_unseal:
  "\<exists>c. chacha8_seal sha256 ks m key aux = Inr c \<and> length c = length m \<and>
       chacha8_unseal sha256 ks c key aux = Inr m \<and>
       chacha8_seal_in_place sha256 ks m key aux = (Inr (), c)"
proof -
  obtain c where c: "chacha8_seal sha256 ks m key aux = Inr c"
    by (simp add: chacha8_defs)
  then have "length c = length m"
    using chacha8_sealed.crypt_length [of sha256 ks "(key, aux)" m c] by simp
  moreover have "chacha8_unseal sha256 ks c key aux = Inr m"
    using c chacha8_sealed.crypt_again [of sha256 ks "(key, aux)" m c]
    by (simp add: chacha8_unseal_is_seal)
  moreover have "chacha8_seal_in_place sha256 ks m key aux = (Inr (), c)"
    using c by (simp add: chacha8_defs)
  ultimately show ?thesis using c by blast
qed

text \<open>The Poseidon stream cipher is undone by its decryption: a ciphertext has the length
  of the plaintext and decrypts to it, whatever the hash returns.\<close>

theorem poseidon_decrypt_encrypt:
  assumes "poseidon_encrypt lib key m = Inr c"
  shows "length c = length m \<and> poseidon_decrypt lib key c = Inr m"
  using poseidon.crypt_length [OF assms] poseidon.crypt_again [OF assms]
  by (simp add: poseidon_decrypt_def)

theorem poseidon_decrypt_encrypt_witness:
  "poseidon_encrypt (\<lambda>_. Inr [3, 5] :: (bytes, unit) result) [9] [1, 7] = Inr [2, 2] \<and>
   poseidon_decrypt (\<lambda>_. Inr [3, 5] :: (bytes, unit) result) [9] [2, 2] = Inr [1, 7]"
proof -
  let ?lib = "\<lambda>_. Inr [3, 5] :: (bytes, unit) result"
  have h: "poseidon_encrypt ?lib [9] [1, 7] = Inr [2, 2]"
    by (simp add: poseidon_encrypt_def poseidon_block_def poseidon_hash_single_bytes_def
        poseidon_hash_bytes_def chunks.simps)
  from poseidon_decrypt_encrypt [OF h] h show ?thesis by simp
qed

text \<open>C40: A key package built by \<^verbatim>\<open>encrypt_package\<close> for a recipient's public key is 66 bytes
  long and \<^verbatim>\<open>decrypt_package\<close> with the recipient's secret key returns the secret.\<close>

theorem ecies_package_roundtrip:
  assumes "curve_ok cv" and "sk_from_slice cv skb = Some sk"
    and "pk_from_sec1 cv pkb = Some (public_key cv sk)" and "length secret = 32"
  shows "\<exists>package. encrypt_package cv sha256 esk pkb secret = Inr package \<and>
           length package = 66 \<and> decrypt_package cv sha256 skb package = Inr secret"
proof -
  define mask where "mask = sha256 (diffie_hellman cv esk (public_key cv sk))"
  define c where "c = map (\<lambda>i. secret ! i XOR mask ! i) [0..<32]"
  define pk where "pk = encode_compressed cv (public_key cv esk)"
  have pk: "length pk = 33" "pk_from_sec1 cv pk = Some (public_key cv esk)"
    using assms(1) by (simp_all add: curve_ok_def pk_def)
  have same: "diffie_hellman cv sk (public_key cv esk) = diffie_hellman cv esk (public_key cv sk)"
    using assms(1) by (simp add: curve_ok_def)
  have "encrypt_package cv sha256 esk pkb secret = Inr (1 # pk @ c)"
    using assms(3) by (simp add: encrypt_package_def ecies_encrypt_def Let_def mask_def c_def pk_def
        PACKAGE_VERSION_XOR_SHA256_K256_COMPRESSED_def)
  moreover have "length c = 32" by (simp add: c_def)
  moreover have "map (\<lambda>i. c ! i XOR mask ! i) [0..<32] = secret"
    using assms(4) by (intro nth_equalityI) (simp_all add: c_def)
  ultimately show ?thesis using assms(2) pk same
    by (simp add: decrypt_package_def ecies_decrypt_def COMPRESSED_PUBKEY_LEN_def SECRET_LEN_def
        PACKAGE_VERSION_XOR_SHA256_K256_COMPRESSED_def Let_def mask_def)
qed

theorem ecies_package_roundtrip_witness:
  "\<exists>package. encrypt_package demo_curve (\<lambda>x. x) 3 (5 # replicate 32 0) (replicate 32 7) = Inr package \<and>
     length package = 66 \<and> decrypt_package demo_curve (\<lambda>x. x) [5] package = Inr (replicate 32 7)"
  by (rule ecies_package_roundtrip [where sk = 5])
    (simp_all add: demo_curve_ok, simp_all add: demo_curve_def)

text \<open>Truncated, oversized and foreign packages are refused before any key is parsed: the
  only packages that decrypt are 66 bytes long and start with the version byte 1.\<close>

theorem decrypt_package_accepts_only_wellformed:
  assumes "decrypt_package cv sha256 skb package = Inr secret"
  shows "length package = 66 \<and> package ! 0 = 1 \<and> length secret = 32 \<and>
         sk_from_slice cv skb \<noteq> None \<and> pk_from_sec1 cv (take 33 (drop 1 package)) \<noteq> None"
  using assms
  by (auto simp: decrypt_package_def ecies_decrypt_def COMPRESSED_PUBKEY_LEN_def SECRET_LEN_def
      PACKAGE_VERSION_XOR_SHA256_K256_COMPRESSED_def Let_def and_then_Inr_iff ok_or_Inr_iff
      split: if_splits)

theorem decrypt_package_accepts_only_wellformed_witness:
  "\<exists>secret. decrypt_package demo_curve (\<lambda>x. x) [5] (1 # 3 # replicate 64 0) = Inr secret \<and>
     length secret = 32 \<and> length (1 # 3 # replicate 64 0 :: bytes) = 66"
proof -
  obtain secret where h: "decrypt_package demo_curve (\<lambda>x. x) [5] (1 # 3 # replicate 64 0) = Inr secret"
    by (simp add: decrypt_package_def ecies_decrypt_def COMPRESSED_PUBKEY_LEN_def SECRET_LEN_def
        PACKAGE_VERSION_XOR_SHA256_K256_COMPRESSED_def Let_def demo_curve_def)
  from decrypt_package_accepts_only_wellformed [OF h] h show ?thesis by simp
qed

text \<open>ElGamal encryption decrypts: for the key pair \<open>sk\<close>, \<open>pk = sk G\<close>, removing
  \<open>sk C1\<close> from \<open>C2\<close> leaves the message point \<open>m G\<close>; and without an explicit
  \<open>r_opt\<close> the first component is the message point itself.\<close>

theorem elgamal_decrypts:
  fixes smul :: "'sc::comm_ring_1 \<Rightarrow> 'pt::ab_group_add \<Rightarrow> 'pt"
  assumes "\<And>a b P. smul a (smul b P) = smul (a * b) P"
    and "ep pkb = Some e" and "fep e = Some (smul sk G)" and "repr msg = Some m"
  shows "(\<forall>rb r. repr rb = Some r \<longrightarrow>
            (\<exists>C2. elgamal_encrypt_secp256k1 ep fep repr enc smul G pkb msg (Some rb) =
                Inr (enc (smul r G), enc C2) \<and> C2 - smul sk (smul r G) = smul m G)) \<and>
         (\<exists>C2. elgamal_encrypt_secp256k1 ep fep repr enc smul G pkb msg None =
                Inr (enc (smul m G), enc C2) \<and> C2 - smul sk (smul m G) = smul m G)"
proof -
  have comm: "smul r (smul sk G) = smul sk (smul r G)" for r
    by (simp add: assms(1) mult.commute)
  have "elgamal_encrypt_secp256k1 ep fep repr enc smul G pkb msg None =
      Inr (enc (smul m G), enc (smul m G + smul m (smul sk G)))"
    using assms(2-4) by (simp add: elgamal_encrypt_secp256k1_def Let_def)
  moreover have "elgamal_encrypt_secp256k1 ep fep repr enc smul G pkb msg (Some rb) =
      Inr (enc (smul r G), enc (smul m G + smul r (smul sk G)))" if "repr rb = Some r" for rb r
    using assms(2-4) that by (simp add: elgamal_encrypt_secp256k1_def Let_def)
  ultimately show ?thesis by (metis add_diff_cancel_right' comm)
qed

theorem elgamal_decrypts_witness:
  "\<exists>C2. elgamal_encrypt_secp256k1 (\<lambda>b. Some b) (\<lambda>_. Some ((5::int) * 2)) (\<lambda>b. Some (int (length b)))
     (\<lambda>p. to_le_bytes 4 (nat p)) (*) 2 [] [1, 1, 1] None = Inr (to_le_bytes 4 (nat (3 * 2)), to_le_bytes 4 (nat C2)) \<and>
     C2 - 5 * (3 * 2) = 3 * 2"
  using elgamal_decrypts [of "(*) :: int \<Rightarrow> int \<Rightarrow> int" "\<lambda>b. Some b" "[]" "[]" "\<lambda>_. Some (5 * 2)" 5 2
      "\<lambda>b. Some (int (length b))" "[1, 1, 1]" 3 "\<lambda>p. to_le_bytes 4 (nat p)"]
  by (simp add: mult.assoc)

end
