(* ===== verification/Drop_Merkle.thy ===== *)
theory Drop_Merkle
  imports Stream_Ciphers
begin

text \<open>
  The chunked Merkle tree of \<^verbatim>\<open>drop-lib/src/merkle.rs\<close>: data is cut into chunks, each chunk is
  hashed with Blake3 (a parameter), an odd layer is extended by a copy of its last node, and chunk
  \<open>i\<close> is sealed under the auxiliary data root, index. A chunk size of zero makes the cutting loop
  run forever: the loop is a \<open>partial_function\<close> whose value is then \<open>None\<close>.
\<close>

section \<open>Trees\<close>

record chunk_tree =
  tree_chunks :: "bytes list"
  layers :: "bytes list list"

definition DEFAULT_CHUNK_SIZE :: nat where
  "DEFAULT_CHUNK_SIZE = 1024 * 1024"

partial_function (option) split_chunks :: "bytes \<Rightarrow> nat \<Rightarrow> nat \<Rightarrow> bytes list \<Rightarrow> bytes list option" where
  [code]: "split_chunks data chunk_size offset cs =
     (if offset < length data
      then let e = min (offset + chunk_size) (length data)
           in split_chunks data chunk_size e (cs @ [take (e - offset) (drop offset data)])
      else Some cs)"

definition extend_odd :: "bytes list \<Rightarrow> bytes list" where
  "extend_odd layer = (if length layer mod 2 = 1 then layer @ [last layer] else layer)"

definition parent_layer :: "(bytes \<Rightarrow> bytes) \<Rightarrow> bytes list \<Rightarrow> bytes list" where
  "parent_layer H layer =
     map (\<lambda>k. H (layer ! (2 * k) @ layer ! (2 * k + 1))) [0..<length layer div 2]"

lemma length_parent_layer: "length (parent_layer H (extend_odd l)) = (length l + 1) div 2"
  by (simp add: parent_layer_def extend_odd_def) presburger

function upper_layers :: "(bytes \<Rightarrow> bytes) \<Rightarrow> bytes list \<Rightarrow> bytes list list" where
  "upper_layers H layer =
     (if length layer > 1
      then let parent = parent_layer H (extend_odd layer) in parent # upper_layers H parent
      else [])"
  by pat_completeness auto
termination
proof (relation "measure (\<lambda>(H, layer). length layer)")
  fix H :: "bytes \<Rightarrow> bytes" and layer :: "bytes list" and x
  assume "1 < length layer" and "x = parent_layer H (extend_odd layer)"
  then show "((H, x), H, layer) \<in> measure (\<lambda>(H, layer). length layer)"
    by (simp add: length_parent_layer)
qed simp

declare upper_layers.simps [simp del]

definition build_merkle_tree_from_chunks :: "(bytes \<Rightarrow> bytes) \<Rightarrow> bytes list \<Rightarrow> chunk_tree" where
  "build_merkle_tree_from_chunks H cs =
     (let layer = map H cs in \<lparr> tree_chunks = cs, layers = layer # upper_layers H layer \<rparr>)"

definition build_merkle_tree :: "(bytes \<Rightarrow> bytes) \<Rightarrow> bytes \<Rightarrow> nat \<Rightarrow> chunk_tree option" where
  "build_merkle_tree H data chunk_size =
     map_option (\<lambda>cs. let layer = map H cs in \<lparr> tree_chunks = cs, layers = layer # upper_layers H layer \<rparr>)
       (split_chunks data chunk_size 0 [])"

definition chunk_root :: "chunk_tree \<Rightarrow> (bytes, string) result" where
  "chunk_root t =
     (if layers t = [] \<or> last (layers t) = [] then Inl ''panic'' else Inr (last (layers t) ! 0))"

definition assemble :: "chunk_tree \<Rightarrow> bytes" where
  "assemble t = fold (\<lambda>c out. out @ c) (tree_chunks t) []"

definition get_chunk :: "chunk_tree \<Rightarrow> nat \<Rightarrow> (bytes, string) result" where
  "get_chunk t i = (if i < length (tree_chunks t) then Inr (tree_chunks t ! i) else Inl ''panic'')"

definition chunk_aux :: "bytes \<Rightarrow> nat \<Rightarrow> bytes" where
  "chunk_aux origin_root i = origin_root @ to_le_bytes 8 i"

definition decrypt_chunk ::
  "(bytes \<Rightarrow> bytes) \<Rightarrow> keystream \<Rightarrow> chunk_tree \<Rightarrow> nat \<Rightarrow> bytes \<Rightarrow> bytes \<Rightarrow> (bytes, string) result" where
  "decrypt_chunk sha256 ks t i key origin_root =
     and_then (get_chunk t i) (\<lambda>c. chacha8_unseal sha256 ks c key (chunk_aux origin_root i))"

definition encrypt_merkle_tree ::
  "(bytes \<Rightarrow> bytes) \<Rightarrow> (bytes \<Rightarrow> bytes) \<Rightarrow> keystream \<Rightarrow> chunk_tree \<Rightarrow> bytes \<Rightarrow> (chunk_tree, string) result" where
  "encrypt_merkle_tree H sha256 ks origin_tree key =
     and_then (chunk_root origin_tree) (\<lambda>origin_root.
     and_then (try_map (\<lambda>(i, chunk). chacha8_seal sha256 ks chunk key (chunk_aux origin_root i))
                 (enumerate 0 (tree_chunks origin_tree))) (\<lambda>cipher_chunks.
     Inr (build_merkle_tree_from_chunks H cipher_chunks)))"

definition decrypt_cipher_merkle_tree ::
  "(bytes \<Rightarrow> bytes) \<Rightarrow> (bytes \<Rightarrow> bytes) \<Rightarrow> keystream \<Rightarrow> chunk_tree \<Rightarrow> bytes \<Rightarrow> bytes \<Rightarrow> (chunk_tree, string) result" where
  "decrypt_cipher_merkle_tree H sha256 ks cipher_tree origin_root key =
     and_then (try_map (\<lambda>(i, chunk). chacha8_unseal sha256 ks chunk key (chunk_aux origin_root i))
                 (enumerate 0 (tree_chunks cipher_tree))) (\<lambda>plain_chunks.
     Inr (build_merkle_tree_from_chunks H plain_chunks))"

section \<open>Facts\<close>

lemma split_chunks_eq:
  assumes "0 < k"
  shows "split_chunks data k off cs = Some (cs @ chunks k (drop off data))"
proof (induction "length data - off" arbitrary: off cs rule: less_induct)
  case less
  show ?case
  proof (cases "off < length data")
    case True
    let ?e = "min (off + k) (length data)"
    have "length data - ?e < length data - off" using True assms by linarith
    from less [OF this] have IH: "split_chunks data k ?e (cs @ [take (?e - off) (drop off data)]) =
        Some ((cs @ [take (?e - off) (drop off data)]) @ chunks k (drop ?e data))" .
    have t: "take (?e - off) (drop off data) = take k (drop off data)"
      by (cases "off + k \<le> length data") (simp_all add: min_def)
    have d: "drop ?e data = drop k (drop off data)"
      by (cases "off + k \<le> length data") (simp_all add: min_def add.commute)
    have "chunks k (drop off data) = take k (drop off data) # chunks k (drop k (drop off data))"
      using True assms by (subst chunks.simps) simp
    with IH True show ?thesis by (subst split_chunks.simps) (simp add: Let_def t d)
  next
    case False
    then show ?thesis by (subst split_chunks.simps) simp
  qed
qed

lemma split_chunks_returns:
  assumes "split_chunks data k off cs = Some r"
  shows "k = 0 \<longrightarrow> length data \<le> off"
proof (rule split_chunks.raw_induct [where P = "\<lambda>data k off cs r. k = 0 \<longrightarrow> length data \<le> off", OF _ assms])
  fix f data k off cs r
  assume IH: "\<And>data k off cs r. f data k off cs = Some r \<Longrightarrow> k = 0 \<longrightarrow> length data \<le> off"
    and body: "(if off < length data
      then let e = min (off + k) (length data) in f data k e (cs @ [take (e - off) (drop off data)])
      else Some cs) = Some r"
  show "k = 0 \<longrightarrow> length data \<le> off"
  proof (intro impI leI notI)
    assume "k = 0" and lt: "off < length data"
    with body have "f data 0 off (cs @ [[]]) = Some r" by (simp add: Let_def)
    with IH lt show False by fastforce
  qed
qed

lemma split_chunks_0_diverges: "off < length data \<Longrightarrow> split_chunks data 0 off cs = None"
  using split_chunks_returns [of data 0 off cs] by (cases "split_chunks data 0 off cs") auto

lemma build_merkle_tree_eq:
  "0 < k \<Longrightarrow> build_merkle_tree H data k = Some (build_merkle_tree_from_chunks H (chunks k data))"
  by (simp add: build_merkle_tree_def build_merkle_tree_from_chunks_def split_chunks_eq)

lemma fold_append: "fold (\<lambda>c out. out @ c) cs acc = acc @ concat cs"
  by (induction cs arbitrary: acc) simp_all

lemma assemble_eq: "assemble t = concat (tree_chunks t)"
  by (simp add: assemble_def fold_append)

lemma last_layer_single: "layer \<noteq> [] \<Longrightarrow> length (last (layer # upper_layers H layer)) = 1"
proof (induction H layer rule: upper_layers.induct)
  case (1 H layer)
  show ?case
  proof (cases "length layer > 1")
    case True
    let ?p = "parent_layer H (extend_odd layer)"
    have "0 < length ?p" using True by (simp add: length_parent_layer)
    then have "?p \<noteq> []" by blast
    with 1 True show ?thesis by (simp add: upper_layers.simps [of H layer] Let_def)
  next
    case False
    with 1 have "length layer = 1" by (cases layer) auto
    with False show ?thesis by (simp add: upper_layers.simps [of H layer])
  qed
qed

lemma chunk_root_total: "cs \<noteq> [] \<Longrightarrow> \<exists>r. chunk_root (build_merkle_tree_from_chunks H cs) = Inr r"
  using last_layer_single [of "map H cs" H]
  by (auto simp: chunk_root_def build_merkle_tree_from_chunks_def Let_def)

lemma seal_all_again:
  assumes "try_map (\<lambda>(i, chunk). chacha8_seal sha256 ks chunk key (chunk_aux r i)) (enumerate k ms) = Inr cs"
  shows "try_map (\<lambda>(i, chunk). chacha8_unseal sha256 ks chunk key (chunk_aux r i)) (enumerate k cs) = Inr ms \<and>
    map length cs = map length ms"
  using assms
proof (induction ms arbitrary: k cs)
  case (Cons m ms)
  then obtain c cs' where c: "chacha8_seal sha256 ks m key (chunk_aux r k) = Inr c" and cs: "cs = c # cs'"
    and rest: "try_map (\<lambda>(i, chunk). chacha8_seal sha256 ks chunk key (chunk_aux r i)) (enumerate (Suc k) ms) = Inr cs'"
    by (auto simp: and_then_Inr_iff)
  have "chacha8_unseal sha256 ks c key (chunk_aux r k) = Inr m" and "length c = length m"
    using chacha8_sealed.crypt_again [of sha256 ks "(key, chunk_aux r k)" m c]
      chacha8_sealed.crypt_length [of sha256 ks "(key, chunk_aux r k)" m c] c
    by (simp_all add: chacha8_unseal_is_seal)
  with Cons.IH [OF rest] cs show ?case by simp
qed simp

lemma seal_all_total:
  "\<exists>cs. try_map (\<lambda>(i, chunk). chacha8_seal sha256 ks chunk key (chunk_aux r i)) ms = Inr cs"
  by (rule exI, rule try_map_total [where g = "\<lambda>(i, chunk). apply_keystream ks key
      (derive_nonce sha256 key (chunk_aux r i)) 0 chunk"]) (auto simp: chacha8_defs)

text \<open>Copying the last node of an odd layer makes the extended list indistinguishable.\<close>

lemma upper_layers_extend:
  assumes "length layer mod 2 = 1" and "length layer > 1"
  shows "upper_layers H (layer @ [last layer]) = upper_layers H layer"
proof -
  have "extend_odd (layer @ [last layer]) = layer @ [last layer]" and "extend_odd layer = layer @ [last layer]"
    using assms by (auto simp: extend_odd_def) presburger
  moreover have "layer \<noteq> []" using assms by auto
  ultimately show ?thesis using assms
    by (simp add: upper_layers.simps [of H layer] upper_layers.simps [of H "layer @ [last layer]"])
qed

section \<open>Properties\<close>

text \<open>
  With a positive chunk size the cutting loop ends, the chunks concatenate to the data, and
  the tree is the one built from the chunks; with chunk size zero it never returns on non-empty
  data.
\<close>

theorem build_merkle_tree_total:
  "(if chunk_size = 0 \<and> data \<noteq> [] then build_merkle_tree H data chunk_size = None
    else \<exists>t. build_merkle_tree H data chunk_size = Some t \<and> assemble t = data \<and>
      t = build_merkle_tree_from_chunks H (tree_chunks t))"
proof (cases "chunk_size = 0")
  case True
  show ?thesis
  proof (cases "data = []")
    case False
    with True show ?thesis by (simp add: build_merkle_tree_def split_chunks_0_diverges)
  next
    case Nil: True
    have "split_chunks [] 0 0 [] = Some []" by (subst split_chunks.simps) simp
    then show ?thesis using True Nil
      by (simp add: build_merkle_tree_def build_merkle_tree_from_chunks_def assemble_eq)
  qed
next
  case False
  then show ?thesis
    by (simp add: build_merkle_tree_eq assemble_eq build_merkle_tree_from_chunks_def Let_def concat_chunks)
qed

text \<open>
  C36: Encrypting a tree and decrypting it with the origin root restores the whole tree, so
  also the data; the ciphertext chunks have the lengths of the plaintext chunks and each can be
  decrypted alone. Data must not be empty: an empty tree has no root.
\<close>

theorem chunk_tree_roundtrip:
  assumes "data \<noteq> []" and "build_merkle_tree H data chunk_size = Some t"
  shows "\<exists>root ct. chunk_root t = Inr root \<and> encrypt_merkle_tree H sha256 ks t key = Inr ct \<and>
    decrypt_cipher_merkle_tree H sha256 ks ct root key = Inr t \<and> assemble t = data \<and>
    map length (tree_chunks ct) = map length (tree_chunks t) \<and>
    (\<forall>i < length (tree_chunks t). decrypt_chunk sha256 ks ct i key root = get_chunk t i)"
proof -
  have pos: "0 < chunk_size"
    using assms split_chunks_0_diverges [of 0 data "[]"] by (cases "chunk_size = 0") (auto simp: build_merkle_tree_def)
  then have t: "t = build_merkle_tree_from_chunks H (chunks chunk_size data)"
    using assms(2) by (simp add: build_merkle_tree_eq)
  then have tc: "tree_chunks t = chunks chunk_size data" by (simp add: build_merkle_tree_from_chunks_def Let_def)
  have cc: "concat (chunks chunk_size data) = data" using pos by (rule concat_chunks)
  then have "chunks chunk_size data \<noteq> []" using assms(1) by auto
  then obtain root where root: "chunk_root t = Inr root" using chunk_root_total t by blast
  obtain cs where cs: "try_map (\<lambda>(i, chunk). chacha8_seal sha256 ks chunk key (chunk_aux root i))
      (enumerate 0 (tree_chunks t)) = Inr cs"
    using seal_all_total by blast
  note un = seal_all_again [OF cs]
  let ?ct = "build_merkle_tree_from_chunks H cs"
  have ctc: "tree_chunks ?ct = cs" by (simp add: build_merkle_tree_from_chunks_def Let_def)
  have "encrypt_merkle_tree H sha256 ks t key = Inr ?ct" by (simp add: encrypt_merkle_tree_def root cs)
  moreover have "decrypt_cipher_merkle_tree H sha256 ks ?ct root key = Inr t"
    using un by (simp add: decrypt_cipher_merkle_tree_def ctc) (simp add: tc t [symmetric])
  moreover have "decrypt_chunk sha256 ks ?ct i key root = get_chunk t i" if "i < length (tree_chunks t)" for i
  proof -
    have "length cs = length (tree_chunks t)" using un by (metis length_map)
    then show ?thesis using un that
      by (auto simp: decrypt_chunk_def get_chunk_def ctc try_map_Inr_iff list_all2_conv_all_nth nth_enumerate_eq)
  qed
  ultimately show ?thesis using root un ctc cc tc by (auto simp: assemble_eq)
qed

theorem chunk_tree_roundtrip_witness:
  "\<exists>t. build_merkle_tree (\<lambda>x. x) [1, 2, 3] 2 = Some t \<and> assemble t = [1, 2, 3] \<and>
     (\<exists>ct root. decrypt_cipher_merkle_tree (\<lambda>x. x) (\<lambda>x. x) (\<lambda>k n p. of_nat p) ct root [5] = Inr t)"
proof -
  obtain t where t: "build_merkle_tree (\<lambda>x. x) [1, 2, 3] 2 = Some t"
    using build_merkle_tree_eq [of 2] by auto
  have "[1, 2, 3 :: byte] \<noteq> []" by simp
  from chunk_tree_roundtrip [OF this t, of "\<lambda>x. x" "\<lambda>k n p. of_nat p" "[5]"] t show ?thesis by auto
qed

text \<open>
  C37: The root does not determine the number of chunks: for every odd number of chunks above one,
  repeating the last chunk gives a different tree with the same root.
\<close>

theorem chunk_root_collision:
  assumes "length cs mod 2 = 1" and "length cs > 1"
  shows "chunk_root (build_merkle_tree_from_chunks H (cs @ [last cs])) =
         chunk_root (build_merkle_tree_from_chunks H cs)"
proof -
  have ne: "cs \<noteq> []" using assms(2) by auto
  have "upper_layers H (map H cs @ [last (map H cs)]) = upper_layers H (map H cs)"
    using assms by (intro upper_layers_extend) simp_all
  moreover have "upper_layers H (map H cs) \<noteq> []" using assms(2) by (simp add: upper_layers.simps Let_def)
  ultimately show ?thesis using ne
    by (simp add: chunk_root_def build_merkle_tree_from_chunks_def Let_def last_map)
qed

theorem chunk_root_collision_witness:
  "chunk_root (build_merkle_tree_from_chunks (\<lambda>x. x) [[1], [2], [3], [3]]) =
   chunk_root (build_merkle_tree_from_chunks (\<lambda>x. x) [[1], [2], [3]])"
  using chunk_root_collision [of "[[1], [2], [3]]" "\<lambda>x. x"] by simp

end
