(* ===== verification/Vss.thy ===== *)
theory Vss
  imports Stream_Ciphers
begin

text \<open>
  Verifiable secret sharing of a 32-byte block: the guest program \<^verbatim>\<open>guest/vss/program/src/main.rs\<close>
  encrypts one message under several keys and commits the ciphertexts, the key commitments and
  the nonces; \<^verbatim>\<open>drop-lib/src/common.rs\<close> decodes that public output and decrypts the blocks. Slices
  and assertions that panic are the error \<open>DecodePanic\<close>. Blake3 and the key stream are parameters.
\<close>

section \<open>The guest\<close>

record vss_input =
  vss_length :: nat
  vss_msg :: bytes
  vss_keys :: "bytes list"
  vss_nonces :: "bytes list"

datatype decoding_error = DecodePanic | DecryptFailed string

definition abi_uint8 :: "nat \<Rightarrow> bytes" where
  "abi_uint8 n = (replicate 32 0)[31 := of_nat n]"

definition vss_entry ::
  "(bytes \<Rightarrow> bytes) \<Rightarrow> keystream \<Rightarrow> bytes \<Rightarrow> bytes \<times> bytes \<times> bytes \<Rightarrow> bytes \<times> bytes \<Rightarrow>
   (bytes \<times> bytes \<times> bytes, decoding_error) result" where
  "vss_entry blake3 ks msg = (\<lambda>(cipher_data, hk_data, nonce_data) (key, nonce).
     let h_k = blake3 key in
     and_then (map_err DecryptFailed (chacha8_encrypt ks msg key nonce 0)) (\<lambda>ciphertext.
     let padded = nonce @ replicate 20 0
     in Inr (cipher_data @ ciphertext, hk_data @ h_k, nonce_data @ padded)))"

text \<open>The reads from the input stream panic when fewer than \<open>length\<close> keys or nonces follow.\<close>

definition vss_main :: "(bytes \<Rightarrow> bytes) \<Rightarrow> keystream \<Rightarrow> vss_input \<Rightarrow> (bytes, decoding_error) result" where
  "vss_main blake3 ks inp =
     (let n = vss_length inp; msg = vss_msg inp; tmp32 = abi_uint8 n in
      and_then (ok_or DecodePanic (get_range (vss_keys inp) 0 n)) (\<lambda>keys.
      and_then (ok_or DecodePanic (get_range (vss_nonces inp) 0 n)) (\<lambda>nonces.
      and_then (try_fold (vss_entry blake3 ks msg) (tmp32, tmp32, tmp32) (zip keys nonces))
        (\<lambda>(cipher_data, hk_data, nonce_data).
         Inr (tmp32 @ blake3 msg @ cipher_data @ hk_data @ nonce_data)))))"

section \<open>The decoder\<close>

record decoded_outputs =
  dec_length :: nat
  h_orig_block :: bytes
  cipher_block :: "bytes list"
  h_k_commitment :: "bytes list"
  dec_nonce :: "bytes list"

definition slice_at :: "bytes \<Rightarrow> nat \<Rightarrow> nat \<Rightarrow> (bytes, decoding_error) result" where
  "slice_at bs lo n = ok_or DecodePanic (get_range bs lo n)"

text \<open>\<open>for i in 0..n { out[i] = bytes[pos..pos + w]; pos += 32 }\<close>.\<close>

fun read_blocks :: "bytes \<Rightarrow> nat \<Rightarrow> nat \<Rightarrow> nat \<Rightarrow> (bytes list \<times> nat, decoding_error) result" where
  "read_blocks bs w 0 pos = Inr ([], pos)"
| "read_blocks bs w (Suc n) pos =
     and_then (slice_at bs pos w) (\<lambda>b.
     and_then (read_blocks bs w n (pos + 32)) (\<lambda>(rest, pos'). Inr (b # rest, pos')))"

definition decode_public_outputs_with_cipher :: "bytes \<Rightarrow> (decoded_outputs, decoding_error) result" where
  "decode_public_outputs_with_cipher out =
     and_then (slice_at out 31 1) (\<lambda>l.
     let len = unat (l ! 0) in
     and_then (slice_at out 32 32) (\<lambda>h_orig.
     and_then (slice_at out (64 + 24) 8) (\<lambda>al.
     and_then (ensure (from_be_bytes al = len) DecodePanic) (\<lambda>_.
     and_then (read_blocks out 32 len (64 + 32)) (\<lambda>(ciphers, pos).
     and_then (slice_at out (pos + 24) 8) (\<lambda>_.
     and_then (read_blocks out 32 len (pos + 32)) (\<lambda>(hks, pos).
     and_then (slice_at out (pos + 24) 8) (\<lambda>_.
     and_then (read_blocks out 12 len (pos + 32)) (\<lambda>(nonces, pos).
     Inr \<lparr> dec_length = len, h_orig_block = h_orig, cipher_block = ciphers, h_k_commitment = hks,
           dec_nonce = nonces \<rparr>)))))))))"

definition decryptContent ::
  "keystream \<Rightarrow> decoded_outputs \<Rightarrow> bytes list \<Rightarrow> (bytes list, decoding_error) result" where
  "decryptContent ks d keys =
     try_map (\<lambda>i.
       and_then (ensure (i < length (cipher_block d) \<and> i < length keys \<and> i < length (dec_nonce d)) DecodePanic) (\<lambda>_.
       map_err DecryptFailed (chacha8_decrypt ks (cipher_block d ! i) (keys ! i) (dec_nonce d ! i) 0)))
       [0..<dec_length d]"

section \<open>Facts\<close>

lemma read_blocks_concat:
  assumes "\<forall>b \<in> set bs. length b = 32" and "w \<le> 32"
  shows "read_blocks (pre @ concat bs @ post) w (length bs) (length pre) =
    Inr (map (take w) bs, length pre + 32 * length bs)"
  using assms
proof (induction bs arbitrary: pre)
  case (Cons b bs)
  have "slice_at (pre @ concat (b # bs) @ post) (length pre) w = Inr (take w b)"
    using Cons.prems by (simp add: slice_at_def get_range_def ok_or_def)
  moreover have "read_blocks (pre @ concat (b # bs) @ post) w (length bs) (length pre + 32) =
      Inr (map (take w) bs, length pre + 32 + 32 * length bs)"
    using Cons.IH [of "pre @ b"] Cons.prems by simp
  ultimately show ?case by simp
qed simp

lemma length_concat_const: "\<forall>b \<in> set bs. length b = k \<Longrightarrow> length (concat bs) = k * length bs"
  by (induction bs) simp_all

lemma length_abi_uint8 [simp]: "length (abi_uint8 n) = 32"
  by (simp add: abi_uint8_def)

lemma abi_uint8_eq: "abi_uint8 n = replicate 31 0 @ [of_nat n]"
proof -
  have "replicate 32 (0 :: byte) = replicate 31 0 @ [0]"
    using replicate_add [of 31 1 "0 :: byte"] by simp
  then show ?thesis by (simp add: abi_uint8_def list_update_append)
qed

lemma abi_uint8_last: "n < 256 \<Longrightarrow> unat (abi_uint8 n ! 31) = n"
  by (simp add: abi_uint8_eq nth_append unat_of_nat)

lemma abi_uint8_be: "n < 256 \<Longrightarrow> from_be_bytes (drop 24 (abi_uint8 n)) = n"
  by (simp add: abi_uint8_eq from_be_bytes_def unat_of_nat from_le_bytes_zeros)

lemma vss_entries:
  "try_fold (vss_entry blake3 ks msg) (c, h, nn) ps =
   Inr (c @ concat (map (\<lambda>p. apply_keystream ks (fst p) (snd p) 0 msg) ps),
        h @ concat (map (\<lambda>p. blake3 (fst p)) ps),
        nn @ concat (map (\<lambda>p. snd p @ replicate 20 0) ps))"
  by (induction ps arbitrary: c h nn)
    (auto simp: vss_entry_def chacha8_defs map_err_def split: prod.splits)

lemma slice_at_append:
  "lo = length pre + k \<Longrightarrow> k + n \<le> length mid \<Longrightarrow> slice_at (pre @ mid @ post) lo n = Inr (take n (drop k mid))"
  by (simp add: slice_at_def get_range_def ok_or_def)


section \<open>Properties\<close>

text \<open>
  C39: What the guest commits, the host decodes: for up to 255 keys, 12-byte nonces and a 32-byte
  message the public output decodes to the message hash, the key commitments and the nonces of
  the input, and decrypting with the keys returns the message once per key.
\<close>

theorem vss_output_roundtrip:
  assumes "n < 256" and "length keys = n" and "length nonces = n" and "length msg = 32"
    and "\<forall>x. length (blake3 x) = 32" and "\<forall>x \<in> set nonces. length x = 12"
  shows "\<exists>out d. vss_main blake3 ks \<lparr> vss_length = n, vss_msg = msg, vss_keys = keys, vss_nonces = nonces \<rparr> = Inr out \<and>
    decode_public_outputs_with_cipher out = Inr d \<and> dec_length d = n \<and> h_orig_block d = blake3 msg \<and>
    h_k_commitment d = map blake3 keys \<and> dec_nonce d = nonces \<and>
    decryptContent ks d keys = Inr (replicate n msg)"
proof -
  define ps where "ps = zip keys nonces"
  have ps: "length ps = n" "map fst ps = keys" "map snd ps = nonces" using assms(2,3) by (simp_all add: ps_def)
  define cts where "cts = map (\<lambda>p. apply_keystream ks (fst p) (snd p) 0 msg) ps"
  define hks where "hks = map (\<lambda>p. blake3 (fst p)) ps"
  define ns where "ns = map (\<lambda>p. snd p @ replicate 20 0) ps"
  define t where "t = abi_uint8 n"
  have len: "length t = 32" "length cts = n" "length hks = n" "length ns = n"
    by (simp_all add: t_def cts_def hks_def ns_def ps)
  have n12: "length (snd p) = 12" if "p \<in> set ps" for p using that assms(6) ps(3) by (metis image_eqI list.set_map)
  have b32: "\<forall>b \<in> set cts. length b = 32" "\<forall>b \<in> set hks. length b = 32" "\<forall>b \<in> set ns. length b = 32"
    using assms(4,5) n12 by (auto simp: cts_def hks_def ns_def)
  have t0: "unat (t ! 31) = n" "from_be_bytes (drop 24 t) = n"
    using assms(1) by (simp_all add: t_def abi_uint8_last abi_uint8_be)
  let ?H = "blake3 msg"
  have lH: "length ?H = 32" using assms(5) by simp
  define out where "out = t @ ?H @ (t @ concat cts) @ (t @ concat hks) @ (t @ concat ns)"
  have main: "vss_main blake3 ks \<lparr> vss_length = n, vss_msg = msg, vss_keys = keys, vss_nonces = nonces \<rparr> = Inr out"
    using assms(2,3)
    by (simp add: vss_main_def get_range_def Let_def ps_def [symmetric] vss_entries out_def t_def cts_def hks_def ns_def)
  have lc: "length (concat cts) = 32 * n" "length (concat hks) = 32 * n"
    using b32 len by (simp_all add: length_concat_const [where k = 32])
  let ?p1 = "t @ ?H @ t" let ?p2 = "?p1 @ concat cts @ t" let ?p3 = "?p2 @ concat hks @ t"
  have r1: "read_blocks out 32 n (64 + 32) = Inr (cts, 96 + 32 * n)"
    using read_blocks_concat [OF b32(1), of 32 ?p1 "t @ concat hks @ t @ concat ns"] b32(1) len lH
    by (simp add: out_def map_idI)
  have r2: "read_blocks out 32 n (96 + 32 * n + 32) = Inr (hks, 128 + 64 * n)"
    using read_blocks_concat [OF b32(2), of 32 ?p2 "t @ concat ns"] b32(2) len lH lc
    by (simp add: out_def map_idI add.commute)
  have r3: "read_blocks out 12 n (128 + 64 * n + 32) = Inr (map (take 12) ns, 160 + 96 * n)"
    using read_blocks_concat [OF b32(3), of 12 ?p3 "[]"] len lH lc by (simp add: out_def add.commute)
  have s1: "slice_at out 31 1 = Inr [t ! 31]"
    using slice_at_append [of 31 "[]" 31 1 t "?H @ (t @ concat cts) @ (t @ concat hks) @ (t @ concat ns)"] len
    Cons_nth_drop_Suc [of 31 t]
    by (simp add: out_def)
  have s2: "slice_at out 32 32 = Inr ?H"
    using slice_at_append [of 32 t 0 32 ?H "(t @ concat cts) @ (t @ concat hks) @ (t @ concat ns)"] len lH
    by (simp add: out_def)
  have s3: "slice_at out (64 + 24) 8 = Inr (drop 24 t)"
    using slice_at_append [of "64 + 24" "t @ ?H" 24 8 t "concat cts @ (t @ concat hks) @ (t @ concat ns)"] len lH
    by (simp add: out_def)
  have s4: "slice_at out (96 + 32 * n + 24) 8 = Inr (drop 24 t)"
    using slice_at_append [of "96 + 32 * n + 24" "?p1 @ concat cts" 24 8 t "concat hks @ (t @ concat ns)"] len lH lc
    by (simp add: out_def)
  have s5: "slice_at out (128 + 64 * n + 24) 8 = Inr (drop 24 t)"
    using slice_at_append [of "128 + 64 * n + 24" "?p2 @ concat hks" 24 8 t "concat ns"] len lH lc
    by (simp add: out_def)
  have n12': "map (take 12) ns = nonces"
  proof -
    have "map (take 12) ns = map snd ps" using n12 by (auto simp: ns_def)
    then show ?thesis by (simp only: ps)
  qed
  let ?d = "\<lparr> dec_length = n, h_orig_block = ?H, cipher_block = cts, h_k_commitment = hks, dec_nonce = nonces \<rparr>"
  have dec: "decode_public_outputs_with_cipher out = Inr ?d"
    unfolding decode_public_outputs_with_cipher_def
    by (simp only: s1 s2 s3 s4 s5 r1 r2 r3 t0 n12' Let_def ensure_def and_then_simps nth_Cons_0 simp_thms if_True prod.case)
  have "decryptContent ks ?d keys = Inr (map (\<lambda>i. msg) [0..<n])"
    unfolding decryptContent_def
  proof (simp only: decoded_outputs.simps, rule try_map_total)
    fix i assume "i \<in> set [0..<n]"
    then have i: "i < n" by simp
    then have "cts ! i = apply_keystream ks (keys ! i) (nonces ! i) 0 msg"
      using ps by (auto simp: cts_def)
    then show "and_then (ensure (i < length cts \<and> i < length keys \<and> i < length nonces) DecodePanic) (\<lambda>_.
        map_err DecryptFailed (chacha8_decrypt ks (cts ! i) (keys ! i) (nonces ! i) 0)) = Inr msg"
      using i len assms(2,3) by (simp add: ensure_def chacha8_defs map_err_def)
  qed
  moreover have "hks = map blake3 keys" using ps(2) by (auto simp: hks_def)
  ultimately show ?thesis using main dec by (auto simp: map_replicate_const)
qed

theorem vss_output_roundtrip_witness:
  "\<exists>out d. vss_main (\<lambda>x. replicate 32 9) (\<lambda>k n p. of_nat p)
      \<lparr> vss_length = 1, vss_msg = replicate 32 7, vss_keys = [[1]], vss_nonces = [replicate 12 2] \<rparr> = Inr out \<and>
    decode_public_outputs_with_cipher out = Inr d \<and>
    decryptContent (\<lambda>k n p. of_nat p) d [[1]] = Inr [replicate 32 7]"
  using vss_output_roundtrip [of 1 "[[1]]" "[replicate 12 2]" "replicate 32 7" "\<lambda>x. replicate 32 9" "\<lambda>k n p. of_nat p"]
  by auto

end
