(* ===== verification/Gf256.thy ===== *)
theory Gf256
  imports Prelude
begin

unbundle bit_operations_syntax

text \<open>
  The multiplication table of GF(256) used by the RSLH verifiable encryption
  (\<^verbatim>\<open>drop-lib/src/rslh_ve.rs\<close>): the logarithm and exponential tables, copied entry by
  entry, and \<^verbatim>\<open>gf256_mul_walrus\<close>. The tables are checked against the abstract definition
  of the field: \<open>xtime\<close> is multiplication by the generator 2 modulo the polynomial
  \<open>x^8 + x^4 + x^3 + x^2 + 1\<close> (0x11d). From that follow the laws the homomorphism check
  relies on, collected in the locale \<open>byte_scaling\<close>, which the table multiplication
  interprets.
\<close>

section \<open>Tables and multiplication\<close>

definition GF_LOG :: "nat list" where
  "GF_LOG = [
    0, 0, 1, 25, 2, 50, 26, 198, 3, 223, 51, 238, 27, 104, 199, 75, 4, 100, 224, 14, 52, 141,
    239, 129, 28, 193, 105, 248, 200, 8, 76, 113, 5, 138, 101, 47, 225, 36, 15, 33, 53, 147,
    142, 218, 240, 18, 130, 69, 29, 181, 194, 125, 106, 39, 249, 185, 201, 154, 9, 120, 77, 228,
    114, 166, 6, 191, 139, 98, 102, 221, 48, 253, 226, 152, 37, 179, 16, 145, 34, 136, 54, 208,
    148, 206, 143, 150, 219, 189, 241, 210, 19, 92, 131, 56, 70, 64, 30, 66, 182, 163, 195, 72,
    126, 110, 107, 58, 40, 84, 250, 133, 186, 61, 202, 94, 155, 159, 10, 21, 121, 43, 78, 212,
    229, 172, 115, 243, 167, 87, 7, 112, 192, 247, 140, 128, 99, 13, 103, 74, 222, 237, 49, 197,
    254, 24, 227, 165, 153, 119, 38, 184, 180, 124, 17, 68, 146, 217, 35, 32, 137, 46, 55, 63,
    209, 91, 149, 188, 207, 205, 144, 135, 151, 178, 220, 252, 190, 97, 242, 86, 211, 171, 20,
    42, 93, 158, 132, 60, 57, 83, 71, 109, 65, 162, 31, 45, 67, 216, 183, 123, 164, 118, 196,
    23, 73, 236, 127, 12, 111, 246, 108, 161, 59, 82, 41, 157, 85, 170, 251, 96, 134, 177, 187,
    204, 62, 90, 203, 89, 95, 176, 156, 169, 160, 81, 11, 245, 22, 235, 122, 117, 44, 215, 79,
    174, 213, 233, 230, 231, 173, 232, 116, 214, 244, 234, 168, 80, 88, 175]"

definition GF_EXP :: "byte list" where
  "GF_EXP = [
    1, 2, 4, 8, 16, 32, 64, 128, 29, 58, 116, 232, 205, 135, 19, 38, 76, 152, 45, 90, 180, 117,
    234, 201, 143, 3, 6, 12, 24, 48, 96, 192, 157, 39, 78, 156, 37, 74, 148, 53, 106, 212, 181,
    119, 238, 193, 159, 35, 70, 140, 5, 10, 20, 40, 80, 160, 93, 186, 105, 210, 185, 111, 222,
    161, 95, 190, 97, 194, 153, 47, 94, 188, 101, 202, 137, 15, 30, 60, 120, 240, 253, 231, 211,
    187, 107, 214, 177, 127, 254, 225, 223, 163, 91, 182, 113, 226, 217, 175, 67, 134, 17, 34,
    68, 136, 13, 26, 52, 104, 208, 189, 103, 206, 129, 31, 62, 124, 248, 237, 199, 147, 59, 118,
    236, 197, 151, 51, 102, 204, 133, 23, 46, 92, 184, 109, 218, 169, 79, 158, 33, 66, 132, 21,
    42, 84, 168, 77, 154, 41, 82, 164, 85, 170, 73, 146, 57, 114, 228, 213, 183, 115, 230, 209,
    191, 99, 198, 145, 63, 126, 252, 229, 215, 179, 123, 246, 241, 255, 227, 219, 171, 75, 150,
    49, 98, 196, 149, 55, 110, 220, 165, 87, 174, 65, 130, 25, 50, 100, 200, 141, 7, 14, 28, 56,
    112, 224, 221, 167, 83, 166, 81, 162, 89, 178, 121, 242, 249, 239, 195, 155, 43, 86, 172,
    69, 138, 9, 18, 36, 72, 144, 61, 122, 244, 245, 247, 243, 251, 235, 203, 139, 11, 22, 44,
    88, 176, 125, 250, 233, 207, 131, 27, 54, 108, 216, 173, 71, 142, 1]"

definition gf256_mul_walrus :: "byte \<Rightarrow> byte \<Rightarrow> byte" where
  "gf256_mul_walrus a b =
     (if a = 0 \<or> b = 0 then 0
      else let s = (GF_LOG ! unat a + GF_LOG ! unat b) mod 255 in GF_EXP ! s)"

section \<open>The field behind the tables\<close>

definition xtime :: "byte \<Rightarrow> byte" where
  "xtime a = push_bit 1 a XOR (if bit a 7 then 29 else 0)"

lemma xtime_xor: "xtime (a XOR b) = xtime a XOR xtime b"
  by (simp add: xtime_def push_bit_xor bit_xor_iff ac_simps)

lemma xtime_0 [simp]: "xtime 0 = 0"
  by (simp add: xtime_def)

lemma xtime_pow_xor: "(xtime ^^ k) (a XOR b) = (xtime ^^ k) a XOR (xtime ^^ k) b"
  by (induction k) (simp_all add: xtime_xor)

lemma funpow_swap: "(f ^^ m) ((f ^^ n) a) = (f ^^ n) ((f ^^ m) a)"
  by (metis add.commute comp_apply funpow_add)

lemma xtime_pow_0 [simp]: "(xtime ^^ k) 0 = 0"
  by (induction k) simp_all

text \<open>Every entry of the exponential table is the generator applied to the entry before.\<close>

lemma GF_EXP_step: "map xtime (butlast GF_EXP) = tl GF_EXP"
  by code_simp

lemma length_GF_EXP [simp]: "length GF_EXP = 256"
  by (simp add: GF_EXP_def)

lemma length_GF_LOG [simp]: "length GF_LOG = 256"
  by (simp add: GF_LOG_def)

lemma GF_LOG_bound: "l \<in> set GF_LOG \<Longrightarrow> l < 255"
  by (simp add: GF_LOG_def) linarith

lemma GF_EXP_LOG: "map (\<lambda>l. GF_EXP ! l) (tl GF_LOG) = map of_nat [1..<256]"
  by code_simp


lemma GF_EXP_pow: "i < 256 \<Longrightarrow> GF_EXP ! i = (xtime ^^ i) 1"
proof (induction i)
  case 0
  show ?case by (simp add: GF_EXP_def)
next
  case (Suc i)
  then have "GF_EXP ! Suc i = tl GF_EXP ! i" by (simp add: nth_tl)
  also have "\<dots> = xtime (butlast GF_EXP ! i)"
    using Suc.prems by (simp add: GF_EXP_step [symmetric])
  also have "\<dots> = xtime ((xtime ^^ i) 1)"
    using Suc by (simp add: nth_butlast)
  finally show ?case by simp
qed

lemma GF_LOG_less: "GF_LOG ! unat (a :: byte) < 255"
  by (rule GF_LOG_bound, rule nth_mem) simp

lemma GF_EXP_GF_LOG:
  assumes "a \<noteq> 0"
  shows "GF_EXP ! (GF_LOG ! unat a) = a"
proof -
  from assms have pos: "0 < unat a" by (rule byte_nonzero_unat)
  have "unat a - 1 < 255" using pos unat_byte_less [of a] by linarith
  then have "map (\<lambda>l. GF_EXP ! l) (tl GF_LOG) ! (unat a - 1) = of_nat (unat a)"
    unfolding GF_EXP_LOG using pos by simp
  moreover have "tl GF_LOG ! (unat a - 1) = GF_LOG ! unat a"
    using pos \<open>unat a - 1 < 255\<close> by (subst nth_tl) simp_all
  ultimately show ?thesis using \<open>unat a - 1 < 255\<close> by simp
qed

lemma xtime_pow_log: "a \<noteq> 0 \<Longrightarrow> (xtime ^^ (GF_LOG ! unat a)) 1 = a"
  using GF_EXP_pow [of "GF_LOG ! unat a"] GF_LOG_less [of a] GF_EXP_GF_LOG [of a] by simp

lemma xtime_pow_255_one: "(xtime ^^ 255) 1 = 1"
  using GF_EXP_pow [of 255] by (simp add: GF_EXP_def)

text \<open>The generator has order 255, on every byte.\<close>

lemma xtime_pow_255: "(xtime ^^ 255) a = a"
proof (cases "a = 0")
  case False
  have "(xtime ^^ 255) a = (xtime ^^ 255) ((xtime ^^ (GF_LOG ! unat a)) 1)"
    by (simp only: xtime_pow_log [OF False])
  also have "\<dots> = (xtime ^^ (GF_LOG ! unat a)) ((xtime ^^ 255) 1)"
    by (rule funpow_swap)
  finally show ?thesis by (simp only: xtime_pow_255_one xtime_pow_log [OF False])
qed (simp only: xtime_pow_0)

lemma xtime_pow_mod: "(xtime ^^ (k mod 255)) a = (xtime ^^ k) a"
proof -
  have "(xtime ^^ (255 * n)) a = a" for n
  proof (induction n)
    case (Suc n)
    have "255 * Suc n = 255 * n + 255" by simp
    then show ?case by (simp only: funpow_add comp_apply xtime_pow_255 Suc)
  qed simp
  moreover have "(xtime ^^ k) a = (xtime ^^ (k mod 255)) ((xtime ^^ (255 * (k div 255))) a)"
    by (metis comp_apply funpow_add mod_mult_div_eq)
  ultimately show ?thesis by simp
qed

lemma GF_EXP_mod: "GF_EXP ! (k mod 255) = (xtime ^^ k) 1"
  using GF_EXP_pow [of "k mod 255"] by (simp add: xtime_pow_mod less_imp_le
      order.strict_trans [of _ 255])

text \<open>
  The table product is repeated multiplication by the generator: this equation is what
  connects the tables to the field.
\<close>

lemma gf256_mul_eq_xtime:
  assumes "b \<noteq> 0"
  shows "gf256_mul_walrus a b = (xtime ^^ (GF_LOG ! unat b)) a"
proof (cases "a = 0")
  case True
  then show ?thesis by (simp add: gf256_mul_walrus_def)
next
  case False
  then have "gf256_mul_walrus a b = (xtime ^^ (GF_LOG ! unat b + GF_LOG ! unat a)) 1"
    using assms by (simp add: gf256_mul_walrus_def Let_def GF_EXP_mod add.commute)
  also have "\<dots> = (xtime ^^ (GF_LOG ! unat b)) ((xtime ^^ (GF_LOG ! unat a)) 1)"
    by (simp add: funpow_add)
  finally show ?thesis by (simp only: xtime_pow_log [OF False])
qed

lemma gf256_mul_0 [simp]: "gf256_mul_walrus 0 b = 0" "gf256_mul_walrus a 0 = 0"
  by (simp_all add: gf256_mul_walrus_def)

lemma gf256_mul_commute: "gf256_mul_walrus a b = gf256_mul_walrus b a"
  by (simp add: gf256_mul_walrus_def add.commute)

lemma gf256_mul_xor_left:
  "gf256_mul_walrus (a XOR b) c = gf256_mul_walrus a c XOR gf256_mul_walrus b c"
  by (cases "c = 0") (simp_all add: gf256_mul_eq_xtime xtime_pow_xor)

lemma xtime_pow_eq_0_iff: "(xtime ^^ k) a = 0 \<longleftrightarrow> a = 0"
proof
  assume z: "(xtime ^^ k) a = 0"
  have "(xtime ^^ (255 * Suc k)) a = a"
    using xtime_pow_mod [of "255 * Suc k" a] by simp
  moreover have "255 * Suc k = (255 * Suc k - k) + k" by simp
  ultimately have "a = (xtime ^^ (255 * Suc k - k)) ((xtime ^^ k) a)"
    by (metis comp_apply funpow_add)
  with z show "a = 0" by simp
qed simp

lemma gf256_mul_eq_0_iff: "gf256_mul_walrus a b = 0 \<longleftrightarrow> a = 0 \<or> b = 0"
  by (cases "b = 0") (simp_all add: gf256_mul_eq_xtime xtime_pow_eq_0_iff)

lemma gf256_mul_one [simp]: "gf256_mul_walrus 1 a = a"
  by (cases "a = 0") (simp_all add: gf256_mul_eq_xtime xtime_pow_log)

lemma gf256_mul_pow: "gf256_mul_walrus a (GF_EXP ! (k mod 255)) = (xtime ^^ k) a"
proof -
  let ?b = "GF_EXP ! (k mod 255)"
  have nz: "?b \<noteq> 0" by (simp add: GF_EXP_mod xtime_pow_eq_0_iff)
  have "(xtime ^^ (GF_LOG ! unat ?b)) 1 = (xtime ^^ k) 1"
    using nz xtime_pow_log [OF nz] by (simp add: GF_EXP_mod)
  then have eq: "(xtime ^^ (GF_LOG ! unat ?b)) ((xtime ^^ l) 1) = (xtime ^^ k) ((xtime ^^ l) 1)"
    for l by (subst (1 2) funpow_swap) (rule arg_cong)
  have "(xtime ^^ (GF_LOG ! unat ?b)) a = (xtime ^^ k) a"
    using eq [of "GF_LOG ! unat a"] by (cases "a = 0") (simp_all add: xtime_pow_log)
  with nz show ?thesis by (simp add: gf256_mul_eq_xtime)
qed

lemma gf256_mul_assoc:
  "gf256_mul_walrus (gf256_mul_walrus a b) c = gf256_mul_walrus a (gf256_mul_walrus b c)"
proof (cases "a = 0 \<or> b = 0 \<or> c = 0")
  case False
  let ?la = "GF_LOG ! unat a" and ?lb = "GF_LOG ! unat b" and ?lc = "GF_LOG ! unat c"
  have "gf256_mul_walrus (gf256_mul_walrus a b) c = (xtime ^^ (?lc + ?lb)) a"
    using False by (simp add: gf256_mul_eq_xtime funpow_add)
  moreover have "gf256_mul_walrus b c = GF_EXP ! ((?lb + ?lc) mod 255)"
    using False by (simp add: gf256_mul_walrus_def Let_def)
  ultimately show ?thesis by (simp add: gf256_mul_pow add.commute)
qed auto

lemma gf256_mul_inverse:
  assumes "a \<noteq> 0"
  shows "\<exists>b. b \<noteq> 0 \<and> gf256_mul_walrus a b = 1"
proof -
  let ?l = "GF_LOG ! unat a"
  have "gf256_mul_walrus a (GF_EXP ! ((255 - ?l) mod 255)) = (xtime ^^ (255 - ?l)) ((xtime ^^ ?l) 1)"
    by (simp only: gf256_mul_pow xtime_pow_log [OF assms])
  also have "\<dots> = (xtime ^^ 255) 1"
    using GF_LOG_less [of a] by (metis comp_apply funpow_add le_add_diff_inverse2 less_imp_le)
  finally have one: "gf256_mul_walrus a (GF_EXP ! ((255 - ?l) mod 255)) = 1"
    by (simp only: xtime_pow_255_one)
  then show ?thesis by (metis gf256_mul_0(2) zero_neq_one)
qed

section \<open>The interface the homomorphism check uses\<close>

text \<open>XOR over a list, the sum of the field.\<close>

definition xor_list :: "byte list \<Rightarrow> byte" where
  "xor_list xs = foldr (XOR) xs 0"

lemma xor_list_simps [simp]: "xor_list [] = 0" "xor_list (x # xs) = x XOR xor_list xs"
  by (simp_all add: xor_list_def)

lemma xor_list_append: "xor_list (xs @ ys) = xor_list xs XOR xor_list ys"
  by (induction xs) (simp_all add: ac_simps)

lemma xor_list_map_xor:
  "xor_list (map (\<lambda>r. f r XOR g r) rs) = xor_list (map f rs) XOR xor_list (map g rs)"
  by (induction rs) (simp_all add: ac_simps)

lemma xor_list_map_0: "(\<And>r. r \<in> set rs \<Longrightarrow> f r = 0) \<Longrightarrow> xor_list (map f rs) = 0"
  by (induction rs) simp_all

text \<open>
  \<open>acc[lo + j] ^= mul(xs[j], beta)\<close> for all \<open>j\<close>: the inner loops of the column
  aggregation, over a window of the accumulator.
\<close>

definition mul_xor_at :: "(byte \<Rightarrow> byte \<Rightarrow> byte) \<Rightarrow> nat \<Rightarrow> bytes \<Rightarrow> byte \<Rightarrow> bytes \<Rightarrow> bytes" where
  "mul_xor_at mul lo xs beta acc =
     map (\<lambda>j. if lo \<le> j \<and> j - lo < length xs then acc ! j XOR mul (xs ! (j - lo)) beta else acc ! j)
       [0..<length acc]"

lemma length_mul_xor_at [simp]: "length (mul_xor_at mul lo xs beta acc) = length acc"
  by (simp add: mul_xor_at_def)

lemma nth_mul_xor_at:
  "j < length acc \<Longrightarrow> mul_xor_at mul lo xs beta acc ! j =
     acc ! j XOR (if lo \<le> j \<and> j - lo < length xs then mul (xs ! (j - lo)) beta else 0)"
  by (simp add: mul_xor_at_def)

text \<open>
  A row loop whose body adds one contribution per byte computes the XOR of the
  contributions.
\<close>

lemma fold_xor_contributions:
  assumes "\<And>r acc. r \<in> set rs \<Longrightarrow> length acc = n \<Longrightarrow> length (step r acc) = n"
    and "\<And>r acc. r \<in> set rs \<Longrightarrow> length acc = n \<Longrightarrow> step r acc ! j = acc ! j XOR c r"
    and "length acc = n"
  shows "length (fold step rs acc) = n"
    and "fold step rs acc ! j = acc ! j XOR xor_list (map c rs)"
proof -
  have "length (fold step rs acc) = n \<and> fold step rs acc ! j = acc ! j XOR xor_list (map c rs)"
    using assms by (induction rs arbitrary: acc) (simp_all add: xor.assoc)
  then show "length (fold step rs acc) = n"
    and "fold step rs acc ! j = acc ! j XOR xor_list (map c rs)" by simp_all
qed

locale byte_scaling =
  fixes mul :: "byte \<Rightarrow> byte \<Rightarrow> byte"
  assumes mul_xor_left: "mul (a XOR b) w = mul a w XOR mul b w"
    and mul_zero_left: "mul 0 w = 0"
    and mul_zero_iff: "w \<noteq> 0 \<Longrightarrow> mul a w = 0 \<longleftrightarrow> a = 0"
begin

text \<open>A weighted XOR of columns is linear in the columns.\<close>

lemma weighted_sum_xor:
  "xor_list (map (\<lambda>r. mul (f r XOR g r) (w r)) rs) =
   xor_list (map (\<lambda>r. mul (f r) (w r)) rs) XOR xor_list (map (\<lambda>r. mul (g r) (w r)) rs)"
  by (simp add: mul_xor_left xor_list_map_xor)

lemma weighted_sum_zero:
  "(\<And>r. r \<in> set rs \<Longrightarrow> f r = 0) \<Longrightarrow> xor_list (map (\<lambda>r. mul (f r) (w r)) rs) = 0"
  by (rule xor_list_map_0) (simp add: mul_zero_left)

text \<open>Changing exactly one column with a non-zero weight always changes the weighted XOR.\<close>

lemma weighted_sum_single_change:
  assumes "r0 \<in> set rs" and "distinct rs" and "w r0 \<noteq> 0"
    and "\<And>r. r \<in> set rs \<Longrightarrow> r \<noteq> r0 \<Longrightarrow> f r = g r" and "f r0 \<noteq> g r0"
  shows "xor_list (map (\<lambda>r. mul (f r) (w r)) rs) \<noteq> xor_list (map (\<lambda>r. mul (g r) (w r)) rs)"
  using assms
proof (induction rs)
  case (Cons r rs)
  show ?case
  proof (cases "r = r0")
    case True
    with Cons.prems have "\<And>x. x \<in> set rs \<Longrightarrow> f x = g x" by auto
    then have rest: "map (\<lambda>r. mul (f r) (w r)) rs = map (\<lambda>r. mul (g r) (w r)) rs" by simp
    have "f r0 XOR g r0 \<noteq> 0" using Cons.prems(5) by (simp add: xor_eq_0_iff)
    then have "mul (f r0) (w r0) \<noteq> mul (g r0) (w r0)"
      using mul_zero_iff [OF Cons.prems(3), of "f r0 XOR g r0"] mul_xor_left xor_eq_0_iff by metis
    with rest True show ?thesis by (simp del: map_eq_conv) (metis xor_cancel_right)
  next
    case False
    with Cons have "xor_list (map (\<lambda>r. mul (f r) (w r)) rs) \<noteq> xor_list (map (\<lambda>r. mul (g r) (w r)) rs)"
      and "f r = g r" by auto
    then show ?thesis by simp (metis xor_cancel_left)
  qed
qed simp

end

interpretation gf256: byte_scaling gf256_mul_walrus
  by unfold_locales (simp_all add: gf256_mul_xor_left gf256_mul_eq_0_iff)

end
