(* ===== verification/Rslh_Ve.thy ===== *)
theory Rslh_Ve
  imports Stream_Ciphers Gf256
begin

unbundle bit_operations_syntax

text \<open>
  The homomorphic shard proofs of \<^verbatim>\<open>drop-lib/src/rslh_ve.rs\<close>. A blob is read as a matrix of
  667 rows and 334 columns of symbols of \<open>symbol_size\<close> bytes; column \<open>c\<close>, row \<open>r\<close>
  covers the flat bytes from \<open>(c * 667 + r) * symbol_size\<close>. A proof for a sampled column
  carries the GF(256)-weighted XOR of the plaintext rows and of the ciphertext rows; the verifier
  recomputes the weighted XOR of the ChaCha8 key stream and compares.

  Errors are the string constants of the source; an index out of range and a remainder by zero,
  which panic, are the error \<^verbatim>\<open>panic\<close>. Additions on \<open>u32\<close> wrap, as in the release builds of the
  guests.
\<close>

section \<open>Constants and sizes\<close>

definition ROW_WIDTH_PRIMARY :: nat where "ROW_WIDTH_PRIMARY = 334"
definition COL_HEIGHT_SECONDARY :: nat where "COL_HEIGHT_SECONDARY = 667"
definition DEFAULT_SAMPLE_COUNT :: nat where "DEFAULT_SAMPLE_COUNT = 15"
definition MIN_VDD_BLOB_BYTES :: nat where "MIN_VDD_BLOB_BYTES = 1024 * 1024"

definition walrus_symbol_size :: "nat \<Rightarrow> nat" where
  "walrus_symbol_size blob_len =
     (let total_symbols = ROW_WIDTH_PRIMARY * COL_HEIGHT_SECONDARY;
          raw = div_ceil (max blob_len 1) total_symbols;
          aligned = raw + (raw AND 1)
      in aligned)"

datatype parity_type = Col | Row | NoParity

record ve_shard_proof =
  global_index :: nat
  col_index :: nat
  parity_offset :: nat
  origin_shard :: bytes
  cipher_shard :: bytes
  p_type :: parity_type

definition derive_rslh_nonce :: "(bytes \<Rightarrow> bytes) \<Rightarrow> bytes \<Rightarrow> bytes \<Rightarrow> bytes" where
  "derive_rslh_nonce sha256 key aux_data = take 12 (sha256 (key @ aux_data))"

section \<open>Verification of a column\<close>

text \<open>The key stream block of row \<open>row\<close>: zero bytes with the key stream applied.\<close>

definition keystream_block :: "keystream \<Rightarrow> bytes \<Rightarrow> bytes \<Rightarrow> nat \<Rightarrow> nat \<Rightarrow> bytes" where
  "keystream_block ks key nonce byte_off symbol_size =
     apply_keystream ks key nonce byte_off (replicate symbol_size 0)"

definition verify_beta :: "nat \<Rightarrow> nat \<Rightarrow> byte" where
  "verify_beta p_offset row = GF_EXP ! ((row * ((p_offset + 1) mod 2 ^ 32)) mod 255)"

definition keystream_row ::
  "keystream \<Rightarrow> bytes \<Rightarrow> bytes \<Rightarrow> nat \<Rightarrow> nat \<Rightarrow> nat \<Rightarrow> nat \<Rightarrow> bytes \<Rightarrow> bytes" where
  "keystream_row ks key nonce col p_offset symbol_size row p_ks =
     (let byte_off = (col * COL_HEIGHT_SECONDARY + row) * symbol_size;
          s_block = keystream_block ks key nonce byte_off symbol_size;
          beta = verify_beta p_offset row
      in mul_xor_at gf256_mul_walrus 0 s_block beta p_ks)"

definition verify_col_homomorphism ::
  "keystream \<Rightarrow> bytes \<Rightarrow> bytes \<Rightarrow> ve_shard_proof \<Rightarrow> nat \<Rightarrow> (unit, string) result" where
  "verify_col_homomorphism ks key nonce pf symbol_size =
     (if length (origin_shard pf) \<noteq> symbol_size \<or> length (cipher_shard pf) \<noteq> symbol_size
      then Inl ''RSLH_VE: SHARD_LENGTH_MISMATCH''
      else if col_index pf \<ge> ROW_WIDTH_PRIMARY then Inl ''RSLH_VE: COL_INDEX_RANGE''
      else
        let p_ks = fold (keystream_row ks key nonce (col_index pf) (parity_offset pf) symbol_size)
                     [0..<COL_HEIGHT_SECONDARY] (replicate symbol_size 0)
        in try_all (\<lambda>i. ensure (origin_shard pf ! i XOR p_ks ! i = cipher_shard pf ! i)
                          ''RSLH_VE: COL_HOMOMORPHISM_FAILURE'') [0..<symbol_size])"

definition sample_index :: "(bytes \<Rightarrow> bytes) \<Rightarrow> bytes \<Rightarrow> nat \<Rightarrow> nat \<Rightarrow> nat" where
  "sample_index sha256 seed total_shards i =
     from_le_bytes (take 4 (sha256 (seed @ to_le_bytes 4 i))) mod total_shards"

definition verify_rslh_ve_combat ::
  "(bytes \<Rightarrow> bytes) \<Rightarrow> keystream \<Rightarrow> bytes \<Rightarrow> bytes \<Rightarrow> bytes \<Rightarrow> bytes \<Rightarrow> bytes \<Rightarrow> nat \<Rightarrow> nat \<Rightarrow>
   ve_shard_proof list \<Rightarrow> (unit, string) result" where
  "verify_rslh_ve_combat sha256 ks key c_key c_origin c_cipher aux_data total_shards symbol_size proofs =
     (let seed = sha256 (c_origin @ c_cipher @ c_key);
          nonce = derive_rslh_nonce sha256 key aux_data
      in try_all (\<lambda>(i, pf).
           if total_shards = 0 then Inl ''panic''
           else and_then (ensure (global_index pf = sample_index sha256 seed total_shards i)
                            ''RSLH_VE: INDEX_MISMATCH'') (\<lambda>_.
                verify_col_homomorphism ks key nonce pf symbol_size))
         (enumerate 0 proofs))"

definition verify_rslh_ve_combat_raw ::
  "(bytes \<Rightarrow> bytes) \<Rightarrow> keystream \<Rightarrow> bytes \<Rightarrow> bytes \<Rightarrow> bytes \<Rightarrow> bytes \<Rightarrow> bytes \<Rightarrow> nat \<Rightarrow> nat \<Rightarrow>
   ve_shard_proof list \<Rightarrow> (unit, string) result" where
  "verify_rslh_ve_combat_raw sha256 ks key c_key c_origin_bytes c_cipher_bytes aux_data
     total_shards symbol_size proofs =
     and_then (ensure (length c_origin_bytes = 32) ''c_origin_cast_err'') (\<lambda>_.
     and_then (ensure (length c_cipher_bytes = 32) ''c_cipher_cast_err'') (\<lambda>_.
     verify_rslh_ve_combat sha256 ks key c_key c_origin_bytes c_cipher_bytes aux_data
       total_shards symbol_size proofs))"

section \<open>The honest prover\<close>

definition honest_beta :: "nat \<Rightarrow> byte" where
  "honest_beta row = GF_EXP ! (row mod 255)"

definition honest_row ::
  "keystream \<Rightarrow> bytes \<Rightarrow> bytes \<Rightarrow> nat \<Rightarrow> nat \<Rightarrow> bytes \<Rightarrow> bytes \<Rightarrow> bytes \<times> bytes \<Rightarrow> nat \<Rightarrow>
   (bytes \<times> bytes, string) result" where
  "honest_row ks key nonce col symbol_size origin cipher = (\<lambda>(p_m, p_c) row.
     let byte_off = (col * COL_HEIGHT_SECONDARY + row) * symbol_size;
         beta = honest_beta row;
         end_off = min (byte_off + symbol_size) (length origin);
         s = keystream_block ks key nonce byte_off symbol_size;
         ks_start = (if byte_off < length origin then end_off - byte_off else 0)
     in if byte_off < length origin then
          if byte_off < end_off \<and> length cipher < end_off then Inl ''panic''
          else Inr (mul_xor_at gf256_mul_walrus 0 (take (end_off - byte_off) (drop byte_off origin)) beta p_m,
                    mul_xor_at gf256_mul_walrus ks_start (drop ks_start s) beta
                      (mul_xor_at gf256_mul_walrus 0 (take (end_off - byte_off) (drop byte_off cipher)) beta p_c))
        else Inr (p_m, mul_xor_at gf256_mul_walrus ks_start (drop ks_start s) beta p_c))"

definition create_honest_proof ::
  "keystream \<Rightarrow> bytes \<Rightarrow> bytes \<Rightarrow> nat \<Rightarrow> nat \<Rightarrow> bytes \<Rightarrow> bytes \<Rightarrow> (ve_shard_proof, string) result" where
  "create_honest_proof ks key nonce idx symbol_size origin cipher =
     (let col = idx mod ROW_WIDTH_PRIMARY
      in and_then (try_fold (honest_row ks key nonce col symbol_size origin cipher)
                     (replicate symbol_size 0, replicate symbol_size 0) [0..<COL_HEIGHT_SECONDARY])
           (\<lambda>(p_m, p_c). Inr \<lparr> global_index = idx, col_index = col, parity_offset = 0,
                           origin_shard = p_m, cipher_shard = p_c, p_type = Col \<rparr>))"

section \<open>What the loops compute\<close>

text \<open>The offset of row \<open>r\<close> of column \<open>c\<close>, and the rows' weights, which are never zero.\<close>

definition row_off :: "nat \<Rightarrow> nat \<Rightarrow> nat \<Rightarrow> nat" where
  "row_off s c r = (c * COL_HEIGHT_SECONDARY + r) * s"

lemma honest_beta_nonzero: "honest_beta r \<noteq> 0"
  by (simp add: honest_beta_def GF_EXP_mod xtime_pow_eq_0_iff)

lemma verify_beta_0: "verify_beta 0 r = honest_beta r"
  by (simp add: verify_beta_def honest_beta_def)

lemma honest_beta_period: "honest_beta (r + 255) = honest_beta r"
  by (simp add: honest_beta_def)

lemma length_keystream_block [simp]: "length (keystream_block ks key nonce off s) = s"
  by (simp add: keystream_block_def)

lemma nth_keystream_block [simp]:
  "i < s \<Longrightarrow> keystream_block ks key nonce off s ! i = ks key nonce (off + i)"
  by (simp add: keystream_block_def)

definition ks_sum :: "keystream \<Rightarrow> bytes \<Rightarrow> bytes \<Rightarrow> nat \<Rightarrow> (nat \<Rightarrow> byte) \<Rightarrow> nat \<Rightarrow> nat \<Rightarrow> byte" where
  "ks_sum ks key nonce c w s i =
     xor_list (map (\<lambda>r. gf256_mul_walrus (ks key nonce (row_off s c r + i)) (w r)) [0..<COL_HEIGHT_SECONDARY])"

lemma keystream_rows:
  assumes "i < s"
  shows "fold (keystream_row ks key nonce c po s) [0..<COL_HEIGHT_SECONDARY] (replicate s 0) ! i =
     ks_sum ks key nonce c (verify_beta po) s i"
  using fold_xor_contributions(2) [of "[0..<COL_HEIGHT_SECONDARY]" s "keystream_row ks key nonce c po s" i
      "\<lambda>r. gf256_mul_walrus (ks key nonce (row_off s c r + i)) (verify_beta po r)" "replicate s 0"] assms
  by (simp add: keystream_row_def Let_def nth_mul_xor_at row_off_def ks_sum_def)

text \<open>Acceptance of one column, in closed form.\<close>

lemma verify_col_homomorphism_iff:
  "verify_col_homomorphism ks key nonce pf s = Inr () \<longleftrightarrow>
     length (origin_shard pf) = s \<and> length (cipher_shard pf) = s \<and> col_index pf < ROW_WIDTH_PRIMARY \<and>
     (\<forall>i < s. origin_shard pf ! i XOR ks_sum ks key nonce (col_index pf) (verify_beta (parity_offset pf)) s i
        = cipher_shard pf ! i)"
  by (auto simp: verify_col_homomorphism_def Let_def try_all_Inr_iff ensure_def keystream_rows)


lemma xor_shared: "((a :: byte) XOR x) XOR (b XOR (x XOR y)) = a XOR b XOR y"
  by (rule bit_eqI) (auto simp: bit_simps)

lemma honest_rows:
  assumes len: "length cipher = length origin"
    and enc: "\<And>j. j < length origin \<Longrightarrow> cipher ! j = origin ! j XOR ks key nonce j"
    and "length p_m = s" and "length p_c = s"
  shows "\<exists>p_m' p_c'. try_fold (honest_row ks key nonce c s origin cipher) (p_m, p_c) rs = Inr (p_m', p_c') \<and>
     length p_m' = s \<and> length p_c' = s \<and>
     (\<forall>i < s. p_m' ! i XOR p_c' ! i = p_m ! i XOR p_c ! i XOR
        xor_list (map (\<lambda>r. gf256_mul_walrus (ks key nonce (row_off s c r + i)) (honest_beta r)) rs))"
  using assms(3,4)
proof (induction rs arbitrary: p_m p_c)
  case (Cons r rs)
  define n where "n = length origin"
  define off where "off = row_off s c r"
  define e where "e = min (off + s) n"
  define k where "k = (if off < n then e - off else 0)"
  define b where "b = honest_beta r"
  define m1 where "m1 = (if off < n then
      mul_xor_at gf256_mul_walrus 0 (take (e - off) (drop off origin)) b p_m else p_m)"
  define c1 where "c1 = mul_xor_at gf256_mul_walrus k (drop k (keystream_block ks key nonce off s)) b
      (if off < n then mul_xor_at gf256_mul_walrus 0 (take (e - off) (drop off cipher)) b p_c else p_c)"
  have step: "honest_row ks key nonce c s origin cipher (p_m, p_c) r = Inr (m1, c1)"
    using len by (simp add: honest_row_def Let_def m1_def c1_def k_def e_def b_def off_def row_off_def n_def)
  have l: "length m1 = s" "length c1 = s" using Cons.prems by (simp_all add: m1_def c1_def)
  have byte: "m1 ! i XOR c1 ! i =
      p_m ! i XOR p_c ! i XOR gf256_mul_walrus (ks key nonce (off + i)) b" if i: "i < s" for i
  proof (cases "off < n \<and> off + i < n")
    case True
    then have "i < e - off" "i < length origin - off" "k = e - off"
      using i by (auto simp: e_def k_def n_def)
    moreover have "cipher ! (off + i) = origin ! (off + i) XOR ks key nonce (off + i)"
      using True enc by (simp add: n_def)
    ultimately show ?thesis using True i Cons.prems len
      by (simp add: m1_def c1_def nth_mul_xor_at n_def gf256_mul_xor_left xor_shared)
  next
    case False
    then have "k \<le> i" "i - k < s - k" using i by (auto simp: e_def k_def)
    moreover have "\<not> i < e - off" if "off < n" using False that by (auto simp: e_def)
    ultimately show ?thesis using i Cons.prems len
      by (simp add: m1_def c1_def nth_mul_xor_at n_def xor.assoc)
  qed
  from Cons.IH [OF l] obtain m2 c2 where
    "try_fold (honest_row ks key nonce c s origin cipher) (m1, c1) rs = Inr (m2, c2)"
    "length m2 = s" "length c2 = s"
    "\<And>i. i < s \<Longrightarrow> m2 ! i XOR c2 ! i = m1 ! i XOR c1 ! i XOR
        xor_list (map (\<lambda>r. gf256_mul_walrus (ks key nonce (row_off s c r + i)) (honest_beta r)) rs)"
    by blast
  with step byte show ?case by (simp add: off_def b_def xor.assoc [symmetric])
qed simp


lemma create_honest_proof_verifies:
  assumes "length cipher = length origin"
    and "\<And>j. j < length origin \<Longrightarrow> cipher ! j = origin ! j XOR ks key nonce j"
  obtains pf where "create_honest_proof ks key nonce idx s origin cipher = Inr pf"
    and "global_index pf = idx" and "col_index pf = idx mod ROW_WIDTH_PRIMARY"
    and "verify_col_homomorphism ks key nonce pf s = Inr ()"
proof -
  obtain p_m p_c where loop: "try_fold (honest_row ks key nonce (idx mod ROW_WIDTH_PRIMARY) s origin cipher)
      (replicate s 0, replicate s 0) [0..<COL_HEIGHT_SECONDARY] = Inr (p_m, p_c)"
    and len: "length p_m = s" "length p_c = s"
    and sum: "\<And>i. i < s \<Longrightarrow> p_m ! i XOR p_c ! i =
      ks_sum ks key nonce (idx mod ROW_WIDTH_PRIMARY) honest_beta s i"
    using honest_rows [where ks = ks and key = key and nonce = nonce, OF assms, of "replicate s 0" s "replicate s 0" "idx mod ROW_WIDTH_PRIMARY"
        "[0..<COL_HEIGHT_SECONDARY]"]
    by (auto simp: ks_sum_def)
  let ?pf = "\<lparr> global_index = idx, col_index = idx mod ROW_WIDTH_PRIMARY, parity_offset = 0,
    origin_shard = p_m, cipher_shard = p_c, p_type = Col \<rparr>"
  have "create_honest_proof ks key nonce idx s origin cipher = Inr ?pf"
    by (simp add: create_honest_proof_def loop)
  moreover have "verify_col_homomorphism ks key nonce ?pf s = Inr ()"
    unfolding verify_col_homomorphism_iff
    using len sum [symmetric] by (simp add: verify_beta_0 [abs_def] ROW_WIDTH_PRIMARY_def)
  ultimately show ?thesis using that by simp
qed

section \<open>Properties\<close>

text \<open>
  Completeness of the shard proofs. When the ciphertext is the ChaCha8 encryption of the
  origin under the derived nonce, the honest prover builds a proof for every sampled index and
  the verifier accepts the whole batch, for every number of samples, every symbol size and every
  blob length, the partially filled last symbols included.
\<close>

theorem honest_proofs_accepted:
  assumes "chacha8_encrypt ks origin key (derive_rslh_nonce sha256 key aux) 0 = Inr cipher"
    and "0 < total_shards"
  shows "\<exists>proofs.
    try_map (\<lambda>i. create_honest_proof ks key (derive_rslh_nonce sha256 key aux)
        (sample_index sha256 (sha256 (c_origin @ c_cipher @ c_key)) total_shards i) s origin cipher)
      [0..<n] = Inr proofs \<and>
    verify_rslh_ve_combat sha256 ks key c_key c_origin c_cipher aux total_shards s proofs = Inr ()"
proof -
  let ?nonce = "derive_rslh_nonce sha256 key aux"
  let ?idx = "sample_index sha256 (sha256 (c_origin @ c_cipher @ c_key)) total_shards"
  let ?mk = "\<lambda>i. create_honest_proof ks key ?nonce (?idx i) s origin cipher"
  have "length cipher = length origin"
    and "\<And>j. j < length origin \<Longrightarrow> cipher ! j = origin ! j XOR ks key ?nonce j"
    using assms(1) by (auto simp: chacha8_encrypt_def)
  note mk = create_honest_proof_verifies [where ks = ks and key = key and nonce = ?nonce, OF this]
  have one: "\<exists>pf. ?mk i = Inr pf \<and> global_index pf = ?idx i \<and>
      verify_col_homomorphism ks key ?nonce pf s = Inr ()" for i
    using mk [of "?idx i" s] by metis
  then obtain g where g: "\<And>i. ?mk i = Inr (g i)" "\<And>i. global_index (g i) = ?idx i"
      "\<And>i. verify_col_homomorphism ks key ?nonce (g i) s = Inr ()"
    by metis
  have "try_map ?mk [0..<n] = Inr (map g [0..<n])" by (rule try_map_total) (rule g(1))
  moreover have "verify_rslh_ve_combat sha256 ks key c_key c_origin c_cipher aux total_shards s
      (map g [0..<n]) = Inr ()"
    using assms(2) g(2,3)
    by (auto simp: verify_rslh_ve_combat_def Let_def try_all_Inr_iff in_set_enumerate_eq
        and_then_Inr_iff ensure_def)
  ultimately show ?thesis by blast
qed

theorem honest_proofs_accepted_witness:
  "\<exists>proofs. length proofs = 15 \<and> verify_rslh_ve_combat (\<lambda>x. replicate 32 7) (\<lambda>k n p. of_nat p)
     (replicate 32 1) [] [] [] [] 1000 2 proofs = Inr ()"
proof -
  let ?sha = "\<lambda>x :: bytes. replicate 32 (7 :: byte)"
  let ?ks = "\<lambda>(k :: bytes) (n :: bytes) p. of_nat p :: byte"
  obtain cipher where c: "chacha8_encrypt ?ks [1, 2, 3] (replicate 32 1)
      (derive_rslh_nonce ?sha (replicate 32 1) []) 0 = Inr cipher"
    by (simp add: chacha8_encrypt_def)
  have pos: "0 < (1000 :: nat)" by simp
  note acc = honest_proofs_accepted [of ?ks "[1, 2, 3]" "replicate 32 1" ?sha "[]" cipher 1000 "[]" "[]" "[]" 2 15,
      OF c pos]
  have "length proofs = 15" if "try_map f [0..<15] = Inr proofs" for proofs and f :: "nat \<Rightarrow> string + ve_shard_proof"
    using that by (simp only: try_map_Inr_iff list_all2_conv_all_nth) simp
  with acc show ?thesis by (elim exE conjE) (intro exI conjI)
qed

text \<open>
  Soundness of one column check: it accepts exactly the proofs with shards of the symbol
  size, a column below 334, and a ciphertext shard that is the plaintext shard XOR the weighted
  key stream of that column. In particular, for a fixed plaintext shard exactly one ciphertext
  shard is accepted, so changing any byte of either shard alone makes the check fail.
\<close>

theorem column_check_unique:
  assumes "verify_col_homomorphism ks key nonce pf s = Inr ()"
  shows "(verify_col_homomorphism ks key nonce (pf\<lparr> cipher_shard := c \<rparr>) s = Inr () \<longleftrightarrow> c = cipher_shard pf) \<and>
         (verify_col_homomorphism ks key nonce (pf\<lparr> origin_shard := m \<rparr>) s = Inr () \<longleftrightarrow> m = origin_shard pf)"
proof -
  let ?k = "ks_sum ks key nonce (col_index pf) (verify_beta (parity_offset pf)) s"
  from assms have len: "length (origin_shard pf) = s" "length (cipher_shard pf) = s"
    and eq: "\<And>i. i < s \<Longrightarrow> cipher_shard pf ! i = origin_shard pf ! i XOR ?k i"
    and col: "col_index pf < ROW_WIDTH_PRIMARY"
    by (simp_all add: verify_col_homomorphism_iff)
  have "verify_col_homomorphism ks key nonce (pf\<lparr> cipher_shard := c \<rparr>) s = Inr () \<longleftrightarrow> c = cipher_shard pf"
    using len eq col by (auto simp: verify_col_homomorphism_iff intro: nth_equalityI)
  moreover have "verify_col_homomorphism ks key nonce (pf\<lparr> origin_shard := m \<rparr>) s = Inr () \<longleftrightarrow> m = origin_shard pf"
  proof
    assume "verify_col_homomorphism ks key nonce (pf\<lparr> origin_shard := m \<rparr>) s = Inr ()"
    then have m: "length m = s" "\<And>i. i < s \<Longrightarrow> m ! i XOR ?k i = cipher_shard pf ! i"
      by (simp_all add: verify_col_homomorphism_iff)
    have "m ! i = origin_shard pf ! i" if "i < s" for i
      using m(2) [OF that] eq [OF that] by (metis xor_cancel_right)
    then show "m = origin_shard pf" using len m(1) by (auto intro: nth_equalityI)
  qed (use assms in simp)
  ultimately show ?thesis by blast
qed

theorem column_check_unique_witness:
  "\<exists>pf. verify_col_homomorphism (\<lambda>k n p. of_nat p) [] [] pf 2 = Inr () \<and>
     verify_col_homomorphism (\<lambda>k n p. of_nat p) [] [] (pf\<lparr> cipher_shard := [0, 0, 0] \<rparr>) 2 \<noteq> Inr ()"
proof -
  let ?ks = "\<lambda>(k :: bytes) (n :: bytes) p. of_nat p :: byte"
  obtain pf where pf: "verify_col_homomorphism ?ks [] [] pf 2 = Inr ()"
    using create_honest_proof_verifies [of "[]" "[]" ?ks "[]" "[]" 0 2] by auto
  then have "length (cipher_shard pf) = 2" by (simp add: verify_col_homomorphism_iff)
  then have "cipher_shard pf \<noteq> [0, 0, 0]" by auto
  with conjunct1 [OF column_check_unique [OF pf, of "[0, 0, 0]" "[]"]]
  have "verify_col_homomorphism ?ks [] [] (pf\<lparr> cipher_shard := [0, 0, 0] \<rparr>) 2 \<noteq> Inr ()" by simp
  with pf show ?thesis by (intro exI [of _ pf] conjI)
qed

text \<open>
  The symbol size is the least positive even number of bytes with which the 334 by 667
  matrix holds the blob.
\<close>

theorem walrus_symbol_size_least:
  "2 dvd walrus_symbol_size n \<and> 0 < walrus_symbol_size n \<and> n \<le> 334 * 667 * walrus_symbol_size n \<and>
   (\<forall>s. 2 dvd s \<and> 0 < s \<and> n \<le> 334 * 667 * s \<longrightarrow> walrus_symbol_size n \<le> s)"
proof -
  define raw where "raw = div_ceil (max n 1) 222778"
  have s: "walrus_symbol_size n = raw + raw mod 2"
    by (simp add: walrus_symbol_size_def Let_def raw_def and_one_eq ROW_WIDTH_PRIMARY_def COL_HEIGHT_SECONDARY_def)
  have le: "raw \<le> k \<longleftrightarrow> max n 1 \<le> k * 222778" for k
    unfolding raw_def by (rule div_ceil_le_iff) simp
  have "0 < raw" using le [of 0] by simp
  moreover have "n \<le> raw * 222778" using le [of raw] by simp
  moreover have "raw \<le> k" if "0 < k" "n \<le> 222778 * k" for k
    using that le [of k] by (simp add: mult.commute)
  moreover have "raw + raw mod 2 \<le> k" if "2 dvd k" "raw \<le> k" for k using that by presburger
  moreover have "2 dvd raw + raw mod 2" by presburger
  ultimately show ?thesis unfolding s by (auto simp: add_mult_distrib2)
qed

theorem walrus_symbol_size_least_witness:
  "walrus_symbol_size 1 \<le> 2"
  using walrus_symbol_size_least [of 1] by simp

end
