(* ===== verification/Walrus_Config.thy ===== *)
theory Walrus_Config
  imports Rslh_Ve
begin

text \<open>
  The encoding configuration of \<^verbatim>\<open>walrus-core\<close>: the fault-tolerance bounds of \<^verbatim>\<open>bft.rs\<close>, the
  symbol sizes of \<^verbatim>\<open>encoding/utils.rs\<close>, the configuration objects and length formulas of
  \<^verbatim>\<open>encoding/config.rs\<close>, the axis type of \<^verbatim>\<open>by_axis.rs\<close> and the encoding types and index
  conversions of \<^verbatim>\<open>lib.rs\<close>.

  \<^verbatim>\<open>NonZeroU16\<close> values are natural numbers between 1 and 65535; failed assertions and the
  unsupported encoding type, which panic in the source, are the error \<open>Panic\<close>.
\<close>

section \<open>Byzantine fault tolerance\<close>

definition max_n_faulty :: "nat \<Rightarrow> nat" where
  "max_n_faulty n = (n - 1) div 3"

definition min_n_correct :: "nat \<Rightarrow> nat" where
  "min_n_correct n = n - max_n_faulty n"

section \<open>Axes, encoding types and index conversions\<close>

datatype axis = Primary | Secondary

fun orthogonal :: "axis \<Rightarrow> axis" where
  "orthogonal Primary = Secondary"
| "orthogonal Secondary = Primary"

definition is_primary :: "axis \<Rightarrow> bool" where
  "is_primary a \<longleftrightarrow> a = Primary"

datatype encoding_type = RedStuffRaptorQ | RS2

fun encoding_type_u8 :: "encoding_type \<Rightarrow> byte" where
  "encoding_type_u8 RedStuffRaptorQ = 0"
| "encoding_type_u8 RS2 = 1"

definition encoding_type_try_from :: "byte \<Rightarrow> encoding_type option" where
  "encoding_type_try_from v = (if v = 1 then Some RS2 else None)"

definition required_alignment :: "encoding_type \<Rightarrow> nat" where
  "required_alignment e = 2"

definition max_symbol_size :: "encoding_type \<Rightarrow> nat" where
  "max_symbol_size e = 65535 - 1"

definition to_sliver_index :: "axis \<Rightarrow> nat \<Rightarrow> nat \<Rightarrow> nat option" where
  "to_sliver_index e pair_index n_shards =
     (if is_primary e then Some pair_index
      else if pair_index + 1 \<le> n_shards then Some (n_shards - pair_index - 1) else None)"

definition to_pair_index_of_sliver :: "axis \<Rightarrow> nat \<Rightarrow> nat \<Rightarrow> nat option" where
  "to_pair_index_of_sliver e sliver_index n_shards =
     (if is_primary e then Some sliver_index
      else if sliver_index + 1 \<le> n_shards then Some (n_shards - sliver_index - 1) else None)"

section \<open>Symbol sizes\<close>

datatype encoding_error = DataTooLarge | Panic

text \<open>
  \<^verbatim>\<open>u64::next_multiple_of\<close> overflows when the next multiple is \<open>2 ^ 64\<close> or more: it panics with overflow checks, and
  without them it wraps to 0 for the alignment 2 of every encoding type, on which the \<^verbatim>\<open>expect\<close> panics.
\<close>

definition compute_symbol_size :: "nat \<Rightarrow> nat \<Rightarrow> nat \<Rightarrow> (nat, encoding_error) result" where
  "compute_symbol_size data_length n_symbols alignment =
     (let symbol_size = next_multiple_of (div_ceil (max data_length 1) n_symbols) alignment
      in if 2 ^ 64 \<le> symbol_size then Inl Panic else and_then (ok_or DataTooLarge (try_from_u 16 symbol_size)) (\<lambda>s.
         if s = 0 then Inl Panic else Inr s))"

definition source_symbols_per_blob :: "nat \<Rightarrow> nat \<Rightarrow> (nat, encoding_error) result" where
  "source_symbols_per_blob p s = ok_or Panic (checked_mul 32 p s)"

section \<open>Configurations\<close>

definition MAX_SOURCE_SYMBOLS :: nat where
  "MAX_SOURCE_SYMBOLS = 65535"

definition source_symbols_for_n_shards :: "nat \<Rightarrow> nat \<times> nat" where
  "source_symbols_for_n_shards n =
     (let m = min_n_correct n in (m - max_n_faulty n, m))"

record rs_config =
  source_symbols_primary :: nat
  source_symbols_secondary :: nat
  rs_n_shards :: nat

record encoding_config =
  cfg_n_shards :: nat
  reed_solomon :: rs_config

definition new_from_nonzero_parameters :: "nat \<Rightarrow> nat \<Rightarrow> nat \<Rightarrow> (rs_config, encoding_error) result" where
  "new_from_nonzero_parameters p s n =
     (let f = max_n_faulty n in
      if \<not> (p < MAX_SOURCE_SYMBOLS \<and> s < MAX_SOURCE_SYMBOLS) then Inl Panic
      else if \<not> s \<le> n - f then Inl Panic
      else if \<not> p \<le> n - 2 * f then Inl Panic
      else Inr \<lparr> source_symbols_primary = p, source_symbols_secondary = s, rs_n_shards = n \<rparr>)"

definition rs_config_new :: "nat \<Rightarrow> (rs_config, encoding_error) result" where
  "rs_config_new n =
     (let (p, s) = source_symbols_for_n_shards n in new_from_nonzero_parameters p s n)"

definition encoding_config_new :: "nat \<Rightarrow> (encoding_config, encoding_error) result" where
  "encoding_config_new n =
     and_then (rs_config_new n) (\<lambda>rs. Inr \<lparr> cfg_n_shards = n, reed_solomon = rs \<rparr>)"

fun get_for_type :: "encoding_config \<Rightarrow> encoding_type \<Rightarrow> (rs_config, encoding_error) result" where
  "get_for_type c RS2 = Inr (reed_solomon c)"
| "get_for_type c RedStuffRaptorQ = Inl Panic"

definition n_source_symbols :: "rs_config \<Rightarrow> axis \<Rightarrow> nat" where
  "n_source_symbols c e =
     (if is_primary e then source_symbols_primary c else source_symbols_secondary c)"

definition n_slivers_for_reconstruction :: "rs_config \<Rightarrow> axis \<Rightarrow> nat" where
  "n_slivers_for_reconstruction c a = n_source_symbols c a"

definition n_symbols_for_recovery :: "rs_config \<Rightarrow> axis \<Rightarrow> nat" where
  "n_symbols_for_recovery c a = n_slivers_for_reconstruction c (orthogonal a)"

definition max_data_size :: "rs_config \<Rightarrow> axis \<Rightarrow> nat" where
  "max_data_size c e = n_source_symbols c e * max_symbol_size RS2"

definition source_symbols_per_blob_for_n_shards :: "nat \<Rightarrow> (nat, encoding_error) result" where
  "source_symbols_per_blob_for_n_shards n =
     (let (p, s) = source_symbols_for_n_shards n in ok_or Panic (checked_mul 32 p s))"

definition max_blob_size_for_n_shards :: "nat \<Rightarrow> encoding_type \<Rightarrow> (nat, encoding_error) result" where
  "max_blob_size_for_n_shards n e =
     and_then (source_symbols_per_blob_for_n_shards n) (\<lambda>k. Inr (k * max_symbol_size e))"

definition max_blob_size :: "rs_config \<Rightarrow> (nat, encoding_error) result" where
  "max_blob_size c = max_blob_size_for_n_shards (rs_n_shards c) RS2"

definition symbol_size_for_blob :: "rs_config \<Rightarrow> nat \<Rightarrow> (nat, encoding_error) result" where
  "symbol_size_for_blob c blob_size =
     and_then (source_symbols_per_blob (source_symbols_primary c) (source_symbols_secondary c)) (\<lambda>k.
     compute_symbol_size blob_size k (required_alignment RS2))"

definition sliver_size_for_blob :: "rs_config \<Rightarrow> axis \<Rightarrow> nat \<Rightarrow> (nat, encoding_error) result" where
  "sliver_size_for_blob c e blob_size =
     and_then (symbol_size_for_blob c blob_size) (\<lambda>s.
     ok_or DataTooLarge (checked_mul 32 (n_source_symbols c (orthogonal e)) s))"

definition metadata_length_for_n_shards :: "nat \<Rightarrow> nat" where
  "metadata_length_for_n_shards n = n * 32 * 2 + 32"

definition max_sliver_size_for_n_secondary :: "nat \<Rightarrow> encoding_type \<Rightarrow> nat" where
  "max_sliver_size_for_n_secondary s e = s * max_symbol_size e"

definition max_sliver_size_for_n_shards :: "nat \<Rightarrow> nat" where
  "max_sliver_size_for_n_shards n =
     (let (_, s) = source_symbols_for_n_shards n in max_sliver_size_for_n_secondary s RS2)"

text \<open>\<open>.ok()?\<close> turns the error of the symbol size into \<open>None\<close>; the panic stays an error.\<close>

definition encoded_slivers_length_for_n_shards ::
  "nat \<Rightarrow> nat \<Rightarrow> encoding_type \<Rightarrow> (nat option, encoding_error) result" where
  "encoded_slivers_length_for_n_shards n unencoded_length e =
     (let (p, s) = source_symbols_for_n_shards n in
      and_then (source_symbols_per_blob_for_n_shards n) (\<lambda>k.
      case compute_symbol_size unencoded_length k (required_alignment e) of
        Inl Panic \<Rightarrow> Inl Panic
      | Inl DataTooLarge \<Rightarrow> Inr None
      | Inr sz \<Rightarrow> Inr (Some (n * ((p + s) * sz)))))"

definition encoded_blob_length_for_n_shards ::
  "nat \<Rightarrow> nat \<Rightarrow> encoding_type \<Rightarrow> (nat option, encoding_error) result" where
  "encoded_blob_length_for_n_shards n unencoded_length e =
     and_then (encoded_slivers_length_for_n_shards n unencoded_length e) (\<lambda>r.
     Inr (map_option (\<lambda>slivers_size. n * metadata_length_for_n_shards n + slivers_size) r))"

section \<open>Facts\<close>

text \<open>Shard counts of the program: a \<^verbatim>\<open>NonZeroU16\<close>.\<close>

definition nonzero_u16 :: "nat \<Rightarrow> bool" where
  "nonzero_u16 n \<longleftrightarrow> 0 < n \<and> n < 2 ^ 16"

lemma bft_bounds:
  assumes "0 < n"
  shows "3 * max_n_faulty n < n" and "0 < min_n_correct n - max_n_faulty n"
    and "min_n_correct n \<le> n" and "3 * min_n_correct n \<le> 2 * n + 3"
  using assms unfolding max_n_faulty_def min_n_correct_def by linarith+

lemma source_symbols_bounds:
  assumes "nonzero_u16 n" and "source_symbols_for_n_shards n = (p, s)"
  shows "0 < p" and "0 < s" and "p \<le> s" and "s \<le> n" and "s \<le> 43691" and "p * s < 2 ^ 32"
proof -
  have ps: "p = min_n_correct n - max_n_faulty n" "s = min_n_correct n"
    using assms(2) by (auto simp: source_symbols_for_n_shards_def Let_def)
  have n: "0 < n" "n \<le> 65535" using assms(1) by (auto simp: nonzero_u16_def)
  show "0 < p" "p \<le> s" "s \<le> n" using bft_bounds [OF n(1)] ps by simp_all
  then show "0 < s" by simp
  show s: "s \<le> 43691" using bft_bounds(4) [OF n(1)] ps n(2) by simp
  have "p * s \<le> 43691 * 43691" using \<open>p \<le> s\<close> s by (intro mult_le_mono) simp_all
  then show "p * s < 2 ^ 32" by simp
qed

lemma per_blob_symbols:
  assumes "nonzero_u16 n" and "source_symbols_for_n_shards n = (p, s)"
  shows "source_symbols_per_blob_for_n_shards n = Inr (p * s)" and "source_symbols_per_blob p s = Inr (p * s)"
  using source_symbols_bounds [OF assms] assms(2)
  by (simp_all add: source_symbols_per_blob_for_n_shards_def source_symbols_per_blob_def checked_mul_def ok_or_def)

lemma symbol_size_even:
  assumes "0 < k" and "even b"
  shows "next_multiple_of (div_ceil (max len 1) k) 2 \<le> b \<longleftrightarrow> max len 1 \<le> b * k"
proof -
  let ?r = "div_ceil (max len 1) k"
  have "next_multiple_of ?r 2 \<le> b \<longleftrightarrow> ?r \<le> b"
    using next_multiple_of_ge [of 2 ?r] next_multiple_of_le [of 2 b ?r] assms(2) by (auto intro: order_trans)
  also have "\<dots> \<longleftrightarrow> max len 1 \<le> b * k" by (rule div_ceil_le_iff [OF assms(1)])
  finally show ?thesis .
qed

lemma compute_symbol_size_iff:
  assumes "0 < k"
  shows "compute_symbol_size len k 2 =
    (let sz = next_multiple_of (div_ceil (max len 1) k) 2 in
     if len \<le> k * 65534 then Inr sz else Inl (if 2 ^ 64 \<le> sz then Panic else DataTooLarge))"
proof -
  let ?sz = "next_multiple_of (div_ceil (max len 1) k) 2"
  have le: "?sz \<le> 65534 \<longleftrightarrow> max len 1 \<le> 65534 * k" by (rule symbol_size_even [OF assms]) simp
  have "?sz \<noteq> 65535" using next_multiple_of_dvd [of 2 "div_ceil (max len 1) k"] by auto
  then have u16: "?sz < 65536 \<longleftrightarrow> len \<le> k * 65534" using le assms by (auto simp: mult.commute)
  moreover have "0 < ?sz" using symbol_size_even [OF assms, of 0 len] by (cases "?sz = 0") simp_all
  ultimately show ?thesis
    by (auto simp: compute_symbol_size_def Let_def try_from_u_def ok_or_def)
qed

lemma symbol_size_overflow:
  assumes "0 < k" and "len < 2 ^ 64"
  shows "2 ^ 64 \<le> next_multiple_of (div_ceil (max len 1) k) 2 \<longleftrightarrow> k = 1 \<and> len = 2 ^ 64 - 1"
proof -
  let ?sz = "next_multiple_of (div_ceil (max len 1) k) 2"
  have "?sz \<noteq> 2 ^ 64 - 1" using next_multiple_of_dvd [of 2 "div_ceil (max len 1) k"] by auto
  then have "2 ^ 64 \<le> ?sz \<longleftrightarrow> \<not> ?sz \<le> 2 ^ 64 - 2" by auto
  also have "\<dots> \<longleftrightarrow> \<not> max len 1 \<le> (2 ^ 64 - 2) * k" by (subst symbol_size_even [OF assms(1)]) simp_all
  also have "\<dots> \<longleftrightarrow> k = 1 \<and> len = 2 ^ 64 - 1"
  proof (cases "k = 1")
    case False
    then have "(2 ^ 64 - 2) * 2 \<le> (2 ^ 64 - 2) * k" using assms(1) by (intro mult_le_mono2) simp
    with False assms(2) show ?thesis by simp
  qed (use assms(2) in auto)
  finally show ?thesis .
qed

lemma one_symbol_iff:
  assumes "nonzero_u16 n" and "source_symbols_for_n_shards n = (p, s)" shows "p * s = 1 \<longleftrightarrow> n = 1"
proof
  assume "p * s = 1"
  then have "s = 1" by simp
  then have "n - (n - 1) div 3 = 1"
    using assms(2) by (auto simp: source_symbols_for_n_shards_def Let_def min_n_correct_def max_n_faulty_def)
  then show "n = 1" using assms(1) unfolding nonzero_u16_def by linarith
qed (use assms(2) in \<open>auto simp: source_symbols_for_n_shards_def Let_def min_n_correct_def max_n_faulty_def\<close>)

lemma symbol_size_cases:
  assumes "nonzero_u16 n" and "source_symbols_for_n_shards n = (p, s)" and "len < 2 ^ 64"
  shows "compute_symbol_size len (p * s) 2 =
    (if len \<le> p * s * 65534 then Inr (next_multiple_of (div_ceil (max len 1) (p * s)) 2)
     else Inl (if n = 1 \<and> len = 2 ^ 64 - 1 then Panic else DataTooLarge))"
proof -
  have pos: "0 < p * s" using source_symbols_bounds [OF assms(1,2)] by simp
  show ?thesis
    unfolding compute_symbol_size_iff [OF pos] Let_def symbol_size_overflow [OF pos assms(3)] one_symbol_iff [OF assms(1,2)] by (rule refl)
qed

lemma symbol_size_fits:
  assumes "0 < k" and "len \<le> k * 65534"
  defines "sz \<equiv> next_multiple_of (div_ceil (max len 1) k) 2"
  shows "2 dvd sz" and "0 < sz" and "sz \<le> 65534" and "len \<le> k * sz"
proof -
  show "2 dvd sz" unfolding sz_def by (simp add: next_multiple_of_dvd)
  show "0 < sz" using symbol_size_even [OF assms(1), of 0 len] unfolding sz_def by (cases "sz = 0") (simp_all add: sz_def)
  show "sz \<le> 65534" unfolding sz_def by (subst symbol_size_even [OF assms(1)]) (use assms(1,2) in \<open>auto simp: mult.commute\<close>)
  have "max len 1 \<le> sz * k" using symbol_size_even [OF assms(1), of sz len] \<open>2 dvd sz\<close> unfolding sz_def by blast
  then show "len \<le> k * sz" by (simp add: mult.commute)
qed

lemma config_params:
  assumes "nonzero_u16 n" and "rs_config_new n = Inr c" and "source_symbols_for_n_shards n = (p, s)"
  shows "source_symbols_primary c = p" "source_symbols_secondary c = s" "rs_n_shards c = n"
    "max_blob_size c = Inr (p * s * 65534)" "symbol_size_for_blob c len = compute_symbol_size len (p * s) 2"
proof -
  note k = per_blob_symbols [OF assms(1,3)]
  show c: "source_symbols_primary c = p" "source_symbols_secondary c = s" "rs_n_shards c = n"
    using assms(2,3) by (auto simp: rs_config_new_def new_from_nonzero_parameters_def Let_def split: if_splits)
  show "max_blob_size c = Inr (p * s * 65534)" "symbol_size_for_blob c len = compute_symbol_size len (p * s) 2"
    by (simp_all add: max_blob_size_def max_blob_size_for_n_shards_def max_symbol_size_def symbol_size_for_blob_def c k required_alignment_def)
qed

lemmas config_eval = rs_config_new_def new_from_nonzero_parameters_def source_symbols_for_n_shards_def
  max_n_faulty_def min_n_correct_def MAX_SOURCE_SYMBOLS_def max_blob_size_def max_blob_size_for_n_shards_def
  source_symbols_per_blob_for_n_shards_def source_symbols_per_blob_def checked_mul_def max_symbol_size_def
  symbol_size_for_blob_def required_alignment_def compute_symbol_size_iff Let_def div_ceil_def next_multiple_of_def

section \<open>Properties\<close>

text \<open>
  Building the configuration never panics: for every shard count the source-symbol counts
  are positive, within the bounds of the assertions (primary exactly \<open>n - 2f\<close>, secondary exactly
  \<open>n - f\<close>, with \<open>3 f < n\<close>), and any two reconstruction quorums of secondary slivers overlap
  in more than \<open>f\<close> shards.
\<close>

theorem encoding_config_new_total:
  assumes "nonzero_u16 n"
  shows "\<exists>c. encoding_config_new n = Inr c \<and> get_for_type c RS2 = Inr (reed_solomon c) \<and>
    cfg_n_shards c = n \<and> rs_n_shards (reed_solomon c) = n \<and>
    n_source_symbols (reed_solomon c) Primary = n - 2 * max_n_faulty n \<and>
    n_source_symbols (reed_solomon c) Secondary = n - max_n_faulty n \<and>
    3 * max_n_faulty n < n \<and>
    max_n_faulty n < 2 * n_source_symbols (reed_solomon c) Secondary - n"
proof -
  obtain p s where ps: "source_symbols_for_n_shards n = (p, s)" by force
  have n: "0 < n" using assms by (simp add: nonzero_u16_def)
  have "p = n - 2 * max_n_faulty n" "s = n - max_n_faulty n"
    using ps by (auto simp: source_symbols_for_n_shards_def Let_def min_n_correct_def)
  moreover have "p < MAX_SOURCE_SYMBOLS" "s < MAX_SOURCE_SYMBOLS"
    using source_symbols_bounds [OF assms ps] by (simp_all add: MAX_SOURCE_SYMBOLS_def)
  moreover have "3 * max_n_faulty n < n" by (rule bft_bounds [OF n])
  ultimately show ?thesis
    using ps by (auto simp: encoding_config_new_def rs_config_new_def new_from_nonzero_parameters_def Let_def
        n_source_symbols_def is_primary_def)
qed

theorem encoding_config_new_total_witness:
  "nonzero_u16 1000 \<and> (\<exists>c. encoding_config_new 1000 = Inr c \<and>
     n_source_symbols (reed_solomon c) Primary = ROW_WIDTH_PRIMARY \<and>
     n_source_symbols (reed_solomon c) Secondary = COL_HEIGHT_SECONDARY)"
proof -
  have n: "nonzero_u16 1000" by (simp add: nonzero_u16_def)
  from encoding_config_new_total [OF n] n show ?thesis
    by (auto simp: max_n_faulty_def ROW_WIDTH_PRIMARY_def COL_HEIGHT_SECONDARY_def)
qed

text \<open>
  C31: The two size limits agree: for every 64-bit length a symbol size exists exactly when the blob is not
  larger than the maximum blob size of the configuration, and it is then a multiple of the required alignment,
  at most the maximum symbol size, and large enough for the message matrix. Otherwise the error is
  \<open>DataTooLarge\<close>, except for one shard and the length \<^verbatim>\<open>u64::MAX\<close>, where rounding up overflows and the code panics.
\<close>

theorem symbol_size_iff_max_blob_size:
  assumes "nonzero_u16 n" and "rs_config_new n = Inr c" and "max_blob_size c = Inr m" and "len < 2 ^ 64"
  shows "case symbol_size_for_blob c len of
      Inr sz \<Rightarrow> len \<le> m \<and> 2 dvd sz \<and> 0 < sz \<and> sz \<le> max_symbol_size RS2 \<and>
        len \<le> n_source_symbols c Primary * n_source_symbols c Secondary * sz
    | Inl e \<Rightarrow> m < len \<and> e = (if n = 1 \<and> len = 2 ^ 64 - 1 then Panic else DataTooLarge)"
proof -
  obtain p s where ps: "source_symbols_for_n_shards n = (p, s)" by force
  note c = config_params [OF assms(1,2) ps]
  have pos: "0 < p * s" using source_symbols_bounds [OF assms(1) ps] by simp
  have m: "m = p * s * 65534" using assms(3) c(4) by simp
  show ?thesis using symbol_size_fits [OF pos, of len] m
    unfolding c(5) symbol_size_cases [OF assms(1) ps assms(4)]
    by (simp add: c(1,2) max_symbol_size_def n_source_symbols_def is_primary_def)
qed

theorem symbol_size_iff_max_blob_size_witness:
  "\<exists>c m. rs_config_new 1000 = Inr c \<and> max_blob_size c = Inr m \<and> m = 14599533452 \<and>
     symbol_size_for_blob c 14599533453 = Inl DataTooLarge"
proof -
  let ?c = "\<lparr> source_symbols_primary = 334, source_symbols_secondary = 667, rs_n_shards = 1000 \<rparr>"
  have c: "rs_config_new 1000 = Inr ?c" by (simp add: config_eval)
  have m: "max_blob_size ?c = Inr 14599533452" by (simp add: config_eval)
  have n: "nonzero_u16 1000" by (simp add: nonzero_u16_def)
  show ?thesis using symbol_size_iff_max_blob_size [OF n c m, of 14599533453] c m
    by (auto split: sum.splits)
qed

lemma symbol_size_1000:
  assumes c: "rs_config_new 1000 = Inr c" and sz: "symbol_size_for_blob c len = Inr sz"
  shows "walrus_symbol_size len = sz"
proof -
  have "c = \<lparr> source_symbols_primary = 334, source_symbols_secondary = 667, rs_n_shards = 1000 \<rparr>"
    using c by (simp add: rs_config_new_def new_from_nonzero_parameters_def source_symbols_for_n_shards_def
        max_n_faulty_def min_n_correct_def MAX_SOURCE_SYMBOLS_def)
  then have "sz = next_multiple_of (div_ceil (max len 1) 222778) 2"
    using sz
    by (simp add: symbol_size_for_blob_def source_symbols_per_blob_def checked_mul_def required_alignment_def
        compute_symbol_size_iff Let_def split: if_splits)
  moreover have "next_multiple_of r 2 = r + r mod 2" for r
    by (simp add: next_multiple_of_def)
  ultimately show ?thesis
    by (simp add: walrus_symbol_size_def Let_def and_one_eq ROW_WIDTH_PRIMARY_def COL_HEIGHT_SECONDARY_def)
qed

text \<open>
  The guest recomputes the symbol size without the encoder: for 1000 shards
  \<open>walrus_symbol_size\<close> is the symbol size of the configuration for every blob the encoder accepts.
\<close>

theorem walrus_symbol_size_agrees:
  assumes "rs_config_new 1000 = Inr c" and "symbol_size_for_blob c len = Inr sz"
  shows "walrus_symbol_size len = sz"
  using assms by (rule symbol_size_1000)

theorem walrus_symbol_size_agrees_witness:
  "\<exists>c. rs_config_new 1000 = Inr c \<and> symbol_size_for_blob c 1048576 = Inr 6 \<and> walrus_symbol_size 1048576 = 6"
proof -
  let ?c = "\<lparr> source_symbols_primary = 334, source_symbols_secondary = 667, rs_n_shards = 1000 \<rparr>"
  have c: "rs_config_new 1000 = Inr ?c" by (simp add: config_eval)
  have s: "symbol_size_for_blob ?c 1048576 = Inr 6" by (simp add: config_eval)
  from walrus_symbol_size_agrees [OF c s] c s show ?thesis by blast
qed

text \<open>
  C32: The encoded length in closed form. For a 64-bit length up to the maximum blob size, each of the \<open>n\<close> shards
  stores one copy of the metadata (two 32-byte hashes per shard and the identifier), one primary and one
  secondary sliver of the sizes the configuration reports, and the total fits 64 bits, so the arithmetic of the source
  cannot overflow. For a larger blob there is no length, and one shard with \<^verbatim>\<open>u64::MAX\<close> panics.
\<close>

theorem encoded_blob_length_exact:
  assumes "nonzero_u16 n" and "rs_config_new n = Inr c" and "max_blob_size c = Inr m" and "len < 2 ^ 64"
  shows "if len \<le> m then
      \<exists>a b. sliver_size_for_blob c Primary len = Inr a \<and> sliver_size_for_blob c Secondary len = Inr b \<and>
        encoded_slivers_length_for_n_shards n len RS2 = Inr (Some (n * (a + b))) \<and>
        encoded_blob_length_for_n_shards n len RS2 = Inr (Some (n * (32 + n * 2 * 32 + a + b))) \<and>
        len \<le> n * (a + b) \<and> n * (32 + n * 2 * 32 + a + b) < 2 ^ 64
    else encoded_blob_length_for_n_shards n len RS2 = (if n = 1 \<and> len = 2 ^ 64 - 1 then Inl Panic else Inr None)"
proof -
  obtain p s where ps: "source_symbols_for_n_shards n = (p, s)" by force
  note b = source_symbols_bounds [OF assms(1) ps] and k = per_blob_symbols [OF assms(1) ps]
  note c = config_params [OF assms(1,2) ps] and cases = symbol_size_cases [OF assms(1) ps assms(4)]
  have pos: "0 < p * s" using b by simp
  have m: "m = p * s * 65534" using assms(3) c(4) by simp
  have n: "n \<le> 65535" using assms(1) by (simp add: nonzero_u16_def)
  show ?thesis
  proof (cases "len \<le> m")
    case True
    define sz where "sz = next_multiple_of (div_ceil (max len 1) (p * s)) 2"
    have sz: "compute_symbol_size len (p * s) 2 = Inr sz" "sz \<le> 65534" "len \<le> p * s * sz"
      using True symbol_size_fits [OF pos, of len] unfolding cases m sz_def by simp_all
    have "p * sz \<le> 43691 * 65534" "s * sz \<le> 43691 * 65534" using b sz(2) by (intro mult_le_mono; simp)+
    then have small: "p * sz < 2 ^ 32" "s * sz < 2 ^ 32" by simp_all
    then have size: "sliver_size_for_blob c Primary len = Inr (s * sz)" "sliver_size_for_blob c Secondary len = Inr (p * sz)"
      by (simp_all add: sliver_size_for_blob_def c(1,2,5) sz(1) n_source_symbols_def is_primary_def checked_mul_def)
    have total: "encoded_slivers_length_for_n_shards n len RS2 = Inr (Some (n * (s * sz + p * sz)))"
      using ps k sz(1) by (simp add: encoded_slivers_length_for_n_shards_def required_alignment_def algebra_simps)
    have "p * s * sz \<le> n * (s * sz + p * sz)" using b by (simp add: mult.assoc add_mult_distrib2 trans_le_add1 mult_le_mono)
    moreover have "n * (32 + n * 2 * 32 + s * sz + p * sz) \<le> 65535 * (32 + 65535 * 2 * 32 + 4294967296 + 4294967296)"
      using n small by (intro mult_le_mono add_le_mono) simp_all
    ultimately show ?thesis using True size total sz(3)
      by (simp add: encoded_blob_length_for_n_shards_def metadata_length_for_n_shards_def algebra_simps)
  next
    case False
    then show ?thesis using ps k unfolding m
      by (simp add: encoded_blob_length_for_n_shards_def encoded_slivers_length_for_n_shards_def required_alignment_def cases)
  qed
qed

theorem encoded_blob_length_exact_witness:
  "encoded_blob_length_for_n_shards 1000 1048576 RS2 = Inr (Some (1000 * (32 + 1000 * 2 * 32 + 4002 + 2004)))"
proof -
  let ?c = "\<lparr> source_symbols_primary = 334, source_symbols_secondary = 667, rs_n_shards = 1000 \<rparr>"
  have n: "nonzero_u16 1000" by (simp add: nonzero_u16_def)
  have c: "rs_config_new 1000 = Inr ?c" by (simp add: config_eval)
  have m: "max_blob_size ?c = Inr 14599533452" by (simp add: config_eval)
  have a: "sliver_size_for_blob ?c Primary 1048576 = Inr 4002" "sliver_size_for_blob ?c Secondary 1048576 = Inr 2004"
    by (simp_all add: config_eval sliver_size_for_blob_def n_source_symbols_def is_primary_def)
  show ?thesis using encoded_blob_length_exact [OF n c m, of 1048576] a by auto
qed

end
