(* ===== verification/Walrus_Symbols.thy ===== *)
theory Walrus_Symbols
  imports Walrus_Config
begin

text \<open>
  The flat symbol vectors of \<^verbatim>\<open>walrus-core/src/encoding/symbols.rs\<close>: a byte vector read as symbols
  of a fixed size, with indexing, in-place writes, extension and truncation. The abstract view is a
  list of symbols of that size; \<open>mk_symbols\<close> is the representation of such a list, and every
  operation is shown to act on the list as expected. Capacities are not part of the model:
  \<^verbatim>\<open>with_capacity\<close>, \<^verbatim>\<open>reserve\<close> and \<^verbatim>\<open>set_min_capacity\<close> only allocate.

  Products of a \<^verbatim>\<open>usize\<close> with the symbol size and the end of an index range wrap at 64 bits, as in a release build. The
  list view holds as long as they do not: for vectors of fewer than \<open>2 ^ 64\<close> bytes, which every vector in memory is,
  and for indices whose byte range is below \<open>2 ^ 64\<close>.

  A failed assertion, an index out of range and a \<^verbatim>\<open>copy_from_slice\<close> of another length are the
  error \<open>SymbolPanic\<close>.
\<close>

section \<open>Operations\<close>

record symbols =
  sym_data :: bytes
  symbol_size :: nat

datatype symbol_error = WrongSymbolSize | SymbolPanic

definition symbols_new :: "bytes \<Rightarrow> nat \<Rightarrow> (symbols, symbol_error) result" where
  "symbols_new data sz =
     and_then (ensure (sz dvd length data) SymbolPanic) (\<lambda>_.
     Inr \<lparr> sym_data = data, symbol_size = sz \<rparr>)"

definition symbols_truncate :: "symbols \<Rightarrow> nat \<Rightarrow> symbols" where
  "symbols_truncate x len = x\<lparr> sym_data := take (usize_mul len (symbol_size x)) (sym_data x) \<rparr>"

definition symbols_zeros :: "nat \<Rightarrow> nat \<Rightarrow> symbols" where
  "symbols_zeros n_symbols sz = \<lparr> sym_data = replicate (usize_mul n_symbols sz) 0, symbol_size = sz \<rparr>"

definition symbols_with_capacity :: "nat \<Rightarrow> nat \<Rightarrow> symbols" where
  "symbols_with_capacity n_symbols sz = \<lparr> sym_data = [], symbol_size = sz \<rparr>"

definition symbols_len :: "symbols \<Rightarrow> nat" where
  "symbols_len x = length (sym_data x) div symbol_size x"

definition symbols_is_empty :: "symbols \<Rightarrow> bool" where
  "symbols_is_empty x \<longleftrightarrow> sym_data x = []"

definition symbol_range :: "symbols \<Rightarrow> nat \<Rightarrow> nat \<Rightarrow> nat \<times> nat" where
  "symbol_range x lo hi = (usize_mul (symbol_size x) lo, usize_mul (symbol_size x) hi)"

definition symbols_slice :: "symbols \<Rightarrow> nat \<Rightarrow> nat \<Rightarrow> (bytes, symbol_error) result" where
  "symbols_slice x lo hi =
     (case symbol_range x lo hi of (a, b) \<Rightarrow>
        if a \<le> b \<and> b \<le> length (sym_data x) then Inr (take (b - a) (drop a (sym_data x))) else Inl SymbolPanic)"

definition symbols_at :: "symbols \<Rightarrow> nat \<Rightarrow> (bytes, symbol_error) result" where
  "symbols_at x i = symbols_slice x i (usize_add i 1)"

definition symbols_get :: "symbols \<Rightarrow> nat \<Rightarrow> (bytes option, symbol_error) result" where
  "symbols_get x i =
     (if symbols_len x \<le> i then Inr None else and_then (symbols_at x i) (\<lambda>b. Inr (Some b)))"

text \<open>\<open>x[lo..hi].copy_from_slice(v)\<close>.\<close>

definition symbols_write :: "symbols \<Rightarrow> nat \<Rightarrow> nat \<Rightarrow> bytes \<Rightarrow> (symbols, symbol_error) result" where
  "symbols_write x lo hi v =
     (case symbol_range x lo hi of (a, b) \<Rightarrow>
        if a \<le> b \<and> b \<le> length (sym_data x) \<and> length v = b - a
        then Inr (x\<lparr> sym_data := take a (sym_data x) @ v @ drop b (sym_data x) \<rparr>) else Inl SymbolPanic)"

definition symbols_set :: "symbols \<Rightarrow> nat \<Rightarrow> bytes \<Rightarrow> (symbols, symbol_error) result" where
  "symbols_set x i v = symbols_write x i (usize_add i 1) v"

definition to_symbols :: "symbols \<Rightarrow> bytes list" where
  "to_symbols x = chunks (symbol_size x) (sym_data x)"

definition symbols_extend :: "symbols \<Rightarrow> bytes \<Rightarrow> (symbols, symbol_error) result" where
  "symbols_extend x bs =
     (if \<not> symbol_size x dvd length bs then Inl WrongSymbolSize else Inr (x\<lparr> sym_data := sym_data x @ bs \<rparr>))"

text \<open>\<open>x.data_mut()[..v.len()].copy_from_slice(v)\<close>: overwrite a prefix.\<close>

definition write_prefix :: "symbols \<Rightarrow> bytes \<Rightarrow> (symbols, symbol_error) result" where
  "write_prefix x v =
     (if length v \<le> length (sym_data x) then Inr (x\<lparr> sym_data := v @ drop (length v) (sym_data x) \<rparr>)
      else Inl SymbolPanic)"

record decoding_symbol =
  ds_index :: nat
  ds_data :: bytes

definition decoding_symbol_at :: "symbols \<Rightarrow> nat \<Rightarrow> nat \<Rightarrow> (decoding_symbol option, symbol_error) result" where
  "decoding_symbol_at x data_index symbol_index =
     and_then (symbols_at x data_index) (\<lambda>b. Inr (Some \<lparr> ds_index = symbol_index, ds_data = b \<rparr>))"

text \<open>The number of symbols is checked against 32 bits, but the index is converted to 16 bits.\<close>

definition to_decoding_symbols :: "symbols \<Rightarrow> (decoding_symbol list option, symbol_error) result" where
  "to_decoding_symbols x =
     (if symbols_len x \<ge> 2 ^ 32 then Inr None
      else and_then (try_map (\<lambda>(i, s). and_then (ok_or SymbolPanic (try_from_u 16 i)) (\<lambda>i.
             Inr \<lparr> ds_index = i, ds_data = s \<rparr>)) (enumerate 0 (to_symbols x)))
           (\<lambda>ys. Inr (Some ys)))"

section \<open>The list view\<close>

definition mk_symbols :: "nat \<Rightarrow> bytes list \<Rightarrow> symbols" where
  "mk_symbols s xs = \<lparr> sym_data = concat xs, symbol_size = s \<rparr>"

definition sized :: "nat \<Rightarrow> bytes list \<Rightarrow> bool" where
  "sized s xs \<longleftrightarrow> (\<forall>x \<in> set xs. length x = s)"

lemma sized_simps [simp]:
  "sized s []" "sized s (x # xs) \<longleftrightarrow> length x = s \<and> sized s xs"
  "sized s (xs @ ys) \<longleftrightarrow> sized s xs \<and> sized s ys"
  by (auto simp: sized_def)

lemma sized_nth: "sized s xs \<Longrightarrow> i < length xs \<Longrightarrow> length (xs ! i) = s"
  by (simp add: sized_def)

lemma sized_map: "sized s (map f xs) \<longleftrightarrow> (\<forall>x \<in> set xs. length (f x) = s)"
  by (auto simp: sized_def)

lemma sized_update [simp]: "sized s xs \<Longrightarrow> length v = s \<Longrightarrow> sized s (xs[i := v])"
  by (auto simp: sized_def dest!: set_update_subset_insert [THEN subsetD])

lemma sized_replicate [simp]: "length x = s \<Longrightarrow> sized s (replicate n x)"
  by (simp add: sized_def)

lemma sized_take [simp]: "sized s xs \<Longrightarrow> sized s (take n xs)"
  and sized_drop [simp]: "sized s xs \<Longrightarrow> sized s (drop n xs)"
  by (auto simp: sized_def dest: in_set_takeD in_set_dropD)

lemma length_concat_sized: "sized s xs \<Longrightarrow> length (concat xs) = length xs * s"
  by (induction xs) auto

lemma take_concat_sized: "sized s xs \<Longrightarrow> take (n * s) (concat xs) = concat (take n xs)"
proof (induction xs arbitrary: n)
  case (Cons x xs)
  then show ?case by (cases n) simp_all
qed simp

lemma drop_concat_sized: "sized s xs \<Longrightarrow> drop (n * s) (concat xs) = concat (drop n xs)"
proof (induction xs arbitrary: n)
  case (Cons x xs)
  then show ?case by (cases n) simp_all
qed simp

lemma chunks_concat_sized: "sized s xs \<Longrightarrow> 0 < s \<Longrightarrow> chunks s (concat xs) = xs"
  by (induction xs) (simp_all add: chunks_Cons)

lemma mk_symbols_sel [simp]: "sym_data (mk_symbols s xs) = concat xs" "symbol_size (mk_symbols s xs) = s"
  by (simp_all add: mk_symbols_def)

lemma to_symbols_mk [simp]: "sized s xs \<Longrightarrow> 0 < s \<Longrightarrow> to_symbols (mk_symbols s xs) = xs"
  by (simp add: to_symbols_def chunks_concat_sized)

lemma symbols_len_mk [simp]: "sized s xs \<Longrightarrow> 0 < s \<Longrightarrow> symbols_len (mk_symbols s xs) = length xs"
  by (simp add: symbols_len_def length_concat_sized)

lemma u16_products:
  assumes "(a :: nat) < 65536" and "b < 65536"
  shows "a * b < 2 ^ 64" and "c < 65536 \<Longrightarrow> a * b * c < 2 ^ 64"
proof -
  have ab: "a * b < 65536 * 65536" using assms by (intro mult_strict_mono) simp_all
  then show "a * b < 2 ^ 64" by simp
  show "a * b * c < 2 ^ 64" if "c < 65536"
  proof -
    have "a * b * c < (65536 * 65536) * 65536" by (intro mult_strict_mono [OF ab that]) simp_all
    then show ?thesis by simp
  qed
qed

lemma usize_range:
  assumes "length xs * s < 2 ^ 64" and "i \<le> length xs"
  shows "usize_mul s i = s * i" and "usize_mul i s = i * s"
proof -
  have a: "i * s < 2 ^ 64" using mult_le_mono1 [OF assms(2), of s] assms(1) by (rule le_less_trans)
  then show "usize_mul i s = i * s" by (rule usize_mul_small)
  from a have "s * i < 2 ^ 64" by (simp only: mult.commute)
  then show "usize_mul s i = s * i" by (rule usize_mul_small)
qed

lemma usize_succ:
  assumes "length xs * s < 2 ^ 64" and "i < length xs" and "0 < s"
  shows "usize_add i 1 = i + 1"
proof -
  have "Suc i * 1 \<le> length xs * s" using assms(2,3) by (intro mult_le_mono) simp_all
  with assms(1) show ?thesis by simp
qed

lemma symbols_slice_mk:
  assumes "sized s xs" and "lo \<le> hi" and "hi \<le> length xs" and "length xs * s < 2 ^ 64"
  shows "symbols_slice (mk_symbols s xs) lo hi = Inr (concat (take (hi - lo) (drop lo xs)))"
proof -
  have r: "usize_mul s lo = s * lo" "usize_mul s hi = s * hi" using usize_range [OF assms(4)] assms(2,3) by simp_all
  have "take (s * hi - s * lo) (drop (s * lo) (concat xs)) = take ((hi - lo) * s) (drop (lo * s) (concat xs))"
    by (simp add: diff_mult_distrib diff_mult_distrib2 mult.commute)
  also have "\<dots> = concat (take (hi - lo) (drop lo xs))"
    using assms(1) by (simp add: drop_concat_sized take_concat_sized)
  finally show ?thesis using assms(1-3)
    by (simp add: symbols_slice_def symbol_range_def length_concat_sized r mult.commute)
qed

lemma symbols_at_mk [simp]:
  "sized s xs \<Longrightarrow> i < length xs \<Longrightarrow> 0 < s \<Longrightarrow> length xs * s < 2 ^ 64 \<Longrightarrow> symbols_at (mk_symbols s xs) i = Inr (xs ! i)"
  by (simp only: symbols_at_def usize_succ) (simp add: symbols_slice_mk Cons_nth_drop_Suc [symmetric])

lemma symbols_write_mk:
  assumes "sized s xs" and "lo \<le> hi" and "hi \<le> length xs" and "length xs * s < 2 ^ 64" and "sized s vs" and "length vs = hi - lo"
  shows "symbols_write (mk_symbols s xs) lo hi (concat vs) = Inr (mk_symbols s (take lo xs @ vs @ drop hi xs))"
proof -
  have r: "usize_mul s lo = s * lo" "usize_mul s hi = s * hi" using usize_range [OF assms(4)] assms(2,3) by simp_all
  have "take (s * lo) (concat xs) = concat (take lo xs)" "drop (s * hi) (concat xs) = concat (drop hi xs)"
    using take_concat_sized [OF assms(1), of lo] drop_concat_sized [OF assms(1), of hi] by (simp_all add: mult.commute)
  then show ?thesis using assms(1-3,5,6)
    by (simp add: symbols_write_def symbol_range_def length_concat_sized mk_symbols_def r diff_mult_distrib diff_mult_distrib2 mult.commute)
qed

lemma symbols_set_mk [simp]:
  "sized s xs \<Longrightarrow> i < length xs \<Longrightarrow> length v = s \<Longrightarrow> 0 < s \<Longrightarrow> length xs * s < 2 ^ 64 \<Longrightarrow>
   symbols_set (mk_symbols s xs) i v = Inr (mk_symbols s (xs[i := v]))"
  using symbols_write_mk [of s xs i "i + 1" "[v]"] by (simp only: symbols_set_def usize_succ) (simp add: upd_conv_take_nth_drop)

lemma symbols_extend_mk [simp]:
  "sized s ys \<Longrightarrow> symbols_extend (mk_symbols s xs) (concat ys) = Inr (mk_symbols s (xs @ ys))"
  by (simp add: symbols_extend_def length_concat_sized mk_symbols_def)

lemma symbols_truncate_mk [simp]:
  "sized s xs \<Longrightarrow> n * s < 2 ^ 64 \<Longrightarrow> symbols_truncate (mk_symbols s xs) n = mk_symbols s (take n xs)"
  by (simp add: symbols_truncate_def mk_symbols_def take_concat_sized)

lemma symbols_zeros_mk: "n * s < 2 ^ 64 \<Longrightarrow> symbols_zeros n s = mk_symbols s (replicate n (replicate s 0))"
proof -
  assume "n * s < 2 ^ 64"
  moreover have "concat (replicate n (replicate s 0)) = replicate (n * s) (0 :: byte)"
    by (induction n) (simp_all add: replicate_add)
  ultimately show ?thesis by (simp add: symbols_zeros_def mk_symbols_def)
qed

lemma symbols_with_capacity_mk: "symbols_with_capacity n s = mk_symbols s []"
  by (simp add: symbols_with_capacity_def mk_symbols_def)

text \<open>
  Every well-formed vector is the representation of a list. A vector in memory has at most \<^verbatim>\<open>isize::MAX\<close> bytes.
\<close>

definition symbols_wf :: "symbols \<Rightarrow> bool" where
  "symbols_wf x \<longleftrightarrow> 0 < symbol_size x \<and> symbol_size x dvd length (sym_data x) \<and> length (sym_data x) < 2 ^ 63"

lemma sized_chunks: "0 < s \<Longrightarrow> s dvd length bs \<Longrightarrow> sized s (chunks s bs)"
proof (induction s bs rule: chunks.induct)
  case (1 s bs)
  show ?case
  proof (cases "bs = []")
    case False
    then have "s \<le> length bs" using 1 by (auto dest: dvd_imp_le)
    moreover have "s dvd length (drop s bs)" using 1(3) calculation by auto
    ultimately show ?thesis using 1 False by (simp add: chunks.simps [of s bs])
  qed simp
qed

lemma mk_symbols_cases:
  assumes "symbols_wf x"
  obtains xs where "x = mk_symbols (symbol_size x) xs" and "sized (symbol_size x) xs"
  using assms sized_chunks [of "symbol_size x" "sym_data x"]
  by (auto simp: symbols_wf_def mk_symbols_def concat_chunks intro!: that [of "chunks (symbol_size x) (sym_data x)"])

lemma symbols_wf_mk [simp]: "sized s xs \<Longrightarrow> 0 < s \<Longrightarrow> length xs * s < 2 ^ 63 \<Longrightarrow> symbols_wf (mk_symbols s xs)"
  by (simp add: symbols_wf_def length_concat_sized)

text \<open>Counts and indices past the 64-bit range, for a symbol size that divides it.\<close>

lemma usize_mul_wraps: "s * q = 2 ^ 64 \<Longrightarrow> usize_mul s i = usize_mul s (i mod q)"
  by (simp add: usize_mul_def mult_mod_right)

lemma symbols_wrap:
  assumes "symbol_size x * q = 2 ^ 64"
  shows "symbols_truncate x n = symbols_truncate x (n mod q)" and "symbols_set x i v = symbols_set x (i mod q) v"
proof -
  let ?s = "symbol_size x"
  show "symbols_truncate x n = symbols_truncate x (n mod q)"
    using usize_mul_wraps [OF assms, of n] by (simp add: symbols_truncate_def usize_mul_def mult.commute)
  have "usize_mul ?s (usize_add j 1) = ?s * (j + 1) mod 2 ^ 64" for j by (simp add: usize_mul_def usize_add_def mod_mult_right_eq)
  moreover have "?s * (i + 1) mod 2 ^ 64 = ?s * (i mod q + 1) mod 2 ^ 64"
    using mod_add_cong [OF usize_mul_wraps [OF assms, of i, unfolded usize_mul_def] refl, of ?s] by (simp only: add_mult_distrib2 mult_1_right)
  ultimately have "usize_mul ?s (usize_add i 1) = usize_mul ?s (usize_add (i mod q) 1)" by (simp only:)
  with usize_mul_wraps [OF assms, of i] show "symbols_set x i v = symbols_set x (i mod q) v"
    by (simp only: symbols_set_def symbols_write_def symbol_range_def)
qed

section \<open>Properties\<close>

text \<open>
  C28: The flat vector implements a list of symbols. On a well-formed vector, \<^verbatim>\<open>get\<close> is the list lookup with \<open>None\<close>
  past the end. As long as the byte offsets stay below \<open>2 ^ 64\<close>, writing a symbol of the right size at a valid
  index updates the list at that index and nothing else, any other write panics, and truncating takes a prefix.
  Extending by whole symbols appends them and by anything else is refused. Every result is well-formed
  again. Past \<open>2 ^ 64\<close> the release build wraps: for a symbol size that divides it, an index and a count act modulo the quotient.
\<close>

theorem symbols_refine_list:
  assumes "symbols_wf x" and "s = symbol_size x"
  shows "(\<forall>i. symbols_get x i = Inr (if i < length (to_symbols x) then Some (to_symbols x ! i) else None)) \<and>
    (\<forall>i v. (i + 1) * s < 2 ^ 64 \<longrightarrow>
      (if i < length (to_symbols x) \<and> length v = s then \<exists>y. symbols_set x i v = Inr y \<and> symbols_wf y \<and>
        symbol_size y = s \<and> to_symbols y = (to_symbols x)[i := v]
       else symbols_set x i v = Inl SymbolPanic)) \<and>
    (\<forall>n. n * s < 2 ^ 64 \<longrightarrow> symbols_wf (symbols_truncate x n) \<and> to_symbols (symbols_truncate x n) = take n (to_symbols x)) \<and>
    (\<forall>vs. sized s vs \<and> length (sym_data x) + length vs * s < 2 ^ 63 \<longrightarrow> (\<exists>y. symbols_extend x (concat vs) = Inr y \<and> symbols_wf y \<and>
        symbol_size y = s \<and> to_symbols y = to_symbols x @ vs)) \<and>
    (\<forall>bs. \<not> s dvd length bs \<longrightarrow> symbols_extend x bs = Inl WrongSymbolSize) \<and>
    (\<forall>q i v. s * q = 2 ^ 64 \<longrightarrow> symbols_truncate x i = symbols_truncate x (i mod q) \<and> symbols_set x i v = symbols_set x (i mod q) v)"
proof -
  have s: "0 < s" using assms by (simp add: symbols_wf_def)
  obtain xs where x: "x = mk_symbols s xs" and xs: "sized s xs" using mk_symbols_cases [OF assms(1)] assms(2) by blast
  have tx: "to_symbols x = xs" using x xs s by simp
  have mem: "length xs * s < 2 ^ 63" using assms(1) xs by (simp add: x symbols_wf_def length_concat_sized)
  then have mem64: "length xs * s < 2 ^ 64" by simp
  have "symbols_get x i = Inr (if i < length xs then Some (xs ! i) else None)" for i
    using x xs s mem64 by (auto simp: symbols_get_def)
  moreover have "if i < length xs \<and> length v = s then \<exists>y. symbols_set x i v = Inr y \<and> symbols_wf y \<and>
      symbol_size y = s \<and> to_symbols y = xs[i := v] else symbols_set x i v = Inl SymbolPanic"
    if i: "(i + 1) * s < 2 ^ 64" for i v
  proof (cases "i < length xs \<and> length v = s")
    case True
    then show ?thesis using x xs s mem mem64 by simp
  next
    case False
    have "(i + 1) * 1 \<le> (i + 1) * s" using s by (intro mult_le_mono2) simp
    then have "i + 1 < 2 ^ 64" "s * i < 2 ^ 64" "s * Suc i < 2 ^ 64" using i by (simp_all add: algebra_simps)
    then have r: "usize_add i (Suc 0) = Suc i" "usize_mul s i = s * i" "usize_mul s (Suc i) = s * Suc i" by simp_all
    have "s + s * i \<le> length xs * s \<longleftrightarrow> i < length xs"
      using s mult_le_cancel2 [of "Suc i" s "length xs"] by (simp add: mult.commute Suc_le_eq)
    then show ?thesis using False xs by (auto simp: x symbols_set_def symbols_write_def symbol_range_def r length_concat_sized)
  qed
  moreover have "symbols_wf (symbols_truncate x n) \<and> to_symbols (symbols_truncate x n) = take n xs" if "n * s < 2 ^ 64" for n
  proof -
    have "length (take n xs) * s \<le> length xs * s" by (intro mult_le_mono1) simp
    then have "length (take n xs) * s < 2 ^ 63" using mem by linarith
    then show ?thesis using that x xs s symbols_wf_mk [of s "take n xs"] by simp
  qed
  moreover have "\<exists>y. symbols_extend x (concat vs) = Inr y \<and> symbols_wf y \<and> symbol_size y = s \<and> to_symbols y = xs @ vs"
    if "sized s vs" "length (sym_data x) + length vs * s < 2 ^ 63" for vs
    using that x xs s symbols_wf_mk [of s "xs @ vs"] by (simp add: length_concat_sized add_mult_distrib)
  moreover have "symbols_extend x bs = Inl WrongSymbolSize" if "\<not> s dvd length bs" for bs
    using that x by (simp add: symbols_extend_def)
  ultimately show ?thesis unfolding tx using symbols_wrap [of x] assms(2) by blast
qed

theorem symbols_refine_list_witness:
  "to_symbols \<lparr> sym_data = [1, 2, 3, 4], symbol_size = 2 \<rparr> = [[1, 2], [3, 4]] \<and>
   (\<exists>y. symbols_set \<lparr> sym_data = [1, 2, 3, 4], symbol_size = 2 \<rparr> 1 [7, 8] = Inr y \<and> to_symbols y = [[1, 2], [7, 8]])"
proof -
  let ?x = "\<lparr> sym_data = [1, 2, 3, 4], symbol_size = 2 \<rparr>"
  have wf: "symbols_wf ?x" by (simp add: symbols_wf_def)
  have t: "to_symbols ?x = [[1, 2], [3, 4]]" by code_simp
  have "1 < length (to_symbols ?x) \<and> length [7, 8 :: byte] = 2" unfolding t by simp
  moreover have "2 = symbol_size ?x" "(1 + 1) * 2 < (2 :: nat) ^ 64" by simp_all
  ultimately have "\<exists>y. symbols_set ?x 1 [7, 8] = Inr y \<and> symbols_wf y \<and> symbol_size y = 2 \<and> to_symbols y = (to_symbols ?x)[1 := [7, 8]]"
    using symbols_refine_list [OF wf, of 2, THEN conjunct2, THEN conjunct1, rule_format, of 1 "[7, 8]"] by (simp only: if_True simp_thms)
  then show ?thesis unfolding t by auto
qed

end
