(* ===== verification/Walrus_Mapping.thy ===== *)
theory Walrus_Mapping
  imports Walrus_Symbols "HOL-Library.Multiset"
begin

text \<open>
  The assignment of sliver pairs to shards, \<^verbatim>\<open>walrus-core/src/encoding/mapping.rs\<close>, with the sliver
  and pair types of \<^verbatim>\<open>encoding/slivers.rs\<close>. The 32 bytes of the blob
  identifier, read as a big-endian number, rotate the pairs over the shards.

  The locale \<open>placement\<close> is the interface between pairs and shards: two index translations that
  are inverse to each other on the shard indices.
\<close>

section \<open>Slivers and pairs\<close>

record sliver_data =
  sl_symbols :: symbols
  sl_index :: nat

record sliver_pair =
  pair_primary :: sliver_data
  pair_secondary :: sliver_data

definition pair_index :: "sliver_pair \<Rightarrow> nat" where
  "pair_index p = sl_index (pair_primary p)"

datatype sliver_assignment_error = InconsistentRotation | InvalidInputOrder | AssignmentPanic

section \<open>Rotation\<close>

definition bytes_mod :: "bytes \<Rightarrow> nat \<Rightarrow> nat" where
  "bytes_mod bs modulus = fold (\<lambda>b acc. (acc * 256 + unat b) mod modulus) bs 0"

definition rotation_offset :: "nat \<Rightarrow> bytes \<Rightarrow> nat" where
  "rotation_offset n_shards blob_id = bytes_mod blob_id n_shards"

definition to_shard_index :: "nat \<Rightarrow> nat \<Rightarrow> bytes \<Rightarrow> nat" where
  "to_shard_index pair n_shards blob_id = (pair + rotation_offset n_shards blob_id) mod n_shards"

definition to_pair_index :: "nat \<Rightarrow> nat \<Rightarrow> bytes \<Rightarrow> nat" where
  "to_pair_index shard n_shards blob_id =
     (n_shards + shard - rotation_offset n_shards blob_id) mod n_shards"

definition rotate_right :: "nat \<Rightarrow> 'a list \<Rightarrow> 'a list" where
  "rotate_right k xs = drop (length xs - k) xs @ take (length xs - k) xs"

definition rotate_by_bytes :: "'a list \<Rightarrow> bytes \<Rightarrow> 'a list" where
  "rotate_by_bytes xs rotation = rotate_right (bytes_mod rotation (length xs)) xs"

definition is_rotation :: "sliver_pair list \<Rightarrow> bool" where
  "is_rotation pairs \<longleftrightarrow>
     (\<forall>(i, p) \<in> set (enumerate 0 pairs). pair_index p = (i + pair_index (pairs ! 0)) mod length pairs)"

definition rotate_pairs ::
  "sliver_pair list \<Rightarrow> bytes \<Rightarrow> (unit, sliver_assignment_error) result \<times> sliver_pair list" where
  "rotate_pairs pairs blob_id =
     (if \<not> length pairs < 2 ^ 16 then (Inl AssignmentPanic, pairs)
      else if length pairs = 0 then (Inr (), pairs)
      else if is_rotation pairs then
        if pair_index (pairs ! 0) = 0 then (Inr (), rotate_by_bytes pairs blob_id)
        else if pair_index (pairs ! 0) \<noteq> to_pair_index 0 (length pairs) blob_id
        then (Inl InconsistentRotation, pairs)
        else (Inr (), pairs)
      else (Inl InvalidInputOrder, pairs))"

definition rotate_pairs_unchecked :: "sliver_pair list \<Rightarrow> bytes \<Rightarrow> sliver_pair list" where
  "rotate_pairs_unchecked pairs blob_id =
     (if pairs = [] then pairs else rotate_by_bytes pairs blob_id)"

section \<open>Facts\<close>

lemma bytes_mod_fold:
  "fold (\<lambda>b acc. (acc * 256 + unat b) mod m) bs a =
   (if bs = [] then a else (a * 256 ^ length bs + from_be_bytes bs) mod m)"
proof (induction bs arbitrary: a)
  case (Cons b bs)
  have be: "from_be_bytes (b # bs) = unat b * 256 ^ length bs + from_be_bytes bs"
    by (simp add: from_be_bytes_def from_le_bytes_append)
  have "((a * 256 + unat b) mod m * 256 ^ length bs + from_be_bytes bs) mod m =
      ((a * 256 + unat b) * 256 ^ length bs + from_be_bytes bs) mod m"
    by (metis mod_add_left_eq mod_mult_left_eq)
  with Cons show ?case by (simp add: be algebra_simps) (simp add: from_be_bytes_def)
qed simp

lemma bytes_mod_eq: "bytes_mod bs m = from_be_bytes bs mod m"
  by (simp add: bytes_mod_def bytes_mod_fold) (simp add: from_be_bytes_def)

lemma rotation_offset_less: "0 < n \<Longrightarrow> rotation_offset n blob_id < n"
  by (simp add: rotation_offset_def bytes_mod_eq)

locale placement =
  fixes n :: nat and shard_of pair_of :: "nat \<Rightarrow> nat"
  assumes shard_less: "p < n \<Longrightarrow> shard_of p < n"
    and pair_less: "s < n \<Longrightarrow> pair_of s < n"
    and pair_shard: "p < n \<Longrightarrow> pair_of (shard_of p) = p"
    and shard_pair: "s < n \<Longrightarrow> shard_of (pair_of s) = s"
begin

lemma pairs_distributed: "mset (map pair_of [0..<n]) = mset [0..<n]"
proof -
  have inj: "inj_on pair_of {..<n}" by (rule inj_onI) (metis lessThan_iff shard_pair)
  have "pair_of ` {..<n} = {..<n}" using pair_less pair_shard shard_less by (force simp: image_iff)
  then have "mset_set (pair_of ` {..<n}) = mset_set {..<n}" by simp
  then show ?thesis using image_mset_mset_set [OF inj] by (simp add: atLeast0LessThan)
qed

end

lemma mod_shift_inverse:
  fixes p n off :: nat
  assumes "p < n" and "off < n"
  shows "(n + (p + off) mod n - off) mod n = p" and "((n + p - off) mod n + off) mod n = p"
proof -
  show "(n + (p + off) mod n - off) mod n = p"
  proof (cases "p + off < n")
    case True
    then show ?thesis using assms by simp
  next
    case False
    then have "(p + off) mod n = p + off - n" using assms by (simp add: mod_if)
    then show ?thesis using False assms by simp
  qed
  show "((n + p - off) mod n + off) mod n = p"
  proof (cases "off \<le> p")
    case True
    then have "(n + p - off) mod n = p - off" using assms by (simp add: mod_if)
    then show ?thesis using True assms by simp
  next
    case False
    then have "(n + p - off) mod n = n + p - off" using assms by simp
    then show ?thesis using False assms by simp
  qed
qed

interpretation rotation: placement "Suc m"
  "\<lambda>p. to_shard_index p (Suc m) blob_id" "\<lambda>s. to_pair_index s (Suc m) blob_id" for m blob_id
proof -
  have off: "rotation_offset (Suc m) blob_id < Suc m" by (simp add: rotation_offset_less)
  show "placement (Suc m) (\<lambda>p. to_shard_index p (Suc m) blob_id) (\<lambda>s. to_pair_index s (Suc m) blob_id)"
    by unfold_locales
      (simp_all only: to_shard_index_def to_pair_index_def mod_shift_inverse off mod_less_divisor zero_less_Suc)
qed

lemma nth_rotate_right:
  assumes "k < length xs" and "i < length xs"
  shows "rotate_right k xs ! i = xs ! ((length xs + i - k) mod length xs)"
proof (cases "i < k")
  case True
  then show ?thesis using assms by (simp add: rotate_right_def nth_append)
next
  case False
  then have "(length xs + i - k) mod length xs = i - k" using assms by (simp add: mod_if)
  then show ?thesis using False assms by (simp add: rotate_right_def nth_append)
qed

lemma length_rotate_right [simp]: "length (rotate_right k xs) = length xs"
  by (simp add: rotate_right_def)

lemma mset_rotate_right: "mset (rotate_right k xs) = mset xs"
  unfolding rotate_right_def by (metis add.commute append_take_drop_id mset_append)

lemma is_rotation_iff:
  "is_rotation pairs \<longleftrightarrow>
     (\<forall>i < length pairs. pair_index (pairs ! i) = (i + pair_index (pairs ! 0)) mod length pairs)"
  by (auto simp: is_rotation_def in_set_enumerate_eq)

text \<open>What an accepted slice looks like afterwards: shard \<open>s\<close> holds its pair.\<close>

definition placed :: "sliver_pair list \<Rightarrow> bytes \<Rightarrow> bool" where
  "placed pairs blob_id \<longleftrightarrow>
     (\<forall>s < length pairs. pair_index (pairs ! s) = to_pair_index s (length pairs) blob_id)"

lemma mod_add_shift: "(off :: nat) < n \<Longrightarrow> s < n \<Longrightarrow> (s + (n - off) mod n) mod n = (n + s - off) mod n"
  by (cases "off = 0") (auto simp: add.commute)

lemma rotate_pairs_placed:
  assumes "rotate_pairs pairs blob_id = (Inr (), pairs')"
  shows "length pairs' = length pairs \<and> mset pairs' = mset pairs \<and> placed pairs' blob_id"
proof (cases "pairs = []")
  case True
  with assms show ?thesis by (simp add: rotate_pairs_def placed_def)
next
  case False
  let ?n = "length pairs" let ?off = "rotation_offset ?n blob_id"
  have n: "0 < ?n" using False by simp
  have off: "?off < ?n" by (rule rotation_offset_less [OF n])
  have rot: "is_rotation pairs" using assms False by (auto simp: rotate_pairs_def split: if_splits)
  show ?thesis
  proof (cases "pair_index (pairs ! 0) = 0")
    case True
    have p': "pairs' = rotate_right ?off pairs"
      using assms True False rot by (auto simp: rotate_pairs_def rotate_by_bytes_def rotation_offset_def split: if_splits)
    have "pair_index (pairs' ! s) = to_pair_index s ?n blob_id" if "s < ?n" for s
      using rot True that n off by (simp add: p' nth_rotate_right is_rotation_iff to_pair_index_def)
    then show ?thesis by (simp add: p' placed_def mset_rotate_right)
  next
    case False
    then have eq: "pairs' = pairs" "pair_index (pairs ! 0) = to_pair_index 0 ?n blob_id"
      using assms rot n by (auto simp: rotate_pairs_def split: if_splits)
    then have "pair_index (pairs ! s) = to_pair_index s ?n blob_id" if "s < ?n" for s
      using rot that off mod_add_shift [OF off that] by (simp add: is_rotation_iff to_pair_index_def)
    with eq show ?thesis by (simp add: placed_def)
  qed
qed

lemma placed_rotation:
  assumes "placed pairs blob_id" and "pairs \<noteq> []"
  shows "is_rotation pairs"
proof -
  let ?n = "length pairs"
  have off: "rotation_offset ?n blob_id < ?n" using assms(2) by (intro rotation_offset_less) simp
  have "pair_index (pairs ! i) = (i + pair_index (pairs ! 0)) mod ?n" if "i < ?n" for i
    using assms that mod_add_shift [OF off that] by (simp add: placed_def to_pair_index_def)
  then show ?thesis by (simp add: is_rotation_iff)
qed


section \<open>Properties\<close>

text \<open>
  The two index translations are inverse to each other on all shard counts, so every shard
  stores exactly one sliver pair of a blob, and the rotation is by the blob identifier read as a
  big-endian number.
\<close>

theorem shard_pair_inverse:
  assumes "0 < n" and "i < n"
  shows "to_pair_index (to_shard_index i n blob_id) n blob_id = i \<and>
    to_shard_index (to_pair_index i n blob_id) n blob_id = i \<and>
    to_shard_index i n blob_id = (i + from_be_bytes blob_id) mod n \<and>
    mset (map (\<lambda>s. to_pair_index s n blob_id) [0..<n]) = mset [0..<n]"
proof -
  obtain m where n: "n = Suc m" using assms(1) gr0_conv_Suc by auto
  show ?thesis using assms(2) rotation.pair_shard [of i m] rotation.shard_pair [of i m]
      rotation.pairs_distributed [of m blob_id]
    unfolding n by (simp del: upt_Suc add: to_shard_index_def rotation_offset_def bytes_mod_eq mod_add_right_eq)
qed

theorem shard_pair_inverse_witness:
  "to_pair_index (to_shard_index 11 13 [1, 27]) 13 [1, 27] = 11"
  by (rule shard_pair_inverse [THEN conjunct1]) simp_all

text \<open>
  C30: Rotating the pairs of a blob: on success the slice holds the same pairs, shard \<open>s\<close> holds
  exactly the pair that the index translation assigns to it, and rotating again changes nothing;
  on failure the slice is left as it was.
\<close>

theorem rotate_pairs_correct:
  "case rotate_pairs pairs blob_id of
     (Inr _, pairs') \<Rightarrow> mset pairs' = mset pairs \<and>
       (\<forall>s < length pairs. pair_index (pairs' ! s) = to_pair_index s (length pairs) blob_id) \<and>
       rotate_pairs pairs' blob_id = (Inr (), pairs')
   | (Inl e, pairs') \<Rightarrow> pairs' = pairs"
proof (cases "fst (rotate_pairs pairs blob_id)")
  case (Inl e)
  then show ?thesis by (auto simp: rotate_pairs_def split: if_splits)
next
  case (Inr u)
  then obtain pairs' where r: "rotate_pairs pairs blob_id = (Inr (), pairs')" by (metis old.unit.exhaust prod.collapse)
  note p = rotate_pairs_placed [OF r]
  have len: "length pairs < 2 ^ 16" using r by (auto simp: rotate_pairs_def split: if_splits)
  have "rotate_pairs pairs' blob_id = (Inr (), pairs')"
  proof (cases "pairs' = []")
    case True
    then show ?thesis by (simp add: rotate_pairs_def)
  next
    case False
    let ?n = "length pairs'"
    have n: "0 < ?n" using False by simp
    have rot: "is_rotation pairs'" using p False by (intro placed_rotation [of _ blob_id]) simp_all
    have first: "pair_index (pairs' ! 0) = to_pair_index 0 ?n blob_id" using p n unfolding placed_def by blast
    have "rotate_by_bytes pairs' blob_id = pairs'" if "pair_index (pairs' ! 0) = 0"
    proof -
      have "rotation_offset ?n blob_id = 0"
        using that first rotation_offset_less [OF n, of blob_id]
        by (auto simp: to_pair_index_def mod_eq_0_iff_dvd dest: dvd_imp_le)
      then show ?thesis by (simp add: rotate_by_bytes_def rotation_offset_def rotate_right_def)
    qed
    then show ?thesis using rot first p len False by (simp add: rotate_pairs_def)
  qed
  with r p show ?thesis by (simp add: placed_def)
qed

definition demo_pair :: "nat \<Rightarrow> sliver_pair" where
  "demo_pair i = (let d = \<lparr> sl_symbols = \<lparr> sym_data = [], symbol_size = 1 \<rparr>, sl_index = i \<rparr>
     in \<lparr> pair_primary = d, pair_secondary = d \<rparr>)"

theorem rotate_pairs_correct_witness:
  "map pair_index (snd (rotate_pairs (map demo_pair [0, 1, 2]) [1])) = [2, 0, 1] \<and>
   pair_index (snd (rotate_pairs (map demo_pair [0, 1, 2]) [1]) ! 1) = to_pair_index 1 3 [1]"
proof -
  let ?r = "rotate_pairs (map demo_pair [0, 1, 2]) [1]"
  have l: "length (map demo_pair [0, 1, 2]) = 3" by simp
  have a: "fst ?r = Inr ()" "map pair_index (snd ?r) = [2, 0, 1]"
    by (simp_all add: rotate_pairs_def is_rotation_def demo_pair_def pair_index_def Let_def
        rotate_by_bytes_def rotate_right_def bytes_mod_def)
  from a(1) obtain P where r: "?r = (Inr (), P)" by (cases ?r) auto
  have "pair_index (P ! 1) = to_pair_index 1 3 [1]"
    using rotate_pairs_correct [of "map demo_pair [0, 1, 2]" "[1]"] unfolding l r by simp
  then have "pair_index (snd ?r ! 1) = to_pair_index 1 3 [1]" unfolding r by simp
  with a(2) show ?thesis by blast
qed

end
