(* ===== verification/Walrus_Merkle.thy ===== *)
theory Walrus_Merkle
  imports Prelude
begin

text \<open>
  The Merkle tree of \<^verbatim>\<open>walrus-core/src/merkle.rs\<close>. The hash function (Blake2b-256 in
  the program) is a parameter \<open>H\<close> on byte strings; leaves are hashed behind the prefix byte
  0 and inner nodes behind the prefix byte 1, an empty subtree counts as 32 zero bytes. The
  tree is the flat vector of the source, level by level, filled by the loop
  \<open>build_loop\<close>; \<open>get_proof\<close> walks it with index arithmetic and \<open>verify_proof\<close>
  recomputes the root from a path. A path of 64 or more nodes, where the shift of the
  source is wider than the index, is outside the model.

  The flat vector refines the level-by-level description \<open>flat_levels\<close>. The locale
  \<open>vector_commitment\<close> is what the openings of a blob use of the tree: every position
  opens and verifies, an index out of range does not.
\<close>

section \<open>Nodes, hashes and trees\<close>

datatype node = Empty | Digest bytes

primrec node_bytes :: "node \<Rightarrow> bytes" where
  "node_bytes Empty = replicate 32 0"
| "node_bytes (Digest val) = val"

datatype merkle_proof_error = PathLengthTooLarge | LeafIndexOutOfBounds nat | RootMismatch

record merkle_tree =
  nodes :: "node list"
  n_leaves :: nat

definition leaf_hash :: "(bytes \<Rightarrow> bytes) \<Rightarrow> bytes \<Rightarrow> node" where
  "leaf_hash H input = Digest (H (0 # input))"

definition inner_hash :: "(bytes \<Rightarrow> bytes) \<Rightarrow> node \<Rightarrow> node \<Rightarrow> node" where
  "inner_hash H l r = Digest (H (1 # node_bytes l @ node_bytes r))"

lemma half_up_less: "1 < n \<Longrightarrow> (n + 1) div 2 < (n :: nat)"
  by presburger

lemma half_up_eqs:
  "(n + n mod 2) div 2 = (n + 1) div 2"
  "next_multiple_of n 2 div 2 = (n + 1) div 2"
  "(if n mod 2 = 1 then n + 1 else n) div 2 = (n + 1) div 2"
  by (simp_all add: next_multiple_of_def) presburger+

text \<open>One level: push an inner node for every pair of the level that starts at \<open>prev\<close>.\<close>

definition push_level :: "(bytes \<Rightarrow> bytes) \<Rightarrow> nat \<Rightarrow> nat \<Rightarrow> node list \<Rightarrow> node list" where
  "push_level H prev level_nodes ns =
     fold (\<lambda>k ns. ns @ [inner_hash H (ns ! (prev + 2 * k)) (ns ! (prev + 2 * k + 1))])
       [0..<level_nodes div 2] ns"

function build_loop :: "(bytes \<Rightarrow> bytes) \<Rightarrow> node list \<Rightarrow> nat \<Rightarrow> nat \<Rightarrow> node list" where
  "build_loop H ns level_nodes prev_level_index =
     (if level_nodes > 1 then
        let ns1 = (if level_nodes mod 2 = 1 then ns @ [Empty] else ns);
            level1 = (if level_nodes mod 2 = 1 then level_nodes + 1 else level_nodes);
            new_level_index = prev_level_index + level1
        in build_loop H (push_level H prev_level_index level1 ns1) (level1 div 2) new_level_index
      else ns)"
  by pat_completeness auto
termination
  by (relation "measure (\<lambda>(H, ns, level_nodes, prev). level_nodes)")
    (simp_all only: wf_measure in_measure prod.case half_up_eqs half_up_less)

declare build_loop.simps [simp del]

definition build_from_leaf_hashes :: "(bytes \<Rightarrow> bytes) \<Rightarrow> node list \<Rightarrow> merkle_tree" where
  "build_from_leaf_hashes H leaves =
     \<lparr> nodes = build_loop H leaves (length leaves) 0, n_leaves = length leaves \<rparr>"

definition build :: "(bytes \<Rightarrow> bytes) \<Rightarrow> bytes list \<Rightarrow> merkle_tree" where
  "build H leaves = build_from_leaf_hashes H (map (leaf_hash H) leaves)"

definition root :: "merkle_tree \<Rightarrow> node" where
  "root t = (if nodes t = [] then Empty else last (nodes t))"

definition verify_root :: "merkle_tree \<Rightarrow> node \<Rightarrow> bool" where
  "verify_root t r \<longleftrightarrow> root t = r"

function n_nodes_loop :: "nat \<Rightarrow> nat \<Rightarrow> nat" where
  "n_nodes_loop lvl_nodes tot_nodes =
     (if lvl_nodes > 1 then
        let l = lvl_nodes + lvl_nodes mod 2 in n_nodes_loop (l div 2) (tot_nodes + l)
      else tot_nodes + lvl_nodes)"
  by pat_completeness auto
termination
  by (relation "measure fst")
    (simp_all only: wf_measure in_measure fst_conv half_up_eqs half_up_less)

declare n_nodes_loop.simps [simp del]

definition n_nodes :: "nat \<Rightarrow> nat" where
  "n_nodes n = n_nodes_loop n 0"

fun ilog2 :: "nat \<Rightarrow> nat" where
  "ilog2 n = (if n < 2 then 0 else Suc (ilog2 (n div 2)))"

declare ilog2.simps [simp del]

definition path_length :: "nat \<Rightarrow> nat" where
  "path_length n = (if n \<le> 1 then 0 else ilog2 (n - 1) + 1)"

function proof_loop :: "node list \<Rightarrow> nat \<Rightarrow> nat \<Rightarrow> nat \<Rightarrow> node list \<Rightarrow> node list" where
  "proof_loop ns level_index n_level level_base_index path =
     (if n_level > 1 then
        let n1 = next_multiple_of n_level 2;
            sibling_index = (if level_index mod 2 = 0 then level_base_index + level_index + 1
                             else level_base_index + level_index - 1)
        in proof_loop ns (level_index div 2) (n1 div 2) (level_base_index + n1)
             (path @ [ns ! sibling_index])
      else path)"
  by pat_completeness auto
termination
  by (relation "measure (\<lambda>(ns, li, n_level, lb, path). n_level)")
    (simp_all only: wf_measure in_measure prod.case half_up_eqs half_up_less)

declare proof_loop.simps [simp del]

definition get_proof :: "merkle_tree \<Rightarrow> nat \<Rightarrow> (node list, merkle_proof_error) result" where
  "get_proof t leaf_index =
     (if leaf_index \<ge> n_leaves t then Inl (LeafIndexOutOfBounds leaf_index)
      else Inr (proof_loop (nodes t) leaf_index (n_leaves t) 0 []))"

primrec climb :: "(bytes \<Rightarrow> bytes) \<Rightarrow> node \<Rightarrow> nat \<Rightarrow> node list \<Rightarrow> node" where
  "climb H current level_index [] = current"
| "climb H current level_index (sibling # path) =
     climb H (if level_index mod 2 = 0 then inner_hash H current sibling
              else inner_hash H sibling current) (level_index div 2) path"

definition compute_root ::
  "(bytes \<Rightarrow> bytes) \<Rightarrow> node list \<Rightarrow> bytes \<Rightarrow> nat \<Rightarrow> (node, merkle_proof_error) result" where
  "compute_root H path leaf leaf_index =
     (if leaf_index div 2 ^ length path \<noteq> 0 then Inl (LeafIndexOutOfBounds leaf_index)
      else Inr (climb H (leaf_hash H leaf) leaf_index path))"

definition check_path_length :: "node list \<Rightarrow> nat \<Rightarrow> (unit, merkle_proof_error) result" where
  "check_path_length path max_path_length =
     (if length path > max_path_length then Inl PathLengthTooLarge else Inr ())"

definition verify_proof ::
  "(bytes \<Rightarrow> bytes) \<Rightarrow> node list \<Rightarrow> node \<Rightarrow> nat \<Rightarrow> bytes \<Rightarrow> nat \<Rightarrow> (unit, merkle_proof_error) result" where
  "verify_proof H path rt leaf_count leaf leaf_index =
     and_then (check_path_length path (path_length leaf_count)) (\<lambda>_.
     and_then (compute_root H path leaf leaf_index) (\<lambda>r.
     ensure (r = rt) RootMismatch))"

section \<open>The tree level by level\<close>

definition pad :: "node list \<Rightarrow> node list" where
  "pad xs = (if length xs mod 2 = 1 then xs @ [Empty] else xs)"

definition parents :: "(bytes \<Rightarrow> bytes) \<Rightarrow> node list \<Rightarrow> node list" where
  "parents H xs =
     map (\<lambda>k. inner_hash H (xs ! (2 * k)) (xs ! (2 * k + 1))) [0..<length xs div 2]"

lemma length_pad: "length (pad xs) = 2 * ((length xs + 1) div 2)"
  by (simp add: pad_def) presburger

lemma even_length_pad: "length (pad xs) mod 2 = 0"
  by (simp add: length_pad)

lemma length_parents_pad [simp]: "length (parents H (pad xs)) = (length xs + 1) div 2"
  by (simp add: parents_def length_pad)

function flat_levels :: "(bytes \<Rightarrow> bytes) \<Rightarrow> node list \<Rightarrow> node list" where
  "flat_levels H xs =
     (if length xs > 1 then pad xs @ flat_levels H (parents H (pad xs)) else xs)"
  by pat_completeness auto
termination
  by (relation "measure (\<lambda>(H, xs). length xs)") auto

declare flat_levels.simps [simp del]

lemma push_level_eq:
  "push_level H (length pre) (length xs) (pre @ xs) = pre @ xs @ parents H xs"
proof -
  have "fold (\<lambda>k ns. ns @ [inner_hash H (ns ! (length pre + 2 * k)) (ns ! (length pre + 2 * k + 1))])
      [0..<m] (pre @ xs) =
    pre @ xs @ map (\<lambda>k. inner_hash H (xs ! (2 * k)) (xs ! (2 * k + 1))) [0..<m]"
    if "2 * m \<le> length xs" for m
    using that
  proof (induction m)
    case (Suc m)
    have "(pre @ xs @ zs) ! (length pre + 2 * m) = xs ! (2 * m)"
      and "(pre @ xs @ zs) ! (length pre + 2 * m + 1) = xs ! (2 * m + 1)" for zs
      using Suc.prems by (simp_all add: nth_append)
    with Suc show ?case by simp
  qed simp
  from this [of "length xs div 2"] show ?thesis by (simp add: push_level_def parents_def)
qed

text \<open>The loop over the flat vector appends exactly the levels above.\<close>

lemma build_loop_flat:
  "build_loop H (pre @ xs) (length xs) (length pre) = pre @ flat_levels H xs"
proof (induction H xs arbitrary: pre rule: flat_levels.induct)
  case (1 H xs)
  show ?case
  proof (cases "length xs > 1")
    case True
    have "build_loop H (pre @ xs) (length xs) (length pre) =
        build_loop H (push_level H (length pre) (length (pad xs)) (pre @ pad xs))
          (length (pad xs) div 2) (length pre + length (pad xs))"
      using True by (subst build_loop.simps) (simp add: pad_def Let_def)
    also have "\<dots> = build_loop H ((pre @ pad xs) @ parents H (pad xs))
          (length (parents H (pad xs))) (length (pre @ pad xs))"
      by (simp only: push_level_eq append_assoc length_append) (simp add: length_pad)
    also have "\<dots> = pre @ flat_levels H xs"
      using "1.IH" [OF True, of "pre @ pad xs"] True by (simp add: flat_levels.simps [of H xs])
    finally show ?thesis .
  next
    case False
    then show ?thesis by (simp add: build_loop.simps flat_levels.simps [of H xs])
  qed
qed

lemma nodes_build_from_leaf_hashes:
  "nodes (build_from_leaf_hashes H xs) = flat_levels H xs"
  "n_leaves (build_from_leaf_hashes H xs) = length xs"
  using build_loop_flat [of H "[]" xs] by (simp_all add: build_from_leaf_hashes_def)

lemma n_nodes_loop_flat: "n_nodes_loop (length xs) tot = tot + length (flat_levels H xs)"
proof (induction H xs arbitrary: tot rule: flat_levels.induct)
  case (1 H xs)
  show ?case
  proof (cases "length xs > 1")
    case True
    have "length xs + length xs mod 2 = length (pad xs)" by (simp add: pad_def)
    moreover have "length (pad xs) div 2 = length (parents H (pad xs))" by (simp add: parents_def)
    ultimately have "n_nodes_loop (length xs) tot =
        n_nodes_loop (length (parents H (pad xs))) (tot + length (pad xs))"
      using True by (simp add: n_nodes_loop.simps [of "length xs"] Let_def)
    with "1.IH" [OF True] True show ?thesis by (simp add: flat_levels.simps [of H xs])
  next
    case False
    then show ?thesis by (simp add: n_nodes_loop.simps [of "length xs"] flat_levels.simps [of H xs])
  qed
qed

section \<open>Roots and sibling paths\<close>

function root_of :: "(bytes \<Rightarrow> bytes) \<Rightarrow> node list \<Rightarrow> node" where
  "root_of H xs =
     (if length xs > 1 then root_of H (parents H (pad xs))
      else if xs = [] then Empty else xs ! 0)"
  by pat_completeness auto
termination
  by (relation "measure (\<lambda>(H, xs). length xs)") auto

function path_of :: "(bytes \<Rightarrow> bytes) \<Rightarrow> node list \<Rightarrow> nat \<Rightarrow> node list" where
  "path_of H xs i =
     (if length xs > 1
      then pad xs ! (if i mod 2 = 0 then i + 1 else i - 1) # path_of H (parents H (pad xs)) (i div 2)
      else [])"
  by pat_completeness auto
termination
  by (relation "measure (\<lambda>(H, xs, i). length xs)") auto

declare root_of.simps [simp del] path_of.simps [simp del]

lemma flat_levels_ne: "xs \<noteq> [] \<Longrightarrow> flat_levels H xs \<noteq> []"
  by (subst flat_levels.simps) (auto simp: pad_def)

lemma last_flat_levels: "xs \<noteq> [] \<Longrightarrow> last (flat_levels H xs) = root_of H xs"
proof (induction H xs rule: flat_levels.induct)
  case (1 H xs)
  show ?case
  proof (cases "length xs > 1")
    case True
    then have "0 < length (parents H (pad xs))" by simp
    then have ne: "parents H (pad xs) \<noteq> []" by blast
    with 1 True show ?thesis
      by (simp add: flat_levels.simps [of H xs] root_of.simps [of H xs] flat_levels_ne)
  next
    case False
    with 1 have "length xs = 1" by (cases xs) auto
    with False show ?thesis
      by (simp add: flat_levels.simps [of H xs] root_of.simps [of H xs] last_conv_nth 1)
  qed
qed

lemma root_build_from_leaf_hashes: "root (build_from_leaf_hashes H xs) = root_of H xs"
proof (cases "xs = []")
  case True
  then show ?thesis
    by (simp add: root_def nodes_build_from_leaf_hashes flat_levels.simps root_of.simps)
next
  case False
  then show ?thesis
    by (simp add: root_def nodes_build_from_leaf_hashes flat_levels_ne last_flat_levels)
qed


lemma proof_loop_path:
  "i < length xs \<Longrightarrow>
   proof_loop (pre @ flat_levels H xs) i (length xs) (length pre) path = path @ path_of H xs i"
proof (induction H xs i arbitrary: pre path rule: path_of.induct)
  case (1 H xs i)
  show ?case
  proof (cases "length xs > 1")
    case True
    let ?sib = "if i mod 2 = 0 then i + 1 else i - 1"
    have len: "next_multiple_of (length xs) 2 = length (pad xs)"
      by (simp add: next_multiple_of_def pad_def)
    have half: "length (pad xs) div 2 = length (parents H (pad xs))" by (simp add: parents_def)
    have "?sib < length (pad xs)" using "1.prems" by (simp add: length_pad) presburger
    then have nth: "(pre @ pad xs @ zs) ! (if i mod 2 = 0 then length pre + i + 1 else length pre + i - 1)
        = pad xs ! ?sib" for zs
      by (auto simp: nth_append)
    have "i div 2 < length (parents H (pad xs))" using "1.prems" by simp
    from "1.IH" [OF True this, of "pre @ pad xs" "path @ [pad xs ! ?sib]"]
    show ?thesis using True len half nth
      by (simp add: proof_loop.simps [of _ i "length xs"] flat_levels.simps [of H xs]
          path_of.simps [of H xs i] Let_def)
  next
    case False
    then show ?thesis by (simp add: proof_loop.simps path_of.simps)
  qed
qed

lemma get_proof_build_from_leaf_hashes:
  "get_proof (build_from_leaf_hashes H xs) i =
     (if i < length xs then Inr (path_of H xs i) else Inl (LeafIndexOutOfBounds i))"
  using proof_loop_path [of i xs "[]" H "[]"]
  by (simp add: get_proof_def nodes_build_from_leaf_hashes)

lemma path_length_half: "1 < n \<Longrightarrow> path_length n = Suc (path_length ((n + 1) div 2))"
proof -
  assume n: "1 < n"
  show ?thesis
  proof (cases "n = 2")
    case True
    then show ?thesis by (simp add: path_length_def ilog2.simps)
  next
    case False
    with n have "(n + 1) div 2 - 1 = (n - 1) div 2" and "\<not> n - 1 < 2" and "1 < (n + 1) div 2"
      by presburger+
    moreover have "ilog2 (n - 1) = Suc (ilog2 ((n - 1) div 2))"
      using \<open>\<not> n - 1 < 2\<close> by (subst ilog2.simps) simp
    ultimately show ?thesis using n by (simp add: path_length_def)
  qed
qed

lemma length_path_of: "length (path_of H xs i) = path_length (length xs)"
proof (induction H xs i rule: path_of.induct)
  case (1 H xs i)
  then show ?case
    by (cases "length xs > 1")
      (simp_all add: path_of.simps [of H xs i] path_length_half, simp add: path_length_def)
qed

lemma path_length_covers: "n \<le> 2 ^ path_length n"
proof (induction n rule: less_induct)
  case (less n)
  show ?case
  proof (cases "1 < n")
    case True
    then have "(n + 1) div 2 \<le> 2 ^ path_length ((n + 1) div 2)" by (simp add: less half_up_less)
    moreover have "n \<le> 2 * ((n + 1) div 2)" by presburger
    ultimately show ?thesis using True by (simp add: path_length_half)
  next
    case False
    then show ?thesis by (simp add: path_length_def)
  qed
qed

lemma nth_pad: "i < length xs \<Longrightarrow> pad xs ! i = xs ! i"
  by (simp add: pad_def nth_append)

lemma parents_nth:
  "j < length xs div 2 \<Longrightarrow> parents H xs ! j = inner_hash H (xs ! (2 * j)) (xs ! (2 * j + 1))"
  by (simp add: parents_def)

text \<open>Climbing from a node along its sibling path ends at the root.\<close>

lemma climb_path_of: "i < length xs \<Longrightarrow> climb H (xs ! i) i (path_of H xs i) = root_of H xs"
proof (induction H xs i rule: path_of.induct)
  case (1 H xs i)
  show ?case
  proof (cases "length xs > 1")
    case True
    have j: "i div 2 < length (pad xs) div 2" using "1.prems" by (simp add: length_pad)
    have "(if i mod 2 = 0 then inner_hash H (xs ! i) (pad xs ! (i + 1))
           else inner_hash H (pad xs ! (i - 1)) (xs ! i)) = parents H (pad xs) ! (i div 2)"
    proof (cases "i mod 2 = 0")
      case True
      then have "2 * (i div 2) = i" by presburger
      with True show ?thesis using j "1.prems" by (simp add: parents_nth nth_pad)
    next
      case False
      then have "2 * (i div 2) = i - 1" and "2 * (i div 2) + 1 = i" by presburger+
      with False show ?thesis using j "1.prems" by (simp add: parents_nth nth_pad)
    qed
    moreover have "i div 2 < length (parents H (pad xs))" using "1.prems" by simp
    ultimately show ?thesis using True "1.IH"
      by (simp add: path_of.simps [of H xs i] root_of.simps [of H xs] split: if_splits)
  next
    case False
    with "1.prems" have "i = 0" by linarith
    with False "1.prems" show ?thesis
      by (auto simp: path_of.simps [of H xs 0] root_of.simps [of H xs])
  qed
qed

lemma verify_path_of:
  assumes "i < length leaves"
  shows "verify_proof H (path_of H (map (leaf_hash H) leaves) i)
           (root_of H (map (leaf_hash H) leaves)) (length leaves) (leaves ! i) i = Inr ()"
proof -
  let ?xs = "map (leaf_hash H) leaves"
  have "climb H (leaf_hash H (leaves ! i)) i (path_of H ?xs i) = root_of H ?xs"
    using climb_path_of [of i ?xs H] assms by simp
  moreover have "i < 2 ^ path_length (length leaves)"
    using assms path_length_covers [of "length leaves"] by linarith
  ultimately show ?thesis
    by (simp add: verify_proof_def check_path_length_def compute_root_def length_path_of)
qed

section \<open>The interface of the blob openings\<close>

locale vector_commitment =
  fixes commit :: "bytes list \<Rightarrow> node"
    and open_at :: "bytes list \<Rightarrow> nat \<Rightarrow> (node list, 'e) result"
    and check :: "node list \<Rightarrow> node \<Rightarrow> nat \<Rightarrow> bytes \<Rightarrow> nat \<Rightarrow> (unit, 'e) result"
  assumes opening_checks:
      "open_at leaves i = Inr p \<Longrightarrow> check p (commit leaves) (length leaves) (leaves ! i) i = Inr ()"
    and opening_defined: "(\<exists>p. open_at leaves i = Inr p) \<longleftrightarrow> i < length leaves"
begin

text \<open>Opening a list of positions succeeds and every opening checks, or some index is out of range.\<close>

lemma openings_check:
  assumes "\<forall>i \<in> set is. i < length leaves"
  shows "\<exists>ps. try_map (open_at leaves) is = Inr ps \<and> length ps = length is \<and>
           try_all (\<lambda>(p, i). check p (commit leaves) (length leaves) (leaves ! i) i) (zip ps is) = Inr ()"
  using assms
proof (induction "is")
  case (Cons i "is")
  obtain p where p: "open_at leaves i = Inr p"
    using opening_defined [of leaves i] Cons.prems by auto
  moreover have "\<forall>i \<in> set is. i < length leaves" using Cons.prems by simp
  ultimately show ?case using Cons.IH opening_checks [OF p] by auto
qed simp

end

interpretation walrus_merkle: vector_commitment
  "\<lambda>leaves. root (build H leaves)" "\<lambda>leaves i. get_proof (build H leaves) i" "verify_proof H" for H
proof
  fix leaves i p
  assume "get_proof (build H leaves) i = Inr p"
  then have "i < length leaves" and "p = path_of H (map (leaf_hash H) leaves) i"
    by (auto simp: build_def get_proof_build_from_leaf_hashes split: if_splits)
  then show "verify_proof H p (root (build H leaves)) (length leaves) (leaves ! i) i = Inr ()"
    by (simp add: build_def root_build_from_leaf_hashes verify_path_of)
qed (simp add: build_def get_proof_build_from_leaf_hashes)


section \<open>Binding\<close>

text \<open>
  The inputs that a verification and a construction hash. A hash function on byte strings of
  any length cannot be injective; what an opening relies on is that these inputs do not
  collide and do not hash to the 32 zero bytes that stand for an empty subtree.
\<close>

definition digest32 :: "(bytes \<Rightarrow> bytes) \<Rightarrow> bool" where
  "digest32 H \<longleftrightarrow> (\<forall>x. length (H x) = 32)"

definition node_ok :: "node \<Rightarrow> bool" where
  "node_ok n \<longleftrightarrow> length (node_bytes n) = 32"

definition collision_free :: "(bytes \<Rightarrow> bytes) \<Rightarrow> bytes list \<Rightarrow> bool" where
  "collision_free H qs \<longleftrightarrow> inj_on H (set qs) \<and> (\<forall>q \<in> set qs. H q \<noteq> replicate 32 0)"

definition inner_query :: "node \<Rightarrow> node \<Rightarrow> bytes" where
  "inner_query l r = 1 # node_bytes l @ node_bytes r"

primrec climb_queries :: "(bytes \<Rightarrow> bytes) \<Rightarrow> node \<Rightarrow> nat \<Rightarrow> node list \<Rightarrow> bytes list" where
  "climb_queries H current i [] = []"
| "climb_queries H current i (s # p) =
     (let q = (if i mod 2 = 0 then inner_query current s else inner_query s current)
      in q # climb_queries H (Digest (H q)) (i div 2) p)"

function tree_queries :: "(bytes \<Rightarrow> bytes) \<Rightarrow> node list \<Rightarrow> bytes list" where
  "tree_queries H xs =
     (if length xs > 1
      then map (\<lambda>k. inner_query (pad xs ! (2 * k)) (pad xs ! (2 * k + 1))) [0..<length (pad xs) div 2] @
           tree_queries H (parents H (pad xs))
      else [])"
  by pat_completeness auto
termination
  by (relation "measure (\<lambda>(H, xs). length xs)") auto

declare tree_queries.simps [simp del]

definition proof_queries :: "(bytes \<Rightarrow> bytes) \<Rightarrow> node list \<Rightarrow> bytes \<Rightarrow> nat \<Rightarrow> bytes list" where
  "proof_queries H path leaf i = (0 # leaf) # climb_queries H (leaf_hash H leaf) i path"

definition build_queries :: "(bytes \<Rightarrow> bytes) \<Rightarrow> bytes list \<Rightarrow> bytes list" where
  "build_queries H leaves = map (\<lambda>l. 0 # l) leaves @ tree_queries H (map (leaf_hash H) leaves)"

lemma inner_hash_query: "inner_hash H l r = Digest (H (inner_query l r))"
  by (simp add: inner_hash_def inner_query_def)

lemma inner_query_inject:
  assumes "inner_query a b = inner_query c d" and "node_ok a" and "node_ok c"
  shows "node_bytes a = node_bytes c \<and> node_bytes b = node_bytes d"
  using assms by (auto simp: inner_query_def node_ok_def)

lemma node_ok_digest [simp]: "digest32 H \<Longrightarrow> node_ok (Digest (H q))" "node_ok Empty"
  by (simp_all add: node_ok_def digest32_def)

lemma node_ok_pad: "\<forall>x \<in> set xs. node_ok x \<Longrightarrow> k < length (pad xs) \<Longrightarrow> node_ok (pad xs ! k)"
  by (auto simp: pad_def nth_append less_Suc_eq split: if_splits)

lemma node_ok_parents: "digest32 H \<Longrightarrow> \<forall>x \<in> set (parents H xs). node_ok x"
  by (auto simp: parents_def inner_hash_query)

text \<open>
  A path of full length that climbs to the root of a tree starts at the tree's own node, as
  long as no two of the hashed inputs collide.
\<close>

lemma climb_binds:
  assumes "digest32 H" and "inj_on H Q" and "\<forall>q \<in> Q. H q \<noteq> replicate 32 0"
    and "\<forall>x \<in> set xs. node_ok x" and "\<forall>x \<in> set p. node_ok x"
    and "q \<in> Q" and "set (climb_queries H (Digest (H q)) i p) \<subseteq> Q" and "set (tree_queries H xs) \<subseteq> Q"
    and "length p = path_length (length xs)" and "i < 2 ^ length p"
    and "climb H (Digest (H q)) i p = root_of H xs"
  shows "i < length xs \<and> xs ! i = Digest (H q)"
  using assms(1-3) assms(4-)
proof (induction H xs arbitrary: i p q rule: root_of.induct)
  case (1 H xs)
  show ?case
  proof (cases "length xs > 1")
    case False
    then have "p = []" "i = 0" using 1 by (simp_all add: path_length_def)
    with 1 False show ?thesis by (auto simp: root_of.simps [of H xs] split: if_splits)
  next
    case True
    from True 1(10) obtain s ps where p: "p = s # ps"
      and len: "length ps = path_length (length (parents H (pad xs)))"
      by (cases p) (simp_all add: path_length_half)
    define q' where "q' = (if i mod 2 = 0 then inner_query (Digest (H q)) s else inner_query s (Digest (H q)))"
    have q'Q: "q' \<in> Q" and sub: "set (climb_queries H (Digest (H q')) (i div 2) ps) \<subseteq> Q"
      using 1(8) p by (auto simp: q'_def Let_def)
    have sub2: "set (tree_queries H (parents H (pad xs))) \<subseteq> Q"
      and here: "\<And>k. k < length (pad xs) div 2 \<Longrightarrow>
        inner_query (pad xs ! (2 * k)) (pad xs ! (2 * k + 1)) \<in> Q"
      using 1(9) True by (auto simp: tree_queries.simps [of H xs])
    have up: "climb H (Digest (H q')) (i div 2) ps = root_of H (parents H (pad xs))"
      using 1(12) p True by (auto simp: q'_def inner_hash_query root_of.simps [of H xs])
    have i2: "i div 2 < 2 ^ length ps" using 1(11) p by simp
    have ih: "i div 2 < length (parents H (pad xs)) \<and> parents H (pad xs) ! (i div 2) = Digest (H q')"
      using 1(1) [OF True 1(2-4) node_ok_parents [OF 1(2)] _ q'Q sub sub2 len i2 up] 1(6) p by simp
    then have k: "i div 2 < length (pad xs) div 2" by (simp add: parents_def)
    with ih have "Digest (H (inner_query (pad xs ! (2 * (i div 2))) (pad xs ! (2 * (i div 2) + 1)))) = Digest (H q')"
      by (simp add: parents_nth inner_hash_query)
    then have eq: "inner_query (pad xs ! (2 * (i div 2))) (pad xs ! (2 * (i div 2) + 1)) = q'"
      using 1(3) here [OF k] q'Q by (auto dest: inj_onD)
    have ok: "node_ok (pad xs ! (2 * (i div 2)))" "node_ok s" "node_ok (Digest (H q))"
      using 1(2,5,6) p k by (auto intro!: node_ok_pad)
    have i_lt: "i < length (pad xs)" using k by presburger
    have "node_bytes (pad xs ! i) = H q"
    proof (cases "i mod 2 = 0")
      case True
      then have "2 * (i div 2) = i" by presburger
      with True eq ok show ?thesis
        using inner_query_inject [of "pad xs ! i" "pad xs ! (i + 1)" "Digest (H q)" s]
        by (simp add: q'_def)
    next
      case False
      then have "2 * (i div 2) + 1 = i" by presburger
      with False eq ok show ?thesis
        using inner_query_inject [of "pad xs ! (2 * (i div 2))" "pad xs ! i" s "Digest (H q)"]
        by (simp add: q'_def)
    qed
    then have "pad xs ! i = Digest (H q)"
      using 1(4,7) by (cases "pad xs ! i") auto
    then show ?thesis using i_lt by (auto simp: pad_def nth_append split: if_splits)
  qed
qed

text \<open>A shorter path ends below the leaves: its start would have to be an inner node.\<close>

lemma climb_short:
  assumes "digest32 H" and "inj_on H Q" and "\<forall>q \<in> Q. H q \<noteq> replicate 32 0"
    and "\<forall>x \<in> set xs. node_ok x" and "\<forall>x \<in> set p. node_ok x"
    and "q \<in> Q" and "set (climb_queries H (Digest (H q)) i p) \<subseteq> Q" and "set (tree_queries H xs) \<subseteq> Q"
    and "length p < path_length (length xs)" and "i < 2 ^ length p"
    and "climb H (Digest (H q)) i p = root_of H xs"
  shows "\<exists>a b. q = inner_query a b"
  using assms(1-3) assms(4-)
proof (induction H xs rule: root_of.induct)
  case (1 H xs)
  then have long: "length xs > 1" by (cases "length xs > 1") (simp_all add: path_length_def)
  let ?ys = "parents H (pad xs)"
  have sub: "set (tree_queries H ?ys) \<subseteq> Q"
    and here: "\<And>k. k < length (pad xs) div 2 \<Longrightarrow>
        inner_query (pad xs ! (2 * k)) (pad xs ! (2 * k + 1)) \<in> Q"
    using 1(9) long by (auto simp: tree_queries.simps [of H xs])
  have up: "climb H (Digest (H q)) i p = root_of H ?ys"
    using 1(12) long by (simp add: root_of.simps [of H xs])
  have le: "length p \<le> path_length (length ?ys)" using 1(10) long by (simp add: path_length_half)
  show ?case
  proof (cases "length p = path_length (length ?ys)")
    case True
    have "i < length ?ys \<and> ?ys ! i = Digest (H q)"
      by (rule climb_binds [OF 1(2-4) node_ok_parents [OF 1(2)] 1(6-8) sub True 1(11) up])
    then have "i < length (pad xs) div 2"
      and "H (inner_query (pad xs ! (2 * i)) (pad xs ! (2 * i + 1))) = H q"
      by (auto simp: parents_def inner_hash_query)
    then show ?thesis using here 1(3,7) by (blast dest: inj_onD)
  next
    case False
    with le 1(1) [OF long 1(2-4) node_ok_parents [OF 1(2)] 1(6-8) sub _ 1(11) up]
    show ?thesis by simp
  qed
qed

text \<open>An accepted proof against an honestly built root is for the leaf at that position.\<close>

lemma verify_proof_binds:
  assumes "digest32 H" and "\<forall>n \<in> set p. node_ok n"
    and "collision_free H (proof_queries H p leaf i @ build_queries H leaves)"
    and "verify_proof H p (root (build H leaves)) (length leaves) leaf i = Inr ()"
  shows "i < length leaves \<and> leaf = leaves ! i"
proof -
  let ?xs = "map (leaf_hash H) leaves"
  let ?Q = "set (proof_queries H p leaf i @ build_queries H leaves)"
  have inj: "inj_on H ?Q" and nz: "\<forall>q \<in> ?Q. H q \<noteq> replicate 32 0"
    using assms(3) by (simp_all add: collision_free_def)
  have len: "length p \<le> path_length (length ?xs)" and i: "i < 2 ^ length p"
    and climb: "climb H (Digest (H (0 # leaf))) i p = root_of H ?xs"
    using assms(4)
    by (auto simp: verify_proof_def check_path_length_def compute_root_def leaf_hash_def build_def
        root_build_from_leaf_hashes result_simps ensure_def div_eq_0_iff split: if_splits)
  have q: "0 # leaf \<in> ?Q" and cq: "set (climb_queries H (Digest (H (0 # leaf))) i p) \<subseteq> ?Q"
    and tq: "set (tree_queries H ?xs) \<subseteq> ?Q"
    by (auto simp: proof_queries_def build_queries_def leaf_hash_def)
  have ok: "\<forall>x \<in> set ?xs. node_ok x" using assms(1) by (auto simp: leaf_hash_def)
  have "length p = path_length (length ?xs)"
    using climb_short [OF assms(1) inj nz ok assms(2) q cq tq _ i climb] len
    by (force simp: inner_query_def)
  with climb_binds [OF assms(1) inj nz ok assms(2) q cq tq _ i climb]
  have "i < length leaves" and "H (0 # leaves ! i) = H (0 # leaf)" by (auto simp: leaf_hash_def)
  moreover have "0 # leaves ! i \<in> ?Q" using \<open>i < length leaves\<close> by (simp add: build_queries_def)
  ultimately show ?thesis using inj q by (auto dest: inj_onD)
qed

text \<open>The honest path hashes nothing that the construction does not hash.\<close>

lemma climb_queries_path_of:
  "i < length xs \<Longrightarrow> set (climb_queries H (xs ! i) i (path_of H xs i)) \<subseteq> set (tree_queries H xs)"
proof (induction H xs i rule: path_of.induct)
  case (1 H xs i)
  show ?case
  proof (cases "length xs > 1")
    case True
    let ?k = "i div 2"
    have k: "?k < length (pad xs) div 2" using "1.prems" by (simp add: length_pad)
    have q: "(if i mod 2 = 0 then inner_query (xs ! i) (pad xs ! (i + 1))
        else inner_query (pad xs ! (i - 1)) (xs ! i)) = inner_query (pad xs ! (2 * ?k)) (pad xs ! (2 * ?k + 1))"
    proof (cases "i mod 2 = 0")
      case True
      then have "2 * ?k = i" by presburger
      with True show ?thesis using "1.prems" by (simp add: nth_pad)
    next
      case False
      then have "2 * ?k = i - 1" and "2 * ?k + 1 = i" by presburger+
      with False show ?thesis using "1.prems" by (simp add: nth_pad)
    qed
    have up: "Digest (H (inner_query (pad xs ! (2 * ?k)) (pad xs ! (2 * ?k + 1)))) = parents H (pad xs) ! ?k"
      using k by (simp add: parents_nth inner_hash_query)
    have "?k < length (parents H (pad xs))" using "1.prems" by simp
    from "1.IH" [OF True this] show ?thesis using True q up k
      by (auto simp: path_of.simps [of H xs i] tree_queries.simps [of H xs] Let_def split: if_splits)
  next
    case False
    then show ?thesis by (simp add: path_of.simps [of H xs i])
  qed
qed

lemma node_ok_path_of:
  "digest32 H \<Longrightarrow> \<forall>x \<in> set xs. node_ok x \<Longrightarrow> i < length xs \<Longrightarrow> \<forall>x \<in> set (path_of H xs i). node_ok x"
proof (induction H xs i rule: path_of.induct)
  case (1 H xs i)
  show ?case
  proof (cases "length xs > 1")
    case True
    have "(if i mod 2 = 0 then i + 1 else i - 1) < length (pad xs)"
      using "1.prems"(3) by (simp add: length_pad) presburger
    then have "node_ok (pad xs ! (if i mod 2 = 0 then i + 1 else i - 1))"
      by (rule node_ok_pad [OF "1.prems"(2)])
    moreover have "i div 2 < length (parents H (pad xs))" using "1.prems"(3) by simp
    ultimately show ?thesis
      using "1.IH" [OF True "1.prems"(1) node_ok_parents [OF "1.prems"(1)]] True
      by (simp add: path_of.simps [of H xs i])
  next
    case False
    then show ?thesis by (simp add: path_of.simps [of H xs i])
  qed
qed

text \<open>The root commits to the whole list of leaves.\<close>

lemma root_binds:
  assumes "digest32 H" and "collision_free H (build_queries H as @ build_queries H bs)"
    and "length as = length bs" and "root (build H as) = root (build H bs)"
  shows "as = bs"
proof (rule nth_equalityI)
  fix i assume i: "i < length as"
  let ?xs = "map (leaf_hash H) as" let ?p = "path_of H ?xs i"
  have "verify_proof H ?p (root (build H bs)) (length bs) (as ! i) i = Inr ()"
    using verify_path_of [OF i, of H] assms(3,4) by (simp add: build_def root_build_from_leaf_hashes)
  moreover have "\<forall>n \<in> set ?p. node_ok n"
    using i assms(1) by (intro node_ok_path_of) (auto simp: leaf_hash_def)
  moreover have "set (proof_queries H ?p (as ! i) i) \<subseteq> set (build_queries H as)"
    using climb_queries_path_of [of i ?xs H] i by (auto simp: proof_queries_def build_queries_def)
  then have "collision_free H (proof_queries H ?p (as ! i) i @ build_queries H bs)"
    using assms(2) by (auto simp: collision_free_def intro: inj_on_subset)
  ultimately show "as ! i = bs ! i" using verify_proof_binds [OF assms(1)] by blast
qed (rule assms(3))

section \<open>Properties\<close>

text \<open>
  C12: For every list of leaves and every position, \<open>get_proof\<close> on the built tree fails
  exactly with the out-of-bounds error when the position is not a leaf, and otherwise returns a
  path of exactly the computed length that \<open>verify_proof\<close> accepts for the leaf at that
  position against the root of the tree.
\<close>

theorem merkle_proof_complete:
  "case get_proof (build H leaves) i of
     Inl e \<Rightarrow> length leaves \<le> i \<and> e = LeafIndexOutOfBounds i
   | Inr p \<Rightarrow> i < length leaves \<and> length p = path_length (length leaves) \<and>
       verify_proof H p (root (build H leaves)) (length leaves) (leaves ! i) i = Inr ()"
  using walrus_merkle.opening_checks [of H leaves i]
  by (simp add: build_def get_proof_build_from_leaf_hashes length_path_of split: sum.splits)

text \<open>
  The closed-form node count of the source is the length of the node vector that the
  construction fills, for every number of leaves.
\<close>

theorem n_nodes_exact:
  "length (nodes (build H leaves)) = n_nodes (length leaves)"
  using n_nodes_loop_flat [of "map (leaf_hash H) leaves" 0 H]
  by (simp add: build_def nodes_build_from_leaf_hashes n_nodes_def)

text \<open>
  C11: Soundness of a proof against the root of an honestly built tree. If the hash outputs are
  32 bytes long and the inputs hashed by the construction and by the verification do not
  collide (nor hash to 32 zero bytes), then a proof that is accepted for an index below the leaf
  count is a proof for the leaf that stands there, whatever the length of its path.
\<close>

theorem merkle_proof_sound:
  assumes "digest32 H" and "\<forall>n \<in> set p. node_ok n"
    and "collision_free H (proof_queries H p leaf i @ build_queries H leaves)"
    and "verify_proof H p (root (build H leaves)) (length leaves) leaf i = Inr ()"
  shows "i < length leaves \<and> leaf = leaves ! i"
  using assms by (rule verify_proof_binds)

text \<open>A hash function that is collision free on the queries of a two-leaf tree.\<close>

definition demo_hash :: "bytes \<Rightarrow> bytes" where
  "demo_hash q = replicate 32 (if length q > 2 then 3 else last q)"

theorem merkle_proof_sound_witness:
  "digest32 demo_hash \<and>
   verify_proof demo_hash [Digest (replicate 32 2)] (root (build demo_hash [[1], [2]])) 2 [1] 0 = Inr () \<and>
   [1] = [[1], [2]] ! 0"
proof -
  have d: "digest32 demo_hash" by (simp add: digest32_def demo_hash_def)
  have v: "verify_proof demo_hash [Digest (replicate 32 2)] (root (build demo_hash [[1], [2]])) 2 [1] 0 = Inr ()"
    by code_simp
  have "proof_queries demo_hash [Digest (replicate 32 2)] [1] 0 @ build_queries demo_hash [[1], [2]] =
      [[0, 1], 1 # replicate 32 1 @ replicate 32 2, [0, 1], [0, 2], 1 # replicate 32 1 @ replicate 32 2]"
    by code_simp
  then have c: "collision_free demo_hash
      (proof_queries demo_hash [Digest (replicate 32 2)] [1] 0 @ build_queries demo_hash [[1], [2]])"
    by (auto simp: collision_free_def demo_hash_def inj_on_def)
  have ok: "\<forall>n \<in> set [Digest (replicate 32 2)]. node_ok n" by (simp add: node_ok_def)
  show ?thesis
    using merkle_proof_sound [where H = demo_hash and p = "[Digest (replicate 32 2)]" and leaf = "[1]"
        and i = 0 and leaves = "[[1], [2]]"] d v c ok by simp
qed

end
