(* ===== verification/Walrus_Metadata.thy ===== *)
theory Walrus_Metadata
  imports Walrus_Merkle Walrus_Config
begin

text \<open>
  Blob metadata and identifiers: \<^verbatim>\<open>walrus-core/src/metadata.rs\<close>, the blob and patch identifiers of
  \<^verbatim>\<open>walrus-core/src/lib.rs\<close> and \<^verbatim>\<open>drop-lib/src/walrus_blob_id.rs\<close>. A blob identifier is the hash of
  the encoding type, the unencoded length and the root of a Merkle tree over the pairs of sliver
  roots. The Blake2b-256 hash is the parameter \<open>H\<close>.
\<close>

section \<open>Metadata and blob identifiers\<close>

record sliver_pair_metadata =
  primary_hash :: node
  secondary_hash :: node

record blob_metadata =
  md_encoding_type :: encoding_type
  unencoded_length :: nat
  hashes :: "sliver_pair_metadata list"

record blob_metadata_with_id =
  blob_id :: bytes
  metadata :: blob_metadata

datatype verification_error =
    InvalidHashCount nat nat
  | BlobIdMismatch
  | UnencodedLengthTooLarge
  | VerificationPanic

definition pair_leaf_input :: "sliver_pair_metadata \<Rightarrow> bytes" where
  "pair_leaf_input m = node_bytes (primary_hash m) @ node_bytes (secondary_hash m)"

definition pair_hash :: "axis \<Rightarrow> sliver_pair_metadata \<Rightarrow> node" where
  "pair_hash t m = (if is_primary t then primary_hash m else secondary_hash m)"

definition get_sliver_hash :: "blob_metadata \<Rightarrow> nat \<Rightarrow> axis \<Rightarrow> node option" where
  "get_sliver_hash m i t =
     (if i < length (hashes m)
      then Some (case t of Primary \<Rightarrow> primary_hash (hashes m ! i) | Secondary \<Rightarrow> secondary_hash (hashes m ! i))
      else None)"

definition compute_root_hash :: "(bytes \<Rightarrow> bytes) \<Rightarrow> blob_metadata \<Rightarrow> node" where
  "compute_root_hash H m = root (build H (map pair_leaf_input (hashes m)))"

definition new_with_hash_function :: "(bytes \<Rightarrow> bytes) \<Rightarrow> node \<Rightarrow> encoding_type \<Rightarrow> nat \<Rightarrow> bytes" where
  "new_with_hash_function H merkle_root e len =
     H ([encoding_type_u8 e] @ to_le_bytes 8 len @ node_bytes merkle_root)"

definition from_metadata :: "(bytes \<Rightarrow> bytes) \<Rightarrow> node \<Rightarrow> encoding_type \<Rightarrow> nat \<Rightarrow> bytes" where
  "from_metadata H merkle_root e len = new_with_hash_function H merkle_root e len"

definition from_sliver_pair_metadata :: "(bytes \<Rightarrow> bytes) \<Rightarrow> blob_metadata \<Rightarrow> bytes" where
  "from_sliver_pair_metadata H m =
     from_metadata H (compute_root_hash H m) (md_encoding_type m) (unencoded_length m)"

definition new_verified_from_metadata ::
  "(bytes \<Rightarrow> bytes) \<Rightarrow> sliver_pair_metadata list \<Rightarrow> encoding_type \<Rightarrow> nat \<Rightarrow> blob_metadata_with_id" where
  "new_verified_from_metadata H meta e len =
     (let m = \<lparr> md_encoding_type = e, unencoded_length = len, hashes = meta \<rparr>
      in \<lparr> blob_id = from_sliver_pair_metadata H m, metadata = m \<rparr>)"

definition verify_metadata ::
  "(bytes \<Rightarrow> bytes) \<Rightarrow> encoding_config \<Rightarrow> blob_metadata_with_id \<Rightarrow>
   (blob_metadata_with_id, verification_error) result" where
  "verify_metadata H config bm =
     (let n_hashes = length (hashes (metadata bm)); n_shards = cfg_n_shards config in
      and_then (ensure (n_hashes = n_shards) (InvalidHashCount n_hashes n_shards)) (\<lambda>_.
      and_then (map_err (\<lambda>_. VerificationPanic)
                  (and_then (get_for_type config (md_encoding_type (metadata bm))) max_blob_size)) (\<lambda>m.
      and_then (ensure (unencoded_length (metadata bm) \<le> m) UnencodedLengthTooLarge) (\<lambda>_.
      and_then (ensure (from_sliver_pair_metadata H (metadata bm) = blob_id bm) BlobIdMismatch) (\<lambda>_.
      Inr bm)))))"

definition metadata_symbol_size :: "blob_metadata \<Rightarrow> encoding_config \<Rightarrow> (nat, encoding_error) result" where
  "metadata_symbol_size m config =
     and_then (get_for_type config (md_encoding_type m)) (\<lambda>c. symbol_size_for_blob c (unencoded_length m))"

definition encoded_size :: "blob_metadata \<Rightarrow> (nat option, encoding_error) result" where
  "encoded_size m =
     (let n = length (hashes m) in
      if n = 0 \<or> \<not> n < 2 ^ 16 then Inr None
      else encoded_blob_length_for_n_shards n (unencoded_length m) (md_encoding_type m))"

definition verified_n_shards :: "blob_metadata_with_id \<Rightarrow> (nat, verification_error) result" where
  "verified_n_shards bm =
     (let n = length (hashes (metadata bm)) in
      if n < 2 ^ 16 \<and> n \<noteq> 0 then Inr n else Inl VerificationPanic)"

definition is_encoding_config_applicable ::
  "blob_metadata_with_id \<Rightarrow> encoding_config \<Rightarrow> (bool, verification_error) result" where
  "is_encoding_config_applicable bm config =
     and_then (verified_n_shards bm) (\<lambda>n.
     let (p, s) = source_symbols_for_n_shards n in
     and_then (map_err (\<lambda>_. VerificationPanic) (get_for_type config (md_encoding_type (metadata bm)))) (\<lambda>c.
     Inr (n = rs_n_shards c \<and> p = source_symbols_primary c \<and> s = source_symbols_secondary c)))"

record sliver_pair_roots =
  spr_primary :: bytes
  spr_secondary :: bytes

definition roots_metadata :: "sliver_pair_roots list \<Rightarrow> sliver_pair_metadata list" where
  "roots_metadata roots =
     map (\<lambda>r. \<lparr> primary_hash = Digest (spr_primary r), secondary_hash = Digest (spr_secondary r) \<rparr>) roots"

definition compute_blob_id_from_sliver_pair_metadata ::
  "(bytes \<Rightarrow> bytes) \<Rightarrow> sliver_pair_metadata list \<Rightarrow> encoding_type \<Rightarrow> nat \<Rightarrow> bytes" where
  "compute_blob_id_from_sliver_pair_metadata H meta e len =
     from_sliver_pair_metadata H \<lparr> md_encoding_type = e, unencoded_length = len, hashes = meta \<rparr>"

definition compute_blob_id_from_sliver_pair_roots ::
  "(bytes \<Rightarrow> bytes) \<Rightarrow> sliver_pair_roots list \<Rightarrow> encoding_type \<Rightarrow> nat \<Rightarrow> bytes" where
  "compute_blob_id_from_sliver_pair_roots H roots e len =
     from_sliver_pair_metadata H
       \<lparr> md_encoding_type = e, unencoded_length = len, hashes = roots_metadata roots \<rparr>"

section \<open>Patch identifiers\<close>

text \<open>
  Messages are shortened to their fixed text, and an error of the serialization library to the
  constructor that carries it; \<open>QuiltPanic\<close> is a panic.
\<close>

datatype quilt_error =
    BlobsNotFoundInQuilt "rstring list"
  | QuiltVersionMismatch byte byte
  | InvalidFormatNotAligned
  | FailedToExtractQuiltIndexSize
  | QuiltIndexSerDerError
  | MissingSlivers "nat list"
  | MissingQuiltIndex
  | TooManyBlobs nat nat
  | QuiltOversize
  | IndexOutOfBounds nat nat
  | EmptyInput string
  | InvalidIdentifier string
  | DuplicateIdentifier rstring
  | FailedToDecodeExtension string
  | QuiltPatchIdParseError string
  | ColumnSizeMismatch nat nat
  | QuiltOther string
  | QuiltPanic

definition QUILT_VERSION_BYTE :: byte where
  "QUILT_VERSION_BYTE = 1"

record patch_internal_id =
  start_index :: nat
  end_index :: nat

definition patch_id_to_bytes :: "patch_internal_id \<Rightarrow> bytes" where
  "patch_id_to_bytes p = [QUILT_VERSION_BYTE] @ to_le_bytes 2 (start_index p) @ to_le_bytes 2 (end_index p)"

definition patch_id_from_bytes :: "bytes \<Rightarrow> (patch_internal_id, quilt_error) result" where
  "patch_id_from_bytes bs =
     (if length bs \<noteq> 5 then Inl (QuiltOther ''QuiltPatchInternalIdV1 requires 5 bytes'')
      else if bs ! 0 \<noteq> QUILT_VERSION_BYTE then Inl (QuiltVersionMismatch (bs ! 0) QUILT_VERSION_BYTE)
      else Inr \<lparr> start_index = from_le_bytes (take 2 (drop 1 bs)),
                 end_index = from_le_bytes (take 2 (drop 3 bs)) \<rparr>)"

record quilt_patch_id =
  quilt_id :: bytes
  patch_id_bytes :: bytes

definition quilt_patch_id_to_bytes :: "quilt_patch_id \<Rightarrow> bytes" where
  "quilt_patch_id_to_bytes q = quilt_id q @ patch_id_bytes q"

text \<open>The slice \<open>bytes[..32]\<close> panics on a shorter input.\<close>

definition quilt_patch_id_from_bytes :: "bytes \<Rightarrow> (quilt_patch_id, quilt_error) result" where
  "quilt_patch_id_from_bytes bs =
     (if length bs < 32 then Inl QuiltPanic
      else Inr \<lparr> quilt_id = take 32 bs, patch_id_bytes = drop 32 bs \<rparr>)"

text \<open>The tags are a \<^verbatim>\<open>BTreeMap\<close>: the list of its entries in the order of the keys.\<close>

record quilt_patch_v1 =
  qp_start_index :: nat
  qp_end_index :: nat
  qp_identifier :: rstring
  qp_tags :: "(rstring \<times> rstring) list"

definition populate_start_indices :: "nat \<Rightarrow> quilt_patch_v1 list \<Rightarrow> quilt_patch_v1 list" where
  "populate_start_indices first_start ps =
     fst (fold (\<lambda>i (ps, prev_end). (ps[i := (ps ! i)\<lparr> qp_start_index := prev_end \<rparr>], qp_end_index (ps ! i)))
            [0..<length ps] (ps, first_start))"

definition patch_sliver_indices :: "quilt_patch_v1 \<Rightarrow> nat list" where
  "patch_sliver_indices p = [qp_start_index p..<qp_end_index p]"

section \<open>Binding of blob identifiers\<close>

definition id_query :: "(bytes \<Rightarrow> bytes) \<Rightarrow> blob_metadata \<Rightarrow> bytes" where
  "id_query H m =
     [encoding_type_u8 (md_encoding_type m)] @ to_le_bytes 8 (unencoded_length m) @
     node_bytes (compute_root_hash H m)"

definition id_queries :: "(bytes \<Rightarrow> bytes) \<Rightarrow> blob_metadata \<Rightarrow> bytes list" where
  "id_queries H m = id_query H m # build_queries H (map pair_leaf_input (hashes m))"

lemma from_sliver_pair_metadata_query: "from_sliver_pair_metadata H m = H (id_query H m)"
  by (simp add: from_sliver_pair_metadata_def from_metadata_def new_with_hash_function_def id_query_def)

lemma encoding_type_u8_inject [simp]: "encoding_type_u8 a = encoding_type_u8 b \<longleftrightarrow> a = b"
  by (cases a; cases b) simp_all

lemma root_of_digest: "xs \<noteq> [] \<Longrightarrow> \<forall>x \<in> set xs. \<exists>b. x = Digest b \<Longrightarrow> \<exists>b. root_of H xs = Digest b"
proof (induction H xs rule: root_of.induct)
  case (1 H xs)
  show ?case
  proof (cases "length xs > 1")
    case True
    then have "0 < length (parents H (pad xs))" by simp
    then have "parents H (pad xs) \<noteq> []" by blast
    moreover have "\<forall>x \<in> set (parents H (pad xs)). \<exists>b. x = Digest b" by (auto simp: parents_def inner_hash_def)
    ultimately show ?thesis using "1.IH" [OF True] True by (simp add: root_of.simps [of H xs])
  next
    case False
    with "1.prems" show ?thesis by (simp add: root_of.simps [of H xs])
  qed
qed

lemma root_build_digest: "leaves \<noteq> [] \<Longrightarrow> \<exists>b. root (build H leaves) = Digest b"
  by (auto simp: build_def root_build_from_leaf_hashes leaf_hash_def intro!: root_of_digest)

lemma root_of_hash: "xs \<noteq> [] \<Longrightarrow> \<forall>x \<in> set xs. \<exists>q. x = Digest (H q) \<Longrightarrow> \<exists>q. root_of H xs = Digest (H q)"
proof (induction H xs rule: root_of.induct)
  case (1 H xs)
  show ?case
  proof (cases "length xs > 1")
    case True
    then have "0 < length (parents H (pad xs))" by simp
    then have "parents H (pad xs) \<noteq> []" by blast
    moreover have "\<forall>x \<in> set (parents H (pad xs)). \<exists>q. x = Digest (H q)" by (auto simp: parents_def inner_hash_def)
    ultimately show ?thesis using "1.IH" [OF True] True by (simp add: root_of.simps [of H xs])
  next
    case False
    with "1.prems" show ?thesis by (simp add: root_of.simps [of H xs])
  qed
qed

lemma length_root_bytes:
  assumes "digest32 H" and "leaves \<noteq> []"
  shows "length (node_bytes (root (build H leaves))) = 32"
proof -
  have "\<exists>q. root_of H (map (leaf_hash H) leaves) = Digest (H q)"
    by (rule root_of_hash) (use assms(2) in \<open>auto simp: leaf_hash_def\<close>)
  then show ?thesis using assms(1) by (auto simp: build_def root_build_from_leaf_hashes digest32_def)
qed

lemma root_build_single: "root (build H [x]) = leaf_hash H x"
  by (simp add: build_def root_build_from_leaf_hashes root_of.simps)

lemma node_bytes_root_inject:
  assumes "length as = length bs" and "node_bytes (root (build H as)) = node_bytes (root (build H bs))"
  shows "root (build H as) = root (build H bs)"
proof (cases "as = []")
  case True
  with assms(1) show ?thesis by simp
next
  case False
  with assms(1) have "bs \<noteq> []" by auto
  with False root_build_digest [of as H] root_build_digest [of bs H] assms(2) show ?thesis by auto
qed

text \<open>Equal identifiers, without a collision among the hashed inputs, have equal contents.\<close>

lemma blob_id_inject:
  assumes "digest32 H" and "collision_free H (id_queries H a @ id_queries H b)"
    and "length (hashes a) = length (hashes b)"
    and "unencoded_length a < 2 ^ 64" and "unencoded_length b < 2 ^ 64"
    and "from_sliver_pair_metadata H a = from_sliver_pair_metadata H b"
  shows "md_encoding_type a = md_encoding_type b \<and> unencoded_length a = unencoded_length b \<and>
    map pair_leaf_input (hashes a) = map pair_leaf_input (hashes b)"
proof -
  have "id_query H a = id_query H b"
    using assms(2,6) by (auto simp: from_sliver_pair_metadata_query collision_free_def id_queries_def dest: inj_onD)
  then have e: "md_encoding_type a = md_encoding_type b"
    and l: "to_le_bytes 8 (unencoded_length a) = to_le_bytes 8 (unencoded_length b)"
    and r: "node_bytes (compute_root_hash H a) = node_bytes (compute_root_hash H b)"
    unfolding id_query_def by (simp_all only: append_Cons append_Nil list.inject append_eq_append_conv
      length_to_le_bytes encoding_type_u8_inject simp_thms)
  have "unencoded_length a = unencoded_length b"
    using arg_cong [OF l, of from_le_bytes] assms(4,5) by (simp add: from_to_le_bytes)
  moreover have "root (build H (map pair_leaf_input (hashes a))) = root (build H (map pair_leaf_input (hashes b)))"
    using r assms(3) by (intro node_bytes_root_inject) (simp_all add: compute_root_hash_def)
  then have "map pair_leaf_input (hashes a) = map pair_leaf_input (hashes b)"
    using assms(1-3) by (intro root_binds) (auto simp: collision_free_def id_queries_def intro: inj_on_subset)
  ultimately show ?thesis using e by simp
qed

lemma populate_loop:
  assumes "k \<le> length ps"
  shows "\<exists>qs e. fold (\<lambda>i (ps, prev_end). (ps[i := (ps ! i)\<lparr> qp_start_index := prev_end \<rparr>], qp_end_index (ps ! i)))
            [0..<k] (ps, first) = (qs, e) \<and> length qs = length ps \<and>
      e = (if k = 0 then first else qp_end_index (ps ! (k - 1))) \<and>
      (\<forall>i < length ps. qs ! i = (if i < k then (ps ! i)\<lparr> qp_start_index :=
          (if i = 0 then first else qp_end_index (ps ! (i - 1))) \<rparr> else ps ! i))"
  using assms
proof (induction k)
  case (Suc k)
  then obtain qs e where "fold (\<lambda>i (ps, prev_end). (ps[i := (ps ! i)\<lparr> qp_start_index := prev_end \<rparr>],
        qp_end_index (ps ! i))) [0..<k] (ps, first) = (qs, e)" "length qs = length ps"
      "e = (if k = 0 then first else qp_end_index (ps ! (k - 1)))"
      "\<forall>i < length ps. qs ! i = (if i < k then (ps ! i)\<lparr> qp_start_index :=
          (if i = 0 then first else qp_end_index (ps ! (i - 1))) \<rparr> else ps ! i)"
    by auto
  with Suc.prems show ?case by (auto simp: nth_list_update less_Suc_eq)
qed simp

lemma new_verified_eq_iff:
  "bm = new_verified_from_metadata H (hashes (metadata bm)) (md_encoding_type (metadata bm))
          (unencoded_length (metadata bm)) \<longleftrightarrow> from_sliver_pair_metadata H (metadata bm) = blob_id bm"
  by (cases bm; cases "metadata bm") (auto simp: new_verified_from_metadata_def Let_def)

section \<open>Properties\<close>

text \<open>
  C13: A blob identifier commits to its metadata: if two metadata objects with the same number of
  sliver pairs have the same identifier and no two of the hashed inputs collide, they agree on the
  encoding type, on the unencoded length and on the bytes of every pair of sliver roots.
\<close>

theorem blob_id_binds:
  assumes "digest32 H" and "collision_free H (id_queries H a @ id_queries H b)"
    and "length (hashes a) = length (hashes b)"
    and "unencoded_length a < 2 ^ 64" and "unencoded_length b < 2 ^ 64"
    and "from_sliver_pair_metadata H a = from_sliver_pair_metadata H b"
  shows "md_encoding_type a = md_encoding_type b \<and> unencoded_length a = unencoded_length b \<and>
    map pair_leaf_input (hashes a) = map pair_leaf_input (hashes b)"
  using assms by (rule blob_id_inject)

definition demo_metadata :: "node \<Rightarrow> blob_metadata" where
  "demo_metadata n = \<lparr> md_encoding_type = RS2, unencoded_length = 5,
     hashes = [\<lparr> primary_hash = n, secondary_hash = Digest (replicate 32 2) \<rparr>] \<rparr>"

theorem blob_id_binds_witness:
  "map pair_leaf_input (hashes (demo_metadata Empty)) =
   map pair_leaf_input (hashes (demo_metadata (Digest (replicate 32 0))))"
proof -
  let ?H = "\<lambda>q :: bytes. replicate 32 (if length q = 41 then 3 else 4 :: byte)"
  let ?a = "demo_metadata Empty" and ?b = "demo_metadata (Digest (replicate 32 0))"
  have H: "digest32 ?H" by (simp add: digest32_def)
  have q: "id_queries ?H ?a = [[1, 5, 0, 0, 0, 0, 0, 0, 0] @ replicate 32 4, 0 # replicate 32 0 @ replicate 32 2]"
    "id_queries ?H ?b = [[1, 5, 0, 0, 0, 0, 0, 0, 0] @ replicate 32 4, 0 # replicate 32 0 @ replicate 32 2]"
    by code_simp+
  have c: "collision_free ?H (id_queries ?H ?a @ id_queries ?H ?b)"
    unfolding q by (auto simp: collision_free_def inj_on_def)
  have "from_sliver_pair_metadata ?H ?a = from_sliver_pair_metadata ?H ?b" by code_simp
  with blob_id_binds [OF H c] show ?thesis by (simp add: demo_metadata_def)
qed

text \<open>
  C27: What verification of metadata establishes and which check it reports. It accepts exactly the objects
  whose hash count is the shard count, whose encoding type is supported, whose length is within the maximum blob
  size (zero included), and whose identifier is the one computed from the metadata; a symbol size then exists, and the object
  is returned unchanged. Otherwise it reports the first check that fails, in the order hash count, encoding type, length, identifier.
\<close>

theorem verify_metadata_iff:
  assumes "nonzero_u16 n" and "encoding_config_new n = Inr config" and "max_blob_size (reed_solomon config) = Inr m"
  shows "(verify_metadata H config bm = Inr bm' \<longleftrightarrow>
      bm' = bm \<and> length (hashes (metadata bm)) = n \<and> md_encoding_type (metadata bm) = RS2 \<and> unencoded_length (metadata bm) \<le> m \<and>
      (\<exists>sz. metadata_symbol_size (metadata bm) config = Inr sz) \<and>
      bm = new_verified_from_metadata H (hashes (metadata bm)) (md_encoding_type (metadata bm)) (unencoded_length (metadata bm))) \<and>
    (verify_metadata H config bm = Inl (InvalidHashCount a b) \<longleftrightarrow>
      length (hashes (metadata bm)) \<noteq> n \<and> a = length (hashes (metadata bm)) \<and> b = n) \<and>
    (verify_metadata H config bm = Inl VerificationPanic \<longleftrightarrow>
      length (hashes (metadata bm)) = n \<and> md_encoding_type (metadata bm) = RedStuffRaptorQ) \<and>
    (verify_metadata H config bm = Inl UnencodedLengthTooLarge \<longleftrightarrow>
      length (hashes (metadata bm)) = n \<and> md_encoding_type (metadata bm) = RS2 \<and> m < unencoded_length (metadata bm)) \<and>
    (verify_metadata H config bm = Inl BlobIdMismatch \<longleftrightarrow>
      length (hashes (metadata bm)) = n \<and> md_encoding_type (metadata bm) = RS2 \<and> unencoded_length (metadata bm) \<le> m \<and>
      blob_id bm \<noteq> from_sliver_pair_metadata H (metadata bm))"
proof -
  obtain p s where ps: "source_symbols_for_n_shards n = (p, s)" by force
  have rs: "rs_config_new n = Inr (reed_solomon config)" and cn: "cfg_n_shards config = n"
    using assms(2) by (auto simp: encoding_config_new_def and_then_Inr_iff)
  note c = config_params [OF assms(1) rs ps]
  have pos: "0 < p * s" using source_symbols_bounds [OF assms(1) ps] by simp
  have m: "m = p * s * 65534" using assms(3) c(4) by simp
  have sz: "(\<exists>sz. symbol_size_for_blob (reed_solomon config) len = Inr sz) \<longleftrightarrow> len \<le> m" for len
    by (simp add: c(5) m compute_symbol_size_iff [OF pos] Let_def)
  show ?thesis unfolding new_verified_eq_iff
    by (cases "md_encoding_type (metadata bm)")
      (auto simp: verify_metadata_def Let_def and_then_Inr_iff and_then_Inl_iff ensure_def cn assms(3) sz metadata_symbol_size_def map_err_def
        split: if_splits)
qed

theorem verify_metadata_iff_witness:
  "\<exists>config. encoding_config_new 1 = Inr config \<and>
     verify_metadata demo_hash config (new_verified_from_metadata demo_hash (hashes (demo_metadata Empty)) RS2 5) =
       Inr (new_verified_from_metadata demo_hash (hashes (demo_metadata Empty)) RS2 5) \<and>
     verify_metadata demo_hash config (new_verified_from_metadata demo_hash (hashes (demo_metadata Empty)) RS2 65535) = Inl UnencodedLengthTooLarge"
proof -
  have n: "nonzero_u16 1" by (simp add: nonzero_u16_def)
  let ?c = "\<lparr> cfg_n_shards = 1, reed_solomon =
      \<lparr> source_symbols_primary = 1, source_symbols_secondary = 1, rs_n_shards = 1 \<rparr> \<rparr>"
  have c: "encoding_config_new 1 = Inr ?c" by (simp add: encoding_config_new_def config_eval)
  have m: "max_blob_size (reed_solomon ?c) = Inr 65534" by (simp add: config_eval)
  note iff = verify_metadata_iff [OF n c m, of demo_hash]
  have "verify_metadata demo_hash ?c (new_verified_from_metadata demo_hash (hashes (demo_metadata Empty)) RS2 5) =
      Inr (new_verified_from_metadata demo_hash (hashes (demo_metadata Empty)) RS2 5)"
    unfolding iff [THEN conjunct1]
    by (simp add: new_verified_from_metadata_def Let_def metadata_symbol_size_def demo_metadata_def config_eval)
  moreover have "verify_metadata demo_hash ?c (new_verified_from_metadata demo_hash (hashes (demo_metadata Empty)) RS2 65535) = Inl UnencodedLengthTooLarge"
    using iff [THEN conjunct2, THEN conjunct2, THEN conjunct2, THEN conjunct1]
    by (simp add: new_verified_from_metadata_def Let_def demo_metadata_def)
  ultimately show ?thesis using c by blast
qed

text \<open>
  Patch identifiers round-trip through their byte encodings; decoding accepts exactly the
  5-byte strings with the version byte, and every accepted string is the encoding of the result.
\<close>

theorem patch_id_roundtrip:
  "(start_index p < 2 ^ 16 \<and> end_index p < 2 ^ 16 \<longrightarrow>
      patch_id_from_bytes (patch_id_to_bytes p) = Inr p) \<and>
   (\<forall>q. patch_id_from_bytes bs = Inr q \<longrightarrow> patch_id_to_bytes q = bs)"
proof (intro conjI impI allI)
  assume b: "start_index p < 2 ^ 16 \<and> end_index p < 2 ^ 16"
  have t: "take 2 (drop 1 (patch_id_to_bytes p)) = to_le_bytes 2 (start_index p)"
    "take 2 (drop 3 (patch_id_to_bytes p)) = to_le_bytes 2 (end_index p)"
    by (simp_all add: patch_id_to_bytes_def)
  have "length (patch_id_to_bytes p) = 5" "patch_id_to_bytes p ! 0 = QUILT_VERSION_BYTE"
    by (simp_all add: patch_id_to_bytes_def)
  then show "patch_id_from_bytes (patch_id_to_bytes p) = Inr p"
    using b unfolding patch_id_from_bytes_def t by (simp add: from_to_le_bytes)
next
  fix q assume "patch_id_from_bytes bs = Inr q"
  then have len: "length bs = 5" and "bs ! 0 = QUILT_VERSION_BYTE"
    and q: "q = \<lparr> start_index = from_le_bytes (take 2 (drop 1 bs)), end_index = from_le_bytes (take 2 (drop 3 bs)) \<rparr>"
    by (auto simp: patch_id_from_bytes_def split: if_splits)
  have r: "to_le_bytes 2 (from_le_bytes xs) = xs" if "length xs = 2" for xs
    using to_from_le_bytes [of xs] that by simp
  have "bs = bs ! 0 # take 2 (drop 1 bs) @ take 2 (drop 3 bs)"
    using len by (auto simp: length_Suc_conv numeral_eq_Suc)
  then show "patch_id_to_bytes q = bs"
    using len \<open>bs ! 0 = QUILT_VERSION_BYTE\<close> by (simp add: patch_id_to_bytes_def q r)
qed

theorem patch_id_roundtrip_witness:
  "patch_id_from_bytes (patch_id_to_bytes \<lparr> start_index = 258, end_index = 300 \<rparr>) =
     Inr \<lparr> start_index = 258, end_index = 300 \<rparr>"
  using patch_id_roundtrip [of "\<lparr> start_index = 258, end_index = 300 \<rparr>" "[]"] by simp

text \<open>
  Restoring the start indices, which are not stored, makes the patches contiguous: each
  patch starts where the one before ends, the first one at the given index, and nothing else of
  the patches changes.
\<close>

theorem populate_start_indices_contiguous:
  "length (populate_start_indices first ps) = length ps \<and>
   (\<forall>i < length ps. populate_start_indices first ps ! i =
      (ps ! i)\<lparr> qp_start_index := (if i = 0 then first else qp_end_index (ps ! (i - 1))) \<rparr>)"
  using populate_loop [of "length ps" ps first] by (auto simp: populate_start_indices_def)

theorem populate_start_indices_contiguous_witness:
  "qp_start_index (populate_start_indices 4
     [\<lparr> qp_start_index = 0, qp_end_index = 6, qp_identifier = [97], qp_tags = [] \<rparr>,
      \<lparr> qp_start_index = 0, qp_end_index = 9, qp_identifier = [98], qp_tags = [] \<rparr>] ! 1) = 6"
  using populate_start_indices_contiguous [of 4
     "[\<lparr> qp_start_index = 0, qp_end_index = 6, qp_identifier = [97], qp_tags = [] \<rparr>,
      \<lparr> qp_start_index = 0, qp_end_index = 9, qp_identifier = [98], qp_tags = [] \<rparr>]"] by simp

end
