(* ===== verification/Rs_Coding.thy ===== *)
theory Rs_Coding
  imports Walrus_Symbols
begin

text \<open>
  The one-dimensional Reed-Solomon encoder and decoder, \<^verbatim>\<open>walrus-core/src/encoding/basic_encoding.rs\<close>,
  and the operations of \<^verbatim>\<open>encoding/config.rs\<close> that create them.

  The crate \<^verbatim>\<open>reed_solomon_simd\<close> is the parameter \<open>L :: rs_lib\<close>. Its stateful encoder and decoder
  objects are given by what they answer after the calls since their creation or last reset:
  \<open>rs_encode\<close> for the original shards added, \<open>rs_decode\<close> for the sequence of shards added. What
  the program relies on is the predicate \<open>rs_codec\<close>: the parameters are supported, encoding
  returns the announced number of shards of the announced size, and decoding restores the missing
  originals once enough shards of one codeword were added.
\<close>

section \<open>The Reed-Solomon library\<close>

datatype shard_call = Original nat bytes | Recovery nat bytes

record rs_lib =
  rs_enc_new :: "nat \<Rightarrow> nat \<Rightarrow> nat \<Rightarrow> (unit, string) result"
  rs_encode :: "nat \<Rightarrow> nat \<Rightarrow> nat \<Rightarrow> bytes list \<Rightarrow> bytes list option"
  rs_dec_new :: "nat \<Rightarrow> nat \<Rightarrow> nat \<Rightarrow> (unit, string) result"
  rs_decode :: "nat \<Rightarrow> nat \<Rightarrow> nat \<Rightarrow> shard_call list \<Rightarrow> ((nat \<times> bytes) list, string) result"

fun call_index :: "nat \<Rightarrow> shard_call \<Rightarrow> nat" where
  "call_index k (Original i b) = i"
| "call_index k (Recovery j b) = k + j"

fun call_of :: "nat \<Rightarrow> nat \<times> bytes \<Rightarrow> shard_call" where
  "call_of k (i, b) = (if i < k then Original i b else Recovery (i - k) b)"

text \<open>Any shards of the codeword \<open>xs @ ys\<close> with at least \<open>k\<close> distinct indices restore \<open>xs\<close>.\<close>

definition restores :: "rs_lib \<Rightarrow> nat \<Rightarrow> nat \<Rightarrow> nat \<Rightarrow> bytes list \<Rightarrow> bytes list \<Rightarrow> bool" where
  "restores L k m s xs ys \<longleftrightarrow>
     (\<forall>is. set is \<subseteq> {..<k + m} \<and> k \<le> card (set is) \<longrightarrow>
       (\<exists>restored. rs_decode L k m s (map (\<lambda>i. call_of k (i, (xs @ ys) ! i)) is) = Inr restored \<and>
         (\<forall>(i, b) \<in> set restored. i < k \<and> b = xs ! i) \<and>
         {..<k} \<subseteq> set is \<union> fst ` set restored))"

definition rs_codec :: "rs_lib \<Rightarrow> nat \<Rightarrow> nat \<Rightarrow> nat \<Rightarrow> bool" where
  "rs_codec L k m s \<longleftrightarrow>
     rs_enc_new L k m s = Inr () \<and> rs_dec_new L k m s = Inr () \<and>
     (\<forall>xs. length xs = k \<and> sized s xs \<longrightarrow>
       (\<exists>ys. rs_encode L k m s xs = Some ys \<and> length ys = m \<and> sized s ys \<and> restores L k m s xs ys))"

section \<open>Errors\<close>

datatype invalid_data_size_error = SizeTooLarge | EmptyData

datatype encode_error =
    InvalidDataSize invalid_data_size_error
  | IncorrectDataLength nat
  | IncompatibleParameters string
  | EncodePanic

datatype decode_error =
    DecodeDataTooLarge
  | DecodeIncompatibleParameters string
  | DecoderError string
  | DecodingUnsuccessful
  | DecodeVerificationError
  | DecodePanicked

fun encode_error_of :: "encoding_error \<Rightarrow> encode_error" where
  "encode_error_of DataTooLarge = InvalidDataSize SizeTooLarge"
| "encode_error_of Panic = EncodePanic"

fun decode_error_of :: "encoding_error \<Rightarrow> decode_error" where
  "decode_error_of DataTooLarge = DecodeDataTooLarge"
| "decode_error_of Panic = DecodePanicked"

section \<open>The encoder\<close>

record rs_encoder =
  re_n_source :: nat
  re_n_shards :: nat
  re_symbol_size :: nat
  re_buffer :: "symbols option"

definition rs_encoder_new :: "rs_lib \<Rightarrow> nat \<Rightarrow> nat \<Rightarrow> nat \<Rightarrow> (rs_encoder, encode_error) result" where
  "rs_encoder_new L sz k n =
     and_then (ensure (k \<le> n) (IncompatibleParameters ''n_shards must be at least n_source_symbols'')) (\<lambda>_.
     and_then (ensure (required_alignment RS2 dvd sz)
       (IncompatibleParameters ''symbol_size must be a multiple of the required alignment'')) (\<lambda>_.
     and_then (map_err IncompatibleParameters (rs_enc_new L k (n - k) sz)) (\<lambda>_.
     Inr \<lparr> re_n_source = k, re_n_shards = n, re_symbol_size = sz, re_buffer = None \<rparr>)))"

definition check_parameters_and_compute_symbol_size :: "nat \<Rightarrow> nat \<Rightarrow> (nat, encode_error) result" where
  "check_parameters_and_compute_symbol_size data_length k =
     (if data_length = 0 then Inl (InvalidDataSize EmptyData)
      else and_then (map_err encode_error_of (compute_symbol_size data_length k (required_alignment RS2))) (\<lambda>sz.
           if data_length \<noteq> k * sz then Inl (IncorrectDataLength (k * sz)) else Inr sz))"

definition check_data_length :: "rs_encoder \<Rightarrow> bytes \<Rightarrow> (unit, encode_error) result" where
  "check_data_length e data =
     (let expected = re_n_source e * re_symbol_size e in ensure (length data = expected) (IncorrectDataLength expected))"

definition encoder_encode :: "rs_lib \<Rightarrow> rs_encoder \<Rightarrow> bytes \<Rightarrow> (bytes list, encode_error) result" where
  "encoder_encode L e data =
     and_then (check_data_length e data) (\<lambda>_.
     ok_or EncodePanic (rs_encode L (re_n_source e) (re_n_shards e - re_n_source e) (re_symbol_size e)
       (chunks (re_symbol_size e) data)))"

text \<open>The reusable buffer is taken out of the encoder and truncated to no symbols.\<close>

definition take_or_create_encoded_symbols :: "rs_encoder \<Rightarrow> nat \<Rightarrow> symbols \<times> rs_encoder" where
  "take_or_create_encoded_symbols e capacity =
     ((case re_buffer e of Some x \<Rightarrow> symbols_truncate x 0 | None \<Rightarrow> symbols_with_capacity capacity (re_symbol_size e)),
      e\<lparr> re_buffer := None \<rparr>)"

definition set_and_return_encoded_symbols :: "rs_encoder \<Rightarrow> symbols \<Rightarrow> symbols \<times> rs_encoder" where
  "set_and_return_encoded_symbols e x = (x, e\<lparr> re_buffer := Some x \<rparr>)"

definition encode_all_repair_symbols_inner ::
  "rs_lib \<Rightarrow> rs_encoder \<Rightarrow> symbols \<Rightarrow> bytes \<Rightarrow> (symbols, encode_error) result" where
  "encode_all_repair_symbols_inner L e buffer data =
     and_then (check_data_length e data) (\<lambda>_.
     and_then (ensure (symbol_size buffer = re_symbol_size e) EncodePanic) (\<lambda>_.
     and_then (encoder_encode L e data) (\<lambda>recovery.
     try_fold (\<lambda>b symbol. map_err (\<lambda>_. EncodePanic) (symbols_extend b symbol)) buffer recovery)))"

definition encode_all ::
  "rs_lib \<Rightarrow> rs_encoder \<Rightarrow> bytes \<Rightarrow> (symbols, encode_error) result \<times> rs_encoder" where
  "encode_all L e data =
     (case take_or_create_encoded_symbols e (re_n_shards e) of (buffer, e') \<Rightarrow>
        (and_then (check_data_length e' data) (\<lambda>_.
         and_then (ensure (symbol_size buffer = re_symbol_size e') EncodePanic) (\<lambda>_.
         and_then (map_err (\<lambda>_. EncodePanic) (symbols_extend buffer data)) (\<lambda>buffer.
         encode_all_repair_symbols_inner L e' buffer data))), e'))"

definition encode_all_ref ::
  "rs_lib \<Rightarrow> rs_encoder \<Rightarrow> bytes \<Rightarrow> (symbols, encode_error) result \<times> rs_encoder" where
  "encode_all_ref L e data =
     (case encode_all L e data of
        (Inl err, e') \<Rightarrow> (Inl err, e')
      | (Inr x, e') \<Rightarrow> (case set_and_return_encoded_symbols e' x of (x, e'') \<Rightarrow> (Inr x, e'')))"

definition encode_all_repair_symbols ::
  "rs_lib \<Rightarrow> rs_encoder \<Rightarrow> bytes \<Rightarrow> (symbols, encode_error) result \<times> rs_encoder" where
  "encode_all_repair_symbols L e data =
     (case take_or_create_encoded_symbols e (re_n_shards e - re_n_source e) of (buffer, e') \<Rightarrow>
        (encode_all_repair_symbols_inner L e' buffer data, e'))"

definition get_symbol :: "rs_lib \<Rightarrow> rs_encoder \<Rightarrow> bytes \<Rightarrow> nat \<Rightarrow> (bytes, encode_error) result" where
  "get_symbol L e data index =
     and_then (check_data_length e data) (\<lambda>_.
     and_then (ensure (index < re_n_shards e) EncodePanic) (\<lambda>_.
     if index < re_n_source e then ok_or EncodePanic (get_range data (index * re_symbol_size e) (re_symbol_size e))
     else and_then (encoder_encode L e data) (\<lambda>recovery.
          if index - re_n_source e < length recovery then Inr (recovery ! (index - re_n_source e)) else Inl EncodePanic)))"

section \<open>The decoder\<close>

record rs_decoder =
  rd_n_source :: nat
  rd_n_shards :: nat
  rd_source :: symbols
  rd_calls :: "shard_call list"

definition rs_decoder_new :: "rs_lib \<Rightarrow> nat \<Rightarrow> nat \<Rightarrow> nat \<Rightarrow> (rs_decoder, decode_error) result" where
  "rs_decoder_new L k n sz =
     and_then (ensure (k \<le> n) DecodePanicked) (\<lambda>_.
     and_then (map_err DecodeIncompatibleParameters (rs_dec_new L k (n - k) sz)) (\<lambda>_.
     Inr \<lparr> rd_n_source = k, rd_n_shards = n, rd_source = symbols_zeros k sz, rd_calls = [] \<rparr>))"

text \<open>One iteration of the receive loop; a symbol of another size is dropped.\<close>

definition receive_symbol :: "rs_decoder \<Rightarrow> decoding_symbol \<Rightarrow> (rs_decoder, decode_error) result" where
  "receive_symbol d x =
     (if length (ds_data x) \<noteq> symbol_size (rd_source d) then Inr d
      else if ds_index x < rd_n_source d then
        and_then (map_err (\<lambda>_. DecodePanicked) (symbols_set (rd_source d) (ds_index x) (ds_data x))) (\<lambda>src.
        Inr (d\<lparr> rd_source := src, rd_calls := rd_calls d @ [Original (ds_index x) (ds_data x)] \<rparr>))
      else Inr (d\<lparr> rd_calls := rd_calls d @ [Recovery (ds_index x - rd_n_source d) (ds_data x)] \<rparr>))"

definition restore_symbol :: "symbols \<Rightarrow> nat \<times> bytes \<Rightarrow> (symbols, decode_error) result" where
  "restore_symbol src = (\<lambda>(i, b). map_err (\<lambda>_. DecodePanicked) (symbols_set src i b))"

text \<open>
  \<^verbatim>\<open>Decoder::decode\<close>. On success the decoder is reset; when the library reports an error the
  received shards stay, so that decoding can be continued with more symbols.
\<close>

definition decoder_decode ::
  "rs_lib \<Rightarrow> rs_decoder \<Rightarrow> decoding_symbol list \<Rightarrow> (bytes, decode_error) result \<times> rs_decoder" where
  "decoder_decode L d xs =
     (case try_fold receive_symbol d xs of
        Inl e \<Rightarrow> (Inl e, d)
      | Inr d' \<Rightarrow>
        (let k = rd_n_source d'; n = rd_n_shards d'; sz = symbol_size (rd_source d') in
         case rs_decode L k (n - k) sz (rd_calls d') of
           Inl e \<Rightarrow> (Inl (DecoderError e), d')
         | Inr restored \<Rightarrow>
           (case try_fold restore_symbol (rd_source d') restored of
              Inl e \<Rightarrow> (Inl e, d')
            | Inr src \<Rightarrow> (Inr (sym_data src), d'\<lparr> rd_source := symbols_zeros k sz, rd_calls := [] \<rparr>))))"

section \<open>Operations of the configuration\<close>

definition get_encoder :: "rs_lib \<Rightarrow> rs_config \<Rightarrow> axis \<Rightarrow> nat \<Rightarrow> (rs_encoder, encode_error) result" where
  "get_encoder L c e data_length =
     and_then (check_parameters_and_compute_symbol_size data_length (n_source_symbols c e)) (\<lambda>sz.
     rs_encoder_new L sz (n_source_symbols c e) (rs_n_shards c))"

definition get_decoder :: "rs_lib \<Rightarrow> rs_config \<Rightarrow> axis \<Rightarrow> nat \<Rightarrow> (rs_decoder, decode_error) result" where
  "get_decoder L c e sz = rs_decoder_new L (n_source_symbols c e) (rs_n_shards c) sz"

definition encode_all_symbols :: "rs_lib \<Rightarrow> rs_config \<Rightarrow> axis \<Rightarrow> bytes \<Rightarrow> (symbols, encode_error) result" where
  "encode_all_symbols L c e data = and_then (get_encoder L c e (length data)) (\<lambda>enc. fst (encode_all L enc data))"

definition config_encode_all_repair_symbols ::
  "rs_lib \<Rightarrow> rs_config \<Rightarrow> axis \<Rightarrow> bytes \<Rightarrow> (symbols, encode_error) result" where
  "config_encode_all_repair_symbols L c e data =
     and_then (get_encoder L c e (length data)) (\<lambda>enc. fst (encode_all_repair_symbols L enc data))"

definition encode_symbol :: "rs_lib \<Rightarrow> rs_config \<Rightarrow> axis \<Rightarrow> bytes \<Rightarrow> nat \<Rightarrow> (bytes, encode_error) result" where
  "encode_symbol L c e data index =
     and_then (check_parameters_and_compute_symbol_size (length data) (n_source_symbols c e)) (\<lambda>sz.
     if index < n_source_symbols c e then ok_or EncodePanic (get_range data (index * sz) sz)
     else and_then (get_encoder L c e (length data)) (\<lambda>enc. get_symbol L enc data index))"

definition decode_from_decoding_symbols ::
  "rs_lib \<Rightarrow> rs_config \<Rightarrow> axis \<Rightarrow> nat \<Rightarrow> decoding_symbol list \<Rightarrow> (bytes, decode_error) result" where
  "decode_from_decoding_symbols L c e sz xs =
     and_then (get_decoder L c (orthogonal e) sz) (\<lambda>d. fst (decoder_decode L d xs))"

section \<open>Codewords\<close>

text \<open>The codeword of a list of source symbols: the symbols and what the library adds to them.\<close>

definition parity :: "rs_lib \<Rightarrow> nat \<Rightarrow> nat \<Rightarrow> bytes list \<Rightarrow> bytes list" where
  "parity L n s xs = the (rs_encode L (length xs) (n - length xs) s xs)"

definition codeword :: "rs_lib \<Rightarrow> nat \<Rightarrow> nat \<Rightarrow> bytes list \<Rightarrow> bytes list" where
  "codeword L n s xs = xs @ parity L n s xs"

text \<open>
  The parameters under which a configuration is used with the library. Shard counts and symbol sizes are
  \<^verbatim>\<open>NonZeroU16\<close> values, and symbol sizes are even.
\<close>

definition rs_supported :: "rs_lib \<Rightarrow> nat \<Rightarrow> nat \<Rightarrow> nat \<Rightarrow> bool" where
  "rs_supported L k n s \<longleftrightarrow> rs_codec L k (n - k) s \<and> 0 < k \<and> k \<le> n \<and> n < 65536 \<and> 0 < s \<and> s < 65536 \<and> even s"

definition rs_encodable :: "rs_lib \<Rightarrow> nat \<Rightarrow> nat \<Rightarrow> nat \<Rightarrow> bool" where
  "rs_encodable L k n s \<longleftrightarrow> rs_enc_new L k (n - k) s = Inr () \<and>
     (\<forall>xs. length xs = k \<and> sized s xs \<longrightarrow>
       (\<exists>ys. rs_encode L k (n - k) s xs = Some ys \<and> length ys = n - k \<and> sized s ys)) \<and>
     0 < k \<and> k \<le> n \<and> n < 65536 \<and> 0 < s \<and> s < 65536 \<and> even s"

lemma rs_supported_encodable: "rs_supported L k n s \<Longrightarrow> rs_encodable L k n s"
  by (auto simp: rs_supported_def rs_encodable_def rs_codec_def)

lemma rs_encodable_usize:
  assumes "rs_encodable L k n s" shows "0 < s" and "k * s < 2 ^ 64" and "n * s < 2 ^ 64"
  using assms u16_products [of k s] u16_products [of n s] by (simp_all add: rs_encodable_def)

lemma required_alignment_RS2 [simp]: "required_alignment RS2 = 2"
  by (simp add: required_alignment_def)

lemma parity_props:
  assumes "rs_encodable L k n s" and "length xs = k" and "sized s xs"
  shows "rs_encode L k (n - k) s xs = Some (parity L n s xs)"
    and "length (parity L n s xs) = n - k" and "sized s (parity L n s xs)"
  using assms by (auto simp: rs_encodable_def parity_def)

lemma codeword_props:
  assumes "rs_encodable L k n s" and "length xs = k" and "sized s xs"
  shows "length (codeword L n s xs) = n" and "sized s (codeword L n s xs)"
  using parity_props [OF assms] assms by (auto simp: codeword_def rs_encodable_def)

lemma codeword_nth: "i < length xs \<Longrightarrow> codeword L n s xs ! i = xs ! i"
  by (simp add: codeword_def nth_append)

definition encoder_ok :: "nat \<Rightarrow> nat \<Rightarrow> nat \<Rightarrow> rs_encoder \<Rightarrow> bool" where
  "encoder_ok k n s e \<longleftrightarrow> re_n_source e = k \<and> re_n_shards e = n \<and> re_symbol_size e = s \<and>
     (\<forall>x. re_buffer e = Some x \<longrightarrow> symbol_size x = s)"

lemma encoder_encode_ok:
  assumes "rs_encodable L k n s" and "encoder_ok k n s e" and "length xs = k" and "sized s xs"
  shows "encoder_encode L e (concat xs) = Inr (parity L n s xs)"
  using assms parity_props [OF assms(1,3,4)]
  by (auto simp: encoder_encode_def check_data_length_def Let_def encoder_ok_def ensure_def length_concat_sized
      chunks_concat_sized rs_encodable_def ok_or_def)

lemma extend_all:
  "sized s ys \<Longrightarrow> try_fold (\<lambda>b symbol. map_err (\<lambda>_. EncodePanic) (symbols_extend b symbol)) (mk_symbols s xs) ys =
    Inr (mk_symbols s (xs @ ys))"
proof (induction ys arbitrary: xs)
  case (Cons y ys)
  then have "symbols_extend (mk_symbols s xs) y = Inr (mk_symbols s (xs @ [y]))"
    using symbols_extend_mk [of s "[y]" xs] by simp
  with Cons show ?case by simp
qed simp

lemma repair_inner_ok:
  assumes "rs_encodable L k n s" and "encoder_ok k n s e" and "length xs = k" and "sized s xs"
  shows "encode_all_repair_symbols_inner L e (mk_symbols s ys) (concat xs) =
    Inr (mk_symbols s (ys @ parity L n s xs))"
  using assms encoder_encode_ok [OF assms] parity_props(3) [OF assms(1,3,4)]
  by (auto simp: encode_all_repair_symbols_inner_def check_data_length_def Let_def encoder_ok_def ensure_def
      length_concat_sized extend_all)

lemma taken_buffer:
  assumes "encoder_ok k n s e"
  shows "take_or_create_encoded_symbols e cap = (mk_symbols s [], e\<lparr> re_buffer := None \<rparr>)"
  using assms by (auto simp: take_or_create_encoded_symbols_def encoder_ok_def symbols_with_capacity_mk
      symbols_truncate_def mk_symbols_def split: option.splits)

lemma encode_all_ok:
  assumes "rs_encodable L k n s" and "encoder_ok k n s e" and "length xs = k" and "sized s xs"
  shows "encode_all L e (concat xs) = (Inr (mk_symbols s (codeword L n s xs)), e\<lparr> re_buffer := None \<rparr>)"
proof -
  have e': "encoder_ok k n s (e\<lparr> re_buffer := None \<rparr>)" using assms(2) by (simp add: encoder_ok_def)
  show ?thesis using repair_inner_ok [OF assms(1) e' assms(3,4), of xs] assms
      symbols_extend_mk [OF assms(4), of "[]"]
    by (simp add: encode_all_def taken_buffer [OF assms(2)], simp add: check_data_length_def Let_def encoder_ok_def ensure_def
        length_concat_sized codeword_def)
qed

lemma encode_all_ref_ok:
  assumes "rs_encodable L k n s" and "encoder_ok k n s e" and "length xs = k" and "sized s xs"
  obtains e' where "encode_all_ref L e (concat xs) = (Inr (mk_symbols s (codeword L n s xs)), e')"
    and "encoder_ok k n s e'"
  using that encode_all_ok [OF assms] assms(2)
  by (auto simp: encode_all_ref_def set_and_return_encoded_symbols_def encoder_ok_def)

lemma encode_all_repair_ok:
  assumes "rs_encodable L k n s" and "encoder_ok k n s e" and "length xs = k" and "sized s xs"
  shows "encode_all_repair_symbols L e (concat xs) = (Inr (mk_symbols s (parity L n s xs)), e\<lparr> re_buffer := None \<rparr>)"
proof -
  have e': "encoder_ok k n s (e\<lparr> re_buffer := None \<rparr>)" using assms(2) by (simp add: encoder_ok_def)
  show ?thesis using repair_inner_ok [OF assms(1) e' assms(3,4), of "[]"] assms
    by (simp add: encode_all_repair_symbols_def taken_buffer [OF assms(2)])
qed

text \<open>The symbol size recovered from the length of the data is the one the data was built with.\<close>

lemma compute_symbol_size_exact:
  assumes "0 < k" and "0 < s" and "s < 65536" and "even s"
  shows "compute_symbol_size (k * s) k 2 = Inr s"
proof -
  have "0 < k * s" using assms(1,2) by simp
  then have "max (k * s) 1 = k * s" by linarith
  then have "div_ceil (max (k * s) 1) k = s" using assms(1) by (simp add: div_ceil_def)
  moreover have "next_multiple_of s 2 = s" using assms(4) by (simp add: next_multiple_of_def)
  ultimately show ?thesis using assms by (simp add: compute_symbol_size_def Let_def ok_or_def try_from_u_def)
qed

lemma get_encoder_ok:
  assumes "rs_encodable L (n_source_symbols c e) (rs_n_shards c) s" and "len = n_source_symbols c e * s"
  obtains enc where "get_encoder L c e len = Inr enc"
    and "encoder_ok (n_source_symbols c e) (rs_n_shards c) s enc"
proof -
  have "check_parameters_and_compute_symbol_size len (n_source_symbols c e) = Inr s"
    using assms by (simp add: check_parameters_and_compute_symbol_size_def rs_encodable_def compute_symbol_size_exact)
  then show ?thesis using assms that
    by (simp add: get_encoder_def rs_encoder_new_def rs_encodable_def ensure_def encoder_ok_def)
qed

lemma encode_all_symbols_ok:
  assumes "rs_encodable L (n_source_symbols c e) (rs_n_shards c) s"
    and "length xs = n_source_symbols c e" and "sized s xs"
  shows "encode_all_symbols L c e (concat xs) = Inr (mk_symbols s (codeword L (rs_n_shards c) s xs))"
proof -
  obtain enc where "get_encoder L c e (length (concat xs)) = Inr enc"
    "encoder_ok (n_source_symbols c e) (rs_n_shards c) s enc"
    using get_encoder_ok [OF assms(1)] assms(2,3) by (metis length_concat_sized)
  then show ?thesis using encode_all_ok [OF assms(1) _ assms(2,3)] by (simp add: encode_all_symbols_def)
qed

lemma config_repair_ok:
  assumes "rs_encodable L (n_source_symbols c e) (rs_n_shards c) s"
    and "length xs = n_source_symbols c e" and "sized s xs"
  shows "config_encode_all_repair_symbols L c e (concat xs) = Inr (mk_symbols s (parity L (rs_n_shards c) s xs))"
proof -
  obtain enc where "get_encoder L c e (length (concat xs)) = Inr enc"
    "encoder_ok (n_source_symbols c e) (rs_n_shards c) s enc"
    using get_encoder_ok [OF assms(1)] assms(2,3) by (metis length_concat_sized)
  then show ?thesis using encode_all_repair_ok [OF assms(1) _ assms(2,3)]
    by (simp add: config_encode_all_repair_symbols_def)
qed

section \<open>Decoding a codeword\<close>

lemma rs_codec_decode:
  assumes "rs_codec L k m s" and xs: "length xs = k" "sized s xs" and ys: "rs_encode L k m s xs = Some ys"
    and "set is \<subseteq> {..<k + m}" and "k \<le> card (set is)"
  obtains restored where "rs_decode L k m s (map (\<lambda>i. call_of k (i, (xs @ ys) ! i)) is) = Inr restored"
    and "\<forall>(i, b) \<in> set restored. i < k \<and> b = xs ! i" and "{..<k} \<subseteq> set is \<union> fst ` set restored"
proof -
  have "restores L k m s xs ys" using assms(1) xs ys by (auto simp: rs_codec_def)
  note spec [OF this [unfolded restores_def], of "is"]
  from mp [OF this conjI [OF assms(5,6)]] show ?thesis by (elim exE conjE) (rule that)
qed

text \<open>After receiving shards of one codeword, every received original is in place.\<close>

definition decoder_fresh :: "nat \<Rightarrow> nat \<Rightarrow> nat \<Rightarrow> rs_decoder \<Rightarrow> bool" where
  "decoder_fresh k n s d \<longleftrightarrow>
     rd_n_source d = k \<and> rd_n_shards d = n \<and> rd_source d = symbols_zeros k s \<and> rd_calls d = []"

definition code_symbols :: "bytes list \<Rightarrow> nat list \<Rightarrow> decoding_symbol list" where
  "code_symbols cw is = map (\<lambda>i. \<lparr> ds_index = i, ds_data = cw ! i \<rparr>) is"

lemma receive_code_symbols:
  assumes "sized s cw" and "set is \<subseteq> {..<length cw}" and "k \<le> length cw" and "length src = k" and "sized s src"
    and mem: "0 < s" "k * s < 2 ^ 64"
  shows "\<exists>src'. try_fold receive_symbol \<lparr> rd_n_source = k, rd_n_shards = n, rd_source = mk_symbols s src, rd_calls = calls \<rparr>
      (code_symbols cw is) = Inr \<lparr> rd_n_source = k, rd_n_shards = n, rd_source = mk_symbols s src',
        rd_calls = calls @ map (\<lambda>i. call_of k (i, cw ! i)) is \<rparr> \<and>
    length src' = k \<and> sized s src' \<and> (\<forall>i < k. src' ! i = (if i \<in> set is then cw ! i else src ! i))"
  using assms(2,4,5)
proof (induction "is" arbitrary: src calls)
  case (Cons i "is")
  define src1 where "src1 = (if i < k then src[i := cw ! i] else src)"
  have cw: "length (cw ! i) = s" using Cons.prems assms(1) by (simp add: sized_nth)
  have s1: "length src1 = k" "sized s src1" using Cons.prems cw by (auto simp: src1_def)
  have st: "receive_symbol \<lparr> rd_n_source = k, rd_n_shards = n, rd_source = mk_symbols s src, rd_calls = calls \<rparr>
      \<lparr> ds_index = i, ds_data = cw ! i \<rparr> =
    Inr \<lparr> rd_n_source = k, rd_n_shards = n, rd_source = mk_symbols s src1, rd_calls = calls @ [call_of k (i, cw ! i)] \<rparr>"
    using Cons.prems cw mem by (auto simp: receive_symbol_def src1_def)
  have sub: "set is \<subseteq> {..<length cw}" using Cons.prems by simp
  obtain src' where "try_fold receive_symbol \<lparr> rd_n_source = k, rd_n_shards = n, rd_source = mk_symbols s src1,
      rd_calls = calls @ [call_of k (i, cw ! i)] \<rparr> (code_symbols cw is) =
      Inr \<lparr> rd_n_source = k, rd_n_shards = n, rd_source = mk_symbols s src',
        rd_calls = (calls @ [call_of k (i, cw ! i)]) @ map (\<lambda>i. call_of k (i, cw ! i)) is \<rparr>"
    and "length src' = k" "sized s src'" and "\<And>j. j < k \<Longrightarrow> src' ! j = (if j \<in> set is then cw ! j else src1 ! j)"
    using Cons.IH [OF sub s1, of "calls @ [call_of k (i, cw ! i)]"] by blast
  with st Cons.prems show ?case
    by (intro exI [of _ src']) (auto simp: code_symbols_def src1_def nth_list_update split: if_splits)
qed (auto simp: code_symbols_def)

lemma restore_symbols:
  assumes "\<forall>(i, b) \<in> set restored. i < k \<and> b = xs ! i" and "length xs = k" and "sized s xs"
    and "length src = k" and "sized s src" and mem: "0 < s" "k * s < 2 ^ 64"
  shows "\<exists>src'. try_fold restore_symbol (mk_symbols s src) restored = Inr (mk_symbols s src') \<and> length src' = k \<and>
    sized s src' \<and> (\<forall>i < k. src' ! i = (if i \<in> fst ` set restored then xs ! i else src ! i))"
  using assms(1,4,5)
proof (induction restored arbitrary: src)
  case (Cons r restored)
  obtain i b where r: "r = (i, b)" by (cases r)
  have ib: "i < k" "b = xs ! i" using Cons.prems(1) r by auto
  have st: "restore_symbol (mk_symbols s src) r = Inr (mk_symbols s (src[i := b]))"
    using ib Cons.prems assms(2,3) mem by (simp add: restore_symbol_def r sized_nth)
  have s1: "length (src[i := b]) = k" "sized s (src[i := b])"
    using Cons.prems ib assms(2,3) by (simp_all add: sized_nth)
  obtain src' where "try_fold restore_symbol (mk_symbols s (src[i := b])) restored = Inr (mk_symbols s src')"
    "length src' = k" "sized s src'"
    "\<And>j. j < k \<Longrightarrow> src' ! j = (if j \<in> fst ` set restored then xs ! j else src[i := b] ! j)"
    using Cons.IH [OF _ s1] Cons.prems(1) by auto
  with st ib r Cons.prems show ?case
    by (intro exI [of _ src']) (auto simp: nth_list_update split: if_splits)
qed auto

lemma decoder_decode_codeword:
  assumes sup: "rs_supported L k n s" and d: "decoder_fresh k n s d"
    and xs: "length xs = k" "sized s xs" and i: "set is \<subseteq> {..<n}" "k \<le> card (set is)"
  obtains d' where "decoder_decode L d (code_symbols (codeword L n s xs) is) = (Inr (concat xs), d')"
    and "decoder_fresh k n s d'"
proof -
  note en = rs_supported_encodable [OF sup]
  note cw = codeword_props [OF en xs] and mem = rs_encodable_usize(1,2) [OF en]
  have kn: "k \<le> n" "n - k + k = n" using sup by (auto simp: rs_supported_def)
  have d0: "d = \<lparr> rd_n_source = k, rd_n_shards = n, rd_source = mk_symbols s (replicate k (replicate s 0)), rd_calls = [] \<rparr>"
    using d symbols_zeros_mk [OF mem(2)] by (cases d) (simp add: decoder_fresh_def)
  obtain src where rc: "try_fold receive_symbol d (code_symbols (codeword L n s xs) is) =
      Inr \<lparr> rd_n_source = k, rd_n_shards = n, rd_source = mk_symbols s src,
        rd_calls = map (\<lambda>i. call_of k (i, codeword L n s xs ! i)) is \<rparr>"
    and src: "length src = k" "sized s src" "\<And>i. i < k \<Longrightarrow> src ! i =
      (if i \<in> set is then codeword L n s xs ! i else replicate k (replicate s 0) ! i)"
    using receive_code_symbols [OF cw(2), of "is" k "replicate k (replicate s 0)" n "[]"] i(1) cw(1) kn(1) mem
    unfolding d0 by auto
  obtain restored where dec: "rs_decode L k (n - k) s (map (\<lambda>i. call_of k (i, codeword L n s xs ! i)) is) = Inr restored"
    and rest: "\<forall>(i, b) \<in> set restored. i < k \<and> b = xs ! i" "{..<k} \<subseteq> set is \<union> fst ` set restored"
  proof -
    have "rs_codec L k (n - k) s" using sup by (simp add: rs_supported_def)
    moreover have "set is \<subseteq> {..<k + (n - k)}" using i(1) kn(1) by simp
    ultimately show ?thesis using that rs_codec_decode [OF _ xs parity_props(1) [OF en xs] _ i(2)]
      unfolding codeword_def by blast
  qed
  obtain src' where rs: "try_fold restore_symbol (mk_symbols s src) restored = Inr (mk_symbols s src')"
    and src': "length src' = k" "\<And>i. i < k \<Longrightarrow> src' ! i = (if i \<in> fst ` set restored then xs ! i else src ! i)"
    using restore_symbols [OF rest(1) xs src(1,2) mem] by blast
  have "src' = xs"
  proof (rule nth_equalityI)
    fix j assume "j < length src'"
    then have j: "j < k" using src'(1) by simp
    then have "j \<in> set is \<or> j \<in> fst ` set restored" using rest(2) by auto
    then show "src' ! j = xs ! j" using src'(2) [OF j] src(3) [OF j] j xs(1) by (auto simp: codeword_nth)
  qed (simp add: src' xs)
  then have "decoder_decode L d (code_symbols (codeword L n s xs) is) =
      (Inr (concat xs), \<lparr> rd_n_source = k, rd_n_shards = n, rd_source = symbols_zeros k s, rd_calls = [] \<rparr>)"
    using rc dec rs by (simp add: decoder_decode_def Let_def)
  then show ?thesis by (rule that) (simp add: decoder_fresh_def)
qed

lemma rs_decoder_new_fresh:
  "rs_supported L k n s \<Longrightarrow> \<exists>d. rs_decoder_new L k n s = Inr d \<and> decoder_fresh k n s d"
  by (simp add: rs_supported_def rs_codec_def rs_decoder_new_def ensure_def decoder_fresh_def)

lemma encode_symbol_ok:
  assumes sup: "rs_encodable L (n_source_symbols c e) (rs_n_shards c) s"
    and xs: "length xs = n_source_symbols c e" "sized s xs" and i: "i < rs_n_shards c"
  shows "encode_symbol L c e (concat xs) i = Inr (codeword L (rs_n_shards c) s xs ! i)"
proof -
  let ?k = "n_source_symbols c e" let ?n = "rs_n_shards c"
  have len: "length (concat xs) = ?k * s" using xs by (simp add: length_concat_sized)
  have chk: "check_parameters_and_compute_symbol_size (length (concat xs)) ?k = Inr s"
    using sup len by (simp add: check_parameters_and_compute_symbol_size_def rs_encodable_def compute_symbol_size_exact)
  show ?thesis
  proof (cases "i < ?k")
    case True
    have "i * s + s \<le> ?k * s" using True by (metis Suc_leI add.commute mult_Suc mult_le_mono1)
    moreover have "take s (drop (i * s) (concat xs)) = xs ! i"
      using xs True by (simp add: drop_concat_sized Cons_nth_drop_Suc [symmetric] sized_nth)
    ultimately show ?thesis using True chk len xs(1)
      by (simp add: encode_symbol_def get_range_def ok_or_def codeword_nth)
  next
    case False
    obtain enc where g: "get_encoder L c e (length (concat xs)) = Inr enc" and ok: "encoder_ok ?k ?n s enc"
      using get_encoder_ok [OF sup len] by blast
    have "get_symbol L enc (concat xs) i = Inr (codeword L ?n s xs ! i)"
      using False ok i len encoder_encode_ok [OF sup ok xs] parity_props [OF sup xs] xs(1)
      by (auto simp: get_symbol_def check_data_length_def Let_def encoder_ok_def ensure_def codeword_def nth_append)
    then show ?thesis using False chk g by (simp add: encode_symbol_def)
  qed
qed

section \<open>Properties\<close>

text \<open>
  C29: Any sufficiently many symbols of an encoding decode to the data. For a supported parameter
  set, encoding \<open>k\<close> source symbols yields \<open>n\<close> symbols that start with the source symbols; the
  single-symbol operation returns the same symbols; and decoding any list of these symbols with at
  least \<open>k\<close> distinct indices, in any order and with repetitions, returns the source data.
\<close>

theorem rs_encode_decode:
  assumes sup: "rs_supported L (n_source_symbols c (orthogonal e)) (rs_n_shards c) s"
    and xs: "length xs = n_source_symbols c (orthogonal e)" "sized s xs"
  shows "\<exists>cw. encode_all_symbols L c (orthogonal e) (concat xs) = Inr (mk_symbols s cw) \<and>
    length cw = rs_n_shards c \<and> take (length xs) cw = xs \<and>
    (\<forall>i < rs_n_shards c. encode_symbol L c (orthogonal e) (concat xs) i = Inr (cw ! i)) \<and>
    (\<forall>is. set is \<subseteq> {..<rs_n_shards c} \<and> length xs \<le> card (set is) \<longrightarrow>
       decode_from_decoding_symbols L c e s (map (\<lambda>i. \<lparr> ds_index = i, ds_data = cw ! i \<rparr>) is) = Inr (concat xs))"
proof -
  let ?cw = "codeword L (rs_n_shards c) s xs"
  note en = rs_supported_encodable [OF sup]
  have "decode_from_decoding_symbols L c e s (code_symbols ?cw is) = Inr (concat xs)"
    if "set is \<subseteq> {..<rs_n_shards c}" "length xs \<le> card (set is)" for "is"
  proof -
    obtain d where d: "rs_decoder_new L (n_source_symbols c (orthogonal e)) (rs_n_shards c) s = Inr d"
      "decoder_fresh (n_source_symbols c (orthogonal e)) (rs_n_shards c) s d"
      using rs_decoder_new_fresh [OF sup] by blast
    show ?thesis using decoder_decode_codeword [OF sup d(2) xs that(1)] that(2) xs(1) d(1)
      by (metis and_then_simps(2) decode_from_decoding_symbols_def fst_conv get_decoder_def)
  qed
  then show ?thesis
    using encode_all_symbols_ok [OF en xs] codeword_props [OF en xs] encode_symbol_ok [OF en xs]
    by (intro exI [of _ ?cw]) (simp add: code_symbols_def codeword_def)
qed

end
