(* ===== verification/Walrus_Slivers.thy ===== *)
theory Walrus_Slivers
  imports Walrus_Mapping Walrus_Metadata Rs_Coding
begin

text \<open>
  Slivers, \<^verbatim>\<open>walrus-core/src/encoding/slivers.rs\<close>, the recovery symbols of
  \<^verbatim>\<open>encoding/symbols.rs\<close> and the inconsistency proofs of \<^verbatim>\<open>inconsistency.rs\<close>. A sliver of axis
  \<open>t\<close> is expanded along the other axis; the Merkle root over the expanded symbols authenticates it.
  The Rust type parameter of the axis is an argument of the definitions.

  An \<^verbatim>\<open>expect\<close> that fails, a failed assertion and an arithmetic underflow are \<open>SliverPanic\<close> (or the
  panic of the error type at hand).
\<close>

section \<open>Errors\<close>

datatype sliver_error =
    SliverIndexTooLarge
  | SliverSizeMismatch
  | SliverSymbolSizeMismatch
  | MerkleRootMismatch
  | SliverPanic

datatype recovery_symbol_error = RecoveryIndexTooLarge | RecoveryEncodeError encode_error | RecoveryPanic

datatype symbol_verification_error =
    SymbolIndexTooLarge
  | SymbolSizeMismatch
  | InvalidProof merkle_proof_error
  | InvalidMetadata
  | SymbolNotUsable
  | SymbolVerificationPanic

datatype recovery_error =
    BlobSizeTooLarge
  | DecodingFailure
  | RecoveredSliverInvalid sliver_error
  | SliverRecoveryPanic

datatype inconsistency_error =
    IncorrectSymbolCount nat nat
  | InvalidRecoverySymbols
  | RecoveryFailure
  | InconsistencySliverError sliver_error
  | SliverNotInconsistent
  | InconsistencyPanic

section \<open>Slivers\<close>

definition sliver_new :: "bytes \<Rightarrow> nat \<Rightarrow> nat \<Rightarrow> (sliver_data, symbol_error) result" where
  "sliver_new data sz i = and_then (symbols_new data sz) (\<lambda>x. Inr \<lparr> sl_symbols = x, sl_index = i \<rparr>)"

definition sliver_new_empty :: "nat \<Rightarrow> nat \<Rightarrow> nat \<Rightarrow> sliver_data" where
  "sliver_new_empty len sz i = \<lparr> sl_symbols = symbols_zeros len sz, sl_index = i \<rparr>"

definition copy_symbol_to :: "sliver_data \<Rightarrow> nat \<Rightarrow> bytes \<Rightarrow> (sliver_data, symbol_error) result" where
  "copy_symbol_to sl i symbol =
     and_then (ensure (length symbol = symbol_size (sl_symbols sl)) SymbolPanic) (\<lambda>_.
     and_then (symbols_set (sl_symbols sl) i symbol) (\<lambda>x. Inr (sl\<lparr> sl_symbols := x \<rparr>)))"

definition sliver_len :: "sliver_data \<Rightarrow> nat" where
  "sliver_len sl = length (sym_data (sl_symbols sl))"

definition expected_length :: "rs_config \<Rightarrow> axis \<Rightarrow> nat \<Rightarrow> (nat option, sliver_error) result" where
  "expected_length c t blob_size =
     (case sliver_size_for_blob c t blob_size of
        Inr l \<Rightarrow> Inr (Some l) | Inl DataTooLarge \<Rightarrow> Inr None | Inl Panic \<Rightarrow> Inl SliverPanic)"

definition has_correct_length :: "rs_config \<Rightarrow> axis \<Rightarrow> sliver_data \<Rightarrow> nat \<Rightarrow> (bool, sliver_error) result" where
  "has_correct_length c t sl blob_size =
     and_then (expected_length c t blob_size) (\<lambda>l. Inr (l = Some (sliver_len sl)))"

definition recovery_symbols ::
  "rs_lib \<Rightarrow> rs_config \<Rightarrow> axis \<Rightarrow> sliver_data \<Rightarrow> (symbols, recovery_symbol_error) result" where
  "recovery_symbols L c t sl =
     and_then (map_err RecoveryEncodeError (encode_all_symbols L c (orthogonal t) (sym_data (sl_symbols sl)))) (\<lambda>x.
     and_then (ensure (\<not> symbols_is_empty x) RecoveryPanic) (\<lambda>_.
     and_then (map_err (\<lambda>_. RecoveryPanic) (symbols_at x 0)) (\<lambda>b.
     and_then (ensure (b \<noteq> []) RecoveryPanic) (\<lambda>_. Inr x))))"

definition get_merkle_root ::
  "(bytes \<Rightarrow> bytes) \<Rightarrow> rs_lib \<Rightarrow> rs_config \<Rightarrow> axis \<Rightarrow> sliver_data \<Rightarrow> (node, recovery_symbol_error) result" where
  "get_merkle_root H L c t sl =
     and_then (recovery_symbols L c t sl) (\<lambda>x. Inr (root (build H (to_symbols x))))"

definition check_hash ::
  "(bytes \<Rightarrow> bytes) \<Rightarrow> rs_lib \<Rightarrow> rs_config \<Rightarrow> axis \<Rightarrow> sliver_data \<Rightarrow> blob_metadata \<Rightarrow> (unit, sliver_error) result" where
  "check_hash H L c t sl md =
     and_then (ok_or SliverPanic (to_pair_index_of_sliver t (sl_index sl) (rs_n_shards c))) (\<lambda>p.
     and_then (ensure (p < length (hashes md)) SliverPanic) (\<lambda>_.
     and_then (map_err (\<lambda>_. SliverPanic) (get_merkle_root H L c t sl)) (\<lambda>r.
     ensure (r = pair_hash t (hashes md ! p)) MerkleRootMismatch)))"

definition sliver_verify ::
  "(bytes \<Rightarrow> bytes) \<Rightarrow> rs_lib \<Rightarrow> encoding_config \<Rightarrow> axis \<Rightarrow> sliver_data \<Rightarrow> blob_metadata \<Rightarrow> (unit, sliver_error) result" where
  "sliver_verify H L config t sl md =
     and_then (map_err (\<lambda>_. SliverPanic) (get_for_type config (md_encoding_type md))) (\<lambda>c.
     and_then (ensure (sl_index sl < length (hashes md)) SliverIndexTooLarge) (\<lambda>_.
     and_then (has_correct_length c t sl (unencoded_length md)) (\<lambda>ok.
     and_then (ensure ok SliverSizeMismatch) (\<lambda>_.
     and_then (case metadata_symbol_size md config of Inl Panic \<Rightarrow> Inl SliverPanic | Inl DataTooLarge \<Rightarrow> Inr False
               | Inr sz \<Rightarrow> Inr (symbol_size (sl_symbols sl) = sz)) (\<lambda>same.
     and_then (ensure same SliverSymbolSizeMismatch) (\<lambda>_.
     check_hash H L c t sl md))))))"

definition check_index :: "nat \<Rightarrow> nat \<Rightarrow> (unit, recovery_symbol_error) result" where
  "check_index i n = (if n \<le> i then Inl RecoveryIndexTooLarge else Inr ())"

section \<open>Recovery symbols\<close>

record recovery_symbol =
  rsy_symbol :: decoding_symbol
  rsy_proof :: "node list"

definition recovery_symbol_for_sliver ::
  "(bytes \<Rightarrow> bytes) \<Rightarrow> rs_lib \<Rightarrow> rs_config \<Rightarrow> axis \<Rightarrow> sliver_data \<Rightarrow> nat \<Rightarrow>
   (recovery_symbol, recovery_symbol_error) result" where
  "recovery_symbol_for_sliver H L c t sl target_pair =
     and_then (check_index target_pair (rs_n_shards c)) (\<lambda>_.
     and_then (recovery_symbols L c t sl) (\<lambda>x.
     and_then (ok_or RecoveryPanic (to_sliver_index (orthogonal t) target_pair (rs_n_shards c))) (\<lambda>target.
     and_then (map_err (\<lambda>_. RecoveryPanic) (decoding_symbol_at x target (sl_index sl))) (\<lambda>ds.
     and_then (ok_or RecoveryPanic ds) (\<lambda>ds.
     and_then (map_err (\<lambda>_. RecoveryPanic) (get_proof (build H (to_symbols x)) target)) (\<lambda>path.
     Inr \<lparr> rsy_symbol = ds, rsy_proof = path \<rparr>))))))"

definition decoding_symbol_for_sliver ::
  "rs_lib \<Rightarrow> rs_config \<Rightarrow> axis \<Rightarrow> sliver_data \<Rightarrow> nat \<Rightarrow> (decoding_symbol, recovery_symbol_error) result" where
  "decoding_symbol_for_sliver L c t sl target_pair =
     and_then (check_index target_pair (rs_n_shards c)) (\<lambda>_.
     and_then (ok_or RecoveryPanic (to_sliver_index (orthogonal t) target_pair (rs_n_shards c))) (\<lambda>target.
     and_then (map_err RecoveryEncodeError
       (encode_symbol L c (orthogonal t) (sym_data (sl_symbols sl)) target)) (\<lambda>b.
     Inr \<lparr> ds_index = sl_index sl, ds_data = b \<rparr>)))"

definition recover_sliver_from_decoding_symbols ::
  "rs_lib \<Rightarrow> rs_config \<Rightarrow> axis \<Rightarrow> decoding_symbol list \<Rightarrow> nat \<Rightarrow> nat \<Rightarrow> (sliver_data, decode_error) result" where
  "recover_sliver_from_decoding_symbols L c t ds target sz =
     (if length ds < n_symbols_for_recovery c t then Inl DecodingUnsuccessful
      else and_then (decode_from_decoding_symbols L c t sz ds) (\<lambda>data.
           map_err (\<lambda>_. DecodePanicked) (sliver_new data sz target)))"

definition recover_sliver_without_verification ::
  "rs_lib \<Rightarrow> rs_config \<Rightarrow> axis \<Rightarrow> recovery_symbol list \<Rightarrow> nat \<Rightarrow> nat \<Rightarrow> (sliver_data, decode_error) result" where
  "recover_sliver_without_verification L c t rs target sz =
     recover_sliver_from_decoding_symbols L c t (map rsy_symbol rs) target sz"

definition recovery_symbol_verify ::
  "(bytes \<Rightarrow> bytes) \<Rightarrow> axis \<Rightarrow> nat \<Rightarrow> nat \<Rightarrow> blob_metadata \<Rightarrow> nat \<Rightarrow> recovery_symbol \<Rightarrow>
   (unit, symbol_verification_error) result" where
  "recovery_symbol_verify H t n expected_size md target rs =
     (let sym = rsy_symbol rs in
      if n \<le> ds_index sym then Inl SymbolIndexTooLarge
      else if length (ds_data sym) \<noteq> expected_size then Inl SymbolSizeMismatch
      else
        and_then (ok_or SymbolVerificationPanic (to_pair_index_of_sliver (orthogonal t) (ds_index sym) n)) (\<lambda>p.
        and_then (ok_or InvalidMetadata (get_sliver_hash md p (orthogonal t))) (\<lambda>rt.
        map_err InvalidProof (verify_proof H (rsy_proof rs) rt n (ds_data sym) target))))"

section \<open>Inconsistency proofs\<close>

record inconsistency_proof =
  target_sliver_index :: nat
  ip_recovery_symbols :: "recovery_symbol list"

datatype sliver_or_proof = RecoveredSliver sliver_data | Inconsistent inconsistency_proof

definition recover_sliver_or_generate_inconsistency_proof ::
  "(bytes \<Rightarrow> bytes) \<Rightarrow> rs_lib \<Rightarrow> axis \<Rightarrow> recovery_symbol list \<Rightarrow> nat \<Rightarrow> blob_metadata \<Rightarrow> encoding_config \<Rightarrow>
   (sliver_or_proof, recovery_error) result" where
  "recover_sliver_or_generate_inconsistency_proof H L t rs target md config =
     and_then (map_err (\<lambda>e. if e = DataTooLarge then BlobSizeTooLarge else SliverRecoveryPanic)
       (metadata_symbol_size md config)) (\<lambda>sz.
     and_then (map_err (\<lambda>_. SliverRecoveryPanic) (get_for_type config (md_encoding_type md))) (\<lambda>c.
     let vs = take (n_symbols_for_recovery c t) rs in
     and_then (map_err (\<lambda>e. if e = DecodePanicked then SliverRecoveryPanic else DecodingFailure)
       (recover_sliver_without_verification L c t vs target sz)) (\<lambda>sl.
     case sliver_verify H L config t sl md of
       Inr _ \<Rightarrow> Inr (RecoveredSliver sl)
     | Inl MerkleRootMismatch \<Rightarrow> Inr (Inconsistent \<lparr> target_sliver_index = target, ip_recovery_symbols = vs \<rparr>)
     | Inl e \<Rightarrow> Inl (RecoveredSliverInvalid e))))"

definition check_recovery_symbols ::
  "(bytes \<Rightarrow> bytes) \<Rightarrow> axis \<Rightarrow> inconsistency_proof \<Rightarrow> blob_metadata \<Rightarrow> nat \<Rightarrow> encoding_config \<Rightarrow>
   (unit, inconsistency_error) result" where
  "check_recovery_symbols H t ip md sz config =
     and_then (map_err (\<lambda>_. InconsistencyPanic) (get_for_type config (md_encoding_type md))) (\<lambda>c.
     let expected = n_symbols_for_recovery c t in
     and_then (ensure (length (ip_recovery_symbols ip) = expected)
       (IncorrectSymbolCount expected (length (ip_recovery_symbols ip)))) (\<lambda>_.
     ensure (\<forall>rs \<in> set (ip_recovery_symbols ip).
         recovery_symbol_verify H t (cfg_n_shards config) sz md (target_sliver_index ip) rs = Inr ())
       InvalidRecoverySymbols))"

definition inconsistency_verify ::
  "(bytes \<Rightarrow> bytes) \<Rightarrow> rs_lib \<Rightarrow> axis \<Rightarrow> inconsistency_proof \<Rightarrow> blob_metadata \<Rightarrow> encoding_config \<Rightarrow>
   (unit, inconsistency_error) result" where
  "inconsistency_verify H L t ip md config =
     and_then (map_err (\<lambda>e. if e = DataTooLarge then RecoveryFailure else InconsistencyPanic)
       (metadata_symbol_size md config)) (\<lambda>sz.
     and_then (check_recovery_symbols H t ip md sz config) (\<lambda>_.
     and_then (map_err (\<lambda>_. InconsistencyPanic) (get_for_type config (md_encoding_type md))) (\<lambda>c.
     and_then (map_err (\<lambda>e. if e = DecodePanicked then InconsistencyPanic else RecoveryFailure)
       (recover_sliver_without_verification L c t (ip_recovery_symbols ip) (target_sliver_index ip) sz)) (\<lambda>sl.
     case sliver_verify H L config t sl md of
       Inr _ \<Rightarrow> Inl SliverNotInconsistent
     | Inl MerkleRootMismatch \<Rightarrow> Inr ()
     | Inl e \<Rightarrow> Inl (InconsistencySliverError e)))))"

section \<open>Recovery symbols of either axis\<close>

datatype either_decoding_symbol = PrimarySymbol decoding_symbol | SecondarySymbol decoding_symbol

fun source_type :: "either_decoding_symbol \<Rightarrow> axis" where
  "source_type (PrimarySymbol x) = Secondary"
| "source_type (SecondarySymbol x) = Primary"

fun either_symbol :: "either_decoding_symbol \<Rightarrow> decoding_symbol" where
  "either_symbol (PrimarySymbol x) = x"
| "either_symbol (SecondarySymbol x) = x"

record general_recovery_symbol =
  grs_symbol :: either_decoding_symbol
  grs_target_index :: nat
  grs_proof :: "node list"

fun symbol_id_of :: "either_decoding_symbol \<Rightarrow> nat \<Rightarrow> nat \<times> nat" where
  "symbol_id_of (PrimarySymbol x) target = (target, ds_index x)"
| "symbol_id_of (SecondarySymbol x) target = (ds_index x, target)"

definition grs_id :: "general_recovery_symbol \<Rightarrow> nat \<times> nat" where
  "grs_id g = symbol_id_of (grs_symbol g) (grs_target_index g)"

definition proof_axis :: "general_recovery_symbol \<Rightarrow> axis" where
  "proof_axis g = source_type (grs_symbol g)"

definition get_expected_root ::
  "general_recovery_symbol \<Rightarrow> blob_metadata \<Rightarrow> nat \<Rightarrow> (node option, symbol_verification_error) result" where
  "get_expected_root g md n =
     and_then (ok_or SymbolVerificationPanic
       (to_pair_index_of_sliver (source_type (grs_symbol g)) (ds_index (either_symbol (grs_symbol g))) n)) (\<lambda>p.
     Inr (get_sliver_hash md p (source_type (grs_symbol g))))"

definition general_verify ::
  "(bytes \<Rightarrow> bytes) \<Rightarrow> general_recovery_symbol \<Rightarrow> blob_metadata \<Rightarrow> encoding_config \<Rightarrow> nat \<Rightarrow> axis \<Rightarrow>
   (unit, symbol_verification_error) result" where
  "general_verify H g md config target target_type =
     (let n = cfg_n_shards config; sym = either_symbol (grs_symbol g) in
      and_then (ensure (ds_index sym < n) SymbolIndexTooLarge) (\<lambda>_.
      and_then (ensure (grs_target_index g < n) SymbolIndexTooLarge) (\<lambda>_.
      and_then (case metadata_symbol_size md config of Inl Panic \<Rightarrow> Inl SymbolVerificationPanic
                | Inl DataTooLarge \<Rightarrow> Inr False | Inr sz \<Rightarrow> Inr (length (ds_data sym) = sz)) (\<lambda>same.
      and_then (ensure same SymbolSizeMismatch) (\<lambda>_.
      and_then (ensure ((source_type (grs_symbol g) \<noteq> target_type \<and> grs_target_index g = target) \<or>
        ds_index sym = target) SymbolNotUsable) (\<lambda>_.
      and_then (get_expected_root g md n) (\<lambda>r.
      and_then (ok_or InvalidMetadata r) (\<lambda>rt.
      map_err InvalidProof (verify_proof H (grs_proof g) rt n (ds_data sym) (grs_target_index g))))))))))"

fun into_decoding_symbol :: "axis \<Rightarrow> either_decoding_symbol \<Rightarrow> nat \<Rightarrow> decoding_symbol" where
  "into_decoding_symbol Primary (PrimarySymbol x) target = x"
| "into_decoding_symbol Primary (SecondarySymbol x) target = \<lparr> ds_index = target, ds_data = ds_data x \<rparr>"
| "into_decoding_symbol Secondary (SecondarySymbol x) target = x"
| "into_decoding_symbol Secondary (PrimarySymbol x) target = \<lparr> ds_index = target, ds_data = ds_data x \<rparr>"

section \<open>Sliver pairs\<close>

definition sliver_pair_new_empty :: "rs_config \<Rightarrow> nat \<Rightarrow> nat \<Rightarrow> (sliver_pair, symbol_error) result" where
  "sliver_pair_new_empty c sz i =
     and_then (ok_or SymbolPanic (to_sliver_index Secondary i (rs_n_shards c))) (\<lambda>j.
     Inr \<lparr> pair_primary = sliver_new_empty (source_symbols_secondary c) sz i,
           pair_secondary = sliver_new_empty (source_symbols_primary c) sz j \<rparr>)"

definition recovery_symbol_pair_for_sliver ::
  "(bytes \<Rightarrow> bytes) \<Rightarrow> rs_lib \<Rightarrow> rs_config \<Rightarrow> sliver_pair \<Rightarrow> nat \<Rightarrow>
   (recovery_symbol \<times> recovery_symbol, recovery_symbol_error) result" where
  "recovery_symbol_pair_for_sliver H L c p target =
     and_then (recovery_symbol_for_sliver H L c Secondary (pair_secondary p) target) (\<lambda>a.
     and_then (recovery_symbol_for_sliver H L c Primary (pair_primary p) target) (\<lambda>b. Inr (a, b)))"

definition sliver_pair_leaf_input ::
  "(bytes \<Rightarrow> bytes) \<Rightarrow> rs_lib \<Rightarrow> rs_config \<Rightarrow> sliver_pair \<Rightarrow> (bytes, recovery_symbol_error) result" where
  "sliver_pair_leaf_input H L c p =
     and_then (get_merkle_root H L c Primary (pair_primary p)) (\<lambda>a.
     and_then (get_merkle_root H L c Secondary (pair_secondary p)) (\<lambda>b.
     Inr (pair_leaf_input \<lparr> primary_hash = a, secondary_hash = b \<rparr>)))"

section \<open>Expanding well-formed slivers\<close>

lemma recovery_symbols_ok:
  assumes sup: "rs_encodable L (n_source_symbols c (orthogonal t)) (rs_n_shards c) s"
    and xs: "length xs = n_source_symbols c (orthogonal t)" "sized s xs"
  shows "recovery_symbols L c t \<lparr> sl_symbols = mk_symbols s xs, sl_index = i \<rparr> = Inr (mk_symbols s (codeword L (rs_n_shards c) s xs))"
proof -
  let ?cw = "codeword L (rs_n_shards c) s xs"
  have pos: "0 < rs_n_shards c" "0 < s" "rs_n_shards c * s < 2 ^ 64" using sup rs_encodable_usize [OF sup] by (auto simp: rs_encodable_def)
  note cw = codeword_props [OF sup xs]
  then have first: "length (?cw ! 0) = s" using pos sized_nth by metis
  have "length (concat ?cw) = rs_n_shards c * s" using cw by (simp add: length_concat_sized)
  then have "concat ?cw \<noteq> []" using pos by (metis length_0_conv mult_is_0 not_less_zero)
  moreover have "?cw ! 0 \<noteq> []" using first pos by auto
  ultimately show ?thesis using cw pos encode_all_symbols_ok [OF sup xs]
    by (simp add: recovery_symbols_def symbols_is_empty_def ensure_def del: concat_eq_Nil_conv)
qed

lemma get_merkle_root_ok:
  assumes sup: "rs_encodable L (n_source_symbols c (orthogonal t)) (rs_n_shards c) s"
    and xs: "length xs = n_source_symbols c (orthogonal t)" "sized s xs"
  shows "get_merkle_root H L c t \<lparr> sl_symbols = mk_symbols s xs, sl_index = i \<rparr> =
    Inr (root (build H (codeword L (rs_n_shards c) s xs)))"
  using recovery_symbols_ok [OF assms] codeword_props(2) [OF assms] sup
  by (simp add: get_merkle_root_def rs_encodable_def)

end
