(* ===== verification/Blob_Encoding.thy ===== *)
theory Blob_Encoding
  imports Walrus_Slivers
begin

text \<open>
  The two-dimensional blob encoding of \<^verbatim>\<open>walrus-core/src/encoding/blob_encoding.rs\<close>. The blob,
  padded with zeros, is a message matrix of \<open>n_rows\<close> by \<open>n_columns\<close> symbols. Rows are extended
  with the secondary code, then every column with the primary code; row \<open>i\<close> of the expanded
  matrix gives primary sliver \<open>i\<close>, column \<open>j\<close> gives secondary sliver \<open>j\<close>, and the hashes of all
  symbols give the metadata.

  Three routines compute this: \<^verbatim>\<open>encode_with_metadata\<close>, which interleaves the two extensions to save
  memory, \<^verbatim>\<open>compute_metadata_with_symbol_hashes\<close>, which keeps only what the hashes need, and the
  older one over the expanded matrix. Each loop is a fold with the state the code mutates; every
  \<^verbatim>\<open>expect\<close> and every index is a possible \<open>Panic\<close>.
\<close>

section \<open>The encoder\<close>

record blob_encoder =
  be_blob :: bytes
  be_symbol_size :: nat
  be_n_rows :: nat
  be_n_columns :: nat
  be_config :: rs_config

definition blob_encoder_new :: "rs_config \<Rightarrow> bytes \<Rightarrow> (blob_encoder, encoding_error) result" where
  "blob_encoder_new c blob =
     and_then (source_symbols_per_blob (source_symbols_primary c) (source_symbols_secondary c)) (\<lambda>k.
     and_then (compute_symbol_size (length blob) k (required_alignment RS2)) (\<lambda>sz.
     Inr \<lparr> be_blob = blob, be_symbol_size = sz, be_n_rows = n_source_symbols c Primary,
           be_n_columns = n_source_symbols c Secondary, be_config = c \<rparr>))"

text \<open>Panics of the parts are panics of the encoder.\<close>

definition or_panic :: "('a, 'e) result \<Rightarrow> ('a, encoding_error) result" where
  "or_panic r = map_err (\<lambda>_. Panic) r"

text \<open>\<open>xs.iter().zip(ys.iter_mut()).for_each(f)\<close>: update a prefix of \<open>ys\<close> by the elements of \<open>xs\<close>.\<close>

fun try_update_zip :: "('a \<Rightarrow> 'b \<Rightarrow> ('b, 'e) result) \<Rightarrow> 'a list \<Rightarrow> 'b list \<Rightarrow> ('b list, 'e) result" where
  "try_update_zip f (x # xs) (y # ys) =
     and_then (f x y) (\<lambda>y'. and_then (try_update_zip f xs ys) (\<lambda>ys'. Inr (y' # ys')))"
| "try_update_zip f _ ys = Inr ys"

definition sliver_length :: "blob_encoder \<Rightarrow> axis \<Rightarrow> nat" where
  "sliver_length be e = n_source_symbols (be_config be) (orthogonal e) * be_symbol_size be"

definition be_get_encoder :: "rs_lib \<Rightarrow> blob_encoder \<Rightarrow> axis \<Rightarrow> (rs_encoder, encoding_error) result" where
  "be_get_encoder L be e = or_panic (get_encoder L (be_config be) e (sliver_length be (orthogonal e)))"

definition empty_sliver :: "blob_encoder \<Rightarrow> axis \<Rightarrow> nat \<Rightarrow> sliver_data" where
  "empty_sliver be e i = sliver_new_empty (n_source_symbols (be_config be) (orthogonal e)) (be_symbol_size be) i"

definition empty_slivers :: "blob_encoder \<Rightarrow> axis \<Rightarrow> sliver_data list" where
  "empty_slivers be e = map (empty_sliver be e) [0..<rs_n_shards (be_config be)]"

definition symbol_at :: "blob_encoder \<Rightarrow> nat \<Rightarrow> nat \<Rightarrow> bytes" where
  "symbol_at be row col =
     (let len = length (be_blob be);
          start = min (be_symbol_size be * (be_n_columns be * row + col)) len;
          stop = min (start + be_symbol_size be) len
      in take (stop - start) (drop start (be_blob be)))"

definition column_symbols_of :: "blob_encoder \<Rightarrow> bytes list list" where
  "column_symbols_of be = map (\<lambda>col. map (\<lambda>row. symbol_at be row col) [0..<be_n_rows be]) [0..<be_n_columns be]"

definition rows :: "blob_encoder \<Rightarrow> bytes list" where
  "rows be = chunks (be_n_columns be * be_symbol_size be) (be_blob be)"

definition rows_all :: "blob_encoder \<Rightarrow> bytes list" where
  "rows_all be = map (\<lambda>row.
     let len = length (be_blob be);
         start = min (be_symbol_size be * (be_n_columns be * row)) len;
         stop = min (start + be_symbol_size be * be_n_columns be) len
     in take (stop - start) (drop start (be_blob be))) [0..<be_n_rows be]"

text \<open>\<open>dest[..src.len()].copy_from_slice(src)\<close> for every symbol of a column.\<close>

definition write_symbol_prefix :: "bytes \<Rightarrow> bytes \<Rightarrow> (bytes, encoding_error) result" where
  "write_symbol_prefix src dest = (if length src \<le> length dest then Inr (src @ drop (length src) dest) else Inl Panic)"

definition fill_symbols :: "bytes list \<Rightarrow> symbols \<Rightarrow> (symbols, encoding_error) result" where
  "fill_symbols column x =
     and_then (try_update_zip write_symbol_prefix column (to_symbols x)) (\<lambda>ys. Inr (x\<lparr> sym_data := concat ys \<rparr>))"

definition fill_row :: "bytes \<Rightarrow> sliver_data \<Rightarrow> (sliver_data, encoding_error) result" where
  "fill_row row sl = and_then (or_panic (write_prefix (sl_symbols sl) row)) (\<lambda>x. Inr (sl\<lparr> sl_symbols := x \<rparr>))"

definition fill_column :: "bytes list \<Rightarrow> sliver_data \<Rightarrow> (sliver_data, encoding_error) result" where
  "fill_column column sl = and_then (fill_symbols column (sl_symbols sl)) (\<lambda>x. Inr (sl\<lparr> sl_symbols := x \<rparr>))"

definition copy_to :: "nat \<Rightarrow> bytes \<Rightarrow> sliver_data \<Rightarrow> (sliver_data, encoding_error) result" where
  "copy_to i symbol sl = or_panic (copy_symbol_to sl i symbol)"

section \<open>Metadata from symbol hashes\<close>

definition compute_metadata_from_symbol_hashes ::
  "(bytes \<Rightarrow> bytes) \<Rightarrow> rs_config \<Rightarrow> node list \<Rightarrow> nat \<Rightarrow> (blob_metadata_with_id, encoding_error) result" where
  "compute_metadata_from_symbol_hashes H c symbol_hashes len =
     (let n = rs_n_shards c in
      and_then (ensure (length symbol_hashes = n * n) Panic) (\<lambda>_.
      Inr (new_verified_from_metadata H
        (map (\<lambda>i. \<lparr> primary_hash = root (build_from_leaf_hashes H (take n (drop (n * i) symbol_hashes))),
                   secondary_hash = root (build_from_leaf_hashes H
                     (map (\<lambda>r. symbol_hashes ! (n * r + n - 1 - i)) [0..<n])) \<rparr>) [0..<n])
        RS2 len)))"

text \<open>\<open>symbol_hashes[n_shards * row + col] = leaf_hash(symbol)\<close> for all symbols of a column.\<close>

definition set_hash :: "(bytes \<Rightarrow> bytes) \<Rightarrow> nat \<Rightarrow> nat \<Rightarrow> node list \<Rightarrow> nat \<times> bytes \<Rightarrow> (node list, encoding_error) result" where
  "set_hash H n col hs = (\<lambda>(row, symbol).
     if n * row + col < length hs then Inr (hs[n * row + col := leaf_hash H symbol]) else Inl Panic)"

definition hash_column :: "(bytes \<Rightarrow> bytes) \<Rightarrow> nat \<Rightarrow> nat \<Rightarrow> node list \<Rightarrow> symbols \<Rightarrow> (node list, encoding_error) result" where
  "hash_column H n col hs x = try_fold (set_hash H n col) hs (enumerate 0 (to_symbols x))"

section \<open>Encoding with metadata\<close>

definition extend_row ::
  "rs_lib \<Rightarrow> rs_encoder \<Rightarrow> nat \<Rightarrow> sliver_data list \<Rightarrow> nat \<times> bytes \<Rightarrow> (sliver_data list, encoding_error) result" where
  "extend_row L enc skip secondary = (\<lambda>(r, data).
     and_then (or_panic (encoder_encode L enc data)) (\<lambda>recovery.
     and_then (try_update_zip (copy_to r) recovery (drop skip secondary)) (\<lambda>updated.
     Inr (take skip secondary @ updated))))"

definition encode_column ::
  "(bytes \<Rightarrow> bytes) \<Rightarrow> rs_lib \<Rightarrow> blob_encoder \<Rightarrow> rs_encoder \<times> node list \<times> sliver_data list \<Rightarrow>
   nat \<times> sliver_data \<Rightarrow> (rs_encoder \<times> node list \<times> sliver_data list, encoding_error) result" where
  "encode_column H L be = (\<lambda>(enc, hs, primary) (col, column).
     case encode_all_ref L enc (sym_data (sl_symbols column)) of (r, enc') \<Rightarrow>
     and_then (or_panic r) (\<lambda>x.
     and_then (hash_column H (rs_n_shards (be_config be)) col hs x) (\<lambda>hs'.
     if col < be_n_columns be then
       and_then (try_update_zip (copy_to col) (drop (be_n_rows be) (to_symbols x)) (drop (be_n_rows be) primary)) (\<lambda>updated.
       Inr (enc', hs', take (be_n_rows be) primary @ updated))
     else Inr (enc', hs', primary))))"

definition encode_with_metadata ::
  "(bytes \<Rightarrow> bytes) \<Rightarrow> rs_lib \<Rightarrow> blob_encoder \<Rightarrow> (sliver_pair list \<times> blob_metadata_with_id, encoding_error) result" where
  "encode_with_metadata H L be =
     (let n = rs_n_shards (be_config be) in
      and_then (try_update_zip fill_row (rows be) (map (empty_sliver be Primary) [0..<be_n_rows be])) (\<lambda>primary.
      and_then (try_update_zip fill_column (column_symbols_of be) (empty_slivers be Secondary)) (\<lambda>secondary.
      and_then (be_get_encoder L be Secondary) (\<lambda>secondary_encoder.
      and_then (try_fold (extend_row L secondary_encoder (be_n_columns be)) secondary
        (enumerate 0 (map (sym_data \<circ> sl_symbols) (take (be_n_rows be) primary)))) (\<lambda>secondary.
      and_then (be_get_encoder L be Primary) (\<lambda>primary_encoder.
      and_then (try_fold (encode_column H L be)
        (primary_encoder, replicate (n * n) Empty, primary @ map (empty_sliver be Primary) [be_n_rows be..<n])
        (enumerate 0 secondary)) (\<lambda>(_, symbol_hashes, primary).
      and_then (compute_metadata_from_symbol_hashes H (be_config be) symbol_hashes (length (be_blob be))) (\<lambda>md.
      Inr (map (\<lambda>(p, s). \<lparr> pair_primary = p, pair_secondary = s \<rparr>) (zip primary (rev secondary)), md)))))))))"

section \<open>Metadata only\<close>

text \<open>The zero-padded copy of a short row in the reused buffer.\<close>

definition pad_row :: "nat \<Rightarrow> bytes \<Rightarrow> bytes \<Rightarrow> bytes" where
  "pad_row row_length buffer row =
     (if length row < row_length then row @ replicate (row_length - length row) 0 @ drop row_length buffer else buffer)"

definition extend_row_buffered ::
  "rs_lib \<Rightarrow> rs_encoder \<Rightarrow> nat \<Rightarrow> bytes \<times> sliver_data list \<Rightarrow> nat \<times> bytes \<Rightarrow>
   (bytes \<times> sliver_data list, encoding_error) result" where
  "extend_row_buffered L enc row_length = (\<lambda>(buffer, secondary) (r, row).
     let buffer' = pad_row row_length buffer row;
         data = (if length row < row_length then buffer' else row)
     in and_then (extend_row L enc 0 secondary (r, data)) (\<lambda>secondary'. Inr (buffer', secondary')))"

definition hash_systematic_column ::
  "(bytes \<Rightarrow> bytes) \<Rightarrow> rs_lib \<Rightarrow> nat \<Rightarrow> rs_encoder \<times> node list \<times> symbols \<Rightarrow> nat \<times> bytes list \<Rightarrow>
   (rs_encoder \<times> node list \<times> symbols, encoding_error) result" where
  "hash_systematic_column H L n = (\<lambda>(enc, hs, buffer) (col, column).
     and_then (fill_symbols column (buffer\<lparr> sym_data := replicate (length (sym_data buffer)) 0 \<rparr>)) (\<lambda>buffer'.
     case encode_all_ref L enc (sym_data buffer') of (r, enc') \<Rightarrow>
     and_then (or_panic r) (\<lambda>x.
     and_then (hash_column H n col hs x) (\<lambda>hs'. Inr (enc', hs', buffer')))))"

definition hash_extended_column ::
  "(bytes \<Rightarrow> bytes) \<Rightarrow> rs_lib \<Rightarrow> nat \<Rightarrow> nat \<Rightarrow> rs_encoder \<times> node list \<Rightarrow> nat \<times> sliver_data \<Rightarrow>
   (rs_encoder \<times> node list, encoding_error) result" where
  "hash_extended_column H L n skip = (\<lambda>(enc, hs) (col, column).
     case encode_all_ref L enc (sym_data (sl_symbols column)) of (r, enc') \<Rightarrow>
     and_then (or_panic r) (\<lambda>x.
     and_then (hash_column H n (col + skip) hs x) (\<lambda>hs'. Inr (enc', hs'))))"

definition compute_metadata_with_symbol_hashes ::
  "(bytes \<Rightarrow> bytes) \<Rightarrow> rs_lib \<Rightarrow> blob_encoder \<Rightarrow> (blob_metadata_with_id \<times> node list, encoding_error) result" where
  "compute_metadata_with_symbol_hashes H L be =
     (let n = rs_n_shards (be_config be); sz = be_symbol_size be in
      and_then (be_get_encoder L be Secondary) (\<lambda>secondary_encoder.
      and_then (try_fold (extend_row_buffered L secondary_encoder (sz * be_n_columns be))
        (sym_data (symbols_zeros (be_n_columns be) sz), replicate (n - be_n_columns be) (empty_sliver be Secondary 0))
        (enumerate 0 (rows_all be))) (\<lambda>(_, non_systematic).
      and_then (be_get_encoder L be Primary) (\<lambda>primary_encoder.
      and_then (try_fold (hash_systematic_column H L n)
        (primary_encoder, replicate (n * n) Empty, symbols_zeros (be_n_rows be) sz)
        (enumerate 0 (column_symbols_of be))) (\<lambda>(primary_encoder, symbol_hashes, _).
      and_then (try_fold (hash_extended_column H L n (be_n_columns be)) (primary_encoder, symbol_hashes)
        (enumerate 0 non_systematic)) (\<lambda>(_, symbol_hashes).
      and_then (compute_metadata_from_symbol_hashes H (be_config be) symbol_hashes (length (be_blob be))) (\<lambda>md.
      Inr (md, symbol_hashes))))))))"

definition be_compute_metadata ::
  "(bytes \<Rightarrow> bytes) \<Rightarrow> rs_lib \<Rightarrow> blob_encoder \<Rightarrow> (blob_metadata_with_id, encoding_error) result" where
  "be_compute_metadata H L be = and_then (compute_metadata_with_symbol_hashes H L be) (\<lambda>(md, _). Inr md)"

section \<open>The expanded matrix\<close>

definition fill_systematic_with_rows :: "nat \<Rightarrow> nat \<Rightarrow> bytes \<Rightarrow> symbols list \<Rightarrow> (symbols list, encoding_error) result" where
  "fill_systematic_with_rows n_columns sz blob matrix =
     try_update_zip (\<lambda>row dest. or_panic (write_prefix dest row)) (chunks (n_columns * sz) blob) matrix"

definition expand_row ::
  "rs_lib \<Rightarrow> rs_config \<Rightarrow> nat \<Rightarrow> symbols \<Rightarrow> (symbols, encoding_error) result" where
  "expand_row L c n_columns row =
     and_then (or_panic (symbols_slice row 0 n_columns)) (\<lambda>data.
     and_then (or_panic (config_encode_all_repair_symbols L c Secondary data)) (\<lambda>x.
     try_fold (\<lambda>row (i, symbol). or_panic (symbols_set row (n_columns + i) symbol)) row (enumerate 0 (to_symbols x))))"

definition expand_rows_for_secondary ::
  "rs_lib \<Rightarrow> rs_config \<Rightarrow> nat \<Rightarrow> nat \<Rightarrow> symbols list \<Rightarrow> (symbols list, encoding_error) result" where
  "expand_rows_for_secondary L c n_rows n_columns matrix =
     and_then (try_map (expand_row L c n_columns) (take n_rows matrix)) (\<lambda>rows. Inr (rows @ drop n_rows matrix))"

definition set_cell :: "nat \<Rightarrow> nat \<Rightarrow> symbols list \<Rightarrow> nat \<times> bytes \<Rightarrow> (symbols list, encoding_error) result" where
  "set_cell n_rows col matrix = (\<lambda>(i, symbol).
     if n_rows + i < length matrix then
       and_then (or_panic (symbols_set (matrix ! (n_rows + i)) col symbol)) (\<lambda>row. Inr (matrix[n_rows + i := row]))
     else Inl Panic)"

text \<open>The result of \<^verbatim>\<open>column.extend\<close> is ignored: on a wrong size the column stays as it is.\<close>

definition collect_column :: "nat \<Rightarrow> symbols \<Rightarrow> symbols \<Rightarrow> (symbols, encoding_error) result" where
  "collect_column col column row =
     and_then (or_panic (symbols_at row col)) (\<lambda>b.
     Inr (case symbols_extend column b of Inl _ \<Rightarrow> column | Inr column' \<Rightarrow> column'))"

definition expand_column ::
  "rs_lib \<Rightarrow> rs_config \<Rightarrow> nat \<Rightarrow> nat \<Rightarrow> symbols list \<Rightarrow> nat \<Rightarrow> (symbols list, encoding_error) result" where
  "expand_column L c n_rows sz matrix col =
     and_then (try_fold (collect_column col) (symbols_with_capacity n_rows sz) (take n_rows matrix)) (\<lambda>column.
     and_then (or_panic (config_encode_all_repair_symbols L c Primary (sym_data column))) (\<lambda>x.
     try_fold (set_cell n_rows col) matrix (enumerate 0 (to_symbols x))))"

definition get_expanded_matrix :: "rs_lib \<Rightarrow> blob_encoder \<Rightarrow> (symbols list, encoding_error) result" where
  "get_expanded_matrix L be =
     (let c = be_config be; n = rs_n_shards c; sz = be_symbol_size be;
          n_rows = n_source_symbols c Primary; n_columns = n_source_symbols c Secondary in
      and_then (fill_systematic_with_rows n_columns sz (be_blob be) (replicate n (symbols_zeros n sz))) (\<lambda>m.
      and_then (expand_rows_for_secondary L c n_rows n_columns m) (\<lambda>m.
      try_fold (expand_column L c n_rows sz) m [0..<n])))"

definition get_metadata ::
  "(bytes \<Rightarrow> bytes) \<Rightarrow> blob_encoder \<Rightarrow> symbols list \<Rightarrow> (blob_metadata_with_id, encoding_error) result" where
  "get_metadata H be matrix =
     (let n = rs_n_shards (be_config be) in
      and_then (try_map (\<lambda>(row, col).
        if row < length matrix then
          and_then (or_panic (symbols_at (matrix ! row) col)) (\<lambda>b. Inr (leaf_hash H b))
        else Inl Panic) (List.product [0..<n] [0..<n])) (\<lambda>symbol_hashes.
      compute_metadata_from_symbol_hashes H (be_config be) symbol_hashes (length (be_blob be))))"

definition drop_recovery_symbols :: "blob_encoder \<Rightarrow> symbols list \<Rightarrow> symbols list" where
  "drop_recovery_symbols be matrix =
     take (be_n_rows be) matrix @ map (\<lambda>row. symbols_truncate row (be_n_columns be)) (drop (be_n_rows be) matrix)"

text \<open>
  The symbols of secondary sliver \<open>i\<close> are copied from the matrix column \<open>n_shards - 1 - i\<close>; only as
  many rows are read as the sliver has symbols.
\<close>

definition write_secondary_sliver ::
  "rs_config \<Rightarrow> symbols list \<Rightarrow> nat \<times> symbols list \<Rightarrow> sliver_pair \<Rightarrow> (sliver_pair, encoding_error) result" where
  "write_secondary_sliver c matrix = (\<lambda>(col, _) p.
     and_then (try_update_zip (\<lambda>row dest.
         and_then (ok_or Panic (to_sliver_index Secondary col (rs_n_shards c))) (\<lambda>j.
         and_then (or_panic (symbols_at row j)) (\<lambda>b.
         and_then (ensure (length b = length dest) Panic) (\<lambda>_. Inr b))))
       matrix (to_symbols (sl_symbols (pair_secondary p)))) (\<lambda>ys.
     Inr (p\<lparr> pair_secondary := (pair_secondary p)\<lparr> sl_symbols :=
       (sl_symbols (pair_secondary p))\<lparr> sym_data := concat ys \<rparr> \<rparr> \<rparr>)))"

definition write_secondary_slivers ::
  "rs_config \<Rightarrow> symbols list \<Rightarrow> sliver_pair list \<Rightarrow> (sliver_pair list, encoding_error) result" where
  "write_secondary_slivers c matrix pairs =
     try_update_zip (write_secondary_sliver c matrix) (map (\<lambda>col. (col, matrix)) [0..<length matrix]) pairs"

definition write_primary_slivers ::
  "rs_config \<Rightarrow> symbols list \<Rightarrow> sliver_pair list \<Rightarrow> (sliver_pair list, encoding_error) result" where
  "write_primary_slivers c matrix pairs =
     try_update_zip (\<lambda>row p. Inr (p\<lparr> pair_primary := (pair_primary p)\<lparr> sl_symbols :=
       symbols_truncate row (n_source_symbols c Secondary) \<rparr> \<rparr>)) matrix pairs"

definition empty_sliver_pairs :: "blob_encoder \<Rightarrow> (sliver_pair list, encoding_error) result" where
  "empty_sliver_pairs be =
     try_map (\<lambda>i. or_panic (sliver_pair_new_empty (be_config be) (be_symbol_size be) i)) [0..<rs_n_shards (be_config be)]"

definition encode_with_metadata_legacy ::
  "(bytes \<Rightarrow> bytes) \<Rightarrow> rs_lib \<Rightarrow> blob_encoder \<Rightarrow> (sliver_pair list \<times> blob_metadata_with_id, encoding_error) result" where
  "encode_with_metadata_legacy H L be =
     and_then (get_expanded_matrix L be) (\<lambda>matrix.
     and_then (get_metadata H be matrix) (\<lambda>md.
     let matrix = drop_recovery_symbols be matrix in
     and_then (empty_sliver_pairs be) (\<lambda>pairs.
     and_then (write_secondary_slivers (be_config be) matrix pairs) (\<lambda>pairs.
     and_then (write_primary_slivers (be_config be) matrix pairs) (\<lambda>pairs.
     Inr (pairs, md))))))"

section \<open>Loops in closed form\<close>

lemma or_panic_simps [simp]: "or_panic (Inr x) = Inr x" "or_panic (Inl e) = Inl Panic"
  by (simp_all add: or_panic_def)

lemma try_update_zip_all:
  assumes "length zs = length ys" and "length xs \<le> length ys"
    and "\<And>i. i < length xs \<Longrightarrow> f (xs ! i) (ys ! i) = Inr (zs ! i)"
    and "\<And>i. length xs \<le> i \<Longrightarrow> i < length ys \<Longrightarrow> zs ! i = ys ! i"
  shows "try_update_zip f xs ys = Inr zs"
  using assms
proof (induction f xs ys arbitrary: zs rule: try_update_zip.induct)
  case (1 f x xs y ys)
  then obtain z zs' where zs: "zs = z # zs'" by (cases zs) auto
  have "f x y = Inr z" using "1.prems"(3) [of 0] zs by simp
  moreover have "try_update_zip f xs ys = Inr zs'"
  proof (rule "1.IH")
    show "f (xs ! i) (ys ! i) = Inr (zs' ! i)" if "i < length xs" for i using "1.prems"(3) [of "Suc i"] that zs by simp
    show "zs' ! i = ys ! i" if "length xs \<le> i" "i < length ys" for i using "1.prems"(4) [of "Suc i"] that zs by simp
  qed (use "1.prems" zs \<open>f x y = Inr z\<close> in auto)
  ultimately show ?case by (simp add: zs)
qed (auto intro: nth_equalityI)

lemma try_update_zip_eq:
  assumes "length xs = length ys" and "length zs = length ys" and "\<And>i. i < length ys \<Longrightarrow> f (xs ! i) (ys ! i) = Inr (zs ! i)"
  shows "try_update_zip f xs ys = Inr zs"
  by (rule try_update_zip_all) (use assms in auto)

declare try_fold_append [simp]

text \<open>A loop over the elements with their positions, with an invariant of the state.\<close>

lemma try_fold_enumerate:
  assumes "I 0 s" and "\<And>i s. i < length xs \<Longrightarrow> I i s \<Longrightarrow> \<exists>s'. f s (i, xs ! i) = Inr s' \<and> I (Suc i) s'"
  shows "\<exists>s'. try_fold f s (enumerate 0 xs) = Inr s' \<and> I (length xs) s'"
  using assms
proof (induction xs rule: rev_induct)
  case (snoc x xs)
  have "\<exists>s'. try_fold f s (enumerate 0 xs) = Inr s' \<and> I (length xs) s'"
    using snoc.prems by (intro snoc.IH) (metis less_SucI length_append_singleton nth_append)+
  then obtain s' where "try_fold f s (enumerate 0 xs) = Inr s'" "I (length xs) s'" by blast
  moreover obtain s'' where "f s' (length xs, x) = Inr s''" "I (Suc (length xs)) s''"
    using snoc.prems(2) [of "length xs" s'] calculation(2) by (auto simp: nth_append)
  ultimately show ?case by (simp add: enumerate_append_eq)
qed simp

lemma try_fold_upt:
  assumes "I 0 s" and "\<And>i s. i < n \<Longrightarrow> I i s \<Longrightarrow> \<exists>s'. f s i = Inr s' \<and> I (Suc i) s'"
  shows "\<exists>s'. try_fold f s [0..<n] = Inr s' \<and> I n s'"
  using assms
proof (induction n)
  case (Suc n)
  then obtain s' where "try_fold f s [0..<n] = Inr s'" "I n s'" by auto
  moreover obtain s'' where "f s' n = Inr s''" "I (Suc n) s''" using Suc.prems(2) [of n s'] calculation(2) by auto
  ultimately show ?case by simp
qed simp

text \<open>Writing position \<open>m\<close> advances a list that is filled up to \<open>m\<close>.\<close>

lemma fill_next:
  "m < n \<Longrightarrow> f m = v \<Longrightarrow>
   (map (\<lambda>r. if r < m then f r else g r) [0..<n])[m := v] = map (\<lambda>r. if r < Suc m then f r else g r) [0..<n]"
  by (rule nth_equalityI) (auto simp: nth_list_update less_Suc_eq)

section \<open>The padded message matrix\<close>

definition padded :: "blob_encoder \<Rightarrow> bytes" where
  "padded be = be_blob be @ replicate (be_n_rows be * be_n_columns be * be_symbol_size be - length (be_blob be)) 0"

definition msg :: "blob_encoder \<Rightarrow> nat \<Rightarrow> nat \<Rightarrow> bytes" where
  "msg be r c = take (be_symbol_size be) (drop ((be_n_columns be * r + c) * be_symbol_size be) (padded be))"

definition be_ok :: "rs_lib \<Rightarrow> blob_encoder \<Rightarrow> bool" where
  "be_ok L be \<longleftrightarrow>
     be_n_rows be = n_source_symbols (be_config be) Primary \<and>
     be_n_columns be = n_source_symbols (be_config be) Secondary \<and>
     rs_encodable L (be_n_rows be) (rs_n_shards (be_config be)) (be_symbol_size be) \<and>
     rs_encodable L (be_n_columns be) (rs_n_shards (be_config be)) (be_symbol_size be) \<and>
     length (be_blob be) \<le> be_n_rows be * be_n_columns be * be_symbol_size be"

lemma length_padded: "be_ok L be \<Longrightarrow> length (padded be) = be_n_rows be * be_n_columns be * be_symbol_size be"
  by (auto simp: padded_def be_ok_def)

lemma cell_bound:
  assumes "r < nr" and "c < nc" shows "(nc * r + c) * s + s \<le> nr * nc * (s :: nat)"
proof -
  have "nc * r + c + 1 \<le> nc * r + nc" using assms(2) by simp
  also have "\<dots> = nc * Suc r" by simp
  also have "\<dots> \<le> nc * nr" using assms(1) by (intro mult_le_mono2) simp
  finally have "(nc * r + c + 1) * s \<le> nc * nr * s" by (rule mult_le_mono1)
  then show ?thesis by (simp add: algebra_simps)
qed

lemma length_msg: "be_ok L be \<Longrightarrow> r < be_n_rows be \<Longrightarrow> c < be_n_columns be \<Longrightarrow> length (msg be r c) = be_symbol_size be"
  using cell_bound [of r "be_n_rows be" c "be_n_columns be" "be_symbol_size be"] by (simp add: msg_def length_padded)

text \<open>A slice of the blob, filled up with zeros, is a slice of the padded blob.\<close>

lemma pad_slice:
  assumes "o1 + k \<le> length xs + N"
  shows "take k (drop o1 xs) @ drop (length (take k (drop o1 xs))) (replicate k 0) =
    take k (drop o1 (xs @ replicate N (0 :: byte)))"
proof -
  have "k - min (length xs - o1) k = min (k - (length xs - o1)) (N - (o1 - length xs))" using assms by auto
  then show ?thesis by (simp only: take_append drop_append drop_replicate take_replicate length_take length_drop)
qed

lemma min_slice: "take (min (min a (length xs) + k) (length xs) - min a (length xs)) (drop (min a (length xs)) xs) = take k (drop a xs)"
  by (cases "a \<le> length xs") (auto simp: min_def)

lemma symbol_at_eq: "symbol_at be r c = take (be_symbol_size be) (drop ((be_n_columns be * r + c) * be_symbol_size be) (be_blob be))"
  unfolding symbol_at_def Let_def by (simp add: min_slice mult.commute)

lemma symbol_at_padded:
  assumes "be_ok L be" and "r < be_n_rows be" and "c < be_n_columns be"
  shows "symbol_at be r c @ drop (length (symbol_at be r c)) (replicate (be_symbol_size be) 0) = msg be r c"
    and "length (symbol_at be r c) \<le> be_symbol_size be"
  using pad_slice [of "(be_n_columns be * r + c) * be_symbol_size be" "be_symbol_size be" "be_blob be"
      "be_n_rows be * be_n_columns be * be_symbol_size be - length (be_blob be)"] assms
    cell_bound [OF assms(2,3), of "be_symbol_size be"]
  by (simp_all add: symbol_at_eq msg_def padded_def be_ok_def)

lemma concat_slices: "concat (map (\<lambda>c. take s (drop (a + c * s) xs)) [0..<k]) = take (k * s) (drop a xs)"
proof (induction k)
  case (Suc k)
  have "take (k * s) (drop a xs) @ take s (drop (a + k * s) xs) = take (k * s + s) (drop a xs)"
    unfolding take_add drop_drop by (simp only: add.commute)
  with Suc show ?case by (simp add: add.commute [of s])
qed simp

lemma msg_row_concat:
  "concat (map (msg be r) [0..<be_n_columns be]) =
    take (be_n_columns be * be_symbol_size be) (drop (r * (be_n_columns be * be_symbol_size be)) (padded be))"
  using concat_slices [of "be_symbol_size be" "r * (be_n_columns be * be_symbol_size be)" "padded be" "be_n_columns be"]
  by (simp add: msg_def [abs_def] algebra_simps)

lemma sized_msg_row: "be_ok L be \<Longrightarrow> r < be_n_rows be \<Longrightarrow> sized (be_symbol_size be) (map (msg be r) [0..<be_n_columns be])"
  by (simp add: sized_map length_msg)

section \<open>The expanded matrix as a specification\<close>

text \<open>Rows extended with the secondary code, then columns extended with the primary code.\<close>

definition row_code :: "rs_lib \<Rightarrow> blob_encoder \<Rightarrow> nat \<Rightarrow> bytes list" where
  "row_code L be r = codeword L (rs_n_shards (be_config be)) (be_symbol_size be) (map (msg be r) [0..<be_n_columns be])"

definition col_code :: "rs_lib \<Rightarrow> blob_encoder \<Rightarrow> nat \<Rightarrow> bytes list" where
  "col_code L be c =
     codeword L (rs_n_shards (be_config be)) (be_symbol_size be) (map (\<lambda>r. row_code L be r ! c) [0..<be_n_rows be])"

definition cell :: "rs_lib \<Rightarrow> blob_encoder \<Rightarrow> nat \<Rightarrow> nat \<Rightarrow> bytes" where
  "cell L be r c = col_code L be c ! r"

definition primary_sliver :: "rs_lib \<Rightarrow> blob_encoder \<Rightarrow> nat \<Rightarrow> sliver_data" where
  "primary_sliver L be i =
     \<lparr> sl_symbols = mk_symbols (be_symbol_size be) (map (cell L be i) [0..<be_n_columns be]), sl_index = i \<rparr>"

definition secondary_sliver :: "rs_lib \<Rightarrow> blob_encoder \<Rightarrow> nat \<Rightarrow> sliver_data" where
  "secondary_sliver L be j =
     \<lparr> sl_symbols = mk_symbols (be_symbol_size be) (map (\<lambda>r. cell L be r j) [0..<be_n_rows be]), sl_index = j \<rparr>"

abbreviation n_of :: "blob_encoder \<Rightarrow> nat" where "n_of be \<equiv> rs_n_shards (be_config be)"

lemma be_okD:
  assumes "be_ok L be"
  shows "be_n_rows be \<le> n_of be" "be_n_columns be \<le> n_of be" "0 < be_symbol_size be" "0 < be_n_rows be"
    "0 < be_n_columns be" "0 < n_of be"
    "rs_encodable L (be_n_rows be) (n_of be) (be_symbol_size be)"
    "rs_encodable L (be_n_columns be) (n_of be) (be_symbol_size be)"
    "n_source_symbols (be_config be) Primary = be_n_rows be"
    "n_source_symbols (be_config be) Secondary = be_n_columns be"
  using assms by (auto simp: be_ok_def rs_encodable_def)

text \<open>No vector of a blob encoder reaches the limits of \<^verbatim>\<open>usize\<close>.\<close>

lemma be_usize:
  assumes "be_ok L be"
  shows "be_n_rows be * be_symbol_size be < 2 ^ 64" "be_n_columns be * be_symbol_size be < 2 ^ 64" "n_of be * be_symbol_size be < 2 ^ 64"
    "be_n_rows be * be_n_columns be * be_symbol_size be < 2 ^ 64"
proof -
  note u = rs_encodable_usize [OF be_okD(7) [OF assms]] rs_encodable_usize [OF be_okD(8) [OF assms]]
  then show "be_n_rows be * be_symbol_size be < 2 ^ 64" "be_n_columns be * be_symbol_size be < 2 ^ 64" "n_of be * be_symbol_size be < 2 ^ 64" by simp_all
  have "n_of be < 65536" "be_symbol_size be < 65536" using be_okD(7) [OF assms] by (simp_all add: rs_encodable_def)
  then show "be_n_rows be * be_n_columns be * be_symbol_size be < 2 ^ 64" using be_okD(1,2) [OF assms] by (intro u16_products) simp_all
qed

lemma be_ok_blob: "be_ok L be \<Longrightarrow> length (be_blob be) \<le> be_n_rows be * be_n_columns be * be_symbol_size be"
  unfolding be_ok_def by (elim conjE)

lemma row_code_props:
  assumes "be_ok L be" and "r < be_n_rows be"
  shows "length (row_code L be r) = n_of be" and "sized (be_symbol_size be) (row_code L be r)"
    and "c < be_n_columns be \<Longrightarrow> row_code L be r ! c = msg be r c"
    and "drop (be_n_columns be) (row_code L be r) =
      parity L (n_of be) (be_symbol_size be) (map (msg be r) [0..<be_n_columns be])"
  using codeword_props [OF be_okD(8) [OF assms(1)], of "map (msg be r) [0..<be_n_columns be]"]
    sized_msg_row [OF assms]
  by (simp_all add: row_code_def codeword_def nth_append)

lemma row_code_at:
  "be_ok L be \<Longrightarrow> r < be_n_rows be \<Longrightarrow> c < n_of be \<Longrightarrow> length (row_code L be r ! c) = be_symbol_size be"
  using row_code_props [of L be r] sized_nth by metis

lemma col_code_props:
  assumes "be_ok L be" and "c < n_of be"
  shows "length (col_code L be c) = n_of be" and "sized (be_symbol_size be) (col_code L be c)"
    and "r < be_n_rows be \<Longrightarrow> col_code L be c ! r = row_code L be r ! c"
proof -
  have "sized (be_symbol_size be) (map (\<lambda>r. row_code L be r ! c) [0..<be_n_rows be])"
    using assms by (simp add: sized_map row_code_at)
  then show "length (col_code L be c) = n_of be" and "sized (be_symbol_size be) (col_code L be c)"
    using codeword_props [OF be_okD(7) [OF assms(1)], of "map (\<lambda>r. row_code L be r ! c) [0..<be_n_rows be]"]
    by (simp_all add: col_code_def)
  show "r < be_n_rows be \<Longrightarrow> col_code L be c ! r = row_code L be r ! c"
    by (simp add: col_code_def codeword_nth)
qed

lemma cell_row: "be_ok L be \<Longrightarrow> r < be_n_rows be \<Longrightarrow> c < n_of be \<Longrightarrow> cell L be r c = row_code L be r ! c"
  by (simp add: cell_def col_code_props)

lemma cell_msg: "be_ok L be \<Longrightarrow> r < be_n_rows be \<Longrightarrow> c < be_n_columns be \<Longrightarrow> cell L be r c = msg be r c"
  using be_okD(2) [of L be] by (simp add: cell_row row_code_props)

lemma length_cell [simp]: "be_ok L be \<Longrightarrow> r < n_of be \<Longrightarrow> c < n_of be \<Longrightarrow> length (cell L be r c) = be_symbol_size be"
  using col_code_props [of L be c] sized_nth unfolding cell_def by metis

lemma map_cell_col: "be_ok L be \<Longrightarrow> c < n_of be \<Longrightarrow> map (\<lambda>r. cell L be r c) [0..<n_of be] = col_code L be c"
  using col_code_props [of L be c] by (intro nth_equalityI) (simp_all add: cell_def)

lemma col_code_cells:
  assumes "be_ok L be" and "c < n_of be"
  shows "col_code L be c = codeword L (n_of be) (be_symbol_size be) (map (\<lambda>r. cell L be r c) [0..<be_n_rows be])"
proof -
  have eq: "map (\<lambda>r. cell L be r c) [0..<be_n_rows be] = map (\<lambda>r. row_code L be r ! c) [0..<be_n_rows be]"
    using assms by (intro map_cong) (simp_all add: cell_row)
  show ?thesis by (simp only: col_code_def eq)
qed

section \<open>The systematic slivers\<close>

lemma length_chunks_le: "length xs \<le> m * k \<Longrightarrow> length (chunks k xs) \<le> m"
proof (induction k xs arbitrary: m rule: chunks.induct)
  case (1 k xs)
  show ?case
  proof (cases "xs = [] \<or> k = 0")
    case True
    then show ?thesis by (simp add: chunks.simps [of k xs])
  next
    case False
    then obtain m' where m: "m = Suc m'" using "1.prems" by (cases m) auto
    have "length (drop k xs) \<le> m' * k" using "1.prems" m by simp
    from "1.IH" [OF False this] False m show ?thesis by (simp add: chunks.simps [of k xs])
  qed
qed

lemma nth_chunks: "i < length (chunks k xs) \<Longrightarrow> chunks k xs ! i = take k (drop (i * k) xs)"
proof (induction k xs arbitrary: i rule: chunks.induct)
  case (1 k xs)
  show ?case
  proof (cases "xs = [] \<or> k = 0")
    case True
    with "1.prems" show ?thesis by (simp add: chunks.simps [of k xs])
  next
    case False
    with 1 show ?thesis by (cases i) (simp_all add: chunks.simps [of k xs] add.commute)
  qed
qed

lemma length_chunks_ge: "0 < k \<Longrightarrow> length xs \<le> length (chunks k xs) * k"
proof (induction k xs rule: chunks.induct)
  case (1 k xs)
  show ?case
  proof (cases "xs = []")
    case False
    then have "length (drop k xs) \<le> length (chunks k (drop k xs)) * k" using 1 by auto
    then show ?thesis using False 1 by (simp add: chunks.simps [of k xs])
  qed simp
qed

lemma padded_row:
  assumes "be_ok L be" and "r < be_n_rows be"
  defines "w \<equiv> be_n_columns be * be_symbol_size be"
  shows "take w (drop (r * w) (be_blob be)) @ drop (length (take w (drop (r * w) (be_blob be)))) (replicate w 0) =
    concat (map (msg be r) [0..<be_n_columns be])"
proof -
  have "r * w + w \<le> be_n_rows be * w" using assms(2) by (metis Suc_leI add.commute mult_Suc mult_le_mono1)
  then have "r * w + w \<le> length (be_blob be) + (be_n_rows be * be_n_columns be * be_symbol_size be - length (be_blob be))"
    by (simp add: w_def mult.assoc)
  from pad_slice [OF this] show ?thesis
    unfolding msg_row_concat w_def [symmetric] by (simp only: padded_def)
qed

lemma primary_sliver_row:
  "be_ok L be \<Longrightarrow> r < be_n_rows be \<Longrightarrow> primary_sliver L be r =
    \<lparr> sl_symbols = mk_symbols (be_symbol_size be) (map (msg be r) [0..<be_n_columns be]), sl_index = r \<rparr>"
proof -
  assume a: "be_ok L be" "r < be_n_rows be"
  then have eq: "map (cell L be r) [0..<be_n_columns be] = map (msg be r) [0..<be_n_columns be]"
    by (intro map_cong) (simp_all add: cell_msg)
  show ?thesis by (simp only: primary_sliver_def eq)
qed

lemma empty_sliver_mk:
  "be_ok L be \<Longrightarrow> empty_sliver be e i = \<lparr> sl_symbols = mk_symbols (be_symbol_size be)
     (replicate (n_source_symbols (be_config be) (orthogonal e)) (replicate (be_symbol_size be) 0)), sl_index = i \<rparr>"
  using be_usize [of L be] be_okD(9,10) [of L be] by (cases e) (simp_all add: empty_sliver_def sliver_new_empty_def symbols_zeros_mk)

lemma length_rows: "be_ok L be \<Longrightarrow> length (rows be) \<le> be_n_rows be"
  using be_ok_blob [of L be] length_chunks_le [of "be_blob be" "be_n_rows be" "be_n_columns be * be_symbol_size be"]
  by (simp add: rows_def mult.assoc)

lemma empty_primary:
  "be_ok L be \<Longrightarrow> empty_sliver be Primary i = \<lparr> sl_symbols = symbols_zeros (be_n_columns be) (be_symbol_size be), sl_index = i \<rparr>"
  using be_okD(10) [of L be] by (simp add: empty_sliver_def sliver_new_empty_def)

lemma fill_row_ok:
  assumes ok: "be_ok L be" and i: "i < length (rows be)"
  shows "fill_row (rows be ! i) (empty_sliver be Primary i) = Inr (primary_sliver L be i)"
proof -
  let ?w = "be_n_columns be * be_symbol_size be"
  have nr: "i < be_n_rows be" using i length_rows [OF ok] by simp
  have row: "rows be ! i = take ?w (drop (i * ?w) (be_blob be))" using i nth_chunks by (simp add: rows_def)
  show ?thesis using padded_row [OF ok nr] be_usize(2) [OF ok]
    by (simp add: fill_row_def empty_primary [OF ok] row write_prefix_def symbols_zeros_def primary_sliver_row [OF ok nr] mk_symbols_def)
qed

lemma empty_row_ok:
  assumes ok: "be_ok L be" and i: "length (rows be) \<le> i" "i < be_n_rows be"
  shows "empty_sliver be Primary i = primary_sliver L be i"
proof -
  let ?w = "be_n_columns be * be_symbol_size be"
  have w: "0 < ?w" using be_okD [OF ok] by simp
  have "length (be_blob be) \<le> length (rows be) * ?w" using length_chunks_ge [OF w] by (simp add: rows_def)
  also have "\<dots> \<le> i * ?w" using i by simp
  finally have "concat (map (msg be i) [0..<be_n_columns be]) = replicate ?w 0" using padded_row [OF ok i(2)] by simp
  then show ?thesis using be_usize(2) [OF ok] by (simp add: empty_primary [OF ok] symbols_zeros_def primary_sliver_row [OF ok i(2)] mk_symbols_def)
qed

lemma systematic_primary:
  assumes ok: "be_ok L be"
  shows "try_update_zip fill_row (rows be) (map (empty_sliver be Primary) [0..<be_n_rows be]) =
    Inr (map (primary_sliver L be) [0..<be_n_rows be])"
  by (rule try_update_zip_all) (use length_rows [OF ok] fill_row_ok [OF ok] empty_row_ok [OF ok] in simp_all)

text \<open>Secondary slivers with the extended columns filled up to row \<open>m\<close>.\<close>

definition partial_secondary :: "rs_lib \<Rightarrow> blob_encoder \<Rightarrow> nat \<Rightarrow> nat \<Rightarrow> sliver_data" where
  "partial_secondary L be m c = \<lparr> sl_symbols = mk_symbols (be_symbol_size be)
     (map (\<lambda>r. if r < m then cell L be r c else replicate (be_symbol_size be) 0) [0..<be_n_rows be]), sl_index = c \<rparr>"

lemma partial_secondary_all: "partial_secondary L be (be_n_rows be) c = secondary_sliver L be c"
proof -
  have eq: "map (\<lambda>r. if r < be_n_rows be then cell L be r c else replicate (be_symbol_size be) 0) [0..<be_n_rows be] =
      map (\<lambda>r. cell L be r c) [0..<be_n_rows be]" by simp
  show ?thesis by (simp only: partial_secondary_def secondary_sliver_def eq)
qed

lemma partial_secondary_0: "be_ok L be \<Longrightarrow> partial_secondary L be 0 c = empty_sliver be Secondary c"
  using be_okD(9) [of L be] by (simp add: partial_secondary_def empty_sliver_mk map_replicate_const)

lemma fill_symbols_column:
  assumes "be_ok L be" and "c < be_n_columns be"
  shows "fill_symbols (map (\<lambda>row. symbol_at be row c) [0..<be_n_rows be]) (symbols_zeros (be_n_rows be) (be_symbol_size be)) =
    Inr (mk_symbols (be_symbol_size be) (map (\<lambda>r. cell L be r c) [0..<be_n_rows be]))"
proof -
  let ?s = "be_symbol_size be"
  have "try_update_zip write_symbol_prefix (map (\<lambda>row. symbol_at be row c) [0..<be_n_rows be])
      (replicate (be_n_rows be) (replicate ?s 0)) = Inr (map (\<lambda>r. cell L be r c) [0..<be_n_rows be])"
    using assms symbol_at_padded [OF assms(1) _ assms(2)]
    by (intro try_update_zip_eq) (simp_all add: write_symbol_prefix_def cell_msg)
  moreover have "to_symbols (symbols_zeros (be_n_rows be) ?s) = replicate (be_n_rows be) (replicate ?s 0)"
    using be_okD(3) [OF assms(1)] be_usize(1) [OF assms(1)] by (simp add: symbols_zeros_mk)
  ultimately show ?thesis by (simp add: fill_symbols_def mk_symbols_def symbols_zeros_def)
qed

lemma systematic_secondary:
  assumes "be_ok L be"
  shows "try_update_zip fill_column (column_symbols_of be) (empty_slivers be Secondary) =
    Inr (map (\<lambda>c. if c < be_n_columns be then secondary_sliver L be c else partial_secondary L be 0 c) [0..<n_of be])"
proof (rule try_update_zip_all)
  have emp: "empty_sliver be Secondary i = \<lparr> sl_symbols = symbols_zeros (be_n_rows be) (be_symbol_size be), sl_index = i \<rparr>" for i
    using be_okD(9) [OF assms] by (simp add: empty_sliver_def sliver_new_empty_def)
  fix i
  show "fill_column (column_symbols_of be ! i) (empty_slivers be Secondary ! i) =
      Inr (map (\<lambda>c. if c < be_n_columns be then secondary_sliver L be c else partial_secondary L be 0 c) [0..<n_of be] ! i)"
    if "i < length (column_symbols_of be)"
    using that be_okD(2) [OF assms] fill_symbols_column [OF assms, of i]
    by (simp add: column_symbols_of_def empty_slivers_def fill_column_def emp secondary_sliver_def)
qed (use be_okD(2) [OF assms] in \<open>auto simp: column_symbols_of_def empty_slivers_def partial_secondary_0 [OF assms]\<close>)

lemma copy_to_mk:
  "sized s xs \<Longrightarrow> i < length xs \<Longrightarrow> length v = s \<Longrightarrow> 0 < s \<Longrightarrow> length xs * s < 2 ^ 64 \<Longrightarrow>
   copy_to i v \<lparr> sl_symbols = mk_symbols s xs, sl_index = j \<rparr> = Inr \<lparr> sl_symbols = mk_symbols s (xs[i := v]), sl_index = j \<rparr>"
  by (simp add: copy_to_def copy_symbol_to_def ensure_def)

lemma copy_to_partial:
  assumes "be_ok L be" and "m < be_n_rows be" and "c < n_of be"
  shows "copy_to m (cell L be m c) (partial_secondary L be m c\<lparr> sl_index := j \<rparr>) =
    Inr (partial_secondary L be (Suc m) c\<lparr> sl_index := j \<rparr>)"
proof -
  let ?z = "replicate (be_symbol_size be) 0"
  have "sized (be_symbol_size be) (map (\<lambda>r. if r < m then cell L be r c else ?z) [0..<be_n_rows be])"
    using assms be_okD(1) [OF assms(1)] by (auto simp: sized_map)
  then show ?thesis using assms be_okD(1,3) [OF assms(1)] be_usize(1) [OF assms(1)] fill_next [of m "be_n_rows be" "\<lambda>r. cell L be r c"]
    by (simp add: partial_secondary_def copy_to_mk)
qed

text \<open>Extending row \<open>m\<close>: the recovery symbols go to position \<open>m\<close> of the extended columns.\<close>

lemma extend_row_step:
  assumes ok: "be_ok L be" and enc: "encoder_ok (be_n_columns be) (n_of be) (be_symbol_size be) enc"
    and m: "m < be_n_rows be" and pre: "length pre = k"
    and idx: "\<And>c. g c = (\<lambda>x. x\<lparr> sl_index := j c \<rparr>)"
  shows "extend_row L enc k (pre @ map (\<lambda>c. g c (partial_secondary L be m c)) [be_n_columns be..<n_of be])
      (m, concat (map (msg be m) [0..<be_n_columns be])) =
    Inr (pre @ map (\<lambda>c. g c (partial_secondary L be (Suc m) c)) [be_n_columns be..<n_of be])"
proof -
  let ?par = "drop (be_n_columns be) (row_code L be m)"
  have "encoder_encode L enc (concat (map (msg be m) [0..<be_n_columns be])) = Inr ?par"
    unfolding row_code_props(4) [OF ok m]
    by (rule encoder_encode_ok [OF be_okD(8) [OF ok] enc]) (simp_all add: sized_msg_row [OF ok m])
  moreover have "try_update_zip (copy_to m) ?par (map (\<lambda>c. g c (partial_secondary L be m c)) [be_n_columns be..<n_of be]) =
      Inr (map (\<lambda>c. g c (partial_secondary L be (Suc m) c)) [be_n_columns be..<n_of be])"
  proof (rule try_update_zip_eq)
    fix i assume "i < length (map (\<lambda>c. g c (partial_secondary L be m c)) [be_n_columns be..<n_of be])"
    then have i: "be_n_columns be + i < n_of be" by simp
    then have u: "[be_n_columns be..<n_of be] ! i = be_n_columns be + i" by (rule nth_upt)
    have e: "map (\<lambda>c. g c (partial_secondary L be q c)) [be_n_columns be..<n_of be] ! i =
        partial_secondary L be q (be_n_columns be + i)\<lparr> sl_index := j (be_n_columns be + i) \<rparr>" for q
    proof -
      have "i < length [be_n_columns be..<n_of be]" using i by simp
      from nth_map [OF this] show ?thesis unfolding u idx .
    qed
    from i have "?par ! i = cell L be m (be_n_columns be + i)"
      using row_code_props(1) [OF ok m] by (simp add: cell_row [OF ok m])
    then show "copy_to m (?par ! i) (map (\<lambda>c. g c (partial_secondary L be m c)) [be_n_columns be..<n_of be] ! i) =
        Inr (map (\<lambda>c. g c (partial_secondary L be (Suc m) c)) [be_n_columns be..<n_of be] ! i)"
      unfolding e using copy_to_partial [OF ok m i] by (simp only:)
  qed (use row_code_props(1) [OF ok m] in simp_all)
  ultimately show ?thesis using pre by (simp add: extend_row_def)
qed

lemma be_get_encoder_ok:
  assumes "be_ok L be"
  obtains e1 e2 where "be_get_encoder L be Secondary = Inr e1" "encoder_ok (be_n_columns be) (n_of be) (be_symbol_size be) e1"
    and "be_get_encoder L be Primary = Inr e2" "encoder_ok (be_n_rows be) (n_of be) (be_symbol_size be) e2"
proof -
  note d = be_okD [OF assms]
  have "orthogonal (orthogonal e) = e" for e by (cases e) simp_all
  then have "be_get_encoder L be e = or_panic (get_encoder L (be_config be) e (n_source_symbols (be_config be) e * be_symbol_size be))" for e
    by (simp add: be_get_encoder_def sliver_length_def)
  moreover obtain e1 where "get_encoder L (be_config be) Secondary (n_source_symbols (be_config be) Secondary * be_symbol_size be) = Inr e1"
    "encoder_ok (be_n_columns be) (n_of be) (be_symbol_size be) e1"
    using get_encoder_ok [of L "be_config be" Secondary "be_symbol_size be"] d by auto
  moreover obtain e2 where "get_encoder L (be_config be) Primary (n_source_symbols (be_config be) Primary * be_symbol_size be) = Inr e2"
    "encoder_ok (be_n_rows be) (n_of be) (be_symbol_size be) e2"
    using get_encoder_ok [of L "be_config be" Primary "be_symbol_size be"] d by auto
  ultimately show ?thesis using that by auto
qed

end
