(* ===== verification/Blob_Correct.thy ===== *)
theory Blob_Correct
  imports Blob_Encoding
begin

text \<open>
  The routines of \<open>Blob_Encoding\<close> against the expanded matrix: the loops of
  \<^verbatim>\<open>encode_with_metadata\<close> and of \<^verbatim>\<open>compute_metadata_with_symbol_hashes\<close> in closed form, and the
  equality of their results.
\<close>

section \<open>What encoding promises\<close>

definition expanded_hashes :: "(bytes \<Rightarrow> bytes) \<Rightarrow> rs_lib \<Rightarrow> blob_encoder \<Rightarrow> sliver_pair_metadata list" where
  "expanded_hashes H L be = map (\<lambda>i.
     \<lparr> primary_hash = root (build H (map (cell L be i) [0..<n_of be])),
       secondary_hash = root (build H (map (\<lambda>r. cell L be r (n_of be - 1 - i)) [0..<n_of be])) \<rparr>) [0..<n_of be]"

definition expanded_metadata :: "(bytes \<Rightarrow> bytes) \<Rightarrow> rs_lib \<Rightarrow> blob_encoder \<Rightarrow> blob_metadata_with_id" where
  "expanded_metadata H L be = new_verified_from_metadata H (expanded_hashes H L be) RS2 (length (be_blob be))"

definition encoded_pairs :: "rs_lib \<Rightarrow> blob_encoder \<Rightarrow> sliver_pair list" where
  "encoded_pairs L be = map (\<lambda>i. \<lparr> pair_primary = primary_sliver L be i,
     pair_secondary = secondary_sliver L be (n_of be - 1 - i) \<rparr>) [0..<n_of be]"

text \<open>The table of symbol hashes, filled up to column \<open>j\<close>, and in column \<open>j\<close> up to row \<open>i\<close>.\<close>

definition hash_table :: "(bytes \<Rightarrow> bytes) \<Rightarrow> rs_lib \<Rightarrow> blob_encoder \<Rightarrow> nat \<Rightarrow> nat \<Rightarrow> node list" where
  "hash_table H L be j i = map (\<lambda>p. if p mod n_of be < j \<or> p mod n_of be = j \<and> p div n_of be < i
     then leaf_hash H (cell L be (p div n_of be) (p mod n_of be)) else Empty) [0..<n_of be * n_of be]"

definition partial_primary :: "rs_lib \<Rightarrow> blob_encoder \<Rightarrow> nat \<Rightarrow> nat \<Rightarrow> sliver_data" where
  "partial_primary L be j i = \<lparr> sl_symbols = mk_symbols (be_symbol_size be)
     (map (\<lambda>c. if c < j then cell L be i c else replicate (be_symbol_size be) 0) [0..<be_n_columns be]), sl_index = i \<rparr>"

lemma nth_map_upt0: "i < n \<Longrightarrow> map f [0..<n] ! i = f i"
  by simp

lemma map_upt_split: "k \<le> n \<Longrightarrow> map f [0..<k] @ map f [k..<n] = map f [0..<n]"
  by (metis map_append upt_add_eq_append le_add_diff_inverse zero_le)

text \<open>
  The library supports the parameters of the configuration at every symbol size the program uses:
  for encoding alone, and for encoding and decoding.
\<close>

definition rs_enc_ready :: "rs_lib \<Rightarrow> rs_config \<Rightarrow> bool" where
  "rs_enc_ready L c \<longleftrightarrow> (\<forall>s e. 0 < s \<and> s < 65536 \<and> even s \<longrightarrow> rs_encodable L (n_source_symbols c e) (rs_n_shards c) s)"

definition rs_ready :: "rs_lib \<Rightarrow> rs_config \<Rightarrow> bool" where
  "rs_ready L c \<longleftrightarrow> (\<forall>s e. 0 < s \<and> s < 65536 \<and> even s \<longrightarrow> rs_supported L (n_source_symbols c e) (rs_n_shards c) s)"

lemma rs_ready_enc: "rs_ready L c \<Longrightarrow> rs_enc_ready L c"
  by (simp add: rs_ready_def rs_enc_ready_def rs_supported_encodable)

lemma n_source_cases [simp]:
  "n_source_symbols c Primary = source_symbols_primary c" "n_source_symbols c Secondary = source_symbols_secondary c"
  by (simp_all add: n_source_symbols_def is_primary_def)

lemma symbol_size_range:
  assumes k: "0 < k" and sz: "compute_symbol_size len k 2 = Inr sz"
  shows "0 < sz \<and> sz < 65536 \<and> even sz \<and> len \<le> k * sz"
proof -
  have szv: "sz = next_multiple_of (div_ceil (max len 1) k) 2"
    using sz unfolding compute_symbol_size_iff [OF k] by (auto simp: Let_def split: if_splits)
  have "sz < 65536" "sz \<noteq> 0" using sz by (auto simp: compute_symbol_size_def Let_def and_then_Inr_iff ok_or_Inr_iff checked_Some split: if_splits)
  moreover have "even sz" unfolding szv by (rule next_multiple_of_dvd) simp
  moreover have "div_ceil (max len 1) k \<le> sz" unfolding szv by (rule next_multiple_of_ge) simp
  then have "len \<le> k * sz" using div_ceil_le_iff [OF k] by (simp add: mult.commute)
  ultimately show ?thesis by simp
qed

lemma blob_encoder_new_ok:
  assumes ready: "rs_enc_ready L c" and new: "blob_encoder_new c blob = Inr be"
  shows "be_ok L be" and "be_config be = c" and "be_blob be = blob"
    and "symbol_size_for_blob c (length blob) = Inr (be_symbol_size be)"
proof -
  let ?k = "source_symbols_primary c * source_symbols_secondary c"
  have "rs_encodable L (n_source_symbols c e) (rs_n_shards c) 2" for e using ready by (simp add: rs_enc_ready_def)
  from this [of Primary] this [of Secondary] have k: "0 < ?k" by (simp add: rs_encodable_def)
  obtain sz where per: "source_symbols_per_blob (source_symbols_primary c) (source_symbols_secondary c) = Inr ?k"
    and sz: "compute_symbol_size (length blob) ?k 2 = Inr sz"
    and be: "be = \<lparr> be_blob = blob, be_symbol_size = sz, be_n_rows = source_symbols_primary c,
      be_n_columns = source_symbols_secondary c, be_config = c \<rparr>"
    using new by (auto simp: blob_encoder_new_def and_then_Inr_iff source_symbols_per_blob_def ok_or_Inr_iff checked_Some)
  note range = symbol_size_range [OF k sz]
  then have sup: "rs_encodable L (n_source_symbols c e) (rs_n_shards c) sz" for e
    using ready by (simp add: rs_enc_ready_def)
  from range have "length blob \<le> ?k * sz" by simp
  then show "be_ok L be" using sup [of Primary] sup [of Secondary] by (simp add: be be_ok_def)
  show "be_config be = c" "be_blob be = blob" by (simp_all add: be)
  show "symbol_size_for_blob c (length blob) = Inr (be_symbol_size be)"
    by (simp add: symbol_size_for_blob_def per sz be)
qed

text \<open>An encoder whose lines can also be decoded.\<close>

definition be_decodable :: "rs_lib \<Rightarrow> blob_encoder \<Rightarrow> bool" where
  "be_decodable L be \<longleftrightarrow> rs_supported L (be_n_rows be) (n_of be) (be_symbol_size be) \<and>
     rs_supported L (be_n_columns be) (n_of be) (be_symbol_size be)"

lemma blob_encoder_new_decodable:
  assumes ready: "rs_ready L c" and new: "blob_encoder_new c blob = Inr be"
  shows "be_decodable L be"
proof -
  note be = blob_encoder_new_ok [OF rs_ready_enc [OF ready] new]
  have "0 < be_symbol_size be \<and> be_symbol_size be < 65536 \<and> even (be_symbol_size be)"
    using be_okD(7) [OF be(1)] by (simp add: rs_encodable_def)
  then have "rs_supported L (n_source_symbols c e) (rs_n_shards c) (be_symbol_size be)" for e using ready by (simp add: rs_ready_def)
  from this [of Primary] this [of Secondary] show ?thesis using be_okD(9,10) [OF be(1)] be(2) by (simp add: be_decodable_def)
qed

section \<open>The row loop\<close>

lemma rows_extended:
  assumes ok: "be_ok L be" and enc: "encoder_ok (be_n_columns be) (n_of be) (be_symbol_size be) enc"
    and pre: "length pre = k" and idx: "\<And>c. g c = (\<lambda>x. x\<lparr> sl_index := j c \<rparr>)"
    and xs: "length xs = be_n_rows be" "\<And>m. m < be_n_rows be \<Longrightarrow> xs ! m = concat (map (msg be m) [0..<be_n_columns be])"
  shows "try_fold (extend_row L enc k) (pre @ map (\<lambda>c. g c (partial_secondary L be 0 c)) [be_n_columns be..<n_of be])
      (enumerate 0 xs) = Inr (pre @ map (\<lambda>c. g c (secondary_sliver L be c)) [be_n_columns be..<n_of be])"
proof -
  let ?I = "\<lambda>m s. s = pre @ map (\<lambda>c. g c (partial_secondary L be m c)) [be_n_columns be..<n_of be]"
  have "\<exists>s'. try_fold (extend_row L enc k) (pre @ map (\<lambda>c. g c (partial_secondary L be 0 c)) [be_n_columns be..<n_of be])
      (enumerate 0 xs) = Inr s' \<and> ?I (length xs) s'"
  proof (rule try_fold_enumerate [where I = ?I, OF refl])
    fix m s assume "m < length xs" and s: "?I m s"
    then have "m < be_n_rows be" using xs(1) by simp
    then show "\<exists>s'. extend_row L enc k s (m, xs ! m) = Inr s' \<and> ?I (Suc m) s'"
      unfolding s using extend_row_step [OF ok enc _ pre idx] xs(2) by simp
  qed
  then show ?thesis by (simp add: xs(1) partial_secondary_all)
qed

section \<open>The hash table\<close>

lemma hash_table_next: "hash_table H L be j (n_of be) = hash_table H L be (Suc j) 0"
proof -
  have "p div n_of be < n_of be" if "p < n_of be * n_of be" for p using that by (simp add: less_mult_imp_div_less)
  then show ?thesis unfolding hash_table_def by (intro map_cong) (auto simp: less_Suc_eq)
qed

lemma hash_table_step:
  assumes "i < n_of be" and "j < n_of be"
  shows "set_hash H (n_of be) j (hash_table H L be j i) (i, cell L be i j) = Inr (hash_table H L be j (Suc i))"
proof -
  let ?n = "n_of be"
  have b: "?n * i + j < ?n * ?n"
    using cell_bound [OF assms, of 1] by simp
  have pos: "p = ?n * i + j \<longleftrightarrow> p mod ?n = j \<and> p div ?n = i" for p
  proof
    assume "p = ?n * i + j"
    then show "p mod ?n = j \<and> p div ?n = i" using assms(2) by simp
  next
    assume "p mod ?n = j \<and> p div ?n = i"
    then show "p = ?n * i + j" using mult_div_mod_eq [of ?n p] by simp
  qed
  have "(hash_table H L be j i)[?n * i + j := leaf_hash H (cell L be i j)] = hash_table H L be j (Suc i)"
  proof (rule nth_equalityI)
    fix p assume "p < length ((hash_table H L be j i)[?n * i + j := leaf_hash H (cell L be i j)])"
    then show "(hash_table H L be j i)[?n * i + j := leaf_hash H (cell L be i j)] ! p = hash_table H L be j (Suc i) ! p"
      using b pos [of p] by (auto simp: hash_table_def nth_list_update less_Suc_eq)
  qed (simp add: hash_table_def)
  moreover have "length (hash_table H L be j i) = ?n * ?n" by (simp add: hash_table_def)
  ultimately show ?thesis using b by (simp add: set_hash_def)
qed

lemma hash_column_step:
  assumes ok: "be_ok L be" and j: "j < n_of be"
  shows "hash_column H (n_of be) j (hash_table H L be j 0) (mk_symbols (be_symbol_size be) (col_code L be j)) =
    Inr (hash_table H L be (Suc j) 0)"
proof -
  let ?I = "\<lambda>i s. s = hash_table H L be j i"
  note cc = col_code_props(1,2) [OF ok j]
  have "\<exists>s'. try_fold (set_hash H (n_of be) j) (hash_table H L be j 0) (enumerate 0 (col_code L be j)) = Inr s' \<and>
      ?I (length (col_code L be j)) s'"
    by (rule try_fold_enumerate [where I = ?I, OF refl])
      (use cc hash_table_step [OF _ j, of _ H L] in \<open>simp add: cell_def\<close>)
  then show ?thesis using cc be_okD(3) [OF ok] by (simp add: hash_column_def hash_table_next)
qed

lemma hash_table_0: "hash_table H L be 0 0 = replicate (n_of be * n_of be) Empty"
  by (simp add: hash_table_def map_replicate_const)

lemma metadata_of_table:
  assumes "0 < n_of be"
  shows "compute_metadata_from_symbol_hashes H (be_config be) (hash_table H L be (n_of be) 0) (length (be_blob be)) =
    Inr (expanded_metadata H L be)"
proof -
  let ?n = "n_of be" let ?t = "hash_table H L be ?n 0"
  have len: "length ?t = ?n * ?n" by (simp add: hash_table_def)
  have at: "?t ! (?n * r + c) = leaf_hash H (cell L be r c)" if "r < ?n" "c < ?n" for r c
    using that cell_bound [OF that, of 1] by (simp add: hash_table_def)
  have row: "take ?n (drop (?n * i) ?t) = map (leaf_hash H) (map (cell L be i) [0..<?n])" if i: "i < ?n" for i
  proof (rule nth_equalityI)
    have "?n * i + ?n \<le> ?n * ?n" using cell_bound [OF i, of 0 1 ?n] assms by (simp add: mult.commute)
    then show l: "length (take ?n (drop (?n * i) ?t)) = length (map (leaf_hash H) (map (cell L be i) [0..<?n]))"
      by (simp add: len)
    fix c assume "c < length (take ?n (drop (?n * i) ?t))"
    then have "c < ?n" by (simp add: l)
    then show "take ?n (drop (?n * i) ?t) ! c = map (leaf_hash H) (map (cell L be i) [0..<?n]) ! c"
      using at [OF i] l by simp
  qed
  have col: "map (\<lambda>r. ?t ! (?n * r + ?n - 1 - i)) [0..<?n] = map (leaf_hash H) (map (\<lambda>r. cell L be r (?n - 1 - i)) [0..<?n])"
    if i: "i < ?n" for i
  proof -
    have "?t ! (?n * r + ?n - 1 - i) = leaf_hash H (cell L be r (?n - 1 - i))" if "r < ?n" for r
      using at [OF that, of "?n - 1 - i"] i by (simp add: add_diff_assoc)
    then show ?thesis by simp
  qed
  have eq: "map (\<lambda>i. \<lparr> primary_hash = root (build_from_leaf_hashes H (take ?n (drop (?n * i) ?t))),
      secondary_hash = root (build_from_leaf_hashes H (map (\<lambda>r. ?t ! (?n * r + ?n - 1 - i)) [0..<?n])) \<rparr>) [0..<?n] =
    expanded_hashes H L be"
    unfolding expanded_hashes_def build_def by (rule map_cong [OF refl]) (simp only: row col set_upt atLeastLessThan_iff)
  show ?thesis unfolding compute_metadata_from_symbol_hashes_def Let_def len
    by (simp only: ensure_def if_True refl and_then_simps eq expanded_metadata_def)
qed

section \<open>The column loop\<close>

lemma partial_primary_0: "be_ok L be \<Longrightarrow> partial_primary L be 0 i = empty_sliver be Primary i"
  using be_okD(10) [of L be] by (simp add: partial_primary_def empty_sliver_mk map_replicate_const)

lemma partial_primary_all:
  assumes "be_n_columns be \<le> j" shows "partial_primary L be j i = primary_sliver L be i"
proof -
  have eq: "map (\<lambda>c. if c < j then cell L be i c else replicate (be_symbol_size be) 0) [0..<be_n_columns be] =
      map (cell L be i) [0..<be_n_columns be]" using assms by simp
  show ?thesis by (simp only: partial_primary_def primary_sliver_def eq)
qed

lemma copy_to_partial_primary:
  assumes "be_ok L be" and "j < be_n_columns be" and "i < n_of be"
  shows "copy_to j (cell L be i j) (partial_primary L be j i) = Inr (partial_primary L be (Suc j) i)"
proof -
  let ?z = "replicate (be_symbol_size be) 0"
  have "sized (be_symbol_size be) (map (\<lambda>c. if c < j then cell L be i c else ?z) [0..<be_n_columns be])"
    using assms be_okD(2) [OF assms(1)] by (auto simp: sized_map)
  then show ?thesis using assms be_okD(2,3) [OF assms(1)] be_usize(2) [OF assms(1)] fill_next [of j "be_n_columns be" "cell L be i"]
    by (simp add: partial_primary_def copy_to_mk)
qed

lemma column_encoded:
  assumes ok: "be_ok L be" and enc: "encoder_ok (be_n_rows be) (n_of be) (be_symbol_size be) enc" and j: "j < n_of be"
  obtains enc' where "encode_all_ref L enc (concat (map (\<lambda>r. cell L be r j) [0..<be_n_rows be])) =
      (Inr (mk_symbols (be_symbol_size be) (col_code L be j)), enc')"
    and "encoder_ok (be_n_rows be) (n_of be) (be_symbol_size be) enc'"
proof -
  have "sized (be_symbol_size be) (map (\<lambda>r. cell L be r j) [0..<be_n_rows be])"
    using ok j be_okD(1) [OF ok] by (simp add: sized_map)
  from encode_all_ref_ok [OF be_okD(7) [OF ok] enc _ this] show ?thesis
    using that col_code_cells [OF ok j] by auto
qed

lemma primary_updated:
  assumes ok: "be_ok L be" and j: "j < be_n_columns be"
  shows "try_update_zip (copy_to j) (drop (be_n_rows be) (col_code L be j)) (map (partial_primary L be j) [be_n_rows be..<n_of be]) =
    Inr (map (partial_primary L be (Suc j)) [be_n_rows be..<n_of be])"
proof (rule try_update_zip_eq)
  have jn: "j < n_of be" using j be_okD(2) [OF ok] by simp
  note len = col_code_props(1) [OF ok jn]
  show "length (drop (be_n_rows be) (col_code L be j)) = length (map (partial_primary L be j) [be_n_rows be..<n_of be])"
    using len by simp
  fix i assume "i < length (map (partial_primary L be j) [be_n_rows be..<n_of be])"
  then have i: "be_n_rows be + i < n_of be" by simp
  then have at: "map (partial_primary L be q) [be_n_rows be..<n_of be] ! i = partial_primary L be q (be_n_rows be + i)" for q
    by (subst nth_map) simp_all
  have "drop (be_n_rows be) (col_code L be j) ! i = cell L be (be_n_rows be + i) j" using i len by (simp add: cell_def)
  then show "copy_to j (drop (be_n_rows be) (col_code L be j) ! i) (map (partial_primary L be j) [be_n_rows be..<n_of be] ! i) =
      Inr (map (partial_primary L be (Suc j)) [be_n_rows be..<n_of be] ! i)"
    unfolding at using copy_to_partial_primary [OF ok j i] by simp
qed simp

text \<open>The state of the column loop before column \<open>j\<close>.\<close>

definition column_state ::
  "(bytes \<Rightarrow> bytes) \<Rightarrow> rs_lib \<Rightarrow> blob_encoder \<Rightarrow> nat \<Rightarrow> rs_encoder \<times> node list \<times> sliver_data list \<Rightarrow> bool" where
  "column_state H L be j = (\<lambda>(enc, hs, primary). encoder_ok (be_n_rows be) (n_of be) (be_symbol_size be) enc \<and>
     hs = hash_table H L be j 0 \<and>
     primary = map (primary_sliver L be) [0..<be_n_rows be] @ map (partial_primary L be j) [be_n_rows be..<n_of be])"

lemma encode_column_step:
  assumes ok: "be_ok L be" and j: "j < n_of be" and st: "column_state H L be j s"
  shows "\<exists>s'. encode_column H L be s (j, secondary_sliver L be j) = Inr s' \<and> column_state H L be (Suc j) s'"
proof -
  obtain enc where s: "s = (enc, hash_table H L be j 0,
      map (primary_sliver L be) [0..<be_n_rows be] @ map (partial_primary L be j) [be_n_rows be..<n_of be])"
    and enc: "encoder_ok (be_n_rows be) (n_of be) (be_symbol_size be) enc"
    using st by (cases s) (auto simp: column_state_def)
  obtain enc' where e: "encode_all_ref L enc (concat (map (\<lambda>r. cell L be r j) [0..<be_n_rows be])) =
      (Inr (mk_symbols (be_symbol_size be) (col_code L be j)), enc')"
    and enc': "encoder_ok (be_n_rows be) (n_of be) (be_symbol_size be) enc'"
    using column_encoded [OF ok enc j] .
  have data: "sym_data (sl_symbols (secondary_sliver L be j)) = concat (map (\<lambda>r. cell L be r j) [0..<be_n_rows be])"
    by (simp add: secondary_sliver_def mk_symbols_def)
  have syms: "to_symbols (mk_symbols (be_symbol_size be) (col_code L be j)) = col_code L be j"
    using col_code_props(2) [OF ok j] be_okD(3) [OF ok] by simp
  show ?thesis
  proof (cases "j < be_n_columns be")
    case True
    then show ?thesis using primary_updated [OF ok True]
      by (simp add: s encode_column_def data e syms hash_column_step [OF ok j] column_state_def enc')
  next
    case False
    then have "partial_primary L be j = partial_primary L be (Suc j)"
      by (simp add: partial_primary_all fun_eq_iff)
    then show ?thesis using False
      by (simp add: s encode_column_def data e hash_column_step [OF ok j] column_state_def enc')
  qed
qed

lemma columns_encoded:
  assumes ok: "be_ok L be" and st: "column_state H L be 0 s"
  obtains enc where "try_fold (encode_column H L be) s (enumerate 0 (map (secondary_sliver L be) [0..<n_of be])) =
    Inr (enc, hash_table H L be (n_of be) 0, map (primary_sliver L be) [0..<n_of be])"
proof -
  have "\<exists>s'. try_fold (encode_column H L be) s (enumerate 0 (map (secondary_sliver L be) [0..<n_of be])) = Inr s' \<and>
      column_state H L be (length (map (secondary_sliver L be) [0..<n_of be])) s'"
    by (rule try_fold_enumerate [where I = "column_state H L be", OF st])
      (use encode_column_step [OF ok] in simp)
  moreover have "map (partial_primary L be (n_of be)) [be_n_rows be..<n_of be] = map (primary_sliver L be) [be_n_rows be..<n_of be]"
    using partial_primary_all [of be "n_of be"] be_okD(2) [OF ok] by simp
  moreover have "map (primary_sliver L be) [0..<be_n_rows be] @ map (primary_sliver L be) [be_n_rows be..<n_of be] =
      map (primary_sliver L be) [0..<n_of be]"
    using be_okD(1) [OF ok] by (rule map_upt_split)
  ultimately show ?thesis using that by (auto simp: column_state_def)
qed

section \<open>Encoding with metadata\<close>

lemma zip_pairs:
  "map (\<lambda>(p, s). \<lparr> pair_primary = p, pair_secondary = s \<rparr>)
     (zip (map (primary_sliver L be) [0..<n_of be]) (rev (map (secondary_sliver L be) [0..<n_of be]))) = encoded_pairs L be"
  by (rule nth_equalityI) (simp_all add: encoded_pairs_def rev_nth)

lemma encode_with_metadata_ok:
  assumes ok: "be_ok L be"
  shows "encode_with_metadata H L be = Inr (encoded_pairs L be, expanded_metadata H L be)"
proof -
  let ?nr = "be_n_rows be" let ?nc = "be_n_columns be" let ?n = "n_of be"
  obtain e1 e2 where enc: "be_get_encoder L be Secondary = Inr e1" "encoder_ok ?nc ?n (be_symbol_size be) e1"
    "be_get_encoder L be Primary = Inr e2" "encoder_ok ?nr ?n (be_symbol_size be) e2"
    using be_get_encoder_ok [OF ok] .
  have split: "map f [0..<?n] = map f [0..<?nc] @ map f [?nc..<?n]" for f :: "nat \<Rightarrow> sliver_data"
    using map_upt_split [OF be_okD(2) [OF ok]] by (rule sym)
  have sec0: "map (\<lambda>c. if c < ?nc then secondary_sliver L be c else partial_secondary L be 0 c) [0..<?n] =
      map (secondary_sliver L be) [0..<?nc] @ map (partial_secondary L be 0) [?nc..<?n]"
    by (simp add: split)
  have "sym_data (sl_symbols (primary_sliver L be m)) = concat (map (msg be m) [0..<?nc])" if "m < ?nr" for m
    using primary_sliver_row [OF ok that] by (simp add: mk_symbols_def)
  moreover have "partial_secondary L be m c\<lparr> sl_index := c \<rparr> = partial_secondary L be m c"
    "secondary_sliver L be c\<lparr> sl_index := c \<rparr> = secondary_sliver L be c" for m c
    by (simp_all add: partial_secondary_def secondary_sliver_def)
  ultimately have rows: "try_fold (extend_row L e1 ?nc)
      (map (secondary_sliver L be) [0..<?nc] @ map (partial_secondary L be 0) [?nc..<?n])
      (enumerate 0 (map (sym_data \<circ> sl_symbols) (take ?nr (map (primary_sliver L be) [0..<?nr])))) =
    Inr (map (secondary_sliver L be) [0..<?n])"
    using rows_extended [OF ok enc(2), of "map (secondary_sliver L be) [0..<?nc]" ?nc "\<lambda>c x. x\<lparr> sl_index := c \<rparr>" id
        "map (sym_data \<circ> sl_symbols) (take ?nr (map (primary_sliver L be) [0..<?nr]))"] split
    by simp
  have "column_state H L be 0 (e2, replicate (?n * ?n) Empty,
      map (primary_sliver L be) [0..<?nr] @ map (empty_sliver be Primary) [?nr..<?n])"
    using enc(4) partial_primary_0 [OF ok] by (simp add: column_state_def hash_table_0)
  from columns_encoded [OF ok this] obtain enc' where cols: "try_fold (encode_column H L be) (e2, replicate (?n * ?n) Empty,
      map (primary_sliver L be) [0..<?nr] @ map (empty_sliver be Primary) [?nr..<?n])
      (enumerate 0 (map (secondary_sliver L be) [0..<?n])) =
    Inr (enc', hash_table H L be ?n 0, map (primary_sliver L be) [0..<?n])" .
  show ?thesis
    unfolding encode_with_metadata_def Let_def systematic_primary [OF ok] systematic_secondary [OF ok] sec0
      enc(1,3) and_then_simps rows cols prod.case metadata_of_table [OF be_okD(6) [OF ok]] zip_pairs ..
qed

section \<open>Metadata only\<close>

lemma length_rows_all: "length (rows_all be) = be_n_rows be"
  by (simp add: rows_all_def)

lemma row_all_at:
  "m < be_n_rows be \<Longrightarrow> rows_all be ! m = take (be_n_columns be * be_symbol_size be)
     (drop (m * (be_n_columns be * be_symbol_size be)) (be_blob be))"
proof -
  assume m: "m < be_n_rows be"
  have eq: "be_symbol_size be * (be_n_columns be * m) = m * (be_n_columns be * be_symbol_size be)"
    "be_symbol_size be * be_n_columns be = be_n_columns be * be_symbol_size be" by simp_all
  show ?thesis using m by (simp only: rows_all_def Let_def min_slice eq nth_map length_upt nth_upt add_0 diff_zero)
qed

text \<open>Whatever the buffer held, the row written to it is zero-padded to the row length.\<close>

lemma padded_buffer:
  assumes ok: "be_ok L be" and m: "m < be_n_rows be" and b: "length b = be_symbol_size be * be_n_columns be"
  defines "w \<equiv> be_symbol_size be * be_n_columns be"
  shows "(if length (rows_all be ! m) < w then pad_row w b (rows_all be ! m) else rows_all be ! m) =
      concat (map (msg be m) [0..<be_n_columns be])"
    and "length (pad_row w b (rows_all be ! m)) = w"
proof -
  let ?r = "rows_all be ! m"
  have w: "w = be_n_columns be * be_symbol_size be" by (simp add: w_def)
  have le: "length ?r \<le> w" using row_all_at [OF m] by (simp add: w)
  have "?r @ drop (length ?r) (replicate w 0) = concat (map (msg be m) [0..<be_n_columns be])"
    using padded_row [OF ok m] row_all_at [OF m] by (simp only: w)
  then show "(if length ?r < w then pad_row w b ?r else ?r) = concat (map (msg be m) [0..<be_n_columns be])"
    using le b by (auto simp: pad_row_def w_def)
  show "length (pad_row w b ?r) = w" using le b by (simp add: pad_row_def w_def)
qed

lemma rows_extended_buffered:
  assumes ok: "be_ok L be" and enc: "encoder_ok (be_n_columns be) (n_of be) (be_symbol_size be) enc"
    and b: "length b = be_symbol_size be * be_n_columns be"
  obtains b' where "try_fold (extend_row_buffered L enc (be_symbol_size be * be_n_columns be))
      (b, replicate (n_of be - be_n_columns be) (empty_sliver be Secondary 0)) (enumerate 0 (rows_all be)) =
    Inr (b', map (\<lambda>c. secondary_sliver L be c\<lparr> sl_index := 0 \<rparr>) [be_n_columns be..<n_of be])"
proof -
  let ?w = "be_symbol_size be * be_n_columns be"
  let ?sec = "\<lambda>m. map (\<lambda>c. partial_secondary L be m c\<lparr> sl_index := 0 \<rparr>) [be_n_columns be..<n_of be]"
  let ?I = "\<lambda>m (s :: bytes \<times> sliver_data list). length (fst s) = ?w \<and> snd s = ?sec m"
  let ?s = "(b, replicate (n_of be - be_n_columns be) (empty_sliver be Secondary 0))"
  have "partial_secondary L be 0 c\<lparr> sl_index := 0 \<rparr> = empty_sliver be Secondary 0" for c
    using partial_secondary_0 [OF ok] by (simp add: empty_sliver_mk [OF ok])
  then have init: "?I 0 ?s" by (simp add: b map_replicate_const)
  have "\<exists>s'. try_fold (extend_row_buffered L enc ?w) ?s (enumerate 0 (rows_all be)) = Inr s' \<and> ?I (length (rows_all be)) s'"
  proof (rule try_fold_enumerate [where I = ?I, OF init])
    fix m s assume "m < length (rows_all be)" and I: "?I m s"
    then have m: "m < be_n_rows be" by (simp add: length_rows_all)
    obtain b0 where s: "s = (b0, ?sec m)" and b0: "length b0 = ?w" using I by (cases s) auto
    have step: "extend_row L enc 0 (?sec m) (m, concat (map (msg be m) [0..<be_n_columns be])) = Inr (?sec (Suc m))"
      using extend_row_step [OF ok enc m, of "[]" 0 "\<lambda>c x. x\<lparr> sl_index := 0 \<rparr>" "\<lambda>_. 0"] by simp
    show "\<exists>s'. extend_row_buffered L enc ?w s (m, rows_all be ! m) = Inr s' \<and> ?I (Suc m) s'"
      unfolding s extend_row_buffered_def prod.case Let_def padded_buffer(1) [OF ok m b0] step and_then_simps
      by (rule exI, rule conjI, rule refl) (simp add: padded_buffer(2) [OF ok m b0])
  qed
  then show ?thesis using that by (auto simp: length_rows_all partial_secondary_all)
qed

text \<open>Both loops over columns advance the hash table by one column each.\<close>

definition hash_state :: "(bytes \<Rightarrow> bytes) \<Rightarrow> rs_lib \<Rightarrow> blob_encoder \<Rightarrow> nat \<Rightarrow> rs_encoder \<times> node list \<Rightarrow> bool" where
  "hash_state H L be j = (\<lambda>(enc, hs). encoder_ok (be_n_rows be) (n_of be) (be_symbol_size be) enc \<and>
     hs = hash_table H L be j 0)"

lemma systematic_columns_hashed:
  assumes ok: "be_ok L be" and enc: "encoder_ok (be_n_rows be) (n_of be) (be_symbol_size be) enc"
  obtains enc' b where "try_fold (hash_systematic_column H L (n_of be))
      (enc, replicate (n_of be * n_of be) Empty, symbols_zeros (be_n_rows be) (be_symbol_size be))
      (enumerate 0 (column_symbols_of be)) = Inr (enc', hash_table H L be (be_n_columns be) 0, b)"
    and "encoder_ok (be_n_rows be) (n_of be) (be_symbol_size be) enc'"
proof -
  let ?s = "be_symbol_size be"
  let ?I = "\<lambda>j (st :: rs_encoder \<times> node list \<times> symbols). hash_state H L be j (fst st, fst (snd st)) \<and>
    length (sym_data (snd (snd st))) = be_n_rows be * ?s \<and> symbol_size (snd (snd st)) = ?s"
  let ?st = "(enc, replicate (n_of be * n_of be) Empty, symbols_zeros (be_n_rows be) ?s)"
  have init: "?I 0 ?st" using enc be_usize(1) [OF ok] by (simp add: hash_state_def hash_table_0 symbols_zeros_def)
  have "\<exists>st'. try_fold (hash_systematic_column H L (n_of be)) ?st (enumerate 0 (column_symbols_of be)) = Inr st' \<and>
      ?I (length (column_symbols_of be)) st'"
  proof (rule try_fold_enumerate [where I = ?I, OF init])
    fix j st assume "j < length (column_symbols_of be)" and I: "?I j st"
    then have j: "j < be_n_columns be" by (simp add: column_symbols_of_def)
    then have jn: "j < n_of be" using be_okD(2) [OF ok] by simp
    obtain e0 hs b0 where st: "st = (e0, hs, b0)" by (cases st) auto
    have e0: "encoder_ok (be_n_rows be) (n_of be) ?s e0" and hs: "hs = hash_table H L be j 0"
      and b0: "length (sym_data b0) = be_n_rows be * ?s" "symbol_size b0 = ?s"
      using I by (simp_all add: st hash_state_def)
    have "b0\<lparr> sym_data := replicate (length (sym_data b0)) 0 \<rparr> = symbols_zeros (be_n_rows be) ?s"
      using b0 be_usize(1) [OF ok] by (simp add: symbols_zeros_def)
    then have fill: "fill_symbols (column_symbols_of be ! j) (b0\<lparr> sym_data := replicate (length (sym_data b0)) 0 \<rparr>) =
        Inr (mk_symbols ?s (map (\<lambda>r. cell L be r j) [0..<be_n_rows be]))"
      using fill_symbols_column [OF ok j] j by (simp add: column_symbols_of_def)
    obtain e1 where e1: "encode_all_ref L e0 (concat (map (\<lambda>r. cell L be r j) [0..<be_n_rows be])) =
        (Inr (mk_symbols ?s (col_code L be j)), e1)" "encoder_ok (be_n_rows be) (n_of be) ?s e1"
      using column_encoded [OF ok e0 jn] .
    have data: "sym_data (mk_symbols ?s (map (\<lambda>r. cell L be r j) [0..<be_n_rows be])) =
        concat (map (\<lambda>r. cell L be r j) [0..<be_n_rows be])" by (simp add: mk_symbols_def)
    have "sized ?s (map (\<lambda>r. cell L be r j) [0..<be_n_rows be])"
      using ok jn be_okD(1) [OF ok] by (simp add: sized_map)
    then have "length (concat (map (\<lambda>r. cell L be r j) [0..<be_n_rows be])) = be_n_rows be * ?s"
      by (simp add: length_concat_sized)
    then have "length (sym_data (mk_symbols ?s (map (\<lambda>r. cell L be r j) [0..<be_n_rows be]))) = be_n_rows be * ?s"
      by (simp only: data)
    then show "\<exists>st'. hash_systematic_column H L (n_of be) st (j, column_symbols_of be ! j) = Inr st' \<and> ?I (Suc j) st'"
      by (simp add: st hash_systematic_column_def fill data e1 hs hash_column_step [OF ok jn] hash_state_def)
  qed
  then show ?thesis using that by (auto simp: hash_state_def column_symbols_of_def)
qed

lemma extended_columns_hashed:
  assumes ok: "be_ok L be" and enc: "encoder_ok (be_n_rows be) (n_of be) (be_symbol_size be) enc"
  obtains enc' where "try_fold (hash_extended_column H L (n_of be) (be_n_columns be))
      (enc, hash_table H L be (be_n_columns be) 0)
      (enumerate 0 (map (\<lambda>c. secondary_sliver L be c\<lparr> sl_index := 0 \<rparr>) [be_n_columns be..<n_of be])) =
    Inr (enc', hash_table H L be (n_of be) 0)"
proof -
  let ?nc = "be_n_columns be" let ?xs = "map (\<lambda>c. secondary_sliver L be c\<lparr> sl_index := 0 \<rparr>) [?nc..<n_of be]"
  let ?I = "\<lambda>j. hash_state H L be (?nc + j)"
  have init: "?I 0 (enc, hash_table H L be ?nc 0)" using enc by (simp add: hash_state_def)
  have "\<exists>st'. try_fold (hash_extended_column H L (n_of be) ?nc) (enc, hash_table H L be ?nc 0) (enumerate 0 ?xs) = Inr st' \<and>
      ?I (length ?xs) st'"
  proof (rule try_fold_enumerate [where I = ?I, OF init])
    fix j st assume "j < length ?xs" and I: "?I j st"
    then have j: "?nc + j < n_of be" by simp
    obtain e0 where st: "st = (e0, hash_table H L be (?nc + j) 0)" and e0: "encoder_ok (be_n_rows be) (n_of be) (be_symbol_size be) e0"
      using I by (cases st) (auto simp: hash_state_def)
    have x: "?xs ! j = secondary_sliver L be (?nc + j)\<lparr> sl_index := 0 \<rparr>" using j by (subst nth_map) simp_all
    have data: "sym_data (sl_symbols (?xs ! j)) = concat (map (\<lambda>r. cell L be r (?nc + j)) [0..<be_n_rows be])"
      unfolding x by (simp add: secondary_sliver_def mk_symbols_def)
    obtain e1 where "encode_all_ref L e0 (concat (map (\<lambda>r. cell L be r (?nc + j)) [0..<be_n_rows be])) =
        (Inr (mk_symbols (be_symbol_size be) (col_code L be (?nc + j))), e1)"
      "encoder_ok (be_n_rows be) (n_of be) (be_symbol_size be) e1"
      using column_encoded [OF ok e0 j] .
    then show "\<exists>st'. hash_extended_column H L (n_of be) ?nc st (j, ?xs ! j) = Inr st' \<and> ?I (Suc j) st'"
      using hash_column_step [OF ok j, of H]
      by (simp add: st hash_extended_column_def data hash_state_def add.commute [of j])
  qed
  then show ?thesis using that be_okD(2) [OF ok] by (auto simp: hash_state_def)
qed

lemma compute_metadata_ok:
  assumes ok: "be_ok L be"
  shows "compute_metadata_with_symbol_hashes H L be = Inr (expanded_metadata H L be, hash_table H L be (n_of be) 0)"
proof -
  let ?nr = "be_n_rows be" let ?nc = "be_n_columns be" let ?n = "n_of be" let ?s = "be_symbol_size be"
  obtain e1 e2 where enc: "be_get_encoder L be Secondary = Inr e1" "encoder_ok ?nc ?n ?s e1"
    "be_get_encoder L be Primary = Inr e2" "encoder_ok ?nr ?n ?s e2"
    using be_get_encoder_ok [OF ok] .
  have b: "length (sym_data (symbols_zeros ?nc ?s)) = ?s * ?nc" using be_usize(2) [OF ok] by (simp add: symbols_zeros_def)
  obtain b' where rows: "try_fold (extend_row_buffered L e1 (?s * ?nc))
      (sym_data (symbols_zeros ?nc ?s), replicate (?n - ?nc) (empty_sliver be Secondary 0)) (enumerate 0 (rows_all be)) =
    Inr (b', map (\<lambda>c. secondary_sliver L be c\<lparr> sl_index := 0 \<rparr>) [?nc..<?n])"
    using rows_extended_buffered [OF ok enc(2) b] .
  obtain e3 b3 where sys: "try_fold (hash_systematic_column H L ?n)
      (e2, replicate (?n * ?n) Empty, symbols_zeros ?nr ?s) (enumerate 0 (column_symbols_of be)) =
      Inr (e3, hash_table H L be ?nc 0, b3)" and e3: "encoder_ok ?nr ?n ?s e3"
    using systematic_columns_hashed [OF ok enc(4)] .
  obtain e4 where ext: "try_fold (hash_extended_column H L ?n ?nc) (e3, hash_table H L be ?nc 0)
      (enumerate 0 (map (\<lambda>c. secondary_sliver L be c\<lparr> sl_index := 0 \<rparr>) [?nc..<?n])) = Inr (e4, hash_table H L be ?n 0)"
    using extended_columns_hashed [OF ok e3] .
  show ?thesis
    unfolding compute_metadata_with_symbol_hashes_def Let_def enc(1,3) and_then_simps rows prod.case sys ext
      metadata_of_table [OF be_okD(6) [OF ok]] ..
qed

end
