(* ===== verification/Blob_Legacy.thy ===== *)
theory Blob_Legacy
  imports Blob_Correct
begin

text \<open>
  The older encoding routine of \<^verbatim>\<open>encoding/blob_encoding.rs\<close>, which builds the whole expanded matrix:
  the matrix it computes is the matrix of \<open>Blob_Encoding\<close>, so it returns the same sliver pairs and
  the same metadata as \<^verbatim>\<open>encode_with_metadata\<close>.
\<close>

abbreviation zero_symbol :: "blob_encoder \<Rightarrow> bytes" where "zero_symbol be \<equiv> replicate (be_symbol_size be) 0"

text \<open>A row of the matrix given by its symbols.\<close>

definition mrow :: "blob_encoder \<Rightarrow> (nat \<Rightarrow> bytes) \<Rightarrow> symbols" where
  "mrow be f = mk_symbols (be_symbol_size be) (map f [0..<n_of be])"

lemma mrow_cong: "(\<And>c. c < n_of be \<Longrightarrow> f c = g c) \<Longrightarrow> mrow be f = mrow be g"
proof -
  assume "\<And>c. c < n_of be \<Longrightarrow> f c = g c"
  then have eq: "map f [0..<n_of be] = map g [0..<n_of be]" by simp
  show ?thesis by (simp only: mrow_def eq)
qed

section \<open>The systematic part\<close>

lemma mrow_message:
  assumes "be_ok L be"
  shows "mrow be (\<lambda>c. if c < be_n_columns be then msg be r c else zero_symbol be) =
    \<lparr> sym_data = concat (map (msg be r) [0..<be_n_columns be]) @ replicate ((n_of be - be_n_columns be) * be_symbol_size be) 0,
      symbol_size = be_symbol_size be \<rparr>"
proof -
  let ?f = "\<lambda>c. if c < be_n_columns be then msg be r c else zero_symbol be"
  have "map ?f [0..<n_of be] = map (msg be r) [0..<be_n_columns be] @ replicate (n_of be - be_n_columns be) (zero_symbol be)"
    using be_okD(2) [OF assms] by (intro nth_equalityI) (simp_all add: nth_append)
  moreover have "concat (replicate k (replicate s 0)) = replicate (k * s) (0 :: byte)" for k s
    by (induction k) (simp_all add: replicate_add)
  ultimately have eq: "concat (map ?f [0..<n_of be]) =
      concat (map (msg be r) [0..<be_n_columns be]) @ replicate ((n_of be - be_n_columns be) * be_symbol_size be) 0"
    by simp
  show ?thesis unfolding mrow_def mk_symbols_def eq ..
qed

lemma zero_row: "be_ok L be \<Longrightarrow> symbols_zeros (n_of be) (be_symbol_size be) = mrow be (\<lambda>_. zero_symbol be)"
  using symbols_zeros_mk [OF be_usize(3)] by (simp add: mrow_def map_replicate_const)

lemma drop_replicate_append: "l \<le> a \<Longrightarrow> drop l (replicate (a + b) x) = drop l (replicate a x) @ replicate b x"
  by (simp add: replicate_add [symmetric])

lemma matrix_filled:
  assumes ok: "be_ok L be"
  shows "fill_systematic_with_rows (be_n_columns be) (be_symbol_size be) (be_blob be)
      (replicate (n_of be) (symbols_zeros (n_of be) (be_symbol_size be))) =
    Inr (map (\<lambda>r. mrow be (\<lambda>c. if r < be_n_rows be \<and> c < be_n_columns be then msg be r c else zero_symbol be)) [0..<n_of be])"
  unfolding fill_systematic_with_rows_def
proof (rule try_update_zip_all)
  let ?s = "be_symbol_size be" let ?nc = "be_n_columns be" let ?w = "?nc * ?s"
  let ?g = "\<lambda>r. mrow be (\<lambda>c. if r < be_n_rows be \<and> c < ?nc then msg be r c else zero_symbol be)"
  have w: "0 < ?w" using be_okD [OF ok] by simp
  have le: "length (chunks ?w (be_blob be)) \<le> be_n_rows be"
    using be_ok_blob [OF ok] length_chunks_le [of "be_blob be" "be_n_rows be" ?w] by (simp add: mult.assoc)
  have msg_row: "?g r = mrow be (\<lambda>c. if c < ?nc then msg be r c else zero_symbol be)" if "r < be_n_rows be" for r
    using that by simp
  have full: "n_of be * ?s = ?w + (n_of be - ?nc) * ?s" using be_okD(2) [OF ok] by (simp add: diff_mult_distrib)
  show "length (chunks ?w (be_blob be)) \<le> length (replicate (n_of be) (symbols_zeros (n_of be) ?s))"
    using le be_okD(1) [OF ok] by simp
  fix i
  show "or_panic (write_prefix (replicate (n_of be) (symbols_zeros (n_of be) ?s) ! i) (chunks ?w (be_blob be) ! i)) =
      Inr (map ?g [0..<n_of be] ! i)" if "i < length (chunks ?w (be_blob be))"
  proof -
    have i: "i < be_n_rows be" using that le by simp
    then have inn: "i < n_of be" using be_okD(1) [OF ok] by simp
    have row: "chunks ?w (be_blob be) ! i = take ?w (drop (i * ?w) (be_blob be))" by (rule nth_chunks [OF that])
    have len: "length (take ?w (drop (i * ?w) (be_blob be))) \<le> ?w" by simp
    show ?thesis using padded_row [OF ok i] inn
      by (simp only: row nth_replicate nth_map length_upt nth_upt add_0 diff_zero msg_row [OF i] mrow_message [OF ok]
          write_prefix_def symbols_zeros_def usize_mul_small [OF be_usize(3) [OF ok]] symbols.simps length_replicate full drop_replicate_append [OF len]
          le_trans [OF len le_add1] if_True or_panic_simps append.assoc [symmetric])
  qed
  show "map ?g [0..<n_of be] ! i = replicate (n_of be) (symbols_zeros (n_of be) ?s) ! i"
    if b: "length (chunks ?w (be_blob be)) \<le> i" "i < length (replicate (n_of be) (symbols_zeros (n_of be) ?s))"
  proof (cases "i < be_n_rows be")
    case True
    have "length (be_blob be) \<le> length (chunks ?w (be_blob be)) * ?w" using length_chunks_ge [OF w] .
    also have "\<dots> \<le> i * ?w" using b by simp
    finally have z: "concat (map (msg be i) [0..<?nc]) = replicate ?w 0" using padded_row [OF ok True] by simp
    have "?g i = symbols_zeros (n_of be) ?s"
      unfolding msg_row [OF True] mrow_message [OF ok] symbols_zeros_def usize_mul_small [OF be_usize(3) [OF ok]] full z replicate_add ..
    moreover have "map ?g [0..<n_of be] ! i = ?g i" using b by (intro nth_map_upt0) simp
    ultimately show ?thesis using b by simp
  next
    case False
    then show ?thesis using b by (simp add: zero_row [OF ok])
  qed
qed simp

section \<open>Extending rows and columns\<close>

lemma sized_mrow [simp]: "(\<And>c. c < n_of be \<Longrightarrow> length (f c) = be_symbol_size be) \<Longrightarrow> sized (be_symbol_size be) (map f [0..<n_of be])"
  by (simp add: sized_map)

lemma symbols_set_mrow:
  assumes "\<And>c. c < n_of be \<Longrightarrow> length (f c) = be_symbol_size be" and "j < n_of be" and "length v = be_symbol_size be"
    and ok: "be_ok L be"
  shows "symbols_set (mrow be f) j v = Inr (mrow be (f(j := v)))"
proof -
  have eq: "(map f [0..<n_of be])[j := v] = map (f(j := v)) [0..<n_of be]"
    using assms(2) by (intro nth_equalityI) (auto simp: nth_list_update)
  have "sized (be_symbol_size be) (map f [0..<n_of be])" using assms(1) by simp
  from symbols_set_mk [OF this _ assms(3), of j] show ?thesis using assms(2) be_usize(3) [OF ok] be_okD(3) [OF ok] by (simp add: mrow_def eq del: map_fun_upd)
qed

lemma expand_row_ok:
  assumes ok: "be_ok L be" and r: "r < be_n_rows be"
  shows "expand_row L (be_config be) (be_n_columns be)
      (mrow be (\<lambda>c. if c < be_n_columns be then msg be r c else zero_symbol be)) = Inr (mrow be (cell L be r))"
proof -
  let ?s = "be_symbol_size be" let ?nc = "be_n_columns be" let ?n = "n_of be"
  let ?f = "\<lambda>i c. if c < ?nc + i then cell L be r c else zero_symbol be"
  let ?par = "drop ?nc (row_code L be r)"
  have nc: "?nc \<le> ?n" using be_okD(2) [OF ok] .
  have rn: "r < ?n" using r be_okD(1) [OF ok] by simp
  have f0: "mrow be (\<lambda>c. if c < ?nc then msg be r c else zero_symbol be) = mrow be (?f 0)"
    by (rule mrow_cong) (simp add: cell_msg [OF ok r])
  have lf: "length (?f i c) = ?s" if "c < ?n" for i c using ok rn that by simp
  have m1: "map (?f 0) [0..<?nc] = map (msg be r) [0..<?nc]" by (simp add: cell_msg [OF ok r])
  have m2: "take (?nc - 0) (drop 0 (map (?f 0) [0..<?n])) = map (?f 0) [0..<?nc]" using nc by (simp add: take_map)
  have "sized ?s (map (?f 0) [0..<?n])" using lf by (rule sized_mrow)
  from symbols_slice_mk [OF this, of 0 ?nc] be_usize(3) [OF ok] have sl: "symbols_slice (mrow be (?f 0)) 0 ?nc = Inr (concat (map (msg be r) [0..<?nc]))"
    unfolding mrow_def m2 m1 using nc by simp
  have sup: "rs_encodable L (n_source_symbols (be_config be) Secondary) ?n ?s" using be_okD(8,10) [OF ok] by simp
  have enc: "config_encode_all_repair_symbols L (be_config be) Secondary (concat (map (msg be r) [0..<?nc])) =
      Inr (mk_symbols ?s ?par)"
    using config_repair_ok [OF sup, of "map (msg be r) [0..<?nc]"] sized_msg_row [OF ok r] row_code_props(4) [OF ok r]
      be_okD(10) [OF ok] by simp
  have par: "length ?par = ?n - ?nc" "sized ?s ?par" using row_code_props(1,2) [OF ok r] by simp_all
  have "\<exists>x'. try_fold (\<lambda>row (i, symbol). or_panic (symbols_set row (?nc + i) symbol)) (mrow be (?f 0)) (enumerate 0 ?par) = Inr x' \<and>
      x' = mrow be (?f (length ?par))"
  proof (rule try_fold_enumerate [where I = "\<lambda>i x. x = mrow be (?f i)", OF refl])
    fix i x assume "i < length ?par" and x: "x = mrow be (?f i)"
    then have i: "?nc + i < ?n" using par(1) by simp
    have v: "?par ! i = cell L be r (?nc + i)" using i row_code_props(1) [OF ok r] by (simp add: cell_row [OF ok r])
    have "symbols_set (mrow be (?f i)) (?nc + i) (cell L be r (?nc + i)) = Inr (mrow be ((?f i)(?nc + i := cell L be r (?nc + i))))"
      by (rule symbols_set_mrow [OF lf i _ ok]) (use ok rn i in simp_all)
    moreover have "mrow be ((?f i)(?nc + i := cell L be r (?nc + i))) = mrow be (?f (Suc i))"
      by (rule mrow_cong) (auto simp: less_Suc_eq)
    ultimately show "\<exists>x'. (case (i, ?par ! i) of (i, symbol) \<Rightarrow> or_panic (symbols_set x (?nc + i) symbol)) = Inr x' \<and>
        x' = mrow be (?f (Suc i))"
      by (simp only: x v prod.case or_panic_simps) blast
  qed
  then have loop: "try_fold (\<lambda>row (i, symbol). or_panic (symbols_set row (?nc + i) symbol)) (mrow be (?f 0)) (enumerate 0 ?par) =
      Inr (mrow be (?f (length ?par)))" by blast
  have "mrow be (?f (length ?par)) = mrow be (cell L be r)" using par nc by (intro mrow_cong) simp
  moreover have "to_symbols (mk_symbols ?s ?par) = ?par" using par(2) be_okD(3) [OF ok] by simp
  ultimately show ?thesis unfolding expand_row_def f0 sl or_panic_simps and_then_simps enc using loop by (simp only:)
qed

text \<open>The matrix when the columns before \<open>j\<close> and, in column \<open>j\<close>, the first \<open>i\<close> recovery symbols are set.\<close>

definition matrix_at :: "rs_lib \<Rightarrow> blob_encoder \<Rightarrow> nat \<Rightarrow> nat \<Rightarrow> symbols list" where
  "matrix_at L be j i = map (\<lambda>r. mrow be (\<lambda>c.
     if r < be_n_rows be \<or> c < j \<or> c = j \<and> r < be_n_rows be + i then cell L be r c else zero_symbol be)) [0..<n_of be]"

lemma length_matrix_at [simp]: "length (matrix_at L be j i) = n_of be"
  by (simp add: matrix_at_def)

lemma matrix_at_nth:
  "r < n_of be \<Longrightarrow> matrix_at L be j i ! r =
     mrow be (\<lambda>c. if r < be_n_rows be \<or> c < j \<or> c = j \<and> r < be_n_rows be + i then cell L be r c else zero_symbol be)"
  unfolding matrix_at_def by (rule nth_map_upt0)

lemma rows_expanded:
  assumes ok: "be_ok L be"
  shows "expand_rows_for_secondary L (be_config be) (be_n_rows be) (be_n_columns be)
      (map (\<lambda>r. mrow be (\<lambda>c. if r < be_n_rows be \<and> c < be_n_columns be then msg be r c else zero_symbol be)) [0..<n_of be]) =
    Inr (matrix_at L be 0 0)"
proof -
  let ?g = "\<lambda>r. mrow be (\<lambda>c. if r < be_n_rows be \<and> c < be_n_columns be then msg be r c else zero_symbol be)"
  let ?h = "\<lambda>r. mrow be (\<lambda>c. if r < be_n_rows be \<or> c < 0 \<or> c = 0 \<and> r < be_n_rows be + 0 then cell L be r c else zero_symbol be)"
  have nr: "be_n_rows be \<le> n_of be" using be_okD(1) [OF ok] .
  have tk: "take (be_n_rows be) (map ?g [0..<n_of be]) = map ?g [0..<be_n_rows be]" using nr by (simp add: take_map)
  have dr: "drop (be_n_rows be) (map ?g [0..<n_of be]) = map ?g [be_n_rows be..<n_of be]" by (simp add: drop_map)
  have low: "expand_row L (be_config be) (be_n_columns be) (?g r) = Inr (?h r)" if "r < be_n_rows be" for r
    using expand_row_ok [OF ok that] that by simp
  have "try_map (expand_row L (be_config be) (be_n_columns be)) (map ?g [0..<be_n_rows be]) = Inr (map ?h [0..<be_n_rows be])"
    unfolding try_map_Inr_iff using low by (simp add: list_all2_conv_all_nth)
  moreover have "map ?g [be_n_rows be..<n_of be] = map ?h [be_n_rows be..<n_of be]"
    by (rule map_cong [OF refl]) (simp add: mrow_def)
  moreover have "map ?h [0..<be_n_rows be] @ map ?h [be_n_rows be..<n_of be] = matrix_at L be 0 0"
    unfolding matrix_at_def using nr by (rule map_upt_split)
  ultimately show ?thesis unfolding expand_rows_for_secondary_def tk dr by (simp only: and_then_simps)
qed

lemma symbols_at_mrow:
  "(\<And>c. c < n_of be \<Longrightarrow> length (f c) = be_symbol_size be) \<Longrightarrow> j < n_of be \<Longrightarrow> be_ok L be \<Longrightarrow> symbols_at (mrow be f) j = Inr (f j)"
  unfolding mrow_def using be_usize(3) [of L be] be_okD(3) [of L be] by (subst symbols_at_mk) simp_all

lemma column_collected:
  assumes ok: "be_ok L be" and j: "j < n_of be"
    and rows: "\<And>r c. r \<in> set rs \<Longrightarrow> c < n_of be \<Longrightarrow> length (f r c) = be_symbol_size be"
  shows "try_fold (collect_column j) (mk_symbols (be_symbol_size be) xs) (map (\<lambda>r. mrow be (f r)) rs) =
    Inr (mk_symbols (be_symbol_size be) (xs @ map (\<lambda>r. f r j) rs))"
  using rows
proof (induction rs arbitrary: xs)
  case (Cons r rs)
  have "symbols_at (mrow be (f r)) j = Inr (f r j)" by (rule symbols_at_mrow [OF _ j ok]) (simp add: Cons.prems)
  moreover have "symbols_extend (mk_symbols (be_symbol_size be) xs) (f r j) = Inr (mk_symbols (be_symbol_size be) (xs @ [f r j]))"
    using symbols_extend_mk [of "be_symbol_size be" "[f r j]" xs] Cons.prems [of r j] j by simp
  ultimately show ?case using Cons by (simp add: collect_column_def)
qed simp

lemma set_cell_step:
  assumes ok: "be_ok L be" and j: "j < n_of be" and i: "be_n_rows be + i < n_of be"
  shows "set_cell (be_n_rows be) j (matrix_at L be j i) (i, cell L be (be_n_rows be + i) j) = Inr (matrix_at L be j (Suc i))"
proof -
  let ?r = "be_n_rows be + i"
  let ?f = "\<lambda>i r c. if r < be_n_rows be \<or> c < j \<or> c = j \<and> r < be_n_rows be + i then cell L be r c else zero_symbol be"
  have "symbols_set (mrow be (?f i ?r)) j (cell L be ?r j) = Inr (mrow be ((?f i ?r)(j := cell L be ?r j)))"
    by (rule symbols_set_mrow [OF _ j _ ok]) (use ok i j in simp_all)
  moreover have "mrow be ((?f i ?r)(j := cell L be ?r j)) = mrow be (?f (Suc i) ?r)" by (rule mrow_cong) auto
  moreover have "(matrix_at L be j i)[?r := mrow be (?f (Suc i) ?r)] = matrix_at L be j (Suc i)"
  proof (rule nth_equalityI)
    fix p assume "p < length ((matrix_at L be j i)[?r := mrow be (?f (Suc i) ?r)])"
    then have p: "p < n_of be" by simp
    show "(matrix_at L be j i)[?r := mrow be (?f (Suc i) ?r)] ! p = matrix_at L be j (Suc i) ! p"
    proof (cases "p = ?r")
      case True
      then show ?thesis using p by (simp add: matrix_at_nth)
    next
      case False
      then show ?thesis using p unfolding matrix_at_nth [OF p] nth_list_update_neq [OF False [symmetric]]
        by (intro mrow_cong) auto
    qed
  qed simp
  ultimately show ?thesis unfolding set_cell_def prod.case matrix_at_nth [OF i] using i by simp
qed

lemma matrix_at_next: "be_n_rows be \<le> n_of be \<Longrightarrow> matrix_at L be j (n_of be - be_n_rows be) = matrix_at L be (Suc j) 0"
  by (rule nth_equalityI) (auto simp: matrix_at_nth less_Suc_eq intro!: mrow_cong)

lemma expand_column_step:
  assumes ok: "be_ok L be" and j: "j < n_of be"
  shows "expand_column L (be_config be) (be_n_rows be) (be_symbol_size be) (matrix_at L be j 0) j = Inr (matrix_at L be (Suc j) 0)"
proof -
  let ?s = "be_symbol_size be" let ?nr = "be_n_rows be" let ?n = "n_of be"
  let ?par = "drop ?nr (col_code L be j)" let ?col = "map (\<lambda>r. cell L be r j) [0..<?nr]"
  have nr: "?nr \<le> ?n" using be_okD(1) [OF ok] .
  have "take ?nr (matrix_at L be j 0) = map (\<lambda>r. mrow be (cell L be r)) [0..<?nr]"
    using nr by (intro nth_equalityI) (auto simp: matrix_at_nth)
  then have coll: "try_fold (collect_column j) (symbols_with_capacity ?nr ?s) (take ?nr (matrix_at L be j 0)) = Inr (mk_symbols ?s ?col)"
    using column_collected [OF ok j, of "[0..<?nr]" "cell L be" "[]"] ok nr
    by (simp add: symbols_with_capacity_mk)
  have sup: "rs_encodable L (n_source_symbols (be_config be) Primary) ?n ?s" using be_okD(7,9) [OF ok] by simp
  have cs: "sized ?s ?col" using ok j nr by (simp add: sized_map)
  then have enc: "config_encode_all_repair_symbols L (be_config be) Primary (concat ?col) = Inr (mk_symbols ?s ?par)"
    using config_repair_ok [OF sup, of ?col] be_okD(9) [OF ok] col_code_cells [OF ok j] by (simp add: codeword_def)
  have par: "length ?par = ?n - ?nr" "sized ?s ?par" using col_code_props(1,2) [OF ok j] by simp_all
  have "\<exists>m'. try_fold (set_cell ?nr j) (matrix_at L be j 0) (enumerate 0 ?par) = Inr m' \<and> m' = matrix_at L be j (length ?par)"
  proof (rule try_fold_enumerate [where I = "\<lambda>i m. m = matrix_at L be j i", OF refl])
    fix i m assume "i < length ?par" and m: "m = matrix_at L be j i"
    then have i: "?nr + i < ?n" using par(1) by simp
    have "?par ! i = cell L be (?nr + i) j" using i col_code_props(1) [OF ok j] by (simp add: cell_def)
    then show "\<exists>m'. set_cell ?nr j m (i, ?par ! i) = Inr m' \<and> m' = matrix_at L be j (Suc i)"
      using set_cell_step [OF ok j i] by (simp only: m) blast
  qed
  then have loop: "try_fold (set_cell ?nr j) (matrix_at L be j 0) (enumerate 0 ?par) = Inr (matrix_at L be (Suc j) 0)"
    unfolding par(1) matrix_at_next [OF nr] by blast
  have "to_symbols (mk_symbols ?s ?par) = ?par" using par(2) be_okD(3) [OF ok] by simp
  then show ?thesis unfolding expand_column_def coll and_then_simps mk_symbols_sel enc or_panic_simps using loop by (simp only:)
qed

lemma matrix_done: "matrix_at L be (n_of be) 0 = map (\<lambda>r. mrow be (cell L be r)) [0..<n_of be]"
  unfolding matrix_at_def by (intro map_cong refl mrow_cong) simp

lemma get_expanded_matrix_ok:
  assumes ok: "be_ok L be"
  shows "get_expanded_matrix L be = Inr (map (\<lambda>r. mrow be (cell L be r)) [0..<n_of be])"
proof -
  have "\<exists>m. try_fold (expand_column L (be_config be) (be_n_rows be) (be_symbol_size be)) (matrix_at L be 0 0) [0..<n_of be] = Inr m \<and>
      m = matrix_at L be (n_of be) 0"
    by (rule try_fold_upt [where I = "\<lambda>j m. m = matrix_at L be j 0", OF refl]) (simp add: expand_column_step [OF ok])
  then have "try_fold (expand_column L (be_config be) (be_n_rows be) (be_symbol_size be)) (matrix_at L be 0 0) [0..<n_of be] =
      Inr (map (\<lambda>r. mrow be (cell L be r)) [0..<n_of be])" by (simp add: matrix_done)
  then show ?thesis unfolding get_expanded_matrix_def Let_def be_okD(9,10) [OF ok] matrix_filled [OF ok] and_then_simps
    rows_expanded [OF ok] .
qed

section \<open>Metadata and slivers from the matrix\<close>

lemma get_metadata_ok:
  assumes ok: "be_ok L be"
  shows "get_metadata H be (map (\<lambda>r. mrow be (cell L be r)) [0..<n_of be]) = Inr (expanded_metadata H L be)"
proof -
  let ?n = "n_of be" let ?m = "map (\<lambda>r. mrow be (cell L be r)) [0..<n_of be]"
  let ?f = "\<lambda>(row, col). if row < length ?m then and_then (or_panic (symbols_at (?m ! row) col)) (\<lambda>b. Inr (leaf_hash H b))
    else Inl Panic"
  have at: "?f (r, c) = Inr (leaf_hash H (cell L be r c))" if "r < ?n" "c < ?n" for r c
    using symbols_at_mrow [of be "cell L be r" c] that ok by (simp add: nth_map_upt0)
  have "try_map ?f (List.product [0..<?n] [0..<?n]) =
      Inr (map (\<lambda>(r, c). leaf_hash H (cell L be r c)) (List.product [0..<?n] [0..<?n]))"
    by (rule try_map_total) (use at in auto)
  moreover have "map (\<lambda>(r, c). leaf_hash H (cell L be r c)) (List.product [0..<?n] [0..<?n]) = hash_table H L be ?n 0"
  proof (rule nth_equalityI)
    fix p assume "p < length (map (\<lambda>(r, c). leaf_hash H (cell L be r c)) (List.product [0..<?n] [0..<?n]))"
    then have p: "p < ?n * ?n" by (simp add: length_product)
    then have "p div ?n < ?n" "p mod ?n < ?n" using be_okD(6) [OF ok] by (simp_all add: less_mult_imp_div_less)
    then show "map (\<lambda>(r, c). leaf_hash H (cell L be r c)) (List.product [0..<?n] [0..<?n]) ! p = hash_table H L be ?n 0 ! p"
      using p product_nth [of p "[0..<?n]" "[0..<?n]"] by (simp add: hash_table_def length_product)
  qed (simp add: hash_table_def length_product)
  ultimately show ?thesis unfolding get_metadata_def Let_def
    using metadata_of_table [OF be_okD(6) [OF ok], of H L] by (simp only: and_then_simps)
qed

text \<open>Only as many elements are read as there are places to write.\<close>

lemma try_update_zip_take: "try_update_zip f (take (length ys) xs) ys = try_update_zip f xs ys"
  by (induction f xs ys rule: try_update_zip.induct) simp_all

definition trimmed_row :: "rs_lib \<Rightarrow> blob_encoder \<Rightarrow> nat \<Rightarrow> symbols" where
  "trimmed_row L be r = (if r < be_n_rows be then mrow be (cell L be r) else sl_symbols (primary_sliver L be r))"

lemma truncate_mrow:
  assumes ok: "be_ok L be" and r: "r < n_of be"
  shows "symbols_truncate (mrow be (cell L be r)) (be_n_columns be) = sl_symbols (primary_sliver L be r)"
proof -
  have "sized (be_symbol_size be) (map (cell L be r) [0..<n_of be])" using ok r by simp
  moreover have "take (be_n_columns be) (map (cell L be r) [0..<n_of be]) = map (cell L be r) [0..<be_n_columns be]"
    using be_okD(2) [OF ok] by (simp add: take_map)
  ultimately show ?thesis unfolding mrow_def using be_usize(2) [OF ok] by (simp only: symbols_truncate_mk primary_sliver_def sliver_data.simps)
qed

lemma truncate_primary:
  assumes ok: "be_ok L be" and r: "r < n_of be"
  shows "symbols_truncate (sl_symbols (primary_sliver L be r)) (be_n_columns be) = sl_symbols (primary_sliver L be r)"
proof -
  have "sized (be_symbol_size be) (map (cell L be r) [0..<be_n_columns be])" using ok r be_okD(2) [OF ok] by (simp add: sized_map)
  then show ?thesis using be_usize(2) [OF ok] by (simp add: primary_sliver_def)
qed

lemma matrix_trimmed:
  assumes ok: "be_ok L be"
  shows "drop_recovery_symbols be (map (\<lambda>r. mrow be (cell L be r)) [0..<n_of be]) = map (trimmed_row L be) [0..<n_of be]"
proof (rule nth_equalityI)
  fix r assume "r < length (drop_recovery_symbols be (map (\<lambda>r. mrow be (cell L be r)) [0..<n_of be]))"
  then have r: "r < n_of be" using be_okD(1) [OF ok] by (simp add: drop_recovery_symbols_def)
  show "drop_recovery_symbols be (map (\<lambda>r. mrow be (cell L be r)) [0..<n_of be]) ! r = map (trimmed_row L be) [0..<n_of be] ! r"
    using r be_okD(1) [OF ok] truncate_mrow [OF ok r]
    by (auto simp: drop_recovery_symbols_def nth_append trimmed_row_def nth_map_upt)
qed (use be_okD(1) [OF ok] in \<open>simp add: drop_recovery_symbols_def\<close>)

abbreviation fresh_pair :: "blob_encoder \<Rightarrow> nat \<Rightarrow> sliver_pair" where
  "fresh_pair be i \<equiv> \<lparr> pair_primary = sliver_new_empty (be_n_columns be) (be_symbol_size be) i,
     pair_secondary = sliver_new_empty (be_n_rows be) (be_symbol_size be) (n_of be - 1 - i) \<rparr>"

lemma empty_sliver_pairs_ok:
  assumes ok: "be_ok L be"
  shows "empty_sliver_pairs be = Inr (map (fresh_pair be) [0..<n_of be])"
  unfolding empty_sliver_pairs_def
  by (rule try_map_total)
    (use be_okD(9,10) [OF ok] in \<open>auto simp: sliver_pair_new_empty_def to_sliver_index_def n_source_symbols_def is_primary_def\<close>)

lemma secondary_written:
  assumes ok: "be_ok L be" and i: "i < n_of be"
  shows "write_secondary_sliver (be_config be) (map (trimmed_row L be) [0..<n_of be]) (i, m) (fresh_pair be i) =
    Inr ((fresh_pair be i)\<lparr> pair_secondary := secondary_sliver L be (n_of be - 1 - i) \<rparr>)"
proof -
  let ?nr = "be_n_rows be" let ?s = "be_symbol_size be" let ?j = "n_of be - 1 - i"
  let ?f = "\<lambda>row dest. and_then (ok_or Panic (to_sliver_index Secondary i (n_of be))) (\<lambda>j.
    and_then (or_panic (symbols_at row j)) (\<lambda>b. and_then (ensure (length b = length dest) Panic) (\<lambda>_. Inr b)))"
  have j: "?j < n_of be" and tj: "to_sliver_index Secondary i (n_of be) = Some ?j"
    using i by (simp_all add: to_sliver_index_def is_primary_def)
  have dest: "to_symbols (symbols_zeros ?nr ?s) = replicate ?nr (replicate ?s 0)"
    using be_okD(3) [OF ok] be_usize(1) [OF ok] by (simp add: symbols_zeros_mk)
  have "try_update_zip ?f (map (trimmed_row L be) [0..<?nr]) (replicate ?nr (replicate ?s 0)) = Inr (map (\<lambda>r. cell L be r ?j) [0..<?nr])"
  proof (rule try_update_zip_eq)
    fix r assume "r < length (replicate ?nr (replicate ?s (0 :: byte)))"
    then have r: "r < ?nr" by simp
    then have rn: "r < n_of be" using be_okD(1) [OF ok] by simp
    have "symbols_at (mrow be (cell L be r)) ?j = Inr (cell L be r ?j)" using ok rn j by (intro symbols_at_mrow) simp_all
    then show "?f (map (trimmed_row L be) [0..<?nr] ! r) (replicate ?nr (replicate ?s 0) ! r) = Inr (map (\<lambda>r. cell L be r ?j) [0..<?nr] ! r)"
      using r rn j ok by (simp add: nth_map_upt0 trimmed_row_def tj)
  qed simp_all
  moreover have "take (length (replicate ?nr (replicate ?s (0 :: byte)))) (map (trimmed_row L be) [0..<n_of be]) =
      map (trimmed_row L be) [0..<?nr]" using be_okD(1) [OF ok] by (simp add: take_map)
  ultimately have "try_update_zip ?f (map (trimmed_row L be) [0..<n_of be]) (replicate ?nr (replicate ?s 0)) =
      Inr (map (\<lambda>r. cell L be r ?j) [0..<?nr])"
    using try_update_zip_take [of ?f "replicate ?nr (replicate ?s 0)" "map (trimmed_row L be) [0..<n_of be]"] by simp
  then show ?thesis
    by (simp add: write_secondary_sliver_def sliver_new_empty_def dest secondary_sliver_def)
      (use be_usize(1) [OF ok] in \<open>simp add: symbols_zeros_def mk_symbols_def\<close>)
qed

lemma encode_with_metadata_legacy_ok:
  assumes ok: "be_ok L be"
  shows "encode_with_metadata_legacy H L be = Inr (encoded_pairs L be, expanded_metadata H L be)"
proof -
  let ?n = "n_of be" let ?m = "map (trimmed_row L be) [0..<n_of be]"
  let ?p1 = "map (\<lambda>i. (fresh_pair be i)\<lparr> pair_secondary := secondary_sliver L be (?n - 1 - i) \<rparr>) [0..<?n]"
  have s1: "write_secondary_slivers (be_config be) ?m (map (fresh_pair be) [0..<?n]) = Inr ?p1"
    unfolding write_secondary_slivers_def
    by (rule try_update_zip_eq) (use secondary_written [OF ok] in \<open>simp_all add: nth_map_upt0\<close>)
  have s2: "write_primary_slivers (be_config be) ?m ?p1 = Inr (encoded_pairs L be)"
    unfolding write_primary_slivers_def encoded_pairs_def
  proof (rule try_update_zip_eq)
    fix i assume "i < length ?p1"
    then have i: "i < ?n" by simp
    have "symbols_truncate (trimmed_row L be i) (be_n_columns be) = sl_symbols (primary_sliver L be i)"
      using truncate_mrow [OF ok i] truncate_primary [OF ok i] by (simp add: trimmed_row_def)
    moreover have "sl_index (primary_sliver L be i) = i" by (simp add: primary_sliver_def)
    ultimately show "Inr ((?p1 ! i)\<lparr> pair_primary := (pair_primary (?p1 ! i))\<lparr> sl_symbols :=
        symbols_truncate (?m ! i) (n_source_symbols (be_config be) Secondary) \<rparr> \<rparr>) =
      Inr (map (\<lambda>i. \<lparr> pair_primary = primary_sliver L be i, pair_secondary = secondary_sliver L be (?n - 1 - i) \<rparr>) [0..<?n] ! i)"
      using i be_okD(10) [OF ok] by (simp add: nth_map_upt0 sliver_new_empty_def)
  qed simp_all
  show ?thesis unfolding encode_with_metadata_legacy_def get_expanded_matrix_ok [OF ok] get_metadata_ok [OF ok]
      and_then_simps Let_def matrix_trimmed [OF ok] empty_sliver_pairs_ok [OF ok] s1 s2 ..
qed

end
