(* ===== verification/Blob_Decoding.thy ===== *)
theory Blob_Decoding
  imports Blob_Correct
begin

text \<open>
  Decoding blobs: the \<^verbatim>\<open>BlobDecoder\<close> and the consistency checks of \<^verbatim>\<open>encoding/blob_encoding.rs\<close>, and
  the operations of \<^verbatim>\<open>EncodingFactory\<close> in \<^verbatim>\<open>encoding/config.rs\<close> that encode, decode and verify blobs.

  The decoder collects \<open>n_source\<close> distinct slivers of one axis in a workspace that is laid out
  like the message matrix, decodes every orthogonal line of it and overwrites the line with the
  decoded symbols. The axis type parameter is the argument \<open>e\<close>.
\<close>

section \<open>The decoder\<close>

record blob_decoder =
  bd_decoder :: rs_decoder
  bd_blob_size :: nat
  bd_symbol_size :: nat
  bd_sliver_count :: nat
  bd_sliver_length :: nat
  bd_n_columns :: nat
  bd_workspace :: symbols
  bd_sliver_indices :: "nat list"

definition blob_decoder_new :: "rs_lib \<Rightarrow> rs_config \<Rightarrow> axis \<Rightarrow> nat \<Rightarrow> (blob_decoder, decode_error) result" where
  "blob_decoder_new L c e blob_size =
     and_then (map_err decode_error_of (symbol_size_for_blob c blob_size)) (\<lambda>sz.
     and_then (rs_decoder_new L (n_source_symbols c e) (rs_n_shards c) sz) (\<lambda>d.
     let len = n_source_symbols c (orthogonal e); cnt = n_source_symbols c e in
     Inr \<lparr> bd_decoder = d, bd_blob_size = blob_size, bd_symbol_size = sz, bd_sliver_count = cnt,
           bd_sliver_length = len, bd_n_columns = (if is_primary e then len else cnt),
           bd_workspace = (if is_primary e then symbols_with_capacity (len * cnt) sz else symbols_zeros (len * cnt) sz),
           bd_sliver_indices = [] \<rparr>))"

definition write_primary_sliver_to_workspace :: "blob_decoder \<Rightarrow> symbols \<Rightarrow> (blob_decoder, decode_error) result" where
  "write_primary_sliver_to_workspace bd x =
     and_then (map_err (\<lambda>_. DecodePanicked) (symbols_extend (bd_workspace bd) (sym_data x))) (\<lambda>w.
     Inr (bd\<lparr> bd_workspace := w \<rparr>))"

definition write_secondary_sliver_to_workspace ::
  "blob_decoder \<Rightarrow> symbols \<Rightarrow> nat \<Rightarrow> (blob_decoder, decode_error) result" where
  "write_secondary_sliver_to_workspace bd x column =
     and_then (try_fold (\<lambda>w (row, symbol). map_err (\<lambda>_. DecodePanicked) (symbols_set w (row * bd_n_columns bd + column) symbol))
       (bd_workspace bd) (enumerate 0 (to_symbols x))) (\<lambda>w.
     Inr (bd\<lparr> bd_workspace := w \<rparr>))"

text \<open>
  The loop over the slivers. Besides the decoder and the number of slivers written it returns the
  indices of the slivers it took from the iterator: \<^verbatim>\<open>decode_and_verify\<close> observes them through
  \<^verbatim>\<open>inspect\<close>, before the loop decides whether to use, drop or stop at the sliver.
\<close>

fun write_slivers ::
  "axis \<Rightarrow> blob_decoder \<Rightarrow> nat \<Rightarrow> nat list \<Rightarrow> sliver_data list \<Rightarrow> (blob_decoder \<times> nat, decode_error) result \<times> nat list" where
  "write_slivers e bd cnt seen [] = (Inr (bd, cnt), [])"
| "write_slivers e bd cnt seen (sl # sls) =
     (if cnt = bd_sliver_count bd then (Inr (bd, cnt), [sl_index sl])
      else if sl_index sl \<in> set seen then
        (case write_slivers e bd cnt seen sls of (r, taken) \<Rightarrow> (r, sl_index sl # taken))
      else if symbols_len (sl_symbols sl) \<noteq> bd_sliver_length bd \<or> symbol_size (sl_symbols sl) \<noteq> bd_symbol_size bd then
        (case write_slivers e bd cnt seen sls of (r, taken) \<Rightarrow> (r, sl_index sl # taken))
      else
        (case (if is_primary e then write_primary_sliver_to_workspace bd (sl_symbols sl)
               else write_secondary_sliver_to_workspace bd (sl_symbols sl) cnt) of
           Inl err \<Rightarrow> (Inl err, [sl_index sl])
         | Inr bd' \<Rightarrow>
           (case write_slivers e (bd'\<lparr> bd_sliver_indices := bd_sliver_indices bd' @ [sl_index sl] \<rparr>) (cnt + 1)
                  (sl_index sl # seen) sls of (r, taken) \<Rightarrow> (r, sl_index sl # taken))))"

definition check_and_write_slivers_to_workspace ::
  "axis \<Rightarrow> blob_decoder \<Rightarrow> sliver_data list \<Rightarrow> (blob_decoder, decode_error) result \<times> nat list" where
  "check_and_write_slivers_to_workspace e bd slivers =
     (case write_slivers e bd 0 [] slivers of (r, taken) \<Rightarrow>
        (and_then r (\<lambda>(bd', cnt).
         and_then (ensure (cnt = bd_sliver_count bd') DecodingUnsuccessful) (\<lambda>_. Inr bd')), taken))"

definition decode_line :: "rs_lib \<Rightarrow> axis \<Rightarrow> blob_decoder \<Rightarrow> nat \<Rightarrow> (blob_decoder, decode_error) result" where
  "decode_line L e bd j =
     (let cols = bd_n_columns bd in
      and_then (try_map (\<lambda>(t, i).
          and_then (map_err (\<lambda>_. DecodePanicked)
            (symbols_at (bd_workspace bd) (if is_primary e then t * cols + j else j * cols + t))) (\<lambda>b.
          Inr \<lparr> ds_index = i, ds_data = b \<rparr>)) (enumerate 0 (bd_sliver_indices bd))) (\<lambda>ds.
      case decoder_decode L (bd_decoder bd) ds of (r, d') \<Rightarrow>
      and_then r (\<lambda>data.
      and_then (if is_primary e then
          try_fold (\<lambda>w (row, symbol). map_err (\<lambda>_. DecodePanicked) (symbols_set w (cols * row + j) symbol))
            (bd_workspace bd) (enumerate 0 (chunks (bd_symbol_size bd) data))
        else map_err (\<lambda>_. DecodePanicked) (symbols_write (bd_workspace bd) (cols * j) (cols * (j + 1)) data)) (\<lambda>w.
      Inr (bd\<lparr> bd_decoder := d', bd_workspace := w \<rparr>)))))"

definition perform_decoding :: "rs_lib \<Rightarrow> axis \<Rightarrow> blob_decoder \<Rightarrow> (blob_decoder, decode_error) result" where
  "perform_decoding L e bd = try_fold (decode_line L e) bd [0..<bd_sliver_length bd]"

definition blob_decoder_decode ::
  "rs_lib \<Rightarrow> axis \<Rightarrow> blob_decoder \<Rightarrow> sliver_data list \<Rightarrow> (bytes, decode_error) result \<times> nat list" where
  "blob_decoder_decode L e bd slivers =
     (case check_and_write_slivers_to_workspace e bd slivers of (r, taken) \<Rightarrow>
        (and_then r (\<lambda>bd.
         and_then (perform_decoding L e bd) (\<lambda>bd.
         Inr (take (bd_blob_size bd) (sym_data (bd_workspace bd))))), taken))"

section \<open>Consistency checks\<close>

definition systematic_primary_sliver :: "blob_encoder \<Rightarrow> nat \<Rightarrow> (sliver_data, encoding_error) result" where
  "systematic_primary_sliver be i =
     (if i < length (rows be) then fill_row (rows be ! i) (empty_sliver be Primary i) else Inr (empty_sliver be Primary i))"

definition default_consistency_check ::
  "(bytes \<Rightarrow> bytes) \<Rightarrow> rs_lib \<Rightarrow> blob_encoder \<Rightarrow> blob_metadata \<Rightarrow> bool list option \<Rightarrow> (unit, decode_error) result" where
  "default_consistency_check H L be md verified =
     (let n = n_source_symbols (be_config be) Primary in
      and_then (ensure (case verified of None \<Rightarrow> True | Some v \<Rightarrow> length v = n) DecodePanicked) (\<lambda>_.
      try_all (\<lambda>i.
        if (case verified of None \<Rightarrow> False | Some v \<Rightarrow> v ! i) then Inr ()
        else and_then (map_err decode_error_of (systematic_primary_sliver be i)) (\<lambda>sl.
             map_err (\<lambda>err. if err = SliverPanic then DecodePanicked else DecodeVerificationError)
               (check_hash H L (be_config be) Primary sl md))) [0..<n]))"

section \<open>Operations of the configuration\<close>

datatype consistency_check_type = Skip | Default | Strict

definition config_encode_with_metadata ::
  "(bytes \<Rightarrow> bytes) \<Rightarrow> rs_lib \<Rightarrow> rs_config \<Rightarrow> bytes \<Rightarrow> (sliver_pair list \<times> blob_metadata_with_id, encoding_error) result" where
  "config_encode_with_metadata H L c blob = and_then (blob_encoder_new c blob) (encode_with_metadata H L)"

definition config_compute_metadata ::
  "(bytes \<Rightarrow> bytes) \<Rightarrow> rs_lib \<Rightarrow> rs_config \<Rightarrow> bytes \<Rightarrow> (blob_metadata_with_id, encoding_error) result" where
  "config_compute_metadata H L c blob = and_then (blob_encoder_new c blob) (be_compute_metadata H L)"

definition config_compute_metadata_with_symbol_hashes ::
  "(bytes \<Rightarrow> bytes) \<Rightarrow> rs_lib \<Rightarrow> rs_config \<Rightarrow> bytes \<Rightarrow> (blob_metadata_with_id \<times> node list, encoding_error) result" where
  "config_compute_metadata_with_symbol_hashes H L c blob =
     and_then (blob_encoder_new c blob) (compute_metadata_with_symbol_hashes H L)"

definition config_compute_blob_id ::
  "(bytes \<Rightarrow> bytes) \<Rightarrow> rs_lib \<Rightarrow> rs_config \<Rightarrow> bytes \<Rightarrow> (bytes, encoding_error) result" where
  "config_compute_blob_id H L c blob = and_then (config_compute_metadata H L c blob) (\<lambda>md. Inr (blob_id md))"

definition config_decode ::
  "rs_lib \<Rightarrow> rs_config \<Rightarrow> axis \<Rightarrow> nat \<Rightarrow> sliver_data list \<Rightarrow> (bytes, decode_error) result \<times> nat list" where
  "config_decode L c e blob_size slivers =
     (case blob_decoder_new L c e blob_size of
        Inl err \<Rightarrow> (Inl err, [])
      | Inr bd \<Rightarrow> blob_decoder_decode L e bd slivers)"

definition strict_consistency_check ::
  "(bytes \<Rightarrow> bytes) \<Rightarrow> rs_lib \<Rightarrow> rs_config \<Rightarrow> bytes \<Rightarrow> bytes \<Rightarrow> (unit, decode_error) result" where
  "strict_consistency_check H L c bid blob =
     and_then (map_err decode_error_of (config_compute_metadata H L c blob)) (\<lambda>md.
     ensure (blob_id md = bid) DecodeVerificationError)"

definition decode_and_verify ::
  "(bytes \<Rightarrow> bytes) \<Rightarrow> rs_lib \<Rightarrow> rs_config \<Rightarrow> axis \<Rightarrow> blob_metadata_with_id \<Rightarrow> sliver_data list \<Rightarrow>
   consistency_check_type \<Rightarrow> (bytes, decode_error) result" where
  "decode_and_verify H L c e md slivers check =
     (case config_decode L c e (unencoded_length (metadata md)) slivers of (r, taken) \<Rightarrow>
      let verified = (if is_primary e \<and> check = Default
            then Some (map (\<lambda>i. i \<in> set taken) [0..<n_source_symbols c e]) else None) in
      and_then r (\<lambda>blob.
      and_then (case check of
          Skip \<Rightarrow> Inr ()
        | Default \<Rightarrow> and_then (map_err decode_error_of (blob_encoder_new c blob)) (\<lambda>be.
            default_consistency_check H L be (metadata md) verified)
        | Strict \<Rightarrow> strict_consistency_check H L c (blob_id md) blob) (\<lambda>_.
      Inr blob)))"

section \<open>Collecting the slivers\<close>

text \<open>The slivers the loop uses: the first \<open>k\<close> distinct indices.\<close>

fun pick :: "nat \<Rightarrow> nat list \<Rightarrow> nat list \<Rightarrow> nat list" where
  "pick 0 seen is = []"
| "pick (Suc k) seen [] = []"
| "pick (Suc k) seen (i # is) = (if i \<in> set seen then pick (Suc k) seen is else i # pick k (i # seen) is)"

lemma pick_subset: "set (pick k seen is) \<subseteq> set is - set seen"
  by (induction k seen "is" rule: pick.induct) auto

lemma pick_distinct: "distinct (pick k seen is)"
proof (induction k seen "is" rule: pick.induct)
  case (3 k seen i "is")
  then show ?case using pick_subset [of k "i # seen" "is"] by auto
qed simp_all

lemma pick_length: "k \<le> card (set is - set seen) \<Longrightarrow> length (pick k seen is) = k"
proof (induction k seen "is" rule: pick.induct)
  case (3 k seen i "is")
  show ?case
  proof (cases "i \<in> set seen")
    case True
    then have "set (i # is) - set seen = set is - set seen" by auto
    then show ?thesis using True 3 by simp
  next
    case False
    then have "set (i # is) - set seen = insert i (set is - set (i # seen))" by auto
    moreover have "i \<notin> set is - set (i # seen)" by simp
    ultimately have "card (set (i # is) - set seen) = Suc (card (set is - set (i # seen)))"
      by (metis List.finite_set card_insert_disjoint finite_Diff)
    then show ?thesis using False 3 by simp
  qed
qed simp_all

definition enc_sliver :: "axis \<Rightarrow> rs_lib \<Rightarrow> blob_encoder \<Rightarrow> nat \<Rightarrow> sliver_data" where
  "enc_sliver e L be i = (if is_primary e then primary_sliver L be i else secondary_sliver L be i)"

text \<open>A decoder for the encoded blob that has collected the slivers \<open>ps\<close>.\<close>

definition bd_at :: "axis \<Rightarrow> rs_lib \<Rightarrow> blob_encoder \<Rightarrow> rs_decoder \<Rightarrow> nat list \<Rightarrow> bytes list \<Rightarrow> blob_decoder" where
  "bd_at e L be d ps w = \<lparr> bd_decoder = d, bd_blob_size = length (be_blob be), bd_symbol_size = be_symbol_size be,
     bd_sliver_count = n_source_symbols (be_config be) e, bd_sliver_length = n_source_symbols (be_config be) (orthogonal e),
     bd_n_columns = be_n_columns be, bd_workspace = mk_symbols (be_symbol_size be) w, bd_sliver_indices = ps \<rparr>"

lemma bd_at_simps [simp]:
  "bd_decoder (bd_at e L be d ps w) = d" "bd_blob_size (bd_at e L be d ps w) = length (be_blob be)"
  "bd_symbol_size (bd_at e L be d ps w) = be_symbol_size be"
  "bd_sliver_count (bd_at e L be d ps w) = n_source_symbols (be_config be) e"
  "bd_sliver_length (bd_at e L be d ps w) = n_source_symbols (be_config be) (orthogonal e)"
  "bd_n_columns (bd_at e L be d ps w) = be_n_columns be"
  "bd_workspace (bd_at e L be d ps w) = mk_symbols (be_symbol_size be) w" "bd_sliver_indices (bd_at e L be d ps w) = ps"
  "bd_at e L be d ps w\<lparr> bd_workspace := mk_symbols (be_symbol_size be) w' \<rparr> = bd_at e L be d ps w'"
  "bd_at e L be d ps w\<lparr> bd_sliver_indices := ps' \<rparr> = bd_at e L be d ps' w"
  "bd_at e L be d ps w\<lparr> bd_decoder := d' \<rparr> = bd_at e L be d' ps w"
  by (simp_all add: bd_at_def)

lemma nth_bounded: "set qs \<subseteq> {..<n} \<Longrightarrow> c < length qs \<Longrightarrow> qs ! c < (n :: nat)"
  by (meson lessThan_iff nth_mem subsetD)

lemma grid_pos: "c < nc \<Longrightarrow> p = r * nc + c \<longleftrightarrow> p mod nc = c \<and> p div nc = (r :: nat)"
  using div_mult_mod_eq [of p nc] by auto

lemma grid_bound: "r < nr \<Longrightarrow> c < nc \<Longrightarrow> r * nc + c < nr * (nc :: nat)"
  using cell_bound [of r nr c nc 1] by (simp add: mult.commute)

lemma grid_div_mod: "p < nr * nc \<Longrightarrow> p div nc < nr \<and> p mod nc < (nc :: nat)"
  by (cases "nc = 0") (simp_all add: less_mult_imp_div_less)

text \<open>A matrix as a list, row by row.\<close>

definition grid :: "nat \<Rightarrow> nat \<Rightarrow> (nat \<Rightarrow> nat \<Rightarrow> 'a) \<Rightarrow> 'a list" where
  "grid nr nc f = map (\<lambda>p. f (p div nc) (p mod nc)) [0..<nr * nc]"

lemma length_grid [simp]: "length (grid nr nc f) = nr * nc"
  by (simp add: grid_def)

lemma grid_nth_pos: "p < nr * nc \<Longrightarrow> grid nr nc f ! p = f (p div nc) (p mod nc)"
  by (simp add: grid_def)

lemma grid_nth: "r < nr \<Longrightarrow> c < nc \<Longrightarrow> grid nr nc f ! (r * nc + c) = f r c"
  using grid_bound [of r nr c nc] by (simp add: grid_def)

lemma grid_update:
  assumes "r < nr" and "c < nc"
  shows "(grid nr nc g)[r * nc + c := v] = grid nr nc (\<lambda>r' c'. if r' = r \<and> c' = c then v else g r' c')"
  using assms grid_bound [OF assms] grid_pos [OF assms(2), of _ r]
  by (intro nth_equalityI) (auto simp: nth_list_update grid_nth_pos)

lemma grid_cong: "(\<And>r c. r < nr \<Longrightarrow> c < nc \<Longrightarrow> f r c = g r c) \<Longrightarrow> grid nr nc f = grid nr nc g"
  using grid_div_mod [of _ nr nc] by (intro nth_equalityI) (auto simp: grid_nth_pos)

lemma grid_sized: "(\<And>r c. r < nr \<Longrightarrow> c < nc \<Longrightarrow> length (f r c) = s) \<Longrightarrow> sized s (grid nr nc f)"
  using grid_div_mod [of _ nr nc] by (auto simp: grid_def sized_map)

lemma concat_rows_grid: "concat (map (\<lambda>i. map (f i) [0..<nc]) ps) = grid (length ps) nc (\<lambda>r. f (ps ! r))"
proof (induction ps rule: rev_induct)
  case (snoc i ps)
  let ?f = "\<lambda>qs p. f (qs ! (p div nc)) (p mod nc)"
  have "[0..<length (ps @ [i]) * nc] = [0..<length ps * nc] @ [length ps * nc..<length ps * nc + nc]"
    using upt_add_eq_append [of 0 "length ps * nc" nc] by (simp add: add.commute)
  moreover have "map (?f (ps @ [i])) [0..<length ps * nc] = map (?f ps) [0..<length ps * nc]"
    using grid_div_mod [of _ "length ps" nc] by (intro map_cong) (auto simp: nth_append)
  moreover have "map (?f (ps @ [i])) [length ps * nc..<length ps * nc + nc] = map (f i) [0..<nc]"
    by (rule nth_equalityI) (simp_all add: nth_append)
  ultimately show ?case using snoc by (simp add: grid_def)
qed (simp add: grid_def)

section \<open>Writing slivers\<close>

text \<open>The workspace after the slivers \<open>ps\<close> were written.\<close>

definition collected :: "axis \<Rightarrow> rs_lib \<Rightarrow> blob_encoder \<Rightarrow> nat list \<Rightarrow> bytes list" where
  "collected e L be ps =
     (if is_primary e then concat (map (\<lambda>i. map (cell L be i) [0..<be_n_columns be]) ps)
      else grid (be_n_rows be) (be_n_columns be) (\<lambda>r c.
        if c < length ps then cell L be r (ps ! c) else replicate (be_symbol_size be) 0))"

lemma enc_sliver_shape:
  assumes ok: "be_ok L be" and i: "i < n_of be"
  shows "sl_index (enc_sliver e L be i) = i"
    and "symbols_len (sl_symbols (enc_sliver e L be i)) = n_source_symbols (be_config be) (orthogonal e)"
    and "symbol_size (sl_symbols (enc_sliver e L be i)) = be_symbol_size be"
proof -
  have "sized (be_symbol_size be) (map (cell L be i) [0..<be_n_columns be])"
    "sized (be_symbol_size be) (map (\<lambda>r. cell L be r i) [0..<be_n_rows be])"
    using ok i be_okD(1,2) [OF ok] by (simp_all add: sized_map)
  then show "sl_index (enc_sliver e L be i) = i"
    "symbols_len (sl_symbols (enc_sliver e L be i)) = n_source_symbols (be_config be) (orthogonal e)"
    "symbol_size (sl_symbols (enc_sliver e L be i)) = be_symbol_size be"
    using be_okD(3,9,10) [OF ok]
    by (cases e; simp add: enc_sliver_def is_primary_def primary_sliver_def secondary_sliver_def)+
qed

lemma write_primary_step:
  assumes ok: "be_ok L be" and i: "i < n_of be"
  shows "write_primary_sliver_to_workspace (bd_at e L be d ps (collected Primary L be qs)) (sl_symbols (primary_sliver L be i)) =
    Inr (bd_at e L be d ps (collected Primary L be (qs @ [i])))"
proof -
  have "sized (be_symbol_size be) (map (cell L be i) [0..<be_n_columns be])"
    using ok i be_okD(2) [OF ok] by (simp add: sized_map)
  then show ?thesis
    by (simp add: write_primary_sliver_to_workspace_def collected_def is_primary_def primary_sliver_def)
qed

lemma collected_secondary:
  "collected Secondary L be ps = grid (be_n_rows be) (be_n_columns be) (\<lambda>r c.
     if c < length ps then cell L be r (ps ! c) else replicate (be_symbol_size be) 0)"
  by (simp add: collected_def is_primary_def)

lemma write_secondary_step:
  assumes ok: "be_ok L be" and i: "i < n_of be" and qs: "set qs \<subseteq> {..<n_of be}" "length qs < be_n_columns be"
  shows "write_secondary_sliver_to_workspace (bd_at e L be d ps (collected Secondary L be qs)) (sl_symbols (secondary_sliver L be i)) (length qs) =
    Inr (bd_at e L be d ps (collected Secondary L be (qs @ [i])))"
proof -
  let ?s = "be_symbol_size be" let ?nr = "be_n_rows be" let ?nc = "be_n_columns be" let ?k = "length qs"
  let ?xs = "map (\<lambda>r. cell L be r i) [0..<?nr]"
  let ?g = "\<lambda>m r c. if c < ?k then cell L be r (qs ! c) else if c = ?k \<and> r < m then cell L be r i else replicate ?s 0"
  let ?w = "\<lambda>m. grid ?nr ?nc (?g m)"
  let ?f = "\<lambda>w (row, symbol). map_err (\<lambda>_. DecodePanicked) (symbols_set w (row * ?nc + ?k) symbol)"
  have xs: "sized ?s ?xs" using ok i be_okD(1) [OF ok] by (simp add: sized_map)
  have g: "length (?g m r c) = ?s" if "r < ?nr" "c < ?nc" for m r c
  proof -
    have "c < ?k \<Longrightarrow> qs ! c < n_of be" using qs(1) by (rule nth_bounded)
    then show ?thesis using that ok i be_okD(1,2) [OF ok] by auto
  qed
  have "\<exists>w'. try_fold ?f (mk_symbols ?s (?w 0)) (enumerate 0 ?xs) = Inr w' \<and> w' = mk_symbols ?s (?w (length ?xs))"
  proof (rule try_fold_enumerate [where I = "\<lambda>m w. w = mk_symbols ?s (?w m)", OF refl])
    fix m w assume "m < length ?xs" and w: "w = mk_symbols ?s (?w m)"
    then have m: "m < ?nr" by simp
    have sz: "sized ?s (?w m)" using g by (rule grid_sized)
    have "symbols_set w (m * ?nc + ?k) (?xs ! m) = Inr (mk_symbols ?s ((?w m)[m * ?nc + ?k := ?xs ! m]))"
      unfolding w using sz by (rule symbols_set_mk) (use m ok i be_okD(1) [OF ok] be_okD(3) [OF ok] be_usize(4) [OF ok] grid_bound [OF m qs(2)] in simp_all)
    moreover have "(?w m)[m * ?nc + ?k := ?xs ! m] = ?w (Suc m)"
      unfolding grid_update [OF m qs(2)] by (rule grid_cong) (use m in auto)
    ultimately show "\<exists>w'. ?f w (m, ?xs ! m) = Inr w' \<and> w' = mk_symbols ?s (?w (Suc m))" by simp
  qed
  moreover have "?w 0 = collected Secondary L be qs" unfolding collected_secondary by (rule grid_cong) simp
  moreover have "?w (length ?xs) = collected Secondary L be (qs @ [i])"
    unfolding collected_secondary by (rule grid_cong) (auto simp: nth_append less_Suc_eq)
  moreover have "to_symbols (sl_symbols (secondary_sliver L be i)) = ?xs"
    using xs be_okD(3) [OF ok] by (simp add: secondary_sliver_def)
  ultimately show ?thesis by (simp add: write_secondary_sliver_to_workspace_def)
qed

text \<open>The loop collects the first distinct slivers, in the order they are given.\<close>

lemma write_slivers_encoded:
  assumes ok: "be_ok L be" and sub: "set is \<subseteq> {..<n_of be}" and ps: "set ps \<subseteq> {..<n_of be}"
    and le: "length ps \<le> n_source_symbols (be_config be) e"
    and q: "q = pick (n_source_symbols (be_config be) e - length ps) seen is" and seen: "set seen = set ps"
  shows "fst (write_slivers e (bd_at e L be d ps (collected e L be ps)) (length ps) seen (map (enc_sliver e L be) is)) =
    Inr (bd_at e L be d (ps @ q) (collected e L be (ps @ q)), length (ps @ q))"
  using sub ps le q seen
proof (induction "is" arbitrary: ps seen q)
  case Nil
  then show ?case by (cases "n_source_symbols (be_config be) e - length ps") simp_all
next
  case (Cons i "is")
  let ?k = "n_source_symbols (be_config be) e"
  have i: "i < n_of be" using Cons.prems by simp
  note shape = enc_sliver_shape [OF ok i]
  consider "length ps = ?k" | "length ps < ?k" "i \<in> set ps" | "length ps < ?k" "i \<notin> set ps"
    using Cons.prems by linarith
  then show ?case
  proof cases
    case 1
    then show ?thesis using Cons.prems by simp
  next
    case 2
    then obtain m where "?k - length ps = Suc m" by (cases "?k - length ps") auto
    then have "q = pick (?k - length ps) seen is" using Cons.prems 2 by simp
    moreover have "set is \<subseteq> {..<n_of be}" using Cons.prems(1) by simp
    ultimately show ?thesis
      using Cons.IH [OF _ Cons.prems(2,3) _ Cons.prems(5)] 2 Cons.prems(5) by (auto simp add: shape simp del: pick.simps split: prod.splits)
  next
    case 3
    then obtain m where m: "?k - length ps = Suc m" "?k - length (ps @ [i]) = m" by (cases "?k - length ps") auto
    define q' where "q' = pick m (i # seen) is"
    have q: "q = i # q'" using Cons.prems 3 m by (simp add: q'_def)
    have w: "(if is_primary e then write_primary_sliver_to_workspace (bd_at e L be d ps (collected e L be ps)) (sl_symbols (enc_sliver e L be i))
        else write_secondary_sliver_to_workspace (bd_at e L be d ps (collected e L be ps)) (sl_symbols (enc_sliver e L be i)) (length ps)) =
      Inr (bd_at e L be d ps (collected e L be (ps @ [i])))"
      using write_primary_step [OF ok i] write_secondary_step [OF ok i Cons.prems(2)] 3(1) be_okD(10) [OF ok]
      by (cases e) (simp_all add: enc_sliver_def is_primary_def)
    have "fst (write_slivers e (bd_at e L be d (ps @ [i]) (collected e L be (ps @ [i]))) (length (ps @ [i])) (i # seen)
        (map (enc_sliver e L be) is)) = Inr (bd_at e L be d ((ps @ [i]) @ q') (collected e L be ((ps @ [i]) @ q')), length ((ps @ [i]) @ q'))"
      by (rule Cons.IH) (use Cons.prems 3 i m in \<open>simp_all add: q'_def\<close>)
    then show ?thesis using 3 Cons.prems(5) w unfolding q by (auto simp: shape split: prod.splits)
  qed
qed

section \<open>Decoding the lines\<close>

text \<open>
  The workspace after the first \<open>j\<close> lines were decoded; in the primary case the first \<open>m\<close> rows of
  column \<open>j\<close> are overwritten as well.
\<close>

definition ws_primary :: "rs_lib \<Rightarrow> blob_encoder \<Rightarrow> nat list \<Rightarrow> nat \<Rightarrow> nat \<Rightarrow> nat \<Rightarrow> nat \<Rightarrow> bytes" where
  "ws_primary L be ps j m r c = (if c < j \<or> c = j \<and> r < m then msg be r c else cell L be (ps ! r) c)"

definition ws_secondary :: "rs_lib \<Rightarrow> blob_encoder \<Rightarrow> nat list \<Rightarrow> nat \<Rightarrow> nat \<Rightarrow> nat \<Rightarrow> bytes" where
  "ws_secondary L be ps j r c = (if r < j then msg be r c else cell L be r (ps ! c))"

abbreviation ws_grid :: "blob_encoder \<Rightarrow> (nat \<Rightarrow> nat \<Rightarrow> bytes) \<Rightarrow> bytes list" where
  "ws_grid be \<equiv> grid (be_n_rows be) (be_n_columns be)"

lemma grid_messages:
  assumes "be_ok L be"
  shows "concat (ws_grid be (msg be)) = padded be"
proof -
  have "concat (map (\<lambda>c. take (be_symbol_size be) (drop (0 + c * be_symbol_size be) (padded be))) [0..<be_n_rows be * be_n_columns be]) =
      take (be_n_rows be * be_n_columns be * be_symbol_size be) (drop 0 (padded be))" by (rule concat_slices)
  then show ?thesis using length_padded [OF assms] by (simp add: grid_def msg_def)
qed

lemma decode_column:
  assumes ok: "be_ok L be" and dec: "be_decodable L be" and d: "decoder_fresh (be_n_rows be) (n_of be) (be_symbol_size be) d"
    and ps: "set ps \<subseteq> {..<n_of be}" "length ps = be_n_rows be" "distinct ps" and j: "j < be_n_columns be"
  obtains d' where "decode_line L Primary (bd_at Primary L be d ps (ws_grid be (ws_primary L be ps j 0))) j =
      Inr (bd_at Primary L be d' ps (ws_grid be (ws_primary L be ps (Suc j) 0)))"
    and "decoder_fresh (be_n_rows be) (n_of be) (be_symbol_size be) d'"
proof -
  let ?s = "be_symbol_size be" let ?nr = "be_n_rows be" let ?nc = "be_n_columns be"
  let ?xs = "map (\<lambda>r. cell L be r j) [0..<?nr]" let ?w = "\<lambda>m. ws_grid be (ws_primary L be ps j m)"
  have jn: "j < n_of be" using j be_okD(2) [OF ok] by simp
  have xs: "length ?xs = ?nr" "sized ?s ?xs" using ok jn be_okD(1) [OF ok] by (simp_all add: sized_map)
  have len: "length (ws_primary L be ps j m r c) = ?s" if "r < ?nr" "c < ?nc" for m r c
    using that ok nth_bounded [OF ps(1), of r] ps(2) be_okD(1,2) [OF ok] length_msg [OF ok that] by (auto simp: ws_primary_def)
  have sz: "sized ?s (?w m)" for m using len by (rule grid_sized)
  have at: "symbols_at (mk_symbols ?s (?w 0)) (t * ?nc + j) = Inr (col_code L be j ! (ps ! t))" if "t < ?nr" for t
    using symbols_at_mk [OF sz, of "t * ?nc + j" 0] be_okD(3) [OF ok] be_usize(4) [OF ok] grid_bound [OF that j] grid_nth [OF that j, of "ws_primary L be ps j 0"]
    by (simp add: ws_primary_def cell_def)
  have ds: "try_map (\<lambda>(t, i). and_then (map_err (\<lambda>_. DecodePanicked) (symbols_at (mk_symbols ?s (?w 0)) (t * ?nc + j))) (\<lambda>b.
      Inr \<lparr> ds_index = i, ds_data = b \<rparr>)) (enumerate 0 ps) = Inr (code_symbols (col_code L be j) ps)"
    unfolding try_map_Inr_iff code_symbols_def list_all2_conv_all_nth using at ps(2) by (auto simp: nth_enumerate_eq)
  obtain d' where dc: "decoder_decode L d (code_symbols (col_code L be j) ps) = (Inr (concat ?xs), d')"
    and d': "decoder_fresh ?nr (n_of be) ?s d'"
    using decoder_decode_codeword [OF dec [unfolded be_decodable_def, THEN conjunct1] d xs ps(1)] ps(2,3)
    unfolding col_code_cells [OF ok jn] by (auto simp: distinct_card)
  let ?f = "\<lambda>w (row, symbol). map_err (\<lambda>_. DecodePanicked) (symbols_set w (?nc * row + j) symbol)"
  have "\<exists>w'. try_fold ?f (mk_symbols ?s (?w 0)) (enumerate 0 ?xs) = Inr w' \<and> w' = mk_symbols ?s (?w (length ?xs))"
  proof (rule try_fold_enumerate [where I = "\<lambda>m w. w = mk_symbols ?s (?w m)", OF refl])
    fix m w assume "m < length ?xs" and w: "w = mk_symbols ?s (?w m)"
    then have m: "m < ?nr" by simp
    have "symbols_set w (m * ?nc + j) (?xs ! m) = Inr (mk_symbols ?s ((?w m)[m * ?nc + j := ?xs ! m]))"
      unfolding w using sz by (rule symbols_set_mk) (use m ok jn be_okD(1) [OF ok] be_okD(3) [OF ok] be_usize(4) [OF ok] grid_bound [OF m j] in simp_all)
    moreover have "(?w m)[m * ?nc + j := ?xs ! m] = ?w (Suc m)"
      unfolding grid_update [OF m j] by (rule grid_cong) (use m in \<open>auto simp: ws_primary_def cell_msg [OF ok m j]\<close>)
    ultimately show "\<exists>w'. ?f w (m, ?xs ! m) = Inr w' \<and> w' = mk_symbols ?s (?w (Suc m))" by (simp add: mult.commute)
  qed
  moreover have "?w (length ?xs) = ws_grid be (ws_primary L be ps (Suc j) 0)"
    by (rule grid_cong) (auto simp: ws_primary_def)
  moreover have "chunks ?s (concat ?xs) = ?xs" using xs(2) be_okD(3) [OF ok] by (rule chunks_concat_sized)
  ultimately have "decode_line L Primary (bd_at Primary L be d ps (?w 0)) j =
      Inr (bd_at Primary L be d' ps (ws_grid be (ws_primary L be ps (Suc j) 0)))"
    by (simp add: decode_line_def Let_def is_primary_def ds dc)
  then show ?thesis using d' by (rule that)
qed

lemma decode_row:
  assumes ok: "be_ok L be" and dec: "be_decodable L be" and d: "decoder_fresh (be_n_columns be) (n_of be) (be_symbol_size be) d"
    and ps: "set ps \<subseteq> {..<n_of be}" "length ps = be_n_columns be" "distinct ps" and j: "j < be_n_rows be"
  obtains d' where "decode_line L Secondary (bd_at Secondary L be d ps (ws_grid be (ws_secondary L be ps j))) j =
      Inr (bd_at Secondary L be d' ps (ws_grid be (ws_secondary L be ps (Suc j))))"
    and "decoder_fresh (be_n_columns be) (n_of be) (be_symbol_size be) d'"
proof -
  let ?s = "be_symbol_size be" let ?nr = "be_n_rows be" let ?nc = "be_n_columns be"
  let ?xs = "map (msg be j) [0..<?nc]" let ?w = "\<lambda>j. ws_grid be (ws_secondary L be ps j)"
  have xs: "length ?xs = ?nc" "sized ?s ?xs" using sized_msg_row [OF ok j] by simp_all
  have pn: "ps ! c < n_of be" if "c < ?nc" for c using that ps by (simp add: nth_bounded)
  have len: "length (ws_secondary L be ps m r c) = ?s" if "r < ?nr" "c < ?nc" for m r c
    using that ok pn be_okD(1) [OF ok] length_msg [OF ok that] by (auto simp: ws_secondary_def)
  have sz: "sized ?s (?w m)" for m using len by (rule grid_sized)
  have at: "symbols_at (mk_symbols ?s (?w j)) (j * ?nc + t) = Inr (row_code L be j ! (ps ! t))" if "t < ?nc" for t
    using symbols_at_mk [OF sz, of "j * ?nc + t" j] be_okD(3) [OF ok] be_usize(4) [OF ok] grid_bound [OF j that] grid_nth [OF j that, of "ws_secondary L be ps j"]
    by (simp add: ws_secondary_def cell_row [OF ok j pn [OF that]])
  have ds: "try_map (\<lambda>(t, i). and_then (map_err (\<lambda>_. DecodePanicked) (symbols_at (mk_symbols ?s (?w j)) (j * ?nc + t))) (\<lambda>b.
      Inr \<lparr> ds_index = i, ds_data = b \<rparr>)) (enumerate 0 ps) = Inr (code_symbols (row_code L be j) ps)"
    unfolding try_map_Inr_iff code_symbols_def list_all2_conv_all_nth using at ps(2) by (auto simp: nth_enumerate_eq)
  obtain d' where dc: "decoder_decode L d (code_symbols (row_code L be j) ps) = (Inr (concat ?xs), d')"
    and d': "decoder_fresh ?nc (n_of be) ?s d'"
    using decoder_decode_codeword [OF dec [unfolded be_decodable_def, THEN conjunct2] d xs ps(1)] ps(2,3)
    unfolding row_code_def by (auto simp: distinct_card)
  have jb: "?nc * (j + 1) \<le> ?nr * ?nc" using j by (metis Suc_eq_plus1 Suc_leI mult.commute mult_le_mono1)
  have "symbols_write (mk_symbols ?s (?w j)) (?nc * j) (?nc * (j + 1)) (concat ?xs) =
      Inr (mk_symbols ?s (take (?nc * j) (?w j) @ ?xs @ drop (?nc * (j + 1)) (?w j)))"
    by (rule symbols_write_mk [OF sz]) (use jb xs be_usize(4) [OF ok] in simp_all)
  moreover have "take (?nc * j) (?w j) @ ?xs @ drop (?nc * (j + 1)) (?w j) = ?w (Suc j)"
  proof (rule nth_equalityI)
    show len': "length (take (?nc * j) (?w j) @ ?xs @ drop (?nc * (j + 1)) (?w j)) = length (?w (Suc j))" using jb by simp
    fix p assume "p < length (take (?nc * j) (?w j) @ ?xs @ drop (?nc * (j + 1)) (?w j))"
    then have p: "p < ?nr * ?nc" using len' by simp
    have mn: "min (?nr * ?nc) (?nc * j) = ?nc * j" using jb by simp
    consider "p < ?nc * j" | "?nc * j \<le> p" "p < ?nc * (j + 1)" | "?nc * (j + 1) \<le> p" by linarith
    then show "(take (?nc * j) (?w j) @ ?xs @ drop (?nc * (j + 1)) (?w j)) ! p = ?w (Suc j) ! p"
    proof cases
      case 1
      then have "p div ?nc < j" using be_okD(5) [OF ok] by (simp add: div_less_iff_less_mult mult.commute)
      then show ?thesis using 1 p by (simp add: nth_append ws_secondary_def grid_nth_pos)
    next
      case 2
      then have pp: "p = j * ?nc + (p - ?nc * j)" "p - ?nc * j < ?nc" by (auto simp: mult.commute)
      then have "p div ?nc = j" "p mod ?nc = p - ?nc * j" using grid_pos [OF pp(2), of p j] by auto
      then show ?thesis using 2 p pp(2) by (simp add: nth_append ws_secondary_def grid_nth_pos mn)
    next
      case 3
      then have "Suc j \<le> p div ?nc" using be_okD(5) [OF ok] by (simp add: less_eq_div_iff_mult_less_eq mult.commute)
      then show ?thesis using 3 p by (auto simp: nth_append ws_secondary_def grid_nth_pos mn)
    qed
  qed
  ultimately have "decode_line L Secondary (bd_at Secondary L be d ps (?w j)) j = Inr (bd_at Secondary L be d' ps (?w (Suc j)))"
    by (simp add: decode_line_def Let_def is_primary_def ds dc)
  then show ?thesis using d' by (rule that)
qed

section \<open>Decoding encoded blobs\<close>

lemma perform_decoding_primary:
  assumes ok: "be_ok L be" and dec: "be_decodable L be" and d: "decoder_fresh (be_n_rows be) (n_of be) (be_symbol_size be) d"
    and ps: "set ps \<subseteq> {..<n_of be}" "length ps = be_n_rows be" "distinct ps"
  obtains d' where "perform_decoding L Primary (bd_at Primary L be d ps (collected Primary L be ps)) =
    Inr (bd_at Primary L be d' ps (ws_grid be (msg be)))"
proof -
  let ?I = "\<lambda>j s. \<exists>d. s = bd_at Primary L be d ps (ws_grid be (ws_primary L be ps j 0)) \<and>
    decoder_fresh (be_n_rows be) (n_of be) (be_symbol_size be) d"
  have w0: "collected Primary L be ps = ws_grid be (ws_primary L be ps 0 0)"
    using ps(2) by (auto simp: collected_def is_primary_def concat_rows_grid ws_primary_def intro!: grid_cong)
  have "?I 0 (bd_at Primary L be d ps (collected Primary L be ps))" using d w0 by auto
  then have "\<exists>s'. try_fold (decode_line L Primary) (bd_at Primary L be d ps (collected Primary L be ps)) [0..<be_n_columns be] = Inr s' \<and>
      ?I (be_n_columns be) s'"
  proof (rule try_fold_upt [where I = ?I])
    fix j s assume j: "j < be_n_columns be" and "?I j s"
    then obtain d0 where s: "s = bd_at Primary L be d0 ps (ws_grid be (ws_primary L be ps j 0))"
      and d0: "decoder_fresh (be_n_rows be) (n_of be) (be_symbol_size be) d0" by blast
    from decode_column [OF ok dec d0 ps j] show "\<exists>s'. decode_line L Primary s j = Inr s' \<and> ?I (Suc j) s'" unfolding s by metis
  qed
  moreover have "ws_grid be (ws_primary L be ps (be_n_columns be) 0) = ws_grid be (msg be)"
    by (rule grid_cong) (simp add: ws_primary_def)
  ultimately show ?thesis using that be_okD(10) [OF ok] by (auto simp: perform_decoding_def)
qed

lemma perform_decoding_secondary:
  assumes ok: "be_ok L be" and dec: "be_decodable L be" and d: "decoder_fresh (be_n_columns be) (n_of be) (be_symbol_size be) d"
    and ps: "set ps \<subseteq> {..<n_of be}" "length ps = be_n_columns be" "distinct ps"
  obtains d' where "perform_decoding L Secondary (bd_at Secondary L be d ps (collected Secondary L be ps)) =
    Inr (bd_at Secondary L be d' ps (ws_grid be (msg be)))"
proof -
  let ?I = "\<lambda>j s. \<exists>d. s = bd_at Secondary L be d ps (ws_grid be (ws_secondary L be ps j)) \<and>
    decoder_fresh (be_n_columns be) (n_of be) (be_symbol_size be) d"
  have w0: "collected Secondary L be ps = ws_grid be (ws_secondary L be ps 0)"
    unfolding collected_secondary by (rule grid_cong) (simp add: ws_secondary_def ps(2))
  have "?I 0 (bd_at Secondary L be d ps (collected Secondary L be ps))" using d w0 by auto
  then have "\<exists>s'. try_fold (decode_line L Secondary) (bd_at Secondary L be d ps (collected Secondary L be ps)) [0..<be_n_rows be] = Inr s' \<and>
      ?I (be_n_rows be) s'"
  proof (rule try_fold_upt [where I = ?I])
    fix j s assume j: "j < be_n_rows be" and "?I j s"
    then obtain d0 where s: "s = bd_at Secondary L be d0 ps (ws_grid be (ws_secondary L be ps j))"
      and d0: "decoder_fresh (be_n_columns be) (n_of be) (be_symbol_size be) d0" by blast
    from decode_row [OF ok dec d0 ps j] show "\<exists>s'. decode_line L Secondary s j = Inr s' \<and> ?I (Suc j) s'" unfolding s by metis
  qed
  moreover have "ws_grid be (ws_secondary L be ps (be_n_rows be)) = ws_grid be (msg be)"
    by (rule grid_cong) (simp add: ws_secondary_def)
  ultimately show ?thesis using that be_okD(9) [OF ok] by (auto simp: perform_decoding_def)
qed

lemma blob_decoder_new_ok:
  assumes ok: "be_ok L be" and dec: "be_decodable L be" and sz: "symbol_size_for_blob (be_config be) (length (be_blob be)) = Inr (be_symbol_size be)"
  obtains d where "blob_decoder_new L (be_config be) e (length (be_blob be)) = Inr (bd_at e L be d [] (collected e L be []))"
    and "decoder_fresh (n_source_symbols (be_config be) e) (n_of be) (be_symbol_size be) d"
proof -
  have "rs_supported L (n_source_symbols (be_config be) e) (n_of be) (be_symbol_size be)"
    using dec be_okD(9,10) [OF ok] by (cases e) (simp_all add: be_decodable_def)
  from rs_decoder_new_fresh [OF this] obtain d where d: "rs_decoder_new L (n_source_symbols (be_config be) e) (n_of be) (be_symbol_size be) = Inr d"
    "decoder_fresh (n_source_symbols (be_config be) e) (n_of be) (be_symbol_size be) d" by blast
  have "symbols_zeros (be_n_rows be * be_n_columns be) (be_symbol_size be) = mk_symbols (be_symbol_size be) (collected Secondary L be [])"
    using symbols_zeros_mk [OF be_usize(4) [OF ok]] by (simp add: collected_secondary grid_def map_replicate_const)
  then have "blob_decoder_new L (be_config be) e (length (be_blob be)) = Inr (bd_at e L be d [] (collected e L be []))"
    using d(1) sz be_okD(9,10) [OF ok]
    by (cases e) (simp_all add: blob_decoder_new_def Let_def is_primary_def bd_at_def symbols_with_capacity_mk collected_def)
  then show ?thesis using d(2) by (rule that)
qed

text \<open>Any list of slivers of an encoded blob with enough distinct indices decodes to the blob.\<close>

lemma config_decode_ok:
  assumes ok: "be_ok L be" and dec: "be_decodable L be" and sz: "symbol_size_for_blob (be_config be) (length (be_blob be)) = Inr (be_symbol_size be)"
    and i: "set is \<subseteq> {..<n_of be}" "n_source_symbols (be_config be) e \<le> card (set is)"
  shows "fst (config_decode L (be_config be) e (length (be_blob be)) (map (enc_sliver e L be) is)) = Inr (be_blob be)"
proof -
  let ?k = "n_source_symbols (be_config be) e" let ?q = "pick ?k [] is"
  obtain d where new: "blob_decoder_new L (be_config be) e (length (be_blob be)) = Inr (bd_at e L be d [] (collected e L be []))"
    and d: "decoder_fresh ?k (n_of be) (be_symbol_size be) d"
    using blob_decoder_new_ok [OF ok dec sz] .
  have q: "set ?q \<subseteq> {..<n_of be}" "length ?q = ?k" "distinct ?q"
    using pick_subset [of ?k "[]" "is"] pick_length [of ?k "is" "[]"] pick_distinct i by auto
  have wr: "fst (write_slivers e (bd_at e L be d [] (collected e L be [])) 0 [] (map (enc_sliver e L be) is)) =
      Inr (bd_at e L be d ?q (collected e L be ?q), ?k)"
    using write_slivers_encoded [OF ok i(1), of "[]" e ?q "[]" d] q(2) by simp
  obtain d' where pd: "perform_decoding L e (bd_at e L be d ?q (collected e L be ?q)) = Inr (bd_at e L be d' ?q (ws_grid be (msg be)))"
  proof (cases e)
    case Primary
    then show ?thesis using that perform_decoding_primary [OF ok dec _ q(1) _ q(3)] d q(2) be_okD(9) [OF ok] by metis
  next
    case Secondary
    then show ?thesis using that perform_decoding_secondary [OF ok dec _ q(1) _ q(3)] d q(2) be_okD(10) [OF ok] by metis
  qed
  have "take (length (be_blob be)) (padded be) = be_blob be" by (simp add: padded_def)
  then show ?thesis using new wr pd grid_messages [OF ok]
    by (auto simp: config_decode_def blob_decoder_decode_def check_and_write_slivers_to_workspace_def split: prod.splits)
qed

section \<open>The consistency checks on encoded blobs\<close>

lemma systematic_primary_sliver_ok:
  "be_ok L be \<Longrightarrow> i < be_n_rows be \<Longrightarrow> systematic_primary_sliver be i = Inr (primary_sliver L be i)"
  by (simp add: systematic_primary_sliver_def fill_row_ok empty_row_ok)

lemma primary_merkle_root:
  assumes ok: "be_ok L be" and i: "i < be_n_rows be"
  shows "get_merkle_root H L (be_config be) Primary (primary_sliver L be i) = Inr (root (build H (map (cell L be i) [0..<n_of be])))"
proof -
  let ?s = "be_symbol_size be" let ?xs = "map (msg be i) [0..<be_n_columns be]"
  have code: "map (cell L be i) [0..<n_of be] = row_code L be i"
    using row_code_props(1) [OF ok i] by (intro nth_equalityI) (simp_all add: cell_row [OF ok i])
  have sup: "rs_encodable L (n_source_symbols (be_config be) Secondary) (n_of be) ?s" using be_okD(8,10) [OF ok] by simp
  have ort: "orthogonal Primary = Secondary" by simp
  have "length ?xs = n_source_symbols (be_config be) Secondary" using be_okD(10) [OF ok] by simp
  from get_merkle_root_ok [where t = Primary, unfolded ort, OF sup this sized_msg_row [OF ok i], of H i] show ?thesis
    unfolding primary_sliver_row [OF ok i] code row_code_def .
qed

lemma default_check_ok:
  assumes ok: "be_ok L be" and v: "\<And>v. verified = Some v \<Longrightarrow> length v = be_n_rows be"
  shows "default_consistency_check H L be (metadata (expanded_metadata H L be)) verified = Inr ()"
proof -
  have md: "hashes (metadata (expanded_metadata H L be)) = expanded_hashes H L be"
    by (simp add: expanded_metadata_def new_verified_from_metadata_def Let_def)
  have "check_hash H L (be_config be) Primary (primary_sliver L be i) (metadata (expanded_metadata H L be)) = Inr ()"
    if "i < be_n_rows be" for i
    using that be_okD(1) [OF ok] primary_merkle_root [OF ok that]
    by (simp add: check_hash_def md to_pair_index_of_sliver_def is_primary_def primary_sliver_def expanded_hashes_def pair_hash_def ensure_def)
  then show ?thesis using be_okD(9) [OF ok] v systematic_primary_sliver_ok [OF ok]
    by (auto simp: default_consistency_check_def Let_def ensure_def try_all_Inr_iff split: option.splits)
qed

lemma decode_and_verify_ok:
  assumes ok: "be_ok L be" and dec: "be_decodable L be" and new: "blob_encoder_new (be_config be) (be_blob be) = Inr be"
    and sz: "symbol_size_for_blob (be_config be) (length (be_blob be)) = Inr (be_symbol_size be)"
    and i: "set is \<subseteq> {..<n_of be}" "n_source_symbols (be_config be) e \<le> card (set is)"
  shows "decode_and_verify H L (be_config be) e (expanded_metadata H L be) (map (enc_sliver e L be) is) check = Inr (be_blob be)"
proof -
  have len: "unencoded_length (metadata (expanded_metadata H L be)) = length (be_blob be)"
    by (simp add: expanded_metadata_def new_verified_from_metadata_def Let_def)
  obtain taken where dc: "config_decode L (be_config be) e (length (be_blob be)) (map (enc_sliver e L be) is) = (Inr (be_blob be), taken)"
    using config_decode_ok [OF ok dec sz i] by (metis prod.collapse)
  have "strict_consistency_check H L (be_config be) (blob_id (expanded_metadata H L be)) (be_blob be) = Inr ()"
    by (simp add: strict_consistency_check_def config_compute_metadata_def new be_compute_metadata_def compute_metadata_ok [OF ok])
  moreover have "default_consistency_check H L be (metadata (expanded_metadata H L be))
      (if is_primary e \<and> check = Default then Some (map (\<lambda>i. i \<in> set taken) [0..<n_source_symbols (be_config be) e]) else None) = Inr ()"
    by (rule default_check_ok [OF ok]) (use be_okD(9) [OF ok] in \<open>auto simp: is_primary_def split: if_splits\<close>)
  ultimately show ?thesis
    by (cases check) (simp_all add: decode_and_verify_def len dc Let_def new)
qed

end
