(* ===== verification/Rs_Example.thy ===== *)
theory Rs_Example
  imports Rs_Coding Gf256
begin

unbundle bit_operations_syntax

text \<open>
  A concrete erasure code for four shards, with two or three source symbols: parity symbols over
  GF(256), and a decoder that searches, byte by byte, the source bytes consistent with the received
  shards. It shows that the assumptions on the Reed-Solomon library can be met, and it is the
  instance on which the encoding theorems are applied.
\<close>

definition code_byte :: "nat \<Rightarrow> nat \<Rightarrow> bytes \<Rightarrow> byte" where
  "code_byte k i v =
     (if i < k then v ! i
      else if k = 3 then v ! 0 XOR v ! 1 XOR v ! 2
      else if i = 2 then v ! 0 XOR v ! 1
      else v ! 0 XOR gf256_mul_walrus (v ! 1) 2)"

definition column_bytes :: "nat \<Rightarrow> bytes list \<Rightarrow> bytes" where
  "column_bytes j xs = map (\<lambda>x. x ! j) xs"

definition small_params :: "nat \<Rightarrow> nat \<Rightarrow> bool" where
  "small_params k m \<longleftrightarrow> (k = 2 \<and> m = 2) \<or> (k = 3 \<and> m = 1)"

definition all_bytes :: bytes where
  "all_bytes = map of_nat [0..<256]"

fun call_data :: "shard_call \<Rightarrow> bytes" where
  "call_data (Original i b) = b"
| "call_data (Recovery i b) = b"

definition solve_byte :: "nat \<Rightarrow> shard_call list \<Rightarrow> nat \<Rightarrow> bytes option" where
  "solve_byte k calls j =
     find (\<lambda>v. \<forall>c \<in> set calls. code_byte k (call_index k c) v = call_data c ! j) (List.n_lists k all_bytes)"

definition small_rs :: rs_lib where
  "small_rs = \<lparr>
     rs_enc_new = (\<lambda>k m s. if small_params k m then Inr () else Inl ''unsupported''),
     rs_encode = (\<lambda>k m s xs. if small_params k m \<and> length xs = k
       then Some (map (\<lambda>i. map (\<lambda>j. code_byte k (k + i) (column_bytes j xs)) [0..<s]) [0..<m]) else None),
     rs_dec_new = (\<lambda>k m s. if small_params k m then Inr () else Inl ''unsupported''),
     rs_decode = (\<lambda>k m s calls. Inr (map (\<lambda>i. (i, map (\<lambda>j. the (solve_byte k calls j) ! i) [0..<s])) [0..<k])) \<rparr>"

lemma all_bytes_mem: "b \<in> set all_bytes"
proof -
  have "b = of_nat (unat b)" by simp
  then show ?thesis unfolding all_bytes_def by (metis atLeastLessThan_iff image_eqI le0 list.set_map set_upt unat_byte_less)
qed

lemma gf_double_inj: "gf256_mul_walrus a 2 = gf256_mul_walrus b 2 \<Longrightarrow> a = b"
  using gf256_mul_eq_0_iff [of "a XOR b" 2] by (simp add: gf256_mul_xor_left xor_eq_0_iff)

lemma gf_triple_inj: "a XOR gf256_mul_walrus a 2 = b XOR gf256_mul_walrus b 2 \<Longrightarrow> a = b"
proof -
  assume eq: "a XOR gf256_mul_walrus a 2 = b XOR gf256_mul_walrus b 2"
  have three: "x XOR gf256_mul_walrus x 2 = gf256_mul_walrus x 3" for x
    using gf256_mul_xor_left [of 1 2 x] gf256_mul_one [of x] by (simp add: gf256_mul_commute [of _ x])
  have "gf256_mul_walrus (a XOR b) 3 = 0"
    using eq unfolding three by (simp add: gf256_mul_xor_left)
  then show ?thesis by (simp add: gf256_mul_eq_0_iff xor_eq_0_iff)
qed

lemma xor_swap: "(a :: byte) XOR b = c XOR d \<Longrightarrow> a XOR c = b XOR d"
  by (metis xor.assoc xor.commute xor_cancel_left)

text \<open>Any \<open>k\<close> of the four code bytes determine the source bytes.\<close>

lemma two_indices:
  assumes "S \<subseteq> {..<4 :: nat}" and "2 \<le> card S"
  obtains i j where "i \<in> S" "j \<in> S" "i < j" "j < 4"
proof -
  from assms(2) obtain i j where "i \<in> S" "j \<in> S" "i \<noteq> j"
    by (metis card_le_Suc0_iff_eq card.infinite not_less_eq_eq numeral_2_eq_2 zero_le finite_subset finite_lessThan assms(1))
  with assms(1) that show ?thesis by (metis lessThan_iff linorder_neqE_nat subsetD)
qed

lemma code_byte_determines_2:
  assumes "S \<subseteq> {..<4}" and "2 \<le> card S" and eq: "\<And>i. i \<in> S \<Longrightarrow> code_byte 2 i [a, b] = code_byte 2 i [c, d]"
  shows "a = c \<and> b = d"
proof -
  obtain i j where ij: "i \<in> S" "j \<in> S" "i < j" "j < 4" using two_indices [OF assms(1,2)] .
  note e = eq [OF ij(1)] eq [OF ij(2)]
  from ij(3,4) consider "i = 0" "j = 1" | "i = 0" "j = 2" | "i = 0" "j = 3" | "i = 1" "j = 2" | "i = 1" "j = 3"
    | "i = 2" "j = 3" by (auto simp: less_Suc_eq numeral_eq_Suc)
  then show ?thesis
  proof cases
    case 6
    with e have x: "a XOR b = c XOR d" "a XOR gf256_mul_walrus b 2 = c XOR gf256_mul_walrus d 2"
      by (simp_all add: code_byte_def)
    then have "b XOR gf256_mul_walrus b 2 = d XOR gf256_mul_walrus d 2"
      using xor_swap [OF x(1)] xor_swap [OF x(2)] by (metis xor_swap)
    then have "b = d" by (rule gf_triple_inj)
    with x(1) show ?thesis by (metis xor_cancel_right)
  qed (use e in \<open>auto simp: code_byte_def dest: gf_double_inj, (metis xor_cancel_left xor_cancel_right gf_double_inj)+\<close>)
qed

lemma one_missing:
  assumes "S \<subseteq> {..<4 :: nat}" and "3 \<le> card S"
  obtains q where "q < 4" "{..<4} - {q} \<subseteq> S"
proof -
  have fin: "finite S" using assms(1) finite_subset by blast
  have "card ({..<4} - S) = 4 - card S" using assms(1) fin by (simp add: card_Diff_subset)
  then have "card ({..<4} - S) \<le> 1" using assms(2) by simp
  moreover have "\<exists>q < 4. {..<4} - S \<subseteq> {q}"
  proof (cases "{..<4} - S = {}")
    case False
    then have "0 < card ({..<4} - S)" by (simp add: card_gt_0_iff)
    then have "card ({..<4} - S) = 1" using calculation by linarith
    then obtain q where "{..<4} - S = {q}" by (auto simp: card_1_singleton_iff)
    then show ?thesis by (intro exI [of _ q]) auto
  next
    case True
    then show ?thesis by (intro exI [of _ 0]) auto
  qed
  ultimately obtain q where "q < 4" "{..<4} - S \<subseteq> {q}" by blast
  with that show ?thesis by blast
qed

lemma code_byte_determines_3:
  assumes "S \<subseteq> {..<4}" and "3 \<le> card S"
    and eq: "\<And>i. i \<in> S \<Longrightarrow> code_byte 3 i [a, b, x] = code_byte 3 i [c, d, y]"
  shows "a = c \<and> b = d \<and> x = y"
proof -
  obtain q where q: "q < 4" "{..<4} - {q} \<subseteq> S" using one_missing [OF assms(1,2)] .
  then have e: "i < 4 \<Longrightarrow> i \<noteq> q \<Longrightarrow> code_byte 3 i [a, b, x] = code_byte 3 i [c, d, y]" for i using eq by blast
  from q(1) consider "q = 0" | "q = 1" | "q = 2" | "q = 3" by (auto simp: less_Suc_eq numeral_eq_Suc)
  then show ?thesis
    using e [of 0] e [of 1] e [of 2] e [of 3]
    by cases (auto simp: code_byte_def, (metis xor_cancel_left xor_cancel_right xor.assoc)+)
qed

lemma code_byte_determines:
  assumes "small_params k m" and "length v = k" and "length w = k" and "S \<subseteq> {..<k + m}" and "k \<le> card S"
    and "\<And>i. i \<in> S \<Longrightarrow> code_byte k i v = code_byte k i w"
  shows "v = w"
proof -
  from assms(1) consider "k = 2" "m = 2" | "k = 3" "m = 1" by (auto simp: small_params_def)
  then show ?thesis
  proof cases
    case 1
    obtain a b c d where "v = [a, b]" "w = [c, d]"
      using assms(2,3) 1 by (auto simp: length_Suc_conv numeral_eq_Suc)
    then show ?thesis using code_byte_determines_2 [of S a b c d] assms(4-6) 1 by auto
  next
    case 2
    obtain a b x c d y where "v = [a, b, x]" "w = [c, d, y]"
      using assms(2,3) 2 by (auto simp: length_Suc_conv numeral_eq_Suc)
    then show ?thesis using code_byte_determines_3 [of S a b x c d y] assms(4-6) 2 by auto
  qed
qed

lemma call_of_simps [simp]: "call_index k (call_of k (i, b)) = i" "call_data (call_of k (i, b)) = b"
  by auto

lemma find_Some_holds: "find P xs = Some x \<Longrightarrow> P x"
  and find_Some_mem: "find P xs = Some x \<Longrightarrow> x \<in> set xs"
  by (induction xs) (auto split: if_splits)

lemma small_rs_codec:
  assumes "small_params k m"
  shows "rs_codec small_rs k m s"
proof -
  have "\<exists>ys. rs_encode small_rs k m s xs = Some ys \<and> length ys = m \<and> sized s ys \<and> restores small_rs k m s xs ys"
    if xs: "length xs = k" "sized s xs" for xs
  proof -
    define ys where "ys = map (\<lambda>i. map (\<lambda>j. code_byte k (k + i) (column_bytes j xs)) [0..<s]) [0..<m]"
    have byte: "(xs @ ys) ! i ! j = code_byte k i (column_bytes j xs)" if "i < k + m" "j < s" for i j
      using that xs by (auto simp: nth_append ys_def code_byte_def column_bytes_def)
    have "restores small_rs k m s xs ys"
      unfolding restores_def
    proof (intro allI impI)
      fix "is" assume i: "set is \<subseteq> {..<k + m} \<and> k \<le> card (set is)"
      let ?calls = "map (\<lambda>i. call_of k (i, (xs @ ys) ! i)) is"
      have solve: "solve_byte k ?calls j = Some (column_bytes j xs)" if j: "j < s" for j
      proof -
        let ?P = "\<lambda>v. \<forall>c \<in> set ?calls. code_byte k (call_index k c) v = call_data c ! j"
        have P: "?P v \<longleftrightarrow> (\<forall>i \<in> set is. code_byte k i v = code_byte k i (column_bytes j xs))" for v
          using byte j i by (auto simp del: call_of.simps)
        have mem: "column_bytes j xs \<in> set (List.n_lists k all_bytes)"
          using xs all_bytes_mem by (auto simp: set_n_lists column_bytes_def)
        then have "find ?P (List.n_lists k all_bytes) \<noteq> None" unfolding find_None_iff P by blast
        then obtain v where v: "find ?P (List.n_lists k all_bytes) = Some v" by blast
        have "?P v" using v by (rule find_Some_holds)
        then have Pv: "\<And>i. i \<in> set is \<Longrightarrow> code_byte k i v = code_byte k i (column_bytes j xs)" unfolding P by blast
        have "v \<in> set (List.n_lists k all_bytes)" using v by (rule find_Some_mem)
        then have "length v = k" by (simp add: set_n_lists)
        then have "v = column_bytes j xs"
          using i xs Pv by (intro code_byte_determines [OF assms, of _ _ "set is"]) (auto simp: column_bytes_def)
        with v show ?thesis by (simp add: solve_byte_def)
      qed
      let ?restored = "map (\<lambda>i. (i, map (\<lambda>j. the (solve_byte k ?calls j) ! i) [0..<s])) [0..<k]"
      have "map (\<lambda>j. the (solve_byte k ?calls j) ! i) [0..<s] = xs ! i" if "i < k" for i
        using solve xs that by (intro nth_equalityI) (auto simp: column_bytes_def sized_nth)
      then have "\<forall>(i, b) \<in> set ?restored. i < k \<and> b = xs ! i" by auto
      moreover have "{..<k} \<subseteq> set is \<union> fst ` set ?restored" by force
      ultimately show "\<exists>restored. rs_decode small_rs k m s ?calls = Inr restored \<and>
          (\<forall>(i, b) \<in> set restored. i < k \<and> b = xs ! i) \<and> {..<k} \<subseteq> set is \<union> fst ` set restored"
        by (intro exI [of _ ?restored]) (simp add: small_rs_def)
    qed
    then show ?thesis using xs assms by (intro exI [of _ ys]) (auto simp: small_rs_def ys_def sized_map)
  qed
  then show ?thesis using assms by (simp add: rs_codec_def small_rs_def)
qed

text \<open>The configuration for four shards: two primary and three secondary source symbols.\<close>

definition small_config :: rs_config where
  "small_config = \<lparr> source_symbols_primary = 2, source_symbols_secondary = 3, rs_n_shards = 4 \<rparr>"

lemma rs_config_new_4: "rs_config_new 4 = Inr small_config"
  by (simp add: small_config_def rs_config_new_def source_symbols_for_n_shards_def min_n_correct_def max_n_faulty_def
      new_from_nonzero_parameters_def MAX_SOURCE_SYMBOLS_def Let_def)

lemma small_supported:
  assumes "0 < s" and "s < 65536" and "even s"
  shows "rs_supported small_rs (n_source_symbols small_config e) (rs_n_shards small_config) s"
  using assms small_rs_codec [of 2 2 s] small_rs_codec [of 3 1 s]
  by (cases e) (auto simp: rs_supported_def small_config_def n_source_symbols_def is_primary_def small_params_def)

theorem rs_encode_decode_witness:
  "\<exists>cw. encode_all_symbols small_rs small_config Primary [1, 2, 3, 4] = Inr (mk_symbols 2 cw) \<and> length cw = 4 \<and>
     decode_from_decoding_symbols small_rs small_config Secondary 2
       [\<lparr> ds_index = 3, ds_data = cw ! 3 \<rparr>, \<lparr> ds_index = 2, ds_data = cw ! 2 \<rparr>] = Inr [1, 2, 3, 4]"
proof -
  have sup: "rs_supported small_rs (n_source_symbols small_config (orthogonal Secondary)) (rs_n_shards small_config) 2"
    by (rule small_supported) simp_all
  have xs: "length [[1, 2], [3, 4 :: byte]] = n_source_symbols small_config (orthogonal Secondary)"
    "sized 2 [[1, 2], [3, 4 :: byte]]"
    by (simp_all add: small_config_def n_source_symbols_def is_primary_def)
  have n: "rs_n_shards small_config = 4" by (simp add: small_config_def)
  from rs_encode_decode [OF sup xs] obtain cw where
    "encode_all_symbols small_rs small_config Primary [1, 2, 3, 4] = Inr (mk_symbols 2 cw)" "length cw = 4"
    "\<And>is. set is \<subseteq> {..<4} \<Longrightarrow> 2 \<le> card (set is) \<Longrightarrow> decode_from_decoding_symbols small_rs small_config Secondary 2
       (map (\<lambda>i. \<lparr> ds_index = i, ds_data = cw ! i \<rparr>) is) = Inr [1, 2, 3, 4]"
    by (auto simp: n)
  from this(1,2) this(3) [of "[3, 2]"] show ?thesis by auto
qed

end
