(* ===== verification/Blob_Props.thy ===== *)
theory Blob_Props
  imports Blob_Legacy Blob_Decoding Rs_Example
begin

text \<open>
  The properties of the blob encoding: the encoding routines agree, encoded blobs decode from
  sufficiently many slivers of either axis, a strictly checked decoding is determined by the blob
  identifier, and what the default consistency check misses.
\<close>

section \<open>Configurations of the examples\<close>

lemma small_ready: "rs_ready small_rs small_config"
  using small_supported by (auto simp: rs_ready_def)

lemma small_encoder: "\<exists>be. blob_encoder_new small_config [1, 2, 3, 4, 5] = Inr be"
  by (simp add: blob_encoder_new_def small_config_def source_symbols_per_blob_def checked_mul_def compute_symbol_size_def
      required_alignment_def next_multiple_of_def div_ceil_def try_from_u_def Let_def)

text \<open>One shard: the code has no recovery shards.\<close>

definition one_rs :: rs_lib where
  "one_rs = \<lparr> rs_enc_new = (\<lambda>_ _ _. Inr ()), rs_encode = (\<lambda>_ _ _ _. Some []), rs_dec_new = (\<lambda>_ _ _. Inr ()),
     rs_decode = (\<lambda>_ _ _ calls. if calls = [] then Inl ''not enough shards'' else Inr []) \<rparr>"

definition one_config :: rs_config where
  "one_config = \<lparr> source_symbols_primary = 1, source_symbols_secondary = 1, rs_n_shards = 1 \<rparr>"

lemma one_ready: "rs_ready one_rs one_config"
proof -
  have "set is \<subseteq> {..<Suc 0} \<Longrightarrow> Suc 0 \<le> card (set is) \<Longrightarrow> 0 \<in> set is" for "is" :: "nat list"
    by (cases "is") auto
  then have "restores one_rs (Suc 0) 0 s xs []" for s xs by (auto simp: restores_def one_rs_def Suc_le_eq card_gt_0_iff)
  then have "rs_codec one_rs (Suc 0) 0 s" for s by (simp add: rs_codec_def one_rs_def)
  then show ?thesis by (auto simp: rs_ready_def rs_supported_def n_source_symbols_def one_config_def)
qed

section \<open>Encoding\<close>

lemma concat_map_concat: "concat (map (\<lambda>i. concat (f i)) xs) = concat (concat (map f xs))"
  by (induction xs) simp_all

lemma systematic_blob:
  assumes ok: "be_ok L be"
  shows "take (length (be_blob be)) (concat (map (\<lambda>p. sym_data (sl_symbols (pair_primary p))) (take (be_n_rows be) (encoded_pairs L be)))) =
    be_blob be"
proof -
  have "map (\<lambda>p. sym_data (sl_symbols (pair_primary p))) (take (be_n_rows be) (encoded_pairs L be)) =
      map (\<lambda>i. concat (map (msg be i) [0..<be_n_columns be])) [0..<be_n_rows be]"
    using be_okD(1) [OF ok] primary_sliver_row [OF ok] by (simp add: encoded_pairs_def take_map)
  moreover have "concat (map (\<lambda>i. concat (map (msg be i) [0..<be_n_columns be])) [0..<be_n_rows be]) =
      concat (concat (map (\<lambda>i. map (msg be i) [0..<be_n_columns be]) [0..<be_n_rows be]))" by (rule concat_map_concat)
  moreover have "concat (map (\<lambda>i. map (msg be i) [0..<be_n_columns be]) [0..<be_n_rows be]) = ws_grid be (msg be)"
    using concat_rows_grid [of "msg be" "be_n_columns be" "[0..<be_n_rows be]"] by (auto intro!: grid_cong)
  ultimately show ?thesis using grid_messages [OF ok] by (simp add: padded_def)
qed

text \<open>
  C8: The three encoding routines agree. For every blob the encoder accepts, the memory-saving
  routine, the older one over the expanded matrix and the metadata-only one all succeed, without a
  panic; the first two return the same sliver pairs and all three the same metadata. There is one
  pair per shard, pair \<open>i\<close> holds primary sliver \<open>i\<close> and secondary sliver \<open>n - 1 - i\<close>, and the code is
  systematic: the first primary slivers, put together, start with the blob.
\<close>

theorem encoding_routines_agree:
  assumes "rs_enc_ready L c" and "blob_encoder_new c blob = Inr be"
  shows "\<exists>pairs md hs. encode_with_metadata H L be = Inr (pairs, md) \<and> encode_with_metadata_legacy H L be = Inr (pairs, md) \<and>
    compute_metadata_with_symbol_hashes H L be = Inr (md, hs) \<and> length hs = rs_n_shards c * rs_n_shards c \<and>
    length pairs = rs_n_shards c \<and> length (hashes (metadata md)) = rs_n_shards c \<and> unencoded_length (metadata md) = length blob \<and>
    (\<forall>i < rs_n_shards c. sl_index (pair_primary (pairs ! i)) = i \<and> sl_index (pair_secondary (pairs ! i)) = rs_n_shards c - 1 - i) \<and>
    take (length blob) (concat (map (\<lambda>p. sym_data (sl_symbols (pair_primary p))) (take (source_symbols_primary c) pairs))) = blob"
proof -
  note be = blob_encoder_new_ok [OF assms]
  have nr: "be_n_rows be = source_symbols_primary c" using be_okD(9) [OF be(1)] be(2) by simp
  have "length (encoded_pairs L be) = rs_n_shards c" "length (hashes (metadata (expanded_metadata H L be))) = rs_n_shards c"
    "unencoded_length (metadata (expanded_metadata H L be)) = length blob"
    "length (hash_table H L be (n_of be) 0) = rs_n_shards c * rs_n_shards c"
    by (simp_all add: encoded_pairs_def expanded_metadata_def new_verified_from_metadata_def Let_def expanded_hashes_def hash_table_def be(2,3))
  moreover have "sl_index (pair_primary (encoded_pairs L be ! i)) = i"
    "sl_index (pair_secondary (encoded_pairs L be ! i)) = rs_n_shards c - 1 - i" if "i < rs_n_shards c" for i
    using that by (simp_all add: encoded_pairs_def be(2) primary_sliver_def secondary_sliver_def)
  ultimately show ?thesis
    using encode_with_metadata_ok [OF be(1)] encode_with_metadata_legacy_ok [OF be(1)] compute_metadata_ok [OF be(1)]
      systematic_blob [OF be(1)] be(3) nr by fastforce
qed

theorem encoding_routines_agree_witness:
  "\<exists>be pairs md. blob_encoder_new small_config [1, 2, 3, 4, 5] = Inr be \<and>
     encode_with_metadata (\<lambda>q. replicate 32 (of_nat (length q))) small_rs be = Inr (pairs, md) \<and>
     encode_with_metadata_legacy (\<lambda>q. replicate 32 (of_nat (length q))) small_rs be = Inr (pairs, md) \<and> length pairs = 4"
proof -
  obtain be where be: "blob_encoder_new small_config [1, 2, 3, 4, 5] = Inr be" using small_encoder by blast
  from encoding_routines_agree [OF rs_ready_enc [OF small_ready] this, of "\<lambda>q. replicate 32 (of_nat (length q))"] be show ?thesis
    by (auto simp: small_config_def)
qed

section \<open>Decoding\<close>

text \<open>
  C3: Encoded blobs can be recovered. From any list of slivers of one axis, taken from the pairs
  that encoding returned, in any order and with repetitions, with at least as many distinct indices
  as the axis has source symbols, \<^verbatim>\<open>decode_and_verify\<close> returns the blob; and it does so under
  every consistency check.
\<close>

theorem blob_encode_decode:
  assumes ready: "rs_ready L c" and enc: "config_encode_with_metadata H L c blob = Inr (pairs, md)"
    and i: "set is \<subseteq> {..<rs_n_shards c}" "n_source_symbols c e \<le> card (set is)"
  shows "decode_and_verify H L c e md
      (map (\<lambda>i. case e of Primary \<Rightarrow> pair_primary (pairs ! i) | Secondary \<Rightarrow> pair_secondary (pairs ! i)) is) check = Inr blob"
proof -
  obtain be where new: "blob_encoder_new c blob = Inr be" and enc': "encode_with_metadata H L be = Inr (pairs, md)"
    using enc by (auto simp: config_encode_with_metadata_def and_then_Inr_iff)
  note be = blob_encoder_new_ok [OF rs_ready_enc [OF ready] new]
  have pm: "pairs = encoded_pairs L be" "md = expanded_metadata H L be" using enc' encode_with_metadata_ok [OF be(1)] by auto
  define js where "js = (if e = Primary then is else map (\<lambda>i. n_of be - 1 - i) is)"
  have inj: "inj_on (\<lambda>i. n_of be - 1 - i) (set is)"
  proof (rule inj_onI)
    fix x y assume "x \<in> set is" "y \<in> set is" and eq: "n_of be - 1 - x = n_of be - 1 - y"
    then have "x < n_of be" "y < n_of be" using i(1) be(2) by auto
    then show "x = y" using eq by arith
  qed
  have js: "set js \<subseteq> {..<n_of be}" "n_source_symbols (be_config be) e \<le> card (set js)"
    using i be(2) be_okD(6) [OF be(1)] card_image [OF inj] by (auto simp: js_def)
  have "map (\<lambda>i. case e of Primary \<Rightarrow> pair_primary (pairs ! i) | Secondary \<Rightarrow> pair_secondary (pairs ! i)) is = map (enc_sliver e L be) js"
    using i(1) be(2) by (cases e) (auto simp: js_def pm(1) encoded_pairs_def enc_sliver_def is_primary_def)
  then show ?thesis using decode_and_verify_ok [OF be(1) blob_encoder_new_decodable [OF ready new] _ _ js] new be pm by simp
qed

theorem blob_encode_decode_witness:
  "\<exists>pairs md. config_encode_with_metadata (\<lambda>q. replicate 32 (of_nat (length q))) small_rs small_config [1, 2, 3, 4, 5] = Inr (pairs, md) \<and>
     decode_and_verify (\<lambda>q. replicate 32 (of_nat (length q))) small_rs small_config Secondary md
       [pair_secondary (pairs ! 3), pair_secondary (pairs ! 0), pair_secondary (pairs ! 3), pair_secondary (pairs ! 1)] Strict = Inr [1, 2, 3, 4, 5]"
proof -
  let ?H = "\<lambda>q :: bytes. replicate 32 (of_nat (length q) :: byte)"
  obtain be where be: "blob_encoder_new small_config [1, 2, 3, 4, 5] = Inr be" using small_encoder by blast
  from encode_with_metadata_ok [OF blob_encoder_new_ok(1) [OF rs_ready_enc [OF small_ready] be], of ?H] be
  have enc: "config_encode_with_metadata ?H small_rs small_config [1, 2, 3, 4, 5] =
      Inr (encoded_pairs small_rs be, expanded_metadata ?H small_rs be)" by (simp add: config_encode_with_metadata_def)
  have "set [3, 0, 3, 1 :: nat] \<subseteq> {..<rs_n_shards small_config}" "n_source_symbols small_config Secondary \<le> card (set [3, 0, 3, 1 :: nat])"
    by (simp_all add: small_config_def card_insert_if)
  from blob_encode_decode [OF small_ready enc this, of Strict] enc show ?thesis by (intro exI conjI) auto
qed

section \<open>Blob identifiers determine blobs\<close>

text \<open>The inputs hashed for a blob identifier: the metadata and the symbols of every row.\<close>

definition blob_queries :: "(bytes \<Rightarrow> bytes) \<Rightarrow> rs_lib \<Rightarrow> rs_config \<Rightarrow> bytes \<Rightarrow> bytes list" where
  "blob_queries H L c blob =
     (case blob_encoder_new c blob of
        Inl _ \<Rightarrow> []
      | Inr be \<Rightarrow> id_queries H (metadata (expanded_metadata H L be)) @
          concat (map (\<lambda>r. build_queries H (map (cell L be r) [0..<rs_n_shards c])) [0..<rs_n_shards c]))"

lemma blob_encoder_new_length:
  assumes ready: "rs_ready L c" and new: "blob_encoder_new c blob = Inr be" shows "length blob < 2 ^ 64"
proof -
  let ?k = "source_symbols_primary c * source_symbols_secondary c"
  obtain sz where k: "?k < 2 ^ 32" and sz: "compute_symbol_size (length blob) ?k 2 = Inr sz"
    using new by (auto simp: blob_encoder_new_def and_then_Inr_iff source_symbols_per_blob_def ok_or_Inr_iff checked_Some)
  note be = blob_encoder_new_ok [OF rs_ready_enc [OF ready] new]
  have "0 < ?k" using be_okD(4,5,9,10) [OF be(1)] be(2) by simp
  then have "length blob \<le> ?k * 65534" using sz compute_symbol_size_iff [of ?k "length blob"] by (simp add: Let_def split: if_splits)
  also have "\<dots> \<le> 2 ^ 32 * 65534" using k by (intro mult_le_mono1) simp
  finally show ?thesis by simp
qed

lemma padded_inject:
  assumes "be_n_rows be1 = be_n_rows be2" "be_n_columns be1 = be_n_columns be2" "be_symbol_size be1 = be_symbol_size be2"
    and ok: "be_ok L be1" "be_ok L be2" and len: "length (be_blob be1) = length (be_blob be2)"
    and msg: "\<And>r c. r < be_n_rows be1 \<Longrightarrow> c < be_n_columns be1 \<Longrightarrow> msg be1 r c = msg be2 r c"
  shows "be_blob be1 = be_blob be2"
proof -
  have "ws_grid be1 (msg be1) = ws_grid be2 (msg be2)" unfolding assms(1,2) by (rule grid_cong) (simp add: msg assms(1,2))
  then have "padded be1 = padded be2" using grid_messages [OF ok(1)] grid_messages [OF ok(2)] by simp
  then have "take (length (be_blob be1)) (padded be1) = take (length (be_blob be2)) (padded be2)" using len by simp
  then show ?thesis by (simp add: padded_def)
qed

lemma expanded_row_hash:
  "r < n_of be \<Longrightarrow> primary_hash (hashes (metadata (expanded_metadata H L be)) ! r) = root (build H (map (cell L be r) [0..<n_of be]))"
  by (simp add: expanded_metadata_def new_verified_from_metadata_def Let_def expanded_hashes_def)

lemma blob_id_determines_blob:
  assumes ready: "rs_ready L c" and dig: "digest32 H" and cf: "collision_free H (blob_queries H L c b1 @ blob_queries H L c b2)"
    and new: "blob_encoder_new c b1 = Inr be1" "blob_encoder_new c b2 = Inr be2"
    and id: "blob_id (expanded_metadata H L be1) = blob_id (expanded_metadata H L be2)"
  shows "b1 = b2"
proof -
  note o1 = blob_encoder_new_ok [OF rs_ready_enc [OF ready] new(1)] and o2 = blob_encoder_new_ok [OF rs_ready_enc [OF ready] new(2)]
  let ?m1 = "metadata (expanded_metadata H L be1)" and ?m2 = "metadata (expanded_metadata H L be2)" let ?n = "rs_n_shards c"
  have q: "set (id_queries H (metadata (expanded_metadata H L be))) \<subseteq> set (blob_queries H L c b)"
    "r < ?n \<Longrightarrow> set (build_queries H (map (cell L be r) [0..<?n])) \<subseteq> set (blob_queries H L c b)"
    if "blob_encoder_new c b = Inr be" for be b r using that by (auto simp: blob_queries_def)
  have sub: "collision_free H (xs @ ys)" if "set xs \<subseteq> set (blob_queries H L c b1)" "set ys \<subseteq> set (blob_queries H L c b2)" for xs ys
    using cf that unfolding collision_free_def by (auto intro: inj_on_subset)
  have lens: "length (hashes ?m1) = ?n" "length (hashes ?m2) = ?n" "unencoded_length ?m1 = length b1" "unencoded_length ?m2 = length b2"
    by (simp_all add: expanded_metadata_def new_verified_from_metadata_def Let_def expanded_hashes_def o1(2,3) o2(2,3))
  have "from_sliver_pair_metadata H ?m1 = from_sliver_pair_metadata H ?m2"
    using id by (simp add: expanded_metadata_def new_verified_from_metadata_def Let_def)
  from blob_id_inject [OF dig sub [OF q(1) [OF new(1)] q(1) [OF new(2)]] _ _ _ this]
  have len: "length b1 = length b2" and leaves: "map pair_leaf_input (hashes ?m1) = map pair_leaf_input (hashes ?m2)"
    using lens blob_encoder_new_length [OF ready new(1)] blob_encoder_new_length [OF ready new(2)] by auto
  have sz: "be_symbol_size be1 = be_symbol_size be2" using o1(4) o2(4) len by simp
  have dims: "be_n_rows be1 = be_n_rows be2" "be_n_columns be1 = be_n_columns be2"
    using be_okD(9,10) [OF o1(1)] be_okD(9,10) [OF o2(1)] o1(2) o2(2) by auto
  have rows: "map (cell L be1 r) [0..<?n] = map (cell L be2 r) [0..<?n]" if r: "r < ?n" for r
  proof (rule root_binds [OF dig sub [OF q(2) [OF new(1) r] q(2) [OF new(2) r]]])
    have "pair_leaf_input (hashes ?m1 ! r) = pair_leaf_input (hashes ?m2 ! r)" using leaves r lens(1,2) by (metis nth_map)
    then have "node_bytes (root (build H (map (cell L be1 r) [0..<?n]))) = node_bytes (root (build H (map (cell L be2 r) [0..<?n])))"
      using length_root_bytes [OF dig, of "map (cell L be1 r) [0..<?n]"] length_root_bytes [OF dig, of "map (cell L be2 r) [0..<?n]"]
        r expanded_row_hash [of r be1 H L] expanded_row_hash [of r be2 H L] o1(2) o2(2)
      by (simp add: pair_leaf_input_def)
    then show "root (build H (map (cell L be1 r) [0..<?n])) = root (build H (map (cell L be2 r) [0..<?n]))"
      by (rule node_bytes_root_inject [rotated]) simp
  qed simp
  have "msg be1 r k = msg be2 r k" if "r < be_n_rows be1" "k < be_n_columns be1" for r k
  proof -
    have rk: "r < ?n" "k < ?n" using that be_okD(1,2) [OF o1(1)] o1(2) by auto
    have "cell L be1 r k = cell L be2 r k" using rows [OF rk(1)] rk(2) by (metis nth_map_upt0)
    then show ?thesis using that dims by (simp add: cell_msg [OF o1(1)] cell_msg [OF o2(1)])
  qed
  from padded_inject [OF dims sz o1(1) o2(1) _ this] show ?thesis using o1(3) o2(3) len by simp
qed

lemma strict_check_accepts:
  assumes ready: "rs_ready L c" and d: "decode_and_verify H L c e md slivers Strict = Inr blob"
  obtains be where "blob_encoder_new c blob = Inr be" and "blob_id (expanded_metadata H L be) = blob_id md"
    and "config_compute_blob_id H L c blob = Inr (blob_id md)"
proof -
  have "strict_consistency_check H L c (blob_id md) blob = Inr ()"
    using d by (auto simp: decode_and_verify_def and_then_Inr_iff split: prod.splits)
  then obtain m where m: "config_compute_metadata H L c blob = Inr m" "blob_id m = blob_id md"
    by (auto simp: strict_consistency_check_def and_then_Inr_iff map_err_Inr_iff ensure_Inr_iff)
  then obtain be where new: "blob_encoder_new c blob = Inr be" and be: "be_compute_metadata H L be = Inr m"
    by (auto simp: config_compute_metadata_def and_then_Inr_iff)
  from compute_metadata_ok [OF blob_encoder_new_ok(1) [OF rs_ready_enc [OF ready] new], of H] be
  have "m = expanded_metadata H L be" by (simp add: be_compute_metadata_def)
  then show ?thesis using that new m by (simp add: config_compute_blob_id_def)
qed

text \<open>
  C14: With the strict consistency check a blob identifier determines what is read. If two
  successful decodings, from any slivers of either axis and against any metadata with the same
  blob identifier, are strictly checked, then the identifier is the one computed from the returned
  blob and, as long as no two of the hashed inputs collide, both return the same blob. This holds
  whoever wrote the slivers and the metadata.
\<close>

theorem strict_decoding_unique:
  assumes ready: "rs_ready L c" and dig: "digest32 H"
    and d1: "decode_and_verify H L c e1 md1 slivers1 Strict = Inr b1"
    and d2: "decode_and_verify H L c e2 md2 slivers2 Strict = Inr b2"
    and id: "blob_id md1 = blob_id md2" and cf: "collision_free H (blob_queries H L c b1 @ blob_queries H L c b2)"
  shows "b1 = b2 \<and> config_compute_blob_id H L c b1 = Inr (blob_id md1)"
proof -
  obtain be1 be2 where "blob_encoder_new c b1 = Inr be1" "blob_id (expanded_metadata H L be1) = blob_id md1"
    and "blob_encoder_new c b2 = Inr be2" "blob_id (expanded_metadata H L be2) = blob_id md2"
    and "config_compute_blob_id H L c b1 = Inr (blob_id md1)"
    using strict_check_accepts [OF ready d1] strict_check_accepts [OF ready d2] by metis
  with blob_id_determines_blob [OF ready dig cf] id show ?thesis by simp
qed

definition one_be :: blob_encoder where
  "one_be = \<lparr> be_blob = [7, 9], be_symbol_size = 2, be_n_rows = 1, be_n_columns = 1, be_config = one_config \<rparr>"

lemma one_encoder: "blob_encoder_new one_config [7, 9] = Inr one_be"
  by (simp add: one_be_def blob_encoder_new_def one_config_def source_symbols_per_blob_def checked_mul_def compute_symbol_size_def
      required_alignment_def next_multiple_of_def div_ceil_def try_from_u_def Let_def n_source_symbols_def is_primary_def)

lemma one_cell: "cell one_rs one_be 0 0 = [7, 9]"
  by (simp add: cell_def col_code_def codeword_def parity_def one_rs_def row_code_def msg_def padded_def one_be_def one_config_def)

lemma one_queries:
  "blob_queries (\<lambda>q. replicate 32 (of_nat (length q))) one_rs one_config [7, 9] =
    [[1, 2, 0, 0, 0, 0, 0, 0, 0] @ replicate 32 65, 0 # replicate 64 3, [0, 7, 9]]"
proof -
  let ?H = "\<lambda>q :: bytes. replicate 32 (of_nat (length q) :: byte)"
  have n: "n_of one_be = 1" "rs_n_shards one_config = 1" by (simp_all add: one_be_def one_config_def)
  have "replicate 32 (3 :: byte) @ replicate 32 3 = replicate 64 3" by (simp add: replicate_add [symmetric])
  moreover have "hashes (metadata (expanded_metadata ?H one_rs one_be)) = [\<lparr> primary_hash = Digest (replicate 32 3), secondary_hash = Digest (replicate 32 3) \<rparr>]"
    by (simp add: expanded_metadata_def new_verified_from_metadata_def Let_def expanded_hashes_def n root_build_single one_cell leaf_hash_def)
  moreover have "unencoded_length (metadata (expanded_metadata ?H one_rs one_be)) = 2" "md_encoding_type (metadata (expanded_metadata ?H one_rs one_be)) = RS2"
    by (simp_all add: expanded_metadata_def new_verified_from_metadata_def Let_def one_be_def)
  moreover have "to_le_bytes 8 2 = [2, 0, 0, 0, 0, 0, 0, 0]" by code_simp
  ultimately show ?thesis
    by (simp add: blob_queries_def one_encoder n one_cell id_queries_def id_query_def compute_root_hash_def build_queries_def
        tree_queries.simps root_build_single pair_leaf_input_def leaf_hash_def)
qed

theorem strict_decoding_unique_witness:
  "\<exists>pairs md. config_encode_with_metadata (\<lambda>q. replicate 32 (of_nat (length q))) one_rs one_config [7, 9] = Inr (pairs, md) \<and>
     config_compute_blob_id (\<lambda>q. replicate 32 (of_nat (length q))) one_rs one_config [7, 9] = Inr (blob_id md)"
proof -
  let ?H = "\<lambda>q :: bytes. replicate 32 (of_nat (length q) :: byte)"
  obtain be where new: "blob_encoder_new one_config [7, 9] = Inr be" using one_encoder by blast
  note be = blob_encoder_new_ok [OF rs_ready_enc [OF one_ready] new]
  have dec: "decode_and_verify ?H one_rs one_config e (expanded_metadata ?H one_rs be) (map (enc_sliver e one_rs be) [0]) Strict = Inr [7, 9]" for e
    using decode_and_verify_ok [OF be(1) blob_encoder_new_decodable [OF one_ready new], of "[0]" e ?H Strict] be new by (cases e) (auto simp: one_config_def)
  have cf: "collision_free ?H (blob_queries ?H one_rs one_config [7, 9] @ blob_queries ?H one_rs one_config [7, 9])"
    unfolding one_queries by (auto simp: collision_free_def inj_on_def)
  have "digest32 ?H" by (simp add: digest32_def)
  from strict_decoding_unique [OF one_ready this dec [of Primary] dec [of Secondary] refl cf]
    encode_with_metadata_ok [OF be(1), of ?H] new show ?thesis by (simp add: config_encode_with_metadata_def)
qed

section \<open>Surplus slivers and the default check\<close>

lemma write_slivers_distinct:
  assumes ok: "be_ok L be" and "distinct is" and "set is \<inter> set seen = {}" and "set is \<subseteq> {..<n_of be}" and "set ps \<subseteq> {..<n_of be}"
    and "length ps + length is = n_source_symbols (be_config be) e"
  shows "write_slivers e (bd_at e L be d ps (collected e L be ps)) (length ps) seen (map (enc_sliver e L be) is @ zs) =
    (Inr (bd_at e L be d (ps @ is) (collected e L be (ps @ is)), length (ps @ is)), is @ map sl_index (take 1 zs))"
  using assms(2-)
proof (induction "is" arbitrary: ps seen)
  case Nil
  then show ?case by (cases zs) simp_all
next
  case (Cons i "is")
  have i: "i < n_of be" using Cons.prems by simp
  have w: "(if is_primary e then write_primary_sliver_to_workspace (bd_at e L be d ps (collected e L be ps)) (sl_symbols (enc_sliver e L be i))
      else write_secondary_sliver_to_workspace (bd_at e L be d ps (collected e L be ps)) (sl_symbols (enc_sliver e L be i)) (length ps)) =
    Inr (bd_at e L be d ps (collected e L be (ps @ [i])))"
    using write_primary_step [OF ok i] write_secondary_step [OF ok i, of ps] Cons.prems be_okD(10) [OF ok]
    by (cases e) (simp_all add: enc_sliver_def is_primary_def)
  have "write_slivers e (bd_at e L be d (ps @ [i]) (collected e L be (ps @ [i]))) (length (ps @ [i])) (i # seen) (map (enc_sliver e L be) is @ zs) =
      (Inr (bd_at e L be d ((ps @ [i]) @ is) (collected e L be ((ps @ [i]) @ is)), length ((ps @ [i]) @ is)), is @ map sl_index (take 1 zs))"
    by (rule Cons.IH) (use Cons.prems in auto)
  then show ?case using w Cons.prems by (simp add: enc_sliver_shape [OF ok i])
qed

lemma config_decode_distinct:
  assumes ok: "be_ok L be" and dec: "be_decodable L be" and sz: "symbol_size_for_blob (be_config be) (length (be_blob be)) = Inr (be_symbol_size be)"
    and i: "set is \<subseteq> {..<n_of be}" "distinct is" "length is = n_source_symbols (be_config be) Primary"
  shows "config_decode L (be_config be) Primary (length (be_blob be)) (map (enc_sliver Primary L be) is @ zs) =
    (Inr (be_blob be), is @ map sl_index (take 1 zs))"
proof -
  obtain d where new: "blob_decoder_new L (be_config be) Primary (length (be_blob be)) = Inr (bd_at Primary L be d [] (collected Primary L be []))"
    and d: "decoder_fresh (n_source_symbols (be_config be) Primary) (n_of be) (be_symbol_size be) d"
    using blob_decoder_new_ok [OF ok dec sz] .
  note wr = write_slivers_distinct [OF ok i(2), of "[]" "[]" Primary d zs]
  have d2: "decoder_fresh (be_n_rows be) (n_of be) (be_symbol_size be) d" "length is = be_n_rows be" using d i(3) be_okD(9) [OF ok] by simp_all
  obtain d' where pd: "perform_decoding L Primary (bd_at Primary L be d is (collected Primary L be is)) = Inr (bd_at Primary L be d' is (ws_grid be (msg be)))"
    using perform_decoding_primary [OF ok dec d2(1) i(1) d2(2) i(2)] .
  have "take (length (be_blob be)) (padded be) = be_blob be" by (simp add: padded_def)
  then show ?thesis using new wr pd grid_messages [OF ok] i
    by (simp add: config_decode_def blob_decoder_decode_def check_and_write_slivers_to_workspace_def)
qed

lemma try_all_Inl:
  "\<exists>x \<in> set xs. f x = Inl e \<Longrightarrow> \<forall>x \<in> set xs. f x = Inr () \<or> f x = Inl e \<Longrightarrow> try_all f xs = Inl e"
  by (induction xs) (auto, blast)

lemma row_hash_checked:
  assumes ok: "be_ok L be" and j: "j < be_n_rows be" and len: "length (hashes md) = n_of be"
  shows "check_hash H L (be_config be) Primary (primary_sliver L be j) md =
    (if primary_hash (hashes md ! j) = root (build H (map (cell L be j) [0..<n_of be])) then Inr () else Inl MerkleRootMismatch)"
  using j len be_okD(1) [OF ok] primary_merkle_root [OF ok j]
  by (auto simp: check_hash_def to_pair_index_of_sliver_def is_primary_def primary_sliver_def pair_hash_def ensure_def)

text \<open>With one wrong row hash, the check fails exactly when that row is not marked as verified.\<close>

lemma default_check_one_bad:
  assumes ok: "be_ok L be" and i: "i < be_n_rows be" and len: "length (hashes md) = n_of be" and v: "length v = be_n_rows be"
    and good: "\<And>j. j < be_n_rows be \<Longrightarrow> j \<noteq> i \<Longrightarrow> primary_hash (hashes md ! j) = root (build H (map (cell L be j) [0..<n_of be]))"
    and bad: "primary_hash (hashes md ! i) \<noteq> root (build H (map (cell L be i) [0..<n_of be]))"
  shows "default_consistency_check H L be md (Some v) = (if v ! i then Inr () else Inl DecodeVerificationError)"
proof -
  let ?f = "\<lambda>j. if v ! j then Inr () else and_then (map_err decode_error_of (systematic_primary_sliver be j)) (\<lambda>sl.
    map_err (\<lambda>err. if err = SliverPanic then DecodePanicked else DecodeVerificationError) (check_hash H L (be_config be) Primary sl md))"
  have f: "?f j = (if v ! j \<or> j \<noteq> i then Inr () else Inl DecodeVerificationError)" if "j < be_n_rows be" for j
    using that good [OF that] bad systematic_primary_sliver_ok [OF ok that] row_hash_checked [OF ok that len, of H] by auto
  have "try_all ?f [0..<be_n_rows be] = (if v ! i then Inr () else Inl DecodeVerificationError)"
  proof (cases "v ! i")
    case True
    then have "\<forall>j \<in> set [0..<be_n_rows be]. ?f j = Inr ()" using f by auto
    then show ?thesis unfolding if_P [OF True] try_all_Inr_iff .
  next
    case False
    then show ?thesis using f i by (subst try_all_Inl [where e = DecodeVerificationError]) auto
  qed
  then show ?thesis using be_okD(9) [OF ok] v by (simp only: default_consistency_check_def Let_def ensure_def option.case refl if_True and_then_simps)
qed

text \<open>
  C33: A sliver that the decoder does not use switches off the check of its row. Take the metadata
  of an encoded blob, change the hash of the systematic primary sliver \<open>i\<close>, and decode from exactly
  as many other primary slivers as needed: the default consistency check rejects the result. Append
  any one sliver with index \<open>i\<close>, whatever its contents: the decoder stops before using it, but row
  \<open>i\<close> counts as already verified and the same blob is accepted, although its row \<open>i\<close> does not match
  the metadata.
\<close>

theorem surplus_sliver_unchecked:
  assumes ready: "rs_ready L c" and enc: "config_encode_with_metadata H L c blob = Inr (pairs, md)"
    and i: "i < n_source_symbols c Primary" and js: "set js \<subseteq> {..<rs_n_shards c} - {i}" "distinct js" "length js = n_source_symbols c Primary"
    and md': "md' = md\<lparr> metadata := (metadata md)\<lparr> hashes := (hashes (metadata md))[i := h] \<rparr> \<rparr>"
    and bad: "primary_hash h \<noteq> primary_hash (hashes (metadata md) ! i)" and x: "sl_index x = i"
  shows "decode_and_verify H L c Primary md' (map (\<lambda>j. pair_primary (pairs ! j)) js) Default = Inl DecodeVerificationError \<and>
    decode_and_verify H L c Primary md' (map (\<lambda>j. pair_primary (pairs ! j)) js @ [x]) Default = Inr blob"
proof -
  obtain be where new: "blob_encoder_new c blob = Inr be" and enc': "encode_with_metadata H L be = Inr (pairs, md)"
    using enc by (auto simp: config_encode_with_metadata_def and_then_Inr_iff)
  note be = blob_encoder_new_ok [OF rs_ready_enc [OF ready] new]
  have pm: "pairs = encoded_pairs L be" "md = expanded_metadata H L be" using enc' encode_with_metadata_ok [OF be(1)] by auto
  have nr: "be_n_rows be = n_source_symbols c Primary" using be_okD(9) [OF be(1)] be(2) by simp
  have ir: "i < be_n_rows be" "i < n_of be" using i nr be_okD(1) [OF be(1)] by auto
  have sl: "map (\<lambda>j. pair_primary (pairs ! j)) js = map (enc_sliver Primary L be) js"
    using js(1) be(2) by (auto simp: pm(1) encoded_pairs_def enc_sliver_def is_primary_def)
  have len: "length (hashes (metadata md)) = n_of be" "unencoded_length (metadata md) = length blob"
    by (simp_all add: pm(2) expanded_metadata_def new_verified_from_metadata_def Let_def expanded_hashes_def be(3))
  have chk: "default_consistency_check H L be (metadata md') (Some v) = (if v ! i then Inr () else Inl DecodeVerificationError)"
    if "length v = be_n_rows be" for v
    using that ir len bad be_okD(1) [OF be(1)] expanded_row_hash [of _ be H L]
    by (intro default_check_one_bad [OF be(1)]) (auto simp: md' pm(2))
  have dec: "config_decode L c Primary (unencoded_length (metadata md')) (map (enc_sliver Primary L be) js @ zs) =
      (Inr blob, js @ map sl_index (take 1 zs))" for zs
    using config_decode_distinct [OF be(1) blob_encoder_new_decodable [OF ready new], of js zs] be js len(2) by (auto simp: md')
  have "i \<notin> set js" using js(1) by blast
  with dec [of "[]"] dec [of "[x]"] chk ir(1) show ?thesis
    by (simp add: decode_and_verify_def sl Let_def is_primary_def new nr x nth_map_upt0)
qed

theorem surplus_sliver_unchecked_witness:
  "\<exists>pairs md md'. config_encode_with_metadata (\<lambda>q. replicate 32 (of_nat (length q))) small_rs small_config [1, 2, 3, 4, 5] = Inr (pairs, md) \<and>
     decode_and_verify (\<lambda>q. replicate 32 (of_nat (length q))) small_rs small_config Primary md'
       [pair_primary (pairs ! 3), pair_primary (pairs ! 2)] Default = Inl DecodeVerificationError \<and>
     decode_and_verify (\<lambda>q. replicate 32 (of_nat (length q))) small_rs small_config Primary md'
       [pair_primary (pairs ! 3), pair_primary (pairs ! 2), sliver_new_empty 0 2 0] Default = Inr [1, 2, 3, 4, 5]"
proof -
  let ?H = "\<lambda>q :: bytes. replicate 32 (of_nat (length q) :: byte)"
  obtain be where be: "blob_encoder_new small_config [1, 2, 3, 4, 5] = Inr be" using small_encoder by blast
  let ?md = "expanded_metadata ?H small_rs be"
  from encode_with_metadata_ok [OF blob_encoder_new_ok(1) [OF rs_ready_enc [OF small_ready] be], of ?H] be
  have enc: "config_encode_with_metadata ?H small_rs small_config [1, 2, 3, 4, 5] = Inr (encoded_pairs small_rs be, ?md)"
    by (simp add: config_encode_with_metadata_def)
  obtain n where "n \<noteq> primary_hash (hashes (metadata ?md) ! 0)" by (metis node.distinct(1))
  then have h: "primary_hash \<lparr> primary_hash = n, secondary_hash = Empty \<rparr> \<noteq> primary_hash (hashes (metadata ?md) ! 0)" by simp
  have "0 < n_source_symbols small_config Primary" "set [3, 2 :: nat] \<subseteq> {..<rs_n_shards small_config} - {0}"
    "distinct [3, 2 :: nat]" "length [3, 2 :: nat] = n_source_symbols small_config Primary"
    by (simp_all add: small_config_def)
  from surplus_sliver_unchecked [OF small_ready enc this refl h, of "sliver_new_empty 0 2 0"] enc show ?thesis
    by (intro exI conjI) (auto simp: sliver_new_empty_def)
qed

end
