(* ===== verification/Sliver_Recovery.thy ===== *)
theory Sliver_Recovery
  imports Blob_Props
begin

text \<open>
  Slivers, recovery symbols and inconsistency proofs of an encoded blob. The expanded symbols of
  sliver \<open>q\<close> of axis \<open>t\<close> are a line of the expanded matrix; the recovery symbol that sliver \<open>i\<close> of the
  other axis gives for it is position \<open>i\<close> of that line.
\<close>

section \<open>Lines of the expanded matrix\<close>

definition cell_of :: "axis \<Rightarrow> rs_lib \<Rightarrow> blob_encoder \<Rightarrow> nat \<Rightarrow> nat \<Rightarrow> bytes" where
  "cell_of t L be q i = (if is_primary t then cell L be q i else cell L be i q)"

lemma cell_of_simps [simp]: "cell_of Primary L be q = cell L be q" "cell_of Secondary L be q = (\<lambda>i. cell L be i q)"
  by (simp_all add: cell_of_def is_primary_def fun_eq_iff)

definition line_of :: "axis \<Rightarrow> rs_lib \<Rightarrow> blob_encoder \<Rightarrow> nat \<Rightarrow> bytes list" where
  "line_of t L be q = map (cell_of t L be q) [0..<n_of be]"

text \<open>
  The two extensions commute: extending the rows of a matrix and then its columns makes every row,
  also the new ones, a codeword. A linear code over one field has this property.
\<close>

definition extended_cell :: "rs_lib \<Rightarrow> nat \<Rightarrow> nat \<Rightarrow> nat \<Rightarrow> nat \<Rightarrow> (nat \<Rightarrow> nat \<Rightarrow> bytes) \<Rightarrow> nat \<Rightarrow> nat \<Rightarrow> bytes" where
  "extended_cell L n s nr nc M r c = codeword L n s (map (\<lambda>r. codeword L n s (map (M r) [0..<nc]) ! c) [0..<nr]) ! r"

definition rs_commutes :: "rs_lib \<Rightarrow> rs_config \<Rightarrow> bool" where
  "rs_commutes L c \<longleftrightarrow> (\<forall>s M r. r < rs_n_shards c \<and> even s \<and> 0 < s \<and> s < 65536 \<and>
     (\<forall>r < source_symbols_primary c. \<forall>j < source_symbols_secondary c. length (M r j) = s) \<longrightarrow>
     (let E = extended_cell L (rs_n_shards c) s (source_symbols_primary c) (source_symbols_secondary c) M in
      map (E r) [0..<rs_n_shards c] = codeword L (rs_n_shards c) s (map (E r) [0..<source_symbols_secondary c])))"

text \<open>The library refuses to decode from fewer distinct shards than there are originals.\<close>

definition rs_needs_enough :: "rs_lib \<Rightarrow> rs_config \<Rightarrow> bool" where
  "rs_needs_enough L c \<longleftrightarrow> (\<forall>e s calls. card (call_index (n_source_symbols c e) ` set calls) < n_source_symbols c e \<longrightarrow>
     (\<exists>err. rs_decode L (n_source_symbols c e) (rs_n_shards c - n_source_symbols c e) s calls = Inl err))"

lemma cell_extended: "cell L be r c = extended_cell L (n_of be) (be_symbol_size be) (be_n_rows be) (be_n_columns be) (msg be) r c"
  by (simp add: cell_def col_code_def row_code_def extended_cell_def)

lemma row_is_code:
  assumes ok: "be_ok L be" and com: "rs_commutes L (be_config be)" and r: "r < n_of be"
  shows "map (cell L be r) [0..<n_of be] = codeword L (n_of be) (be_symbol_size be) (map (cell L be r) [0..<be_n_columns be])"
proof -
  have dims: "source_symbols_primary (be_config be) = be_n_rows be" "source_symbols_secondary (be_config be) = be_n_columns be"
    using be_okD(9,10) [OF ok] by simp_all
  have "even (be_symbol_size be)" "0 < be_symbol_size be" "be_symbol_size be < 65536"
    using be_okD(7) [OF ok] by (simp_all add: rs_encodable_def)
  moreover have "\<forall>r < be_n_rows be. \<forall>j < be_n_columns be. length (msg be r j) = be_symbol_size be" using length_msg [OF ok] by blast
  moreover have "cell L be r = extended_cell L (n_of be) (be_symbol_size be) (be_n_rows be) (be_n_columns be) (msg be) r"
    by (simp add: cell_extended fun_eq_iff)
  ultimately show ?thesis using com r unfolding rs_commutes_def Let_def dims by (simp only:)
qed

lemma line_props:
  assumes ok: "be_ok L be" and q: "q < n_of be"
  shows "length (line_of t L be q) = n_of be" and "sized (be_symbol_size be) (line_of t L be q)"
    and "i < n_of be \<Longrightarrow> line_of t L be q ! i = cell_of t L be q i"
    and "take (n_source_symbols (be_config be) (orthogonal t)) (line_of t L be q) =
      map (cell_of t L be q) [0..<n_source_symbols (be_config be) (orthogonal t)]"
proof -
  have "n_source_symbols (be_config be) (orthogonal t) \<le> n_of be" using be_okD(1,2,9,10) [OF ok] by (cases t) simp_all
  then show "take (n_source_symbols (be_config be) (orthogonal t)) (line_of t L be q) =
      map (cell_of t L be q) [0..<n_source_symbols (be_config be) (orthogonal t)]" by (simp add: line_of_def take_map)
qed (use ok q in \<open>auto simp: line_of_def sized_map cell_of_def\<close>)

lemma line_is_code:
  assumes ok: "be_ok L be" and com: "t = Primary \<longrightarrow> rs_commutes L (be_config be)" and q: "q < n_of be"
  shows "line_of t L be q = codeword L (n_of be) (be_symbol_size be) (take (n_source_symbols (be_config be) (orthogonal t)) (line_of t L be q))"
proof (cases t)
  case Primary
  then show ?thesis unfolding line_props(4) [OF ok q]
    using row_is_code [OF ok _ q] com be_okD(10) [OF ok] by (simp add: line_of_def)
next
  case Secondary
  then show ?thesis unfolding line_props(4) [OF ok q]
    using col_code_cells [OF ok q] map_cell_col [OF ok q] be_okD(9) [OF ok] by (simp add: line_of_def)
qed

lemma line_encodable: "be_ok L be \<Longrightarrow> rs_encodable L (n_source_symbols (be_config be) (orthogonal t)) (n_of be) (be_symbol_size be)"
  using be_okD(7-10) [of L be] by (cases t) simp_all

lemma line_supported:
  "be_ok L be \<Longrightarrow> be_decodable L be \<Longrightarrow> rs_supported L (n_source_symbols (be_config be) (orthogonal t)) (n_of be) (be_symbol_size be)"
  using be_okD(9,10) [of L be] by (cases t) (simp_all add: be_decodable_def)

lemma enc_sliver_line:
  assumes "be_ok L be" and "q < n_of be"
  shows "enc_sliver t L be q = \<lparr> sl_symbols = mk_symbols (be_symbol_size be) (take (n_source_symbols (be_config be) (orthogonal t)) (line_of t L be q)), sl_index = q \<rparr>"
  unfolding line_props(4) [OF assms] using be_okD(9,10) [OF assms(1)]
  by (cases t) (simp_all add: enc_sliver_def is_primary_def primary_sliver_def secondary_sliver_def)

section \<open>The hashes of an encoded blob\<close>

abbreviation md_of :: "(bytes \<Rightarrow> bytes) \<Rightarrow> rs_lib \<Rightarrow> blob_encoder \<Rightarrow> blob_metadata" where
  "md_of H L be \<equiv> metadata (expanded_metadata H L be)"

lemma md_simps [simp]:
  "hashes (md_of H L be) = expanded_hashes H L be" "md_encoding_type (md_of H L be) = RS2"
  "unencoded_length (md_of H L be) = length (be_blob be)" "length (expanded_hashes H L be) = n_of be"
  by (simp_all add: expanded_metadata_def new_verified_from_metadata_def Let_def expanded_hashes_def)

lemma sliver_hash:
  assumes q: "q < n_of be"
  obtains p where "to_pair_index_of_sliver t q (n_of be) = Some p" and "p < n_of be"
    and "pair_hash t (expanded_hashes H L be ! p) = root (build H (line_of t L be q))"
proof (cases t)
  case Primary
  then show ?thesis using q by (intro that [of q]) (simp_all add: to_pair_index_of_sliver_def is_primary_def pair_hash_def expanded_hashes_def line_of_def)
next
  case Secondary
  have "n_of be - 1 - (n_of be - q - 1) = q" using q by arith
  then show ?thesis using q Secondary
    by (intro that [of "n_of be - q - 1"]) (simp_all add: to_pair_index_of_sliver_def is_primary_def pair_hash_def expanded_hashes_def line_of_def)
qed

lemma get_sliver_hash_pair: "i < length (hashes m) \<Longrightarrow> get_sliver_hash m i t = Some (pair_hash t (hashes m ! i))"
  by (cases t) (simp_all add: get_sliver_hash_def pair_hash_def is_primary_def)

lemma cross_line: "q < n_of be \<Longrightarrow> i < n_of be \<Longrightarrow> line_of (orthogonal t) L be i ! q = line_of t L be q ! i"
  by (cases t) (simp_all add: line_of_def nth_map_upt0)

text \<open>A blob encoded under the Reed-Solomon part of an encoding configuration.\<close>

definition encodes :: "rs_lib \<Rightarrow> encoding_config \<Rightarrow> bytes \<Rightarrow> blob_encoder \<Rightarrow> bool" where
  "encodes L config blob be \<longleftrightarrow> rs_ready L (reed_solomon config) \<and> blob_encoder_new (reed_solomon config) blob = Inr be \<and>
     cfg_n_shards config = rs_n_shards (reed_solomon config) \<and> cfg_n_shards config < 2 ^ 16"

lemma encodesD:
  assumes "encodes L config blob be"
  shows "be_ok L be" and "be_config be = reed_solomon config" and "be_blob be = blob" and "cfg_n_shards config = n_of be"
    and "symbol_size_for_blob (reed_solomon config) (length blob) = Inr (be_symbol_size be)"
    and "metadata_symbol_size (md_of H L be) config = Inr (be_symbol_size be)"
    and "n_source_symbols (reed_solomon config) t * be_symbol_size be < 2 ^ 32"
    and "be_decodable L be"
proof -
  from assms have ready: "rs_ready L (reed_solomon config)" and new: "blob_encoder_new (reed_solomon config) blob = Inr be"
    and n: "cfg_n_shards config = rs_n_shards (reed_solomon config)" "cfg_n_shards config < 2 ^ 16"
    by (simp_all add: encodes_def)
  note be = blob_encoder_new_ok [OF rs_ready_enc [OF ready] new]
  show "be_ok L be" "be_config be = reed_solomon config" "be_blob be = blob" "cfg_n_shards config = n_of be"
    "symbol_size_for_blob (reed_solomon config) (length blob) = Inr (be_symbol_size be)"
    using be n(1) by simp_all
  show "be_decodable L be" by (rule blob_encoder_new_decodable [OF ready new])
  show "metadata_symbol_size (md_of H L be) config = Inr (be_symbol_size be)" using be by (simp add: metadata_symbol_size_def)
  have "n_source_symbols (reed_solomon config) t \<le> 65535" using be_okD(1,2,9,10) [OF be(1)] be(2) n by (cases t) auto
  moreover have "be_symbol_size be \<le> 65535" using be_okD(7) [OF be(1)] by (simp add: rs_encodable_def)
  ultimately have "n_source_symbols (reed_solomon config) t * be_symbol_size be \<le> 65535 * 65535" by (rule mult_le_mono)
  then show "n_source_symbols (reed_solomon config) t * be_symbol_size be < 2 ^ 32" by simp
qed

lemma sliver_verify_encoded:
  assumes enc: "encodes L config blob be" and com: "t = Primary \<longrightarrow> rs_commutes L (reed_solomon config)" and q: "q < n_of be"
  shows "sliver_verify H L config t (enc_sliver t L be q) (md_of H L be) = Inr ()"
proof -
  note be = encodesD [OF enc]
  let ?c = "reed_solomon config" let ?k = "n_source_symbols ?c (orthogonal t)" let ?s = "be_symbol_size be"
  let ?xs = "take ?k (line_of t L be q)"
  have sl: "enc_sliver t L be q = \<lparr> sl_symbols = mk_symbols ?s ?xs, sl_index = q \<rparr>" using enc_sliver_line [OF be(1) q] be(2) by simp
  have xs: "length ?xs = ?k" "sized ?s ?xs"
    using line_props(1,2) [OF be(1) q] be(2) line_encodable [OF be(1), of t] by (simp_all add: rs_encodable_def)
  have len: "has_correct_length ?c t (enc_sliver t L be q) (length blob) = Inr True"
    using be(5) be(7) [of "orthogonal t"] xs
    by (simp add: has_correct_length_def expected_length_def sliver_size_for_blob_def checked_mul_def sl sliver_len_def length_concat_sized)
  have code: "codeword L (rs_n_shards ?c) ?s ?xs = line_of t L be q" using line_is_code [OF be(1) _ q] com be(2) by simp
  obtain p where p: "to_pair_index_of_sliver t q (n_of be) = Some p" "p < n_of be"
    "pair_hash t (expanded_hashes H L be ! p) = root (build H (line_of t L be q))"
    using sliver_hash [OF q] .
  have "rs_encodable L ?k (rs_n_shards ?c) ?s" using line_encodable [OF be(1), of t] be(2) by simp
  from get_merkle_root_ok [OF this xs, of H q] have "check_hash H L ?c t (enc_sliver t L be q) (md_of H L be) = Inr ()"
    using p be(2) code by (simp add: check_hash_def sl)
  then show ?thesis using len q be(6) [of H] be(3) by (simp add: sliver_verify_def sl)
qed

section \<open>Recovering a sliver\<close>

lemma decode_line_symbols:
  assumes ok: "be_ok L be" and dec: "be_decodable L be" and com: "t = Primary \<longrightarrow> rs_commutes L (be_config be)" and q: "q < n_of be"
    and i: "set is \<subseteq> {..<n_of be}" "n_source_symbols (be_config be) (orthogonal t) \<le> card (set is)"
  shows "decode_from_decoding_symbols L (be_config be) t (be_symbol_size be) (code_symbols (line_of t L be q) is) =
    Inr (concat (take (n_source_symbols (be_config be) (orthogonal t)) (line_of t L be q)))"
proof -
  let ?k = "n_source_symbols (be_config be) (orthogonal t)" let ?xs = "take ?k (line_of t L be q)"
  note sup = line_supported [OF ok dec, of t]
  have xs: "length ?xs = ?k" "sized (be_symbol_size be) ?xs" using line_props(1,2) [OF ok q] sup by (simp_all add: rs_supported_def)
  obtain d where d: "rs_decoder_new L ?k (n_of be) (be_symbol_size be) = Inr d" "decoder_fresh ?k (n_of be) (be_symbol_size be) d"
    using rs_decoder_new_fresh [OF sup] by blast
  from decoder_decode_codeword [OF sup d(2) xs i] obtain d' where
    "decoder_decode L d (code_symbols (codeword L (n_of be) (be_symbol_size be) ?xs) is) = (Inr (concat ?xs), d')" .
  then show ?thesis using line_is_code [OF ok com q] d(1) by (simp add: decode_from_decoding_symbols_def get_decoder_def)
qed

lemma decode_too_few:
  assumes ok: "be_ok L be" and dec: "be_decodable L be" and need: "rs_needs_enough L (be_config be)" and q: "q < n_of be"
    and i: "set is \<subseteq> {..<n_of be}" "card (set is) < n_source_symbols (be_config be) (orthogonal t)"
  shows "\<exists>err. decode_from_decoding_symbols L (be_config be) t (be_symbol_size be) (code_symbols (line_of t L be q) is) = Inl (DecoderError err)"
proof -
  let ?k = "n_source_symbols (be_config be) (orthogonal t)" let ?s = "be_symbol_size be" let ?cw = "line_of t L be q"
  note sup = line_supported [OF ok dec, of t] and mem = rs_encodable_usize [OF line_encodable [OF ok, of t]]
  obtain d where d: "rs_decoder_new L ?k (n_of be) ?s = Inr d" "decoder_fresh ?k (n_of be) ?s d"
    using rs_decoder_new_fresh [OF sup] by blast
  then have d0: "d = \<lparr> rd_n_source = ?k, rd_n_shards = n_of be, rd_source = mk_symbols ?s (replicate ?k (replicate ?s 0)), rd_calls = [] \<rparr>"
    using symbols_zeros_mk [OF mem(2)] by (cases d) (simp add: decoder_fresh_def)
  have kn: "?k \<le> n_of be" using sup by (simp add: rs_supported_def)
  obtain src where rc: "try_fold receive_symbol d (code_symbols ?cw is) = Inr \<lparr> rd_n_source = ?k, rd_n_shards = n_of be,
      rd_source = mk_symbols ?s src, rd_calls = map (\<lambda>i. call_of ?k (i, ?cw ! i)) is \<rparr>"
    using receive_code_symbols [OF line_props(2) [OF ok q, of t], of "is" ?k "replicate ?k (replicate ?s 0)" "n_of be" "[]"] i(1) kn mem
      line_props(1) [OF ok q] unfolding d0 by auto
  have "call_index ?k ` set (map (\<lambda>i. call_of ?k (i, ?cw ! i)) is) = set is" by (simp add: image_image del: call_of.simps)
  then obtain err where "rs_decode L ?k (n_of be - ?k) ?s (map (\<lambda>i. call_of ?k (i, ?cw ! i)) is) = Inl err"
    using need i(2) unfolding rs_needs_enough_def by metis
  then show ?thesis using rc d(1) by (simp add: decode_from_decoding_symbols_def get_decoder_def decoder_decode_def Let_def)
qed

lemma recover_line:
  assumes ok: "be_ok L be" and dec: "be_decodable L be" and com: "t = Primary \<longrightarrow> rs_commutes L (be_config be)" and q: "q < n_of be"
    and i: "set is \<subseteq> {..<n_of be}" "n_source_symbols (be_config be) (orthogonal t) \<le> card (set is)"
  shows "recover_sliver_from_decoding_symbols L (be_config be) t (code_symbols (line_of t L be q) is) q (be_symbol_size be) =
    Inr (enc_sliver t L be q)"
proof -
  let ?k = "n_source_symbols (be_config be) (orthogonal t)" let ?xs = "take ?k (line_of t L be q)"
  have "?k \<le> length is" using i(2) card_length [of "is"] by simp
  moreover have "sized (be_symbol_size be) ?xs" using line_props(2) [OF ok q] by simp
  then have "be_symbol_size be dvd length (concat ?xs)" by (simp add: length_concat_sized)
  ultimately show ?thesis using decode_line_symbols [OF ok dec com q i]
    by (simp add: recover_sliver_from_decoding_symbols_def n_symbols_for_recovery_def n_slivers_for_reconstruction_def
        code_symbols_def sliver_new_def symbols_new_def enc_sliver_line [OF ok q] mk_symbols_def)
qed

section \<open>Verified recovery symbols\<close>

text \<open>The inputs hashed for the sliver trees of an encoded blob and for a list of recovery symbols.\<close>

definition sliver_queries :: "(bytes \<Rightarrow> bytes) \<Rightarrow> rs_lib \<Rightarrow> blob_encoder \<Rightarrow> bytes list" where
  "sliver_queries H L be = concat (map (\<lambda>i. build_queries H (line_of Primary L be i) @ build_queries H (line_of Secondary L be i)) [0..<n_of be])"

definition symbol_queries :: "(bytes \<Rightarrow> bytes) \<Rightarrow> nat \<Rightarrow> recovery_symbol list \<Rightarrow> bytes list" where
  "symbol_queries H target rs = concat (map (\<lambda>r. proof_queries H (rsy_proof r) (ds_data (rsy_symbol r)) target) rs)"

lemma verified_symbol:
  assumes ok: "be_ok L be" and dig: "digest32 H" and nodes: "\<forall>x \<in> set (rsy_proof r). node_ok x"
    and cf: "collision_free H (symbol_queries H target rs @ sliver_queries H L be)" and r: "r \<in> set rs"
    and v: "recovery_symbol_verify H t (n_of be) sz (md_of H L be) target r = Inr ()"
  shows "target < n_of be" and "ds_index (rsy_symbol r) < n_of be"
    and "ds_data (rsy_symbol r) = line_of t L be target ! ds_index (rsy_symbol r)"
proof -
  let ?i = "ds_index (rsy_symbol r)" let ?o = "orthogonal t" let ?line = "line_of ?o L be ?i"
  show i: "?i < n_of be" using v by (auto simp: recovery_symbol_verify_def Let_def split: if_splits)
  obtain p where p: "to_pair_index_of_sliver ?o ?i (n_of be) = Some p" "p < n_of be"
    "pair_hash ?o (expanded_hashes H L be ! p) = root (build H ?line)"
    using sliver_hash [OF i] .
  have vp: "verify_proof H (rsy_proof r) (root (build H ?line)) (length ?line) (ds_data (rsy_symbol r)) target = Inr ()"
    using v p i by (auto simp: recovery_symbol_verify_def Let_def get_sliver_hash_pair map_err_Inr_iff line_props(1) [OF ok] split: if_splits)
  have "set (proof_queries H (rsy_proof r) (ds_data (rsy_symbol r)) target) \<subseteq> set (symbol_queries H target rs)"
    using r by (auto simp: symbol_queries_def)
  moreover have "set (build_queries H ?line) \<subseteq> set (sliver_queries H L be)" using i by (cases t) (auto simp: sliver_queries_def)
  ultimately have "collision_free H (proof_queries H (rsy_proof r) (ds_data (rsy_symbol r)) target @ build_queries H ?line)"
    using cf unfolding collision_free_def by (auto intro: inj_on_subset)
  from verify_proof_binds [OF dig nodes this vp] have "target < n_of be" and d: "ds_data (rsy_symbol r) = ?line ! target"
    by (simp_all add: line_props(1) [OF ok i])
  then show "target < n_of be" "ds_data (rsy_symbol r) = line_of t L be target ! ?i" using i cross_line by simp_all
qed

lemma verified_symbols:
  assumes ok: "be_ok L be" and dig: "digest32 H" and nodes: "\<forall>r \<in> set rs. \<forall>x \<in> set (rsy_proof r). node_ok x"
    and cf: "collision_free H (symbol_queries H target rs @ sliver_queries H L be)"
    and v: "\<forall>r \<in> set rs. recovery_symbol_verify H t (n_of be) sz (md_of H L be) target r = Inr ()"
  shows "map rsy_symbol rs = code_symbols (line_of t L be target) (map (\<lambda>r. ds_index (rsy_symbol r)) rs)"
    and "set (map (\<lambda>r. ds_index (rsy_symbol r)) rs) \<subseteq> {..<n_of be}" and "rs \<noteq> [] \<Longrightarrow> target < n_of be"
proof -
  note sym = verified_symbol [OF ok dig _ cf]
  show "map rsy_symbol rs = code_symbols (line_of t L be target) (map (\<lambda>r. ds_index (rsy_symbol r)) rs)"
    using sym(3) nodes v by (auto simp: code_symbols_def intro!: decoding_symbol.equality)
  show "set (map (\<lambda>r. ds_index (rsy_symbol r)) rs) \<subseteq> {..<n_of be}" using sym(2) nodes v by auto
  show "rs \<noteq> [] \<Longrightarrow> target < n_of be" using sym(1) nodes v by (cases rs) auto
qed

lemma inconsistent_only_mismatch:
  "(case x of Inl MerkleRootMismatch \<Rightarrow> Inr () | Inl e \<Rightarrow> Inl (InconsistencySliverError e) | Inr _ \<Rightarrow> Inl SliverNotInconsistent) = Inr () \<Longrightarrow>
   x = Inl MerkleRootMismatch"
  by (cases x) (auto split: sliver_error.splits)

section \<open>Recovery symbols of encoded slivers\<close>

definition sliver_of :: "axis \<Rightarrow> sliver_pair \<Rightarrow> sliver_data" where
  "sliver_of t p = (case t of Primary \<Rightarrow> pair_primary p | Secondary \<Rightarrow> pair_secondary p)"

lemma sliver_of_pair:
  assumes "j < n_of be"
  obtains q where "to_sliver_index t j (n_of be) = Some q" and "q < n_of be" and "sliver_of t (encoded_pairs L be ! j) = enc_sliver t L be q"
    and "q = (if is_primary t then j else n_of be - 1 - j)"
  using assms that [of "if is_primary t then j else n_of be - 1 - j"]
  by (cases t) (simp_all add: to_sliver_index_def is_primary_def sliver_of_def encoded_pairs_def enc_sliver_def)

lemma recovery_symbol_of_sliver:
  assumes ok: "be_ok L be" and com: "rs_commutes L (be_config be)" and i: "i < n_of be" and q: "q < n_of be"
    and tp: "tp < n_of be" "to_sliver_index t tp (n_of be) = Some q"
  obtains r where "recovery_symbol_for_sliver H L (be_config be) (orthogonal t) (enc_sliver (orthogonal t) L be i) tp = Inr r"
    and "rsy_symbol r = \<lparr> ds_index = i, ds_data = line_of t L be q ! i \<rparr>"
    and "recovery_symbol_verify H t (n_of be) (be_symbol_size be) (md_of H L be) q r = Inr ()"
proof -
  let ?o = "orthogonal t" let ?line = "line_of ?o L be i" let ?s = "be_symbol_size be"
  let ?xs = "take (n_source_symbols (be_config be) (orthogonal ?o)) ?line"
  have oo: "orthogonal ?o = t" by (cases t) simp_all
  note sup = line_encodable [OF ok, of ?o]
  have xs: "length ?xs = n_source_symbols (be_config be) (orthogonal ?o)" "sized ?s ?xs"
    using line_props(1,2) [OF ok i] sup by (simp_all add: rs_encodable_def)
  have "codeword L (n_of be) ?s ?xs = ?line" using line_is_code [OF ok _ i, of ?o] com by simp
  then have rec: "recovery_symbols L (be_config be) ?o (enc_sliver ?o L be i) = Inr (mk_symbols ?s ?line)"
    using recovery_symbols_ok [OF sup xs, of i] enc_sliver_line [OF ok i, of ?o] by simp
  have syms: "to_symbols (mk_symbols ?s ?line) = ?line" using line_props(2) [OF ok i] be_okD(3) [OF ok] by simp
  have at: "decoding_symbol_at (mk_symbols ?s ?line) q i = Inr (Some \<lparr> ds_index = i, ds_data = ?line ! q \<rparr>)"
    using line_props(1,2) [OF ok i] q be_okD(3) [OF ok] be_usize(3) [OF ok] by (simp add: decoding_symbol_at_def)
  obtain path where path: "get_proof (build H ?line) q = Inr path"
    and ver: "verify_proof H path (root (build H ?line)) (length ?line) (?line ! q) q = Inr ()"
    using walrus_merkle.opening_checks [of H ?line q] q line_props(1) [OF ok i, of ?o]
    by (auto simp: build_def get_proof_build_from_leaf_hashes split: sum.splits)
  obtain p where p: "to_pair_index_of_sliver ?o i (n_of be) = Some p" "p < n_of be"
    "pair_hash ?o (expanded_hashes H L be ! p) = root (build H ?line)"
    using sliver_hash [OF i] .
  have len: "length (?line ! q) = ?s" using line_props(1,2) [OF ok i] q by (simp add: sized_nth)
  have cross: "?line ! q = line_of t L be q ! i" by (rule cross_line [OF q i])
  let ?r = "\<lparr> rsy_symbol = \<lparr> ds_index = i, ds_data = ?line ! q \<rparr>, rsy_proof = path \<rparr>"
  show ?thesis
  proof (rule that [of ?r])
    show "recovery_symbol_for_sliver H L (be_config be) ?o (enc_sliver ?o L be i) tp = Inr ?r"
      using tp enc_sliver_shape(1) [OF ok i, of ?o]
      by (simp add: recovery_symbol_for_sliver_def check_index_def rec oo at syms path)
    show "recovery_symbol_verify H t (n_of be) ?s (md_of H L be) q ?r = Inr ()"
      using i len p ver line_props(1) [OF ok i, of ?o] by (simp add: recovery_symbol_verify_def get_sliver_hash_pair)
  qed (simp add: cross)
qed

text \<open>The one-shard example.\<close>

definition one_encoding :: encoding_config where
  "one_encoding = \<lparr> cfg_n_shards = 1, reed_solomon = one_config \<rparr>"

lemma one_encodes: "encodes one_rs one_encoding [7, 9] one_be"
  by (simp add: encodes_def one_encoding_def one_ready one_encoder) (simp add: one_config_def)

lemma one_commutes: "rs_commutes one_rs one_config"
  by (auto simp: rs_commutes_def Let_def one_config_def extended_cell_def codeword_def parity_def one_rs_def)

lemma one_needs_enough: "rs_needs_enough one_rs one_config"
proof -
  have "card (call_index (Suc 0) ` set calls) < Suc 0 \<Longrightarrow> calls = []" for calls by (cases calls) auto
  then show ?thesis by (auto simp: rs_needs_enough_def one_config_def one_rs_def n_source_symbols_def)
qed

lemma one_shard: "n_of one_be = 1" "cfg_n_shards one_encoding = 1" "reed_solomon one_encoding = one_config"
  by (simp_all add: one_be_def one_config_def one_encoding_def)

section \<open>Properties\<close>

text \<open>
  C16: No inconsistency proof against a correctly encoded blob. For the metadata that encoding a
  blob returns, no inconsistency proof of either axis is accepted: the symbols it carries are
  authenticated as symbols of the blob, so they decode to the committed sliver, or they are too few
  distinct ones and decoding fails. Honest writers cannot be accused, as long as no two of the
  hashed inputs collide.
\<close>

theorem no_false_inconsistency_proof:
  assumes enc: "encodes L config blob be" and need: "rs_needs_enough L (reed_solomon config)"
    and com: "t = Primary \<longrightarrow> rs_commutes L (reed_solomon config)" and dig: "digest32 H"
    and md: "encode_with_metadata H L be = Inr (pairs, md)"
    and nodes: "\<forall>r \<in> set (ip_recovery_symbols ip). \<forall>x \<in> set (rsy_proof r). node_ok x"
    and cf: "collision_free H (symbol_queries H (target_sliver_index ip) (ip_recovery_symbols ip) @ sliver_queries H L be)"
  shows "inconsistency_verify H L t ip (metadata md) config \<noteq> Inr ()"
proof
  assume acc: "inconsistency_verify H L t ip (metadata md) config = Inr ()"
  note be = encodesD [OF enc]
  let ?c = "reed_solomon config" let ?k = "n_source_symbols ?c (orthogonal t)" let ?s = "be_symbol_size be"
  let ?rs = "ip_recovery_symbols ip" let ?q = "target_sliver_index ip" let ?is = "map (\<lambda>r. ds_index (rsy_symbol r)) ?rs"
  have m: "metadata md = md_of H L be" using md encode_with_metadata_ok [OF be(1)] by simp
  have len: "length ?rs = ?k" and v: "\<forall>r \<in> set ?rs. recovery_symbol_verify H t (n_of be) ?s (md_of H L be) ?q r = Inr ()"
    using acc be(4) be(6) [of H] by (auto simp: m inconsistency_verify_def check_recovery_symbols_def Let_def and_then_Inr_iff
        map_err_Inr_iff ensure_Inr_iff n_symbols_for_recovery_def n_slivers_for_reconstruction_def)
  obtain sl where rec: "recover_sliver_from_decoding_symbols L ?c t (map rsy_symbol ?rs) ?q ?s = Inr sl"
    and mis: "sliver_verify H L config t sl (md_of H L be) = Inl MerkleRootMismatch"
    using acc be(6) [of H] inconsistent_only_mismatch by (auto simp: m inconsistency_verify_def and_then_Inr_iff map_err_Inr_iff recover_sliver_without_verification_def)
  note sym = verified_symbols [OF be(1) dig nodes cf v]
  have "0 < ?k" using line_encodable [OF be(1), of t] be(2) by (simp add: rs_encodable_def)
  then have "?rs \<noteq> []" using len by (metis length_0_conv less_irrefl)
  then have q: "?q < n_of be" by (rule sym(3))
  show False
  proof (cases "?k \<le> card (set ?is)")
    case True
    then have "sl = enc_sliver t L be ?q" using recover_line [OF be(1) be(8) _ q sym(2)] rec com sym(1) be(2) by simp
    then show False using mis sliver_verify_encoded [OF enc com q] by simp
  next
    case False
    then obtain err where "decode_from_decoding_symbols L ?c t ?s (map rsy_symbol ?rs) = Inl (DecoderError err)"
      using decode_too_few [OF be(1) be(8) _ q sym(2), of t] need sym(1) be(2) by auto
    then show False using rec by (simp add: recover_sliver_from_decoding_symbols_def split: if_splits)
  qed
qed

theorem no_false_inconsistency_proof_witness:
  "\<exists>config be pairs md. encodes one_rs config [7, 9] be \<and>
     encode_with_metadata (\<lambda>q. replicate 32 (of_nat (length q))) one_rs be = Inr (pairs, md) \<and>
     inconsistency_verify (\<lambda>q. replicate 32 (of_nat (length q))) one_rs Primary
       \<lparr> target_sliver_index = 0, ip_recovery_symbols = [\<lparr> rsy_symbol = \<lparr> ds_index = 0, ds_data = [7, 9] \<rparr>, rsy_proof = [] \<rparr>] \<rparr>
       (metadata md) config \<noteq> Inr ()"
proof -
  let ?H = "\<lambda>q :: bytes. replicate 32 (of_nat (length q) :: byte)"
  let ?ip = "\<lparr> target_sliver_index = 0, ip_recovery_symbols = [\<lparr> rsy_symbol = \<lparr> ds_index = 0, ds_data = [7, 9] \<rparr>, rsy_proof = [] \<rparr>] \<rparr>"
  have "sliver_queries ?H one_rs one_be = [[0, 7, 9], [0, 7, 9]]"
    by (simp add: sliver_queries_def one_shard line_of_def one_cell build_queries_def tree_queries.simps)
  then have cf: "collision_free ?H (symbol_queries ?H (target_sliver_index ?ip) (ip_recovery_symbols ?ip) @ sliver_queries ?H one_rs one_be)"
    by (simp add: symbol_queries_def proof_queries_def collision_free_def)
  have md: "encode_with_metadata ?H one_rs one_be = Inr (encoded_pairs one_rs one_be, expanded_metadata ?H one_rs one_be)"
    by (rule encode_with_metadata_ok [OF encodesD(1) [OF one_encodes]])
  have "digest32 ?H" by (simp add: digest32_def)
  from no_false_inconsistency_proof [OF one_encodes _ _ this md, of Primary ?ip] one_needs_enough one_commutes cf
  have "inconsistency_verify ?H one_rs Primary ?ip (metadata (expanded_metadata ?H one_rs one_be)) one_encoding \<noteq> Inr ()"
    by (simp add: one_encoding_def)
  with one_encodes md show ?thesis by blast
qed

text \<open>
  C15: Lost slivers can be recovered. For every sliver of an encoded blob, of either axis, and every
  list of at least \<^verbatim>\<open>n_symbols_for_recovery\<close> different sliver pairs: each of the pairs computes a
  recovery symbol from its sliver of the other axis, every one of these symbols verifies against the
  metadata, and recovery from them returns the sliver itself, not an inconsistency proof.
\<close>

theorem sliver_recovery:
  assumes enc: "encodes L config blob be" and com: "rs_commutes L (reed_solomon config)"
    and md: "encode_with_metadata H L be = Inr (pairs, md)" and tp: "tp < cfg_n_shards config"
    and js: "set js \<subseteq> {..<cfg_n_shards config}" "distinct js" "n_symbols_for_recovery (reed_solomon config) t \<le> length js"
  shows "\<exists>rs. list_all2 (\<lambda>j r. recovery_symbol_for_sliver H L (reed_solomon config) (orthogonal t) (sliver_of (orthogonal t) (pairs ! j)) tp = Inr r \<and>
        recovery_symbol_verify H t (cfg_n_shards config) (be_symbol_size be) (metadata md) (sl_index (sliver_of t (pairs ! tp))) r = Inr ()) js rs \<and>
    recover_sliver_or_generate_inconsistency_proof H L t rs (sl_index (sliver_of t (pairs ! tp))) (metadata md) config =
      Inr (RecoveredSliver (sliver_of t (pairs ! tp)))"
proof -
  note be = encodesD [OF enc]
  let ?c = "reed_solomon config" let ?k = "n_symbols_for_recovery ?c t" let ?o = "orthogonal t" let ?n = "n_of be"
  have pm: "pairs = encoded_pairs L be" "metadata md = md_of H L be" using md encode_with_metadata_ok [OF be(1)] by simp_all
  have tpn: "tp < ?n" using tp be(4) by simp
  obtain q where q: "to_sliver_index t tp ?n = Some q" "q < ?n" "sliver_of t (pairs ! tp) = enc_sliver t L be q"
    using sliver_of_pair [OF tpn, of t L] pm(1) by metis
  have qi: "sl_index (sliver_of t (pairs ! tp)) = q" using q enc_sliver_shape(1) [OF be(1)] by simp
  define pos where "pos j = (if is_primary ?o then j else ?n - 1 - j)" for j
  have pos: "pos j < ?n" "sliver_of ?o (pairs ! j) = enc_sliver ?o L be (pos j)" if "j \<in> set js" for j
  proof -
    have "j < ?n" using that js(1) be(4) by auto
    then show "pos j < ?n" "sliver_of ?o (pairs ! j) = enc_sliver ?o L be (pos j)"
      using sliver_of_pair [of j be ?o L] pm(1) unfolding pos_def by metis+
  qed
  have inj: "inj_on pos (set js)"
  proof (rule inj_onI)
    fix x y assume "x \<in> set js" "y \<in> set js" and eq: "pos x = pos y"
    then have "x < ?n" "y < ?n" using js(1) be(4) by auto
    then show "x = y" using eq unfolding pos_def by (auto split: if_splits)
  qed
  let ?P = "\<lambda>j r. recovery_symbol_for_sliver H L ?c ?o (enc_sliver ?o L be (pos j)) tp = Inr r \<and>
    rsy_symbol r = \<lparr> ds_index = pos j, ds_data = line_of t L be q ! pos j \<rparr> \<and>
    recovery_symbol_verify H t ?n (be_symbol_size be) (md_of H L be) q r = Inr ()"
  have "\<exists>r. ?P j r" if "j \<in> set js" for j
    using recovery_symbol_of_sliver [OF be(1) _ pos(1) [OF that] q(2) tpn q(1), of H] com be(2) by metis
  then obtain f where f: "\<And>j. j \<in> set js \<Longrightarrow> ?P j (f j)" by metis
  let ?rs = "map f js" let ?is = "map pos (take ?k js)"
  have all: "list_all2 (\<lambda>j r. recovery_symbol_for_sliver H L ?c ?o (sliver_of ?o (pairs ! j)) tp = Inr r \<and>
      recovery_symbol_verify H t (cfg_n_shards config) (be_symbol_size be) (metadata md) (sl_index (sliver_of t (pairs ! tp))) r = Inr ()) js ?rs"
    using f pos(2) pm(2) be(4) qi by (simp add: list_all2_conv_all_nth)
  have sym: "map rsy_symbol (take ?k ?rs) = code_symbols (line_of t L be q) ?is"
    using f by (auto simp: code_symbols_def take_map dest: in_set_takeD)
  have "card (set ?is) = length (take ?k js)"
    using js(2) inj card_image [of pos "set (take ?k js)"] distinct_card [of "take ?k js"]
    by (simp add: inj_on_subset [OF inj set_take_subset])
  then have card: "n_source_symbols (be_config be) ?o \<le> card (set ?is)"
    using js(3) be(2) by (simp add: n_symbols_for_recovery_def n_slivers_for_reconstruction_def)
  have sub: "set ?is \<subseteq> {..<?n}" using pos(1) by (auto dest: in_set_takeD)
  have "recover_sliver_without_verification L ?c t (take ?k ?rs) q (be_symbol_size be) = Inr (enc_sliver t L be q)"
    using recover_line [OF be(1) be(8) _ q(2) sub card] com be(2) sym by (simp add: recover_sliver_without_verification_def)
  then have "recover_sliver_or_generate_inconsistency_proof H L t ?rs q (metadata md) config = Inr (RecoveredSliver (enc_sliver t L be q))"
    using be(6) [of H] sliver_verify_encoded [OF enc _ q(2), of t H] com pm(2)
    by (simp add: recover_sliver_or_generate_inconsistency_proof_def Let_def)
  from conjI [OF all [unfolded qi] this] show ?thesis
    unfolding q(3) enc_sliver_shape(1) [OF be(1) q(2)] by (rule exI [where x = ?rs])
qed

theorem sliver_recovery_witness:
  "\<exists>pairs md rs. encode_with_metadata (\<lambda>q. replicate 32 (of_nat (length q))) one_rs one_be = Inr (pairs, md) \<and> length rs = 1 \<and>
     recover_sliver_or_generate_inconsistency_proof (\<lambda>q. replicate 32 (of_nat (length q))) one_rs Secondary rs
       (sl_index (pair_secondary (pairs ! 0))) (metadata md) one_encoding = Inr (RecoveredSliver (pair_secondary (pairs ! 0)))"
proof -
  let ?H = "\<lambda>q :: bytes. replicate 32 (of_nat (length q) :: byte)"
  have md: "encode_with_metadata ?H one_rs one_be = Inr (encoded_pairs one_rs one_be, expanded_metadata ?H one_rs one_be)"
    by (rule encode_with_metadata_ok [OF encodesD(1) [OF one_encodes]])
  have "0 < cfg_n_shards one_encoding" "set [0] \<subseteq> {..<cfg_n_shards one_encoding}" "distinct [0 :: nat]"
    "n_symbols_for_recovery (reed_solomon one_encoding) Secondary \<le> length [0 :: nat]"
    by (simp_all add: one_shard n_symbols_for_recovery_def n_slivers_for_reconstruction_def) (simp_all add: one_config_def)
  from sliver_recovery [OF one_encodes _ md this] one_commutes obtain rs where
    l: "list_all2 (\<lambda>j r. recovery_symbol_for_sliver ?H one_rs one_config Primary (sliver_of Primary (encoded_pairs one_rs one_be ! j)) 0 = Inr r \<and>
        recovery_symbol_verify ?H Secondary 1 (be_symbol_size one_be) (md_of ?H one_rs one_be) (sl_index (sliver_of Secondary (encoded_pairs one_rs one_be ! 0))) r = Inr ()) [0] rs"
    and r: "recover_sliver_or_generate_inconsistency_proof ?H one_rs Secondary rs (sl_index (sliver_of Secondary (encoded_pairs one_rs one_be ! 0)))
      (md_of ?H one_rs one_be) one_encoding = Inr (RecoveredSliver (sliver_of Secondary (encoded_pairs one_rs one_be ! 0)))"
    unfolding one_shard orthogonal.simps by blast
  show ?thesis using md r list_all2_lengthD [OF l] unfolding sliver_of_def axis.case by (intro exI conjI) simp_all
qed

text \<open>
  C34: The check that a recovery symbol is usable for a target is too weak. Any symbol of an encoded
  blob whose source sliver has the same index as the target sliver is accepted for that target,
  although the source sliver is of the other axis and the symbol lies on another row: for every row
  \<open>k\<close>, the symbol at row \<open>k\<close> of secondary sliver \<open>i\<close> verifies as a symbol for primary sliver \<open>i\<close>,
  and is then used as that sliver's symbol at position \<open>i\<close>.
\<close>

theorem foreign_symbol_accepted:
  assumes enc: "encodes L config blob be" and md: "encode_with_metadata H L be = Inr (pairs, md)"
    and i: "i < cfg_n_shards config" and k: "k < cfg_n_shards config"
  shows "\<exists>path. let g = \<lparr> grs_symbol = PrimarySymbol \<lparr> ds_index = i, ds_data = cell L be k i \<rparr>, grs_target_index = k, grs_proof = path \<rparr> in
    general_verify H g (metadata md) config i Primary = Inr () \<and> grs_id g = (k, i) \<and>
    into_decoding_symbol Primary (grs_symbol g) (grs_target_index g) = \<lparr> ds_index = i, ds_data = cell L be k i \<rparr>"
proof -
  note be = encodesD [OF enc]
  let ?line = "line_of Secondary L be i"
  have n: "i < n_of be" "k < n_of be" using i k be(4) by simp_all
  have pm: "metadata md = md_of H L be" using md encode_with_metadata_ok [OF be(1)] by simp
  have at: "?line ! k = cell L be k i" using line_props(3) [OF be(1) n(1) n(2), of Secondary] by simp
  obtain path where path: "verify_proof H path (root (build H ?line)) (length ?line) (?line ! k) k = Inr ()"
    using walrus_merkle.opening_checks [of H ?line k] n(2) line_props(1) [OF be(1) n(1), of Secondary]
    by (auto simp: build_def get_proof_build_from_leaf_hashes split: sum.splits)
  obtain p where p: "to_pair_index_of_sliver Secondary i (n_of be) = Some p" "p < n_of be"
    "pair_hash Secondary (expanded_hashes H L be ! p) = root (build H ?line)"
    using sliver_hash [OF n(1)] .
  have "general_verify H \<lparr> grs_symbol = PrimarySymbol \<lparr> ds_index = i, ds_data = cell L be k i \<rparr>, grs_target_index = k, grs_proof = path \<rparr>
      (md_of H L be) config i Primary = Inr ()"
    using n be(1,4) be(6) [of H] p path line_props(1) [OF be(1) n(1), of Secondary] at
    by (simp add: general_verify_def Let_def get_expected_root_def get_sliver_hash_pair)
  then show ?thesis by (intro exI [of _ path]) (simp add: pm grs_id_def)
qed

theorem foreign_symbol_accepted_witness:
  "\<exists>be pairs md path. encode_with_metadata (\<lambda>q. replicate 32 (of_nat (length q))) small_rs be = Inr (pairs, md) \<and>
     general_verify (\<lambda>q. replicate 32 (of_nat (length q)))
       \<lparr> grs_symbol = PrimarySymbol \<lparr> ds_index = 1, ds_data = cell small_rs be 3 1 \<rparr>, grs_target_index = 3, grs_proof = path \<rparr>
       (metadata md) \<lparr> cfg_n_shards = 4, reed_solomon = small_config \<rparr> 1 Primary = Inr ()"
proof -
  let ?H = "\<lambda>q :: bytes. replicate 32 (of_nat (length q) :: byte)"
  obtain be where be: "blob_encoder_new small_config [1, 2, 3, 4, 5] = Inr be" using small_encoder by blast
  have enc: "encodes small_rs \<lparr> cfg_n_shards = 4, reed_solomon = small_config \<rparr> [1, 2, 3, 4, 5] be"
    using be small_ready by (simp add: encodes_def) (simp add: small_config_def)
  note md = encode_with_metadata_ok [OF encodesD(1) [OF enc], of ?H]
  from foreign_symbol_accepted [OF enc md, of 1 3] md show ?thesis by (auto simp: Let_def)
qed

end
