(* ===== verification/Walrus_Open.thy ===== *)
theory Walrus_Open
  imports Walrus_Metadata
begin

unbundle bit_operations_syntax

text \<open>
  Openings of Walrus blob commitments, \<^verbatim>\<open>drop-lib/src/walrus_open.rs\<close>: the host builds an opening
  from the leaf hashes of the expanded symbol matrix, the guest verifies it against the blob
  identifier and binds the sampled column aggregates of the shard proofs to the opened symbols.
  The host's wrapper around the encoder (\<^verbatim>\<open>build_column_blob_opening\<close>) is in theory \<open>Vdd_Host\<close>.
\<close>

section \<open>Openings\<close>

record symbol_opening =
  so_leaf_index :: nat
  so_symbol :: bytes
  so_path :: "node list"

record shard_opening =
  shard_index :: nat
  primary_root :: bytes
  secondary_root :: bytes
  primary_symbols :: "symbol_opening list"
  secondary_symbols :: "symbol_opening list"
  pair_leaf_path :: "node list"
  column_symbols :: "bytes list"
  column_leaf_hashes :: "node list"

record blob_opening =
  op_blob_id :: bytes
  op_encoding_type :: byte
  op_unencoded_length :: nat
  op_n_shards :: nat
  op_sliver_pair_roots :: "sliver_pair_roots list"
  op_shards :: "shard_opening list"

record symbol_request =
  rq_leaf_index :: nat
  rq_symbol :: bytes

record sample_request =
  sr_shard_index :: nat
  sr_primary_symbols :: "symbol_request list"
  sr_secondary_symbols :: "symbol_request list"
  sr_column_symbols :: "symbol_request list"

section \<open>Building an opening\<close>

text \<open>\<open>usize::isqrt\<close>: the integer square root.\<close>

function isqrt_from :: "nat \<Rightarrow> nat \<Rightarrow> nat" where
  "isqrt_from k n = (if (k + 1) * (k + 1) \<le> n then isqrt_from (k + 1) n else k)"
  by pat_completeness auto
termination
proof (relation "measure (\<lambda>(k, n). n - k)")
  fix k n :: nat
  assume "(k + 1) * (k + 1) \<le> n"
  then have "k < n" by simp
  then show "((k + 1, n), k, n) \<in> measure (\<lambda>(k, n). n - k)" by simp
qed simp

declare isqrt_from.simps [simp del]

definition isqrt :: "nat \<Rightarrow> nat" where
  "isqrt n = isqrt_from 0 n"

definition matrix_row :: "node list \<Rightarrow> nat \<Rightarrow> nat \<Rightarrow> node list" where
  "matrix_row symbol_hashes n i = take n (drop (i * n) symbol_hashes)"

definition matrix_col_rev :: "node list \<Rightarrow> nat \<Rightarrow> nat \<Rightarrow> node list" where
  "matrix_col_rev symbol_hashes n i = map (\<lambda>r. symbol_hashes ! (r * n + n - 1 - i)) [0..<n]"

definition shard_roots :: "(bytes \<Rightarrow> bytes) \<Rightarrow> node list \<Rightarrow> nat \<Rightarrow> nat \<Rightarrow> sliver_pair_roots" where
  "shard_roots H symbol_hashes n i =
     \<lparr> spr_primary = node_bytes (root (build_from_leaf_hashes H (matrix_row symbol_hashes n i))),
       spr_secondary = node_bytes (root (build_from_leaf_hashes H (matrix_col_rev symbol_hashes n i))) \<rparr>"

definition root_pair_leaf :: "sliver_pair_roots \<Rightarrow> bytes" where
  "root_pair_leaf r = spr_primary r @ spr_secondary r"

definition open_request ::
  "merkle_tree \<Rightarrow> string \<Rightarrow> symbol_request \<Rightarrow> (symbol_opening, string) result" where
  "open_request tree msg rq =
     and_then (map_err (\<lambda>_. msg) (get_proof tree (rq_leaf_index rq))) (\<lambda>path.
     Inr \<lparr> so_leaf_index = rq_leaf_index rq, so_symbol = rq_symbol rq, so_path = path \<rparr>)"

definition open_column :: "symbol_request list \<Rightarrow> (bytes list, string) result" where
  "open_column rqs =
     and_then (ensure (length rqs = COL_HEIGHT_SECONDARY)
       ''walrus_open: full primary sliver must contain 667 symbols'') (\<lambda>_.
     try_map (\<lambda>(leaf_index, rq).
         and_then (ensure (rq_leaf_index rq = leaf_index)
           ''walrus_open: full primary sliver symbols must be ordered'') (\<lambda>_. Inr (rq_symbol rq)))
       (enumerate 0 rqs))"

definition open_shard ::
  "(bytes \<Rightarrow> bytes) \<Rightarrow> node list \<Rightarrow> nat \<Rightarrow> sliver_pair_roots list \<Rightarrow> merkle_tree \<Rightarrow> sample_request \<Rightarrow>
   (shard_opening, string) result" where
  "open_shard H symbol_hashes n roots pair_tree sample =
     (let i = sr_shard_index sample;
          primary_tree = build_from_leaf_hashes H (matrix_row symbol_hashes n i);
          secondary_tree = build_from_leaf_hashes H (matrix_col_rev symbol_hashes n i)
      in
      and_then (try_map (open_request primary_tree ''walrus_open: failed to build primary symbol proof'')
                  (sr_primary_symbols sample)) (\<lambda>ps.
      and_then (try_map (open_request secondary_tree ''walrus_open: failed to build secondary symbol proof'')
                  (sr_secondary_symbols sample)) (\<lambda>ss.
      and_then (open_column (sr_column_symbols sample)) (\<lambda>cs.
      and_then (map_err (\<lambda>_. ''walrus_open: failed to build pair leaf proof'') (get_proof pair_tree i)) (\<lambda>path.
      Inr \<lparr> shard_index = i, primary_root = spr_primary (roots ! i), secondary_root = spr_secondary (roots ! i),
            primary_symbols = ps, secondary_symbols = ss, pair_leaf_path = path,
            column_symbols = cs, column_leaf_hashes = matrix_row symbol_hashes n i \<rparr>)))))"

definition check_sample :: "nat \<Rightarrow> sample_request \<Rightarrow> (unit, string) result" where
  "check_sample n sample =
     and_then (ensure (sr_shard_index sample < n) ''walrus_open: shard_index out of range'') (\<lambda>_.
     try_all (\<lambda>rq. ensure (rq_leaf_index rq < n) ''walrus_open: leaf_index out of range'')
       (sr_primary_symbols sample @ sr_secondary_symbols sample))"

definition build_walrus_blob_opening ::
  "(bytes \<Rightarrow> bytes) \<Rightarrow> node list \<Rightarrow> encoding_type \<Rightarrow> nat \<Rightarrow> sample_request list \<Rightarrow> (blob_opening, string) result" where
  "build_walrus_blob_opening H symbol_hashes e len samples =
     (let n = isqrt (length symbol_hashes) in
      if n = 0 \<or> n * n \<noteq> length symbol_hashes
      then Inl ''walrus_open: symbol_hashes length must be n_shards*n_shards''
      else if n > 2 ^ 32 - 1 then Inl ''walrus_open: n_shards too large''
      else
        and_then (try_all (check_sample n) samples) (\<lambda>_.
        let roots = map (shard_roots H symbol_hashes n) [0..<n];
            id = compute_blob_id_from_sliver_pair_roots H roots e len;
            pair_tree = build H (map root_pair_leaf roots)
        in
        and_then (try_map (open_shard H symbol_hashes n roots pair_tree) samples) (\<lambda>shards.
        Inr \<lparr> op_blob_id = id, op_encoding_type = encoding_type_u8 e, op_unencoded_length = len,
              op_n_shards = n, op_sliver_pair_roots = roots, op_shards = shards \<rparr>)))"

section \<open>Verifying an opening\<close>

definition verify_symbol ::
  "(bytes \<Rightarrow> bytes) \<Rightarrow> nat \<Rightarrow> bytes \<Rightarrow> string \<Rightarrow> symbol_opening \<Rightarrow> (unit, string) result" where
  "verify_symbol H n rt msg s =
     and_then (ensure (so_leaf_index s < n) ''walrus_open: symbol leaf index out of range'') (\<lambda>_.
     map_err (\<lambda>_. msg) (verify_proof H (so_path s) (Digest rt) n (so_symbol s) (so_leaf_index s)))"

definition verify_column ::
  "(bytes \<Rightarrow> bytes) \<Rightarrow> nat \<Rightarrow> shard_opening \<Rightarrow> (unit, string) result" where
  "verify_column H n sh =
     and_then (ensure (length (column_symbols sh) = COL_HEIGHT_SECONDARY)
       ''walrus_open: full primary sliver length mismatch'') (\<lambda>_.
     and_then (ensure (length (column_leaf_hashes sh) = n)
       ''walrus_open: primary leaf hash count mismatch'') (\<lambda>_.
     and_then (try_all (\<lambda>(symbol, expected_hash).
         ensure (root (build H [symbol]) = expected_hash) ''walrus_open: primary symbol/hash mismatch'')
       (zip (column_symbols sh) (column_leaf_hashes sh))) (\<lambda>_.
     ensure (node_bytes (root (build_from_leaf_hashes H (column_leaf_hashes sh))) = primary_root sh)
       ''walrus_open: full primary sliver root mismatch'')))"

definition verify_shard ::
  "(bytes \<Rightarrow> bytes) \<Rightarrow> nat \<Rightarrow> sliver_pair_roots list \<Rightarrow> node \<Rightarrow> shard_opening \<Rightarrow> (unit, string) result" where
  "verify_shard H n roots pair_root sh =
     (let i = shard_index sh in
      and_then (ensure (i < n) ''walrus_open: shard index out of range'') (\<lambda>_.
      and_then (ensure (spr_primary (roots ! i) = primary_root sh \<and> spr_secondary (roots ! i) = secondary_root sh)
        ''walrus_open: shard root mismatch'') (\<lambda>_.
      and_then (map_err (\<lambda>_. ''walrus_open: pair leaf opening failure'')
        (verify_proof H (pair_leaf_path sh) pair_root n (primary_root sh @ secondary_root sh) i)) (\<lambda>_.
      and_then (try_all (verify_symbol H n (primary_root sh) ''walrus_open: primary symbol opening failure'')
        (primary_symbols sh)) (\<lambda>_.
      and_then (try_all (verify_symbol H n (secondary_root sh) ''walrus_open: secondary symbol opening failure'')
        (secondary_symbols sh)) (\<lambda>_.
      verify_column H n sh))))))"

definition verify_walrus_blob_opening :: "(bytes \<Rightarrow> bytes) \<Rightarrow> blob_opening \<Rightarrow> (unit, string) result" where
  "verify_walrus_blob_opening H op =
     (let n = op_n_shards op; roots = op_sliver_pair_roots op in
      if n = 0 \<or> length roots \<noteq> n then Inl ''walrus_open: n_shards mismatch''
      else
        and_then (ok_or ''walrus_open: invalid encoding type'' (encoding_type_try_from (op_encoding_type op))) (\<lambda>e.
        let md = \<lparr> md_encoding_type = e, unencoded_length = op_unencoded_length op, hashes = roots_metadata roots \<rparr>
        in
        and_then (ensure (from_sliver_pair_metadata H md = op_blob_id op) ''walrus_open: blob id mismatch'') (\<lambda>_.
        let pair_root = root (build H (map root_pair_leaf roots))
        in try_all (verify_shard H n roots pair_root) (op_shards op))))"

section \<open>Column aggregates\<close>

definition cipher_row ::
  "keystream \<Rightarrow> bytes \<Rightarrow> bytes \<Rightarrow> nat \<Rightarrow> nat \<Rightarrow> nat \<Rightarrow> shard_opening \<Rightarrow> bytes \<Rightarrow> nat \<Rightarrow> (bytes, string) result" where
  "cipher_row ks key nonce data_len pack_size c sh expected r =
     (let byte_off = (c * COL_HEIGHT_SECONDARY + r) * pack_size;
          beta = GF_EXP ! (r mod 255);
          in_data = byte_off < data_len;
          data_end = min (byte_off + pack_size) data_len;
          sym = column_symbols sh ! r;
          ks_start = (if in_data then data_end - byte_off else 0);
          block = keystream_block ks key nonce byte_off pack_size
      in
      and_then (ensure (in_data \<longrightarrow> length sym = pack_size)
        ''rslh_walrus: full primary sliver symbol size mismatch'') (\<lambda>_.
      let e1 = (if in_data then mul_xor_at gf256_mul_walrus 0 (take (data_end - byte_off) sym) beta expected
                else expected)
      in Inr (mul_xor_at gf256_mul_walrus ks_start (drop ks_start block) beta e1)))"

definition cipher_column ::
  "keystream \<Rightarrow> bytes \<Rightarrow> bytes \<Rightarrow> nat \<Rightarrow> nat \<Rightarrow> ve_shard_proof \<times> shard_opening \<Rightarrow> (unit, string) result" where
  "cipher_column ks key nonce data_len pack_size = (\<lambda>(pf, sh).
     let c = col_index pf in
     and_then (ensure (c < ROW_WIDTH_PRIMARY) ''rslh_walrus: col index out of range'') (\<lambda>_.
     and_then (ensure (shard_index sh = c) ''rslh_walrus: shard/column mismatch'') (\<lambda>_.
     and_then (ensure (length (cipher_shard pf) = pack_size \<and> length (origin_shard pf) = pack_size)
       ''rslh_walrus: shard length mismatch'') (\<lambda>_.
     and_then (ensure (length (column_symbols sh) = COL_HEIGHT_SECONDARY)
       ''rslh_walrus: full primary sliver length mismatch'') (\<lambda>_.
     and_then (try_fold (cipher_row ks key nonce data_len pack_size c sh) (replicate pack_size 0)
       [0..<COL_HEIGHT_SECONDARY]) (\<lambda>expected.
     ensure (expected = cipher_shard pf) ''rslh_walrus: cipher column aggregate mismatch''))))))"

definition verify_cipher_column_bound ::
  "(bytes \<Rightarrow> bytes) \<Rightarrow> keystream \<Rightarrow> bytes \<Rightarrow> bytes \<Rightarrow> blob_opening \<Rightarrow> ve_shard_proof list \<Rightarrow> nat \<Rightarrow>
   (unit, string) result" where
  "verify_cipher_column_bound sha256 ks key aux_data op proofs pack_size =
     and_then (ensure (length proofs = length (op_shards op))
       ''rslh_walrus: proof/opening sample count mismatch'') (\<lambda>_.
     and_then (ensure (op_n_shards op = 1000) ''rslh_walrus: only 1000-shard RSLH-VE supported'') (\<lambda>_.
     and_then (ensure (pack_size = walrus_symbol_size (op_unencoded_length op))
       ''rslh_walrus: pack size mismatch'') (\<lambda>_.
     try_all (cipher_column ks key (derive_rslh_nonce sha256 key aux_data) (op_unencoded_length op) pack_size)
       (zip proofs (op_shards op)))))"

text \<open>
  The row loop of the origin check stops at the first row past the data; the Boolean of the
  state records that the loop was left.
\<close>

definition origin_row ::
  "nat \<Rightarrow> nat \<Rightarrow> nat \<Rightarrow> bytes \<times> bool \<Rightarrow> nat \<times> bytes \<Rightarrow> (bytes \<times> bool, string) result" where
  "origin_row data_len pack_size column = (\<lambda>(expected, stopped) (row, sym).
     let byte_off = (column * COL_HEIGHT_SECONDARY + row) * pack_size in
     if stopped then Inr (expected, True)
     else if byte_off \<ge> data_len then Inr (expected, True)
     else if length sym \<noteq> pack_size then Inl ''rslh_walrus: origin full primary sliver symbol size mismatch''
     else
       let meaningful = min (data_len - byte_off) pack_size; beta = GF_EXP ! (row mod 255)
       in Inr (mul_xor_at gf256_mul_walrus 0 (take meaningful sym) beta expected, False))"

definition origin_column :: "nat \<Rightarrow> nat \<Rightarrow> ve_shard_proof \<times> shard_opening \<Rightarrow> (unit, string) result" where
  "origin_column data_len pack_size = (\<lambda>(pf, sh).
     let column = col_index pf in
     and_then (ensure (column < ROW_WIDTH_PRIMARY) ''rslh_walrus: origin column index out of range'') (\<lambda>_.
     and_then (ensure (shard_index sh = column) ''rslh_walrus: origin shard/column mismatch'') (\<lambda>_.
     and_then (ensure (length (origin_shard pf) = pack_size) ''rslh_walrus: origin shard length mismatch'') (\<lambda>_.
     and_then (ensure (length (column_symbols sh) = COL_HEIGHT_SECONDARY)
       ''rslh_walrus: origin full primary sliver length mismatch'') (\<lambda>_.
     and_then (try_fold (origin_row data_len pack_size column) (replicate pack_size 0, False)
       (enumerate 0 (take COL_HEIGHT_SECONDARY (column_symbols sh)))) (\<lambda>(expected, _).
     ensure (expected = origin_shard pf) ''rslh_walrus: origin column aggregate mismatch''))))))"

definition verify_origin_column_bound ::
  "blob_opening \<Rightarrow> ve_shard_proof list \<Rightarrow> nat \<Rightarrow> (unit, string) result" where
  "verify_origin_column_bound op proofs pack_size =
     and_then (ensure (length proofs = length (op_shards op))
       ''rslh_walrus: origin proof/opening sample count mismatch'') (\<lambda>_.
     and_then (ensure (op_n_shards op = 1000) ''rslh_walrus: only 1000-shard RSLH-VE supported'') (\<lambda>_.
     and_then (ensure (pack_size = walrus_symbol_size (op_unencoded_length op))
       ''rslh_walrus: origin pack size mismatch'') (\<lambda>_.
     try_all (origin_column (op_unencoded_length op) pack_size) (zip proofs (op_shards op)))))"

section \<open>Honest openings verify\<close>

lemma length_matrix_row [simp]: "n * n = length hs \<Longrightarrow> i < n \<Longrightarrow> length (matrix_row hs n i) = n"
proof -
  assume "n * n = length hs" "i < n"
  then have "i * n + n \<le> length hs" by (metis add.commute mult_Suc Suc_leI mult_le_mono1)
  then show ?thesis by (simp add: matrix_row_def)
qed

lemma nth_matrix_row:
  "n * n = length hs \<Longrightarrow> i < n \<Longrightarrow> j < n \<Longrightarrow> matrix_row hs n i ! j = hs ! (i * n + j)"
  using length_matrix_row [of n hs i] by (simp add: matrix_row_def)

lemma length_matrix_col_rev [simp]: "length (matrix_col_rev hs n i) = n"
  by (simp add: matrix_col_rev_def)

lemma set_matrix_row: "set (matrix_row hs n i) \<subseteq> set hs"
  by (auto simp: matrix_row_def dest: in_set_takeD in_set_dropD)

lemma set_matrix_col_rev:
  assumes "n * n = length hs" and "i < n"
  shows "set (matrix_col_rev hs n i) \<subseteq> set hs"
proof -
  have "r * n + n - 1 - i < length hs" if "r < n" for r
  proof -
    have "r * n + n \<le> n * n" using that by (metis add.commute mult_Suc Suc_leI mult_le_mono1)
    then show ?thesis using assms that by linarith
  qed
  then show ?thesis by (auto simp: matrix_col_rev_def)
qed

lemma verify_open_node:
  assumes "i < length xs" and "leaf_hash H leaf = xs ! i" and "root_of H xs = Digest rt"
  shows "verify_proof H (path_of H xs i) (Digest rt) (length xs) leaf i = Inr ()"
proof -
  have "i < 2 ^ path_length (length xs)" using assms(1) path_length_covers [of "length xs"] by linarith
  then show ?thesis using climb_path_of [OF assms(1), of H] assms(2,3)
    by (simp add: verify_proof_def check_path_length_def compute_root_def length_path_of)
qed

lemma open_request_Inr:
  "open_request (build_from_leaf_hashes H xs) msg rq = Inr so \<longleftrightarrow>
     rq_leaf_index rq < length xs \<and>
     so = \<lparr> so_leaf_index = rq_leaf_index rq, so_symbol = rq_symbol rq, so_path = path_of H xs (rq_leaf_index rq) \<rparr>"
  by (auto simp: open_request_def get_proof_build_from_leaf_hashes)

lemma requests_verify:
  assumes "try_map (open_request (build_from_leaf_hashes H xs) msg) rqs = Inr ss"
    and "\<forall>rq \<in> set rqs. leaf_hash H (rq_symbol rq) = xs ! rq_leaf_index rq"
    and "root_of H xs = Digest rt"
  shows "try_all (verify_symbol H (length xs) rt msg') ss = Inr ()"
proof -
  have "\<exists>rq \<in> set rqs. open_request (build_from_leaf_hashes H xs) msg rq = Inr so" if "so \<in> set ss" for so
    using try_map_Inr_mem [OF assms(1) that] .
  then show ?thesis using assms(2) verify_open_node [OF _ _ assms(3)]
    by (fastforce simp: try_all_Inr_iff verify_symbol_def open_request_Inr map_err_def)
qed

definition honest_sample :: "(bytes \<Rightarrow> bytes) \<Rightarrow> node list \<Rightarrow> nat \<Rightarrow> sample_request \<Rightarrow> bool" where
  "honest_sample H hs n sample \<longleftrightarrow> (let i = sr_shard_index sample in
     (\<forall>rq \<in> set (sr_primary_symbols sample). leaf_hash H (rq_symbol rq) = hs ! (i * n + rq_leaf_index rq)) \<and>
     (\<forall>rq \<in> set (sr_secondary_symbols sample).
        leaf_hash H (rq_symbol rq) = hs ! (rq_leaf_index rq * n + n - 1 - i)) \<and>
     (\<forall>r < min n (length (sr_column_symbols sample)).
        leaf_hash H (rq_symbol (sr_column_symbols sample ! r)) = hs ! (i * n + r)))"

lemma open_column_Inr:
  "open_column rqs = Inr cs \<Longrightarrow> length rqs = COL_HEIGHT_SECONDARY \<and> cs = map rq_symbol rqs"
  by (auto simp: open_column_def and_then_Inr_iff ensure_def try_map_Inr_iff list_all2_conv_all_nth
      nth_enumerate_eq intro!: nth_equalityI split: if_splits)

lemma open_shard_verifies:
  assumes n: "n * n = length hs" and i: "sr_shard_index sample < n"
    and idx: "check_sample n sample = Inr ()"
    and dig: "\<forall>h \<in> set hs. \<exists>b. h = Digest b"
    and hon: "honest_sample H hs n sample"
    and op: "open_shard H hs n (map (shard_roots H hs n) [0..<n])
               (build H (map root_pair_leaf (map (shard_roots H hs n) [0..<n]))) sample = Inr sh"
  shows "verify_shard H n (map (shard_roots H hs n) [0..<n])
           (root (build H (map root_pair_leaf (map (shard_roots H hs n) [0..<n])))) sh = Inr ()"
proof -
  define i where "i = sr_shard_index sample"
  define roots where "roots = map (shard_roots H hs n) [0..<n]"
  define xs where "xs = matrix_row hs n i"
  define ys where "ys = matrix_col_rev hs n i"
  have i_lt: "i < n" using i by (simp add: i_def)
  have lx: "length xs = n" and ly: "length ys = n" using n i_lt by (simp_all add: xs_def ys_def)
  have ne: "xs \<noteq> []" "ys \<noteq> []" using lx ly i_lt by auto
  obtain p where p: "root_of H xs = Digest p"
    using root_of_digest [OF ne(1), of H] dig set_matrix_row [of hs n i] by (auto simp: xs_def)
  obtain q where q: "root_of H ys = Digest q"
    using root_of_digest [OF ne(2), of H] dig set_matrix_col_rev [OF n i_lt] by (auto simp: ys_def)
  have ri: "spr_primary (roots ! i) = p" "spr_secondary (roots ! i) = q"
    using i_lt p q by (simp_all add: roots_def shard_roots_def root_build_from_leaf_hashes xs_def ys_def)
  from op obtain ps ss cs path where
    ps: "try_map (open_request (build_from_leaf_hashes H xs) ''walrus_open: failed to build primary symbol proof'')
           (sr_primary_symbols sample) = Inr ps" and
    ss: "try_map (open_request (build_from_leaf_hashes H ys) ''walrus_open: failed to build secondary symbol proof'')
           (sr_secondary_symbols sample) = Inr ss" and
    cs: "open_column (sr_column_symbols sample) = Inr cs" and
    path: "get_proof (build H (map root_pair_leaf roots)) i = Inr path" and
    sh: "sh = \<lparr> shard_index = i, primary_root = p, secondary_root = q,
            primary_symbols = ps, secondary_symbols = ss, pair_leaf_path = path,
            column_symbols = cs, column_leaf_hashes = xs \<rparr>"
    unfolding open_shard_def Let_def and_then_Inr_iff ri [symmetric]
    by (auto simp: i_def roots_def xs_def ys_def map_err_def split: sum.splits)
  have "\<forall>rq \<in> set (sr_primary_symbols sample). leaf_hash H (rq_symbol rq) = xs ! rq_leaf_index rq"
    using hon idx n i_lt
    by (auto simp: honest_sample_def Let_def xs_def i_def nth_matrix_row check_sample_def and_then_Inr_iff
        try_all_Inr_iff ensure_def split: if_splits)
  from requests_verify [OF ps this p] have vp: "try_all (verify_symbol H n p msg) ps = Inr ()" for msg
    by (simp add: lx)
  have "\<forall>rq \<in> set (sr_secondary_symbols sample). leaf_hash H (rq_symbol rq) = ys ! rq_leaf_index rq"
    using hon idx n i_lt
    by (auto simp: honest_sample_def Let_def ys_def i_def matrix_col_rev_def check_sample_def and_then_Inr_iff
        try_all_Inr_iff ensure_def split: if_splits)
  from requests_verify [OF ss this q] have vs: "try_all (verify_symbol H n q msg) ss = Inr ()" for msg
    by (simp add: ly)
  have "verify_proof H path (root (build H (map root_pair_leaf roots))) (length (map root_pair_leaf roots))
      (map root_pair_leaf roots ! i) i = Inr ()"
    by (rule walrus_merkle.opening_checks [OF path])
  then have vl: "verify_proof H path (root (build H (map root_pair_leaf roots))) n (p @ q) i = Inr ()"
    using i_lt ri by (simp add: roots_def root_pair_leaf_def)
  have c: "length (sr_column_symbols sample) = COL_HEIGHT_SECONDARY" "cs = map rq_symbol (sr_column_symbols sample)"
    using open_column_Inr [OF cs] by simp_all
  have col: "\<forall>x \<in> set (zip cs xs). leaf_hash H (fst x) = snd x"
    using hon n i_lt c lx
    by (auto simp: honest_sample_def Let_def xs_def i_def nth_matrix_row set_zip)
  then have vc: "verify_column H n sh = Inr ()"
    using c lx p by (auto simp: verify_column_def sh root_build_single root_build_from_leaf_hashes try_all_Inr_iff
        and_then_Inr_iff ensure_def)
  show ?thesis
    using vp vs vl vc i_lt ri
    by (simp add: verify_shard_def Let_def sh roots_def [symmetric] ensure_def map_err_def)
qed

lemma isqrt_from_bounds:
  "k * k \<le> n \<Longrightarrow> isqrt_from k n * isqrt_from k n \<le> n \<and> n < (isqrt_from k n + 1) * (isqrt_from k n + 1)"
proof (induction k n rule: isqrt_from.induct)
  case (1 k n)
  then show ?case
    by (cases "(k + 1) * (k + 1) \<le> n") (simp_all add: isqrt_from.simps [of k n])
qed

lemma isqrt_square: "isqrt (n * n) = n"
proof -
  have "isqrt (n * n) * isqrt (n * n) \<le> n * n" and "n * n < (isqrt (n * n) + 1) * (isqrt (n * n) + 1)"
    using isqrt_from_bounds [of 0 "n * n"] by (simp_all add: isqrt_def)
  then have "isqrt (n * n) \<le> n" and "n < isqrt (n * n) + 1"
    by (auto simp: power2_eq_square [symmetric] dest: power2_le_imp_le power_less_imp_less_base)
  then show ?thesis by simp
qed

text \<open>Requests in range, and a full primary sliver in order.\<close>

definition valid_sample :: "nat \<Rightarrow> sample_request \<Rightarrow> bool" where
  "valid_sample n sample \<longleftrightarrow>
     check_sample n sample = Inr () \<and>
     map rq_leaf_index (sr_column_symbols sample) = [0..<COL_HEIGHT_SECONDARY]"

lemma open_column_total:
  "map rq_leaf_index rqs = [0..<COL_HEIGHT_SECONDARY] \<Longrightarrow> \<exists>cs. open_column rqs = Inr cs"
proof -
  assume m: "map rq_leaf_index rqs = [0..<COL_HEIGHT_SECONDARY]"
  then have len: "length rqs = COL_HEIGHT_SECONDARY" by (metis length_map length_upt minus_nat.diff_0)
  have "rq_leaf_index (rqs ! r) = r" if "r < length rqs" for r
    using that m len by (metis add_0 nth_map nth_upt)
  then have "try_map (\<lambda>(leaf_index, rq). and_then (ensure (rq_leaf_index rq = leaf_index)
      ''walrus_open: full primary sliver symbols must be ordered'') (\<lambda>_. Inr (rq_symbol rq))) (enumerate 0 rqs)
    = Inr (map (rq_symbol \<circ> snd) (enumerate 0 rqs))"
    by (intro try_map_total) (auto simp: in_set_enumerate_eq ensure_def)
  with len show ?thesis by (simp add: open_column_def ensure_def)
qed

lemma open_requests_total:
  "\<forall>rq \<in> set rqs. rq_leaf_index rq < length xs \<Longrightarrow>
   \<exists>ss. try_map (open_request (build_from_leaf_hashes H xs) msg) rqs = Inr ss"
  by (rule exI, rule try_map_total [where g = "\<lambda>rq. \<lparr> so_leaf_index = rq_leaf_index rq, so_symbol = rq_symbol rq,
      so_path = path_of H xs (rq_leaf_index rq) \<rparr>"]) (simp add: open_request_Inr)

lemma open_shard_total:
  assumes "n * n = length hs" and "valid_sample n sample" and "length roots = n"
  shows "\<exists>sh. open_shard H hs n roots (build H (map root_pair_leaf roots)) sample = Inr sh"
proof -
  let ?i = "sr_shard_index sample"
  have i: "?i < n" and p: "\<forall>rq \<in> set (sr_primary_symbols sample). rq_leaf_index rq < length (matrix_row hs n ?i)"
    and s: "\<forall>rq \<in> set (sr_secondary_symbols sample). rq_leaf_index rq < length (matrix_col_rev hs n ?i)"
    using assms(1,2)
    by (auto simp: valid_sample_def check_sample_def and_then_Inr_iff try_all_Inr_iff ensure_def split: if_splits)
  obtain ps where "try_map (open_request (build_from_leaf_hashes H (matrix_row hs n ?i))
      ''walrus_open: failed to build primary symbol proof'') (sr_primary_symbols sample) = Inr ps"
    using open_requests_total [OF p] by blast
  moreover obtain ss where "try_map (open_request (build_from_leaf_hashes H (matrix_col_rev hs n ?i))
      ''walrus_open: failed to build secondary symbol proof'') (sr_secondary_symbols sample) = Inr ss"
    using open_requests_total [OF s] by blast
  moreover obtain cs where "open_column (sr_column_symbols sample) = Inr cs"
    using open_column_total assms(2) by (auto simp: valid_sample_def)
  moreover obtain path where "get_proof (build H (map root_pair_leaf roots)) ?i = Inr path"
    using walrus_merkle.opening_defined [of H "map root_pair_leaf roots" ?i] i assms(3) by auto
  ultimately show ?thesis by (simp add: open_shard_def Let_def map_err_def)
qed

lemma build_opening_verifies:
  assumes n: "n * n = length hs" "0 < n" "n < 2 ^ 32"
    and dig: "\<forall>h \<in> set hs. \<exists>b. h = Digest b"
    and ok: "\<forall>sample \<in> set samples. valid_sample n sample \<and> honest_sample H hs n sample"
  shows "\<exists>op. build_walrus_blob_opening H hs RS2 len samples = Inr op \<and>
    op_blob_id op = compute_blob_id_from_sliver_pair_roots H (map (shard_roots H hs n) [0..<n]) RS2 len \<and>
    op_unencoded_length op = len \<and> verify_walrus_blob_opening H op = Inr ()"
proof -
  let ?roots = "map (shard_roots H hs n) [0..<n]"
  let ?open = "open_shard H hs n ?roots (build H (map root_pair_leaf ?roots))"
  have sq: "isqrt (length hs) = n" using n(1) isqrt_square [of n] by simp
  have chk: "try_all (check_sample n) samples = Inr ()" using ok by (simp add: try_all_Inr_iff valid_sample_def)
  have "\<exists>sh. ?open sample = Inr sh" if "sample \<in> set samples" for sample
    using that ok by (intro open_shard_total [OF n(1)]) simp_all
  then obtain g where g: "\<And>sample. sample \<in> set samples \<Longrightarrow> ?open sample = Inr (g sample)" by metis
  then have shards: "try_map ?open samples = Inr (map g samples)" by (rule try_map_total)
  let ?op = "\<lparr> op_blob_id = compute_blob_id_from_sliver_pair_roots H ?roots RS2 len, op_encoding_type = 1,
    op_unencoded_length = len, op_n_shards = n, op_sliver_pair_roots = ?roots, op_shards = map g samples \<rparr>"
  have "build_walrus_blob_opening H hs RS2 len samples = Inr ?op"
    using n sq chk shards by (simp add: build_walrus_blob_opening_def Let_def)
  moreover have "verify_shard H n ?roots (root (build H (map root_pair_leaf ?roots))) sh = Inr ()"
    if sh: "sh \<in> set (map g samples)" for sh
  proof -
    obtain sample where s: "sample \<in> set samples" "sh = g sample" using sh by auto
    have v: "valid_sample n sample" "honest_sample H hs n sample" using ok s by simp_all
    then have c: "check_sample n sample = Inr ()" by (simp add: valid_sample_def)
    then have i: "sr_shard_index sample < n" by (auto simp: check_sample_def and_then_Inr_iff ensure_def split: if_splits)
    show ?thesis using open_shard_verifies [OF n(1) i c dig v(2) g [OF s(1)]] s(2) by simp
  qed
  then have "verify_walrus_blob_opening H ?op = Inr ()"
    using n by (simp add: verify_walrus_blob_opening_def Let_def encoding_type_try_from_def
        compute_blob_id_from_sliver_pair_roots_def try_all_Inr_iff ensure_def ok_or_def)
  ultimately show ?thesis by auto
qed

section \<open>What the column checks compute\<close>

text \<open>
  The byte that row \<open>r\<close> of a column contributes at position \<open>i\<close>: the opened symbol inside the
  data, the key stream (cipher side) or zero (origin side) behind it.
\<close>

definition cipher_byte :: "keystream \<Rightarrow> bytes \<Rightarrow> bytes \<Rightarrow> nat \<Rightarrow> nat \<Rightarrow> nat \<Rightarrow> bytes list \<Rightarrow> nat \<Rightarrow> nat \<Rightarrow> byte" where
  "cipher_byte ks key nonce dl s c syms r i =
     (if row_off s c r + i < dl then syms ! r ! i else ks key nonce (row_off s c r + i))"

definition origin_byte :: "nat \<Rightarrow> nat \<Rightarrow> nat \<Rightarrow> bytes list \<Rightarrow> nat \<Rightarrow> nat \<Rightarrow> byte" where
  "origin_byte dl s c syms r i = (if row_off s c r + i < dl then syms ! r ! i else 0)"

definition column_sum :: "(nat \<Rightarrow> byte) \<Rightarrow> nat list \<Rightarrow> byte" where
  "column_sum f rs = xor_list (map (\<lambda>r. gf256_mul_walrus (f r) (honest_beta r)) rs)"

lemma column_sum_simps [simp]:
  "column_sum f [] = 0" "column_sum f (r # rs) = gf256_mul_walrus (f r) (honest_beta r) XOR column_sum f rs"
  by (simp_all add: column_sum_def)

lemma cipher_row_step:
  assumes "cipher_row ks key nonce dl s c sh acc r = Inr e" and "length acc = s"
  shows "length e = s" and "i < s \<Longrightarrow> e ! i = acc ! i XOR
      gf256_mul_walrus (cipher_byte ks key nonce dl s c (column_symbols sh) r i) (honest_beta r)"
proof -
  define off where "off = row_off s c r"
  define k where "k = (if off < dl then min (off + s) dl - off else 0)"
  define sym where "sym = column_symbols sh ! r"
  from assms have sym: "off < dl \<Longrightarrow> length sym = s"
    and e: "e = mul_xor_at gf256_mul_walrus k (drop k (keystream_block ks key nonce off s)) (honest_beta r)
      (if off < dl then mul_xor_at gf256_mul_walrus 0 (take (min (off + s) dl - off) sym) (honest_beta r) acc else acc)"
    by (auto simp: cipher_row_def Let_def and_then_Inr_iff ensure_def off_def row_off_def k_def sym_def
        honest_beta_def split: if_splits)
  show "length e = s" using assms(2) by (simp add: e)
  assume i: "i < s"
  show "e ! i = acc ! i XOR gf256_mul_walrus (cipher_byte ks key nonce dl s c (column_symbols sh) r i) (honest_beta r)"
  proof (cases "off + i < dl")
    case True
    then have "i < k" "off < dl" using i by (auto simp: k_def)
    then show ?thesis using True i assms(2) sym
      by (simp add: e nth_mul_xor_at cipher_byte_def off_def [symmetric] sym_def [symmetric] k_def)
  next
    case False
    then have "k \<le> i" "i - k < s - k" using i by (auto simp: k_def)
    moreover have "\<not> i < min (off + s) dl - off" using False by auto
    ultimately show ?thesis using False i assms(2) sym
      by (simp add: e nth_mul_xor_at cipher_byte_def off_def [symmetric])
  qed
qed

lemma cipher_rows:
  assumes "try_fold (cipher_row ks key nonce dl s c sh) acc rs = Inr e" and "length acc = s"
  shows "length e = s \<and> (\<forall>i < s. e ! i = acc ! i XOR
    column_sum (\<lambda>r. cipher_byte ks key nonce dl s c (column_symbols sh) r i) rs)"
  using assms
proof (induction rs arbitrary: acc)
  case (Cons r rs)
  then obtain e1 where e1: "cipher_row ks key nonce dl s c sh acc r = Inr e1"
    and rest: "try_fold (cipher_row ks key nonce dl s c sh) e1 rs = Inr e"
    by (auto simp: and_then_Inr_iff)
  note step = cipher_row_step [OF e1 Cons.prems(2)]
  from Cons.IH [OF rest step(1)] step(2) show ?case by (simp add: xor.assoc)
qed simp

lemma origin_rows:
  assumes "try_fold (origin_row dl s c) (acc, stop) (enumerate k syms) = Inr (e, stop')"
    and "length acc = s" and "stop \<Longrightarrow> dl \<le> row_off s c k"
  shows "length e = s \<and> (\<forall>i < s. e ! i = acc ! i XOR
    column_sum (\<lambda>r. if row_off s c r + i < dl then syms ! (r - k) ! i else 0) [k..<k + length syms])"
  using assms
proof (induction syms arbitrary: acc stop k)
  case (Cons sym syms)
  have mono: "row_off s c k \<le> row_off s c (Suc k)" by (simp add: row_off_def)
  define L where "L = [Suc k..<Suc k + length syms]"
  have upt: "[k..<k + length (sym # syms)] = k # L" unfolding L_def
    using upt_conv_Cons [of k "k + length (sym # syms)"] by (simp del: upt_Suc)
  have shift: "column_sum (\<lambda>r. if row_off s c r + i < dl then (sym # syms) ! (r - k) ! i else 0) L
      = column_sum (\<lambda>r. if row_off s c r + i < dl then syms ! (r - Suc k) ! i else 0) L" for i
    unfolding column_sum_def L_def by (rule arg_cong [of _ _ xor_list], rule map_cong) (auto simp: nth_Cons')
  show ?case
  proof (cases "stop \<or> dl \<le> row_off s c k")
    case True
    then have past: "dl \<le> row_off s c k" using Cons.prems(3) by blast
    then have "origin_row dl s c (acc, stop) (k, sym) = Inr (acc, True)"
      using True by (auto simp: origin_row_def Let_def row_off_def)
    with Cons.prems(1) have rest: "try_fold (origin_row dl s c) (acc, True) (enumerate (Suc k) syms) = Inr (e, stop')"
      by simp
    from Cons.IH [OF rest Cons.prems(2), folded L_def] past mono show ?thesis unfolding upt by (simp add: shift)
  next
    case False
    let ?e1 = "mul_xor_at gf256_mul_walrus 0 (take (min (dl - row_off s c k) s) sym) (honest_beta k) acc"
    have st: "origin_row dl s c (acc, stop) (k, sym) = Inr (?e1, False)" and len: "length sym = s"
      using False Cons.prems(1)
      by (auto simp: origin_row_def Let_def row_off_def honest_beta_def and_then_Inr_iff split: if_splits)
    with Cons.prems(1) have rest: "try_fold (origin_row dl s c) (?e1, False) (enumerate (Suc k) syms) = Inr (e, stop')"
      by simp
    have l1: "length ?e1 = s" using Cons.prems(2) by simp
    have "?e1 ! i = acc ! i XOR gf256_mul_walrus (if row_off s c k + i < dl then sym ! i else 0) (honest_beta k)"
      if "i < s" for i
      using that Cons.prems(2) len False by (auto simp: nth_mul_xor_at)
    with Cons.IH [OF rest l1, folded L_def] show ?thesis unfolding upt by (simp add: shift xor.assoc)
  qed
qed simp

lemma cipher_column_sum:
  assumes "cipher_column ks key nonce dl s (pf, sh) = Inr ()"
  shows "col_index pf < ROW_WIDTH_PRIMARY" and "shard_index sh = col_index pf"
    and "length (cipher_shard pf) = s" and "length (column_symbols sh) = COL_HEIGHT_SECONDARY"
    and "i < s \<Longrightarrow> cipher_shard pf ! i = column_sum
      (\<lambda>r. cipher_byte ks key nonce dl s (col_index pf) (column_symbols sh) r i) [0..<COL_HEIGHT_SECONDARY]"
proof -
  from assms have loop: "try_fold (cipher_row ks key nonce dl s (col_index pf) sh) (replicate s 0)
      [0..<COL_HEIGHT_SECONDARY] = Inr (cipher_shard pf)"
    by (auto simp: cipher_column_def Let_def and_then_Inr_iff ensure_def split: if_splits)
  show "col_index pf < ROW_WIDTH_PRIMARY" "shard_index sh = col_index pf" "length (cipher_shard pf) = s"
    "length (column_symbols sh) = COL_HEIGHT_SECONDARY"
    using assms by (auto simp: cipher_column_def Let_def and_then_Inr_iff ensure_def split: if_splits)
  show "i < s \<Longrightarrow> cipher_shard pf ! i = column_sum
      (\<lambda>r. cipher_byte ks key nonce dl s (col_index pf) (column_symbols sh) r i) [0..<COL_HEIGHT_SECONDARY]"
    using cipher_rows [OF loop] by simp
qed

lemma origin_column_sum:
  assumes "origin_column dl s (pf, sh) = Inr ()"
  shows "shard_index sh = col_index pf" and "length (column_symbols sh) = COL_HEIGHT_SECONDARY"
    and "i < s \<Longrightarrow> origin_shard pf ! i = column_sum
      (\<lambda>r. origin_byte dl s (col_index pf) (column_symbols sh) r i) [0..<COL_HEIGHT_SECONDARY]"
proof -
  show len: "length (column_symbols sh) = COL_HEIGHT_SECONDARY" and "shard_index sh = col_index pf"
    using assms by (auto simp: origin_column_def Let_def and_then_Inr_iff ensure_def split: if_splits)
  from assms len obtain stop where loop: "try_fold (origin_row dl s (col_index pf)) (replicate s 0, False)
      (enumerate 0 (column_symbols sh)) = Inr (origin_shard pf, stop)"
    by (auto simp: origin_column_def Let_def and_then_Inr_iff ensure_def split: if_splits)
  show "i < s \<Longrightarrow> origin_shard pf ! i = column_sum
      (\<lambda>r. origin_byte dl s (col_index pf) (column_symbols sh) r i) [0..<COL_HEIGHT_SECONDARY]"
    using origin_rows [OF loop] len by (simp add: origin_byte_def cong: if_cong)
qed

text \<open>
  The residue of a row: how far the opened ciphertext byte is from the encryption of the opened
  plaintext byte. Behind the data it is zero by construction.
\<close>

definition residue ::
  "keystream \<Rightarrow> bytes \<Rightarrow> bytes \<Rightarrow> nat \<Rightarrow> nat \<Rightarrow> nat \<Rightarrow> bytes list \<Rightarrow> bytes list \<Rightarrow> nat \<Rightarrow> nat \<Rightarrow> byte" where
  "residue ks key nonce dl s c ms cs i r =
     (if row_off s c r + i < dl then (ms ! r ! i XOR ks key nonce (row_off s c r + i)) XOR cs ! r ! i else 0)"

lemma column_sum_xor: "column_sum (\<lambda>r. f r XOR g r) rs = column_sum f rs XOR column_sum g rs"
  unfolding column_sum_def by (rule gf256.weighted_sum_xor)

lemma column_relation:
  assumes c: "cipher_column ks key nonce dl s (pf, csh) = Inr ()"
    and m: "origin_column dl s (pf, osh) = Inr ()"
    and h: "verify_col_homomorphism ks key nonce pf s = Inr ()" and par: "parity_offset pf = 0" and i: "i < s"
  shows "column_sum (residue ks key nonce dl s (col_index pf) (column_symbols osh) (column_symbols csh) i)
    [0..<COL_HEIGHT_SECONDARY] = 0"
proof -
  let ?rs = "[0..<COL_HEIGHT_SECONDARY]" let ?c = "col_index pf"
  let ?m = "\<lambda>r. origin_byte dl s ?c (column_symbols osh) r i"
  let ?x = "\<lambda>r. cipher_byte ks key nonce dl s ?c (column_symbols csh) r i"
  let ?k = "\<lambda>r. ks key nonce (row_off s ?c r + i)"
  have k: "ks_sum ks key nonce ?c (verify_beta (parity_offset pf)) s i = column_sum ?k ?rs"
    unfolding ks_sum_def column_sum_def par verify_beta_0 ..
  have "origin_shard pf ! i XOR ks_sum ks key nonce ?c (verify_beta (parity_offset pf)) s i = cipher_shard pf ! i"
    using h i unfolding verify_col_homomorphism_iff by blast
  then have "column_sum ?m ?rs XOR column_sum ?k ?rs = column_sum ?x ?rs"
    unfolding k cipher_column_sum(5) [OF c i] origin_column_sum(3) [OF m i] .
  then have "column_sum (\<lambda>r. (?m r XOR ?k r) XOR ?x r) ?rs = 0" by (simp add: column_sum_xor)
  moreover have "(\<lambda>r. (?m r XOR ?k r) XOR ?x r) =
      residue ks key nonce dl s ?c (column_symbols osh) (column_symbols csh) i"
    by (rule ext) (simp add: residue_def origin_byte_def cipher_byte_def)
  ultimately show ?thesis by simp
qed

text \<open>A single wrong row in a sampled column is always noticed.\<close>

lemma single_residue_nonzero:
  assumes "r0 < COL_HEIGHT_SECONDARY" and "f r0 \<noteq> 0"
    and "\<And>r. r < COL_HEIGHT_SECONDARY \<Longrightarrow> r \<noteq> r0 \<Longrightarrow> f r = 0"
  shows "column_sum f [0..<COL_HEIGHT_SECONDARY] \<noteq> 0"
proof -
  have "column_sum f [0..<COL_HEIGHT_SECONDARY] \<noteq> column_sum (\<lambda>_. 0) [0..<COL_HEIGHT_SECONDARY]"
    unfolding column_sum_def
    by (rule gf256.weighted_sum_single_change [of r0]) (use assms honest_beta_nonzero in auto)
  moreover have "column_sum (\<lambda>_. 0) [0..<COL_HEIGHT_SECONDARY] = 0"
    unfolding column_sum_def by (rule gf256.weighted_sum_zero) simp
  ultimately show ?thesis by simp
qed

section \<open>Opened columns are the committed columns\<close>

definition column_queries :: "(bytes \<Rightarrow> bytes) \<Rightarrow> bytes list \<Rightarrow> shard_opening \<Rightarrow> bytes list" where
  "column_queries H leaves sh =
     build_queries H leaves @ tree_queries H (column_leaf_hashes sh) @ map (\<lambda>s. 0 # s) (column_symbols sh)"

lemma column_symbols_bound:
  assumes H: "digest32 H" and v: "verify_column H (length leaves) sh = Inr ()"
    and rt: "primary_root sh = node_bytes (root (build H leaves))"
    and ok: "\<forall>x \<in> set (column_leaf_hashes sh). node_ok x"
    and cf: "collision_free H (column_queries H leaves sh)"
    and r: "r < COL_HEIGHT_SECONDARY" "r < length leaves" and long: "1 < length leaves"
  shows "column_symbols sh ! r = leaves ! r"
proof -
  let ?xs = "column_leaf_hashes sh" let ?ls = "map (leaf_hash H) leaves"
  let ?Q = "set (column_queries H leaves sh)"
  from v have len: "length ?xs = length leaves" "length (column_symbols sh) = COL_HEIGHT_SECONDARY"
    and sym: "\<forall>x \<in> set (zip (column_symbols sh) ?xs). leaf_hash H (fst x) = snd x"
    and pr: "node_bytes (root_of H ?xs) = primary_root sh"
    by (auto simp: verify_column_def and_then_Inr_iff ensure_def try_all_Inr_iff root_build_single
        root_build_from_leaf_hashes split: if_splits)
  have inj: "inj_on H ?Q" and nz: "\<forall>q \<in> ?Q. H q \<noteq> replicate 32 0" using cf by (simp_all add: collision_free_def)
  have dig: "\<exists>b. root_of H ys = Digest b" if "1 < length ys" for ys
  proof -
    have "0 < length (parents H (pad ys))" using that by simp
    then have "parents H (pad ys) \<noteq> []" by blast
    then have "\<exists>b. root_of H (parents H (pad ys)) = Digest b"
      by (intro root_of_digest) (auto simp: parents_def inner_hash_def)
    then show ?thesis using that by (simp add: root_of.simps [of H ys])
  qed
  have "root_of H ?xs = root_of H ?ls"
    using dig [of ?xs] dig [of ?ls] pr rt len(1) long by (auto simp: build_def root_build_from_leaf_hashes)
  then have "climb H (Digest (H (0 # leaves ! r))) r (path_of H ?ls r) = root_of H ?xs"
    using climb_path_of [of r ?ls H] r by (simp add: leaf_hash_def)
  moreover have "set (climb_queries H (Digest (H (0 # leaves ! r))) r (path_of H ?ls r)) \<subseteq> ?Q"
    using climb_queries_path_of [of r ?ls H] r by (auto simp: column_queries_def build_queries_def leaf_hash_def)
  moreover have "\<forall>x \<in> set (path_of H ?ls r). node_ok x"
    using H r by (intro node_ok_path_of) (auto simp: leaf_hash_def)
  moreover have "length (path_of H ?ls r) = path_length (length ?xs)" by (simp add: length_path_of len)
  moreover have "r < 2 ^ length (path_of H ?ls r)"
    using r path_length_covers [of "length leaves"] by (simp add: length_path_of)
  moreover have q: "0 # leaves ! r \<in> ?Q" "set (tree_queries H ?xs) \<subseteq> ?Q"
    using r by (auto simp: column_queries_def build_queries_def)
  ultimately have "?xs ! r = Digest (H (0 # leaves ! r))"
    using climb_binds [OF H inj nz ok, of "path_of H ?ls r" "0 # leaves ! r" r] by blast
  moreover have "(column_symbols sh ! r, ?xs ! r) \<in> set (zip (column_symbols sh) ?xs)"
    using r len by (auto simp: set_zip)
  then have "leaf_hash H (column_symbols sh ! r) = ?xs ! r" using sym by force
  ultimately have "H (0 # column_symbols sh ! r) = H (0 # leaves ! r)" by (simp add: leaf_hash_def)
  moreover have "0 # column_symbols sh ! r \<in> ?Q" using r len by (auto simp: column_queries_def)
  ultimately show ?thesis using inj q(1) by (auto dest: inj_onD)
qed

section \<open>Properties\<close>

text \<open>
  The host's openings are accepted. For every square matrix of leaf hashes and every list of
  samples that are in range, ordered and consistent with the hashes, building the opening succeeds,
  carries the blob identifier of the matrix, and the guest's verification accepts it.
\<close>

theorem honest_opening_accepted:
  assumes "n * n = length hs" and "0 < n" and "n < 2 ^ 32"
    and "\<forall>h \<in> set hs. \<exists>b. h = Digest b"
    and "\<forall>sample \<in> set samples. valid_sample n sample \<and> honest_sample H hs n sample"
  shows "\<exists>op. build_walrus_blob_opening H hs RS2 len samples = Inr op \<and>
    op_blob_id op = compute_blob_id_from_sliver_pair_roots H (map (shard_roots H hs n) [0..<n]) RS2 len \<and>
    op_unencoded_length op = len \<and> verify_walrus_blob_opening H op = Inr ()"
  using assms by (rule build_opening_verifies)

definition demo_sample :: sample_request where
  "demo_sample = \<lparr> sr_shard_index = 0,
     sr_primary_symbols = [\<lparr> rq_leaf_index = 1, rq_symbol = [1] \<rparr>],
     sr_secondary_symbols = [\<lparr> rq_leaf_index = 0, rq_symbol = [1] \<rparr>],
     sr_column_symbols = map (\<lambda>r. \<lparr> rq_leaf_index = r, rq_symbol = [1] \<rparr>) [0..<COL_HEIGHT_SECONDARY] \<rparr>"

theorem honest_opening_accepted_witness:
  "\<exists>op. build_walrus_blob_opening demo_hash (replicate 4 (leaf_hash demo_hash [1])) RS2 9 [demo_sample] = Inr op \<and>
     verify_walrus_blob_opening demo_hash op = Inr ()"
proof -
  let ?hs = "replicate 4 (leaf_hash demo_hash [1])"
  have n: "2 * 2 = length ?hs" "0 < (2 :: nat)" "2 < (2 :: nat) ^ 32" by simp_all
  have d: "\<forall>h \<in> set ?hs. \<exists>b. h = Digest b" by (simp add: leaf_hash_def)
  have "valid_sample 2 demo_sample"
    by (simp add: valid_sample_def demo_sample_def check_sample_def ensure_def comp_def)
  moreover have "honest_sample demo_hash ?hs 2 demo_sample"
    by (simp add: honest_sample_def demo_sample_def)
  ultimately have "\<forall>sample \<in> set [demo_sample]. valid_sample 2 sample \<and> honest_sample demo_hash ?hs 2 sample"
    by simp
  from honest_opening_accepted [OF n d this] show ?thesis by blast
qed

definition opening_metadata :: "blob_opening \<Rightarrow> blob_metadata" where
  "opening_metadata op = \<lparr> md_encoding_type = RS2, unencoded_length = op_unencoded_length op,
     hashes = roots_metadata (op_sliver_pair_roots op) \<rparr>"

lemma opening_column_bound:
  assumes H: "digest32 H" and v: "verify_walrus_blob_opening H op = Inr ()" and sh: "sh \<in> set (op_shards op)"
    and id: "op_blob_id op = from_sliver_pair_metadata H md"
    and n: "length (hashes md) = op_n_shards op" "length leaves = op_n_shards op" "1 < op_n_shards op"
    and lens: "op_unencoded_length op < 2 ^ 64" "unencoded_length md < 2 ^ 64"
    and ok: "\<forall>x \<in> set (column_leaf_hashes sh). node_ok x" "\<forall>p \<in> set (op_sliver_pair_roots op). length (spr_primary p) = 32"
    and real: "primary_hash (hashes md ! shard_index sh) = root (build H leaves)"
    and cf: "collision_free H (id_queries H (opening_metadata op) @ id_queries H md @ column_queries H leaves sh)"
    and r: "r < COL_HEIGHT_SECONDARY" "r < length leaves"
  shows "column_symbols sh ! r = leaves ! r"
proof -
  let ?i = "shard_index sh" let ?roots = "op_sliver_pair_roots op"
  from v sh have l: "length ?roots = op_n_shards op"
    and idv: "from_sliver_pair_metadata H (opening_metadata op) = op_blob_id op"
    and vs: "verify_shard H (op_n_shards op) ?roots (root (build H (map root_pair_leaf ?roots))) sh = Inr ()"
    by (auto simp: verify_walrus_blob_opening_def Let_def and_then_Inr_iff ok_or_def encoding_type_try_from_def
        ensure_def try_all_Inr_iff opening_metadata_def split: if_splits)
  from vs have i: "?i < op_n_shards op" and pr: "spr_primary (?roots ! ?i) = primary_root sh"
    and vc: "verify_column H (length leaves) sh = Inr ()"
    by (auto simp: verify_shard_def Let_def and_then_Inr_iff ensure_def n split: if_splits)
  have "map pair_leaf_input (hashes (opening_metadata op)) = map pair_leaf_input (hashes md)"
    using blob_id_inject [OF H, of "opening_metadata op" md] cf idv id n l lens
    by (auto simp: opening_metadata_def roots_metadata_def collision_free_def intro: inj_on_subset)
  then have "map pair_leaf_input (hashes (opening_metadata op)) ! ?i = map pair_leaf_input (hashes md) ! ?i" by simp
  then have "primary_root sh @ spr_secondary (?roots ! ?i) =
      node_bytes (root (build H leaves)) @ node_bytes (secondary_hash (hashes md ! ?i))"
    using i l n real pr by (simp add: opening_metadata_def roots_metadata_def pair_leaf_input_def)
  moreover have "length (primary_root sh) = 32" using ok(2) i l pr by (metis nth_mem)
  moreover have "length (node_bytes (root (build H leaves))) = 32"
    using n by (intro length_root_bytes [OF H]) auto
  ultimately have rt: "primary_root sh = node_bytes (root (build H leaves))" by (metis append_eq_append_conv)
  have cf': "collision_free H (column_queries H leaves sh)"
    using cf by (auto simp: collision_free_def intro: inj_on_subset)
  show ?thesis
    by (rule column_symbols_bound [OF H vc rt ok(1) cf' r]) (use n in simp)
qed

text \<open>
  C4: An accepted opening opens the committed columns. Let a blob identifier be that of real
  metadata over \<open>n > 1\<close> shards, and let the symbols of row \<open>i\<close> of the real matrix hash to the
  primary root in that metadata. If an opening for this identifier is accepted and the hashed
  inputs do not collide, then the symbols it carries for a sampled shard are the real symbols.
\<close>

theorem opening_binds_columns:
  assumes "digest32 H" and "verify_walrus_blob_opening H op = Inr ()" and "sh \<in> set (op_shards op)"
    and "op_blob_id op = from_sliver_pair_metadata H md"
    and "length (hashes md) = op_n_shards op" "length leaves = op_n_shards op" "1 < op_n_shards op"
    and "op_unencoded_length op < 2 ^ 64" "unencoded_length md < 2 ^ 64"
    and "\<forall>x \<in> set (column_leaf_hashes sh). node_ok x" "\<forall>p \<in> set (op_sliver_pair_roots op). length (spr_primary p) = 32"
    and "primary_hash (hashes md ! shard_index sh) = root (build H leaves)"
    and "collision_free H (id_queries H (opening_metadata op) @ id_queries H md @ column_queries H leaves sh)"
    and "r < COL_HEIGHT_SECONDARY" "r < length leaves"
  shows "column_symbols sh ! r = leaves ! r"
  using assms by (rule opening_column_bound)

text \<open>A two-shard blob of equal symbols and a hash function without collisions on its inputs.\<close>

definition chain_hash :: "bytes \<Rightarrow> bytes" where
  "chain_hash q = replicate 32 (if length q = 2 then last q else last q + 1)"

definition demo_shard :: shard_opening where
  "demo_shard = \<lparr> shard_index = 0, primary_root = replicate 32 2, secondary_root = replicate 32 2,
     primary_symbols = [], secondary_symbols = [], pair_leaf_path = [Digest (replicate 32 3)],
     column_symbols = replicate COL_HEIGHT_SECONDARY [1],
     column_leaf_hashes = [Digest (replicate 32 1), Digest (replicate 32 1)] \<rparr>"

definition demo_opening :: blob_opening where
  "demo_opening = (let p = \<lparr> spr_primary = replicate 32 2, spr_secondary = replicate 32 2 \<rparr> in
     \<lparr> op_blob_id = replicate 32 5, op_encoding_type = 1, op_unencoded_length = 9, op_n_shards = 2,
       op_sliver_pair_roots = [p, p], op_shards = [demo_shard] \<rparr>)"

theorem opening_binds_columns_witness:
  "verify_walrus_blob_opening chain_hash demo_opening = Inr () \<and>
   column_symbols demo_shard ! 1 = [[1], [1]] ! 1"
proof -
  let ?H = chain_hash and ?op = demo_opening and ?sh = demo_shard
  let ?md = "opening_metadata demo_opening"
  have H: "digest32 ?H" by (simp add: digest32_def chain_hash_def)
  have v: "verify_walrus_blob_opening ?H ?op = Inr ()" by code_simp
  have sh: "?sh \<in> set (op_shards ?op)" by (simp add: demo_opening_def Let_def)
  have id: "op_blob_id ?op = from_sliver_pair_metadata ?H ?md" by code_simp
  have ok: "\<forall>x \<in> set (column_leaf_hashes ?sh). node_ok x" "\<forall>p \<in> set (op_sliver_pair_roots ?op). length (spr_primary p) = 32"
    by (simp_all add: demo_shard_def node_ok_def demo_opening_def Let_def)
  have real: "primary_hash (hashes ?md ! shard_index ?sh) = root (build ?H [[1], [1]])" by code_simp
  have q: "id_queries ?H ?md = [[1, 9, 0, 0, 0, 0, 0, 0, 0] @ replicate 32 4, 0 # replicate 64 2, 0 # replicate 64 2,
      1 # replicate 64 3]"
    "build_queries ?H [[1], [1]] = [[0, 1], [0, 1], 1 # replicate 64 1]"
    "tree_queries ?H (column_leaf_hashes ?sh) = [1 # replicate 64 1]"
    by code_simp+
  have qs: "set (id_queries ?H ?md @ id_queries ?H ?md @ column_queries ?H [[1], [1]] ?sh) =
      {[1, 9, 0, 0, 0, 0, 0, 0, 0] @ replicate 32 4, 0 # replicate 64 2, 1 # replicate 64 3, [0, 1], 1 # replicate 64 1}"
    unfolding column_queries_def q by (auto simp: demo_shard_def COL_HEIGHT_SECONDARY_def)
  have cf: "collision_free ?H (id_queries ?H ?md @ id_queries ?H ?md @ column_queries ?H [[1], [1]] ?sh)"
    unfolding collision_free_def qs by (simp add: chain_hash_def inj_on_def)
  have n: "length (hashes ?md) = op_n_shards ?op" "length [[1], [1]] = op_n_shards ?op" "1 < op_n_shards ?op"
    "op_unencoded_length ?op < 2 ^ 64" "unencoded_length ?md < 2 ^ 64"
    by (simp_all add: demo_opening_def opening_metadata_def roots_metadata_def Let_def)
  have "column_symbols ?sh ! 1 = [[1], [1]] ! 1"
    by (rule opening_binds_columns [OF H v sh id n ok real cf]) (simp_all add: COL_HEIGHT_SECONDARY_def)
  with v show ?thesis by blast
qed

end
