(* ===== verification/Cid.thy ===== *)
theory Cid
  imports Stream_Ciphers
begin

unbundle bit_operations_syntax

text \<open>
  Content identifiers, \<^verbatim>\<open>drop-lib/src/cid.rs\<close>: the identifier of a small file is the SHA-256 of
  its bytes, that of a larger one is the SHA-256 of a DAG-PB node that links its 256 KiB blocks.
  The program has two versions, one for hosts that returns text and one for the guest that returns
  bytes. Multihashes and identifiers of the \<^verbatim>\<open>cid\<close> crate are abstract: the record \<open>cid_lib\<close> holds
  the operations the source calls, and SHA-256 is a parameter.
\<close>

record ('mh, 'cid) cid_lib =
  multihash_from_bytes :: "bytes \<Rightarrow> 'mh option"
  new_v1 :: "nat \<Rightarrow> 'mh \<Rightarrow> 'cid"
  cid_to_bytes :: "'cid \<Rightarrow> bytes"
  cid_to_string :: "'cid \<Rightarrow> string"

datatype cid_error = UnwrapFailed

definition CHUNK_SIZE :: nat where
  "CHUNK_SIZE = 262144"

text \<open>\<open>while n >= 0x80 { push(n as u8 | 0x80); n >>= 7 } push(n as u8)\<close>.\<close>

fun write_varint :: "nat \<Rightarrow> bytes \<Rightarrow> bytes" where
  "write_varint n buf =
     (if n \<ge> 128 then write_varint (n div 128) (buf @ [of_nat n OR 128]) else buf @ [of_nat n])"

declare write_varint.simps [simp del]

section \<open>The host version\<close>

definition sha_multihash :: "('mh, 'cid) cid_lib \<Rightarrow> bytes \<Rightarrow> ('mh, cid_error) result" where
  "sha_multihash L hash = ok_or UnwrapFailed (multihash_from_bytes L (concat [[0x12, 0x20], hash]))"

definition compute_raw_cid ::
  "('mh, 'cid) cid_lib \<Rightarrow> (bytes \<Rightarrow> bytes) \<Rightarrow> bytes \<Rightarrow> (string, cid_error) result" where
  "compute_raw_cid L sha data =
     and_then (sha_multihash L (sha data)) (\<lambda>mh. Inr (cid_to_string L (new_v1 L 0x55 mh)))"

definition dag_link :: "('mh, 'cid) cid_lib \<Rightarrow> 'cid \<times> nat \<Rightarrow> bytes \<Rightarrow> bytes" where
  "dag_link L = (\<lambda>(cid, size) dag_pb_bytes.
     let cid_bytes = cid_to_bytes L cid;
         link = [0x0a];
         link = write_varint (length cid_bytes) link;
         link = link @ cid_bytes;
         link = link @ [0x12, 0x00];
         link = link @ [0x18];
         link = write_varint size link
     in write_varint (length link) (dag_pb_bytes @ [0x12]) @ link)"

definition unixfs_data :: "nat list \<Rightarrow> nat \<Rightarrow> bytes" where
  "unixfs_data blocksizes total_len =
     fold (\<lambda>size inner. write_varint size (inner @ [0x20])) blocksizes
       (write_varint total_len ([0x08, 0x02] @ [0x18]))"

definition compute_root_dag_pb ::
  "('mh, 'cid) cid_lib \<Rightarrow> (bytes \<Rightarrow> bytes) \<Rightarrow> ('cid \<times> nat) list \<Rightarrow> nat list \<Rightarrow> nat \<Rightarrow> (string, cid_error) result" where
  "compute_root_dag_pb L sha links blocksizes total_len =
     (let dag_pb_bytes = fold (dag_link L) links [];
          unix_fs_inner = unixfs_data blocksizes total_len;
          dag_pb_bytes = write_varint (length unix_fs_inner) (dag_pb_bytes @ [0x0a]) @ unix_fs_inner
      in and_then (sha_multihash L (sha dag_pb_bytes)) (\<lambda>mh. Inr (cid_to_string L (new_v1 L 0x70 mh))))"

definition push_block ::
  "('mh, 'cid) cid_lib \<Rightarrow> (bytes \<Rightarrow> bytes) \<Rightarrow> ('cid \<times> nat) list \<times> nat list \<times> nat \<Rightarrow> bytes \<Rightarrow>
   (('cid \<times> nat) list \<times> nat list \<times> nat, cid_error) result" where
  "push_block L sha = (\<lambda>(links, blocksizes, total_len) chunk.
     and_then (sha_multihash L (sha chunk)) (\<lambda>mh.
     Inr (links @ [(new_v1 L 0x55 mh, length chunk)], blocksizes @ [length chunk], total_len + length chunk)))"

definition compute_ipfs_cid ::
  "('mh, 'cid) cid_lib \<Rightarrow> (bytes \<Rightarrow> bytes) \<Rightarrow> bytes \<Rightarrow> (string, cid_error) result" where
  "compute_ipfs_cid L sha data =
     (if length data \<le> CHUNK_SIZE then compute_raw_cid L sha data
      else and_then (try_fold (push_block L sha) ([], [], 0) (chunks CHUNK_SIZE data))
             (\<lambda>(links, blocksizes, total_len). compute_root_dag_pb L sha links blocksizes total_len))"

section \<open>The guest version\<close>

text \<open>\<open>mh_bytes[2..].copy_from_slice(&hash)\<close> on a 34-byte array, with its length check.\<close>

definition array_multihash :: "('mh, 'cid) cid_lib \<Rightarrow> bytes \<Rightarrow> ('mh, cid_error) result" where
  "array_multihash L hash =
     (let mh_bytes = (replicate 34 0)[0 := 0x12, 1 := 0x20] in
      if length hash \<noteq> 32 then Inl UnwrapFailed
      else ok_or UnwrapFailed (multihash_from_bytes L (take 2 mh_bytes @ hash)))"

definition compute_raw_cid_bytes ::
  "('mh, 'cid) cid_lib \<Rightarrow> (bytes \<Rightarrow> bytes) \<Rightarrow> bytes \<Rightarrow> (bytes, cid_error) result" where
  "compute_raw_cid_bytes L sha data =
     and_then (array_multihash L (sha data)) (\<lambda>mh. Inr (cid_to_bytes L (new_v1 L 0x55 mh)))"

definition dag_link_zk :: "('mh, 'cid) cid_lib \<Rightarrow> 'cid \<times> nat \<Rightarrow> bytes \<Rightarrow> bytes" where
  "dag_link_zk L = (\<lambda>(cid, size) dag_pb_bytes.
     let cid_bytes = cid_to_bytes L cid;
         link_inner = write_varint (length cid_bytes) [0x0a] @ cid_bytes @ [0x12, 0x00] @ [0x18];
         link_inner = write_varint size link_inner
     in write_varint (length link_inner) (dag_pb_bytes @ [0x12]) @ link_inner)"

definition compute_root_dag_pb_zk_optimized ::
  "('mh, 'cid) cid_lib \<Rightarrow> (bytes \<Rightarrow> bytes) \<Rightarrow> ('cid \<times> nat) list \<Rightarrow> nat list \<Rightarrow> nat \<Rightarrow> (bytes, cid_error) result" where
  "compute_root_dag_pb_zk_optimized L sha links blocksizes total_len =
     (let dag_pb_bytes = fold (dag_link_zk L) links [];
          unix_fs_inner = unixfs_data blocksizes total_len;
          dag_pb_bytes = write_varint (length unix_fs_inner) (dag_pb_bytes @ [0x0a]) @ unix_fs_inner
      in and_then (array_multihash L (sha dag_pb_bytes)) (\<lambda>mh. Inr (cid_to_bytes L (new_v1 L 0x70 mh))))"

definition push_block_zk ::
  "('mh, 'cid) cid_lib \<Rightarrow> (bytes \<Rightarrow> bytes) \<Rightarrow> ('cid \<times> nat) list \<times> nat list \<times> nat \<Rightarrow> bytes \<Rightarrow>
   (('cid \<times> nat) list \<times> nat list \<times> nat, cid_error) result" where
  "push_block_zk L sha = (\<lambda>(links, blocksizes, total_len) chunk.
     and_then (array_multihash L (sha chunk)) (\<lambda>mh.
     Inr (links @ [(new_v1 L 0x55 mh, length chunk)], blocksizes @ [length chunk], total_len + length chunk)))"

definition compute_ipfs_cid_zk_optimized ::
  "('mh, 'cid) cid_lib \<Rightarrow> (bytes \<Rightarrow> bytes) \<Rightarrow> bytes \<Rightarrow> (bytes, cid_error) result" where
  "compute_ipfs_cid_zk_optimized L sha data =
     (if length data \<le> CHUNK_SIZE then compute_raw_cid_bytes L sha data
      else and_then (try_fold (push_block_zk L sha) ([], [], 0) (chunks CHUNK_SIZE data))
             (\<lambda>(links, blocksizes, total_len). compute_root_dag_pb_zk_optimized L sha links blocksizes total_len))"

section \<open>Varints\<close>

text \<open>The reference decoder of base-128 varints.\<close>

fun read_varint :: "bytes \<Rightarrow> (nat \<times> bytes) option" where
  "read_varint [] = None"
| "read_varint (b # bs) =
     (if unat b < 128 then Some (unat b, bs)
      else map_option (\<lambda>(n, rest). (unat b - 128 + 128 * n, rest)) (read_varint bs))"

lemma write_varint_acc: "write_varint n buf = buf @ write_varint n []"
proof (induction n arbitrary: buf rule: less_induct)
  case (less n)
  show ?case
  proof (cases "128 \<le> n")
    case True
    then have "n div 128 < n" by simp
    from less [OF this, of "buf @ [of_nat n OR 128]"] less [OF this, of "[of_nat n OR 128]"]
    show ?thesis using True by (simp add: write_varint.simps [of n])
  qed (simp add: write_varint.simps [of n])
qed

lemma unat_low_byte_or: "unat (of_nat n OR 128 :: byte) = 128 + n mod 128"
proof -
  have m: "n mod 128 = take_bit 7 n" by (simp add: take_bit_eq_mod)
  have p: "(128 :: byte) = 2 ^ 7" by simp
  have b: "bit (128 :: byte) k \<longleftrightarrow> k = 7" for k unfolding p bit_exp_iff by auto
  have "of_nat n OR 128 = (of_nat (n mod 128) OR 128 :: byte)"
    unfolding m by (rule bit_eqI, simp only: bit_or_iff bit_and_iff b) (auto simp: bit_simps)
  moreover have "(of_nat (n mod 128) :: byte) AND 128 = 0"
    unfolding m by (rule bit_eqI, simp only: bit_or_iff bit_and_iff b) (auto simp: bit_simps)
  then have "of_nat (n mod 128) OR 128 = (of_nat (n mod 128) + 128 :: byte)"
    by (simp add: disjunctive_add_eq_or)
  moreover have "(of_nat (n mod 128) + 128 :: byte) = of_nat (n mod 128 + 128)" by simp
  moreover have "unat (of_nat (n mod 128 + 128) :: byte) = 128 + n mod 128"
    by (simp only: unat_of_nat) simp
  ultimately show ?thesis by (simp only:)
qed

lemma read_write_varint: "read_varint (write_varint n [] @ rest) = Some (n, rest)"
proof (induction n rule: less_induct)
  case (less n)
  show ?case
  proof (cases "128 \<le> n")
    case True
    then have "n div 128 < n" by simp
    note IH = less [OF this]
    have "write_varint n [] = (of_nat n OR 128) # write_varint (n div 128) []"
      using True write_varint_acc [of "n div 128" "[of_nat n OR 128]"] by (simp add: write_varint.simps [of n])
    then show ?thesis using IH by (simp add: unat_low_byte_or)
  next
    case False
    then show ?thesis by (simp add: write_varint.simps [of n] unat_of_nat)
  qed
qed

lemma length_write_varint: "n < 128 ^ k \<Longrightarrow> 0 < k \<Longrightarrow> length (write_varint n []) \<le> k"
proof (induction k arbitrary: n)
  case (Suc k)
  show ?case
  proof (cases "128 \<le> n")
    case True
    have lt: "n div 128 < 128 ^ k" using Suc.prems by (simp add: div_less_iff_less_mult mult.commute)
    have "0 < k" using True Suc.prems by (cases k) simp_all
    with Suc.IH [OF lt] show ?thesis
      using True write_varint_acc [of "n div 128" "[of_nat n OR 128]"] by (simp add: write_varint.simps [of n])
  qed (simp add: write_varint.simps [of n])
qed simp

section \<open>The two versions\<close>

lemma array_multihash_eq: "length hash = 32 \<Longrightarrow> array_multihash L hash = sha_multihash L hash"
  by (simp add: array_multihash_def sha_multihash_def numeral_eq_Suc)

lemma dag_link_zk_eq: "dag_link_zk L = dag_link L"
  by (rule ext)+ (simp add: dag_link_zk_def dag_link_def Let_def split: prod.split)

lemma push_block_zk_eq: "(\<And>x. length (sha x) = 32) \<Longrightarrow> push_block_zk L sha = push_block L sha"
  by (rule ext)+ (simp add: push_block_zk_def push_block_def array_multihash_eq split: prod.split)

lemma push_blocks_total:
  assumes "try_fold (push_block L sha) (links, bs, t) cs = Inr (links', bs', t')"
  shows "bs' = bs @ map length cs \<and> map snd links' = map snd links @ map length cs \<and> t' = t + sum_list (map length cs)"
  using assms
proof (induction cs arbitrary: links bs t)
  case (Cons c cs)
  then obtain s where "push_block L sha (links, bs, t) c = Inr s" "try_fold (push_block L sha) s cs = Inr (links', bs', t')"
    by (auto simp: and_then_Inr_iff)
  with Cons.IH [of "fst s" "fst (snd s)" "snd (snd s)"] show ?case
    by (auto simp: push_block_def and_then_Inr_iff)
qed simp

section \<open>Properties\<close>

text \<open>
  C38: The optimised guest routine and the host routine compute the same identifier: for every
  input either both unwrap a failed multihash, or there is one identifier of which the host
  returns the text and the guest the bytes. SHA-256 digests have 32 bytes.
\<close>

theorem cid_variants_agree:
  assumes "\<forall>x. length (sha x) = 32"
  shows "(\<exists>c. compute_ipfs_cid L sha data = Inr (cid_to_string L c) \<and>
              compute_ipfs_cid_zk_optimized L sha data = Inr (cid_to_bytes L c)) \<or>
         (\<exists>e. compute_ipfs_cid L sha data = Inl e \<and> compute_ipfs_cid_zk_optimized L sha data = Inl e)"
proof (cases "length data \<le> CHUNK_SIZE")
  case True
  then show ?thesis using assms
    by (cases "sha_multihash L (sha data)")
      (simp_all add: compute_ipfs_cid_def compute_ipfs_cid_zk_optimized_def compute_raw_cid_def
        compute_raw_cid_bytes_def array_multihash_eq, blast)
next
  case False
  note big = False
  show ?thesis
  proof (cases "try_fold (push_block L sha) ([], [], 0) (chunks CHUNK_SIZE data)")
    case (Inl e)
    then show ?thesis using assms big
      by (simp add: compute_ipfs_cid_def compute_ipfs_cid_zk_optimized_def push_block_zk_eq)
  next
    case (Inr s)
    obtain links bs t where s: "s = (links, bs, t)" by (cases s) auto
    let ?bytes = "write_varint (length (unixfs_data bs t)) (fold (dag_link L) links [] @ [0x0a]) @ unixfs_data bs t"
    show ?thesis using assms big Inr s
      by (cases "sha_multihash L (sha ?bytes)")
        (simp_all add: compute_ipfs_cid_def compute_ipfs_cid_zk_optimized_def push_block_zk_eq
          compute_root_dag_pb_def compute_root_dag_pb_zk_optimized_def Let_def dag_link_zk_eq array_multihash_eq, blast)
  qed
qed

theorem cid_variants_agree_witness:
  "\<exists>c. compute_ipfs_cid_zk_optimized
     \<lparr> multihash_from_bytes = Some, new_v1 = (\<lambda>k mh. of_nat k # mh), cid_to_bytes = (\<lambda>c. 1 # c),
       cid_to_string = (\<lambda>c. map (char_of \<circ> unat) c) \<rparr> (\<lambda>x. replicate 32 3) [1, 2] = Inr (1 # c)"
  using cid_variants_agree [of "\<lambda>x. replicate 32 3"
      "\<lparr> multihash_from_bytes = Some, new_v1 = (\<lambda>k mh. of_nat k # mh), cid_to_bytes = (\<lambda>c. 1 # c),
         cid_to_string = (\<lambda>c. map (char_of \<circ> unat) c) \<rparr>" "[1, 2]"]
  by (auto simp: compute_ipfs_cid_zk_optimized_def compute_raw_cid_bytes_def array_multihash_def CHUNK_SIZE_def)

text \<open>
  Varints: decoding what \<open>write_varint\<close> appends to a buffer returns the number and leaves
  exactly the bytes behind it, and a 64-bit number takes at most ten bytes.
\<close>

theorem varint_roundtrip:
  "\<exists>enc. write_varint n buf = buf @ enc \<and> read_varint (enc @ rest) = Some (n, rest) \<and>
     (n < 2 ^ 64 \<longrightarrow> length enc \<le> 10)"
proof -
  have "n < 128 ^ 10" if "n < 2 ^ 64" using that by simp
  then show ?thesis using write_varint_acc [of n buf] read_write_varint [of n rest] length_write_varint [of n 10] by auto
qed

theorem varint_roundtrip_witness:
  "\<exists>enc. write_varint 300 [] = enc \<and> length enc \<le> 10"
  using varint_roundtrip [of 300 "[]" "[]"] by auto

text \<open>
  The metadata of a chunked file is right: the blocks are the file, none is empty or longer
  than the chunk size, the recorded block sizes and link sizes are the blocks' lengths, and the
  recorded file size is the length of the file.
\<close>

theorem ipfs_blocks_cover_file:
  assumes "try_fold (push_block L sha) ([], [], 0) (chunks CHUNK_SIZE data) = Inr (links, blocksizes, total_len)"
  shows "concat (chunks CHUNK_SIZE data) = data \<and> total_len = length data \<and>
    blocksizes = map length (chunks CHUNK_SIZE data) \<and> map snd links = blocksizes \<and>
    (\<forall>s \<in> set blocksizes. 0 < s \<and> s \<le> CHUNK_SIZE)"
proof -
  have cc: "concat (chunks CHUNK_SIZE data) = data" by (rule concat_chunks) (simp add: CHUNK_SIZE_def)
  then have "sum_list (map length (chunks CHUNK_SIZE data)) = length data" by (metis length_concat)
  with cc push_blocks_total [OF assms] show ?thesis by (auto dest: chunks_length_le)
qed

theorem ipfs_blocks_cover_file_witness:
  "\<exists>links bs t. try_fold (push_block \<lparr> multihash_from_bytes = Some, new_v1 = (\<lambda>k mh. mh), cid_to_bytes = id,
       cid_to_string = (\<lambda>c. []) \<rparr> (\<lambda>x. [])) ([], [], 0) (chunks CHUNK_SIZE [1, 2, 3]) = Inr (links, bs, t) \<and> t = 3"
proof -
  let ?L = "\<lparr> multihash_from_bytes = Some, new_v1 = (\<lambda>k mh :: bytes. mh), cid_to_bytes = id, cid_to_string = (\<lambda>c. []) \<rparr>"
  have c: "chunks CHUNK_SIZE [1, 2, 3 :: byte] = [[1, 2, 3]]" by (simp add: chunks_single CHUNK_SIZE_def)
  obtain links bs t where r: "try_fold (push_block ?L (\<lambda>x. [])) ([], [], 0) (chunks CHUNK_SIZE [1, 2, 3]) = Inr (links, bs, t)"
    unfolding c by (simp add: push_block_def sha_multihash_def)
  from ipfs_blocks_cover_file [OF r] r show ?thesis by auto
qed

end
