(* ===== verification/Vdd_Guest.thy ===== *)
theory Vdd_Guest
  imports Walrus_Open Cid
begin

unbundle bit_operations_syntax

text \<open>
  The guest programs of verifiable data disclosure:
  \<^verbatim>\<open>guest/vdd/program-vdd-walrus-rslhve\<close>, which checks sampled columns of two Walrus blobs against
  each other, and \<^verbatim>\<open>guest/vdd/program-vdd-filecoin\<close>, which seals the whole file and compares its
  CID. A guest run reads its inputs (a record here, one field per read), and either commits its
  public values (\<^const>\<open>Inr\<close>) or panics (\<^const>\<open>Inl\<close> with the message; the hex dumps
  formatted into a message are left out). SHA-256, BLAKE3, Blake2b-256, the ChaCha8 key stream and
  the CID library are parameters.
\<close>

section \<open>The column-sampling Walrus guest\<close>

record rslhve_input =
  in_c_origin :: bytes
  in_c_cipher :: bytes
  in_c_key :: bytes
  in_aux_data :: bytes
  in_key :: bytes
  in_samples :: "(nat \<times> bytes \<times> bytes) list"
  in_origin_opening :: blob_opening
  in_cipher_opening :: blob_opening

text \<open>The sample loop: each iteration reads an index and two shards; reading past the input panics.\<close>

definition read_samples :: "(nat \<times> bytes \<times> bytes) list \<Rightarrow> (ve_shard_proof list, string) result" where
  "read_samples samples =
     try_map (\<lambda>k.
       and_then (ensure (k < length samples) ''panic'') (\<lambda>_.
       let (idx, origin, cipher) = samples ! k in
       Inr \<lparr> global_index = idx, col_index = idx mod ROW_WIDTH_PRIMARY, parity_offset = 0,
             origin_shard = origin, cipher_shard = cipher, p_type = Col \<rparr>))
       [0..<DEFAULT_SAMPLE_COUNT]"

definition walrus_rslhve_main ::
  "(bytes \<Rightarrow> bytes) \<Rightarrow> (bytes \<Rightarrow> bytes) \<Rightarrow> (bytes \<Rightarrow> bytes) \<Rightarrow> keystream \<Rightarrow> rslhve_input \<Rightarrow> (bytes, string) result" where
  "walrus_rslhve_main blake3 sha256 H ks inp =
     (let c_origin = in_c_origin inp; c_cipher = in_c_cipher inp; c_key = in_c_key inp;
          aux_data = in_aux_data inp; key = in_key inp;
          oo = in_origin_opening inp; co = in_cipher_opening inp
      in
      and_then (ensure (c_key = blake3 key) ''RSLH-VE Failure: c_key does not match blake3(key)'') (\<lambda>_.
      and_then (read_samples (in_samples inp)) (\<lambda>proofs.
      and_then (map_err (\<lambda>e. ''Origin Walrus-Open Failure: '' @ e) (verify_walrus_blob_opening H oo)) (\<lambda>_.
      and_then (map_err (\<lambda>e. ''Cipher Walrus-Open Failure: '' @ e) (verify_walrus_blob_opening H co)) (\<lambda>_.
      and_then (ensure (op_blob_id oo = c_origin)
        ''Walrus-Binding Failure: origin opening does not match c_origin'') (\<lambda>_.
      and_then (ensure (op_blob_id co = c_cipher)
        ''Walrus-Binding Failure: cipher opening does not match c_cipher'') (\<lambda>_.
      and_then (ensure (op_unencoded_length oo = op_unencoded_length co)
        ''VDD Length Failure: origin and cipher lengths differ'') (\<lambda>_.
      and_then (ensure (\<not> op_unencoded_length oo < MIN_VDD_BLOB_BYTES)
        ''VDD Length Failure: asset is smaller than 1 MiB'') (\<lambda>_.
      let symbol_size = walrus_symbol_size (op_unencoded_length oo) in
      and_then (map_err (\<lambda>e. ''RSLH-Origin-Binding Failure: '' @ e)
        (verify_origin_column_bound oo proofs symbol_size)) (\<lambda>_.
      and_then (map_err (\<lambda>e. ''RSLH-Walrus-Binding Failure: '' @ e)
        (verify_cipher_column_bound sha256 ks key aux_data co proofs symbol_size)) (\<lambda>_.
      and_then (map_err (\<lambda>e. ''RSLH-VE Failure: '' @ e)
        (verify_rslh_ve_combat_raw sha256 ks key c_key c_origin c_cipher aux_data 1000 symbol_size proofs)) (\<lambda>_.
      Inr (c_origin @ c_key @ c_cipher)))))))))))))"

section \<open>The Filecoin guest\<close>

text \<open>The raw input vectors; all but the first carry an eight-byte prefix that the guest skips.\<close>

record filecoin_input =
  c_origin_raw :: bytes
  c_key_raw :: bytes
  c_cipher_raw :: bytes
  origin_raw :: bytes
  key_raw :: bytes

definition skip8 :: "bytes \<Rightarrow> (bytes, string) result" where
  "skip8 v = (if 8 \<le> length v then Inr (drop 8 v) else Inl ''panic'')"

definition filecoin_main ::
  "(bytes \<Rightarrow> bytes) \<Rightarrow> (bytes \<Rightarrow> bytes) \<Rightarrow> keystream \<Rightarrow> ('mh, 'cid) cid_lib \<Rightarrow> filecoin_input \<Rightarrow>
   (bytes, string) result" where
  "filecoin_main blake3 sha256 ks L inp =
     (let c_origin = c_origin_raw inp in
      and_then (skip8 (c_key_raw inp)) (\<lambda>c_key.
      and_then (skip8 (c_cipher_raw inp)) (\<lambda>c_cipher.
      and_then (skip8 (origin_raw inp)) (\<lambda>origin.
      and_then (skip8 (key_raw inp)) (\<lambda>key.
      and_then (ok_or ''panic'' (try_from_u 32 (length origin))) (\<lambda>data_size.
      and_then (ensure (c_origin = blake3 origin) ''origin data commitment mismatch'') (\<lambda>_.
      and_then (ensure (c_key = blake3 key) ''key commitment mismatch'') (\<lambda>_.
      and_then (ensure (length key = 32) ''key must be 32 bytes'') (\<lambda>_.
      case chacha8_seal_in_place sha256 ks origin key c_origin of (r, cipher) \<Rightarrow>
      and_then (map_err (\<lambda>_. ''data encryption failed'') r) (\<lambda>_.
      and_then (map_err (\<lambda>_. ''panic'') (compute_ipfs_cid_zk_optimized L sha256 cipher)) (\<lambda>cid.
      and_then (ensure (c_cipher = cid) ''cipher CID commitment mismatch'') (\<lambda>_.
      Inr (c_origin @ c_key @ c_cipher @ to_be_bytes 4 data_size)))))))))))))"

section \<open>The column checks in closed form\<close>

lemma cipher_rows_defined:
  "(\<exists>e. try_fold (cipher_row ks key nonce dl s c sh) acc rs = Inr e) \<longleftrightarrow>
   (\<forall>r \<in> set rs. row_off s c r < dl \<longrightarrow> length (column_symbols sh ! r) = s)"
proof (induction rs arbitrary: acc)
  case (Cons r rs)
  have "\<exists>e. cipher_row ks key nonce dl s c sh acc r = Inr e"
    if "row_off s c r < dl \<longrightarrow> length (column_symbols sh ! r) = s"
    using that by (auto simp: cipher_row_def Let_def ensure_def row_off_def)
  moreover have "row_off s c r < dl \<longrightarrow> length (column_symbols sh ! r) = s"
    if "cipher_row ks key nonce dl s c sh acc r = Inr e" for e
    using that by (auto simp: cipher_row_def Let_def ensure_def row_off_def split: if_splits)
  ultimately show ?case using Cons.IH by (auto simp: and_then_Inr_iff)
qed simp

lemma origin_rows_defined:
  assumes "\<forall>(r, sym) \<in> set xs. row_off s c r < dl \<longrightarrow> length sym = s"
  shows "\<exists>e stop'. try_fold (origin_row dl s c) (acc, stop) xs = Inr (e, stop')"
  using assms
proof (induction xs arbitrary: acc stop)
  case (Cons x xs)
  obtain r sym where x: "x = (r, sym)" by (cases x)
  have "\<exists>e stop'. origin_row dl s c (acc, stop) x = Inr (e, stop')"
    using Cons.prems by (auto simp: origin_row_def Let_def x row_off_def)
  then show ?case using Cons by (auto simp: and_then_Inr_iff)
qed simp

lemma cipher_column_iff:
  "cipher_column ks key nonce dl s (pf, sh) = Inr () \<longleftrightarrow>
     col_index pf < ROW_WIDTH_PRIMARY \<and> shard_index sh = col_index pf \<and>
     length (cipher_shard pf) = s \<and> length (origin_shard pf) = s \<and>
     length (column_symbols sh) = COL_HEIGHT_SECONDARY \<and>
     (\<forall>r < COL_HEIGHT_SECONDARY. row_off s (col_index pf) r < dl \<longrightarrow> length (column_symbols sh ! r) = s) \<and>
     (\<forall>i < s. cipher_shard pf ! i = column_sum
        (\<lambda>r. cipher_byte ks key nonce dl s (col_index pf) (column_symbols sh) r i) [0..<COL_HEIGHT_SECONDARY])"
    (is "?l \<longleftrightarrow> ?r")
proof
  assume l: ?l
  then have "length (origin_shard pf) = s" and "\<exists>e. try_fold (cipher_row ks key nonce dl s (col_index pf) sh)
      (replicate s 0) [0..<COL_HEIGHT_SECONDARY] = Inr e"
    by (auto simp: cipher_column_def Let_def and_then_Inr_iff ensure_def split: if_splits)
  with cipher_column_sum [OF l] show ?r by (simp add: cipher_rows_defined)
next
  assume r: ?r
  then obtain e where e: "try_fold (cipher_row ks key nonce dl s (col_index pf) sh)
      (replicate s 0) [0..<COL_HEIGHT_SECONDARY] = Inr e"
    using cipher_rows_defined [of ks key nonce dl s "col_index pf" sh "replicate s 0" "[0..<COL_HEIGHT_SECONDARY]"]
    by auto
  with cipher_rows [OF e] r have "e = cipher_shard pf" by (auto intro: nth_equalityI)
  with e r show ?l by (simp add: cipher_column_def Let_def ensure_def)
qed

lemma origin_column_accepts:
  assumes "col_index pf < ROW_WIDTH_PRIMARY" and "shard_index sh = col_index pf" and "length (origin_shard pf) = s"
    and "length (column_symbols sh) = COL_HEIGHT_SECONDARY" and "\<forall>sym \<in> set (column_symbols sh). length sym = s"
    and "\<And>i. i < s \<Longrightarrow> origin_shard pf ! i = column_sum
        (\<lambda>r. origin_byte dl s (col_index pf) (column_symbols sh) r i) [0..<COL_HEIGHT_SECONDARY]"
  shows "origin_column dl s (pf, sh) = Inr ()"
proof -
  obtain e stop where e: "try_fold (origin_row dl s (col_index pf)) (replicate s 0, False)
      (enumerate 0 (column_symbols sh)) = Inr (e, stop)"
    using origin_rows_defined [of "enumerate 0 (column_symbols sh)" s "col_index pf" dl] assms(5)
    by (fastforce simp: in_set_enumerate_eq)
  then have "e = origin_shard pf"
    using origin_rows [OF e] assms(3,4,6) by (auto simp: origin_byte_def cong: if_cong intro: nth_equalityI)
  with e assms show ?thesis by (simp add: origin_column_def Let_def ensure_def)
qed

section \<open>The honest column\<close>

text \<open>Symbol \<open>r\<close> of primary sliver \<open>c\<close> of the systematic code: the data, padded with zeros.\<close>

definition padded_symbol :: "bytes \<Rightarrow> nat \<Rightarrow> nat \<Rightarrow> nat \<Rightarrow> bytes" where
  "padded_symbol data s c r = take s (drop (row_off s c r) data @ replicate s 0)"

lemma length_padded_symbol [simp]: "length (padded_symbol data s c r) = s"
  by (simp add: padded_symbol_def)

lemma nth_padded_symbol:
  "i < s \<Longrightarrow> padded_symbol data s c r ! i =
    (if row_off s c r + i < length data then data ! (row_off s c r + i) else 0)"
  by (auto simp: padded_symbol_def nth_append)

lemma honest_row_origin:
  assumes "honest_row ks key nonce c s origin cipher (p_m, p_c) r = Inr (m1, c1)" and "length p_m = s"
  shows "length m1 = s" and "i < s \<Longrightarrow> m1 ! i = p_m ! i XOR
      gf256_mul_walrus (padded_symbol origin s c r ! i) (honest_beta r)"
  using assms by (auto simp: honest_row_def Let_def nth_mul_xor_at nth_padded_symbol row_off_def split: if_splits)

lemma honest_rows_origin:
  assumes "try_fold (honest_row ks key nonce c s origin cipher) (p_m, p_c) rs = Inr (m, x)" and "length p_m = s"
  shows "length m = s \<and> (\<forall>i < s. m ! i = p_m ! i XOR column_sum (\<lambda>r. padded_symbol origin s c r ! i) rs)"
  using assms
proof (induction rs arbitrary: p_m p_c)
  case (Cons r rs)
  then obtain m1 c1 where st: "honest_row ks key nonce c s origin cipher (p_m, p_c) r = Inr (m1, c1)"
    and rest: "try_fold (honest_row ks key nonce c s origin cipher) (m1, c1) rs = Inr (m, x)"
    by (auto simp: and_then_Inr_iff)
  note one = honest_row_origin [OF st Cons.prems(2)]
  from Cons.IH [OF rest one(1)] one(2) show ?case by (simp add: xor.assoc)
qed simp

definition opens_column :: "bytes \<Rightarrow> nat \<Rightarrow> nat \<Rightarrow> shard_opening \<Rightarrow> bool" where
  "opens_column data s c sh \<longleftrightarrow>
     shard_index sh = c \<and> column_symbols sh = map (padded_symbol data s c) [0..<COL_HEIGHT_SECONDARY]"

lemma column_sum_cong: "(\<And>r. r \<in> set rs \<Longrightarrow> f r = g r) \<Longrightarrow> column_sum f rs = column_sum g rs"
  unfolding column_sum_def by (rule arg_cong [of _ _ xor_list]) simp

lemma honest_column_accepted:
  assumes len: "length cipher = length origin"
    and enc: "\<And>j. j < length origin \<Longrightarrow> cipher ! j = origin ! j XOR ks key nonce j"
    and o: "opens_column origin s (idx mod ROW_WIDTH_PRIMARY) osh"
    and c: "opens_column cipher s (idx mod ROW_WIDTH_PRIMARY) csh"
  obtains pf where "create_honest_proof ks key nonce idx s origin cipher = Inr pf"
    and "global_index pf = idx" "col_index pf = idx mod ROW_WIDTH_PRIMARY" "parity_offset pf = 0" "p_type pf = Col"
    and "verify_col_homomorphism ks key nonce pf s = Inr ()"
    and "origin_column (length origin) s (pf, osh) = Inr ()"
    and "cipher_column ks key nonce (length origin) s (pf, csh) = Inr ()"
proof -
  let ?c = "idx mod ROW_WIDTH_PRIMARY" let ?rs = "[0..<COL_HEIGHT_SECONDARY]" let ?n = "length origin"
  obtain pf where pf: "create_honest_proof ks key nonce idx s origin cipher = Inr pf"
    and ix: "global_index pf = idx" "col_index pf = ?c"
    and hom: "verify_col_homomorphism ks key nonce pf s = Inr ()"
    using create_honest_proof_verifies [where ks = ks and key = key and nonce = nonce, OF len enc] by metis
  from pf obtain p_c where loop: "try_fold (honest_row ks key nonce ?c s origin cipher)
      (replicate s 0, replicate s 0) ?rs = Inr (origin_shard pf, p_c)"
    and par: "parity_offset pf = 0" "p_type pf = Col"
    by (auto simp: create_honest_proof_def Let_def and_then_Inr_iff)
  have c334: "?c < ROW_WIDTH_PRIMARY" by (simp add: ROW_WIDTH_PRIMARY_def)
  have osum: "origin_shard pf ! i = column_sum (\<lambda>r. padded_symbol origin s ?c r ! i) ?rs" if "i < s" for i
    using honest_rows_origin [OF loop] that by simp
  have slen: "length (origin_shard pf) = s" "length (cipher_shard pf) = s"
    and csum: "\<And>i. i < s \<Longrightarrow> cipher_shard pf ! i =
      origin_shard pf ! i XOR column_sum (\<lambda>r. ks key nonce (row_off s ?c r + i)) ?rs"
    using hom by (simp_all add: verify_col_homomorphism_iff ks_sum_def column_sum_def par ix verify_beta_0)
  have "origin_column ?n s (pf, osh) = Inr ()"
  proof (rule origin_column_accepts)
    fix i assume i: "i < s"
    show "origin_shard pf ! i = column_sum (\<lambda>r. origin_byte ?n s (col_index pf) (column_symbols osh) r i) ?rs"
      unfolding osum [OF i] using o i
      by (intro column_sum_cong) (auto simp: origin_byte_def opens_column_def ix nth_padded_symbol)
  qed (use o slen c334 ix in \<open>auto simp: opens_column_def\<close>)
  moreover have "cipher_column ks key nonce ?n s (pf, csh) = Inr ()"
  proof -
    have "cipher_shard pf ! i = column_sum (\<lambda>r. cipher_byte ks key nonce ?n s ?c (column_symbols csh) r i) ?rs"
      if i: "i < s" for i
      unfolding csum [OF i] osum [OF i] column_sum_xor [symmetric] using c i enc len
      by (intro column_sum_cong) (auto simp: cipher_byte_def opens_column_def nth_padded_symbol)
    then show ?thesis using c slen c334 by (auto simp: cipher_column_iff opens_column_def ix)
  qed
  ultimately show ?thesis using that pf ix par hom by blast
qed

section \<open>What an accepted run checked\<close>

definition sample_proof :: "nat \<times> bytes \<times> bytes \<Rightarrow> ve_shard_proof" where
  "sample_proof x = \<lparr> global_index = fst x, col_index = fst x mod ROW_WIDTH_PRIMARY, parity_offset = 0,
     origin_shard = fst (snd x), cipher_shard = snd (snd x), p_type = Col \<rparr>"

lemma read_samples_iff:
  "read_samples samples = Inr proofs \<longleftrightarrow>
     DEFAULT_SAMPLE_COUNT \<le> length samples \<and> proofs = map sample_proof (take DEFAULT_SAMPLE_COUNT samples)"
proof -
  have "read_samples samples = Inr proofs \<longleftrightarrow> length proofs = DEFAULT_SAMPLE_COUNT \<and>
      (\<forall>k < DEFAULT_SAMPLE_COUNT. k < length samples \<and> proofs ! k = sample_proof (samples ! k))"
  proof -
    have "and_then (ensure (k < length samples) ''panic'') (\<lambda>_.
        let (idx, origin, cipher) = samples ! k in
        Inr \<lparr> global_index = idx, col_index = idx mod ROW_WIDTH_PRIMARY, parity_offset = 0,
              origin_shard = origin, cipher_shard = cipher, p_type = Col \<rparr>) = Inr pf \<longleftrightarrow>
        k < length samples \<and> pf = sample_proof (samples ! k)" for k pf
      by (auto simp: ensure_def sample_proof_def split: prod.splits)
    then show ?thesis by (auto simp: read_samples_def try_map_Inr_iff list_all2_conv_all_nth)
  qed
  also have "\<dots> \<longleftrightarrow> DEFAULT_SAMPLE_COUNT \<le> length samples \<and>
      proofs = map sample_proof (take DEFAULT_SAMPLE_COUNT samples)"
  proof -
    have "(\<forall>k < DEFAULT_SAMPLE_COUNT. k < length samples) \<longleftrightarrow> DEFAULT_SAMPLE_COUNT \<le> length samples"
      by (metis less_irrefl less_le_trans not_le)
    then show ?thesis by (auto simp: list_eq_iff_nth_eq min_absorb2)
  qed
  finally show ?thesis .
qed

lemma accepted_run:
  assumes "walrus_rslhve_main blake3 sha256 H ks inp = Inr out"
  obtains proofs where "out = in_c_origin inp @ in_c_key inp @ in_c_cipher inp"
    and "in_c_key inp = blake3 (in_key inp)" and "read_samples (in_samples inp) = Inr proofs"
    and "verify_walrus_blob_opening H (in_origin_opening inp) = Inr ()"
    and "verify_walrus_blob_opening H (in_cipher_opening inp) = Inr ()"
    and "op_blob_id (in_origin_opening inp) = in_c_origin inp" "op_blob_id (in_cipher_opening inp) = in_c_cipher inp"
    and "op_unencoded_length (in_origin_opening inp) = op_unencoded_length (in_cipher_opening inp)"
    and "MIN_VDD_BLOB_BYTES \<le> op_unencoded_length (in_origin_opening inp)"
    and "verify_origin_column_bound (in_origin_opening inp) proofs
      (walrus_symbol_size (op_unencoded_length (in_origin_opening inp))) = Inr ()"
    and "verify_cipher_column_bound sha256 ks (in_key inp) (in_aux_data inp) (in_cipher_opening inp) proofs
      (walrus_symbol_size (op_unencoded_length (in_origin_opening inp))) = Inr ()"
    and "verify_rslh_ve_combat sha256 ks (in_key inp) (in_c_key inp) (in_c_origin inp) (in_c_cipher inp)
      (in_aux_data inp) 1000 (walrus_symbol_size (op_unencoded_length (in_origin_opening inp))) proofs = Inr ()"
  using assms
  by (auto simp: walrus_rslhve_main_def verify_rslh_ve_combat_raw_def Let_def and_then_Inr_iff ensure_def map_err_Inr_iff
      split: if_splits)

text \<open>The column that sample \<open>k\<close> must open, a function of the three public commitments.\<close>

definition sampled_column :: "(bytes \<Rightarrow> bytes) \<Rightarrow> rslhve_input \<Rightarrow> nat \<Rightarrow> nat" where
  "sampled_column sha256 inp k =
     sample_index sha256 (sha256 (in_c_origin inp @ in_c_cipher inp @ in_c_key inp)) 1000 k mod ROW_WIDTH_PRIMARY"

definition sample_residue :: "(bytes \<Rightarrow> bytes) \<Rightarrow> keystream \<Rightarrow> rslhve_input \<Rightarrow> nat \<Rightarrow> nat \<Rightarrow> nat \<Rightarrow> byte" where
  "sample_residue sha256 ks inp k =
     (let dl = op_unencoded_length (in_origin_opening inp) in
      residue ks (in_key inp) (derive_rslh_nonce sha256 (in_key inp) (in_aux_data inp)) dl (walrus_symbol_size dl)
        (sampled_column sha256 inp k) (column_symbols (op_shards (in_origin_opening inp) ! k))
        (column_symbols (op_shards (in_cipher_opening inp) ! k)))"

lemma accepted_columns:
  assumes "walrus_rslhve_main blake3 sha256 H ks inp = Inr out" and k: "k < DEFAULT_SAMPLE_COUNT"
  shows "shard_index (op_shards (in_origin_opening inp) ! k) = sampled_column sha256 inp k"
    and "shard_index (op_shards (in_cipher_opening inp) ! k) = sampled_column sha256 inp k"
    and "k < length (op_shards (in_origin_opening inp))" and "k < length (op_shards (in_cipher_opening inp))"
    and "i < walrus_symbol_size (op_unencoded_length (in_origin_opening inp)) \<Longrightarrow>
      column_sum (sample_residue sha256 ks inp k i) [0..<COL_HEIGHT_SECONDARY] = 0"
proof -
  let ?oo = "in_origin_opening inp" let ?co = "in_cipher_opening inp"
  let ?dl = "op_unencoded_length ?oo" let ?s = "walrus_symbol_size ?dl"
  let ?nonce = "derive_rslh_nonce sha256 (in_key inp) (in_aux_data inp)"
  obtain proofs where rd: "read_samples (in_samples inp) = Inr proofs"
    and dl: "?dl = op_unencoded_length ?co"
    and o: "verify_origin_column_bound ?oo proofs ?s = Inr ()"
    and c: "verify_cipher_column_bound sha256 ks (in_key inp) (in_aux_data inp) ?co proofs ?s = Inr ()"
    and h: "verify_rslh_ve_combat sha256 ks (in_key inp) (in_c_key inp) (in_c_origin inp) (in_c_cipher inp)
      (in_aux_data inp) 1000 ?s proofs = Inr ()"
    using accepted_run [OF assms(1)] by metis
  define pf where "pf = proofs ! k"
  from rd k have kl: "k < length proofs" and par: "parity_offset pf = 0"
    and ci: "col_index pf = global_index pf mod ROW_WIDTH_PRIMARY"
    by (simp_all add: read_samples_iff pf_def sample_proof_def)
  show lo: "k < length (op_shards ?oo)" and lc: "k < length (op_shards ?co)"
    using o c kl by (auto simp: verify_origin_column_bound_def verify_cipher_column_bound_def and_then_Inr_iff
        ensure_def split: if_splits)
  have "(pf, op_shards ?oo ! k) \<in> set (zip proofs (op_shards ?oo))"
    and "(pf, op_shards ?co ! k) \<in> set (zip proofs (op_shards ?co))"
    using kl lo lc by (auto simp: set_zip pf_def)
  with o c have oc: "origin_column ?dl ?s (pf, op_shards ?oo ! k) = Inr ()"
    and cc: "cipher_column ks (in_key inp) ?nonce ?dl ?s (pf, op_shards ?co ! k) = Inr ()"
    by (auto simp: verify_origin_column_bound_def verify_cipher_column_bound_def and_then_Inr_iff
        try_all_Inr_iff dl)
  have "(k, pf) \<in> set (enumerate 0 proofs)" using kl by (simp add: in_set_enumerate_eq pf_def)
  with h have hom: "verify_col_homomorphism ks (in_key inp) ?nonce pf ?s = Inr ()"
    and gi: "global_index pf = sample_index sha256 (sha256 (in_c_origin inp @ in_c_cipher inp @ in_c_key inp)) 1000 k"
    by (auto simp: verify_rslh_ve_combat_def Let_def try_all_Inr_iff and_then_Inr_iff ensure_def split: if_splits)
  have col: "col_index pf = sampled_column sha256 inp k" by (simp add: ci gi sampled_column_def)
  show "shard_index (op_shards ?oo ! k) = sampled_column sha256 inp k"
    and "shard_index (op_shards ?co ! k) = sampled_column sha256 inp k"
    using origin_column_sum(1) [OF oc] cipher_column_sum(2) [OF cc] col by simp_all
  show "i < ?s \<Longrightarrow> column_sum (sample_residue sha256 ks inp k i) [0..<COL_HEIGHT_SECONDARY] = 0"
    using column_relation [OF cc oc hom par] by (simp add: sample_residue_def Let_def col)
qed

text \<open>The honest inputs: verified openings of both blobs whose shards open the sampled columns.\<close>

definition honest_opening :: "bytes \<Rightarrow> (nat \<Rightarrow> nat) \<Rightarrow> blob_opening \<Rightarrow> bool" where
  "honest_opening data col op \<longleftrightarrow>
     op_n_shards op = 1000 \<and> op_unencoded_length op = length data \<and> length (op_shards op) = DEFAULT_SAMPLE_COUNT \<and>
     (\<forall>k < DEFAULT_SAMPLE_COUNT. opens_column data (walrus_symbol_size (length data)) (col k) (op_shards op ! k))"

lemma honest_run_accepted:
  assumes enc: "chacha8_encrypt ks origin key (derive_rslh_nonce sha256 key aux) 0 = Inr cipher"
    and big: "MIN_VDD_BLOB_BYTES \<le> length origin"
    and ids: "length (op_blob_id oo) = 32" "length (op_blob_id co) = 32"
    and v: "verify_walrus_blob_opening H oo = Inr ()" "verify_walrus_blob_opening H co = Inr ()"
    and idx: "idx = sample_index sha256 (sha256 (op_blob_id oo @ op_blob_id co @ blake3 key)) 1000"
    and oo: "honest_opening origin (\<lambda>k. idx k mod ROW_WIDTH_PRIMARY) oo"
    and co: "honest_opening cipher (\<lambda>k. idx k mod ROW_WIDTH_PRIMARY) co"
  shows "\<exists>proofs. try_map (\<lambda>k. create_honest_proof ks key (derive_rslh_nonce sha256 key aux) (idx k)
      (walrus_symbol_size (length origin)) origin cipher) [0..<DEFAULT_SAMPLE_COUNT] = Inr proofs \<and>
    walrus_rslhve_main blake3 sha256 H ks \<lparr> in_c_origin = op_blob_id oo, in_c_cipher = op_blob_id co,
      in_c_key = blake3 key, in_aux_data = aux, in_key = key,
      in_samples = map (\<lambda>pf. (global_index pf, origin_shard pf, cipher_shard pf)) proofs,
      in_origin_opening = oo, in_cipher_opening = co \<rparr> = Inr (op_blob_id oo @ blake3 key @ op_blob_id co)"
proof -
  let ?nonce = "derive_rslh_nonce sha256 key aux" let ?s = "walrus_symbol_size (length origin)"
  let ?mk = "\<lambda>k. create_honest_proof ks key ?nonce (idx k) ?s origin cipher"
  have len: "length cipher = length origin"
    and xor: "\<And>j. j < length origin \<Longrightarrow> cipher ! j = origin ! j XOR ks key ?nonce j"
    using enc by (auto simp: chacha8_encrypt_def)
  have "\<exists>pf. ?mk k = Inr pf \<and> pf = sample_proof (idx k, origin_shard pf, cipher_shard pf) \<and>
      verify_col_homomorphism ks key ?nonce pf ?s = Inr () \<and>
      origin_column (length origin) ?s (pf, op_shards oo ! k) = Inr () \<and>
      cipher_column ks key ?nonce (length origin) ?s (pf, op_shards co ! k) = Inr ()"
    if "k < DEFAULT_SAMPLE_COUNT" for k
  proof -
    have "opens_column origin ?s (idx k mod ROW_WIDTH_PRIMARY) (op_shards oo ! k)"
      "opens_column cipher ?s (idx k mod ROW_WIDTH_PRIMARY) (op_shards co ! k)"
      using oo co that len by (simp_all add: honest_opening_def)
    then obtain pf where "?mk k = Inr pf" "global_index pf = idx k" "col_index pf = idx k mod ROW_WIDTH_PRIMARY"
      "parity_offset pf = 0" "p_type pf = Col" "verify_col_homomorphism ks key ?nonce pf ?s = Inr ()"
      "origin_column (length origin) ?s (pf, op_shards oo ! k) = Inr ()"
      "cipher_column ks key ?nonce (length origin) ?s (pf, op_shards co ! k) = Inr ()"
      using honest_column_accepted [where ks = ks and key = key and nonce = ?nonce, OF len xor] by metis
    then show ?thesis by (intro exI [of _ pf]) (simp add: sample_proof_def)
  qed
  then obtain g where g: "\<And>k. k < DEFAULT_SAMPLE_COUNT \<Longrightarrow> ?mk k = Inr (g k) \<and>
      g k = sample_proof (idx k, origin_shard (g k), cipher_shard (g k)) \<and>
      verify_col_homomorphism ks key ?nonce (g k) ?s = Inr () \<and>
      origin_column (length origin) ?s (g k, op_shards oo ! k) = Inr () \<and>
      cipher_column ks key ?nonce (length origin) ?s (g k, op_shards co ! k) = Inr ()"
    by metis
  let ?ps = "map g [0..<DEFAULT_SAMPLE_COUNT]"
  have mk: "try_map ?mk [0..<DEFAULT_SAMPLE_COUNT] = Inr ?ps" by (rule try_map_total) (use g in auto)
  have gp: "sample_proof (idx k, origin_shard (g k), cipher_shard (g k)) = g k" if "k < DEFAULT_SAMPLE_COUNT" for k
    using g [OF that] by simp
  then have gi: "global_index (g k) = idx k" if "k < DEFAULT_SAMPLE_COUNT" for k
    using that by (metis fst_conv sample_proof_def ve_shard_proof.select_convs(1))
  have gv: "\<forall>k < DEFAULT_SAMPLE_COUNT. verify_col_homomorphism ks key ?nonce (g k) ?s = Inr () \<and>
      origin_column (length origin) ?s (g k, op_shards oo ! k) = Inr () \<and>
      cipher_column ks key ?nonce (length origin) ?s (g k, op_shards co ! k) = Inr ()"
    using g by blast
  have "read_samples (map (\<lambda>pf. (global_index pf, origin_shard pf, cipher_shard pf)) ?ps) = Inr ?ps"
    unfolding read_samples_iff using gp gi by (simp add: list_eq_iff_nth_eq)
  moreover have "verify_origin_column_bound oo ?ps ?s = Inr ()"
    using oo gv by (auto simp: verify_origin_column_bound_def honest_opening_def ensure_def try_all_Inr_iff set_zip)
  moreover have "verify_cipher_column_bound sha256 ks key aux co ?ps ?s = Inr ()"
    using co gv len by (auto simp: verify_cipher_column_bound_def honest_opening_def ensure_def try_all_Inr_iff set_zip)
  moreover have "verify_rslh_ve_combat sha256 ks key (blake3 key) (op_blob_id oo) (op_blob_id co) aux 1000 ?s ?ps
      = Inr ()"
    using gv gi idx by (auto simp: verify_rslh_ve_combat_def Let_def try_all_Inr_iff in_set_enumerate_eq ensure_def)
  moreover have "op_unencoded_length oo = length origin" "op_unencoded_length co = length origin"
    using oo co len by (simp_all add: honest_opening_def)
  ultimately show ?thesis using mk v ids big
    by (auto simp: walrus_rslhve_main_def verify_rslh_ve_combat_raw_def Let_def ensure_def)
qed

section \<open>Openings the host builds\<close>

lemma build_opening_shards:
  assumes "build_walrus_blob_opening H hs e len samples = Inr op"
  shows "op_n_shards op = isqrt (length hs)" and "length (op_shards op) = length samples"
    and "k < length samples \<Longrightarrow> shard_index (op_shards op ! k) = sr_shard_index (samples ! k) \<and>
      column_symbols (op_shards op ! k) = map rq_symbol (sr_column_symbols (samples ! k))"
proof -
  have sh: "shard_index sh = sr_shard_index sample \<and> column_symbols sh = map rq_symbol (sr_column_symbols sample)"
    if "open_shard H hs n roots t sample = Inr sh" for n roots t sample sh
    using that by (auto simp: open_shard_def Let_def and_then_Inr_iff dest: open_column_Inr)
  obtain roots t where n: "op_n_shards op = isqrt (length hs)"
    and tm: "try_map (open_shard H hs (isqrt (length hs)) roots t) samples = Inr (op_shards op)"
    using assms by (auto simp: build_walrus_blob_opening_def Let_def and_then_Inr_iff split: if_splits)
  show "op_n_shards op = isqrt (length hs)" "length (op_shards op) = length samples"
    and "k < length samples \<Longrightarrow> shard_index (op_shards op ! k) = sr_shard_index (samples ! k) \<and>
      column_symbols (op_shards op ! k) = map rq_symbol (sr_column_symbols (samples ! k))"
    using n tm sh by (auto simp: try_map_Inr_iff list_all2_conv_all_nth)
qed

lemma length_blob_id: "digest32 H \<Longrightarrow> length (compute_blob_id_from_sliver_pair_roots H roots e len) = 32"
  by (simp add: compute_blob_id_from_sliver_pair_roots_def from_sliver_pair_metadata_def
      from_metadata_def new_with_hash_function_def digest32_def)

text \<open>A blob of one MiB of zeros with an all-zero key stream, opened at column 0 fifteen times.\<close>

definition zero_sample :: sample_request where
  "zero_sample = \<lparr> sr_shard_index = 0, sr_primary_symbols = [], sr_secondary_symbols = [],
     sr_column_symbols = map (\<lambda>r. \<lparr> rq_leaf_index = r, rq_symbol = replicate 6 0 \<rparr>) [0..<COL_HEIGHT_SECONDARY] \<rparr>"

definition zero_hashes :: "node list" where
  "zero_hashes = replicate 1000000 (leaf_hash demo_hash (replicate 6 0))"

lemma padded_zeros: "padded_symbol (replicate n 0) s c r = replicate s 0"
  by (rule nth_equalityI) (simp_all add: nth_padded_symbol)

lemma zero_opening:
  obtains op where "verify_walrus_blob_opening demo_hash op = Inr ()" and "length (op_blob_id op) = 32"
    and "honest_opening (replicate MIN_VDD_BLOB_BYTES 0) (\<lambda>k. 0) op"
proof -
  let ?S = "replicate DEFAULT_SAMPLE_COUNT zero_sample"
  have n: "1000 * 1000 = length zero_hashes" "0 < (1000 :: nat)" "1000 < (2 :: nat) ^ 32"
    by (simp_all add: zero_hashes_def)
  have d: "\<forall>h \<in> set zero_hashes. \<exists>b. h = Digest b" by (simp add: zero_hashes_def leaf_hash_def)
  have "valid_sample 1000 zero_sample"
    by (simp add: valid_sample_def zero_sample_def check_sample_def ensure_def comp_def)
  moreover have "honest_sample demo_hash zero_hashes 1000 zero_sample"
    by (simp add: honest_sample_def zero_sample_def zero_hashes_def)
  ultimately have ok: "\<forall>sample \<in> set ?S. valid_sample 1000 sample \<and> honest_sample demo_hash zero_hashes 1000 sample"
    by auto
  obtain op where op: "build_walrus_blob_opening demo_hash zero_hashes RS2 MIN_VDD_BLOB_BYTES ?S = Inr op"
    "op_blob_id op = compute_blob_id_from_sliver_pair_roots demo_hash (map (shard_roots demo_hash zero_hashes 1000) [0..<1000]) RS2 MIN_VDD_BLOB_BYTES"
    "op_unencoded_length op = MIN_VDD_BLOB_BYTES" "verify_walrus_blob_opening demo_hash op = Inr ()"
    using build_opening_verifies [OF n d ok] by blast
  have "length (op_blob_id op) = 32"
    unfolding op(2) by (rule length_blob_id) (simp add: digest32_def demo_hash_def)
  moreover have "isqrt (length zero_hashes) = 1000" using n(1) isqrt_square [of 1000] by simp
  moreover have "walrus_symbol_size MIN_VDD_BLOB_BYTES = 6"
    by (simp add: walrus_symbol_size_def MIN_VDD_BLOB_BYTES_def ROW_WIDTH_PRIMARY_def COL_HEIGHT_SECONDARY_def
        div_ceil_def and_one_eq)
  ultimately have "honest_opening (replicate MIN_VDD_BLOB_BYTES 0) (\<lambda>k. 0) op"
    using build_opening_shards [OF op(1)] op(3)
    by (auto simp: honest_opening_def opens_column_def padded_zeros [abs_def] zero_sample_def comp_def)
  with op(4) \<open>length (op_blob_id op) = 32\<close> that show ?thesis by blast
qed

section \<open>Properties\<close>

text \<open>
  The column-sampling guest accepts honest runs. Let the ciphertext be the encryption of an
  origin of at least one MiB, and let both openings verify and open, for each of the fifteen
  indices drawn from the public commitments, the zero-padded symbols of that column. Then the
  honest prover produces a proof for every index and the guest commits the origin identifier, the
  key commitment and the cipher identifier.
\<close>

theorem rslhve_honest_accepted:
  assumes "chacha8_encrypt ks origin key (derive_rslh_nonce sha256 key aux) 0 = Inr cipher"
    and "MIN_VDD_BLOB_BYTES \<le> length origin"
    and "length (op_blob_id oo) = 32" "length (op_blob_id co) = 32"
    and "verify_walrus_blob_opening H oo = Inr ()" "verify_walrus_blob_opening H co = Inr ()"
    and "idx = sample_index sha256 (sha256 (op_blob_id oo @ op_blob_id co @ blake3 key)) 1000"
    and "honest_opening origin (\<lambda>k. idx k mod ROW_WIDTH_PRIMARY) oo"
    and "honest_opening cipher (\<lambda>k. idx k mod ROW_WIDTH_PRIMARY) co"
  shows "\<exists>proofs. try_map (\<lambda>k. create_honest_proof ks key (derive_rslh_nonce sha256 key aux) (idx k)
      (walrus_symbol_size (length origin)) origin cipher) [0..<DEFAULT_SAMPLE_COUNT] = Inr proofs \<and>
    walrus_rslhve_main blake3 sha256 H ks \<lparr> in_c_origin = op_blob_id oo, in_c_cipher = op_blob_id co,
      in_c_key = blake3 key, in_aux_data = aux, in_key = key,
      in_samples = map (\<lambda>pf. (global_index pf, origin_shard pf, cipher_shard pf)) proofs,
      in_origin_opening = oo, in_cipher_opening = co \<rparr> = Inr (op_blob_id oo @ blake3 key @ op_blob_id co)"
  using assms by (rule honest_run_accepted)

lemma zero_run:
  defines "sha \<equiv> \<lambda>x :: bytes. replicate 32 (0 :: byte)" and "ks \<equiv> \<lambda>(k :: bytes) (n :: bytes) (p :: nat). 0 :: byte"
    and "data \<equiv> replicate MIN_VDD_BLOB_BYTES (0 :: byte)"
  shows "chacha8_encrypt ks data key (derive_rslh_nonce sha key aux) 0 = Inr data"
    and "sample_index sha seed 1000 k mod ROW_WIDTH_PRIMARY = 0"
    and "MIN_VDD_BLOB_BYTES \<le> length data"
proof -
  show "chacha8_encrypt ks data key (derive_rslh_nonce sha key aux) 0 = Inr data"
    unfolding chacha8_encrypt_def by (simp add: list_eq_iff_nth_eq, simp add: ks_def data_def)
  show "sample_index sha seed 1000 k mod ROW_WIDTH_PRIMARY = 0" by (simp add: sample_index_def sha_def)
  show "MIN_VDD_BLOB_BYTES \<le> length data" by (simp add: data_def)
qed

theorem rslhve_honest_accepted_witness:
  "\<exists>inp (op :: blob_opening). walrus_rslhve_main (\<lambda>x. replicate 32 7) (\<lambda>x. replicate 32 0) demo_hash (\<lambda>k n p. 0) inp =
     Inr (op_blob_id op @ replicate 32 7 @ op_blob_id op)"
proof -
  obtain op where op: "verify_walrus_blob_opening demo_hash op = Inr ()" "length (op_blob_id op) = 32"
    "honest_opening (replicate MIN_VDD_BLOB_BYTES 0) (\<lambda>k. 0) op"
    by (rule zero_opening)
  let ?sha = "\<lambda>x :: bytes. replicate 32 (0 :: byte)"
  let ?idx = "sample_index ?sha (?sha (op_blob_id op @ op_blob_id op @ replicate 32 7)) 1000"
  have h: "honest_opening (replicate MIN_VDD_BLOB_BYTES 0) (\<lambda>k. ?idx k mod ROW_WIDTH_PRIMARY) op"
    unfolding zero_run(2) by (rule op(3))
  from rslhve_honest_accepted [of _ _ "replicate 32 1" _ "[]" _ _ _ _ _ "\<lambda>x. replicate 32 7",
      OF zero_run(1) zero_run(3) op(2) op(2) op(1) op(1) refl h h]
  show ?thesis by blast
qed

text \<open>
  C7: What an accepted run of the column-sampling guest certifies. The committed value is the
  origin identifier, the BLAKE3 commitment of the key and the cipher identifier; both openings
  verified against these identifiers and have equal lengths of at least one MiB; for each of the
  fifteen columns determined by the three commitments, and every byte position, the weighted XOR
  over the rows of (plaintext XOR key stream XOR ciphertext) of the opened symbols is zero.
  Hence if all rows of a sampled column but one are encrypted correctly, so is that one.
\<close>

theorem rslhve_accepted_statement:
  assumes "walrus_rslhve_main blake3 sha256 H ks inp = Inr out"
  shows "out = in_c_origin inp @ blake3 (in_key inp) @ in_c_cipher inp \<and>
    verify_walrus_blob_opening H (in_origin_opening inp) = Inr () \<and>
    verify_walrus_blob_opening H (in_cipher_opening inp) = Inr () \<and>
    op_blob_id (in_origin_opening inp) = in_c_origin inp \<and> op_blob_id (in_cipher_opening inp) = in_c_cipher inp \<and>
    op_unencoded_length (in_origin_opening inp) = op_unencoded_length (in_cipher_opening inp) \<and>
    1048576 \<le> op_unencoded_length (in_origin_opening inp) \<and>
    (\<forall>k < 15. shard_index (op_shards (in_origin_opening inp) ! k) = sampled_column sha256 inp k \<and>
       shard_index (op_shards (in_cipher_opening inp) ! k) = sampled_column sha256 inp k \<and>
       (\<forall>i < walrus_symbol_size (op_unencoded_length (in_origin_opening inp)).
          column_sum (sample_residue sha256 ks inp k i) [0..<667] = 0 \<and>
          (\<forall>r0 < 667. (\<forall>r < 667. r \<noteq> r0 \<longrightarrow> sample_residue sha256 ks inp k i r = 0) \<longrightarrow>
             sample_residue sha256 ks inp k i r0 = 0)))"
proof -
  have "sample_residue sha256 ks inp k i r0 = 0"
    if "k < 15" "i < walrus_symbol_size (op_unencoded_length (in_origin_opening inp))" "r0 < 667"
      "\<forall>r < 667. r \<noteq> r0 \<longrightarrow> sample_residue sha256 ks inp k i r = 0" for k i r0
    using accepted_columns(5) [OF assms, of k i] single_residue_nonzero [of r0 "sample_residue sha256 ks inp k i"] that
    by (auto simp: DEFAULT_SAMPLE_COUNT_def COL_HEIGHT_SECONDARY_def simp del: upt_Suc upt_rec_numeral)
  moreover have "column_sum (sample_residue sha256 ks inp k i) [0..<667] = 0"
    if "k < 15" "i < walrus_symbol_size (op_unencoded_length (in_origin_opening inp))" for k i
    using accepted_columns(5) [OF assms, of k i] that unfolding DEFAULT_SAMPLE_COUNT_def COL_HEIGHT_SECONDARY_def .
  moreover have "shard_index (op_shards (in_origin_opening inp) ! k) = sampled_column sha256 inp k \<and>
      shard_index (op_shards (in_cipher_opening inp) ! k) = sampled_column sha256 inp k" if "k < 15" for k
    using accepted_columns(1,2) [OF assms, of k] that by (simp add: DEFAULT_SAMPLE_COUNT_def)
  moreover obtain "out = in_c_origin inp @ blake3 (in_key inp) @ in_c_cipher inp"
      "verify_walrus_blob_opening H (in_origin_opening inp) = Inr ()"
      "verify_walrus_blob_opening H (in_cipher_opening inp) = Inr ()"
      "op_blob_id (in_origin_opening inp) = in_c_origin inp" "op_blob_id (in_cipher_opening inp) = in_c_cipher inp"
      "op_unencoded_length (in_origin_opening inp) = op_unencoded_length (in_cipher_opening inp)"
      "1048576 \<le> op_unencoded_length (in_origin_opening inp)"
    by (rule accepted_run [OF assms]) (simp add: MIN_VDD_BLOB_BYTES_def)
  ultimately show ?thesis by blast
qed

theorem rslhve_accepted_statement_witness:
  "\<exists>inp out. walrus_rslhve_main (\<lambda>x. replicate 32 7) (\<lambda>x. replicate 32 0) demo_hash (\<lambda>k n p. 0) inp = Inr out \<and>
     column_sum (sample_residue (\<lambda>x. replicate 32 0) (\<lambda>k n p. 0) inp 14 0) [0..<667] = 0"
proof -
  let ?sha = "\<lambda>x :: bytes. replicate 32 (0 :: byte)"
  obtain op where op: "verify_walrus_blob_opening demo_hash op = Inr ()" "length (op_blob_id op) = 32"
    "honest_opening (replicate MIN_VDD_BLOB_BYTES 0) (\<lambda>k. 0) op"
    by (rule zero_opening)
  let ?idx = "sample_index ?sha (?sha (op_blob_id op @ op_blob_id op @ replicate 32 7)) 1000"
  have h: "honest_opening (replicate MIN_VDD_BLOB_BYTES 0) (\<lambda>k. ?idx k mod ROW_WIDTH_PRIMARY) op"
    unfolding zero_run(2) by (rule op(3))
  obtain inp out where run: "walrus_rslhve_main (\<lambda>x. replicate 32 7) ?sha demo_hash (\<lambda>k n p. 0) inp = Inr out"
    using honest_run_accepted [of _ _ "replicate 32 1" _ "[]" _ _ _ _ _ "\<lambda>x. replicate 32 7",
      OF zero_run(1) zero_run(3) op(2) op(2) op(1) op(1) refl h h] by blast
  have "0 < walrus_symbol_size n" for n
    by (auto simp: walrus_symbol_size_def Let_def div_ceil_def ROW_WIDTH_PRIMARY_def COL_HEIGHT_SECONDARY_def)
  with rslhve_accepted_statement [OF run] have
    "column_sum (sample_residue ?sha (\<lambda>k n p. 0) inp 14 0) [0..<667] = 0"
    by (simp del: upt_rec_numeral)
  with run show ?thesis by blast
qed

text \<open>Changing two rows whose weights agree leaves the aggregate of the column as it was.\<close>

lemma column_sum_split:
  assumes "r1 \<in> set rs" and "distinct rs"
  shows "column_sum f rs = gf256_mul_walrus (f r1) (honest_beta r1) XOR column_sum f (remove1 r1 rs)"
  using assms
proof (induction rs)
  case (Cons r rs)
  show ?case
  proof (cases "r = r1")
    case False
    then show ?thesis using Cons by (simp add: xor.left_commute)
  qed simp
qed simp

lemma column_sum_paired:
  assumes "distinct rs" and "r1 \<in> set rs" "r2 \<in> set rs" "r1 \<noteq> r2" and "honest_beta r1 = honest_beta r2"
    and "\<And>r. r \<in> set rs \<Longrightarrow> r \<noteq> r1 \<Longrightarrow> r \<noteq> r2 \<Longrightarrow> g r = f r"
    and "g r1 = f r1 XOR d" "g r2 = f r2 XOR d"
  shows "column_sum g rs = column_sum f rs"
proof -
  let ?rest = "remove1 r2 (remove1 r1 rs)"
  have split: "column_sum h rs = gf256_mul_walrus (h r1) (honest_beta r1) XOR
      gf256_mul_walrus (h r2) (honest_beta r1) XOR column_sum h ?rest" for h
    using column_sum_split [of r1 rs h] column_sum_split [of r2 "remove1 r1 rs" h] assms(1-5)
    by (simp add: xor.assoc)
  have "column_sum g ?rest = column_sum f ?rest"
    by (rule column_sum_cong) (use assms in auto)
  moreover have "((a :: byte) XOR d') XOR (b XOR d') XOR c = a XOR b XOR c" for a b c d'
    by (rule bit_eqI) (auto simp: bit_simps)
  ultimately show ?thesis unfolding split [of g] split [of f] assms(7,8) gf256_mul_xor_left by simp
qed

text \<open>
  C35: The column check does not notice paired changes. Take an opened ciphertext column that
  passes against a proof, two rows 255 apart that lie inside the data, and any mask: XOR-ing the
  mask into both symbols gives a column that passes against the same proof. The weights have
  period 255 and a column has 667 rows, so corrupting a column in this way is invisible to the
  homomorphic check even when the column is sampled.
\<close>

theorem paired_tampering_undetected:
  assumes "cipher_column ks key nonce dl s (pf, sh) = Inr ()"
    and "r + 255 < 667" and "row_off s (col_index pf) (r + 255) + s \<le> dl" and "length delta = s"
  shows "cipher_column ks key nonce dl s (pf, sh\<lparr> column_symbols := (column_symbols sh)
      [r := xor_bytes (column_symbols sh ! r) delta,
       r + 255 := xor_bytes (column_symbols sh ! (r + 255)) delta] \<rparr>) = Inr ()"
proof -
  let ?c = "col_index pf" let ?S = "column_symbols sh" let ?rs = "[0..<COL_HEIGHT_SECONDARY]"
  let ?T = "?S[r := xor_bytes (?S ! r) delta, r + 255 := xor_bytes (?S ! (r + 255)) delta]"
  note ok = assms(1) [unfolded cipher_column_iff]
  have h: "COL_HEIGHT_SECONDARY = 667" by (simp add: COL_HEIGHT_SECONDARY_def)
  have le: "row_off s ?c r + s \<le> dl"
  proof -
    have "row_off s ?c r \<le> row_off s ?c (r + 255)" by (simp add: row_off_def)
    then show ?thesis using assms(3) by linarith
  qed
  have lens: "length (?S ! r) = s \<and> length (?S ! (r + 255)) = s" if "0 < s"
    using ok assms(2,3) le that by (auto simp: h)
  have "cipher_shard pf ! i = column_sum (\<lambda>r. cipher_byte ks key nonce dl s ?c ?T r i) ?rs" if i: "i < s" for i
  proof -
    have "column_sum (\<lambda>r. cipher_byte ks key nonce dl s ?c ?T r i) ?rs =
        column_sum (\<lambda>r. cipher_byte ks key nonce dl s ?c ?S r i) ?rs"
    proof (rule column_sum_paired [of _ r "r + 255" _ _ "delta ! i"])
      show "honest_beta r = honest_beta (r + 255)" by (simp only: honest_beta_period)
    qed (use ok assms le lens i h in \<open>auto simp: cipher_byte_def nth_list_update\<close>)
    then show ?thesis using ok i by simp
  qed
  moreover have "length (?T ! q) = s" if "q < 667" "row_off s ?c q < dl" for q
    using that ok lens assms(2,4) by (cases "s = 0") (auto simp: h nth_list_update xor_bytes_def)
  ultimately show ?thesis using ok by (simp add: cipher_column_iff h del: upt_rec_numeral)
qed

theorem paired_tampering_undetected_witness:
  "\<exists>pf sh. cipher_column (\<lambda>k n p. 0) [] [] 1048576 6 (pf, sh) = Inr () \<and>
     cipher_column (\<lambda>k n p. 0) [] [] 1048576 6 (pf, sh\<lparr> column_symbols := (column_symbols sh)
      [0 := xor_bytes (column_symbols sh ! 0) [1, 2, 3, 4, 5, 6],
       0 + 255 := xor_bytes (column_symbols sh ! (0 + 255)) [1, 2, 3, 4, 5, 6]] \<rparr>) = Inr ()"
proof -
  let ?pf = "\<lparr> global_index = 0, col_index = 0, parity_offset = 0, origin_shard = replicate 6 0,
    cipher_shard = replicate 6 0, p_type = Col \<rparr>"
  let ?sh = "demo_shard\<lparr> column_symbols := replicate COL_HEIGHT_SECONDARY (replicate 6 0) \<rparr>"
  have z: "column_sum (\<lambda>r. 0) rs = 0" for rs
    unfolding column_sum_def by (rule gf256.weighted_sum_zero) simp
  have "column_sum (\<lambda>r. cipher_byte (\<lambda>k n p. 0) [] [] 1048576 6 0 (replicate COL_HEIGHT_SECONDARY (replicate 6 0)) r i)
      [0..<COL_HEIGHT_SECONDARY] = column_sum (\<lambda>r. 0) [0..<COL_HEIGHT_SECONDARY]" if "i < 6" for i
    by (rule column_sum_cong) (use that in \<open>simp add: cipher_byte_def\<close>)
  then have ok: "cipher_column (\<lambda>k n p. 0) [] [] 1048576 6 (?pf, ?sh) = Inr ()"
    unfolding cipher_column_iff by (simp add: z demo_shard_def ROW_WIDTH_PRIMARY_def)
  have "row_off 6 (col_index ?pf) (0 + 255) + 6 \<le> 1048576" by (simp add: row_off_def)
  from paired_tampering_undetected [OF ok _ this, of "[1, 2, 3, 4, 5, 6]"] ok show ?thesis
    by (intro exI [of _ ?pf] exI [of _ ?sh] conjI) simp_all
qed

text \<open>
  C10: The Filecoin guest commits exactly the true statements: it returns a value if and only if
  the origin has less than 4 GiB, its BLAKE3 hash is the public commitment, the key has 32 bytes
  and hashes to the public key commitment, and the public cipher commitment is the CID of the
  sealed origin; the value is then the three commitments and the big-endian length, and unsealing
  the committed ciphertext with the committed key gives the origin back.
\<close>

theorem filecoin_main_iff:
  assumes "length p1 = 8" and "length p2 = 8" and "length p3 = 8" and "length p4 = 8"
  shows "filecoin_main blake3 sha256 ks L \<lparr> c_origin_raw = c_origin, c_key_raw = p1 @ c_key,
      c_cipher_raw = p2 @ c_cipher, origin_raw = p3 @ origin, key_raw = p4 @ key \<rparr> = Inr out \<longleftrightarrow>
    (\<exists>cipher. chacha8_seal sha256 ks origin key c_origin = Inr cipher \<and>
       chacha8_unseal sha256 ks cipher key c_origin = Inr origin \<and>
       length origin < 2 ^ 32 \<and> c_origin = blake3 origin \<and> c_key = blake3 key \<and> length key = 32 \<and>
       compute_ipfs_cid_zk_optimized L sha256 cipher = Inr c_cipher \<and>
       out = c_origin @ c_key @ c_cipher @ to_be_bytes 4 (length origin))"
proof -
  obtain cipher where c: "chacha8_seal sha256 ks origin key c_origin = Inr cipher"
    and ip: "chacha8_seal_in_place sha256 ks origin key c_origin = (Inr (), cipher)"
    by (simp add: chacha8_defs)
  have u: "chacha8_unseal sha256 ks cipher key c_origin = Inr origin"
    using c chacha8_sealed.crypt_again [of sha256 ks "(key, c_origin)" origin cipher] by (simp add: chacha8_unseal_is_seal)
  show ?thesis using assms
    by (auto simp: filecoin_main_def skip8_def Let_def c u ip and_then_Inr_iff ensure_def map_err_Inr_iff
        ok_or_def try_from_u_def split: if_splits)
qed

theorem filecoin_main_iff_witness:
  "\<exists>c_cipher. filecoin_main (\<lambda>x. replicate 32 7) (\<lambda>x. replicate 32 3) (\<lambda>k n p. 0)
     \<lparr> multihash_from_bytes = Some, new_v1 = (\<lambda>k mh. of_nat k # mh), cid_to_bytes = (\<lambda>c. 1 # c),
       cid_to_string = (\<lambda>c. map (char_of \<circ> unat) c) \<rparr>
     \<lparr> c_origin_raw = replicate 32 7, c_key_raw = replicate 8 0 @ replicate 32 7,
       c_cipher_raw = replicate 8 0 @ c_cipher, origin_raw = replicate 8 0 @ [9], key_raw = replicate 8 0 @ replicate 32 1 \<rparr>
   = Inr (replicate 32 7 @ replicate 32 7 @ c_cipher @ [0, 0, 0, 1])"
proof -
  let ?L = "\<lparr> multihash_from_bytes = Some, new_v1 = (\<lambda>k (mh :: bytes). of_nat k # mh), cid_to_bytes = (\<lambda>c. 1 # c),
     cid_to_string = (\<lambda>c. map (char_of \<circ> unat) c) \<rparr>"
  let ?sha = "\<lambda>x :: bytes. replicate 32 (3 :: byte)" and ?ks = "\<lambda>(k :: bytes) (n :: bytes) (p :: nat). 0 :: byte"
  obtain c where c: "compute_ipfs_cid_zk_optimized ?L ?sha [9] = Inr c"
    by (simp add: compute_ipfs_cid_zk_optimized_def compute_raw_cid_bytes_def array_multihash_def CHUNK_SIZE_def)
  have enc: "chacha8_seal ?sha ?ks [9] key aux = Inr [9]" "chacha8_unseal ?sha ?ks [9] key aux = Inr [9]" for key aux
    by (simp_all add: chacha8_defs apply_keystream_def)
  have be: "to_be_bytes 4 (length [9 :: byte]) = [0, 0, 0, 1]" by code_simp
  have p: "length (replicate 8 (0 :: byte)) = 8" by simp
  show ?thesis
    by (rule exI [of _ c], subst filecoin_main_iff [OF p p p p], rule exI [of _ "[9]"])
      (use c enc be in simp)
qed

end
