(* ===== verification/Vdd_Host.thy ===== *)
theory Vdd_Host
  imports Vdd_Guest Blob_Props
begin

unbundle bit_operations_syntax

text \<open>
  The seller's side of verifiable data disclosure: blob identifiers of whole blobs
  (\<^verbatim>\<open>drop-lib/src/walrus_address.rs\<close>), the openings built from the encoder
  (\<^verbatim>\<open>build_column_blob_opening\<close> of \<^verbatim>\<open>walrus_open.rs\<close>), the input that \<^verbatim>\<open>generate_vdd_proof\<close> of
  \<^verbatim>\<open>drop-script\<close> writes for the column-sampling guest, and the guest \<^verbatim>\<open>program-vdd-walrus\<close>, which
  seals and encodes the whole file.

  Here the encoder and the guests meet: the theorems compose the correctness of blob encoding with
  the completeness and the soundness of the guest.
\<close>

section \<open>Blob identifiers\<close>

definition compute_blob_id ::
  "(bytes \<Rightarrow> bytes) \<Rightarrow> rs_lib \<Rightarrow> bytes \<Rightarrow> nat \<Rightarrow> (bytes, encoding_error) result" where
  "compute_blob_id H L data n_shards =
     and_then (ensure (n_shards \<noteq> 0) Panic) (\<lambda>_.
     and_then (encoding_config_new n_shards) (\<lambda>config.
     and_then (get_for_type config RS2) (\<lambda>c.
     and_then (config_compute_metadata H L c data) (\<lambda>md. Inr (blob_id md)))))"

definition compute_blob_id_default :: "(bytes \<Rightarrow> bytes) \<Rightarrow> rs_lib \<Rightarrow> bytes \<Rightarrow> (bytes, encoding_error) result" where
  "compute_blob_id_default H L data = compute_blob_id H L data 1000"

section \<open>Openings of the sampled columns\<close>

definition sliver_symbol :: "sliver_data \<Rightarrow> nat \<Rightarrow> (symbol_request, string) result" where
  "sliver_symbol sl r =
     and_then (map_err (\<lambda>_. ''panic'') (symbols_at (sl_symbols sl) r)) (\<lambda>b.
     Inr \<lparr> rq_leaf_index = r, rq_symbol = b \<rparr>)"

definition column_sample :: "sliver_pair list \<Rightarrow> nat \<Rightarrow> (sample_request, string) result" where
  "column_sample slivers c =
     and_then (ensure (c < length slivers) ''panic'') (\<lambda>_.
     let p = slivers ! c in
     and_then (try_map (sliver_symbol (pair_primary p)) [0..<COL_HEIGHT_SECONDARY]) (\<lambda>column.
     and_then (sliver_symbol (pair_primary p) 0) (\<lambda>p0.
     and_then (sliver_symbol (pair_secondary p) 0) (\<lambda>s0.
     Inr \<lparr> sr_shard_index = c, sr_primary_symbols = [p0], sr_secondary_symbols = [s0],
           sr_column_symbols = column \<rparr>))))"

definition build_column_blob_opening ::
  "(bytes \<Rightarrow> bytes) \<Rightarrow> rs_lib \<Rightarrow> (bytes \<Rightarrow> bytes) \<Rightarrow> bytes \<Rightarrow> bytes \<Rightarrow> nat \<Rightarrow> (blob_opening, string) result" where
  "build_column_blob_opening H L sha256 blob seed pack_size =
     and_then (map_err (\<lambda>_. ''panic'') (and_then (encoding_config_new 1000) (\<lambda>config. get_for_type config RS2))) (\<lambda>c.
     and_then (map_err (\<lambda>e. if e = Panic then ''panic'' else ''walrus_open: blob metadata computation failed'')
       (config_compute_metadata_with_symbol_hashes H L c blob)) (\<lambda>(md, symbol_hashes).
     and_then (map_err (\<lambda>e. if e = Panic then ''panic'' else ''walrus_open: blob encoding failed'')
       (config_encode_with_metadata H L c blob)) (\<lambda>(slivers, encoded).
     and_then (ensure (blob_id md = blob_id encoded) ''walrus_open: metadata/blob id divergence'') (\<lambda>_.
     and_then (ensure (pack_size = walrus_symbol_size (length blob)) ''walrus_open: pack size mismatch'') (\<lambda>_.
     and_then (ensure (pack_size < 65535) ''walrus_open: pack size out of walrus range'') (\<lambda>_.
     and_then (try_map (\<lambda>i. column_sample slivers (sample_index sha256 seed 1000 i mod ROW_WIDTH_PRIMARY))
       [0..<DEFAULT_SAMPLE_COUNT]) (\<lambda>samples.
     build_walrus_blob_opening H symbol_hashes (md_encoding_type (metadata md)) (unencoded_length (metadata md))
       samples)))))))"

definition build_origin_blob_opening ::
  "(bytes \<Rightarrow> bytes) \<Rightarrow> rs_lib \<Rightarrow> (bytes \<Rightarrow> bytes) \<Rightarrow> bytes \<Rightarrow> bytes \<Rightarrow> nat \<Rightarrow> (blob_opening, string) result" where
  "build_origin_blob_opening H L sha256 origin seed pack_size = build_column_blob_opening H L sha256 origin seed pack_size"

definition build_cipher_blob_opening ::
  "(bytes \<Rightarrow> bytes) \<Rightarrow> rs_lib \<Rightarrow> (bytes \<Rightarrow> bytes) \<Rightarrow> bytes \<Rightarrow> bytes \<Rightarrow> nat \<Rightarrow> (blob_opening, string) result" where
  "build_cipher_blob_opening H L sha256 cipher seed pack_size = build_column_blob_opening H L sha256 cipher seed pack_size"

section \<open>The input of the column-sampling guest\<close>

definition compute_rs_id :: "(bytes \<Rightarrow> bytes) \<Rightarrow> rs_lib \<Rightarrow> bytes \<Rightarrow> (bytes, string) result" where
  "compute_rs_id H L data =
     and_then (map_err (\<lambda>e. if e = Panic then ''panic'' else ''data too large'') (compute_blob_id_default H L data)) (\<lambda>bid.
     and_then (ensure (length bid = 32) ''ID Length Error'') (\<lambda>_. Inr bid))"

definition asset_key_commitment :: "(bytes \<Rightarrow> bytes) \<Rightarrow> bytes \<Rightarrow> bytes" where
  "asset_key_commitment blake3 key = blake3 key"

text \<open>The constant \<open>b"trustdrop_asset_v1"\<close>.\<close>

definition asset_aux_data :: bytes where
  "asset_aux_data = map (of_nat \<circ> of_char) ''trustdrop_asset_v1''"

text \<open>
  \<^verbatim>\<open>generate_vdd_proof\<close> up to the call of the prover: the checks on the seller's data and the record
  of what is written to the guest's input, in the order of the guest's reads.
\<close>

definition vdd_guest_input ::
  "(bytes \<Rightarrow> bytes) \<Rightarrow> (bytes \<Rightarrow> bytes) \<Rightarrow> (bytes \<Rightarrow> bytes) \<Rightarrow> rs_lib \<Rightarrow> keystream \<Rightarrow> bytes \<Rightarrow> bytes \<Rightarrow> bytes \<Rightarrow> bytes \<Rightarrow>
   (rslhve_input, string) result" where
  "vdd_guest_input blake3 sha256 H L ks origin key original_asset_id encrypted_blob_id =
     and_then (ensure (length origin \<ge> MIN_VDD_BLOB_BYTES) ''VDD requires an asset of at least 1 MiB'') (\<lambda>_.
     let aux_data = asset_aux_data; nonce = derive_rslh_nonce sha256 key aux_data;
         symbol_size = walrus_symbol_size (length origin) in
     and_then (map_err (\<lambda>_. ''encryption failed'') (chacha8_encrypt ks origin key nonce 0)) (\<lambda>cipher.
     and_then (compute_rs_id H L cipher) (\<lambda>rs_id.
     and_then (ensure (rs_id = encrypted_blob_id)
       ''locally reconstructed ciphertext does not match listing encrypted_blob_id'') (\<lambda>_.
     let c_key = asset_key_commitment blake3 key; seed = sha256 (original_asset_id @ encrypted_blob_id @ c_key) in
     and_then (map_err (\<lambda>e. ''origin blob opening construction failed: '' @ e)
       (build_origin_blob_opening H L sha256 origin seed symbol_size)) (\<lambda>oo.
     and_then (ensure (op_blob_id oo = original_asset_id) ''origin opening blob id must match c_origin'') (\<lambda>_.
     and_then (map_err (\<lambda>e. ''cipher blob opening construction failed: '' @ e)
       (build_cipher_blob_opening H L sha256 cipher seed symbol_size)) (\<lambda>co.
     and_then (ensure (op_blob_id co = encrypted_blob_id) ''opening blob id must match c_cipher'') (\<lambda>_.
     and_then (map_err (\<lambda>_. ''panic'') (try_map (\<lambda>i.
         and_then (create_honest_proof ks key nonce (sample_index sha256 seed 1000 i) symbol_size origin cipher) (\<lambda>pf.
         Inr (global_index pf, origin_shard pf, cipher_shard pf))) [0..<DEFAULT_SAMPLE_COUNT])) (\<lambda>samples.
     Inr \<lparr> in_c_origin = original_asset_id, in_c_cipher = encrypted_blob_id, in_c_key = c_key,
           in_aux_data = aux_data, in_key = key, in_samples = samples,
           in_origin_opening = oo, in_cipher_opening = co \<rparr>)))))))))"

definition validate_vdd_public_values :: "bytes \<Rightarrow> bytes \<Rightarrow> bytes \<Rightarrow> bytes \<Rightarrow> (unit, string) result" where
  "validate_vdd_public_values public_values c_origin c_key c_cipher =
     and_then (ensure (length public_values = 96) ''VDD public values length mismatch'') (\<lambda>_.
     and_then (ensure (take 32 public_values = c_origin) ''VDD public c_origin mismatch'') (\<lambda>_.
     and_then (ensure (take 32 (drop 32 public_values) = c_key) ''VDD public c_key mismatch'') (\<lambda>_.
     ensure (take 32 (drop 64 public_values) = c_cipher) ''VDD public c_cipher mismatch'')))"

section \<open>The guest that encodes the whole file\<close>

definition walrus_main ::
  "(bytes \<Rightarrow> bytes) \<Rightarrow> (bytes \<Rightarrow> bytes) \<Rightarrow> (bytes \<Rightarrow> bytes) \<Rightarrow> rs_lib \<Rightarrow> keystream \<Rightarrow> filecoin_input \<Rightarrow> (bytes, string) result" where
  "walrus_main blake3 sha256 H L ks inp =
     (let c_origin = c_origin_raw inp in
      and_then (skip8 (c_key_raw inp)) (\<lambda>c_key.
      and_then (skip8 (c_cipher_raw inp)) (\<lambda>c_cipher.
      and_then (skip8 (origin_raw inp)) (\<lambda>origin.
      and_then (skip8 (key_raw inp)) (\<lambda>key.
      and_then (ok_or ''panic'' (try_from_u 32 (length origin))) (\<lambda>data_size.
      and_then (ensure (c_origin = blake3 origin) ''origin data commitment mismatch'') (\<lambda>_.
      and_then (ensure (c_key = blake3 key) ''key commitment mismatch'') (\<lambda>_.
      and_then (ensure (length key = 32) ''key must be 32 bytes'') (\<lambda>_.
      and_then (map_err (\<lambda>_. ''data encryption failed'') (chacha8_seal sha256 ks origin key c_origin)) (\<lambda>cipher.
      and_then (map_err (\<lambda>_. ''Should compute blob ID for cipher data'') (compute_blob_id_default H L cipher)) (\<lambda>cipher_blob_id.
      and_then (ensure (c_cipher = cipher_blob_id) ''cipher commitment mismatch'') (\<lambda>_.
      Inr (c_origin @ c_key @ c_cipher @ to_be_bytes 4 data_size)))))))))))))"

section \<open>Openings built from the encoder\<close>

text \<open>The configuration of the network: 1000 shards.\<close>

definition walrus_1000 :: rs_config where
  "walrus_1000 = \<lparr> source_symbols_primary = ROW_WIDTH_PRIMARY, source_symbols_secondary = COL_HEIGHT_SECONDARY,
     rs_n_shards = 1000 \<rparr>"

lemma config_1000:
  "rs_config_new 1000 = Inr walrus_1000"
  "encoding_config_new 1000 = Inr \<lparr> cfg_n_shards = 1000, reed_solomon = walrus_1000 \<rparr>"
  by (simp_all add: config_eval encoding_config_new_def walrus_1000_def ROW_WIDTH_PRIMARY_def COL_HEIGHT_SECONDARY_def)

lemma walrus_1000_simps [simp]:
  "rs_n_shards walrus_1000 = 1000" "source_symbols_primary walrus_1000 = ROW_WIDTH_PRIMARY"
  "source_symbols_secondary walrus_1000 = COL_HEIGHT_SECONDARY"
  by (simp_all add: walrus_1000_def)

lemma compute_blob_id_default_eq:
  assumes "rs_enc_ready L walrus_1000"
  shows "compute_blob_id_default H L data =
    and_then (blob_encoder_new walrus_1000 data) (\<lambda>be. Inr (blob_id (expanded_metadata H L be)))"
proof (cases "blob_encoder_new walrus_1000 data")
  case (Inr be)
  then show ?thesis using compute_metadata_ok [OF blob_encoder_new_ok(1) [OF assms Inr]]
    by (simp add: compute_blob_id_default_def compute_blob_id_def ensure_def config_1000 config_compute_metadata_def
        be_compute_metadata_def)
qed (simp add: compute_blob_id_default_def compute_blob_id_def ensure_def config_1000 config_compute_metadata_def)

text \<open>An encoder of the 1000-shard configuration.\<close>

definition be_1000 :: "rs_lib \<Rightarrow> bytes \<Rightarrow> blob_encoder \<Rightarrow> bool" where
  "be_1000 L data be \<longleftrightarrow> be_ok L be \<and> be_config be = walrus_1000 \<and> be_blob be = data \<and>
     be_n_rows be = ROW_WIDTH_PRIMARY \<and> be_n_columns be = COL_HEIGHT_SECONDARY \<and>
     be_symbol_size be = walrus_symbol_size (length data) \<and> walrus_symbol_size (length data) < 65535"

lemma be_1000_new:
  assumes "rs_enc_ready L walrus_1000" and "blob_encoder_new walrus_1000 data = Inr be"
  shows "be_1000 L data be"
proof -
  note be = blob_encoder_new_ok [OF assms]
  have "walrus_symbol_size (length data) = be_symbol_size be"
    by (rule symbol_size_1000 [OF config_1000(1) be(4)])
  moreover have "be_symbol_size be < 65536 \<and> even (be_symbol_size be)"
    using be_okD(7) [OF be(1)] by (simp add: rs_encodable_def)
  then have "be_symbol_size be < 65535" by presburger
  ultimately show ?thesis using be be_okD(9,10) [OF be(1)] by (simp add: be_1000_def)
qed

lemma msg_padded_symbol:
  assumes "be_1000 L data be" and "c < ROW_WIDTH_PRIMARY" and "r < COL_HEIGHT_SECONDARY"
  shows "msg be c r = padded_symbol data (walrus_symbol_size (length data)) c r"
proof -
  let ?s = "be_symbol_size be" let ?a = "(be_n_columns be * c + r) * ?s"
  have ok: "be_ok L be" and b: "be_blob be = data" "be_n_rows be = ROW_WIDTH_PRIMARY" "be_n_columns be = COL_HEIGHT_SECONDARY"
    "?s = walrus_symbol_size (length data)"
    using assms(1) by (simp_all add: be_1000_def)
  have a: "?a = row_off ?s c r" by (simp add: row_off_def b mult.commute)
  have bound: "?a + ?s \<le> length (padded be)"
    using cell_bound [of c "be_n_rows be" r "be_n_columns be" ?s] assms(2,3) length_padded [OF ok]
    by (simp add: b algebra_simps)
  show ?thesis
  proof (rule nth_equalityI)
    show "length (msg be c r) = length (padded_symbol data (walrus_symbol_size (length data)) c r)"
      using length_msg [OF ok, of c r] assms(2,3) by (simp add: b)
    fix i assume "i < length (msg be c r)"
    then have i: "i < ?s" using length_msg [OF ok, of c r] assms(2,3) by (simp add: b)
    have "msg be c r ! i = padded be ! (?a + i)" using i bound by (simp add: msg_def)
    also have "\<dots> = (if ?a + i < length data then data ! (?a + i) else 0)"
      using i bound by (auto simp: padded_def b(1) nth_append)
    also have "\<dots> = padded_symbol data ?s c r ! i" unfolding a using i by (simp add: nth_padded_symbol)
    finally show "msg be c r ! i = padded_symbol data (walrus_symbol_size (length data)) c r ! i" unfolding b(4) .
  qed
qed

text \<open>The request for column \<open>c\<close> and the hashes it is checked against.\<close>

definition column_request :: "rs_lib \<Rightarrow> blob_encoder \<Rightarrow> nat \<Rightarrow> sample_request" where
  "column_request L be c = \<lparr> sr_shard_index = c,
     sr_primary_symbols = [\<lparr> rq_leaf_index = 0, rq_symbol = cell L be c 0 \<rparr>],
     sr_secondary_symbols = [\<lparr> rq_leaf_index = 0, rq_symbol = cell L be 0 (999 - c) \<rparr>],
     sr_column_symbols = map (\<lambda>r. \<lparr> rq_leaf_index = r, rq_symbol = cell L be c r \<rparr>) [0..<COL_HEIGHT_SECONDARY] \<rparr>"

abbreviation all_hashes :: "(bytes \<Rightarrow> bytes) \<Rightarrow> rs_lib \<Rightarrow> blob_encoder \<Rightarrow> node list" where
  "all_hashes H L be \<equiv> hash_table H L be (n_of be) 0"

lemma all_hashes_nth:
  assumes "r < n_of be" and "c < n_of be"
  shows "all_hashes H L be ! (r * n_of be + c) = leaf_hash H (cell L be r c)"
proof -
  have "r * n_of be + c < n_of be * n_of be" by (rule grid_bound [OF assms])
  then show ?thesis using assms by (simp add: hash_table_def)
qed

lemma be_1000D:
  assumes "be_1000 L data be"
  shows "be_ok L be" "n_of be = 1000" "be_n_rows be = ROW_WIDTH_PRIMARY" "be_n_columns be = COL_HEIGHT_SECONDARY"
    "be_blob be = data" "be_symbol_size be = walrus_symbol_size (length data)" "walrus_symbol_size (length data) < 65535"
  using assms by (simp_all add: be_1000_def)

lemma column_sample_encoded:
  assumes be: "be_1000 L data be" and c: "c < ROW_WIDTH_PRIMARY"
  shows "column_sample (encoded_pairs L be) c = Inr (column_request L be c)"
proof -
  note b = be_1000D [OF be]
  have c': "c < 1000" using c by (simp add: ROW_WIDTH_PRIMARY_def)
  have pair: "encoded_pairs L be ! c = \<lparr> pair_primary = primary_sliver L be c, pair_secondary = secondary_sliver L be (999 - c) \<rparr>"
    using c' by (simp add: encoded_pairs_def b(2) nth_map_upt0 del: upt_rec_numeral)
  have sz: "sized (be_symbol_size be) (map (cell L be c) [0..<COL_HEIGHT_SECONDARY])"
    "sized (be_symbol_size be) (map (\<lambda>r. cell L be r (999 - c)) [0..<ROW_WIDTH_PRIMARY])"
    using c' b(2) by (auto simp: sized_map b(1) COL_HEIGHT_SECONDARY_def ROW_WIDTH_PRIMARY_def simp del: upt_rec_numeral)
  have p: "sliver_symbol (primary_sliver L be c) r = Inr \<lparr> rq_leaf_index = r, rq_symbol = cell L be c r \<rparr>"
    if "r < COL_HEIGHT_SECONDARY" for r
    using symbols_at_mk [OF sz(1)] that be_okD(3) [OF b(1)] be_usize(2) [OF b(1)] by (simp add: b(4) sliver_symbol_def primary_sliver_def b(4))
  have s0: "sliver_symbol (secondary_sliver L be (999 - c)) 0 = Inr \<lparr> rq_leaf_index = 0, rq_symbol = cell L be 0 (999 - c) \<rparr>"
    using symbols_at_mk [OF sz(2), of 0] be_okD(3) [OF b(1)] be_usize(1) [OF b(1)] by (simp add: sliver_symbol_def secondary_sliver_def b(3) ROW_WIDTH_PRIMARY_def del: upt_rec_numeral)
  have "try_map (sliver_symbol (primary_sliver L be c)) [0..<COL_HEIGHT_SECONDARY] =
      Inr (map (\<lambda>r. \<lparr> rq_leaf_index = r, rq_symbol = cell L be c r \<rparr>) [0..<COL_HEIGHT_SECONDARY])"
    by (rule try_map_total) (use p in simp)
  moreover have "length (encoded_pairs L be) = 1000" by (simp add: encoded_pairs_def b(2))
  ultimately show ?thesis using p [of 0] s0 c'
    by (simp add: column_sample_def ensure_def pair column_request_def COL_HEIGHT_SECONDARY_def del: upt_rec_numeral)
qed

lemma column_request_ok:
  assumes be: "be_1000 L data be" and c: "c < ROW_WIDTH_PRIMARY"
  shows "valid_sample 1000 (column_request L be c) \<and> honest_sample H (all_hashes H L be) 1000 (column_request L be c)"
proof -
  note b = be_1000D [OF be]
  have c': "c < 1000" using c by (simp add: ROW_WIDTH_PRIMARY_def)
  have "valid_sample 1000 (column_request L be c)"
    using c' by (simp add: valid_sample_def column_request_def check_sample_def ensure_def comp_def)
  moreover have "leaf_hash H (cell L be c r) = all_hashes H L be ! (c * 1000 + r)" if "r < 1000" for r
    using all_hashes_nth [of c be r H L] that c' b(2) by simp
  moreover have "leaf_hash H (cell L be 0 (999 - c)) = all_hashes H L be ! (999 - c)"
    using all_hashes_nth [of 0 be "999 - c" H L] b(2) by simp
  ultimately show ?thesis by (simp add: honest_sample_def column_request_def Let_def)
qed

lemma roots_encoded:
  assumes be: "be_1000 L data be"
  shows "i < 1000 \<Longrightarrow> matrix_row (all_hashes H L be) 1000 i = map (leaf_hash H \<circ> cell L be i) [0..<1000]"
    and "map pair_leaf_input (roots_metadata (map (shard_roots H (all_hashes H L be) 1000) [0..<1000])) =
      map pair_leaf_input (expanded_hashes H L be)"
proof -
  note b = be_1000D [OF be]
  show row: "matrix_row (all_hashes H L be) 1000 i = map (leaf_hash H \<circ> cell L be i) [0..<1000]" if "i < 1000" for i
  proof (rule nth_equalityI)
    have l: "length (all_hashes H L be) = 1000 * 1000" by (simp add: hash_table_def b(2))
    show "length (matrix_row (all_hashes H L be) 1000 i) = length (map (leaf_hash H \<circ> cell L be i) [0..<1000])"
      using that by (simp add: matrix_row_def l)
    fix j assume "j < length (matrix_row (all_hashes H L be) 1000 i)"
    then have j: "j < 1000" by (simp add: matrix_row_def)
    then show "matrix_row (all_hashes H L be) 1000 i ! j = map (leaf_hash H \<circ> cell L be i) [0..<1000] ! j"
      using all_hashes_nth [of i be j H L] that l b(2) by (simp add: matrix_row_def nth_map_upt0 del: upt_rec_numeral)
  qed
  have col: "matrix_col_rev (all_hashes H L be) 1000 i = map (leaf_hash H \<circ> (\<lambda>r. cell L be r (999 - i))) [0..<1000]" if "i < 1000" for i
    unfolding matrix_col_rev_def
  proof (rule map_cong [OF refl])
    fix r assume "r \<in> set [0..<1000 :: nat]"
    then have "r < 1000" by simp
    moreover have "r * 1000 + 1000 - 1 - i = r * 1000 + (999 - i)" using that by simp
    ultimately show "all_hashes H L be ! (r * 1000 + 1000 - 1 - i) = (leaf_hash H \<circ> (\<lambda>r. cell L be r (999 - i))) r"
      using all_hashes_nth [of r be "999 - i" H L] b(2) by simp
  qed
  show "map pair_leaf_input (roots_metadata (map (shard_roots H (all_hashes H L be) 1000) [0..<1000])) =
      map pair_leaf_input (expanded_hashes H L be)"
    unfolding roots_metadata_def expanded_hashes_def map_map b(2)
    by (rule map_cong [OF refl]) (simp add: shard_roots_def row [unfolded b(2)] col [unfolded b(2)] pair_leaf_input_def build_def del: upt_rec_numeral)
qed

lemma opening_id_encoded:
  assumes be: "be_1000 L data be"
  shows "compute_blob_id_from_sliver_pair_roots H (map (shard_roots H (all_hashes H L be) 1000) [0..<1000]) RS2 (length data) =
    blob_id (expanded_metadata H L be)"
  using roots_encoded(2) [OF be, of H] be_1000D(5) [OF be]
  by (simp add: compute_blob_id_from_sliver_pair_roots_def expanded_metadata_def new_verified_from_metadata_def Let_def
      from_sliver_pair_metadata_def compute_root_hash_def del: upt_rec_numeral)

text \<open>
  The host's opening of an encoded blob: it is built, it carries the blob identifier, the guest
  accepts it, and it opens the sampled columns of the data.
\<close>

lemma column_opening_built:
  assumes ready: "rs_enc_ready L walrus_1000" and new: "blob_encoder_new walrus_1000 data = Inr be"
  obtains op where "build_column_blob_opening H L sha256 data seed (walrus_symbol_size (length data)) = Inr op"
    and "op_blob_id op = blob_id (expanded_metadata H L be)" and "verify_walrus_blob_opening H op = Inr ()"
    and "honest_opening data (\<lambda>k. sample_index sha256 seed 1000 k mod ROW_WIDTH_PRIMARY) op"
    and "\<exists>samples. build_walrus_blob_opening H (all_hashes H L be) RS2 (length data) samples = Inr op"
proof -
  have be: "be_1000 L data be" by (rule be_1000_new [OF assms])
  note b = be_1000D [OF be]
  let ?col = "\<lambda>k. sample_index sha256 seed 1000 k mod ROW_WIDTH_PRIMARY"
  let ?hs = "all_hashes H L be" let ?S = "map (\<lambda>k. column_request L be (?col k)) [0..<DEFAULT_SAMPLE_COUNT]"
  have col: "?col k < ROW_WIDTH_PRIMARY" for k by (simp add: ROW_WIDTH_PRIMARY_def)
  have S: "try_map (\<lambda>k. column_sample (encoded_pairs L be) (?col k)) [0..<DEFAULT_SAMPLE_COUNT] = Inr ?S"
    by (rule try_map_total) (use column_sample_encoded [OF be col] in simp)
  have n: "1000 * 1000 = length ?hs" "0 < (1000 :: nat)" "1000 < (2 :: nat) ^ 32"
    by (simp_all add: hash_table_def b(2))
  have d: "\<forall>h \<in> set ?hs. \<exists>b. h = Digest b"
    using b(2) by (auto simp: hash_table_def leaf_hash_def)
  have ok: "\<forall>sample \<in> set ?S. valid_sample 1000 sample \<and> honest_sample H ?hs 1000 sample"
    using column_request_ok [OF be col] by auto
  obtain op where op: "build_walrus_blob_opening H ?hs RS2 (length data) ?S = Inr op"
    "op_blob_id op = blob_id (expanded_metadata H L be)" "op_unencoded_length op = length data"
    "verify_walrus_blob_opening H op = Inr ()"
    using build_opening_verifies [OF n d ok, of "length data"] opening_id_encoded [OF be] by metis
  have "build_column_blob_opening H L sha256 data seed (walrus_symbol_size (length data)) = Inr op"
    using new compute_metadata_ok [OF b(1), of H] encode_with_metadata_ok [OF b(1), of H] S op(1) b(5,7)
    by (simp add: build_column_blob_opening_def config_1000 config_compute_metadata_with_symbol_hashes_def
        config_encode_with_metadata_def ensure_def expanded_metadata_def new_verified_from_metadata_def Let_def)
  moreover have "honest_opening data ?col op"
  proof -
    have "isqrt (length ?hs) = 1000" using n(1) isqrt_square [of 1000] by simp
    moreover have "map rq_symbol (sr_column_symbols (column_request L be c)) =
        map (padded_symbol data (walrus_symbol_size (length data)) c) [0..<COL_HEIGHT_SECONDARY]" if "c < ROW_WIDTH_PRIMARY" for c
      using that msg_padded_symbol [OF be that] cell_msg [OF b(1), of c] b(3,4)
      by (simp add: column_request_def comp_def)
    ultimately show ?thesis
      using build_opening_shards [OF op(1)] op(3) col by (simp add: honest_opening_def opens_column_def column_request_def)
  qed
  ultimately show ?thesis using op that by blast
qed

lemma length_expanded_id: "digest32 H \<Longrightarrow> length (blob_id (expanded_metadata H L be)) = 32"
  by (simp add: expanded_metadata_def new_verified_from_metadata_def Let_def from_sliver_pair_metadata_def
      from_metadata_def new_with_hash_function_def digest32_def)

lemma same_size_encoder:
  assumes "blob_encoder_new walrus_1000 data = Inr be" and "length data' = length data"
  obtains be' where "blob_encoder_new walrus_1000 data' = Inr be'"
  using assms by (auto simp: blob_encoder_new_def and_then_Inr_iff)

section \<open>What an opening reveals of the blob\<close>

text \<open>The ranges of the Rust types: a 64-bit length, 32-byte roots and nodes.\<close>

definition opening_typed :: "blob_opening \<Rightarrow> bool" where
  "opening_typed op \<longleftrightarrow> op_unencoded_length op < 2 ^ 64 \<and>
     (\<forall>p \<in> set (op_sliver_pair_roots op). length (spr_primary p) = 32) \<and>
     (\<forall>sh \<in> set (op_shards op). \<forall>x \<in> set (column_leaf_hashes sh). node_ok x)"

text \<open>The inputs that are hashed when the blob is encoded and when the opening is verified.\<close>

definition matrix_line :: "rs_lib \<Rightarrow> blob_encoder \<Rightarrow> nat \<Rightarrow> bytes list" where
  "matrix_line L be c = map (cell L be c) [0..<n_of be]"

definition binding_queries :: "(bytes \<Rightarrow> bytes) \<Rightarrow> rs_lib \<Rightarrow> blob_encoder \<Rightarrow> blob_opening \<Rightarrow> bytes list" where
  "binding_queries H L be op = id_queries H (opening_metadata op) @ id_queries H (metadata (expanded_metadata H L be)) @
     concat (map (\<lambda>sh. column_queries H (matrix_line L be (shard_index sh)) sh) (op_shards op))"

lemma expanded_metadata_simps:
  "blob_id (expanded_metadata H L be) = from_sliver_pair_metadata H (metadata (expanded_metadata H L be))"
  "unencoded_length (metadata (expanded_metadata H L be)) = length (be_blob be)"
  "hashes (metadata (expanded_metadata H L be)) = expanded_hashes H L be"
  "length (expanded_hashes H L be) = n_of be"
  by (simp_all add: expanded_metadata_def new_verified_from_metadata_def Let_def expanded_hashes_def)

lemma collision_free_subset: "collision_free H qs \<Longrightarrow> set ps \<subseteq> set qs \<Longrightarrow> collision_free H ps"
  by (auto simp: collision_free_def intro: inj_on_subset)

lemma accepted_opening_id:
  "verify_walrus_blob_opening H op = Inr () \<Longrightarrow>
     length (op_sliver_pair_roots op) = op_n_shards op \<and> from_sliver_pair_metadata H (opening_metadata op) = op_blob_id op"
  by (auto simp: verify_walrus_blob_opening_def Let_def and_then_Inr_iff ok_or_def encoding_type_try_from_def
      ensure_def opening_metadata_def split: if_splits)

lemma opened_blob:
  assumes H: "digest32 H" and be: "be_1000 L data be" and v: "verify_walrus_blob_opening H op = Inr ()"
    and n: "op_n_shards op = 1000" and t: "opening_typed op" and id: "op_blob_id op = blob_id (expanded_metadata H L be)"
    and cf: "collision_free H (binding_queries H L be op)"
  shows "op_unencoded_length op = length data"
    and "sh \<in> set (op_shards op) \<Longrightarrow> shard_index sh < ROW_WIDTH_PRIMARY \<Longrightarrow> r < COL_HEIGHT_SECONDARY \<Longrightarrow>
      column_symbols sh ! r = padded_symbol data (walrus_symbol_size (length data)) (shard_index sh) r"
proof -
  note b = be_1000D [OF be]
  let ?md = "metadata (expanded_metadata H L be)"
  have lens: "op_unencoded_length op < 2 ^ 64" "unencoded_length ?md < 2 ^ 64"
  proof -
    have "length data \<le> ROW_WIDTH_PRIMARY * COL_HEIGHT_SECONDARY * 65535"
      using be_ok_blob [OF b(1)] b(3-7) by (simp add: order.trans [OF _ mult_le_mono2])
    then show "unencoded_length ?md < 2 ^ 64"
      by (simp add: expanded_metadata_simps b(5) ROW_WIDTH_PRIMARY_def COL_HEIGHT_SECONDARY_def)
  qed (use t in \<open>simp add: opening_typed_def\<close>)
  have hn: "length (hashes ?md) = op_n_shards op" by (simp add: expanded_metadata_simps n b(2))
  note oid = accepted_opening_id [OF v]
  have "collision_free H (id_queries H (opening_metadata op) @ id_queries H ?md)"
    by (rule collision_free_subset [OF cf]) (auto simp: binding_queries_def)
  then have "unencoded_length (opening_metadata op) = unencoded_length ?md"
    using blob_id_inject [OF H, of "opening_metadata op" ?md] oid id lens hn
    by (simp add: opening_metadata_def roots_metadata_def expanded_metadata_simps(1))
  then show "op_unencoded_length op = length data" by (simp add: opening_metadata_def expanded_metadata_simps b(5))
  assume sh: "sh \<in> set (op_shards op)" and c: "shard_index sh < ROW_WIDTH_PRIMARY" and r: "r < COL_HEIGHT_SECONDARY"
  let ?c = "shard_index sh" let ?leaves = "matrix_line L be ?c"
  have c': "?c < 1000" "r < 1000" using c r by (simp_all add: ROW_WIDTH_PRIMARY_def COL_HEIGHT_SECONDARY_def)
  have ll: "length ?leaves = op_n_shards op" "1 < op_n_shards op" by (simp_all add: matrix_line_def b(2) n)
  have real: "primary_hash (hashes ?md ! ?c) = root (build H ?leaves)"
    using c' by (simp add: expanded_metadata_simps expanded_hashes_def matrix_line_def b(2) nth_map_upt0 del: upt_rec_numeral)
  have cf': "collision_free H (id_queries H (opening_metadata op) @ id_queries H ?md @ column_queries H ?leaves sh)"
    by (rule collision_free_subset [OF cf]) (use sh in \<open>auto simp: binding_queries_def\<close>)
  have "column_symbols sh ! r = ?leaves ! r"
    by (rule opening_column_bound [OF H v sh _ hn ll lens _ _ real cf' r])
      (use t sh id c' in \<open>auto simp: opening_typed_def expanded_metadata_simps(1) matrix_line_def b(2)\<close>)
  then show "column_symbols sh ! r = padded_symbol data (walrus_symbol_size (length data)) ?c r"
    using c r c' msg_padded_symbol [OF be c r] cell_msg [OF b(1), of ?c r] b(3,4)
    by (simp add: matrix_line_def b(2) nth_map_upt0 del: upt_rec_numeral)
qed

text \<open>The error of the ciphertext at byte \<open>i\<close> of row \<open>r\<close> of column \<open>c\<close>, in terms of the two blobs.\<close>

definition blob_residue :: "keystream \<Rightarrow> bytes \<Rightarrow> bytes \<Rightarrow> bytes \<Rightarrow> bytes \<Rightarrow> nat \<Rightarrow> nat \<Rightarrow> nat \<Rightarrow> nat \<Rightarrow> byte" where
  "blob_residue ks key nonce origin cipher s c i r =
     (let p = row_off s c r + i in
      if p < length origin then (origin ! p XOR ks key nonce p) XOR cipher ! p else 0)"

lemma residue_of_blobs:
  assumes "length cipher = length origin" and "i < s" and "r < COL_HEIGHT_SECONDARY"
    and "\<And>r. r < COL_HEIGHT_SECONDARY \<Longrightarrow> ms ! r = padded_symbol origin s c r"
    and "\<And>r. r < COL_HEIGHT_SECONDARY \<Longrightarrow> cs ! r = padded_symbol cipher s c r"
  shows "residue ks key nonce (length origin) s c ms cs i r = blob_residue ks key nonce origin cipher s c i r"
  using assms by (simp add: residue_def blob_residue_def Let_def nth_padded_symbol)

lemma sampled_residue:
  assumes run: "walrus_rslhve_main blake3 sha256 H ks inp = Inr out"
    and H: "digest32 H" and bo: "be_1000 L origin bo" and bc: "be_1000 L cipher bc"
    and id: "in_c_origin inp = blob_id (expanded_metadata H L bo)" "in_c_cipher inp = blob_id (expanded_metadata H L bc)"
    and t: "opening_typed (in_origin_opening inp)" "opening_typed (in_cipher_opening inp)"
    and cf: "collision_free H (binding_queries H L bo (in_origin_opening inp))"
      "collision_free H (binding_queries H L bc (in_cipher_opening inp))"
  shows "length cipher = length origin" and "MIN_VDD_BLOB_BYTES \<le> length origin"
    and "op_unencoded_length (in_origin_opening inp) = length origin"
    and "k < DEFAULT_SAMPLE_COUNT \<Longrightarrow> i < walrus_symbol_size (length origin) \<Longrightarrow> r < COL_HEIGHT_SECONDARY \<Longrightarrow>
      sample_residue sha256 ks inp k i r = blob_residue ks (in_key inp) (derive_rslh_nonce sha256 (in_key inp) (in_aux_data inp))
        origin cipher (walrus_symbol_size (length origin)) (sampled_column sha256 inp k) i r"
proof -
  let ?oo = "in_origin_opening inp" let ?co = "in_cipher_opening inp"
  obtain proofs where v: "verify_walrus_blob_opening H ?oo = Inr ()" "verify_walrus_blob_opening H ?co = Inr ()"
    and ids: "op_blob_id ?oo = in_c_origin inp" "op_blob_id ?co = in_c_cipher inp"
    and eq: "op_unencoded_length ?oo = op_unencoded_length ?co" and big: "MIN_VDD_BLOB_BYTES \<le> op_unencoded_length ?oo"
    and o: "verify_origin_column_bound ?oo proofs (walrus_symbol_size (op_unencoded_length ?oo)) = Inr ()"
    and c: "verify_cipher_column_bound sha256 ks (in_key inp) (in_aux_data inp) ?co proofs
      (walrus_symbol_size (op_unencoded_length ?oo)) = Inr ()"
    using accepted_run [OF run] by metis
  have n: "op_n_shards ?oo = 1000" "op_n_shards ?co = 1000"
    using o c by (auto simp: verify_origin_column_bound_def verify_cipher_column_bound_def and_then_Inr_iff ensure_def split: if_splits)
  note O = opened_blob [OF H bo v(1) n(1) t(1) _ cf(1)] and C = opened_blob [OF H bc v(2) n(2) t(2) _ cf(2)]
  have dl: "op_unencoded_length ?oo = length origin" "op_unencoded_length ?co = length cipher"
    using O(1) C(1) ids id by simp_all
  show len: "length cipher = length origin" and "MIN_VDD_BLOB_BYTES \<le> length origin" using dl eq big by simp_all
  show "op_unencoded_length ?oo = length origin" by (rule dl(1))
  assume k: "k < DEFAULT_SAMPLE_COUNT" and i: "i < walrus_symbol_size (length origin)" and r: "r < COL_HEIGHT_SECONDARY"
  let ?c = "sampled_column sha256 inp k"
  note col = accepted_columns(1-4) [OF run k]
  have "?c < ROW_WIDTH_PRIMARY" by (simp add: sampled_column_def ROW_WIDTH_PRIMARY_def)
  then have "column_symbols (op_shards ?oo ! k) ! r = padded_symbol origin (walrus_symbol_size (length origin)) ?c r"
    "column_symbols (op_shards ?co ! k) ! r = padded_symbol cipher (walrus_symbol_size (length origin)) ?c r"
    if "r < COL_HEIGHT_SECONDARY" for r
    using O(2) [of "op_shards ?oo ! k" r] C(2) [of "op_shards ?co ! k" r] col ids id that len by simp_all
  then show "sample_residue sha256 ks inp k i r = blob_residue ks (in_key inp) (derive_rslh_nonce sha256 (in_key inp) (in_aux_data inp))
      origin cipher (walrus_symbol_size (length origin)) ?c i r"
    using residue_of_blobs [OF len i r] by (simp add: sample_residue_def Let_def dl)
qed

section \<open>The seller's run\<close>

lemma vdd_host_run:
  assumes "rs_enc_ready L walrus_1000" and "digest32 H" and "digest32 blake3"
    and "MIN_VDD_BLOB_BYTES \<le> length origin" and "symbol_size_for_blob walrus_1000 (length origin) = Inr sz"
    and "chacha8_encrypt ks origin key (derive_rslh_nonce sha256 key asset_aux_data) 0 = Inr cipher"
  shows "\<exists>ido idc inp. compute_blob_id_default H L origin = Inr ido \<and> compute_blob_id_default H L cipher = Inr idc \<and>
    vdd_guest_input blake3 sha256 H L ks origin key ido idc = Inr inp \<and>
    walrus_rslhve_main blake3 sha256 H ks inp = Inr (ido @ blake3 key @ idc) \<and>
    validate_vdd_public_values (ido @ blake3 key @ idc) ido (asset_key_commitment blake3 key) idc = Inr () \<and>
    in_c_origin inp = ido \<and> in_c_cipher inp = idc \<and>
    (\<exists>seed. build_column_blob_opening H L sha256 origin seed (walrus_symbol_size (length origin)) = Inr (in_origin_opening inp) \<and>
       build_column_blob_opening H L sha256 cipher seed (walrus_symbol_size (length cipher)) = Inr (in_cipher_opening inp))"
proof -
  let ?nonce = "derive_rslh_nonce sha256 key asset_aux_data"
  have len: "length cipher = length origin" using assms(6) by (auto simp: chacha8_encrypt_def)
  obtain bo where bo: "blob_encoder_new walrus_1000 origin = Inr bo"
    using assms(5) by (auto simp: symbol_size_for_blob_def blob_encoder_new_def and_then_Inr_iff)
  obtain bc where bc: "blob_encoder_new walrus_1000 cipher = Inr bc" using same_size_encoder [OF bo len] .
  let ?ido = "blob_id (expanded_metadata H L bo)" let ?idc = "blob_id (expanded_metadata H L bc)"
  let ?seed = "sha256 (?ido @ ?idc @ blake3 key)" let ?s = "walrus_symbol_size (length origin)"
  let ?idx = "sample_index sha256 ?seed 1000"
  have ids: "compute_blob_id_default H L origin = Inr ?ido" "compute_blob_id_default H L cipher = Inr ?idc"
    using compute_blob_id_default_eq [OF assms(1)] bo bc by simp_all
  note l32 = length_expanded_id [OF assms(2)]
  obtain oo where oo: "build_column_blob_opening H L sha256 origin ?seed ?s = Inr oo" "op_blob_id oo = ?ido"
    "verify_walrus_blob_opening H oo = Inr ()" "honest_opening origin (\<lambda>k. ?idx k mod ROW_WIDTH_PRIMARY) oo"
    using column_opening_built [OF assms(1) bo] .
  obtain co where co: "build_column_blob_opening H L sha256 cipher ?seed ?s = Inr co" "op_blob_id co = ?idc"
    "verify_walrus_blob_opening H co = Inr ()" "honest_opening cipher (\<lambda>k. ?idx k mod ROW_WIDTH_PRIMARY) co"
    using column_opening_built [OF assms(1) bc, of H sha256 ?seed] len by metis
  have "length (op_blob_id oo) = 32" "length (op_blob_id co) = 32"
    and idx: "?idx = sample_index sha256 (sha256 (op_blob_id oo @ op_blob_id co @ blake3 key)) 1000"
    by (simp_all add: oo(2) co(2) l32)
  then obtain proofs where proofs: "try_map (\<lambda>k. create_honest_proof ks key ?nonce (?idx k) ?s origin cipher) [0..<DEFAULT_SAMPLE_COUNT] = Inr proofs"
    and run: "walrus_rslhve_main blake3 sha256 H ks \<lparr> in_c_origin = op_blob_id oo, in_c_cipher = op_blob_id co,
      in_c_key = blake3 key, in_aux_data = asset_aux_data, in_key = key,
      in_samples = map (\<lambda>pf. (global_index pf, origin_shard pf, cipher_shard pf)) proofs,
      in_origin_opening = oo, in_cipher_opening = co \<rparr> = Inr (op_blob_id oo @ blake3 key @ op_blob_id co)"
    using honest_run_accepted [where idx = ?idx and ?blake3.0 = blake3 and ?sha256.0 = sha256, OF assms(6,4) _ _ oo(3) co(3) idx oo(4) co(4)] by blast
  have "try_map (\<lambda>i. and_then (create_honest_proof ks key ?nonce (?idx i) ?s origin cipher) (\<lambda>pf.
      Inr (global_index pf, origin_shard pf, cipher_shard pf))) [0..<DEFAULT_SAMPLE_COUNT] =
    Inr (map (\<lambda>pf. (global_index pf, origin_shard pf, cipher_shard pf)) proofs)"
    using proofs by (auto simp: try_map_Inr_iff list_all2_map2 elim!: list_all2_mono)
  then have "vdd_guest_input blake3 sha256 H L ks origin key ?ido ?idc = Inr \<lparr> in_c_origin = ?ido, in_c_cipher = ?idc,
      in_c_key = blake3 key, in_aux_data = asset_aux_data, in_key = key,
      in_samples = map (\<lambda>pf. (global_index pf, origin_shard pf, cipher_shard pf)) proofs,
      in_origin_opening = oo, in_cipher_opening = co \<rparr>"
    using assms(4,6) ids(2) oo(1,2) co(1,2) l32
    by (simp add: vdd_guest_input_def Let_def ensure_def compute_rs_id_def asset_key_commitment_def
        build_origin_blob_opening_def build_cipher_blob_opening_def)
  moreover have "validate_vdd_public_values (?ido @ blake3 key @ ?idc) ?ido (asset_key_commitment blake3 key) ?idc = Inr ()"
    using l32 assms(3) by (simp add: validate_vdd_public_values_def ensure_def asset_key_commitment_def digest32_def)
  ultimately show ?thesis using ids run oo(1) co(1) len unfolding oo(2) co(2)
    by (intro exI conjI) (assumption | simp)+
qed

section \<open>Properties\<close>

text \<open>
  C2: The seller's run goes through. For every file of at least one MiB that the encoder accepts,
  and its ciphertext under the seller's key, the identifiers of both blobs are computed, and with
  them \<^verbatim>\<open>generate_vdd_proof\<close> prepares an input: every check passes, the openings are built. The guest
  accepts this input, and the public values it commits pass \<^verbatim>\<open>validate_vdd_public_values\<close> for the
  listed identifiers. Assumed of the Reed-Solomon library is only that it encodes; of the hash
  functions, that digests have 32 bytes.
\<close>

theorem vdd_host_run_accepted:
  assumes "rs_enc_ready L walrus_1000" and "digest32 H" and "digest32 blake3"
    and "MIN_VDD_BLOB_BYTES \<le> length origin" and "symbol_size_for_blob walrus_1000 (length origin) = Inr sz"
    and "chacha8_encrypt ks origin key (derive_rslh_nonce sha256 key asset_aux_data) 0 = Inr cipher"
  shows "\<exists>ido idc inp. compute_blob_id_default H L origin = Inr ido \<and> compute_blob_id_default H L cipher = Inr idc \<and>
    vdd_guest_input blake3 sha256 H L ks origin key ido idc = Inr inp \<and>
    walrus_rslhve_main blake3 sha256 H ks inp = Inr (ido @ blake3 key @ idc) \<and>
    validate_vdd_public_values (ido @ blake3 key @ idc) ido (asset_key_commitment blake3 key) idc = Inr ()"
  using vdd_host_run [OF assms] by blast

text \<open>
  C1: What the guest's acceptance says of the two blobs. Let the committed identifiers be those of
  two blobs, encoded with any library that encodes, and let the inputs hashed by encoding and by
  verifying the openings not collide. If the column-sampling guest accepts, then the blobs have the
  same length, at least one MiB, and in each of the fifteen columns drawn from the commitments, at
  every byte position, the weighted sum over the rows of plaintext XOR key stream XOR ciphertext, of
  the bytes of the blobs themselves, is zero. So a sampled column of the ciphertext blob in which a
  single row is not the encryption of the plaintext is never accepted.
\<close>

theorem rslhve_binds_blobs:
  assumes "walrus_rslhve_main blake3 sha256 H ks inp = Inr out" and "rs_enc_ready L walrus_1000" and "digest32 H"
    and "blob_encoder_new walrus_1000 origin = Inr bo" and "blob_encoder_new walrus_1000 cipher = Inr bc"
    and "compute_blob_id_default H L origin = Inr (in_c_origin inp)"
    and "compute_blob_id_default H L cipher = Inr (in_c_cipher inp)"
    and "opening_typed (in_origin_opening inp)" and "opening_typed (in_cipher_opening inp)"
    and "collision_free H (binding_queries H L bo (in_origin_opening inp))"
    and "collision_free H (binding_queries H L bc (in_cipher_opening inp))"
  shows "length cipher = length origin \<and> 1048576 \<le> length origin \<and>
    (\<forall>k < 15. \<forall>i < walrus_symbol_size (length origin).
       let residue = blob_residue ks (in_key inp) (derive_rslh_nonce sha256 (in_key inp) (in_aux_data inp)) origin cipher
             (walrus_symbol_size (length origin)) (sampled_column sha256 inp k) i in
       column_sum residue [0..<667] = 0 \<and> (\<forall>r0 < 667. (\<forall>r < 667. r \<noteq> r0 \<longrightarrow> residue r = 0) \<longrightarrow> residue r0 = 0))"
proof -
  have "in_c_origin inp = blob_id (expanded_metadata H L bo)" "in_c_cipher inp = blob_id (expanded_metadata H L bc)"
    using assms(4-7) by (simp_all add: compute_blob_id_default_eq [OF assms(2)])
  note facts = sampled_residue [OF assms(1,3) be_1000_new [OF assms(2,4)] be_1000_new [OF assms(2,5)] this assms(8-11)]
  let ?s = "walrus_symbol_size (length origin)"
  let ?res = "\<lambda>k. blob_residue ks (in_key inp) (derive_rslh_nonce sha256 (in_key inp) (in_aux_data inp)) origin cipher ?s
    (sampled_column sha256 inp k)"
  have sum: "column_sum (?res k i) [0..<COL_HEIGHT_SECONDARY] = 0" if "k < DEFAULT_SAMPLE_COUNT" "i < ?s" for k i
  proof -
    have "column_sum (?res k i) [0..<COL_HEIGHT_SECONDARY] = column_sum (sample_residue sha256 ks inp k i) [0..<COL_HEIGHT_SECONDARY]"
      by (rule column_sum_cong) (use facts(4) that in simp)
    then show ?thesis using accepted_columns(5) [OF assms(1) that(1)] that(2) facts(3) by simp
  qed
  then have "?res k i r0 = 0" if "k < DEFAULT_SAMPLE_COUNT" "i < ?s" "r0 < COL_HEIGHT_SECONDARY"
    "\<forall>r < COL_HEIGHT_SECONDARY. r \<noteq> r0 \<longrightarrow> ?res k i r = 0" for k i r0
    using single_residue_nonzero [of r0 "?res k i"] that by blast
  moreover have "1048576 \<le> length origin" using facts(2) by (simp add: MIN_VDD_BLOB_BYTES_def)
  ultimately show ?thesis
    using sum facts(1) unfolding DEFAULT_SAMPLE_COUNT_def COL_HEIGHT_SECONDARY_def Let_def by blast
qed

text \<open>
  C9: The guest that encodes the whole file commits exactly the true statements: it returns a value
  if and only if the origin has less than 4 GiB and hashes to the public commitment, the key has 32
  bytes and hashes to its commitment, and the public cipher commitment is the Walrus blob identifier
  of the sealed origin. The value is then the three commitments and the big-endian length, the
  sealed file unseals to the origin, and by the correctness of the encoder the identifier is that of
  the metadata that storing the sealed file produces.
\<close>

theorem walrus_main_iff:
  assumes "length p1 = 8" and "length p2 = 8" and "length p3 = 8" and "length p4 = 8" and "rs_enc_ready L walrus_1000"
  shows "walrus_main blake3 sha256 H L ks \<lparr> c_origin_raw = c_origin, c_key_raw = p1 @ c_key,
      c_cipher_raw = p2 @ c_cipher, origin_raw = p3 @ origin, key_raw = p4 @ key \<rparr> = Inr out \<longleftrightarrow>
    (\<exists>cipher pairs md. chacha8_seal sha256 ks origin key c_origin = Inr cipher \<and>
       chacha8_unseal sha256 ks cipher key c_origin = Inr origin \<and>
       length origin < 2 ^ 32 \<and> c_origin = blake3 origin \<and> c_key = blake3 key \<and> length key = 32 \<and>
       config_encode_with_metadata H L walrus_1000 cipher = Inr (pairs, md) \<and> c_cipher = blob_id md \<and>
       out = c_origin @ c_key @ c_cipher @ to_be_bytes 4 (length origin))"
proof -
  obtain cipher where c: "chacha8_seal sha256 ks origin key c_origin = Inr cipher"
    by (simp add: chacha8_defs)
  have u: "chacha8_unseal sha256 ks cipher key c_origin = Inr origin"
    using c chacha8_sealed.crypt_again [of sha256 ks "(key, c_origin)" origin cipher] by (simp add: chacha8_unseal_is_seal)
  have id: "(\<exists>cid. compute_blob_id_default H L cipher = Inr cid \<and> c_cipher = cid) \<longleftrightarrow>
      (\<exists>pairs md. config_encode_with_metadata H L walrus_1000 cipher = Inr (pairs, md) \<and> c_cipher = blob_id md)"
  proof (cases "blob_encoder_new walrus_1000 cipher")
    case (Inr be)
    then show ?thesis using encode_with_metadata_ok [OF blob_encoder_new_ok(1) [OF assms(5) Inr], of H]
      by (auto simp: compute_blob_id_default_eq [OF assms(5)] config_encode_with_metadata_def)
  qed (simp add: compute_blob_id_default_eq [OF assms(5)] config_encode_with_metadata_def)
  show ?thesis using assms(1-4) id
    by (auto simp: walrus_main_def skip8_def Let_def c u and_then_Inr_iff ensure_def map_err_Inr_iff
        ok_or_def try_from_u_def split: if_splits)
qed

end
