(* ===== verification/Vdd_Example.thy ===== *)
theory Vdd_Example
  imports Vdd_Host
begin

unbundle bit_operations_syntax

text \<open>
  The openings the host builds satisfy the hypotheses of the binding theorem, and a concrete run of
  host and guest: one MiB of zeros under a key stream of zeros, with a hash function that does not
  collide on the inputs that occur. It shows that the end-to-end theorems of \<open>Vdd_Host\<close> apply.
\<close>

section \<open>Honest openings are typed and hash what encoding hashes\<close>

lemma built_opening_parts:
  assumes "build_walrus_blob_opening H hs e len samples = Inr op" and "n * n = length hs"
  shows "op_sliver_pair_roots op = map (shard_roots H hs n) [0..<n]" and "op_unencoded_length op = len"
    and "sh \<in> set (op_shards op) \<Longrightarrow> shard_index sh < n \<and> column_leaf_hashes sh = matrix_row hs n (shard_index sh)"
proof -
  have n: "isqrt (length hs) = n" using assms(2) isqrt_square [of n] by simp
  from assms(1) obtain t where chk: "try_all (check_sample n) samples = Inr ()"
    and roots: "op_sliver_pair_roots op = map (shard_roots H hs n) [0..<n]" "op_unencoded_length op = len"
    and shards: "try_map (open_shard H hs n (map (shard_roots H hs n) [0..<n]) t) samples = Inr (op_shards op)"
    by (auto simp: build_walrus_blob_opening_def Let_def n and_then_Inr_iff split: if_splits)
  then show "op_sliver_pair_roots op = map (shard_roots H hs n) [0..<n]" "op_unencoded_length op = len" by simp_all
  assume "sh \<in> set (op_shards op)"
  then obtain sample where sample: "sample \<in> set samples" "open_shard H hs n (map (shard_roots H hs n) [0..<n]) t sample = Inr sh"
    using try_map_Inr_mem [OF shards] by blast
  have "sr_shard_index sample < n"
    using chk sample(1) by (auto simp: try_all_Inr_iff check_sample_def and_then_Inr_iff ensure_def split: if_splits)
  then show "shard_index sh < n \<and> column_leaf_hashes sh = matrix_row hs n (shard_index sh)"
    using sample(2) by (auto simp: open_shard_def Let_def and_then_Inr_iff)
qed

lemma honest_opening_binding:
  assumes H: "digest32 H" and be: "be_1000 L data be"
    and op: "build_walrus_blob_opening H (all_hashes H L be) RS2 (length data) samples = Inr op"
    and hon: "honest_opening data col op" and col: "\<And>k. col k < ROW_WIDTH_PRIMARY"
  shows "opening_typed op"
    and "set (binding_queries H L be op) \<subseteq> set (id_queries H (metadata (expanded_metadata H L be))) \<union>
      (\<Union>c < 1000. set (build_queries H (matrix_line L be c)))"
proof -
  note b = be_1000D [OF be]
  have n: "1000 * 1000 = length (all_hashes H L be)" by (simp add: hash_table_def b(2))
  note parts = built_opening_parts [OF op n]
  have row: "column_leaf_hashes sh = map (leaf_hash H) (matrix_line L be (shard_index sh))"
    if "sh \<in> set (op_shards op)" for sh
    using parts(3) [OF that] roots_encoded(1) [OF be, of "shard_index sh" H] by (simp add: matrix_line_def b(2))
  have "length data \<le> ROW_WIDTH_PRIMARY * COL_HEIGHT_SECONDARY * 65535"
    using be_ok_blob [OF b(1)] b(3-7) by (simp add: order.trans [OF _ mult_le_mono2])
  then have "op_unencoded_length op < 2 ^ 64" using parts(2) by (simp add: ROW_WIDTH_PRIMARY_def COL_HEIGHT_SECONDARY_def)
  moreover have "length (spr_primary p) = 32" if "p \<in> set (op_sliver_pair_roots op)" for p
  proof -
    from that obtain i where i: "i < 1000" "p = shard_roots H (all_hashes H L be) 1000 i" unfolding parts(1) by auto
    then have "spr_primary p = node_bytes (root (build H (map (cell L be i) [0..<1000])))"
      using roots_encoded(1) [OF be i(1), of H] by (simp add: shard_roots_def build_def del: upt_rec_numeral)
    then show ?thesis using length_root_bytes [OF H, of "map (cell L be i) [0..<1000]"] by simp
  qed
  moreover have "\<forall>x \<in> set (column_leaf_hashes sh). node_ok x" if "sh \<in> set (op_shards op)" for sh
    using row [OF that] H by (auto simp: leaf_hash_def node_ok_def digest32_def)
  ultimately show "opening_typed op" by (simp add: opening_typed_def)
  have "id_queries H (opening_metadata op) = id_queries H (metadata (expanded_metadata H L be))"
    using roots_encoded(2) [OF be, of H] parts(1,2) b(5)
    by (simp add: id_queries_def id_query_def compute_root_hash_def opening_metadata_def expanded_metadata_def
        new_verified_from_metadata_def Let_def del: upt_rec_numeral)
  moreover have "set (column_queries H (matrix_line L be (shard_index sh)) sh) \<subseteq> set (build_queries H (matrix_line L be (shard_index sh)))"
    if sh: "sh \<in> set (op_shards op)" for sh
  proof -
    obtain k where k: "k < DEFAULT_SAMPLE_COUNT" "sh = op_shards op ! k"
      using sh hon by (auto simp: in_set_conv_nth honest_opening_def)
    let ?c = "col k"
    have c: "shard_index sh = ?c" "column_symbols sh = map (padded_symbol data (walrus_symbol_size (length data)) ?c) [0..<COL_HEIGHT_SECONDARY]"
      using hon k by (auto simp: honest_opening_def opens_column_def)
    have "set (column_symbols sh) \<subseteq> set (matrix_line L be ?c)"
    proof
      fix x assume "x \<in> set (column_symbols sh)"
      then obtain r where r: "r < COL_HEIGHT_SECONDARY" "x = padded_symbol data (walrus_symbol_size (length data)) ?c r"
        unfolding c(2) by auto
      then have "x = cell L be ?c r"
        using msg_padded_symbol [OF be col r(1), of k] cell_msg [OF b(1), of ?c r] col [of k] b(3,4) by simp
      moreover have "r < 1000" using r(1) by (simp add: COL_HEIGHT_SECONDARY_def)
      ultimately show "x \<in> set (matrix_line L be ?c)" by (simp add: matrix_line_def b(2))
    qed
    then show ?thesis using row [OF sh] c(1) by (auto simp: column_queries_def build_queries_def)
  qed
  moreover have "shard_index sh < 1000" if "sh \<in> set (op_shards op)" for sh using parts(3) [OF that] by simp
  ultimately show "set (binding_queries H L be op) \<subseteq> set (id_queries H (metadata (expanded_metadata H L be))) \<union>
      (\<Union>c < 1000. set (build_queries H (matrix_line L be c)))"
    by (fastforce simp: binding_queries_def)
qed

section \<open>Trees with equal leaves\<close>

text \<open>
  A hash function whose digests name the level of a node in the tree and whether it lies on the
  right border, where layers of odd length are padded. Symbols, pairs of roots and identifiers start
  at different levels.
\<close>

definition level_code :: "byte \<Rightarrow> byte \<Rightarrow> bytes" where
  "level_code l t = [l, t] @ replicate 30 7"

definition level_hash :: "bytes \<Rightarrow> bytes" where
  "level_hash q =
     (if length q = 7 then level_code 1 0
      else if length q = 41 then level_code 201 0
      else if hd q = 0 then level_code 101 0
      else level_code (q ! 1 + 1) (if take 32 (tl q) = drop 33 q then 0 else 1))"

definition inside :: "byte \<Rightarrow> node" where "inside l = Digest (level_code l 0)"

definition border :: "byte \<Rightarrow> node" where "border l = Digest (level_code l 1)"

definition layer :: "byte \<Rightarrow> nat \<Rightarrow> bool \<Rightarrow> node list" where
  "layer l k t = replicate k (inside l) @ (if t then [border l] else [])"

lemma length_level_code [simp]: "length (level_code l t) = 32"
  by (simp add: level_code_def)

lemma level_code_eq [simp]: "level_code l t = level_code l' t' \<longleftrightarrow> l = l' \<and> t = t'"
  by (simp add: level_code_def)

lemma level_code_nonzero [simp]: "level_code l t \<noteq> replicate 32 0"
proof
  assume "level_code l t = replicate 32 0"
  then have "level_code l t ! 2 = replicate 32 0 ! 2" by (rule arg_cong)
  then show False by (simp add: level_code_def)
qed

lemma level_code_at: "(level_code l t @ x) ! 0 = l"
  by (simp add: level_code_def)

lemma level_hash_32: "digest32 level_hash"
  by (simp add: digest32_def level_hash_def level_code_def)

lemma inner_level [simp]:
  "inner_hash level_hash (inside l) (inside l) = inside (l + 1)" "inner_hash level_hash (inside l) (border l) = border (l + 1)"
  "inner_hash level_hash (inside l) Empty = border (l + 1)" "inner_hash level_hash (border l) Empty = border (l + 1)"
  by (simp_all add: inner_hash_def inside_def border_def level_hash_def level_code_at drop_Cons')

definition border_query :: "byte \<Rightarrow> nat \<Rightarrow> bool \<Rightarrow> bytes" where
  "border_query l k t =
     (if t then (if odd k then inner_query (inside l) (border l) else inner_query (border l) Empty)
      else inner_query (inside l) Empty)"

lemma layer_pair:
  assumes "i < length (pad (layer l k t)) div 2"
  shows "pad (layer l k t) ! (2 * i) = (if 2 * i < k then inside l else border l) \<and>
    pad (layer l k t) ! (2 * i + 1) = (if 2 * i + 1 < k then inside l else if t \<and> odd k then border l else Empty) \<and>
    2 * i \<le> k \<and> (2 * i = k \<longrightarrow> t)"
  using assms by (cases t) (auto simp: pad_def layer_def nth_append nth_Cons' split: if_splits; presburger)+

lemma layer_parents: "parents level_hash (pad (layer l k t)) = layer (l + 1) (k div 2) (t \<or> odd k)"
proof (rule nth_equalityI)
  show "length (parents level_hash (pad (layer l k t))) = length (layer (l + 1) (k div 2) (t \<or> odd k))"
    by (auto simp: layer_def)
  fix i assume "i < length (parents level_hash (pad (layer l k t)))"
  then have i: "i < length (pad (layer l k t)) div 2" by (simp add: parents_def)
  then have "parents level_hash (pad (layer l k t)) ! i =
      inner_hash level_hash (pad (layer l k t) ! (2 * i)) (pad (layer l k t) ! (2 * i + 1))"
    by (simp add: parents_def)
  also have "\<dots> = (if i < k div 2 then inside (l + 1) else border (l + 1))"
    using layer_pair [OF i] by (auto; presburger)
  also have "\<dots> = layer (l + 1) (k div 2) (t \<or> odd k) ! i"
    using layer_pair [OF i] by (auto simp: layer_def nth_append nth_Cons'; presburger)
  finally show "parents level_hash (pad (layer l k t)) ! i = layer (l + 1) (k div 2) (t \<or> odd k) ! i" .
qed

lemma layer_queries:
  "set (tree_queries level_hash (layer l k t)) \<subseteq>
     (if 1 < length (layer l k t) then
        (if 2 \<le> k then {inner_query (inside l) (inside l)} else {}) \<union> (if t \<or> odd k then {border_query l k t} else {}) \<union>
        set (tree_queries level_hash (layer (l + 1) (k div 2) (t \<or> odd k)))
      else {})"
proof -
  have "inner_query (pad (layer l k t) ! (2 * i)) (pad (layer l k t) ! (2 * i + 1)) \<in>
      (if 2 \<le> k then {inner_query (inside l) (inside l)} else {}) \<union> (if t \<or> odd k then {border_query l k t} else {})"
    if "i < length (pad (layer l k t)) div 2" for i
    using layer_pair [OF that] by (auto simp: border_query_def; presburger)
  then show ?thesis
    unfolding tree_queries.simps [of level_hash "layer l k t"] layer_parents by fastforce
qed

text \<open>A thousand equal leaves: every query of the tree, level by level, and its root.\<close>

definition tree_1000 :: "byte \<Rightarrow> bytes list" where
  "tree_1000 l = map (\<lambda>j. inner_query (inside (l + of_nat j)) (inside (l + of_nat j))) [0..<9] @
     [border_query (l + 3) 125 False, border_query (l + 4) 62 True, border_query (l + 5) 31 True, border_query (l + 6) 15 True,
      border_query (l + 7) 7 True, border_query (l + 8) 3 True, border_query (l + 9) 1 True]"

lemma tree_queries_1000: "set (tree_queries level_hash (replicate 1000 (inside l))) \<subseteq> set (tree_1000 l)"
proof -
  have step: "set (tree_queries level_hash (layer l k t)) \<subseteq> A" if "1 < length (layer l k t)"
    "2 \<le> k \<longrightarrow> inner_query (inside l) (inside l) \<in> A" "t \<or> odd k \<longrightarrow> border_query l k t \<in> A"
    "set (tree_queries level_hash (layer (l + 1) (k div 2) (t \<or> odd k))) \<subseteq> A" for l k t A
    using layer_queries [of l k t] that by (auto split: if_splits)
  have fin: "set (tree_queries level_hash (layer l 0 True)) \<subseteq> A" for l A
    by (simp add: tree_queries.simps layer_def)
  let ?A = "set (tree_1000 l)"
  have xx: "inner_query (inside (l + of_nat j)) (inside (l + of_nat j)) \<in> ?A" if "j < 9" for j
    using that by (auto simp: tree_1000_def)
  note xs = xx [of 0, simplified] xx [of 1, simplified] xx [of 2, simplified] xx [of 3, simplified] xx [of 4, simplified]
    xx [of 5, simplified] xx [of 6, simplified] xx [of 7, simplified] xx [of 8, simplified]
  have bs: "border_query (l + 3) 125 False \<in> ?A" "border_query (l + 4) 62 True \<in> ?A" "border_query (l + 5) 31 True \<in> ?A"
    "border_query (l + 6) 15 True \<in> ?A" "border_query (l + 7) 7 True \<in> ?A" "border_query (l + 8) 3 True \<in> ?A"
    "border_query (l + 9) 1 True \<in> ?A"
    by (simp_all add: tree_1000_def del: upt_rec_numeral)
  have "set (tree_queries level_hash (layer l 1000 False)) \<subseteq> ?A"
    by (rule step, (simp add: layer_def xs bs add.assoc del: One_nat_def; fail)+)+
      (simp add: fin)
  then show ?thesis by (simp add: layer_def)
qed

lemma root_1000: "root_of level_hash (replicate 1000 (inside l)) = border (l + 10)"
proof -
  have step: "root_of level_hash (layer l k t) = root_of level_hash (layer (l + 1) (k div 2) (t \<or> odd k))"
    if "1 < length (layer l k t)" for l k t
    using that by (simp add: root_of.simps [of level_hash "layer l k t"] layer_parents)
  have "root_of level_hash (layer l 1000 False) = root_of level_hash (layer (l + 10) 0 True)"
    by (subst step, simp add: layer_def, simp add: add.assoc)+
  also have "\<dots> = border (l + 10)" by (simp add: root_of.simps layer_def)
  finally show ?thesis by (simp add: layer_def)
qed

section \<open>A blob of zeros\<close>

text \<open>An encoder that repeats the first source symbol: it encodes, which is all that is assumed.\<close>

definition repeat_rs :: rs_lib where
  "repeat_rs = \<lparr> rs_enc_new = (\<lambda>k m s. Inr ()), rs_encode = (\<lambda>k m s xs. Some (replicate m (hd xs))),
     rs_dec_new = (\<lambda>k m s. Inr ()), rs_decode = (\<lambda>k m s calls. Inl ''unsupported'') \<rparr>"

definition zero_blob :: bytes where
  "zero_blob = replicate 1048576 0"

lemma repeat_ready: "rs_enc_ready repeat_rs walrus_1000"
proof -
  have "sized s (replicate m (hd xs))" if "length xs = n_source_symbols walrus_1000 e" "sized s xs" for s m xs e
  proof -
    have "xs \<noteq> []" using that(1) by (cases e) (auto simp: ROW_WIDTH_PRIMARY_def COL_HEIGHT_SECONDARY_def)
    then show ?thesis using that(2) by (auto simp: sized_def)
  qed
  moreover have "0 < n_source_symbols walrus_1000 e \<and> n_source_symbols walrus_1000 e \<le> 1000" for e
    by (cases e) (simp_all add: ROW_WIDTH_PRIMARY_def COL_HEIGHT_SECONDARY_def)
  ultimately show ?thesis by (simp add: rs_enc_ready_def rs_encodable_def repeat_rs_def)
qed

lemma zero_size: "symbol_size_for_blob walrus_1000 (length zero_blob) = Inr 6"
  by (simp add: config_eval zero_blob_def walrus_1000_def ROW_WIDTH_PRIMARY_def COL_HEIGHT_SECONDARY_def)

lemma zero_encoder: obtains be where "blob_encoder_new walrus_1000 zero_blob = Inr be" "be_1000 repeat_rs zero_blob be"
proof -
  obtain be where be: "blob_encoder_new walrus_1000 zero_blob = Inr be"
    using zero_size by (auto simp: symbol_size_for_blob_def blob_encoder_new_def and_then_Inr_iff)
  then show ?thesis using that be_1000_new [OF repeat_ready be] by blast
qed

lemma zero_blob_size: "walrus_symbol_size (length zero_blob) = 6"
  by (rule symbol_size_1000 [OF config_1000(1) zero_size])

lemma codeword_repeat:
  assumes "xs = replicate k v" and "0 < k" and "k \<le> n" shows "codeword repeat_rs n s xs = replicate n v"
  using assms by (simp add: codeword_def parity_def repeat_rs_def replicate_add [symmetric] hd_replicate)

lemma zero_cell:
  assumes be: "be_1000 repeat_rs zero_blob be" and "r < 1000" "c < 1000"
  shows "cell repeat_rs be r c = replicate 6 0"
proof -
  note b = be_1000D [OF be]
  have m: "msg be i j = replicate 6 0" if "i < ROW_WIDTH_PRIMARY" "j < COL_HEIGHT_SECONDARY" for i j
    unfolding msg_padded_symbol [OF be that] zero_blob_size by (simp add: zero_blob_def padded_zeros)
  have row: "row_code repeat_rs be i = replicate 1000 (replicate 6 0)" if "i < ROW_WIDTH_PRIMARY" for i
    unfolding row_code_def b(2)
    by (rule codeword_repeat [of _ COL_HEIGHT_SECONDARY]) (use m [OF that] in \<open>auto simp: b(4) map_replicate_const COL_HEIGHT_SECONDARY_def intro: nth_equalityI\<close>)
  have "col_code repeat_rs be c = replicate 1000 (replicate 6 0)"
    unfolding col_code_def b(2)
    by (rule codeword_repeat [of _ ROW_WIDTH_PRIMARY]) (use row assms(3) in \<open>auto simp: b(3) ROW_WIDTH_PRIMARY_def intro: nth_equalityI\<close>)
  then show ?thesis using assms(2) by (simp add: cell_def)
qed

section \<open>No collisions\<close>

lemma level_queries:
  "level_hash (inner_query (inside l) (inside l)) = level_code (l + 1) 0" "level_hash (border_query l k t) = level_code (l + 1) 1"
proof -
  have "Digest (level_hash (inner_query a b)) = inner_hash level_hash a b" for a b by (simp add: inner_hash_query)
  from this [of "inside l" "inside l"] this [of "inside l" "border l"] this [of "inside l" Empty] this [of "border l" Empty]
  show "level_hash (inner_query (inside l) (inside l)) = level_code (l + 1) 0" "level_hash (border_query l k t) = level_code (l + 1) 1"
    unfolding inner_level by (simp_all add: border_query_def inside_def border_def)
qed

lemma tree_1000_hashes:
  "map level_hash (tree_1000 l) = map (\<lambda>j. level_code (l + of_nat j + 1) 0) [0..<9] @
     map (\<lambda>j. level_code (l + of_nat j + 4) 1) [0..<7]"
  by (simp add: tree_1000_def level_queries upt_rec add.assoc)

definition root_pair :: bytes where
  "root_pair = level_code 11 1 @ level_code 11 1"

definition zero_queries :: "bytes list" where
  "zero_queries = (0 # replicate 6 0) # ([1] @ to_le_bytes 8 1048576 @ level_code 111 1) # (0 # root_pair) #
     tree_1000 1 @ tree_1000 101"

lemma zero_collision_free: "collision_free level_hash zero_queries"
proof -
  have m: "map level_hash zero_queries = level_code 1 0 # level_code 201 0 # level_code 101 0 #
      map level_hash (tree_1000 1) @ map level_hash (tree_1000 101)"
    by (simp add: zero_queries_def level_hash_def root_pair_def encode_simps)
  have "distinct (map level_hash zero_queries)"
    unfolding m tree_1000_hashes by (simp add: upt_rec)
  then have "inj_on level_hash (set zero_queries)" by (simp add: distinct_map)
  moreover have "\<forall>q. level_hash q \<noteq> replicate 32 0" by (simp add: level_hash_def)
  ultimately show ?thesis by (simp add: collision_free_def)
qed

lemma zero_matrix_queries:
  assumes be: "be_1000 repeat_rs zero_blob be"
  shows "c < 1000 \<Longrightarrow> set (build_queries level_hash (matrix_line repeat_rs be c)) \<subseteq> set zero_queries"
    and "set (id_queries level_hash (metadata (expanded_metadata level_hash repeat_rs be))) \<subseteq> set zero_queries"
proof -
  note b = be_1000D [OF be]
  have lh: "leaf_hash level_hash (replicate 6 0) = inside 1" "leaf_hash level_hash root_pair = inside 101"
    by (simp_all add: leaf_hash_def level_hash_def inside_def root_pair_def)
  have line: "map (\<lambda>j. cell repeat_rs be (f j) (g j)) [0..<1000] = replicate 1000 (replicate 6 0)"
    if "\<And>j. j < 1000 \<Longrightarrow> f j < 1000 \<and> g j < 1000" for f g
    using zero_cell [OF be] that by (auto intro: nth_equalityI)
  have build: "set (build_queries level_hash (replicate 1000 (replicate 6 0))) \<subseteq> set zero_queries"
    "set (build_queries level_hash (replicate 1000 root_pair)) \<subseteq> set zero_queries"
    using tree_queries_1000 [of 1] tree_queries_1000 [of 101] by (auto simp: build_queries_def zero_queries_def lh)
  have rt: "root (build level_hash (replicate 1000 (replicate 6 0))) = border 11"
    "root (build level_hash (replicate 1000 root_pair)) = border 111"
    using root_1000 [of 1] root_1000 [of 101] by (simp_all add: build_def root_build_from_leaf_hashes lh)
  show "set (build_queries level_hash (matrix_line repeat_rs be c)) \<subseteq> set zero_queries" if "c < 1000"
    using build(1) line [of "\<lambda>_. c" "\<lambda>j. j"] that by (simp add: matrix_line_def b(2) del: upt_rec_numeral)
  have "map pair_leaf_input (expanded_hashes level_hash repeat_rs be) = replicate 1000 root_pair"
  proof (rule nth_equalityI)
    fix i assume "i < length (map pair_leaf_input (expanded_hashes level_hash repeat_rs be))"
    then have i: "i < 1000" by (simp add: expanded_hashes_def b(2))
    then show "map pair_leaf_input (expanded_hashes level_hash repeat_rs be) ! i = replicate 1000 root_pair ! i"
      using line [of "\<lambda>_. i" "\<lambda>j. j"] line [of "\<lambda>j. j" "\<lambda>_. 999 - i"]
      by (simp add: expanded_hashes_def b(2) nth_map_upt0 pair_leaf_input_def rt border_def root_pair_def del: upt_rec_numeral)
  qed (simp add: expanded_hashes_def b(2))
  moreover have "md_encoding_type (metadata (expanded_metadata level_hash repeat_rs be)) = RS2"
    by (simp add: expanded_metadata_def new_verified_from_metadata_def Let_def)
  ultimately show "set (id_queries level_hash (metadata (expanded_metadata level_hash repeat_rs be))) \<subseteq> set zero_queries"
    using build(2) rt(2) b(5)
    by (simp add: id_queries_def id_query_def expanded_metadata_simps compute_root_hash_def border_def)
       (simp add: zero_queries_def zero_blob_def)
qed

section \<open>The run\<close>

definition zero_stream :: keystream where "zero_stream k n p = 0"

definition const_hash :: "byte \<Rightarrow> bytes \<Rightarrow> bytes" where "const_hash b x = replicate 32 b"

lemma zero_encrypt: "chacha8_encrypt zero_stream zero_blob key nonce 0 = Inr zero_blob"
  unfolding chacha8_encrypt_def by (simp add: list_eq_iff_nth_eq, simp add: zero_stream_def zero_blob_def)

lemma zero_big: "MIN_VDD_BLOB_BYTES \<le> length zero_blob"
  by (simp add: zero_blob_def MIN_VDD_BLOB_BYTES_def)

lemma const_hash_32: "digest32 (const_hash b)"
  by (simp add: digest32_def const_hash_def)

theorem vdd_host_run_accepted_witness:
  "\<exists>ido inp. compute_blob_id_default level_hash repeat_rs zero_blob = Inr ido \<and>
     vdd_guest_input (const_hash 7) (const_hash 0) level_hash repeat_rs zero_stream zero_blob (replicate 32 1) ido ido = Inr inp \<and>
     walrus_rslhve_main (const_hash 7) (const_hash 0) level_hash zero_stream inp = Inr (ido @ replicate 32 7 @ ido)"
  using vdd_host_run_accepted [OF repeat_ready level_hash_32 const_hash_32 [of 7] zero_big zero_size zero_encrypt
      [of "replicate 32 1" "derive_rslh_nonce (const_hash 0) (replicate 32 1) asset_aux_data"]]
  by (auto simp: const_hash_def)

lemma zero_opening_binding:
  assumes "blob_encoder_new walrus_1000 zero_blob = Inr be"
    and "build_column_blob_opening level_hash repeat_rs sha256 zero_blob seed (walrus_symbol_size (length zero_blob)) = Inr op"
  shows "opening_typed op" and "collision_free level_hash (binding_queries level_hash repeat_rs be op)"
proof -
  have be: "be_1000 repeat_rs zero_blob be" by (rule be_1000_new [OF repeat_ready assms(1)])
  obtain samples where op: "build_walrus_blob_opening level_hash (all_hashes level_hash repeat_rs be) RS2 (length zero_blob) samples = Inr op"
    and hon: "honest_opening zero_blob (\<lambda>k. sample_index sha256 seed 1000 k mod ROW_WIDTH_PRIMARY) op"
    by (rule column_opening_built [OF repeat_ready assms(1), of level_hash sha256 seed]) (use assms(2) in auto)
  have col: "sample_index sha256 seed 1000 k mod ROW_WIDTH_PRIMARY < ROW_WIDTH_PRIMARY" for k by (simp add: ROW_WIDTH_PRIMARY_def)
  note binding = honest_opening_binding [OF level_hash_32 be op hon col]
  show "opening_typed op" by (rule binding(1))
  have "set (binding_queries level_hash repeat_rs be op) \<subseteq> set zero_queries"
    by (rule subset_trans [OF binding(2)]) (use zero_matrix_queries [OF be] in blast)
  then show "collision_free level_hash (binding_queries level_hash repeat_rs be op)"
    by (rule collision_free_subset [OF zero_collision_free])
qed

theorem rslhve_binds_blobs_witness:
  "\<exists>inp out. walrus_rslhve_main (const_hash 7) (const_hash 0) level_hash zero_stream inp = Inr out \<and>
     column_sum (blob_residue zero_stream (in_key inp) (derive_rslh_nonce (const_hash 0) (in_key inp) (in_aux_data inp))
       zero_blob zero_blob 6 (sampled_column (const_hash 0) inp 14) 5) [0..<667] = 0"
proof -
  obtain ido inp seed where ids: "compute_blob_id_default level_hash repeat_rs zero_blob = Inr (in_c_origin inp)"
    "compute_blob_id_default level_hash repeat_rs zero_blob = Inr (in_c_cipher inp)"
    and run: "walrus_rslhve_main (const_hash 7) (const_hash 0) level_hash zero_stream inp = Inr (ido @ const_hash 7 (replicate 32 1) @ ido)"
    and op: "build_column_blob_opening level_hash repeat_rs (const_hash 0) zero_blob seed (walrus_symbol_size (length zero_blob)) = Inr (in_origin_opening inp)"
      "build_column_blob_opening level_hash repeat_rs (const_hash 0) zero_blob seed (walrus_symbol_size (length zero_blob)) = Inr (in_cipher_opening inp)"
    using vdd_host_run [OF repeat_ready level_hash_32 const_hash_32 [of 7] zero_big zero_size zero_encrypt
      [of "replicate 32 1" "derive_rslh_nonce (const_hash 0) (replicate 32 1) asset_aux_data"]] by auto
  obtain be where be: "blob_encoder_new walrus_1000 zero_blob = Inr be" using zero_encoder by blast
  note o = zero_opening_binding [OF be op(1)] and c = zero_opening_binding [OF be op(2)]
  from rslhve_binds_blobs [OF run repeat_ready level_hash_32 be be ids o(1) c(1) o(2) c(2)]
  have "column_sum (blob_residue zero_stream (in_key inp) (derive_rslh_nonce (const_hash 0) (in_key inp) (in_aux_data inp))
      zero_blob zero_blob 6 (sampled_column (const_hash 0) inp 14) 5) [0..<667] = 0"
    unfolding zero_blob_size Let_def by (simp del: upt_rec_numeral)
  with run show ?thesis by blast
qed

theorem walrus_main_iff_witness:
  "\<exists>c_cipher. walrus_main (const_hash 7) (const_hash 3) level_hash repeat_rs zero_stream
     \<lparr> c_origin_raw = replicate 32 7, c_key_raw = replicate 8 0 @ replicate 32 7, c_cipher_raw = replicate 8 0 @ c_cipher,
       origin_raw = replicate 8 0 @ [9], key_raw = replicate 8 0 @ replicate 32 1 \<rparr>
   = Inr (replicate 32 7 @ replicate 32 7 @ c_cipher @ [0, 0, 0, 1])"
proof -
  have "symbol_size_for_blob walrus_1000 (length [9 :: byte]) = Inr 2"
    by (simp add: config_eval walrus_1000_def ROW_WIDTH_PRIMARY_def COL_HEIGHT_SECONDARY_def)
  then obtain be where be: "blob_encoder_new walrus_1000 [9] = Inr be"
    by (auto simp: symbol_size_for_blob_def blob_encoder_new_def and_then_Inr_iff)
  have enc: "config_encode_with_metadata level_hash repeat_rs walrus_1000 [9] =
      Inr (encoded_pairs repeat_rs be, expanded_metadata level_hash repeat_rs be)"
    using encode_with_metadata_ok [OF blob_encoder_new_ok(1) [OF repeat_ready be], of level_hash] be
    by (simp add: config_encode_with_metadata_def)
  have seal: "chacha8_seal (const_hash 3) zero_stream [9] key aux = Inr [9]"
    "chacha8_unseal (const_hash 3) zero_stream [9] key aux = Inr [9]" for key aux
    by (simp_all add: chacha8_defs apply_keystream_def zero_stream_def)
  have n: "to_be_bytes 4 (length [9 :: byte]) = [0, 0, 0, 1]" by code_simp
  have p: "length (replicate 8 (0 :: byte)) = 8" by simp
  show ?thesis
    by (rule exI [of _ "blob_id (expanded_metadata level_hash repeat_rs be)"], subst walrus_main_iff [OF p p p p repeat_ready],
        rule exI [of _ "[9]"], rule exI [of _ "encoded_pairs repeat_rs be"], rule exI [of _ "expanded_metadata level_hash repeat_rs be"])
      (use enc seal n in \<open>simp add: const_hash_def\<close>)
qed

end
