(* ===== verification/Quilt_Layout.thy ===== *)
theory Quilt_Layout
  imports Walrus_Metadata
begin

text \<open>
  The matrix of a quilt, \<^verbatim>\<open>walrus-core/src/encoding/quilt_encoding.rs\<close>: the bytes of a quilt are a
  matrix of symbols stored row by row, and the blobs are laid out in it column by column. This
  theory has the two loops that write and read byte ranges in this order and shows that they write
  and read ranges of one byte sequence, the matrix read column by column.

  Arithmetic is on \<^verbatim>\<open>usize\<close>; the indices that occur are bounded by the length of a vector in memory, so
  64 bits do not overflow.
\<close>

section \<open>The loops\<close>

text \<open>
  The loop of \<^verbatim>\<open>write_bytes_to_columns\<close>, on the bytes that remain. A zero symbol size has already
  caused a division by zero when the loop is reached.
\<close>

function write_cells :: "nat \<Rightarrow> nat \<Rightarrow> nat \<Rightarrow> bytes \<Rightarrow> bytes \<Rightarrow> nat \<Rightarrow> nat \<Rightarrow> nat \<Rightarrow> (bytes, quilt_error) result" where
  "write_cells n_rows row_size symbol_size data bs current_col current_row offset =
     (if symbol_size = 0 then Inl QuiltPanic
      else if bs = [] then Inr data
      else
        let start_idx = current_row * row_size + current_col * symbol_size + offset;
            len = min (symbol_size - offset) (length bs)
        in
        if length data < start_idx + len then Inl QuiltPanic
        else
          let current_row' = (current_row + 1) mod n_rows;
              current_col' = (if current_row' = 0 then current_col + 1 else current_col)
          in write_cells n_rows row_size symbol_size
               (take start_idx data @ take len bs @ drop (start_idx + len) data) (drop len bs) current_col' current_row' 0)"
  by pat_completeness auto
termination
proof (relation "(\<lambda>(n, rs, s, data, bs, c, r, off). length bs) <*mlex*> measure (\<lambda>(n, rs, s, data, bs, c, r, off). off)")
  fix n rs s :: nat and data bs :: bytes and c r off len r' c' d
  assume a: "s \<noteq> 0" "bs \<noteq> []" "len = min (s - off) (length bs)"
  then have "0 < len \<or> 0 < off" by (cases bs) auto
  with a show "((n, rs, s, d, drop len bs, c', r', 0), n, rs, s, data, bs, c, r, off) \<in>
      (\<lambda>(n, rs, s, data, bs, c, r, off). length bs) <*mlex*> measure (\<lambda>(n, rs, s, data, bs, c, r, off). off)"
    by (cases "0 < len") (auto simp: mlex_prod_def)
qed (simp add: wf_mlex)

declare write_cells.simps [simp del]

definition write_bytes_to_columns ::
  "bytes \<Rightarrow> bytes \<Rightarrow> nat \<Rightarrow> nat \<Rightarrow> nat \<Rightarrow> nat \<Rightarrow> nat \<Rightarrow> (bytes, quilt_error) result" where
  "write_bytes_to_columns data bs start_col row_size column_size symbol_size bytes_to_skip =
     (if symbol_size = 0 \<or> column_size = 0 then Inl QuiltPanic
      else
        let n_rows = column_size div symbol_size; n_cols = row_size div symbol_size;
            current_col = start_col + bytes_to_skip div column_size in
        and_then (ensure (current_col < n_cols) QuiltPanic) (\<lambda>_.
        and_then (ensure (n_rows \<noteq> 0) QuiltPanic) (\<lambda>_.
        let current_row = (bytes_to_skip div symbol_size) mod n_rows; offset = bytes_to_skip mod symbol_size in
        write_cells n_rows row_size symbol_size data bs current_col current_row offset)))"

record quilt_v1 =
  q_data :: bytes
  q_row_size :: nat
  q_symbol_size :: nat
  q_index :: "quilt_patch_v1 list option"

text \<open>
  The loop of \<^verbatim>\<open>range_read_from_columns\<close> of a quilt. A slice that ends before it starts panics. An
  empty quilt has been refused before the loop.
\<close>

definition get_slice :: "quilt_v1 \<Rightarrow> nat \<Rightarrow> nat \<Rightarrow> nat \<Rightarrow> nat \<Rightarrow> (bytes, quilt_error) result" where
  "get_slice q col row skip limit =
     (let base_index = row * q_row_size q + col * q_symbol_size q;
          start_index = base_index + skip;
          end_index = min (min (base_index + q_symbol_size q) (start_index + limit)) (length (q_data q)) in
      if start_index \<ge> length (q_data q) then Inl (IndexOutOfBounds start_index (length (q_data q)))
      else if end_index < start_index then Inl QuiltPanic
      else Inr (take (end_index - start_index) (drop start_index (q_data q))))"

lemma get_slice_progress:
  assumes "get_slice q col row skip limit = Inr x" and "0 < limit" and "0 < q_symbol_size q"
  shows "x \<noteq> [] \<or> 0 < skip" and "length x \<le> limit"
  using assms by (auto simp: get_slice_def Let_def split: if_splits)

function read_cells :: "quilt_v1 \<Rightarrow> nat \<Rightarrow> nat \<Rightarrow> nat \<Rightarrow> nat \<Rightarrow> nat \<Rightarrow> bytes \<Rightarrow> (bytes, quilt_error) result" where
  "read_cells q n_rows current_col current_row bytes_to_skip bytes_to_return acc =
     (if q_symbol_size q = 0 then Inl (QuiltOther ''empty quilt data'')
      else if bytes_to_return = 0 then Inr acc
      else
        case get_slice q current_col current_row bytes_to_skip bytes_to_return of
          Inl e \<Rightarrow> Inl e
        | Inr piece \<Rightarrow>
            let current_row' = (current_row + 1) mod n_rows;
                current_col' = (if current_row' = 0 then current_col + 1 else current_col)
            in read_cells q n_rows current_col' current_row' 0 (bytes_to_return - length piece) (acc @ piece))"
  by pat_completeness auto
termination
proof (relation "(\<lambda>(q, n, c, r, skip, ret, acc). ret) <*mlex*> measure (\<lambda>(q, n, c, r, skip, ret, acc). skip)")
  fix q n c r skip ret acc x ya xa
  assume a: "q_symbol_size q \<noteq> 0" "ret \<noteq> 0" "get_slice q c r skip ret = Inr x"
  show "((q, n, xa, ya, 0, ret - length x, acc @ x), q, n, c, r, skip, ret, acc) \<in>
      (\<lambda>(q, n, c, r, skip, ret, acc). ret) <*mlex*> measure (\<lambda>(q, n, c, r, skip, ret, acc). skip)"
    using get_slice_progress [OF a(3)] a(1,2) by (cases x) (auto simp: mlex_prod_def)
qed (simp add: wf_mlex)

declare read_cells.simps [simp del]

definition range_read_from_columns :: "quilt_v1 \<Rightarrow> nat \<Rightarrow> nat \<Rightarrow> nat \<Rightarrow> (bytes, quilt_error) result" where
  "range_read_from_columns q start_col bytes_to_skip bytes_to_return =
     (if q_symbol_size q = 0 \<or> q_row_size q = 0 \<or> q_data q = [] then Inl (QuiltOther ''empty quilt data'')
      else
        let n_rows = length (q_data q) div q_row_size q; symbols_to_skip = bytes_to_skip div q_symbol_size q in
        if n_rows = 0 then Inl QuiltPanic
        else read_cells q n_rows (start_col + symbols_to_skip div n_rows) (symbols_to_skip mod n_rows)
               (bytes_to_skip - symbols_to_skip * q_symbol_size q) bytes_to_return [])"

section \<open>The matrix read column by column\<close>

text \<open>Cell \<open>g\<close> in column order is cell \<open>qcell g\<close> in row order; byte \<open>p\<close> moves with its cell.\<close>

definition qcell :: "nat \<Rightarrow> nat \<Rightarrow> nat \<Rightarrow> nat" where
  "qcell nr nc g = (g mod nr) * nc + g div nr"

definition qindex :: "nat \<Rightarrow> nat \<Rightarrow> nat \<Rightarrow> nat \<Rightarrow> nat" where
  "qindex nr nc s p = qcell nr nc (p div s) * s + p mod s"

definition column_stream :: "nat \<Rightarrow> nat \<Rightarrow> nat \<Rightarrow> bytes \<Rightarrow> bytes" where
  "column_stream nr nc s data = map (\<lambda>p. data ! qindex nr nc s p) [0..<nr * nc * s]"

lemma length_column_stream [simp]: "length (column_stream nr nc s data) = nr * nc * s"
  by (simp add: column_stream_def)

lemma qcell_less:
  assumes "g < nr * nc" shows "qcell nr nc g < nr * nc"
proof -
  have "0 < nr" using assms by (cases nr) auto
  then have "g div nr < nc" "g mod nr < nr" using assms by (simp_all add: mult.commute less_mult_imp_div_less)
  then have "(g mod nr) * nc + g div nr < (g mod nr + 1) * nc" by simp
  also have "\<dots> \<le> nr * nc" using \<open>g mod nr < nr\<close> by (intro mult_le_mono1) simp
  finally show ?thesis by (simp add: qcell_def)
qed

lemma qcell_inject:
  assumes "g < nr * nc" and "h < nr * nc" and "qcell nr nc g = qcell nr nc h" shows "g = h"
proof -
  have d: "g div nr < nc" "h div nr < nc" using assms by (simp_all add: mult.commute less_mult_imp_div_less)
  have "(qcell nr nc k) mod nc = k div nr" "(qcell nr nc k) div nc = k mod nr" if "k div nr < nc" for k
    using that by (simp_all add: qcell_def)
  from this [OF d(1)] this [OF d(2)] assms(3) have "g div nr = h div nr" "g mod nr = h mod nr" by simp_all
  then show ?thesis by (metis div_mult_mod_eq)
qed

lemma qindex_less:
  assumes "p < nr * nc * s" shows "qindex nr nc s p < nr * nc * s"
proof -
  have s: "0 < s" using assms by (cases s) auto
  have "p div s < nr * nc" using assms by (simp add: less_mult_imp_div_less)
  then have "qcell nr nc (p div s) * s + s \<le> nr * nc * s" using qcell_less [of "p div s" nr nc]
    by (metis Suc_leI add.commute mult_Suc mult_le_mono1)
  then show ?thesis using mod_less_divisor [OF s, of p] unfolding qindex_def by linarith
qed

lemma qindex_inject:
  assumes "p < nr * nc * s" and "q < nr * nc * s" and eq: "qindex nr nc s p = qindex nr nc s q" shows "p = q"
proof -
  have s: "0 < s" using assms(1) by (cases s) auto
  have "qindex nr nc s k div s = qcell nr nc (k div s)" "qindex nr nc s k mod s = k mod s" for k
    using s by (simp_all add: qindex_def)
  from this [of p] this [of q] eq have c: "qcell nr nc (p div s) = qcell nr nc (q div s)" and m: "p mod s = q mod s" by simp_all
  have "p div s < nr * nc" "q div s < nr * nc" using assms(1,2) by (simp_all add: less_mult_imp_div_less)
  then have "p div s = q div s" using c by (rule qcell_inject)
  with m show ?thesis by (metis div_mult_mod_eq)
qed

lemma qindex_in_cell: "p mod s + k < s \<Longrightarrow> qindex nr nc s (p + k) = qindex nr nc s p + k"
proof -
  assume a: "p mod s + k < s"
  have e: "p + k = (p mod s + k) + p div s * s" by simp
  have "(p + k) div s = (p mod s + k) div s + p div s" "(p + k) mod s = (p mod s + k) mod s"
    using a by (simp_all only: e div_mult_self1 mod_mult_self1)
  then have "(p + k) div s = p div s" "(p + k) mod s = p mod s + k" using a by simp_all
  then show ?thesis by (simp add: qindex_def)
qed

definition overwrite :: "bytes \<Rightarrow> nat \<Rightarrow> bytes \<Rightarrow> bytes" where
  "overwrite xs p bs = take p xs @ bs @ drop (p + length bs) xs"

lemma length_overwrite [simp]: "p + length bs \<le> length xs \<Longrightarrow> length (overwrite xs p bs) = length xs"
  by (simp add: overwrite_def)

lemma nth_overwrite:
  "p + length bs \<le> length xs \<Longrightarrow> i < length xs \<Longrightarrow>
   overwrite xs p bs ! i = (if p \<le> i \<and> i < p + length bs then bs ! (i - p) else xs ! i)"
  by (auto simp: overwrite_def nth_append)

lemma overwrite_append:
  "p + length as + length bs \<le> length xs \<Longrightarrow> overwrite (overwrite xs p as) (p + length as) bs = overwrite xs p (as @ bs)"
  by (rule nth_equalityI) (auto simp: nth_overwrite nth_append)

lemma overwrite_nil [simp]: "overwrite xs p [] = xs"
  by (simp add: overwrite_def)

lemma column_stream_overwrite:
  assumes len: "length data = nr * nc * s" and fit: "p mod s + length bs \<le> s" and p: "p + length bs \<le> nr * nc * s"
  shows "qindex nr nc s p + length bs \<le> length data \<or> bs = []"
    and "bs \<noteq> [] \<Longrightarrow> column_stream nr nc s (overwrite data (qindex nr nc s p) bs) = overwrite (column_stream nr nc s data) p bs"
proof -
  let ?i = "qindex nr nc s p" let ?n = "nr * nc * s"
  have at: "qindex nr nc s (p + k) = ?i + k" if "k < length bs" for k using that fit by (intro qindex_in_cell) simp
  have b: "?i + length bs \<le> length data" if "bs \<noteq> []"
  proof -
    have l: "0 < length bs" using that by simp
    then have "p + (length bs - 1) < ?n" using p by linarith
    then have "?i + (length bs - 1) < ?n" using at [of "length bs - 1"] qindex_less [of "p + (length bs - 1)" nr nc s] l
      by (metis diff_less zero_less_one)
    then show ?thesis using len that by (cases bs) auto
  qed
  then show "?i + length bs \<le> length data \<or> bs = []" by blast
  assume ne: "bs \<noteq> []"
  note b = b [OF ne]
  show "column_stream nr nc s (overwrite data ?i bs) = overwrite (column_stream nr nc s data) p bs"
  proof (rule nth_equalityI)
    fix q assume "q < length (column_stream nr nc s (overwrite data ?i bs))"
    then have q: "q < ?n" by simp
    have "?i \<le> qindex nr nc s q \<and> qindex nr nc s q < ?i + length bs \<longleftrightarrow> p \<le> q \<and> q < p + length bs"
    proof
      assume a: "?i \<le> qindex nr nc s q \<and> qindex nr nc s q < ?i + length bs"
      define k where "k = qindex nr nc s q - ?i"
      have k: "k < length bs" "qindex nr nc s q = qindex nr nc s (p + k)" using a at [of k] by (auto simp: k_def)
      then have "q = p + k" using qindex_inject [OF q _ k(2)] p by simp
      then show "p \<le> q \<and> q < p + length bs" using k(1) by simp
    next
      assume "p \<le> q \<and> q < p + length bs"
      then show "?i \<le> qindex nr nc s q \<and> qindex nr nc s q < ?i + length bs" using at [of "q - p"] by auto
    qed
    moreover have "qindex nr nc s q - ?i = q - p" if "p \<le> q" "q < p + length bs" using at [of "q - p"] that by auto
    ultimately show "column_stream nr nc s (overwrite data ?i bs) ! q = overwrite (column_stream nr nc s data) p bs ! q"
      using q qindex_less [OF q] b len p by (simp add: column_stream_def nth_overwrite)
  qed (use p in simp)
qed

lemma column_stream_slice:
  assumes len: "length data = nr * nc * s" and fit: "p mod s + k \<le> s" and p: "p + k \<le> nr * nc * s" and k: "0 < k"
  shows "take k (drop (qindex nr nc s p) data) = take k (drop p (column_stream nr nc s data))"
    and "qindex nr nc s p + k \<le> length data"
proof -
  have at: "qindex nr nc s (p + j) = qindex nr nc s p + j" if "j < k" for j using that fit by (intro qindex_in_cell) simp
  have "p + (k - 1) < nr * nc * s" using k p by linarith
  then have "qindex nr nc s p + (k - 1) < nr * nc * s" using at [of "k - 1"] qindex_less [of "p + (k - 1)" nr nc s] k by (metis diff_less zero_less_one)
  then show b: "qindex nr nc s p + k \<le> length data" using len k by simp
  show "take k (drop (qindex nr nc s p) data) = take k (drop p (column_stream nr nc s data))"
  proof (rule nth_equalityI)
    fix j assume "j < length (take k (drop (qindex nr nc s p) data))"
    then have j: "j < k" by simp
    then show "take k (drop (qindex nr nc s p) data) ! j = take k (drop p (column_stream nr nc s data)) ! j"
      using b p at [OF j] by (simp add: column_stream_def)
  qed (use b p in simp)
qed

section \<open>The loops on the column order\<close>

lemma cell_position:
  assumes "0 < (s :: nat)" and "off < s"
  shows "(g * s + off) div s = g" and "(g * s + off) mod s = off"
  by (simp_all add: assms)

lemma qindex_cell:
  "0 < s \<Longrightarrow> off < s \<Longrightarrow> qindex nr nc s (g * s + off) = (g mod nr) * (nc * s) + (g div nr) * s + off"
  by (simp add: qindex_def qcell_def algebra_simps)

lemma next_cell:
  assumes "0 < nr" and "r = (g mod nr + 1) mod nr"
  shows "r = Suc g mod nr" and "(if Suc g mod nr = 0 then g div nr + 1 else g div nr) = Suc g div nr"
  using assms by (simp_all add: mod_Suc div_Suc)

lemma write_cells_step:
  assumes "0 < nr" and "0 < s" and "bs \<noteq> []" and i: "i = (g mod nr) * rs + (g div nr) * s + off"
    and len: "len = min (s - off) (length bs)" and ib: "i + len \<le> length data"
  shows "write_cells nr rs s data bs (g div nr) (g mod nr) off =
    write_cells nr rs s (take i data @ take len bs @ drop (i + len) data) (drop len bs) (Suc g div nr) (Suc g mod nr) 0"
proof -
  have n: "\<not> length data < i + len" using ib by simp
  show ?thesis
    by (subst write_cells.simps)
      (simp only: Let_def i [symmetric] len [symmetric] n next_cell [OF assms(1) refl] assms(2,3) if_False
        neq0_conv [THEN iffD2, OF assms(2)] cong: if_cong)
qed

lemma write_cells_stream:
  assumes "0 < nr" and "0 < s" and "length data = nr * nc * s" and "off < s" and "g * s + off + length bs \<le> nr * nc * s"
  shows "\<exists>data'. write_cells nr (nc * s) s data bs (g div nr) (g mod nr) off = Inr data' \<and> length data' = nr * nc * s \<and>
    column_stream nr nc s data' = overwrite (column_stream nr nc s data) (g * s + off) bs"
  using assms
proof (induction "length bs" arbitrary: data bs g off rule: less_induct)
  case less
  show ?case
  proof (cases "bs = []")
    case True
    then show ?thesis using less.prems by (simp add: write_cells.simps)
  next
    case False
    define len where "len = min (s - off) (length bs)"
    define p where "p = g * s + off"
    define i where "i = (g mod nr) * (nc * s) + (g div nr) * s + off"
    define d where "d = take i data @ take len bs @ drop (i + len) data"
    have len: "0 < len" "length (take len bs) = len" "len \<le> s - off"
      using less.prems(4) False by (simp_all add: len_def)
    have i: "i = qindex nr nc s p" unfolding i_def p_def by (rule qindex_cell [OF less.prems(2,4), symmetric])
    have fit: "p mod s + length (take len bs) \<le> s" using len(2,3) less.prems(4) unfolding p_def cell_position(2) [OF less.prems(2,4)] by linarith
    have pb: "p + length (take len bs) \<le> nr * nc * s" using less.prems(5) len(2) unfolding p_def len_def by simp
    have ne: "take len bs \<noteq> []" using len(1,2) by (metis length_0_conv less_irrefl)
    note ov = column_stream_overwrite [OF less.prems(3) fit pb]
    have ib: "i + len \<le> length data" using ov(1) ne unfolding i len(2) by blast
    have d: "d = overwrite data (qindex nr nc s p) (take len bs)" unfolding overwrite_def d_def i len(2) ..
    have dl: "length d = nr * nc * s" using ib less.prems(3) len(2) by (simp add: d_def)
    have ds: "column_stream nr nc s d = overwrite (column_stream nr nc s data) p (take len bs)" unfolding d by (rule ov(2) [OF ne])
    note step = write_cells_step [OF less.prems(1,2) False i_def len_def ib, folded d_def]
    show ?thesis
    proof (cases "length bs \<le> s - off")
      case True
      then have "len = length bs" by (simp add: len_def)
      then show ?thesis using step dl ds less.prems(2) by (simp add: write_cells.simps p_def)
    next
      case 2: False
      then have ls: "len = s - off" by (simp add: len_def)
      have pn: "Suc g * s + 0 = p + len" using less.prems(4) by (simp add: ls p_def)
      have lb: "p + len + length (drop len bs) \<le> nr * nc * s" using less.prems(5) 2 by (simp add: p_def ls)
      have "length (drop len bs) < length bs" using len(1) False by simp
      from less.hyps [OF this less.prems(1,2) dl less.prems(2) lb [folded pn]]
      obtain data' where data': "write_cells nr (nc * s) s d (drop len bs) (Suc g div nr) (Suc g mod nr) 0 = Inr data'"
        "length data' = nr * nc * s" "column_stream nr nc s data' = overwrite (column_stream nr nc s d) (p + len) (drop len bs)"
        unfolding pn by blast
      have "overwrite (column_stream nr nc s d) (p + len) (drop len bs) = overwrite (column_stream nr nc s data) p (take len bs @ drop len bs)"
        unfolding ds using overwrite_append [of p "take len bs" "drop len bs" "column_stream nr nc s data"] lb len(2) by simp
      then show ?thesis using step data' by (simp add: p_def)
    qed
  qed
qed

text \<open>Writing within the matrix overwrites a range of the column order.\<close>

lemma write_bytes_stream:
  assumes "0 < nr" and "0 < s" and len: "length data = nr * nc * s"
    and fit: "start * (nr * s) + skip + length bs \<le> nr * nc * s" and col: "start * (nr * s) + skip < nr * nc * s"
  obtains data' where "write_bytes_to_columns data bs start (nc * s) (nr * s) s skip = Inr data'" and "length data' = nr * nc * s"
    and "column_stream nr nc s data' = overwrite (column_stream nr nc s data) (start * (nr * s) + skip) bs"
proof -
  let ?g = "start * nr + skip div s" let ?off = "skip mod s"
  have p: "?g * s + ?off = start * (nr * s) + skip" by (simp add: algebra_simps)
  have g: "?g div nr = start + skip div (nr * s)" "?g mod nr = (skip div s) mod nr"
    using assms(1) by (simp_all add: div_mult2_eq mult.commute [of nr])
  have off: "?off < s" using assms(2) by simp
  obtain data' where w: "write_cells nr (nc * s) s data bs (?g div nr) (?g mod nr) ?off = Inr data'" "length data' = length data"
    "column_stream nr nc s data' = overwrite (column_stream nr nc s data) (start * (nr * s) + skip) bs"
    using write_cells_stream [OF assms(1,2) len off, of ?g bs] fit unfolding p len by blast
  have "?g * s < nr * nc * s" using col p by linarith
  then have "?g < nc * nr" using assms(2) by (simp add: mult.commute)
  then have "start + skip div (nr * s) < nc" unfolding g(1) [symmetric] by (rule less_mult_imp_div_less)
  then have "write_bytes_to_columns data bs start (nc * s) (nr * s) s skip = Inr data'"
    using assms(1,2) w(1) unfolding g by (simp add: write_bytes_to_columns_def Let_def)
  then show ?thesis using that w(2,3) len p by simp
qed

lemma read_cells_stream:
  assumes "0 < nr" and "0 < s" and "length (q_data q) = nr * nc * s" and "q_row_size q = nc * s" and "q_symbol_size q = s"
    and "off < s" and "g * s + off + ret \<le> nr * nc * s"
  shows "read_cells q nr (g div nr) (g mod nr) off ret acc = Inr (acc @ take ret (drop (g * s + off) (column_stream nr nc s (q_data q))))"
  using assms
proof (induction ret arbitrary: g off acc rule: less_induct)
  case (less ret)
  let ?p = "g * s + off" let ?k = "min (s - off) ret" let ?S = "column_stream nr nc s (q_data q)"
  show ?case
  proof (cases "ret = 0")
    case False
    have i: "(g mod nr) * q_row_size q + (g div nr) * q_symbol_size q + off = qindex nr nc s ?p"
      using less.prems by (simp only: qindex_cell)
    have k: "0 < ?k" "?p mod s + ?k \<le> s" "?p + ?k \<le> nr * nc * s" using less.prems False cell_position [of s off g] by auto
    note sl = column_stream_slice [OF less.prems(3) k(2,3,1)]
    have piece: "get_slice q (g div nr) (g mod nr) off ret = Inr (take ?k (drop ?p ?S))"
    proof -
      let ?b = "(g mod nr) * q_row_size q + (g div nr) * q_symbol_size q"
      have "min (min (?b + q_symbol_size q) (?b + off + ret)) (length (q_data q)) = ?b + off + ?k"
        using sl(2) less.prems(6) unfolding i [symmetric] less.prems(5) by linarith
      moreover have "\<not> length (q_data q) \<le> ?b + off" using sl(2) k(1) unfolding i [symmetric] by linarith
      ultimately show ?thesis using sl(1) by (simp add: get_slice_def Let_def i [symmetric])
    qed
    have lp: "length (take ?k (drop ?p ?S)) = ?k" using k(3) by simp
    have "read_cells q nr (g div nr) (g mod nr) off ret acc =
        read_cells q nr (Suc g div nr) (Suc g mod nr) 0 (ret - ?k) (acc @ take ?k (drop ?p ?S))"
      using False less.prems(2,5) piece lp next_cell [OF less.prems(1) refl, of g] by (subst read_cells.simps) (simp add: Let_def)
    also have "\<dots> = Inr (acc @ take ret (drop ?p ?S))"
    proof (cases "ret \<le> s - off")
      case True
      then show ?thesis using less.prems(2,5) by (simp add: read_cells.simps)
    next
      case 2: False
      then have ks: "?k = s - off" by simp
      have n: "Suc g * s + 0 = ?p + ?k" using less.prems(6) by (simp add: ks)
      have "read_cells q nr (Suc g div nr) (Suc g mod nr) 0 (ret - ?k) (acc @ take ?k (drop ?p ?S)) =
          Inr ((acc @ take ?k (drop ?p ?S)) @ take (ret - ?k) (drop (Suc g * s + 0) ?S))"
        by (rule less.IH) (use less.prems k n False in auto)
      moreover have "take ?k (drop ?p ?S) @ take (ret - ?k) (drop (Suc g * s + 0) ?S) = take ret (drop ?p ?S)"
        unfolding n using take_add [of ?k "ret - ?k" "drop ?p ?S"] by (simp add: add.commute)
      ultimately show ?thesis by (simp only: append_assoc)
    qed
    finally show ?thesis .
  qed (use less.prems in \<open>simp add: read_cells.simps\<close>)
qed

definition quilt_shape :: "nat \<Rightarrow> nat \<Rightarrow> nat \<Rightarrow> quilt_v1 \<Rightarrow> bool" where
  "quilt_shape nr nc s q \<longleftrightarrow> 0 < nr \<and> 0 < nc \<and> 0 < s \<and> length (q_data q) = nr * nc * s \<and> q_row_size q = nc * s \<and> q_symbol_size q = s"

lemma range_read_stream:
  assumes q: "quilt_shape nr nc s q" and fit: "start * (nr * s) + skip + ret \<le> nr * nc * s"
  shows "range_read_from_columns q start skip ret = Inr (take ret (drop (start * (nr * s) + skip) (column_stream nr nc s (q_data q))))"
proof -
  note q = q [unfolded quilt_shape_def]
  let ?g = "start * nr + skip div s" let ?off = "skip mod s"
  have p: "?g * s + ?off = start * (nr * s) + skip" by (simp add: algebra_simps)
  have g: "?g div nr = start + skip div s div nr" "?g mod nr = (skip div s) mod nr" using q by simp_all
  have nr: "length (q_data q) div q_row_size q = nr" using q by (simp add: mult.assoc)
  have "q_data q \<noteq> []" using q by (cases "q_data q") auto
  moreover have "skip - skip div s * s = ?off" by (simp add: minus_div_mult_eq_mod)
  ultimately show ?thesis
    using read_cells_stream [of nr s q nc ?off ?g ret "[]"] q fit p nr unfolding g
    by (simp add: range_read_from_columns_def Let_def)
qed

end
