(* ===== verification/Quilt_Search.thy ===== *)
theory Quilt_Search
  imports Walrus_Metadata
begin

text \<open>
  The choice of the symbol size of a quilt, module \<^verbatim>\<open>utils\<close> of
  \<^verbatim>\<open>walrus-core/src/encoding/quilt_encoding.rs\<close>: a binary search, shown to find the least aligned
  symbol size at which the index and all blobs fit, each in columns of its own.

  The numbers of columns and rows are \<^verbatim>\<open>NonZeroU16\<close> values in the caller, and the lower bound of the
  search is positive, so no division is by zero. Sums and products of lengths of vectors in memory
  and 16-bit counts do not overflow 64 bits.
\<close>

definition QUILT_INDEX_SIZE_BYTES_LENGTH :: nat where
  "QUILT_INDEX_SIZE_BYTES_LENGTH = 4"

definition QUILT_VERSION_BYTES_LENGTH :: nat where
  "QUILT_VERSION_BYTES_LENGTH = 1"

definition QUILT_INDEX_PREFIX_SIZE :: nat where
  "QUILT_INDEX_PREFIX_SIZE = QUILT_INDEX_SIZE_BYTES_LENGTH + QUILT_VERSION_BYTES_LENGTH"

definition MAX_NUM_SLIVERS_FOR_QUILT_INDEX :: nat where
  "MAX_NUM_SLIVERS_FOR_QUILT_INDEX = 10"

definition can_blobs_fit_into_matrix :: "nat list \<Rightarrow> nat \<Rightarrow> nat \<Rightarrow> bool" where
  "can_blobs_fit_into_matrix blobs_sizes n_columns column_size \<longleftrightarrow>
     sum_list (map (\<lambda>blob_size. div_ceil blob_size column_size) blobs_sizes) \<le> n_columns"

text \<open>The \<^verbatim>\<open>while\<close> loop of the search.\<close>

function search_symbol_size :: "nat list \<Rightarrow> nat \<Rightarrow> nat \<Rightarrow> nat \<Rightarrow> nat \<Rightarrow> nat" where
  "search_symbol_size blobs_sizes n_columns n_rows min_val max_val =
     (if min_val < max_val then
        let mid = (min_val + max_val) div 2 in
        if can_blobs_fit_into_matrix blobs_sizes n_columns (mid * n_rows)
        then search_symbol_size blobs_sizes n_columns n_rows min_val mid
        else search_symbol_size blobs_sizes n_columns n_rows (mid + 1) max_val
      else min_val)"
  by pat_completeness auto
termination
  by (relation "measure (\<lambda>(b, c, r, lo, hi). hi - lo)") auto

declare search_symbol_size.simps [simp del]

definition quilt_compute_symbol_size ::
  "nat list \<Rightarrow> nat \<Rightarrow> nat \<Rightarrow> nat \<Rightarrow> encoding_type \<Rightarrow> (nat, quilt_error) result" where
  "quilt_compute_symbol_size blobs_sizes n_columns n_rows max_num_columns_for_quilt_index e =
     (if n_columns < length blobs_sizes then Inl (TooManyBlobs (length blobs_sizes - 1) (n_columns - 1))
      else if blobs_sizes = [] then Inl (quilt_error.EmptyInput ''blobs'')
      else
        let min_val = max (div_ceil (sum_list blobs_sizes) (n_columns * n_rows))
                          (div_ceil (hd blobs_sizes) (n_rows * max_num_columns_for_quilt_index));
            min_val = max min_val (div_ceil QUILT_INDEX_PREFIX_SIZE n_rows);
            max_val = div_ceil (Max (set blobs_sizes)) (n_columns div length blobs_sizes * n_rows);
            symbol_size = next_multiple_of (search_symbol_size blobs_sizes n_columns n_rows min_val max_val) (required_alignment e)
        in if symbol_size > max_symbol_size e then Inl QuiltOversize else Inr symbol_size)"

section \<open>The search\<close>

lemma div_ceil_mono:
  assumes "0 < c" and "c \<le> d" shows "div_ceil a d \<le> div_ceil a c"
proof -
  have "a \<le> div_ceil a c * c" using assms(1) by (rule div_ceil_mult_ge)
  also have "\<dots> \<le> div_ceil a c * d" using assms(2) by simp
  finally show ?thesis using assms by (simp add: div_ceil_le_iff)
qed

lemma fit_mono:
  "can_blobs_fit_into_matrix bs nc c \<Longrightarrow> 0 < c \<Longrightarrow> c \<le> d \<Longrightarrow> can_blobs_fit_into_matrix bs nc d"
  unfolding can_blobs_fit_into_matrix_def by (meson div_ceil_mono order_trans sum_list_mono)

text \<open>The lower bound by the total size, and the upper bound by equal shares.\<close>

lemma fit_total:
  assumes "can_blobs_fit_into_matrix bs nc c" and "0 < c" shows "sum_list bs \<le> nc * c"
proof -
  have "sum_list bs \<le> sum_list (map (\<lambda>b. div_ceil b c * c) bs)" using assms(2)
    by (induction bs) (simp_all add: add_mono div_ceil_mult_ge)
  also have "\<dots> = sum_list (map (\<lambda>b. div_ceil b c) bs) * c" by (simp add: sum_list_mult_const)
  also have "\<dots> \<le> nc * c" using assms(1) by (simp add: can_blobs_fit_into_matrix_def)
  finally show ?thesis .
qed

lemma fit_equal_shares:
  assumes "bs \<noteq> []" and "length bs \<le> nc" and "0 < c" and "Max (set bs) \<le> (nc div length bs) * c"
  shows "can_blobs_fit_into_matrix bs nc c"
proof -
  have "div_ceil b c \<le> nc div length bs" if "b \<in> set bs" for b
    unfolding div_ceil_le_iff [OF assms(3)] using Max_ge [of "set bs" b] that assms(4) by (meson List.finite_set order_trans)
  then have "sum_list (map (\<lambda>b. div_ceil b c) bs) \<le> sum_list (map (\<lambda>_. nc div length bs) bs)" by (intro sum_list_mono)
  also have "\<dots> = length bs * (nc div length bs)" by (simp add: sum_list_triv)
  also have "\<dots> \<le> nc" by (simp add: times_div_less_eq_dividend)
  finally show ?thesis by (simp add: can_blobs_fit_into_matrix_def)
qed

lemma search_symbol_size_least:
  assumes "0 < nr" and "0 < lo" and "can_blobs_fit_into_matrix bs nc (max lo hi * nr)"
  shows "can_blobs_fit_into_matrix bs nc (search_symbol_size bs nc nr lo hi * nr) \<and> lo \<le> search_symbol_size bs nc nr lo hi \<and>
    (\<forall>s. lo \<le> s \<and> s < search_symbol_size bs nc nr lo hi \<longrightarrow> \<not> can_blobs_fit_into_matrix bs nc (s * nr))"
  using assms
proof (induction bs nc nr lo hi rule: search_symbol_size.induct)
  case (1 bs nc nr lo hi)
  let ?mid = "(lo + hi) div 2"
  show ?case
  proof (cases "lo < hi")
    case True
    then have m: "lo \<le> ?mid" "?mid < hi" by auto
    show ?thesis
    proof (cases "can_blobs_fit_into_matrix bs nc (?mid * nr)")
      case fit: True
      then show ?thesis using "1.IH"(1) [OF True refl fit] "1.prems" True m search_symbol_size.simps [of bs nc nr lo hi]
        by (simp add: Let_def max_absorb2)
    next
      case False
      then have "\<not> can_blobs_fit_into_matrix bs nc (s * nr)" if "0 < s" "s \<le> ?mid" for s
        using fit_mono [of bs nc "s * nr" "?mid * nr"] that "1.prems"(1) by auto
      then show ?thesis using "1.IH"(2) [OF True refl False] "1.prems" True m False search_symbol_size.simps [of bs nc nr lo hi]
        by (simp add: Let_def max_absorb2) (metis Suc_leI not_le_imp_less order_less_le_trans)
    qed
  next
    case False
    then show ?thesis using "1.prems" search_symbol_size.simps [of bs nc nr lo hi] by (simp add: max_absorb1) (meson not_le)
  qed
qed

text \<open>What a symbol size has to meet: aligned, all parts fit, the index in few columns, its prefix in the first.\<close>

definition quilt_fits :: "nat list \<Rightarrow> nat \<Rightarrow> nat \<Rightarrow> nat \<Rightarrow> encoding_type \<Rightarrow> nat \<Rightarrow> bool" where
  "quilt_fits bs nc nr m e s \<longleftrightarrow> required_alignment e dvd s \<and> can_blobs_fit_into_matrix bs nc (s * nr) \<and>
     hd bs \<le> m * (s * nr) \<and> QUILT_INDEX_PREFIX_SIZE \<le> s * nr"

lemma quilt_symbol_size_value:
  assumes bs: "bs \<noteq> []" "length bs \<le> nc" and nr: "0 < nr" and m: "0 < m"
  shows "\<exists>s. quilt_fits bs nc nr m e s \<and> (\<forall>t < s. \<not> quilt_fits bs nc nr m e t) \<and>
    quilt_compute_symbol_size bs nc nr m e = (if s > max_symbol_size e then Inl QuiltOversize else Inr s)"
proof -
  define lo where "lo = max (max (div_ceil (sum_list bs) (nc * nr)) (div_ceil (hd bs) (nr * m))) (div_ceil QUILT_INDEX_PREFIX_SIZE nr)"
  define hi where "hi = div_ceil (Max (set bs)) (nc div length bs * nr)"
  define r where "r = search_symbol_size bs nc nr lo hi"
  let ?s = "next_multiple_of r (required_alignment e)"
  have a: "0 < required_alignment e" by (simp add: required_alignment_def)
  have nc: "0 < nc" "0 < nc div length bs" using bs by (simp_all add: div_greater_zero_iff)
      (metis length_greater_0_conv less_le_trans)+
  have lo_iff: "lo \<le> t \<longleftrightarrow> sum_list bs \<le> nc * (t * nr) \<and> hd bs \<le> m * (t * nr) \<and> QUILT_INDEX_PREFIX_SIZE \<le> t * nr" for t
    using nr nc m by (simp add: lo_def div_ceil_le_iff ac_simps)
  have lo: "0 < lo" using lo_iff [of 0] by (cases lo) (auto simp: QUILT_INDEX_PREFIX_SIZE_def QUILT_VERSION_BYTES_LENGTH_def)
  have "Max (set bs) \<le> hi * (nc div length bs * nr)" unfolding hi_def using nr nc by (simp add: div_ceil_mult_ge)
  also have "\<dots> = nc div length bs * (hi * nr)" by (simp add: ac_simps)
  also have "\<dots> \<le> nc div length bs * (max lo hi * nr)" by simp
  finally have "can_blobs_fit_into_matrix bs nc (max lo hi * nr)" using bs nr lo by (intro fit_equal_shares) auto
  note r = search_symbol_size_least [OF nr lo this, folded r_def]
  have rs: "r \<le> ?s" by (rule next_multiple_of_ge [OF a])
  have "quilt_fits bs nc nr m e ?s" unfolding quilt_fits_def
    using r lo_iff [of ?s] rs fit_mono [of bs nc "r * nr" "?s * nr"] lo nr next_multiple_of_dvd [OF a, of r] by auto
  moreover have "?s \<le> t" if t: "quilt_fits bs nc nr m e t" for t
  proof -
    have "0 < t * nr" using t by (simp add: quilt_fits_def QUILT_INDEX_PREFIX_SIZE_def QUILT_VERSION_BYTES_LENGTH_def)
        (metis Suc_le_D add_Suc_right nat_0_less_mult_iff neq0_conv old.nat.distinct(2))
    then have "lo \<le> t" using t fit_total [of bs nc "t * nr"] by (simp add: lo_iff quilt_fits_def)
    then have "r \<le> t" using r t by (meson not_le quilt_fits_def)
    then show ?thesis using t a by (simp add: next_multiple_of_le quilt_fits_def)
  qed
  moreover have "quilt_compute_symbol_size bs nc nr m e = (if ?s > max_symbol_size e then Inl QuiltOversize else Inr ?s)"
    using bs by (simp add: quilt_compute_symbol_size_def Let_def lo_def [symmetric] hi_def [symmetric] r_def [symmetric] not_less)
  ultimately show ?thesis by (meson leD)
qed

lemma quilt_symbol_size_iff:
  assumes bs: "bs \<noteq> []" "length bs \<le> nc" and nr: "0 < nr" and m: "0 < m"
  shows "quilt_compute_symbol_size bs nc nr m e = Inr s \<longleftrightarrow>
      s \<le> max_symbol_size e \<and> quilt_fits bs nc nr m e s \<and> (\<forall>t < s. \<not> quilt_fits bs nc nr m e t)"
    and "quilt_compute_symbol_size bs nc nr m e = Inl err \<longleftrightarrow>
      err = QuiltOversize \<and> (\<forall>t \<le> max_symbol_size e. \<not> quilt_fits bs nc nr m e t)"
proof -
  obtain r where r: "quilt_fits bs nc nr m e r" "\<forall>t < r. \<not> quilt_fits bs nc nr m e t"
    "quilt_compute_symbol_size bs nc nr m e = (if r > max_symbol_size e then Inl QuiltOversize else Inr r)"
    using quilt_symbol_size_value [OF assms] by blast
  have least: "t = r" if "quilt_fits bs nc nr m e t" "\<forall>u < t. \<not> quilt_fits bs nc nr m e u" for t
    using that r(1,2) by (meson linorder_neqE_nat)
  show "quilt_compute_symbol_size bs nc nr m e = Inr s \<longleftrightarrow>
      s \<le> max_symbol_size e \<and> quilt_fits bs nc nr m e s \<and> (\<forall>t < s. \<not> quilt_fits bs nc nr m e t)"
    using least [of s] r by (cases "r > max_symbol_size e") (auto simp only: not_less if_True if_False sum.simps)
  show "quilt_compute_symbol_size bs nc nr m e = Inl err \<longleftrightarrow>
      err = QuiltOversize \<and> (\<forall>t \<le> max_symbol_size e. \<not> quilt_fits bs nc nr m e t)"
  proof (cases "r > max_symbol_size e")
    case True
    then have "\<not> quilt_fits bs nc nr m e t" if "t \<le> max_symbol_size e" for t using r(2) that le_less_trans by blast
    with True show ?thesis by (auto simp: r(3))
  next
    case False
    with r(1) show ?thesis by (auto simp: r(3) not_less)
  qed
qed

text \<open>
  C20: The symbol size search terminates with the least symbol size that works. For at least one
  part and at most as many as columns, \<^verbatim>\<open>compute_symbol_size\<close> returns \<open>s\<close> exactly when \<open>s\<close> is the
  smallest aligned size, at most the largest symbol size, at which every part gets columns of
  its own, the index takes no more than its share of columns and its prefix lies in the first; it
  reports an oversized quilt exactly when no size up to the maximum works, and has no other outcome.
\<close>

theorem quilt_symbol_size_least:
  assumes "bs \<noteq> []" and "length bs \<le> nc" and "0 < nr" and "0 < m"
  shows "(quilt_compute_symbol_size bs nc nr m e = Inr s \<longleftrightarrow>
      s \<le> max_symbol_size e \<and> quilt_fits bs nc nr m e s \<and> (\<forall>t < s. \<not> quilt_fits bs nc nr m e t)) \<and>
    (quilt_compute_symbol_size bs nc nr m e = Inl err \<longleftrightarrow>
      err = QuiltOversize \<and> (\<forall>t \<le> max_symbol_size e. \<not> quilt_fits bs nc nr m e t))"
  using quilt_symbol_size_iff [OF assms] by blast

theorem quilt_symbol_size_least_witness:
  "quilt_compute_symbol_size [40, 13, 100] 3 2 10 RS2 = Inr 50 \<and> \<not> quilt_fits [40, 13, 100] 3 2 10 RS2 48"
proof -
  have s: "quilt_compute_symbol_size [40, 13, 100] 3 2 10 RS2 = Inr 50"
  proof -
    note step = search_symbol_size.simps [where blobs_sizes = "[40, 13, 100]" and n_columns = 3 and n_rows = 2 and max_val = 50]
    have "search_symbol_size [40, 13, 100] 3 2 26 50 = 50"
      by (simp add: step [of 26] step [of 39] step [of 45] step [of 48] step [of 50] can_blobs_fit_into_matrix_def div_ceil_def)
    then show ?thesis
      by (simp add: quilt_compute_symbol_size_def div_ceil_def next_multiple_of_def QUILT_INDEX_PREFIX_SIZE_def
          QUILT_INDEX_SIZE_BYTES_LENGTH_def QUILT_VERSION_BYTES_LENGTH_def required_alignment_def max_symbol_size_def)
  qed
  have "[40, 13, 100 :: nat] \<noteq> []" "length [40, 13, 100 :: nat] \<le> 3" "0 < (2 :: nat)" "0 < (10 :: nat)" by simp_all
  from quilt_symbol_size_least [OF this, THEN conjunct1, THEN iffD1, OF s]
  have "\<forall>t < 50. \<not> quilt_fits [40, 13, 100] 3 2 10 RS2 t" by blast
  from this [rule_format, of 48] s show ?thesis by simp
qed

end
