(* ===== verification/Quilt.thy ===== *)
theory Quilt
  imports Quilt_Layout Quilt_Search Blob_Encoding "HOL-Library.List_Lexorder"
begin

text \<open>
  Quilts, \<^verbatim>\<open>walrus-core/src/encoding/quilt_encoding.rs\<close>: many small blobs stored in one Walrus blob. The
  encoder sorts the blobs by identifier, chooses a symbol size, writes a serialized index into the
  first columns of the matrix and every blob, with a header, into columns of its own; a quilt, or a
  decoder that holds some of the columns as secondary slivers, reads them back.

  Serialization is the \<^verbatim>\<open>bcs\<close> crate, a record of functions here. Error messages are shortened to
  their fixed text, and an error of \<^verbatim>\<open>bcs\<close> to the constructor that carries it. Panics are \<open>QuiltPanic\<close>;
  \<^verbatim>\<open>debug_assert\<close> is not modelled.
\<close>

section \<open>Strings and maps\<close>

text \<open>The length of a string is that of its UTF-8 encoding.\<close>

definition utf8_len :: "rstring \<Rightarrow> nat" where
  "utf8_len s = sum_list (map (\<lambda>c. if c < 128 then 1 else if c < 2048 then 2 else if c < 65536 then 3 else 4) s)"

text \<open>\<^verbatim>\<open>char::is_whitespace\<close>, the Unicode property \<^verbatim>\<open>White_Space\<close>, and \<^verbatim>\<open>char::is_control\<close>, the category \<^verbatim>\<open>Cc\<close>.\<close>

definition is_whitespace :: "nat \<Rightarrow> bool" where
  "is_whitespace c \<longleftrightarrow> 9 \<le> c \<and> c \<le> 13 \<or> c = 32 \<or> c = 133 \<or> c = 160 \<or> c = 5760 \<or> 8192 \<le> c \<and> c \<le> 8202 \<or>
     c = 8232 \<or> c = 8233 \<or> c = 8239 \<or> c = 8287 \<or> c = 12288"

definition is_control :: "nat \<Rightarrow> bool" where
  "is_control c \<longleftrightarrow> c < 32 \<or> 127 \<le> c \<and> c < 160"

definition trim_end :: "rstring \<Rightarrow> rstring" where
  "trim_end s = rev (dropWhile is_whitespace (rev s))"

text \<open>A \<^verbatim>\<open>BTreeMap\<close> as the list of its entries in the order of the keys, and \<^verbatim>\<open>collect\<close> into one.\<close>

primrec btree_insert :: "'k :: linorder \<Rightarrow> 'v \<Rightarrow> ('k \<times> 'v) list \<Rightarrow> ('k \<times> 'v) list" where
  "btree_insert k v [] = [(k, v)]"
| "btree_insert k v (p # ps) =
     (if k < fst p then (k, v) # p # ps else if k = fst p then (k, v) # ps else p # btree_insert k v ps)"

definition btree_collect :: "('k :: linorder \<times> 'v) list \<Rightarrow> ('k \<times> 'v) list" where
  "btree_collect ps = fold (\<lambda>(k, v). btree_insert k v) ps []"

definition btree_ok :: "('k :: linorder \<times> 'v) list \<Rightarrow> bool" where
  "btree_ok ps \<longleftrightarrow> sorted_wrt (<) (map fst ps)"

section \<open>Identifiers\<close>

definition BLOB_IDENTIFIER_SIZE_BYTES_LENGTH :: nat where
  "BLOB_IDENTIFIER_SIZE_BYTES_LENGTH = 2"

definition TAGS_SIZE_BYTES_LENGTH :: nat where
  "TAGS_SIZE_BYTES_LENGTH = 2"

definition MAX_BLOB_IDENTIFIER_BYTES_LENGTH :: nat where
  "MAX_BLOB_IDENTIFIER_BYTES_LENGTH = 2 ^ (8 * BLOB_IDENTIFIER_SIZE_BYTES_LENGTH) - 1"

definition BLOB_HEADER_SIZE :: nat where
  "BLOB_HEADER_SIZE = 6"

lemmas quilt_constants = BLOB_IDENTIFIER_SIZE_BYTES_LENGTH_def TAGS_SIZE_BYTES_LENGTH_def MAX_BLOB_IDENTIFIER_BYTES_LENGTH_def
  BLOB_HEADER_SIZE_def QUILT_INDEX_PREFIX_SIZE_def QUILT_INDEX_SIZE_BYTES_LENGTH_def QUILT_VERSION_BYTES_LENGTH_def

definition validate_quilt_identifier :: "rstring \<Rightarrow> (unit, quilt_error) result" where
  "validate_quilt_identifier ident =
     (if utf8_len ident > MAX_BLOB_IDENTIFIER_BYTES_LENGTH then Inl (InvalidIdentifier ''identifier too long'')
      else if ident = [] then Inl (InvalidIdentifier ''identifier is empty'')
      else if trim_end ident \<noteq> ident then Inl (InvalidIdentifier ''identifier contains trailing whitespace'')
      else if list_ex is_control ident then Inl (InvalidIdentifier ''identifier contains control characters'')
      else Inr ())"

section \<open>Versions\<close>

datatype quilt_version_enum = QuiltVersionV1

definition quilt_version_try_from :: "byte \<Rightarrow> (quilt_version_enum, quilt_error) result" where
  "quilt_version_try_from v = (if v = QUILT_VERSION_BYTE then Inr QuiltVersionV1 else Inl (QuiltOther ''Invalid quilt version byte''))"

definition new_from_sliver :: "bytes \<Rightarrow> (quilt_version_enum, quilt_error) result" where
  "new_from_sliver sliver = (if sliver = [] then Inl (quilt_error.EmptyInput ''Sliver'') else quilt_version_try_from (sliver ! 0))"

definition get_quilt_version_byte :: "bytes \<Rightarrow> (byte, quilt_error) result" where
  "get_quilt_version_byte data = (case data of [] \<Rightarrow> Inl (quilt_error.EmptyInput ''data'') | b # _ \<Rightarrow> Inr b)"

definition get_quilt_version_enum :: "bytes \<Rightarrow> (quilt_version_enum, quilt_error) result" where
  "get_quilt_version_enum data = and_then (get_quilt_version_byte data) quilt_version_try_from"

definition check_quilt_version :: "bytes \<Rightarrow> (unit, quilt_error) result" where
  "check_quilt_version data =
     and_then (get_quilt_version_byte data) (\<lambda>b. ensure (b = QUILT_VERSION_BYTE) (QuiltVersionMismatch b QUILT_VERSION_BYTE))"

section \<open>Blob headers\<close>

record blob_header_v1 =
  bh_length :: nat
  bh_mask :: byte

definition TAGS_ENABLED :: byte where
  "TAGS_ENABLED = 1"

definition header_from_bytes :: "bytes \<Rightarrow> (blob_header_v1, quilt_error) result" where
  "header_from_bytes bs =
     and_then (ensure (bs ! 0 = QUILT_VERSION_BYTE) QuiltPanic) (\<lambda>_.
     Inr \<lparr> bh_length = from_le_bytes [bs ! 1, bs ! 2, bs ! 3, bs ! 4], bh_mask = bs ! 5 \<rparr>)"

definition header_as_bytes :: "blob_header_v1 \<Rightarrow> bytes" where
  "header_as_bytes h = QUILT_VERSION_BYTE # to_le_bytes 4 (bh_length h) @ [bh_mask h]"

definition has_tags :: "blob_header_v1 \<Rightarrow> bool" where
  "has_tags h \<longleftrightarrow> bh_mask h AND TAGS_ENABLED \<noteq> 0"

definition set_has_tags :: "bool \<Rightarrow> blob_header_v1 \<Rightarrow> blob_header_v1" where
  "set_has_tags b h = h\<lparr> bh_mask := (if b then bh_mask h OR TAGS_ENABLED else bh_mask h AND NOT TAGS_ENABLED) \<rparr>"

section \<open>Blobs of a quilt\<close>

type_synonym quilt_tags = "(rstring \<times> rstring) list"

record quilt_store_blob =
  qb_data :: bytes
  qb_identifier :: rstring
  qb_tags :: quilt_tags

definition quilt_store_blob_new :: "bytes \<Rightarrow> rstring \<Rightarrow> (quilt_store_blob, quilt_error) result" where
  "quilt_store_blob_new blob ident =
     and_then (validate_quilt_identifier ident) (\<lambda>_. Inr \<lparr> qb_data = blob, qb_identifier = ident, qb_tags = [] \<rparr>)"

definition with_tags :: "quilt_tags \<Rightarrow> quilt_store_blob \<Rightarrow> quilt_store_blob" where
  "with_tags ts b = b\<lparr> qb_tags := btree_collect ts \<rparr>"

definition patch_new_with_tags :: "rstring \<Rightarrow> quilt_tags \<Rightarrow> (quilt_patch_v1, quilt_error) result" where
  "patch_new_with_tags ident ts =
     and_then (validate_quilt_identifier ident) (\<lambda>_.
     Inr \<lparr> qp_start_index = 0, qp_end_index = 0, qp_identifier = ident, qp_tags = btree_collect ts \<rparr>)"

definition patch_new :: "rstring \<Rightarrow> (quilt_patch_v1, quilt_error) result" where
  "patch_new ident =
     and_then (validate_quilt_identifier ident) (\<lambda>_.
     Inr \<lparr> qp_start_index = 0, qp_end_index = 0, qp_identifier = ident, qp_tags = [] \<rparr>)"

definition set_range :: "nat \<Rightarrow> nat \<Rightarrow> quilt_patch_v1 \<Rightarrow> quilt_patch_v1" where
  "set_range s e p = p\<lparr> qp_start_index := s, qp_end_index := e \<rparr>"

definition has_matched_tag :: "quilt_patch_v1 \<Rightarrow> rstring \<Rightarrow> rstring \<Rightarrow> bool" where
  "has_matched_tag p target_tag target_value \<longleftrightarrow> map_of (qp_tags p) target_tag = Some target_value"

definition quilt_patch_internal_id :: "quilt_patch_v1 \<Rightarrow> patch_internal_id" where
  "quilt_patch_internal_id p = \<lparr> start_index = qp_start_index p, end_index = qp_end_index p \<rparr>"

definition internal_id_sliver_indices :: "patch_internal_id \<Rightarrow> nat list" where
  "internal_id_sliver_indices p = [start_index p..<end_index p]"

text \<open>
  The functions of the \<^verbatim>\<open>bcs\<close> crate the quilts use, \<^verbatim>\<open>to_bytes\<close>, \<^verbatim>\<open>serialized_size\<close> and \<^verbatim>\<open>from_bytes\<close>, on
  strings, maps of tags and quilt indices; \<open>None\<close> is an error.
\<close>

record bcs_lib =
  bcs_string :: "rstring \<Rightarrow> bytes option"
  bcs_string_size :: "rstring \<Rightarrow> nat option"
  bcs_string_from :: "bytes \<Rightarrow> rstring option"
  bcs_tags :: "quilt_tags \<Rightarrow> bytes option"
  bcs_tags_size :: "quilt_tags \<Rightarrow> nat option"
  bcs_tags_from :: "bytes \<Rightarrow> quilt_tags option"
  bcs_index :: "quilt_patch_v1 list \<Rightarrow> bytes option"
  bcs_index_size :: "quilt_patch_v1 list \<Rightarrow> nat option"
  bcs_index_from :: "bytes \<Rightarrow> quilt_patch_v1 list option"

section \<open>Lookups in the index\<close>

text \<open>
  \<open>identifiers\<close> is a hash set that loses an identifier when a patch takes it; what is left is reported
  in the iteration order of the set, which is not specified, and is the order of the request here.
\<close>

primrec take_patches :: "rstring list \<Rightarrow> quilt_patch_v1 list \<Rightarrow> quilt_patch_v1 list \<times> rstring list" where
  "take_patches identifiers [] = ([], identifiers)"
| "take_patches identifiers (p # ps) =
     (if qp_identifier p \<in> set identifiers
      then (case take_patches (removeAll (qp_identifier p) identifiers) ps of (qs, rest) \<Rightarrow> (p # qs, rest))
      else take_patches identifiers ps)"

definition get_quilt_patches_by_identifiers ::
  "quilt_patch_v1 list \<Rightarrow> rstring list \<Rightarrow> (quilt_patch_v1 list, quilt_error) result" where
  "get_quilt_patches_by_identifiers patches identifiers =
     (case take_patches (remdups identifiers) patches of
        (ps, rest) \<Rightarrow> if rest \<noteq> [] then Inl (BlobsNotFoundInQuilt rest) else Inr ps)"

definition get_quilt_patches_by_tag :: "quilt_patch_v1 list \<Rightarrow> rstring \<Rightarrow> rstring \<Rightarrow> quilt_patch_v1 list" where
  "get_quilt_patches_by_tag patches target_tag target_value = filter (\<lambda>p. has_matched_tag p target_tag target_value) patches"

definition get_sliver_indices_for_tag :: "quilt_patch_v1 list \<Rightarrow> rstring \<Rightarrow> rstring \<Rightarrow> nat list" where
  "get_sliver_indices_for_tag patches target_tag target_value =
     concat (map patch_sliver_indices (filter (\<lambda>p. has_matched_tag p target_tag target_value) patches))"

definition get_sliver_indices_for_identifiers :: "quilt_patch_v1 list \<Rightarrow> rstring list \<Rightarrow> (nat list, quilt_error) result" where
  "get_sliver_indices_for_identifiers patches identifiers =
     (case take_patches (remdups identifiers) patches of
        (ps, rest) \<Rightarrow> if rest \<noteq> [] then Inl (BlobsNotFoundInQuilt rest) else Inr (concat (map patch_sliver_indices ps)))"

section \<open>Decoding from a source of columns\<close>

text \<open>The trait \<^verbatim>\<open>QuiltColumnRangeReader\<close>: start column, bytes to skip, bytes to return.\<close>

type_synonym column_read = "nat \<Rightarrow> nat \<Rightarrow> nat \<Rightarrow> (bytes, quilt_error) result"

definition decode_quilt_index :: "bcs_lib \<Rightarrow> column_read \<Rightarrow> nat \<Rightarrow> (quilt_patch_v1 list, quilt_error) result" where
  "decode_quilt_index B read column_size =
     and_then (read 0 0 QUILT_VERSION_BYTES_LENGTH) (\<lambda>quilt_version_bytes.
     and_then (ensure (length quilt_version_bytes = QUILT_VERSION_BYTES_LENGTH) QuiltPanic) (\<lambda>_.
     and_then (check_quilt_version quilt_version_bytes) (\<lambda>_.
     and_then (read 0 QUILT_VERSION_BYTES_LENGTH QUILT_INDEX_SIZE_BYTES_LENGTH) (\<lambda>size_bytes.
     and_then (ensure (length size_bytes = QUILT_INDEX_SIZE_BYTES_LENGTH) QuiltPanic) (\<lambda>_.
     let index_size = from_le_bytes size_bytes in
     and_then (read 0 QUILT_INDEX_PREFIX_SIZE index_size) (\<lambda>index_bytes.
     and_then (ensure (length index_bytes = index_size) QuiltPanic) (\<lambda>_.
     and_then (ok_or QuiltIndexSerDerError (bcs_index_from B index_bytes)) (\<lambda>quilt_index.
     let total_size = index_size + QUILT_INDEX_PREFIX_SIZE in
     if column_size = 0 then Inl QuiltPanic
     else and_then (ok_or QuiltPanic (try_from_u 16 (div_ceil total_size column_size))) (\<lambda>columns_needed.
     Inr (populate_start_indices columns_needed quilt_index))))))))))"

definition decode_blob_identifier :: "bcs_lib \<Rightarrow> column_read \<Rightarrow> nat \<Rightarrow> nat \<Rightarrow> (rstring \<times> nat, quilt_error) result" where
  "decode_blob_identifier B read start_col initial_offset =
     and_then (read start_col initial_offset BLOB_IDENTIFIER_SIZE_BYTES_LENGTH) (\<lambda>size_buffer.
     let offset = initial_offset + BLOB_IDENTIFIER_SIZE_BYTES_LENGTH in
     and_then (ensure (length size_buffer = 2) QuiltPanic) (\<lambda>_.
     let identifier_size = from_le_bytes size_buffer in
     and_then (read start_col offset identifier_size) (\<lambda>identifier_bytes.
     and_then (ok_or (InvalidIdentifier ''Failed to deserialize identifier'') (bcs_string_from B identifier_bytes)) (\<lambda>ident.
     Inr (ident, BLOB_IDENTIFIER_SIZE_BYTES_LENGTH + identifier_size)))))"

definition decode_blob_tags :: "bcs_lib \<Rightarrow> column_read \<Rightarrow> nat \<Rightarrow> nat \<Rightarrow> (quilt_tags \<times> nat, quilt_error) result" where
  "decode_blob_tags B read start_col initial_offset =
     and_then (read start_col initial_offset TAGS_SIZE_BYTES_LENGTH) (\<lambda>size_bytes.
     and_then (ensure (length size_bytes = TAGS_SIZE_BYTES_LENGTH) QuiltPanic) (\<lambda>_.
     let tags_size = from_le_bytes size_bytes; offset = initial_offset + TAGS_SIZE_BYTES_LENGTH in
     and_then (read start_col offset tags_size) (\<lambda>tags_bytes.
     and_then (ok_or (FailedToDecodeExtension ''tags'') (bcs_tags_from B tags_bytes)) (\<lambda>tags.
     Inr (tags, offset + tags_size - initial_offset)))))"

text \<open>
  The subtractions from the length panic when they underflow, as with overflow checks. A release build goes on with
  the wrapped size: it decodes the tags, whose errors it may report, and at the read of the data a quilt
  panics when it allocates the buffer, while the decoder of slivers may first report the slivers that are missing.
\<close>

definition decode_blob :: "bcs_lib \<Rightarrow> column_read \<Rightarrow> nat \<Rightarrow> (quilt_store_blob, quilt_error) result" where
  "decode_blob B read start_col =
     and_then (read start_col 0 BLOB_HEADER_SIZE) (\<lambda>header_bytes.
     and_then (ensure (length header_bytes = BLOB_HEADER_SIZE) QuiltPanic) (\<lambda>_.
     and_then (header_from_bytes header_bytes) (\<lambda>blob_header.
     let offset = BLOB_HEADER_SIZE; blob_bytes_size = bh_length blob_header in
     and_then (decode_blob_identifier B read start_col offset) (\<lambda>(ident, bytes_consumed).
     let offset = offset + bytes_consumed in
     and_then (ok_or QuiltPanic (checked_sub blob_bytes_size bytes_consumed)) (\<lambda>blob_bytes_size.
     and_then
       (if has_tags blob_header then
          and_then (decode_blob_tags B read start_col offset) (\<lambda>(tags, bytes_consumed).
          and_then (ok_or QuiltPanic (checked_sub blob_bytes_size bytes_consumed)) (\<lambda>blob_bytes_size.
          Inr (tags, offset + bytes_consumed, blob_bytes_size)))
        else Inr ([], offset, blob_bytes_size)) (\<lambda>(tags, offset, blob_bytes_size).
     and_then (read start_col offset blob_bytes_size) (\<lambda>data_bytes.
     and_then (ensure (length data_bytes = blob_bytes_size) QuiltPanic) (\<lambda>_.
     and_then (quilt_store_blob_new data_bytes ident) (\<lambda>blob.
     Inr (with_tags tags blob))))))))))"

section \<open>Quilts\<close>

definition quilt_index :: "quilt_v1 \<Rightarrow> (quilt_patch_v1 list, quilt_error) result" where
  "quilt_index q = ok_or MissingQuiltIndex (q_index q)"

definition get_or_decode_quilt_index :: "bcs_lib \<Rightarrow> quilt_v1 \<Rightarrow> (quilt_v1, quilt_error) result" where
  "get_or_decode_quilt_index B q =
     (case q_index q of
        Some _ \<Rightarrow> Inr q
      | None \<Rightarrow>
          if q_row_size q = 0 then Inl QuiltPanic
          else
            let columns_size = length (q_data q) div q_row_size q * q_symbol_size q in
            and_then (decode_quilt_index B (range_read_from_columns q) columns_size) (\<lambda>index. Inr (q\<lparr> q_index := Some index \<rparr>)))"

definition new_from_quilt_blob :: "bcs_lib \<Rightarrow> rs_config \<Rightarrow> bytes \<Rightarrow> (quilt_v1, quilt_error) result" where
  "new_from_quilt_blob B c quilt_blob =
     (if quilt_blob = [] then Inl (quilt_error.EmptyInput ''quilt_blob'')
      else
        let n_source = n_source_symbols c Primary * n_source_symbols c Secondary in
        if n_source = 0 then Inl (QuiltOther ''n_source_symbols cannot be zero'')
        else if length quilt_blob mod n_source \<noteq> 0 then Inl InvalidFormatNotAligned
        else
          let symbol_size = length quilt_blob div n_source in
          get_or_decode_quilt_index B \<lparr> q_data = quilt_blob, q_row_size = symbol_size * n_source_symbols c Secondary,
            q_symbol_size = symbol_size, q_index = None \<rparr>)"

definition get_blobs_by_identifiers :: "bcs_lib \<Rightarrow> quilt_v1 \<Rightarrow> rstring list \<Rightarrow> (quilt_store_blob list, quilt_error) result" where
  "get_blobs_by_identifiers B q identifiers =
     and_then (quilt_index q) (\<lambda>index.
     and_then (get_quilt_patches_by_identifiers index identifiers) (\<lambda>patches.
     try_map (\<lambda>p. decode_blob B (range_read_from_columns q) (qp_start_index p)) patches))"

definition get_blob_by_patch_internal_id :: "bcs_lib \<Rightarrow> quilt_v1 \<Rightarrow> bytes \<Rightarrow> (quilt_store_blob, quilt_error) result" where
  "get_blob_by_patch_internal_id B q patch_internal_id =
     and_then (patch_id_from_bytes patch_internal_id) (\<lambda>pid. decode_blob B (range_read_from_columns q) (start_index pid))"

definition get_blobs_by_tag :: "bcs_lib \<Rightarrow> quilt_v1 \<Rightarrow> rstring \<Rightarrow> rstring \<Rightarrow> (quilt_store_blob list, quilt_error) result" where
  "get_blobs_by_tag B q target_tag target_value =
     and_then (quilt_index q) (\<lambda>index.
     try_map (\<lambda>p. decode_blob B (range_read_from_columns q) (qp_start_index p)) (get_quilt_patches_by_tag index target_tag target_value))"

definition get_all_blobs :: "bcs_lib \<Rightarrow> quilt_v1 \<Rightarrow> (quilt_store_blob list, quilt_error) result" where
  "get_all_blobs B q =
     and_then (quilt_index q) (\<lambda>index. try_map (\<lambda>p. decode_blob B (range_read_from_columns q) (qp_start_index p)) index)"

datatype quilt_enum = QuiltEnumV1 quilt_v1

definition quilt_enum_new :: "bcs_lib \<Rightarrow> rs_config \<Rightarrow> bytes \<Rightarrow> (quilt_enum, quilt_error) result" where
  "quilt_enum_new B c quilt_blob =
     and_then (new_from_sliver quilt_blob) (\<lambda>v. case v of
       QuiltVersionV1 \<Rightarrow> and_then (new_from_quilt_blob B c quilt_blob) (\<lambda>q. Inr (QuiltEnumV1 q)))"

fun quilt_enum_get_blobs_by_identifiers :: "bcs_lib \<Rightarrow> quilt_enum \<Rightarrow> rstring list \<Rightarrow> (quilt_store_blob list, quilt_error) result" where
  "quilt_enum_get_blobs_by_identifiers B (QuiltEnumV1 q) identifiers = get_blobs_by_identifiers B q identifiers"

fun quilt_enum_get_blob_by_patch_internal_id :: "bcs_lib \<Rightarrow> quilt_enum \<Rightarrow> bytes \<Rightarrow> (quilt_store_blob, quilt_error) result" where
  "quilt_enum_get_blob_by_patch_internal_id B (QuiltEnumV1 q) pid = get_blob_by_patch_internal_id B q pid"

fun quilt_enum_get_blobs_by_tag :: "bcs_lib \<Rightarrow> quilt_enum \<Rightarrow> rstring \<Rightarrow> rstring \<Rightarrow> (quilt_store_blob list, quilt_error) result" where
  "quilt_enum_get_blobs_by_tag B (QuiltEnumV1 q) t v = get_blobs_by_tag B q t v"

fun quilt_enum_get_all_blobs :: "bcs_lib \<Rightarrow> quilt_enum \<Rightarrow> (quilt_store_blob list, quilt_error) result" where
  "quilt_enum_get_all_blobs B (QuiltEnumV1 q) = get_all_blobs B q"

fun quilt_enum_get_quilt_index :: "quilt_enum \<Rightarrow> (quilt_patch_v1 list, quilt_error) result" where
  "quilt_enum_get_quilt_index (QuiltEnumV1 q) = quilt_index q"

section \<open>The encoder\<close>

text \<open>The comparison of the identifier's serialized size with its limit is \<^verbatim>\<open>>=\<close>.\<close>

definition serialized_blob_size :: "bcs_lib \<Rightarrow> quilt_store_blob \<Rightarrow> (nat, quilt_error) result" where
  "serialized_blob_size B blob =
     and_then (ok_or (QuiltOther ''Failed to compute identifier size'') (bcs_string_size B (qb_identifier blob))) (\<lambda>identifier_size.
     if identifier_size \<ge> MAX_BLOB_IDENTIFIER_BYTES_LENGTH
     then Inl (InvalidIdentifier ''identifier size exceeds maximum allowed value'')
     else
       let prefix_size = identifier_size + BLOB_IDENTIFIER_SIZE_BYTES_LENGTH in
       and_then
         (if qb_tags blob \<noteq> [] then
            and_then (ok_or (QuiltOther ''Failed to compute tags size'') (bcs_tags_size B (qb_tags blob))) (\<lambda>tags_size.
            Inr (prefix_size + (tags_size + TAGS_SIZE_BYTES_LENGTH)))
          else Inr prefix_size) (\<lambda>prefix_size.
       Inr (prefix_size + length (qb_data blob) + BLOB_HEADER_SIZE)))"

definition get_header_and_extension_bytes :: "bcs_lib \<Rightarrow> quilt_store_blob \<Rightarrow> (bytes, quilt_error) result" where
  "get_header_and_extension_bytes B blob =
     (let header = \<lparr> bh_length = 0, bh_mask = 0 \<rparr> in
      and_then (ok_or (InvalidIdentifier ''Failed to serialize identifier'') (bcs_string_size B (qb_identifier blob))) (\<lambda>size.
      and_then (ok_or (InvalidIdentifier ''Failed to convert identifier size to u16'') (try_from_u 16 size)) (\<lambda>identifier_size.
      and_then (ok_or (InvalidIdentifier ''Failed to serialize identifier'') (bcs_string B (qb_identifier blob))) (\<lambda>serialized.
      let identifier_bytes = to_le_bytes 2 identifier_size @ serialized in
      and_then
        (if qb_tags blob \<noteq> [] then
           and_then (ok_or (QuiltOther ''Failed to serialize tags'') (bcs_tags B (qb_tags blob))) (\<lambda>serialized_tags.
           and_then (ok_or (QuiltOther ''Failed to convert tags size to u16'') (try_from_u 16 (length serialized_tags))) (\<lambda>tags_size.
           Inr (set_has_tags True header, [identifier_bytes, to_le_bytes 2 tags_size @ serialized_tags])))
         else Inr (header, [identifier_bytes])) (\<lambda>(header, extension_bytes).
      let total_size = sum_list (map length extension_bytes) + length (qb_data blob);
          header = header\<lparr> bh_length := total_size mod 2 ^ 32 \<rparr> in
      Inr (header_as_bytes header @ concat extension_bytes))))))"

definition add_blob_to_quilt ::
  "bcs_lib \<Rightarrow> bytes \<Rightarrow> quilt_store_blob \<Rightarrow> bool \<Rightarrow> nat \<Rightarrow> nat \<Rightarrow> nat \<Rightarrow> nat \<Rightarrow> (bytes \<times> nat, quilt_error) result" where
  "add_blob_to_quilt B data blob is_meta_blob current_col column_size row_size sym_size =
     and_then (ensure (column_size mod sym_size = 0) QuiltPanic) (\<lambda>_.
     and_then
       (if \<not> is_meta_blob then
          and_then (get_header_and_extension_bytes B blob) (\<lambda>prefix_bytes.
          and_then (write_bytes_to_columns data prefix_bytes current_col row_size column_size sym_size 0) (\<lambda>data.
          Inr (data, length prefix_bytes)))
        else Inr (data, 0)) (\<lambda>(data, total_bytes_written).
     and_then (write_bytes_to_columns data (qb_data blob) current_col row_size column_size sym_size total_bytes_written) (\<lambda>data.
     let total_bytes_written = total_bytes_written + length (qb_data blob) in
     Inr (data, div_ceil total_bytes_written column_size))))"

text \<open>\<open>windows(2)\<close> over the sorted blobs.\<close>

fun check_duplicates :: "quilt_store_blob list \<Rightarrow> (unit, quilt_error) result" where
  "check_duplicates (a # b # bs) =
     (if qb_identifier a = qb_identifier b then Inl (DuplicateIdentifier (qb_identifier a)) else check_duplicates (b # bs))"
| "check_duplicates _ = Inr ()"

text \<open>One turn of the loop that lays out the blobs: the matrix, the patches and the next free column.\<close>

definition place_blob ::
  "bcs_lib \<Rightarrow> nat \<Rightarrow> nat \<Rightarrow> nat \<Rightarrow> bytes \<times> quilt_patch_v1 list \<times> nat \<Rightarrow> nat \<times> quilt_store_blob \<Rightarrow>
   (bytes \<times> quilt_patch_v1 list \<times> nat, quilt_error) result" where
  "place_blob B column_size row_size sym_size = (\<lambda>(data, patches, current_col) (i, blob).
     and_then (add_blob_to_quilt B data blob False current_col column_size row_size sym_size) (\<lambda>(data, cols_needed).
     and_then (ok_or QuiltPanic (try_from_u 16 current_col)) (\<lambda>s.
     and_then (ok_or QuiltPanic (try_from_u 16 (current_col + cols_needed))) (\<lambda>e.
     Inr (data, patches[i := set_range s e (patches ! i)], current_col + cols_needed)))))"

definition construct_quilt :: "bcs_lib \<Rightarrow> rs_config \<Rightarrow> quilt_store_blob list \<Rightarrow> (quilt_v1, quilt_error) result" where
  "construct_quilt B c blobs =
     (let n_rows = n_source_symbols c Primary; n_columns = n_source_symbols c Secondary;
          blob_pairs = sort_key qb_identifier blobs in
      and_then (check_duplicates blob_pairs) (\<lambda>_.
      and_then (try_map (\<lambda>b. patch_new_with_tags (qb_identifier b) (qb_tags b)) blob_pairs) (\<lambda>patches.
      and_then (ok_or QuiltIndexSerDerError (bcs_index_size B patches)) (\<lambda>size.
      and_then (ok_or QuiltPanic (try_from_u 32 size)) (\<lambda>serialized_index_size.
      let index_total_size = QUILT_INDEX_PREFIX_SIZE + serialized_index_size in
      and_then (try_map (serialized_blob_size B) blob_pairs) (\<lambda>sizes.
      and_then (quilt_compute_symbol_size (index_total_size # sizes) n_columns n_rows MAX_NUM_SLIVERS_FOR_QUILT_INDEX RS2) (\<lambda>symbol_size.
      let row_size = symbol_size * n_columns; column_size = symbol_size * n_rows;
          index_cols_needed = div_ceil index_total_size column_size in
      and_then (ensure (index_cols_needed \<le> MAX_NUM_SLIVERS_FOR_QUILT_INDEX) QuiltPanic) (\<lambda>_.
      and_then (try_fold (place_blob B column_size row_size symbol_size)
          (replicate (row_size * n_rows) 0, patches, index_cols_needed) (enumerate 0 blob_pairs)) (\<lambda>(data, patches, _).
      and_then (ok_or QuiltPanic (bcs_index B patches)) (\<lambda>index_bytes.
      let meta_blob_data = [QUILT_VERSION_BYTE] @ to_le_bytes 4 serialized_index_size @ index_bytes in
      and_then (ensure (length meta_blob_data = index_total_size) QuiltPanic) (\<lambda>_.
      and_then (quilt_store_blob_new meta_blob_data (map of_char ''quilt_index'')) (\<lambda>meta_blob.
      and_then (add_blob_to_quilt B data meta_blob True 0 column_size row_size symbol_size) (\<lambda>(data, _).
      Inr \<lparr> q_data = data, q_row_size = row_size, q_symbol_size = symbol_size, q_index = Some patches \<rparr>)))))))))))))"

record quilt_metadata_v1 =
  qm_quilt_id :: bytes
  qm_metadata :: blob_metadata
  qm_index :: "quilt_patch_v1 list"

definition quilt_get_verified_metadata :: "quilt_metadata_v1 \<Rightarrow> blob_metadata_with_id" where
  "quilt_get_verified_metadata m = \<lparr> blob_id = qm_quilt_id m, metadata = qm_metadata m \<rparr>"

definition quilt_encode_with_metadata ::
  "(bytes \<Rightarrow> bytes) \<Rightarrow> rs_lib \<Rightarrow> bcs_lib \<Rightarrow> rs_config \<Rightarrow> quilt_store_blob list \<Rightarrow>
   (sliver_pair list \<times> quilt_metadata_v1, quilt_error) result" where
  "quilt_encode_with_metadata H L B c blobs =
     and_then (construct_quilt B c blobs) (\<lambda>quilt.
     and_then (quilt_index quilt) (\<lambda>quilt_patches.
     and_then (map_err (\<lambda>e. case e of DataTooLarge \<Rightarrow> QuiltOversize | Panic \<Rightarrow> QuiltPanic) (blob_encoder_new c (q_data quilt))) (\<lambda>encoder.
     and_then (ensure (be_symbol_size encoder = q_symbol_size quilt) QuiltPanic) (\<lambda>_.
     and_then (map_err (\<lambda>_. QuiltPanic) (encode_with_metadata H L encoder)) (\<lambda>(sliver_pairs, md).
     Inr (sliver_pairs, \<lparr> qm_quilt_id = blob_id md, qm_metadata = metadata md, qm_index = quilt_patches \<rparr>))))))"

section \<open>The decoder\<close>

record quilt_decoder_v1 =
  qd_slivers :: "nat \<rightharpoonup> sliver_data"
  qd_quilt_index :: "quilt_patch_v1 list option"
  qd_column_size :: "nat option"

definition validate_and_update_column_size :: "nat option \<Rightarrow> nat \<Rightarrow> (nat option, quilt_error) result" where
  "validate_and_update_column_size column_size sliver_data_len =
     (case column_size of
        None \<Rightarrow> Inr (Some sliver_data_len)
      | Some expected \<Rightarrow> if expected = sliver_data_len then Inr column_size else Inl (ColumnSizeMismatch expected sliver_data_len))"

text \<open>\<^verbatim>\<open>add_slivers\<close> keeps the slivers before the first one it refuses: the new state comes with the result.\<close>

primrec add_slivers :: "quilt_decoder_v1 \<Rightarrow> sliver_data list \<Rightarrow> quilt_decoder_v1 \<times> (unit, quilt_error) result" where
  "add_slivers d [] = (d, Inr ())"
| "add_slivers d (s # ss) =
     (case validate_and_update_column_size (qd_column_size d) (length (sym_data (sl_symbols s))) of
        Inl e \<Rightarrow> (d, Inl e)
      | Inr cs \<Rightarrow> add_slivers (d\<lparr> qd_column_size := cs, qd_slivers := (qd_slivers d)(sl_index s \<mapsto> s) \<rparr>) ss)"

definition quilt_decoder_new :: "sliver_data list \<Rightarrow> (quilt_decoder_v1, quilt_error) result" where
  "quilt_decoder_new slivers =
     (case add_slivers \<lparr> qd_slivers = Map.empty, qd_quilt_index = None, qd_column_size = None \<rparr> slivers of
        (d, r) \<Rightarrow> and_then r (\<lambda>_. Inr d))"

definition quilt_decoder_new_with_quilt_index :: "sliver_data list \<Rightarrow> quilt_patch_v1 list \<Rightarrow> (quilt_decoder_v1, quilt_error) result" where
  "quilt_decoder_new_with_quilt_index slivers index =
     (case add_slivers \<lparr> qd_slivers = Map.empty, qd_quilt_index = Some index, qd_column_size = None \<rparr> slivers of
        (d, r) \<Rightarrow> and_then r (\<lambda>_. Inr d))"

text \<open>A column number is cut to 16 bits.\<close>

definition check_missing_slivers :: "quilt_decoder_v1 \<Rightarrow> nat \<Rightarrow> nat \<Rightarrow> (unit, quilt_error) result" where
  "check_missing_slivers d start_idx end_idx =
     (let missing_slivers = filter (\<lambda>i. qd_slivers d i = None) (map (\<lambda>i. i mod 65536) [start_idx..<end_idx]) in
      if missing_slivers \<noteq> [] then Inl (MissingSlivers missing_slivers) else Inr ())"

primrec read_slivers :: "sliver_data list \<Rightarrow> nat \<Rightarrow> nat \<Rightarrow> bytes" where
  "read_slivers [] bytes_to_skip bytes_to_return = []"
| "read_slivers (sliver # slivers) bytes_to_skip bytes_to_return =
     (if bytes_to_return = 0 then []
      else
        let data = sym_data (sl_symbols sliver) in
        if bytes_to_skip \<ge> length data then read_slivers slivers (bytes_to_skip - length data) bytes_to_return
        else
          let copy_len = min (length data - bytes_to_skip) bytes_to_return in
          take copy_len (drop bytes_to_skip data) @ read_slivers slivers 0 (bytes_to_return - copy_len))"

definition decoder_range_read :: "quilt_decoder_v1 \<Rightarrow> column_read" where
  "decoder_range_read d start_col bytes_to_skip bytes_to_return =
     and_then (check_missing_slivers d start_col (start_col + 1)) (\<lambda>_.
     and_then (ok_or QuiltPanic (qd_column_size d)) (\<lambda>column_size.
     if column_size = 0 then Inl QuiltPanic
     else
       let end_col = start_col + div_ceil (bytes_to_skip + bytes_to_return) column_size in
       and_then (check_missing_slivers d start_col end_col) (\<lambda>_.
       and_then (try_map (\<lambda>col. ok_or QuiltPanic (qd_slivers d (col mod 65536))) [start_col..<end_col]) (\<lambda>slivers.
       Inr (read_slivers slivers bytes_to_skip bytes_to_return)))))"

definition decoder_get_or_decode_quilt_index ::
  "bcs_lib \<Rightarrow> quilt_decoder_v1 \<Rightarrow> (quilt_decoder_v1 \<times> quilt_patch_v1 list, quilt_error) result" where
  "decoder_get_or_decode_quilt_index B d =
     (case qd_quilt_index d of
        Some index \<Rightarrow> Inr (d, index)
      | None \<Rightarrow>
          and_then (check_missing_slivers d 0 1) (\<lambda>_.
          and_then (ok_or QuiltPanic (qd_column_size d)) (\<lambda>column_size.
          and_then (decode_quilt_index B (decoder_range_read d) column_size) (\<lambda>index.
          Inr (d\<lparr> qd_quilt_index := Some index \<rparr>, index)))))"

definition get_patch_by_quilt_patch :: "bcs_lib \<Rightarrow> quilt_decoder_v1 \<Rightarrow> quilt_patch_v1 \<Rightarrow> (quilt_store_blob, quilt_error) result" where
  "get_patch_by_quilt_patch B d p =
     and_then (check_missing_slivers d (qp_start_index p) (qp_end_index p)) (\<lambda>_. decode_blob B (decoder_range_read d) (qp_start_index p))"

definition decoder_get_blobs_by_identifiers ::
  "bcs_lib \<Rightarrow> quilt_decoder_v1 \<Rightarrow> rstring list \<Rightarrow> (quilt_store_blob list, quilt_error) result" where
  "decoder_get_blobs_by_identifiers B d identifiers =
     and_then (and_then (ok_or MissingQuiltIndex (qd_quilt_index d)) (\<lambda>index. get_quilt_patches_by_identifiers index identifiers))
       (try_map (get_patch_by_quilt_patch B d))"

definition decoder_get_blob_by_patch_internal_id ::
  "bcs_lib \<Rightarrow> quilt_decoder_v1 \<Rightarrow> bytes \<Rightarrow> (quilt_store_blob, quilt_error) result" where
  "decoder_get_blob_by_patch_internal_id B d patch_internal_id =
     and_then (patch_id_from_bytes patch_internal_id) (\<lambda>pid.
     and_then (check_missing_slivers d (start_index pid) (end_index pid)) (\<lambda>_.
     decode_blob B (decoder_range_read d) (start_index pid)))"

definition decoder_get_blobs_by_tag ::
  "bcs_lib \<Rightarrow> quilt_decoder_v1 \<Rightarrow> rstring \<Rightarrow> rstring \<Rightarrow> (quilt_store_blob list, quilt_error) result" where
  "decoder_get_blobs_by_tag B d target_tag target_value =
     and_then (ok_or MissingQuiltIndex (qd_quilt_index d)) (\<lambda>index.
     try_map (get_patch_by_quilt_patch B d) (get_quilt_patches_by_tag index target_tag target_value))"

end
