(* ===== verification/Quilt_Correct.thy ===== *)
theory Quilt_Correct
  imports Quilt
begin

text \<open>
  Correctness of the quilts. A serialized blob is read back by any source of columns that returns the
  right bytes; the interface of such sources is the locale \<open>column_reader\<close>, which both the quilt and
  the decoder implement. Constructing a quilt stores the index and every blob at its column.
\<close>

section \<open>Assumptions on the serialization library\<close>

text \<open>
  Documented behaviour of BCS: \<^verbatim>\<open>serialized_size\<close> is the length of the serialization, deserialization
  inverts serialization, a field marked \<^verbatim>\<open>serde(skip)\<close> is left out and set to its default when read, and
  16-bit integers take two bytes, so that the size of an index does not depend on the column numbers.
\<close>

definition bcs_ok :: "bcs_lib \<Rightarrow> bool" where
  "bcs_ok B \<longleftrightarrow>
     (\<forall>s. bcs_string_size B s = map_option length (bcs_string B s)) \<and>
     (\<forall>s bs. bcs_string B s = Some bs \<longrightarrow> bcs_string_from B bs = Some s) \<and>
     (\<forall>t. bcs_tags_size B t = map_option length (bcs_tags B t)) \<and>
     (\<forall>t bs. btree_ok t \<and> bcs_tags B t = Some bs \<longrightarrow> bcs_tags_from B bs = Some t) \<and>
     (\<forall>ps. bcs_index_size B ps = map_option length (bcs_index B ps)) \<and>
     (\<forall>ps bs. (\<forall>p \<in> set ps. qp_end_index p < 65536 \<and> btree_ok (qp_tags p)) \<and> bcs_index B ps = Some bs \<longrightarrow>
        bcs_index_from B bs = Some (map (\<lambda>p. p\<lparr> qp_start_index := 0 \<rparr>) ps)) \<and>
     (\<forall>ps qs. map (set_range 0 0) ps = map (set_range 0 0) qs \<longrightarrow> bcs_index_size B ps = bcs_index_size B qs)"

lemma bcs_okD:
  assumes "bcs_ok B"
  shows "bcs_string_size B s = map_option length (bcs_string B s)"
    and "bcs_string B s = Some bs \<Longrightarrow> bcs_string_from B bs = Some s"
    and "bcs_tags_size B t = map_option length (bcs_tags B t)"
    and "btree_ok t \<Longrightarrow> bcs_tags B t = Some bs \<Longrightarrow> bcs_tags_from B bs = Some t"
    and "bcs_index_size B ps = map_option length (bcs_index B ps)"
    and "\<forall>p \<in> set ps. qp_end_index p < 65536 \<and> btree_ok (qp_tags p) \<Longrightarrow> bcs_index B ps = Some bs \<Longrightarrow>
      bcs_index_from B bs = Some (map (\<lambda>p. p\<lparr> qp_start_index := 0 \<rparr>) ps)"
    and "map (set_range 0 0) ps = map (set_range 0 0) qs \<Longrightarrow> bcs_index_size B ps = bcs_index_size B qs"
  using assms unfolding bcs_ok_def by blast+

section \<open>Ordered maps\<close>

lemma btree_insert_last: "\<forall>p \<in> set ps. fst p < k \<Longrightarrow> btree_insert k v ps = ps @ [(k, v)]"
  by (induction ps) (auto simp: not_less_iff_gr_or_eq)

lemma btree_collect_id:
  assumes "btree_ok ps" shows "btree_collect ps = ps"
proof -
  have "fold (\<lambda>(k, v). btree_insert k v) qs rs = rs @ qs" if "btree_ok (rs @ qs)" for rs qs :: "('a \<times> 'b) list"
    using that
  proof (induction qs arbitrary: rs)
    case (Cons q qs)
    then have "btree_insert (fst q) (snd q) rs = rs @ [q]" by (auto simp: btree_ok_def sorted_wrt_append intro!: btree_insert_last [of rs "fst q" "snd q", simplified])
    then show ?case using Cons.IH [of "rs @ [q]"] Cons.prems by (simp add: case_prod_beta)
  qed simp
  from this [of "[]" ps] assms show ?thesis by (simp add: btree_collect_def)
qed

section \<open>Headers\<close>

lemma to_le_4: "to_le_bytes 4 n = [of_nat (n mod 256), of_nat (n div 256 mod 256), of_nat (n div 256 div 256 mod 256),
    of_nat (n div 256 div 256 div 256 mod 256)]"
proof -
  have "4 = Suc (Suc (Suc (Suc 0)))" by simp
  then show ?thesis by (simp only: to_le_bytes.simps)
qed

lemma header_round_trip:
  assumes "bh_length h < 2 ^ 32"
  shows "header_from_bytes (header_as_bytes h) = Inr h" and "length (header_as_bytes h) = BLOB_HEADER_SIZE"
proof -
  have "from_le_bytes (to_le_bytes 4 (bh_length h)) = bh_length h" using assms by (intro from_to_le_bytes) simp
  then show "header_from_bytes (header_as_bytes h) = Inr h"
    by (simp add: header_from_bytes_def header_as_bytes_def to_le_4 ensure_def)
  show "length (header_as_bytes h) = BLOB_HEADER_SIZE" by (simp add: header_as_bytes_def quilt_constants)
qed

lemma has_tags_flags:
  "has_tags \<lparr> bh_length = n, bh_mask = 0 \<rparr> = False"
  "has_tags (set_has_tags True \<lparr> bh_length = n, bh_mask = 0 \<rparr>\<lparr> bh_length := m \<rparr>) = True"
  by (simp_all add: has_tags_def set_has_tags_def TAGS_ENABLED_def)


section \<open>Reading serialized blobs\<close>

text \<open>The reads of a source at a column return the parts of a byte string stored from there on.\<close>

definition readable :: "column_read \<Rightarrow> nat \<Rightarrow> bytes \<Rightarrow> bool" where
  "readable read start ser \<longleftrightarrow> (\<forall>skip ret. skip + ret \<le> length ser \<longrightarrow> read start skip ret = Inr (take ret (drop skip ser)))"

lemma readable_part:
  assumes "readable read start ser" and "ser = as @ bs @ cs"
  shows "read start (length as) (length bs) = Inr bs"
  using assms by (simp add: readable_def)

definition blob_total :: "bytes \<Rightarrow> quilt_store_blob \<Rightarrow> nat" where
  "blob_total prefix blob = length prefix - BLOB_HEADER_SIZE + length (qb_data blob)"

lemma header_bytes_cases:
  assumes h: "get_header_and_extension_bytes B blob = Inr prefix" and ok: "bcs_ok B"
  obtains sid tags where "bcs_string B (qb_identifier blob) = Some sid" and "length sid < 65536"
    and "prefix = header_as_bytes \<lparr> bh_length = (blob_total prefix blob) mod 2 ^ 32, bh_mask = (if qb_tags blob = [] then 0 else TAGS_ENABLED) \<rparr> @
        to_le_bytes 2 (length sid) @ sid @ tags"
    and "qb_tags blob = [] \<Longrightarrow> tags = []"
    and "qb_tags blob \<noteq> [] \<Longrightarrow> \<exists>st. bcs_tags B (qb_tags blob) = Some st \<and> length st < 65536 \<and> tags = to_le_bytes 2 (length st) @ st"
proof -
  obtain sid where sid: "bcs_string B (qb_identifier blob) = Some sid" "length sid < 65536"
    using h by (auto simp: get_header_and_extension_bytes_def Let_def and_then_Inr_iff ok_or_Inr_iff checked_Some bcs_okD(1) [OF ok])
  show ?thesis
  proof (cases "qb_tags blob = []")
    case True
    then have "prefix = header_as_bytes \<lparr> bh_length = (2 + length sid + length (qb_data blob)) mod 2 ^ 32, bh_mask = 0 \<rparr> @ to_le_bytes 2 (length sid) @ sid"
      using h sid by (simp add: get_header_and_extension_bytes_def Let_def bcs_okD(1) [OF ok] try_from_u_def)
    moreover from this have "blob_total prefix blob = 2 + length sid + length (qb_data blob)"
      by (simp add: blob_total_def header_as_bytes_def quilt_constants)
    ultimately show ?thesis using that [OF sid, of "[]"] True by simp
  next
    case False
    then obtain st where st: "bcs_tags B (qb_tags blob) = Some st" "length st < 65536"
      using h sid by (auto simp: get_header_and_extension_bytes_def Let_def and_then_Inr_iff ok_or_Inr_iff checked_Some bcs_okD(1) [OF ok])
    let ?t = "to_le_bytes 2 (length st) @ st"
    have "prefix = header_as_bytes \<lparr> bh_length = (2 + length sid + (2 + length st) + length (qb_data blob)) mod 2 ^ 32, bh_mask = TAGS_ENABLED \<rparr> @
        to_le_bytes 2 (length sid) @ sid @ ?t"
      using h sid st False by (simp add: get_header_and_extension_bytes_def Let_def bcs_okD(1) [OF ok] try_from_u_def set_has_tags_def)
    moreover from this have "blob_total prefix blob = 2 + length sid + (2 + length st) + length (qb_data blob)"
      by (simp add: blob_total_def header_as_bytes_def quilt_constants)
    ultimately show ?thesis using that [OF sid, of ?t] False st by simp
  qed
qed

lemma le2_round_trip: "n < 65536 \<Longrightarrow> from_le_bytes (to_le_bytes 2 n) = n"
  by (intro from_to_le_bytes) simp

lemma decode_blob_readable:
  assumes ok: "bcs_ok B" and h: "get_header_and_extension_bytes B blob = Inr prefix" and r: "readable read start (prefix @ qb_data blob)"
    and small: "blob_total prefix blob < 2 ^ 32" and valid: "validate_quilt_identifier (qb_identifier blob) = Inr ()" and t: "btree_ok (qb_tags blob)"
  shows "decode_blob B read start = Inr blob"
proof -
  obtain sid tags where sid: "bcs_string B (qb_identifier blob) = Some sid" "length sid < 65536"
    and p: "prefix = header_as_bytes \<lparr> bh_length = (blob_total prefix blob) mod 2 ^ 32, bh_mask = (if qb_tags blob = [] then 0 else TAGS_ENABLED) \<rparr> @
        to_le_bytes 2 (length sid) @ sid @ tags"
    and notags: "qb_tags blob = [] \<Longrightarrow> tags = []"
    and tags: "qb_tags blob \<noteq> [] \<Longrightarrow> \<exists>st. bcs_tags B (qb_tags blob) = Some st \<and> length st < 65536 \<and> tags = to_le_bytes 2 (length st) @ st"
    using header_bytes_cases [OF h ok] by blast
  define hd where "hd = \<lparr> bh_length = blob_total prefix blob, bh_mask = (if qb_tags blob = [] then 0 else TAGS_ENABLED) \<rparr>"
  have hl: "length (header_as_bytes hd) = 6" by (simp add: header_as_bytes_def)
  have p: "prefix = header_as_bytes hd @ to_le_bytes 2 (length sid) @ sid @ tags" using p small by (simp add: hd_def)
  have "length prefix = 6 + (2 + length sid + length tags)" using arg_cong [OF p, of length] hl by simp
  then have tot: "bh_length hd = 2 + length sid + length tags + length (qb_data blob)" by (simp add: hd_def blob_total_def quilt_constants)
  have hb: "header_from_bytes (header_as_bytes hd) = Inr hd" using small by (intro header_round_trip) (simp add: hd_def)
  note part = readable_part [OF r, unfolded p]
  have r1: "read start 0 BLOB_HEADER_SIZE = Inr (header_as_bytes hd)" using part [of "[]" "header_as_bytes hd"] hl by (simp add: quilt_constants)
  have r2: "read start 6 2 = Inr (to_le_bytes 2 (length sid))" using part [of "header_as_bytes hd" "to_le_bytes 2 (length sid)"] hl by simp
  have r3: "read start 8 (length sid) = Inr sid" using part [of "header_as_bytes hd @ to_le_bytes 2 (length sid)" sid] hl by simp
  have ident: "decode_blob_identifier B read start 6 = Inr (qb_identifier blob, 2 + length sid)"
    using r2 r3 sid bcs_okD(2) [OF ok sid(1)] by (simp add: decode_blob_identifier_def quilt_constants Let_def le2_round_trip)
  have rd: "read start (8 + length sid + length tags) (length (qb_data blob)) = Inr (qb_data blob)"
    using part [of "header_as_bytes hd @ to_le_bytes 2 (length sid) @ sid @ tags" "qb_data blob" "[]"] hl by (simp add: add.assoc)
  have new: "quilt_store_blob_new (qb_data blob) (qb_identifier blob) = Inr (blob\<lparr> qb_tags := [] \<rparr>)"
    using valid by (simp add: quilt_store_blob_new_def)
  have wt: "with_tags (qb_tags blob) (blob\<lparr> qb_tags := [] \<rparr>) = blob" using btree_collect_id [OF t] by (simp add: with_tags_def)
  show ?thesis
  proof (cases "qb_tags blob = []")
    case True
    then have "\<not> has_tags hd" "tags = []" by (simp_all add: hd_def has_tags_def notags)
    then show ?thesis using r1 hb ident rd tot new wt True
      by (simp add: decode_blob_def hl quilt_constants Let_def checked_sub_def add.assoc)
  next
    case False
    then obtain st where st: "bcs_tags B (qb_tags blob) = Some st" "length st < 65536" "tags = to_le_bytes 2 (length st) @ st" using tags by blast
    have r4: "read start (8 + length sid) 2 = Inr (to_le_bytes 2 (length st))"
      using part [of "header_as_bytes hd @ to_le_bytes 2 (length sid) @ sid" "to_le_bytes 2 (length st)" "st @ qb_data blob"] hl st(3) by (simp add: add.assoc)
    have r5: "read start (8 + length sid + 2) (length st) = Inr st"
      using part [of "header_as_bytes hd @ to_le_bytes 2 (length sid) @ sid @ to_le_bytes 2 (length st)" st "qb_data blob"] hl st(3) by (simp add: add.assoc)
    have "decode_blob_tags B read start (8 + length sid) = Inr (qb_tags blob, 2 + length st)"
      using r4 r5 st(2) bcs_okD(4) [OF ok t st(1)] by (simp add: decode_blob_tags_def quilt_constants Let_def le2_round_trip)
    moreover have "has_tags hd" using False by (simp add: hd_def has_tags_def TAGS_ENABLED_def)
    ultimately show ?thesis using r1 hb ident rd tot new wt st(3)
      by (simp add: decode_blob_def hl quilt_constants Let_def checked_sub_def add.assoc)
  qed
qed

text \<open>The index is read back; its start columns are those of patches that follow one another.\<close>

definition contiguous :: "nat \<Rightarrow> quilt_patch_v1 list \<Rightarrow> bool" where
  "contiguous first ps \<longleftrightarrow> (\<forall>i < length ps. qp_start_index (ps ! i) = (if i = 0 then first else qp_end_index (ps ! (i - 1))))"

lemma populate_restores:
  assumes "contiguous first ps"
  shows "populate_start_indices first (map (\<lambda>p. p\<lparr> qp_start_index := 0 \<rparr>) ps) = ps"
proof -
  note pop = populate_start_indices_contiguous [of first "map (\<lambda>p. p\<lparr> qp_start_index := 0 \<rparr>) ps"]
  show ?thesis
  proof (rule nth_equalityI)
    fix i assume i: "i < length (populate_start_indices first (map (\<lambda>p. p\<lparr> qp_start_index := 0 \<rparr>) ps))"
    then have "qp_start_index (ps ! i) = (if i = 0 then first else qp_end_index (ps ! (i - 1)))" using assms pop by (simp add: contiguous_def)
    moreover have "qp_end_index ((map (\<lambda>p. p\<lparr> qp_start_index := 0 \<rparr>) ps) ! (i - 1)) = qp_end_index (ps ! (i - 1))"
      using i pop by simp
    ultimately show "populate_start_indices first (map (\<lambda>p. p\<lparr> qp_start_index := 0 \<rparr>) ps) ! i = ps ! i"
      using i pop by auto
  qed (use pop in simp)
qed

definition meta_bytes :: "bytes \<Rightarrow> bytes" where
  "meta_bytes index_bytes = [QUILT_VERSION_BYTE] @ to_le_bytes 4 (length index_bytes) @ index_bytes"

lemma length_meta_bytes [simp]: "length (meta_bytes bs) = QUILT_INDEX_PREFIX_SIZE + length bs"
  by (simp add: meta_bytes_def quilt_constants)

lemma decode_index_readable:
  assumes ok: "bcs_ok B" and r: "readable read 0 (meta_bytes bs)" and bs: "bcs_index B ps = Some bs" "length bs < 2 ^ 32"
    and ps: "\<forall>p \<in> set ps. qp_end_index p < 65536 \<and> btree_ok (qp_tags p)" "contiguous (div_ceil (length (meta_bytes bs)) cs) ps"
    and cs: "0 < cs" "div_ceil (length (meta_bytes bs)) cs < 65536"
  shows "decode_quilt_index B read cs = Inr ps"
proof -
  note part = readable_part [OF r, unfolded meta_bytes_def]
  have r1: "read 0 0 1 = Inr [QUILT_VERSION_BYTE]" using part [of "[]" "[QUILT_VERSION_BYTE]"] by simp
  have r2: "read 0 1 4 = Inr (to_le_bytes 4 (length bs))" using part [of "[QUILT_VERSION_BYTE]" "to_le_bytes 4 (length bs)"] by simp
  have r3: "read 0 5 (length bs) = Inr bs" using part [of "[QUILT_VERSION_BYTE] @ to_le_bytes 4 (length bs)" bs "[]"] by simp
  have n: "from_le_bytes (to_le_bytes 4 (length bs)) = length bs" using bs(2) by (intro from_to_le_bytes) simp
  have e: "length bs + 5 = length (meta_bytes bs)" by (simp add: quilt_constants)
  show ?thesis using r1 r2 r3 bcs_okD(6) [OF ok ps(1) bs(1)] cs populate_restores [OF ps(2)] unfolding e [symmetric]
    by (simp add: decode_quilt_index_def quilt_constants check_quilt_version_def get_quilt_version_byte_def n Let_def try_from_u_def)
qed

section \<open>Sources of columns\<close>

text \<open>
  The contract of \<^verbatim>\<open>QuiltColumnRangeReader\<close>: a source that holds the columns \<open>cols\<close>, of size \<open>cs\<close>, of a byte
  sequence \<open>S\<close> returns any range of \<open>S\<close> within those columns.
\<close>

locale column_reader =
  fixes read :: "'s \<Rightarrow> column_read"
    and holds :: "'s \<Rightarrow> nat \<Rightarrow> bytes \<Rightarrow> nat set \<Rightarrow> bool"
  assumes read_range: "holds src cs S cols \<Longrightarrow> 0 < cs \<Longrightarrow> {start..<start + max 1 (div_ceil (skip + ret) cs)} \<subseteq> cols \<Longrightarrow>
    start * cs + skip + ret \<le> length S \<Longrightarrow> read src start skip ret = Inr (take ret (drop (start * cs + skip) S))"
begin

lemma read_stored:
  assumes h: "holds src cs S cols" "0 < cs" and cols: "{start..<start + div_ceil (length ser) cs} \<subseteq> cols" and ne: "ser \<noteq> []"
    and st: "take (length ser) (drop (start * cs) S) = ser"
  shows "readable (read src) start ser"
  unfolding readable_def
proof (intro allI impI)
  fix skip ret assume sr: "skip + ret \<le> length ser"
  have "min (length ser) (length S - start * cs) = length ser" using arg_cong [OF st, of length] by simp
  moreover have "0 < length ser" using ne by simp
  ultimately have fit: "start * cs + length ser \<le> length S" by linarith
  have "div_ceil (skip + ret) cs \<le> div_ceil (length ser) cs" using sr div_ceil_mult_ge [OF h(2), of "length ser"] h(2) by (simp add: div_ceil_le_iff)
  moreover have "1 \<le> div_ceil (length ser) cs" using div_ceil_le_iff [OF h(2), of "length ser" 0] ne by (cases "div_ceil (length ser) cs") auto
  ultimately have "{start..<start + max 1 (div_ceil (skip + ret) cs)} \<subseteq> cols" using cols by fastforce
  then have "read src start skip ret = Inr (take ret (drop (start * cs + skip) S))" using read_range [OF h] sr fit by simp
  also have "take ret (drop (start * cs + skip) S) = take ret (drop skip (take (length ser) (drop (start * cs) S)))"
    using sr by (simp add: take_drop min_def add.commute add.left_commute)
  finally show "read src start skip ret = Inr (take ret (drop skip ser))" by (simp only: st)
qed

text \<open>Blobs and the index that are stored in the columns of a source are decoded.\<close>

lemma decode_stored_blob:
  assumes "holds src cs S cols" "0 < cs" and "{start..<start + div_ceil (length (prefix @ qb_data blob)) cs} \<subseteq> cols"
    and "take (length (prefix @ qb_data blob)) (drop (start * cs) S) = prefix @ qb_data blob"
    and "bcs_ok B" and h: "get_header_and_extension_bytes B blob = Inr prefix"
    and "blob_total prefix blob < 2 ^ 32" "validate_quilt_identifier (qb_identifier blob) = Inr ()" "btree_ok (qb_tags blob)"
  shows "decode_blob B (read src) start = Inr blob"
proof -
  have "prefix \<noteq> []" by (rule header_bytes_cases [OF h assms(5)]) (metis Nil_is_append_conv header_as_bytes_def list.distinct(1))
  then have "readable (read src) start (prefix @ qb_data blob)" using assms(1-4) by (intro read_stored) auto
  then show ?thesis using assms by (intro decode_blob_readable)
qed

lemma decode_stored_index:
  assumes "holds src cs S cols" "0 < cs" and "{0..<div_ceil (length (meta_bytes bs)) cs} \<subseteq> cols"
    and "take (length (meta_bytes bs)) S = meta_bytes bs"
    and "bcs_ok B" "bcs_index B ps = Some bs" "length bs < 2 ^ 32"
    and "\<forall>p \<in> set ps. qp_end_index p < 65536 \<and> btree_ok (qp_tags p)" "contiguous (div_ceil (length (meta_bytes bs)) cs) ps"
    and "div_ceil (length (meta_bytes bs)) cs < 65536"
  shows "decode_quilt_index B (read src) cs = Inr ps"
proof -
  have "readable (read src) 0 (meta_bytes bs)" using assms(1-4) by (intro read_stored) (auto simp: meta_bytes_def)
  then show ?thesis using assms by (intro decode_index_readable)
qed

end

text \<open>A quilt holds all its columns.\<close>

definition quilt_holds :: "quilt_v1 \<Rightarrow> nat \<Rightarrow> bytes \<Rightarrow> nat set \<Rightarrow> bool" where
  "quilt_holds q cs S cols \<longleftrightarrow> (\<exists>nr nc s. quilt_shape nr nc s q \<and> cs = nr * s \<and> S = column_stream nr nc s (q_data q))"

interpretation quilt_reader: column_reader range_read_from_columns quilt_holds
proof
  fix q cs S and cols :: "nat set" and start skip ret
  assume "quilt_holds q cs S cols" and fit: "start * cs + skip + ret \<le> length S"
  then obtain nr nc s where q: "quilt_shape nr nc s q" "cs = nr * s" "S = column_stream nr nc s (q_data q)" by (auto simp: quilt_holds_def)
  show "range_read_from_columns q start skip ret = Inr (take ret (drop (start * cs + skip) S))"
    using range_read_stream [OF q(1), of start skip ret] fit unfolding q(2,3) by simp
qed

text \<open>A decoder holds the columns it has slivers for.\<close>

definition decoder_holds :: "quilt_decoder_v1 \<Rightarrow> nat \<Rightarrow> bytes \<Rightarrow> nat set \<Rightarrow> bool" where
  "decoder_holds d cs S cols \<longleftrightarrow> qd_column_size d = Some cs \<and>
     (\<forall>c \<in> cols. c < 65536 \<and> (c + 1) * cs \<le> length S \<and>
        (\<exists>sl. qd_slivers d c = Some sl \<and> sym_data (sl_symbols sl) = take cs (drop (c * cs) S)))"

lemma read_slivers_concat: "read_slivers ss skip ret = take ret (drop skip (concat (map (\<lambda>s. sym_data (sl_symbols s)) ss)))"
  by (induction ss arbitrary: skip ret) (auto simp: Let_def min_def)

lemma check_missing_ok:
  assumes "\<forall>c \<in> {s..<e}. c < 65536 \<and> qd_slivers d c \<noteq> None" shows "check_missing_slivers d s e = Inr ()"
  using assms by (auto simp: check_missing_slivers_def Let_def filter_empty_conv)

lemma concat_columns: "concat (map (\<lambda>c. take cs (drop (c * cs) S)) [start..<start + n]) = take (n * cs) (drop (start * cs) S)"
proof (induction n)
  case (Suc n)
  have "take (Suc n * cs) (drop (start * cs) S) = take (n * cs) (drop (start * cs) S) @ take cs (drop (n * cs) (drop (start * cs) S))"
    using take_add [of "n * cs" cs "drop (start * cs) S"] by (simp add: add.commute)
  then show ?case using Suc by (simp add: algebra_simps)
qed simp

interpretation decoder_reader: column_reader decoder_range_read decoder_holds
proof
  fix d cs S and cols :: "nat set" and start skip ret
  assume d: "decoder_holds d cs S cols" and cs: "0 < cs" and fit: "start * cs + skip + ret \<le> length S"
    and cols: "{start..<start + max 1 (div_ceil (skip + ret) cs)} \<subseteq> cols"
  let ?n = "div_ceil (skip + ret) cs"
  have at: "c < 65536 \<and> (\<exists>sl. qd_slivers d c = Some sl \<and> sym_data (sl_symbols sl) = take cs (drop (c * cs) S))" if "c \<in> cols" for c
    using d that by (auto simp: decoder_holds_def)
  have chk: "check_missing_slivers d start (start + 1) = Inr ()" "check_missing_slivers d start (start + ?n) = Inr ()"
    using at cols by (intro check_missing_ok; fastforce)+
  have sub: "{start..<start + ?n} \<subseteq> cols" using cols by fastforce
  have tm: "try_map (\<lambda>col. ok_or QuiltPanic (qd_slivers d (col mod 65536))) [start..<start + ?n] = Inr (map (\<lambda>c. the (qd_slivers d c)) [start..<start + ?n])"
    using at sub by (intro try_map_total) fastforce
  have "map (\<lambda>s. sym_data (sl_symbols s)) (map (\<lambda>c. the (qd_slivers d c)) [start..<start + ?n]) = map (\<lambda>c. take cs (drop (c * cs) S)) [start..<start + ?n]"
    using at sub by fastforce
  then have "read_slivers (map (\<lambda>c. the (qd_slivers d c)) [start..<start + ?n]) skip ret = take ret (drop skip (take (?n * cs) (drop (start * cs) S)))"
    by (simp only: read_slivers_concat concat_columns)
  also have "\<dots> = take ret (drop (start * cs + skip) S)"
    using div_ceil_mult_ge [OF cs, of "skip + ret"] by (simp add: take_drop min_def add.commute add.left_commute)
  finally show "decoder_range_read d start skip ret = Inr (take ret (drop (start * cs + skip) S))"
    using d cs chk tm by (simp add: decoder_range_read_def decoder_holds_def Let_def)
qed

end
