(* ===== verification/Quilt_Construct.thy ===== *)
theory Quilt_Construct
  imports Quilt_Correct
begin

text \<open>
  Construction of a quilt: the loop of \<^verbatim>\<open>construct_quilt\<close> stores every blob at its column and leaves
  the columns of the others alone, and the quilt that comes out holds the index and the blobs.
\<close>

section \<open>Storing\<close>

definition stored_at :: "bytes \<Rightarrow> nat \<Rightarrow> bytes \<Rightarrow> bool" where
  "stored_at S pos bs \<longleftrightarrow> pos + length bs \<le> length S \<and> (\<forall>i < length bs. S ! (pos + i) = bs ! i)"

lemma stored_at_take: "stored_at S pos bs \<Longrightarrow> take (length bs) (drop pos S) = bs"
  by (rule nth_equalityI) (auto simp: stored_at_def)

lemma overwrite_stored: "pos + length bs \<le> length S \<Longrightarrow> stored_at (overwrite S pos bs) pos bs"
  by (auto simp: stored_at_def nth_overwrite)

lemma overwrite_keeps:
  "stored_at S p as \<Longrightarrow> p + length as \<le> q \<or> q + length bs \<le> p \<Longrightarrow> q + length bs \<le> length S \<Longrightarrow> stored_at (overwrite S q bs) p as"
  by (auto simp: stored_at_def nth_overwrite)

lemma write_bytes_Inr:
  assumes pos: "0 < nr" "0 < s" and len: "length data = nr * nc * s" and w: "write_bytes_to_columns data bs start (nc * s) (nr * s) s skip = Inr data'"
    and fit: "start * (nr * s) + skip + length bs \<le> nr * nc * s"
  shows "length data' = nr * nc * s" and "column_stream nr nc s data' = overwrite (column_stream nr nc s data) (start * (nr * s) + skip) bs"
proof -
  have c: "start * (nr * s) + skip < nr * nc * s"
  proof (rule ccontr)
    assume "\<not> ?thesis"
    then have "nc * (nr * s) \<le> start * (nr * s) + skip" by (simp add: ac_simps)
    then have "nc \<le> (start * (nr * s) + skip) div (nr * s)" using div_le_mono [of "nc * (nr * s)" _ "nr * s"] pos by fastforce
    then show False using w pos by (simp add: write_bytes_to_columns_def Let_def and_then_Inr_iff ensure_Inr_iff)
  qed
  obtain d where "write_bytes_to_columns data bs start (nc * s) (nr * s) s skip = Inr d" "length d = nr * nc * s"
    "column_stream nr nc s d = overwrite (column_stream nr nc s data) (start * (nr * s) + skip) bs"
    by (rule write_bytes_stream [OF pos len fit c])
  then show "length data' = nr * nc * s" "column_stream nr nc s data' = overwrite (column_stream nr nc s data) (start * (nr * s) + skip) bs"
    using w by simp_all
qed

section \<open>One blob\<close>

definition blob_ser :: "bcs_lib \<Rightarrow> quilt_store_blob \<Rightarrow> bytes" where
  "blob_ser B blob = (case get_header_and_extension_bytes B blob of Inl _ \<Rightarrow> [] | Inr p \<Rightarrow> p @ qb_data blob)"

lemma add_blob_Inr:
  assumes pos: "0 < nr" "0 < s" and len: "length data = nr * nc * s"
    and add: "add_blob_to_quilt B data blob False col (nr * s) (nc * s) s = Inr (data', n)"
    and fit: "col * (nr * s) + length (blob_ser B blob) \<le> nr * nc * s"
  shows "\<exists>prefix. get_header_and_extension_bytes B blob = Inr prefix" and "n = div_ceil (length (blob_ser B blob)) (nr * s)"
    and "length data' = nr * nc * s" and "column_stream nr nc s data' = overwrite (column_stream nr nc s data) (col * (nr * s)) (blob_ser B blob)"
proof -
  obtain prefix d where p: "get_header_and_extension_bytes B blob = Inr prefix"
    and w1: "write_bytes_to_columns data prefix col (nc * s) (nr * s) s 0 = Inr d"
    and w2: "write_bytes_to_columns d (qb_data blob) col (nc * s) (nr * s) s (length prefix) = Inr data'"
    and n: "n = div_ceil (length prefix + length (qb_data blob)) (nr * s)"
    using add by (auto simp: add_blob_to_quilt_def and_then_Inr_iff Let_def)
  have ser: "blob_ser B blob = prefix @ qb_data blob" by (simp add: blob_ser_def p)
  note d = write_bytes_Inr [OF pos len w1] and d' = write_bytes_Inr [OF pos _ w2]
  show "\<exists>prefix. get_header_and_extension_bytes B blob = Inr prefix" using p by blast
  show "n = div_ceil (length (blob_ser B blob)) (nr * s)" using n ser by simp
  show "length data' = nr * nc * s" using d' d fit ser by simp
  show "column_stream nr nc s data' = overwrite (column_stream nr nc s data) (col * (nr * s)) (blob_ser B blob)"
    using d d' fit overwrite_append [of "col * (nr * s)" prefix "qb_data blob" "column_stream nr nc s data"] by (simp add: ser add.assoc)
qed

text \<open>A blob that is not empty can be added wherever it fits.\<close>

lemma add_blob_ok:
  assumes pos: "0 < nr" "0 < s" and len: "length data = nr * nc * s" and p: "get_header_and_extension_bytes B blob = Inr prefix"
    and fit: "col * (nr * s) + length (blob_ser B blob) \<le> nr * nc * s" and ne: "qb_data blob \<noteq> []"
  obtains data' where "add_blob_to_quilt B data blob False col (nr * s) (nc * s) s = Inr (data', div_ceil (length (blob_ser B blob)) (nr * s))"
proof -
  have ser: "blob_ser B blob = prefix @ qb_data blob" by (simp add: blob_ser_def p)
  have l: "0 < length (qb_data blob)" using ne by simp
  have c: "col * (nr * s) + 0 + length prefix \<le> nr * nc * s" "col * (nr * s) + 0 < nr * nc * s"
    "col * (nr * s) + length prefix + length (qb_data blob) \<le> nr * nc * s" "col * (nr * s) + length prefix < nr * nc * s"
    using fit l unfolding ser length_append by linarith+
  obtain d where d: "write_bytes_to_columns data prefix col (nc * s) (nr * s) s 0 = Inr d" "length d = nr * nc * s"
    by (rule write_bytes_stream [OF pos len c(1,2)])
  obtain d' where "write_bytes_to_columns d (qb_data blob) col (nc * s) (nr * s) s (length prefix) = Inr d'"
    by (rule write_bytes_stream [OF pos d(2) c(3,4)])
  then have "add_blob_to_quilt B data blob False col (nr * s) (nc * s) s = Inr (d', div_ceil (length (blob_ser B blob)) (nr * s))"
    using p d by (simp add: add_blob_to_quilt_def Let_def ser)
  then show ?thesis by (rule that)
qed

section \<open>The loop\<close>

definition blob_cols :: "bcs_lib \<Rightarrow> nat \<Rightarrow> quilt_store_blob \<Rightarrow> nat" where
  "blob_cols B cs blob = div_ceil (length (blob_ser B blob)) cs"

definition blob_col :: "bcs_lib \<Rightarrow> nat \<Rightarrow> nat \<Rightarrow> quilt_store_blob list \<Rightarrow> nat \<Rightarrow> nat" where
  "blob_col B cs first blobs j = first + sum_list (map (blob_cols B cs) (take j blobs))"

lemma blob_col_0 [simp]: "blob_col B cs first blobs 0 = first"
  by (simp add: blob_col_def)

lemma blob_col_Cons [simp]: "blob_col B cs first (b # bs) (Suc j) = blob_col B cs (first + blob_cols B cs b) bs j"
  by (simp add: blob_col_def)

lemma blob_col_mono: "i \<le> j \<Longrightarrow> blob_col B cs first blobs i \<le> blob_col B cs first blobs j"
  unfolding blob_col_def by (metis add_left_mono le_add1 le_add_diff_inverse map_append sum_list.append take_add)

lemma blob_col_Suc: "j < length blobs \<Longrightarrow> blob_col B cs first blobs (Suc j) = blob_col B cs first blobs j + blob_cols B cs (blobs ! j)"
  by (simp add: blob_col_def take_Suc_conv_app_nth)

lemma blob_fits:
  assumes "0 < nr" "0 < s" and "col + blob_cols B (nr * s) b \<le> nc"
  shows "col * (nr * s) + length (blob_ser B b) \<le> (col + blob_cols B (nr * s) b) * (nr * s)"
    and "col * (nr * s) + length (blob_ser B b) \<le> nr * nc * s"
proof -
  have "length (blob_ser B b) \<le> blob_cols B (nr * s) b * (nr * s)" using assms(1,2) by (simp add: blob_cols_def div_ceil_mult_ge)
  then show a: "col * (nr * s) + length (blob_ser B b) \<le> (col + blob_cols B (nr * s) b) * (nr * s)" by (simp add: add_mult_distrib)
  also have "\<dots> \<le> nc * (nr * s)" using assms(3) by (rule mult_le_mono1)
  finally show "col * (nr * s) + length (blob_ser B b) \<le> nr * nc * s" by (simp add: ac_simps)
qed

text \<open>The loop stores the blobs at their columns, records their ranges, and keeps what is stored before the first one.\<close>

lemma place_blobs_Inr:
  assumes pos: "0 < nr" "0 < s" and "length data = nr * nc * s" and "col + sum_list (map (blob_cols B (nr * s)) blobs) \<le> nc"
    and "try_fold (place_blob B (nr * s) (nc * s) s) (data, patches, col) (enumerate i blobs) = Inr (data', patches', col')"
    and "i + length blobs \<le> length patches"
  shows "length data' = nr * nc * s \<and> length patches' = length patches \<and>
    (\<forall>j < i. patches' ! j = patches ! j) \<and>
    (\<forall>j < length blobs. stored_at (column_stream nr nc s data') (blob_col B (nr * s) col blobs j * (nr * s)) (blob_ser B (blobs ! j)) \<and>
       (\<exists>prefix. get_header_and_extension_bytes B (blobs ! j) = Inr prefix) \<and>
       patches' ! (i + j) = set_range (blob_col B (nr * s) col blobs j) (blob_col B (nr * s) col blobs (Suc j)) (patches ! (i + j)) \<and>
       blob_col B (nr * s) col blobs (Suc j) < 65536) \<and>
    (\<forall>p bs. stored_at (column_stream nr nc s data) p bs \<and> p + length bs \<le> col * (nr * s) \<longrightarrow> stored_at (column_stream nr nc s data') p bs)"
  using assms(3-)
proof (induction blobs arbitrary: data patches col i)
  case (Cons b blobs)
  let ?cs = "nr * s"
  obtain d n where add: "add_blob_to_quilt B data b False col ?cs (nc * s) s = Inr (d, n)" and u: "col + n < 65536"
    and rest: "try_fold (place_blob B ?cs (nc * s) s) (d, patches[i := set_range col (col + n) (patches ! i)], col + n) (enumerate (Suc i) blobs) =
      Inr (data', patches', col')"
    using Cons.prems(3) by (auto simp: place_blob_def and_then_Inr_iff ok_or_Inr_iff checked_Some)
  have cb: "col + blob_cols B ?cs b \<le> nc" using Cons.prems(2) by simp
  note f = blob_fits [OF pos cb]
  note a = add_blob_Inr [OF pos Cons.prems(1) add f(2)]
  have n: "n = blob_cols B ?cs b" using a(2) by (simp add: blob_cols_def)
  have fit: "col * ?cs + length (blob_ser B b) \<le> length (column_stream nr nc s data)" using f(2) by simp
  note IH = Cons.IH [OF a(3) _ rest, unfolded n length_list_update]
  have IH: "length data' = nr * nc * s" "length patches' = length patches"
    "\<forall>j < Suc i. patches' ! j = patches[i := set_range col (col + n) (patches ! i)] ! j"
    "\<forall>j < length blobs. stored_at (column_stream nr nc s data') (blob_col B ?cs (col + n) blobs j * ?cs) (blob_ser B (blobs ! j)) \<and>
       (\<exists>prefix. get_header_and_extension_bytes B (blobs ! j) = Inr prefix) \<and>
       patches' ! (Suc i + j) = set_range (blob_col B ?cs (col + n) blobs j) (blob_col B ?cs (col + n) blobs (Suc j))
          (patches[i := set_range col (col + n) (patches ! i)] ! (Suc i + j)) \<and>
       blob_col B ?cs (col + n) blobs (Suc j) < 65536"
    "\<And>p bs. stored_at (column_stream nr nc s d) p bs \<Longrightarrow> p + length bs \<le> (col + n) * ?cs \<Longrightarrow> stored_at (column_stream nr nc s data') p bs"
    using IH Cons.prems(2,4) unfolding n by auto
  have first: "stored_at (column_stream nr nc s data') (col * ?cs) (blob_ser B b)"
    using IH(5) overwrite_stored [OF fit] f(1) a(4) by (simp add: n)
  have keep: "stored_at (column_stream nr nc s data') p bs" if "stored_at (column_stream nr nc s data) p bs" "p + length bs \<le> col * ?cs" for p bs
  proof (rule IH(5))
    show "stored_at (column_stream nr nc s d) p bs" unfolding a(4) using that fit by (intro overwrite_keeps) auto
    show "p + length bs \<le> (col + n) * ?cs" using that(2) by (simp add: add_mult_distrib)
  qed
  have "stored_at (column_stream nr nc s data') (blob_col B ?cs col (b # blobs) j * ?cs) (blob_ser B ((b # blobs) ! j)) \<and>
       (\<exists>prefix. get_header_and_extension_bytes B ((b # blobs) ! j) = Inr prefix) \<and>
       patches' ! (i + j) = set_range (blob_col B ?cs col (b # blobs) j) (blob_col B ?cs col (b # blobs) (Suc j)) (patches ! (i + j)) \<and>
       blob_col B ?cs col (b # blobs) (Suc j) < 65536" if j: "j < length (b # blobs)" for j
  proof (cases j)
    case 0
    then show ?thesis using first a(1) IH(3) Cons.prems(4) u by (simp add: n)
  next
    case (Suc k)
    then show ?thesis using IH(4) j n by auto
  qed
  moreover have "\<forall>j < i. patches' ! j = patches ! j" using IH(3) by simp
  ultimately show ?case using IH(1,2) keep by blast
qed simp

lemma place_blobs_ok:
  assumes pos: "0 < nr" "0 < s" and "length data = nr * nc * s" and "col + sum_list (map (blob_cols B (nr * s)) blobs) \<le> nc" and nc: "nc < 65536"
    and "\<forall>b \<in> set blobs. qb_data b \<noteq> [] \<and> (\<exists>prefix. get_header_and_extension_bytes B b = Inr prefix)"
  shows "\<exists>r. try_fold (place_blob B (nr * s) (nc * s) s) (data, patches, col) (enumerate i blobs) = Inr r"
  using assms(3,4,6)
proof (induction blobs arbitrary: data patches col i)
  case (Cons b blobs)
  let ?cs = "nr * s"
  have cb: "col + blob_cols B ?cs b \<le> nc" using Cons.prems(2) by simp
  note f = blob_fits [OF pos cb]
  obtain prefix where "get_header_and_extension_bytes B b = Inr prefix" "qb_data b \<noteq> []" using Cons.prems(3) by auto
  then obtain d where d: "add_blob_to_quilt B data b False col ?cs (nc * s) s = Inr (d, blob_cols B ?cs b)"
    using add_blob_ok [OF pos Cons.prems(1) _ f(2)] unfolding blob_cols_def by metis
  have "length d = nr * nc * s" using add_blob_Inr(3) [OF pos Cons.prems(1) d f(2)] .
  then show ?case using Cons.IH [of d "col + blob_cols B ?cs b"] Cons.prems(2,3) d cb nc
    by (simp add: place_blob_def try_from_u_def)
qed simp

section \<open>The quilt\<close>

lemma serialized_size_bounds:
  assumes ok: "bcs_ok B" and n: "serialized_blob_size B b = Inr n"
  shows "length (blob_ser B b) \<le> n" and "get_header_and_extension_bytes B b = Inr p \<Longrightarrow> length (blob_ser B b) = n"
proof -
  show eq: "length (blob_ser B b) = n" if h: "get_header_and_extension_bytes B b = Inr p" for p
  proof (rule header_bytes_cases [OF h ok])
    fix sid tags
    assume sid: "bcs_string B (qb_identifier b) = Some sid" and t0: "qb_tags b = [] \<Longrightarrow> tags = []"
      and t1: "qb_tags b \<noteq> [] \<Longrightarrow> \<exists>st. bcs_tags B (qb_tags b) = Some st \<and> length st < 65536 \<and> tags = to_le_bytes 2 (length st) @ st"
      and p: "p = header_as_bytes \<lparr> bh_length = blob_total p b mod 2 ^ 32, bh_mask = if qb_tags b = [] then 0 else TAGS_ENABLED \<rparr> @
        to_le_bytes 2 (length sid) @ sid @ tags"
    have "length p = 8 + length sid + length tags" using arg_cong [OF p, of length] by (simp add: header_as_bytes_def)
    then show ?thesis using n sid t0 t1 h
      by (cases "qb_tags b = []") (auto simp: serialized_blob_size_def blob_ser_def bcs_okD(1,3) [OF ok] Let_def quilt_constants split: if_splits)
  qed
  then show "length (blob_ser B b) \<le> n" by (cases "get_header_and_extension_bytes B b") (auto simp: blob_ser_def)
qed

lemma construct_cases:
  assumes "construct_quilt B c blobs = Inr q"
  obtains patches size sizes s data patches' col bs data' n where
    "check_duplicates (sort_key qb_identifier blobs) = Inr ()"
    "try_map (\<lambda>b. patch_new_with_tags (qb_identifier b) (qb_tags b)) (sort_key qb_identifier blobs) = Inr patches"
    "bcs_index_size B patches = Some size" "size < 2 ^ 32"
    "try_map (serialized_blob_size B) (sort_key qb_identifier blobs) = Inr sizes"
    "quilt_compute_symbol_size ((QUILT_INDEX_PREFIX_SIZE + size) # sizes) (n_source_symbols c Secondary) (n_source_symbols c Primary)
       MAX_NUM_SLIVERS_FOR_QUILT_INDEX RS2 = Inr s"
    "try_fold (place_blob B (n_source_symbols c Primary * s) (n_source_symbols c Secondary * s) s)
       (replicate (n_source_symbols c Primary * n_source_symbols c Secondary * s) 0, patches,
        div_ceil (QUILT_INDEX_PREFIX_SIZE + size) (n_source_symbols c Primary * s)) (enumerate 0 (sort_key qb_identifier blobs)) =
       Inr (data, patches', col)"
    "bcs_index B patches' = Some bs" "length bs = size"
    "write_bytes_to_columns data (meta_bytes bs) 0 (n_source_symbols c Secondary * s) (n_source_symbols c Primary * s) s 0 = Inr data'"
    "q = \<lparr> q_data = data', q_row_size = n_source_symbols c Secondary * s, q_symbol_size = s, q_index = Some patches' \<rparr>"
proof -
  from assms show thesis
    unfolding construct_quilt_def Let_def and_then_Inr_iff ok_or_Inr_iff try_from_u_Some ensure_Inr_iff
    apply (clarsimp simp: and_then_Inr_iff ok_or_Inr_iff ensure_Inr_iff)
    subgoal for patches size sizes s data patches' col bs meta data' n
      by (rule that [of patches size sizes s data patches' col bs data'])
        (auto simp: add_blob_to_quilt_def quilt_store_blob_new_def and_then_Inr_iff Let_def meta_bytes_def quilt_constants ac_simps)
    done
qed

definition quilt_layout :: "bcs_lib \<Rightarrow> nat \<Rightarrow> nat \<Rightarrow> nat \<Rightarrow> quilt_store_blob list \<Rightarrow> quilt_patch_v1 list \<Rightarrow> bytes \<Rightarrow> quilt_v1 \<Rightarrow> bool" where
  "quilt_layout B nr nc s blobs ps bs q \<longleftrightarrow>
     quilt_shape nr nc s q \<and> q_index q = Some ps \<and> bcs_index B ps = Some bs \<and> length bs < 2 ^ 32 \<and>
     QUILT_INDEX_PREFIX_SIZE \<le> nr * s \<and> even s \<and> s < 65536 \<and>
     stored_at (column_stream nr nc s (q_data q)) 0 (meta_bytes bs) \<and> length ps = length blobs \<and>
     blob_col B (nr * s) (div_ceil (length (meta_bytes bs)) (nr * s)) blobs (length blobs) \<le> nc \<and>
     (\<forall>j < length blobs.
        let first = div_ceil (length (meta_bytes bs)) (nr * s); b = blobs ! j in
        stored_at (column_stream nr nc s (q_data q)) (blob_col B (nr * s) first blobs j * (nr * s)) (blob_ser B b) \<and>
        (\<exists>prefix. get_header_and_extension_bytes B b = Inr prefix) \<and> validate_quilt_identifier (qb_identifier b) = Inr () \<and>
        blob_col B (nr * s) first blobs (Suc j) < 65536 \<and>
        ps ! j = \<lparr> qp_start_index = blob_col B (nr * s) first blobs j, qp_end_index = blob_col B (nr * s) first blobs (Suc j),
          qp_identifier = qb_identifier b, qp_tags = qb_tags b \<rparr>)"

lemma div_ceil_mono_left: "0 < c \<Longrightarrow> a \<le> b \<Longrightarrow> div_ceil a c \<le> div_ceil b c"
  using div_ceil_mult_ge [of c b] by (simp add: div_ceil_le_iff)

lemma blob_cols_bound:
  assumes ok: "bcs_ok B" and cs: "0 < cs" and "list_all2 (\<lambda>b n. serialized_blob_size B b = Inr n) blobs sizes"
  shows "sum_list (map (blob_cols B cs) blobs) \<le> sum_list (map (\<lambda>n. div_ceil n cs) sizes)"
  using assms(3)
proof (induction rule: list_all2_induct)
  case (Cons b bs n ns)
  have "blob_cols B cs b \<le> div_ceil n cs" unfolding blob_cols_def using serialized_size_bounds(1) [OF ok Cons.hyps(1)] cs by (rule div_ceil_mono_left [rotated])
  then show ?case using Cons.IH by simp
qed simp

lemma symbol_size_facts:
  assumes s: "quilt_compute_symbol_size (i # sizes) nc nr MAX_NUM_SLIVERS_FOR_QUILT_INDEX RS2 = Inr s" and nr: "0 < nr"
  shows "0 < nc" and "0 < s" and "s < 65536" and "even s" and "QUILT_INDEX_PREFIX_SIZE \<le> nr * s"
    and "div_ceil i (nr * s) + sum_list (map (\<lambda>n. div_ceil n (nr * s)) sizes) \<le> nc" and "div_ceil i (nr * s) \<le> MAX_NUM_SLIVERS_FOR_QUILT_INDEX"
proof -
  have l: "length (i # sizes) \<le> nc" using s by (auto simp: quilt_compute_symbol_size_def split: if_splits)
  then show "0 < nc" by simp
  have m: "0 < MAX_NUM_SLIVERS_FOR_QUILT_INDEX" by (simp add: MAX_NUM_SLIVERS_FOR_QUILT_INDEX_def)
  have f: "s \<le> max_symbol_size RS2" "quilt_fits (i # sizes) nc nr MAX_NUM_SLIVERS_FOR_QUILT_INDEX RS2 s"
    using s quilt_symbol_size_iff(1) [OF _ l nr m] by blast+
  then show "s < 65536" "even s" "QUILT_INDEX_PREFIX_SIZE \<le> nr * s"
    by (simp_all add: max_symbol_size_def quilt_fits_def required_alignment_def mult.commute)
  then show pos: "0 < s" by (cases s) (auto simp: quilt_constants)
  show "div_ceil i (nr * s) + sum_list (map (\<lambda>n. div_ceil n (nr * s)) sizes) \<le> nc"
    using f(2) by (simp add: quilt_fits_def can_blobs_fit_into_matrix_def mult.commute)
  show "div_ceil i (nr * s) \<le> MAX_NUM_SLIVERS_FOR_QUILT_INDEX"
    using f(2) pos nr by (simp add: quilt_fits_def div_ceil_le_iff mult.commute)
qed

lemma new_patches:
  assumes "try_map (\<lambda>b. patch_new_with_tags (qb_identifier b) (qb_tags b)) blobs = Inr patches" and "j < length blobs" and "\<forall>b \<in> set blobs. btree_ok (qb_tags b)"
  shows "patches ! j = \<lparr> qp_start_index = 0, qp_end_index = 0, qp_identifier = qb_identifier (blobs ! j), qp_tags = qb_tags (blobs ! j) \<rparr>"
    and "validate_quilt_identifier (qb_identifier (blobs ! j)) = Inr ()"
proof -
  have "patch_new_with_tags (qb_identifier (blobs ! j)) (qb_tags (blobs ! j)) = Inr (patches ! j)"
    using assms(1,2) by (auto simp: try_map_Inr_iff list_all2_conv_all_nth)
  then show "patches ! j = \<lparr> qp_start_index = 0, qp_end_index = 0, qp_identifier = qb_identifier (blobs ! j), qp_tags = qb_tags (blobs ! j) \<rparr>"
    "validate_quilt_identifier (qb_identifier (blobs ! j)) = Inr ()"
    using assms(2,3) btree_collect_id [of "qb_tags (blobs ! j)"] by (auto simp: patch_new_with_tags_def and_then_Inr_iff)
qed

lemma construct_layout:
  assumes ok: "bcs_ok B" and nr: "0 < n_source_symbols c Primary" and t: "\<forall>b \<in> set blobs. btree_ok (qb_tags b)"
    and con: "construct_quilt B c blobs = Inr q"
  obtains s ps bs where "quilt_layout B (n_source_symbols c Primary) (n_source_symbols c Secondary) s (sort_key qb_identifier blobs) ps bs q"
    and "q_symbol_size q = s" and "check_duplicates (sort_key qb_identifier blobs) = Inr ()"
proof -
  let ?nr = "n_source_symbols c Primary" and ?nc = "n_source_symbols c Secondary" and ?blobs = "sort_key qb_identifier blobs"
  obtain patches size sizes s data patches' col bs data' where dup: "check_duplicates ?blobs = Inr ()"
    and patches: "try_map (\<lambda>b. patch_new_with_tags (qb_identifier b) (qb_tags b)) ?blobs = Inr patches"
    and size: "bcs_index_size B patches = Some size" "size < 2 ^ 32" and sizes: "try_map (serialized_blob_size B) ?blobs = Inr sizes"
    and s: "quilt_compute_symbol_size ((QUILT_INDEX_PREFIX_SIZE + size) # sizes) ?nc ?nr MAX_NUM_SLIVERS_FOR_QUILT_INDEX RS2 = Inr s"
    and loop: "try_fold (place_blob B (?nr * s) (?nc * s) s) (replicate (?nr * ?nc * s) 0, patches, div_ceil (QUILT_INDEX_PREFIX_SIZE + size) (?nr * s))
        (enumerate 0 ?blobs) = Inr (data, patches', col)"
    and bs: "bcs_index B patches' = Some bs" "length bs = size"
    and w: "write_bytes_to_columns data (meta_bytes bs) 0 (?nc * s) (?nr * s) s 0 = Inr data'"
    and q: "q = \<lparr> q_data = data', q_row_size = ?nc * s, q_symbol_size = s, q_index = Some patches' \<rparr>"
    by (rule construct_cases [OF con])
  let ?cs = "?nr * s"
  define first where "first = div_ceil (length (meta_bytes bs)) ?cs"
  note f = symbol_size_facts [OF s nr]
  have cs: "0 < ?cs" using nr f(2) by simp
  have len: "length (meta_bytes bs) = QUILT_INDEX_PREFIX_SIZE + size" using bs(2) by simp
  have "sum_list (map (blob_cols B ?cs) ?blobs) \<le> sum_list (map (\<lambda>n. div_ceil n ?cs) sizes)"
    using sizes by (intro blob_cols_bound [OF ok cs]) (simp add: try_map_Inr_iff)
  then have room: "first + sum_list (map (blob_cols B ?cs) ?blobs) \<le> ?nc" using f(6) unfolding first_def len by linarith
  have lp: "0 + length ?blobs \<le> length patches" using try_map_length [OF patches] by simp
  have tt: "\<forall>b \<in> set ?blobs. btree_ok (qb_tags b)" using t by simp
  let ?S1 = "column_stream ?nr ?nc s data"
  note pl = place_blobs_Inr [OF nr f(2) _ room loop [folded len, folded first_def] lp]
  have pl: "length data = ?nr * ?nc * s" "length patches' = length patches"
    "\<And>j. j < length ?blobs \<Longrightarrow> stored_at ?S1 (blob_col B ?cs first ?blobs j * ?cs) (blob_ser B (?blobs ! j)) \<and>
       (\<exists>prefix. get_header_and_extension_bytes B (?blobs ! j) = Inr prefix) \<and>
       patches' ! j = set_range (blob_col B ?cs first ?blobs j) (blob_col B ?cs first ?blobs (Suc j)) (patches ! j) \<and>
       blob_col B ?cs first ?blobs (Suc j) < 65536"
    using pl by auto
  have ml: "length (meta_bytes bs) \<le> first * ?cs" unfolding first_def using cs by (rule div_ceil_mult_ge)
  have "first * ?cs \<le> ?nc * ?cs" using room by (intro mult_le_mono1) linarith
  moreover have "?nc * ?cs = ?nr * ?nc * s" by (simp only: ac_simps)
  ultimately have fit: "0 * ?cs + 0 + length (meta_bytes bs) \<le> ?nr * ?nc * s" using ml by linarith
  note wm = write_bytes_Inr [OF nr f(2) pl(1) w fit]
  have S: "column_stream ?nr ?nc s data' = overwrite ?S1 0 (meta_bytes bs)" using wm(2) by simp
  have keep: "stored_at (column_stream ?nr ?nc s data') (blob_col B ?cs first ?blobs j * ?cs) (blob_ser B (?blobs ! j))" if j: "j < length ?blobs" for j
  proof -
    have "first * ?cs \<le> blob_col B ?cs first ?blobs j * ?cs" by (intro mult_le_mono1) (simp add: blob_col_def)
    then have "0 + length (meta_bytes bs) \<le> blob_col B ?cs first ?blobs j * ?cs" using ml by linarith
    moreover have "0 + length (meta_bytes bs) \<le> length ?S1" using fit by simp
    ultimately show ?thesis unfolding S using pl(3) [OF j] by (blast intro: overwrite_keeps)
  qed
  have "quilt_layout B ?nr ?nc s ?blobs patches' bs q"
    unfolding quilt_layout_def Let_def first_def [symmetric]
  proof (intro conjI allI impI)
    show "quilt_shape ?nr ?nc s q" using nr f(1,2) wm(1) by (simp add: quilt_shape_def q)
    show "stored_at (column_stream ?nr ?nc s (q_data q)) 0 (meta_bytes bs)" using overwrite_stored [of 0 "meta_bytes bs" ?S1] fit by (simp add: q S)
    show "blob_col B ?cs first ?blobs (length ?blobs) \<le> ?nc" using room by (simp add: blob_col_def)
    show "length patches' = length ?blobs" using pl(2) try_map_length [OF patches] by simp
    fix j assume j: "j < length ?blobs"
    show "patches' ! j = \<lparr> qp_start_index = blob_col B ?cs first ?blobs j, qp_end_index = blob_col B ?cs first ?blobs (Suc j),
          qp_identifier = qb_identifier (?blobs ! j), qp_tags = qb_tags (?blobs ! j) \<rparr>"
      using pl(3) [OF j] new_patches(1) [OF patches j tt] by (simp add: set_range_def)
    show "stored_at (column_stream ?nr ?nc s (q_data q)) (blob_col B ?cs first ?blobs j * ?cs) (blob_ser B (?blobs ! j))"
      using keep [OF j] by (simp add: q)
    show "validate_quilt_identifier (qb_identifier (?blobs ! j)) = Inr ()" by (rule new_patches(2) [OF patches j tt])
  qed (use bs size(2) f pl(3) in \<open>auto simp: q\<close>)
  then show ?thesis using that [of s patches' bs] dup by (simp add: q)
qed

section \<open>When construction succeeds\<close>

definition quilt_blob_ok :: "bcs_lib \<Rightarrow> quilt_store_blob \<Rightarrow> bool" where
  "quilt_blob_ok B b \<longleftrightarrow> validate_quilt_identifier (qb_identifier b) = Inr () \<and> btree_ok (qb_tags b) \<and> qb_data b \<noteq> [] \<and>
     (\<exists>sid. bcs_string B (qb_identifier b) = Some sid \<and> length sid < MAX_BLOB_IDENTIFIER_BYTES_LENGTH) \<and>
     (qb_tags b \<noteq> [] \<longrightarrow> (\<exists>st. bcs_tags B (qb_tags b) = Some st \<and> length st < 65536))"

definition empty_index :: "quilt_store_blob list \<Rightarrow> quilt_patch_v1 list" where
  "empty_index blobs = map (\<lambda>b. \<lparr> qp_start_index = 0, qp_end_index = 0, qp_identifier = qb_identifier b, qp_tags = qb_tags b \<rparr>) blobs"

lemma quilt_blob_okD:
  assumes ok: "bcs_ok B" and b: "quilt_blob_ok B b"
  shows "\<exists>p. get_header_and_extension_bytes B b = Inr p" and "serialized_blob_size B b = Inr (length (blob_ser B b))"
    and "patch_new_with_tags (qb_identifier b) (qb_tags b) =
      Inr \<lparr> qp_start_index = 0, qp_end_index = 0, qp_identifier = qb_identifier b, qp_tags = qb_tags b \<rparr>"
proof -
  show h: "\<exists>p. get_header_and_extension_bytes B b = Inr p"
    using b by (auto simp: quilt_blob_ok_def get_header_and_extension_bytes_def Let_def bcs_okD(1) [OF ok] try_from_u_def quilt_constants)
  have "\<exists>n. serialized_blob_size B b = Inr n"
    using b by (auto simp: quilt_blob_ok_def serialized_blob_size_def Let_def bcs_okD(1,3) [OF ok])
  then show "serialized_blob_size B b = Inr (length (blob_ser B b))" using h serialized_size_bounds(2) [OF ok] by fastforce
  show "patch_new_with_tags (qb_identifier b) (qb_tags b) =
      Inr \<lparr> qp_start_index = 0, qp_end_index = 0, qp_identifier = qb_identifier b, qp_tags = qb_tags b \<rparr>"
    using b by (simp add: quilt_blob_ok_def patch_new_with_tags_def btree_collect_id)
qed

lemma check_duplicates_distinct: "distinct (map qb_identifier bs) \<Longrightarrow> check_duplicates bs = Inr ()"
  by (induction bs rule: check_duplicates.induct) auto

lemma sorted_duplicates_distinct: "sorted (map qb_identifier bs) \<Longrightarrow> check_duplicates bs = Inr () \<Longrightarrow> distinct (map qb_identifier bs)"
proof (induction bs rule: check_duplicates.induct)
  case (1 a b bs)
  then have ne: "qb_identifier a \<noteq> qb_identifier b" and d: "distinct (map qb_identifier (b # bs))" by (auto split: if_splits)
  have "qb_identifier a < qb_identifier x" if "x \<in> set (b # bs)" for x
    using 1(2) ne that by (auto simp: order_less_le)
  then show ?case using d by fastforce
qed auto

lemma placed_index_size:
  assumes ok: "bcs_ok B" and len: "length patches' = length patches"
    and p: "\<And>j. j < length patches \<Longrightarrow> \<exists>a e. patches' ! j = set_range a e (patches ! j)"
    and n: "bcs_index_size B patches = Some n"
  obtains bs where "bcs_index B patches' = Some bs" and "length bs = n"
proof -
  have "map (set_range 0 0) patches' = map (set_range 0 0) patches"
  proof (rule nth_equalityI)
    fix j assume "j < length (map (set_range 0 0) patches')"
    then have j: "j < length patches" "j < length patches'" using len by simp_all
    obtain a e where "patches' ! j = set_range a e (patches ! j)" using p [OF j(1)] by blast
    then show "map (set_range 0 0) patches' ! j = map (set_range 0 0) patches ! j" using j by (simp add: set_range_def)
  qed (simp add: len)
  then have "map_option length (bcs_index B patches') = Some n" using bcs_okD(5,7) [OF ok] n by metis
  then show ?thesis using that by auto
qed

lemma construct_ok:
  assumes ok: "bcs_ok B" and nr: "0 < n_source_symbols c Primary" and nc: "n_source_symbols c Secondary < 65536"
    and dist: "distinct (map qb_identifier blobs)" and bl: "\<forall>b \<in> set blobs. quilt_blob_ok B b"
    and n: "bcs_index_size B (empty_index (sort_key qb_identifier blobs)) = Some n" "n < 2 ^ 32"
    and cnt: "length blobs < n_source_symbols c Secondary"
    and fits: "quilt_fits ((QUILT_INDEX_PREFIX_SIZE + n) # map (\<lambda>b. length (blob_ser B b)) (sort_key qb_identifier blobs))
      (n_source_symbols c Secondary) (n_source_symbols c Primary) MAX_NUM_SLIVERS_FOR_QUILT_INDEX RS2 s" and s: "s \<le> max_symbol_size RS2"
  obtains q where "construct_quilt B c blobs = Inr q" and "q_symbol_size q \<le> s"
proof -
  let ?nr = "n_source_symbols c Primary" and ?nc = "n_source_symbols c Secondary" and ?blobs = "sort_key qb_identifier blobs"
  let ?sizes = "map (\<lambda>b. length (blob_ser B b)) ?blobs"
  define total where "total = QUILT_INDEX_PREFIX_SIZE + n"
  have bl': "\<forall>b \<in> set ?blobs. quilt_blob_ok B b" using bl by simp
  have "distinct (map qb_identifier ?blobs)" using dist by (simp add: distinct_map)
  then have dup: "check_duplicates ?blobs = Inr ()" by (rule check_duplicates_distinct)
  have patches: "try_map (\<lambda>b. patch_new_with_tags (qb_identifier b) (qb_tags b)) ?blobs = Inr (empty_index ?blobs)"
    unfolding empty_index_def using bl' quilt_blob_okD(3) [OF ok] by (intro try_map_total) blast
  have sizes: "try_map (serialized_blob_size B) ?blobs = Inr ?sizes" using bl' quilt_blob_okD(2) [OF ok] by (intro try_map_total) blast
  have l: "length (total # ?sizes) \<le> ?nc" using cnt by simp
  have m: "0 < MAX_NUM_SLIVERS_FOR_QUILT_INDEX" by (simp add: MAX_NUM_SLIVERS_FOR_QUILT_INDEX_def)
  obtain r where r: "\<forall>t < r. \<not> quilt_fits (total # ?sizes) ?nc ?nr MAX_NUM_SLIVERS_FOR_QUILT_INDEX RS2 t"
    "quilt_compute_symbol_size (total # ?sizes) ?nc ?nr MAX_NUM_SLIVERS_FOR_QUILT_INDEX RS2 = (if r > max_symbol_size RS2 then Inl QuiltOversize else Inr r)"
    using quilt_symbol_size_value [OF _ l nr m] by blast
  have rs: "r \<le> s" using r(1) fits [folded total_def] not_le by blast
  then have sz: "quilt_compute_symbol_size (total # ?sizes) ?nc ?nr MAX_NUM_SLIVERS_FOR_QUILT_INDEX RS2 = Inr r" using r(2) s by simp
  note f = symbol_size_facts [OF sz nr]
  let ?cs = "?nr * r"
  define first where "first = div_ceil total ?cs"
  have room: "first + sum_list (map (blob_cols B ?cs) ?blobs) \<le> ?nc" using f(6) unfolding first_def by (simp add: blob_cols_def [abs_def] comp_def)
  have len0: "length (replicate (?nr * ?nc * r) (0 :: byte)) = ?nr * ?nc * r" by simp
  have hb: "\<forall>b \<in> set ?blobs. qb_data b \<noteq> [] \<and> (\<exists>prefix. get_header_and_extension_bytes B b = Inr prefix)"
    using bl' quilt_blob_okD(1) [OF ok] by (auto simp: quilt_blob_ok_def)
  from place_blobs_ok [OF nr f(2) len0 room nc hb]
  obtain data patches' col where loop: "try_fold (place_blob B ?cs (?nc * r) r) (replicate (?nr * ?nc * r) 0, empty_index ?blobs, first) (enumerate 0 ?blobs) =
      Inr (data, patches', col)" by (metis prod_cases3)
  have li: "length (empty_index ?blobs) = length ?blobs" by (simp add: empty_index_def)
  note pl = place_blobs_Inr [OF nr f(2) len0 room loop]
  have pl: "length data = ?nr * ?nc * r" "length patches' = length (empty_index ?blobs)"
    "\<And>j. j < length (empty_index ?blobs) \<Longrightarrow> \<exists>a e. patches' ! j = set_range a e (empty_index ?blobs ! j)" using pl li by auto
  obtain bs where bs: "bcs_index B patches' = Some bs" "length bs = n" by (rule placed_index_size [OF ok pl(2,3) n(1)])
  have cs: "0 < ?cs" using nr f(2) by simp
  have "total \<le> first * ?cs" unfolding first_def using cs by (rule div_ceil_mult_ge)
  also have "\<dots> \<le> ?nc * ?cs" using room by (intro mult_le_mono1) linarith
  also have "\<dots> = ?nr * ?nc * r" by (simp only: ac_simps)
  finally have tl: "total \<le> ?nr * ?nc * r" .
  have mf: "0 * ?cs + 0 + length (meta_bytes bs) \<le> ?nr * ?nc * r" "0 * ?cs + 0 < ?nr * ?nc * r"
    using tl bs(2) nr f(1,2) by (simp_all add: total_def)
  obtain data' where w: "write_bytes_to_columns data (meta_bytes bs) 0 (?nc * r) ?cs r 0 = Inr data'"
    by (rule write_bytes_stream [OF nr f(2) pl(1) mf])
  have v: "validate_quilt_identifier (map of_char ''quilt_index'') = Inr ()"
    by (simp add: validate_quilt_identifier_def utf8_len_def trim_end_def is_whitespace_def is_control_def quilt_constants)
  let ?id = "map of_char ''quilt_index'' :: rstring"
  have e: "r * ?nr = ?cs" "r * ?nc = ?nc * r" "?nc * r * ?nr = ?nr * ?nc * r" by (simp_all only: ac_simps)
  have u: "try_from_u 32 n = Some n" using n(2) by (simp add: try_from_u_def)
  have meta: "[QUILT_VERSION_BYTE] @ to_le_bytes 4 n @ bs = meta_bytes bs" using bs(2) by (simp add: meta_bytes_def)
  have ml: "ensure (length (meta_bytes bs) = total) QuiltPanic = Inr ()" using bs(2) by (simp add: total_def)
  have il: "ensure (div_ceil total ?cs \<le> MAX_NUM_SLIVERS_FOR_QUILT_INDEX) QuiltPanic = Inr ()" using f(7) by simp
  have new: "quilt_store_blob_new (meta_bytes bs) ?id = Inr \<lparr> qb_data = meta_bytes bs, qb_identifier = ?id, qb_tags = [] \<rparr>"
    unfolding quilt_store_blob_new_def v by simp
  have add: "add_blob_to_quilt B data \<lparr> qb_data = meta_bytes bs, qb_identifier = i, qb_tags = [] \<rparr> True 0 ?cs (?nc * r) r =
      Inr (data', div_ceil (length (meta_bytes bs)) ?cs)" for i
    using w by (simp add: add_blob_to_quilt_def)
  have "construct_quilt B c blobs = Inr \<lparr> q_data = data', q_row_size = ?nc * r, q_symbol_size = r, q_index = Some patches' \<rparr>"
    unfolding construct_quilt_def Let_def total_def [symmetric]
    by (simp only: e dup patches n(1) u sizes total_def [symmetric] sz il loop [unfolded first_def] bs(1) meta ml new add
        and_then_simps ok_or_simps prod.case)
  then show ?thesis using that rs by simp
qed

end
