(* ===== verification/Quilt_Bcs.thy ===== *)
theory Quilt_Bcs
  imports Quilt_Correct
begin

text \<open>
  A serialization that meets the assumptions on \<^verbatim>\<open>bcs\<close>: the BCS format itself, for ASCII strings and for
  sequences of fewer than 128 elements, whose length prefix is one byte; it refuses everything else.
\<close>

definition str_ok :: "rstring \<Rightarrow> bool" where
  "str_ok s \<longleftrightarrow> length s < 128 \<and> (\<forall>c \<in> set s. c < 128)"

definition enc_str :: "rstring \<Rightarrow> bytes" where
  "enc_str s = of_nat (length s) # map of_nat s"

fun dec_str :: "bytes \<Rightarrow> (rstring \<times> bytes) option" where
  "dec_str [] = None"
| "dec_str (n # bs) = (if unat n \<le> length bs then Some (map unat (take (unat n) bs), drop (unat n) bs) else None)"

definition enc_list :: "('a \<Rightarrow> bytes) \<Rightarrow> 'a list \<Rightarrow> bytes" where
  "enc_list f xs = of_nat (length xs) # concat (map f xs)"

primrec dec_n :: "(bytes \<Rightarrow> ('a \<times> bytes) option) \<Rightarrow> nat \<Rightarrow> bytes \<Rightarrow> ('a list \<times> bytes) option" where
  "dec_n d 0 bs = Some ([], bs)"
| "dec_n d (Suc n) bs = (case d bs of None \<Rightarrow> None | Some (x, bs') \<Rightarrow>
     (case dec_n d n bs' of None \<Rightarrow> None | Some (xs, rest) \<Rightarrow> Some (x # xs, rest)))"

fun dec_list :: "(bytes \<Rightarrow> ('a \<times> bytes) option) \<Rightarrow> bytes \<Rightarrow> ('a list \<times> bytes) option" where
  "dec_list d [] = None"
| "dec_list d (n # bs) = dec_n d (unat n) bs"

definition enc_pair :: "rstring \<times> rstring \<Rightarrow> bytes" where
  "enc_pair p = enc_str (fst p) @ enc_str (snd p)"

definition dec_pair :: "bytes \<Rightarrow> ((rstring \<times> rstring) \<times> bytes) option" where
  "dec_pair bs = (case dec_str bs of None \<Rightarrow> None | Some (a, bs') \<Rightarrow>
     (case dec_str bs' of None \<Rightarrow> None | Some (b, rest) \<Rightarrow> Some ((a, b), rest)))"

definition tags_ok :: "quilt_tags \<Rightarrow> bool" where
  "tags_ok ts \<longleftrightarrow> length ts < 128 \<and> (\<forall>p \<in> set ts. str_ok (fst p) \<and> str_ok (snd p))"

definition enc_patch :: "quilt_patch_v1 \<Rightarrow> bytes" where
  "enc_patch p = to_le_bytes 2 (qp_end_index p) @ enc_str (qp_identifier p) @ enc_list enc_pair (qp_tags p)"

definition dec_patch :: "bytes \<Rightarrow> (quilt_patch_v1 \<times> bytes) option" where
  "dec_patch bs = (case dec_str (drop 2 bs) of None \<Rightarrow> None | Some (ident, bs') \<Rightarrow>
     (case dec_list dec_pair bs' of None \<Rightarrow> None | Some (ts, rest) \<Rightarrow>
       Some (\<lparr> qp_start_index = 0, qp_end_index = from_le_bytes (take 2 bs), qp_identifier = ident, qp_tags = ts \<rparr>, rest)))"

definition patches_ok :: "quilt_patch_v1 list \<Rightarrow> bool" where
  "patches_ok ps \<longleftrightarrow> length ps < 128 \<and> (\<forall>p \<in> set ps. str_ok (qp_identifier p) \<and> tags_ok (qp_tags p))"

text \<open>\<^verbatim>\<open>from_bytes\<close> refuses input that is left over.\<close>

definition complete :: "('a \<times> bytes) option \<Rightarrow> 'a option" where
  "complete r = (case r of Some (x, []) \<Rightarrow> Some x | _ \<Rightarrow> None)"

definition ascii_bcs :: bcs_lib where
  "ascii_bcs = \<lparr>
     bcs_string = (\<lambda>s. if str_ok s then Some (enc_str s) else None),
     bcs_string_size = (\<lambda>s. if str_ok s then Some (length (enc_str s)) else None),
     bcs_string_from = (\<lambda>bs. complete (dec_str bs)),
     bcs_tags = (\<lambda>ts. if tags_ok ts then Some (enc_list enc_pair ts) else None),
     bcs_tags_size = (\<lambda>ts. if tags_ok ts then Some (length (enc_list enc_pair ts)) else None),
     bcs_tags_from = (\<lambda>bs. complete (dec_list dec_pair bs)),
     bcs_index = (\<lambda>ps. if patches_ok ps then Some (enc_list enc_patch ps) else None),
     bcs_index_size = (\<lambda>ps. if patches_ok ps then Some (length (enc_list enc_patch ps)) else None),
     bcs_index_from = (\<lambda>bs. complete (dec_list dec_patch bs)) \<rparr>"

lemma dec_enc_str: "str_ok s \<Longrightarrow> dec_str (enc_str s @ rest) = Some (s, rest)"
  by (auto simp: str_ok_def enc_str_def unat_of_nat_byte intro!: map_idI)

lemma dec_enc_list:
  assumes "length xs < 128" and "\<And>x rest. x \<in> set xs \<Longrightarrow> d (f x @ rest) = Some (g x, rest)"
  shows "dec_list d (enc_list f xs @ rest) = Some (map g xs, rest)"
proof -
  have "dec_n d (length xs) (concat (map f xs) @ rest) = Some (map g xs, rest)"
    using assms(2) by (induction xs) auto
  then show ?thesis using assms(1) by (simp add: enc_list_def unat_of_nat_byte)
qed

lemma dec_enc_pair: "str_ok (fst p) \<Longrightarrow> str_ok (snd p) \<Longrightarrow> dec_pair (enc_pair p @ rest) = Some (p, rest)"
  by (simp add: enc_pair_def dec_pair_def dec_enc_str)

lemma dec_enc_tags: "tags_ok ts \<Longrightarrow> dec_list dec_pair (enc_list enc_pair ts @ rest) = Some (ts, rest)"
  using dec_enc_list [of ts dec_pair enc_pair "\<lambda>p. p" rest] by (simp add: tags_ok_def dec_enc_pair)

lemma dec_enc_patch:
  assumes "str_ok (qp_identifier p)" "tags_ok (qp_tags p)" "qp_end_index p < 65536"
  shows "dec_patch (enc_patch p @ rest) = Some (p\<lparr> qp_start_index := 0 \<rparr>, rest)"
  using assms by (simp add: dec_patch_def enc_patch_def dec_enc_str dec_enc_tags le2_round_trip)

lemma dec_enc_index:
  assumes "patches_ok ps" and "\<forall>p \<in> set ps. qp_end_index p < 65536"
  shows "dec_list dec_patch (enc_list enc_patch ps @ rest) = Some (map (\<lambda>p. p\<lparr> qp_start_index := 0 \<rparr>) ps, rest)"
  using assms by (intro dec_enc_list) (auto simp: patches_ok_def dec_enc_patch)

lemma index_size_shape:
  assumes "map (set_range 0 0) ps = map (set_range 0 0) qs"
  shows "patches_ok ps = patches_ok qs" and "length (enc_list enc_patch ps) = length (enc_list enc_patch qs)"
proof -
  have l: "list_all2 (\<lambda>p q. set_range 0 0 p = set_range 0 0 q) ps qs" using assms
    by (metis (mono_tags, lifting) list_all2_conv_all_nth map_eq_imp_length_eq nth_map)
  have f: "qp_identifier p = qp_identifier q \<and> qp_tags p = qp_tags q" if "set_range 0 0 p = set_range 0 0 q" for p q :: quilt_patch_v1
    using that by (cases p; cases q) (simp add: set_range_def)
  have e: "length (enc_patch p) = length (enc_patch q)" if "set_range 0 0 p = set_range 0 0 q" for p q :: quilt_patch_v1
    using f [OF that] by (simp add: enc_patch_def)
  have "(\<forall>p \<in> set ps. str_ok (qp_identifier p) \<and> tags_ok (qp_tags p)) = (\<forall>p \<in> set qs. str_ok (qp_identifier p) \<and> tags_ok (qp_tags p))"
    using l by (induction rule: list_all2_induct) (auto dest: f)
  then show "patches_ok ps = patches_ok qs" using list_all2_lengthD [OF l] by (simp add: patches_ok_def)
  have "length (concat (map enc_patch ps)) = length (concat (map enc_patch qs))" using l by (induction rule: list_all2_induct) (auto dest: e)
  then show "length (enc_list enc_patch ps) = length (enc_list enc_patch qs)" by (simp add: enc_list_def)
qed

lemma ascii_sel [simp]:
  "bcs_string ascii_bcs s = (if str_ok s then Some (enc_str s) else None)"
  "bcs_string_size ascii_bcs s = (if str_ok s then Some (length (enc_str s)) else None)"
  "bcs_string_from ascii_bcs bs = complete (dec_str bs)"
  "bcs_tags ascii_bcs ts = (if tags_ok ts then Some (enc_list enc_pair ts) else None)"
  "bcs_tags_size ascii_bcs ts = (if tags_ok ts then Some (length (enc_list enc_pair ts)) else None)"
  "bcs_tags_from ascii_bcs bs = complete (dec_list dec_pair bs)"
  "bcs_index ascii_bcs ps = (if patches_ok ps then Some (enc_list enc_patch ps) else None)"
  "bcs_index_size ascii_bcs ps = (if patches_ok ps then Some (length (enc_list enc_patch ps)) else None)"
  "bcs_index_from ascii_bcs bs = complete (dec_list dec_patch bs)"
  by (simp_all add: ascii_bcs_def)

lemma ascii_bcs_ok: "bcs_ok ascii_bcs"
  unfolding bcs_ok_def
proof (intro conjI allI impI)
  fix s bs assume "bcs_string ascii_bcs s = Some bs"
  then show "bcs_string_from ascii_bcs bs = Some s"
    using dec_enc_str [of s "[]"] by (simp add: complete_def split: if_split_asm)
next
  fix ts bs assume "btree_ok ts \<and> bcs_tags ascii_bcs ts = Some bs"
  then show "bcs_tags_from ascii_bcs bs = Some ts"
    using dec_enc_tags [of ts "[]"] by (simp add: complete_def split: if_split_asm)
next
  fix ps bs assume "(\<forall>p \<in> set ps. qp_end_index p < 65536 \<and> btree_ok (qp_tags p)) \<and> bcs_index ascii_bcs ps = Some bs"
  then show "bcs_index_from ascii_bcs bs = Some (map (\<lambda>p. p\<lparr> qp_start_index := 0 \<rparr>) ps)"
    using dec_enc_index [of ps "[]"] by (simp add: complete_def split: if_split_asm)
next
  fix ps qs :: "quilt_patch_v1 list" assume "map (set_range 0 0) ps = map (set_range 0 0) qs"
  from index_size_shape [OF this] show "bcs_index_size ascii_bcs ps = bcs_index_size ascii_bcs qs" by simp
qed simp_all

end
