(* ===== verification/Quilt_Props.thy ===== *)
theory Quilt_Props
  imports Quilt_Construct Quilt_Bcs Blob_Props
begin

text \<open>
  The properties of quilts: what was put into a quilt is read back, from the quilt and from its
  slivers, lookups by identifier and by tag, when construction succeeds and when it panics; with a
  serialization of small ASCII strings that meets the assumptions on the library.
\<close>

section \<open>Reading a constructed quilt\<close>

lemma layoutD:
  assumes "quilt_layout B nr nc s blobs ps bs q" and "first = div_ceil (length (meta_bytes bs)) (nr * s)"
  shows "quilt_shape nr nc s q" "q_index q = Some ps" "bcs_index B ps = Some bs" "length bs < 2 ^ 32" "length ps = length blobs"
    "stored_at (column_stream nr nc s (q_data q)) 0 (meta_bytes bs)" "blob_col B (nr * s) first blobs (length blobs) \<le> nc" "0 < nr * s"
    and "j < length blobs \<Longrightarrow> stored_at (column_stream nr nc s (q_data q)) (blob_col B (nr * s) first blobs j * (nr * s)) (blob_ser B (blobs ! j))"
    and "j < length blobs \<Longrightarrow> \<exists>prefix. get_header_and_extension_bytes B (blobs ! j) = Inr prefix"
    and "j < length blobs \<Longrightarrow> validate_quilt_identifier (qb_identifier (blobs ! j)) = Inr ()"
    and "j < length blobs \<Longrightarrow> blob_col B (nr * s) first blobs (Suc j) < 65536"
    and "j < length blobs \<Longrightarrow> ps ! j = \<lparr> qp_start_index = blob_col B (nr * s) first blobs j,
       qp_end_index = blob_col B (nr * s) first blobs (Suc j), qp_identifier = qb_identifier (blobs ! j), qp_tags = qb_tags (blobs ! j) \<rparr>"
  using assms unfolding quilt_layout_def Let_def by (auto simp: quilt_shape_def)

lemma layout_first_le:
  assumes "quilt_layout B nr nc s blobs ps bs q" shows "div_ceil (length (meta_bytes bs)) (nr * s) \<le> nc"
  using layoutD(7) [OF assms refl] by (simp add: blob_col_def)

lemma layout_index_ok:
  assumes l: "quilt_layout B nr nc s blobs ps bs q" and t: "\<forall>b \<in> set blobs. btree_ok (qb_tags b)"
  shows "\<forall>p \<in> set ps. qp_end_index p < 65536 \<and> btree_ok (qp_tags p)" and "contiguous (div_ceil (length (meta_bytes bs)) (nr * s)) ps"
proof -
  note d = layoutD [OF l refl]
  show "\<forall>p \<in> set ps. qp_end_index p < 65536 \<and> btree_ok (qp_tags p)"
    using d(5,12,13) t nth_mem by (fastforce simp: in_set_conv_nth)
  show "contiguous (div_ceil (length (meta_bytes bs)) (nr * s)) ps"
    unfolding contiguous_def
  proof (intro allI impI)
    fix i assume "i < length ps"
    then show "qp_start_index (ps ! i) = (if i = 0 then div_ceil (length (meta_bytes bs)) (nr * s) else qp_end_index (ps ! (i - 1)))"
      using d(5) d(13) [of i] d(13) [of "i - 1"] by (cases i) auto
  qed
qed

text \<open>The size field of a header is 32 bits wide.\<close>

definition quilt_input_ok :: "bcs_lib \<Rightarrow> quilt_store_blob list \<Rightarrow> bool" where
  "quilt_input_ok B blobs \<longleftrightarrow> (\<forall>b \<in> set blobs. btree_ok (qb_tags b) \<and> length (blob_ser B b) < 2 ^ 32 + BLOB_HEADER_SIZE)"

lemma blob_total_small:
  assumes "get_header_and_extension_bytes B b = Inr prefix" and "bcs_ok B" and "length (blob_ser B b) < 2 ^ 32 + BLOB_HEADER_SIZE"
  shows "blob_total prefix b < 2 ^ 32"
proof (rule header_bytes_cases [OF assms(1,2)])
  fix sid tags
  assume p: "prefix = header_as_bytes \<lparr> bh_length = blob_total prefix b mod 2 ^ 32, bh_mask = if qb_tags b = [] then 0 else TAGS_ENABLED \<rparr> @
        to_le_bytes 2 (length sid) @ sid @ tags"
  have "8 \<le> length prefix" using arg_cong [OF p, of length] by (simp add: header_as_bytes_def)
  then show ?thesis using assms(1,3) by (simp add: blob_total_def blob_ser_def quilt_constants)
qed

context column_reader
begin

lemma layout_decode_index:
  assumes l: "quilt_layout B nr nc s blobs ps bs q" and h: "holds src (nr * s) (column_stream nr nc s (q_data q)) cols"
    and cols: "{0..<div_ceil (length (meta_bytes bs)) (nr * s)} \<subseteq> cols"
    and "bcs_ok B" "nc < 65536" "\<forall>b \<in> set blobs. btree_ok (qb_tags b)"
  shows "decode_quilt_index B (read src) (nr * s) = Inr ps"
  using stored_at_take [OF layoutD(6) [OF l refl]] layout_first_le [OF l] layoutD(3,4,8) [OF l refl] layout_index_ok [OF l] assms
  by (intro decode_stored_index [OF h _ cols]) auto

lemma layout_decode_blob:
  assumes l: "quilt_layout B nr nc s blobs ps bs q" and h: "holds src (nr * s) (column_stream nr nc s (q_data q)) cols"
    and j: "j < length blobs" and cols: "{qp_start_index (ps ! j)..<qp_end_index (ps ! j)} \<subseteq> cols"
    and ok: "bcs_ok B" "quilt_input_ok B blobs"
  shows "decode_blob B (read src) (qp_start_index (ps ! j)) = Inr (blobs ! j)"
proof -
  note d = layoutD [OF l refl]
  let ?b = "blobs ! j"
  obtain prefix where p: "get_header_and_extension_bytes B ?b = Inr prefix" using d(10) [OF j] by blast
  have ser: "blob_ser B ?b = prefix @ qb_data ?b" by (simp add: blob_ser_def p)
  have b: "btree_ok (qb_tags ?b)" "length (blob_ser B ?b) < 2 ^ 32 + BLOB_HEADER_SIZE" using ok(2) j by (simp_all add: quilt_input_ok_def)
  have "{qp_start_index (ps ! j)..<qp_start_index (ps ! j) + div_ceil (length (prefix @ qb_data ?b)) (nr * s)} \<subseteq> cols"
    using cols d(13) [OF j] blob_col_Suc [OF j] by (simp add: blob_cols_def ser)
  then show ?thesis
    using stored_at_take [OF d(9) [OF j]] d(13) [OF j] blob_total_small [OF p ok(1) b(2)] b(1) d(11) [OF j] ok(1) p d(8)
    by (intro decode_stored_blob [OF h d(8)]) (auto simp: ser)
qed

end

lemma layout_quilt_holds: "quilt_layout B nr nc s blobs ps bs q \<Longrightarrow> quilt_holds q (nr * s) (column_stream nr nc s (q_data q)) UNIV"
  unfolding quilt_holds_def by (blast dest: layoutD(1) [OF _ refl])

lemma layout_quilt_blobs:
  assumes l: "quilt_layout B nr nc s blobs ps bs q" and ok: "bcs_ok B" "quilt_input_ok B blobs" and j: "j < length blobs"
  shows "decode_blob B (range_read_from_columns q) (qp_start_index (ps ! j)) = Inr (blobs ! j)"
  using quilt_reader.layout_decode_blob [OF l layout_quilt_holds [OF l] j] ok by simp

text \<open>Decoding a selection of the patches gives the selection of the blobs.\<close>

lemma layout_try_map:
  assumes l: "quilt_layout B nr nc s blobs ps bs q" and f: "\<And>j. j < length blobs \<Longrightarrow> P (ps ! j) \<Longrightarrow> f (ps ! j) = Inr (blobs ! j)"
    and PQ: "\<And>j. j < length blobs \<Longrightarrow> P (ps ! j) = Q (blobs ! j)"
  shows "try_map f (filter P ps) = Inr (filter Q blobs)"
proof -
  have "list_all2 (\<lambda>p b. (P p \<longrightarrow> f p = Inr b) \<and> P p = Q b) ps blobs"
    using layoutD(5) [OF l refl] f PQ by (simp add: list_all2_conv_all_nth)
  then show ?thesis by (induction rule: list_all2_induct) auto
qed

lemma new_from_constructed:
  assumes l: "quilt_layout B nr nc s blobs ps bs q" and ok: "bcs_ok B" and t: "\<forall>b \<in> set blobs. btree_ok (qb_tags b)"
    and c: "nr = n_source_symbols c Primary" "nc = n_source_symbols c Secondary" "nc < 65536"
  shows "new_from_quilt_blob B c (q_data q) = Inr q"
proof -
  have sh: "0 < nr" "0 < nc" "0 < s" "length (q_data q) = nr * nc * s" "q_row_size q = nc * s" "q_symbol_size q = s"
    using layoutD(1) [OF l refl] by (simp_all add: quilt_shape_def)
  let ?q = "\<lparr> q_data = q_data q, q_row_size = s * nc, q_symbol_size = s, q_index = None \<rparr>"
  have ne: "q_data q \<noteq> []" using sh by (cases "q_data q") auto
  have "quilt_holds ?q (nr * s) (column_stream nr nc s (q_data q)) UNIV"
    using sh by (auto simp: quilt_holds_def quilt_shape_def mult.commute)
  from quilt_reader.layout_decode_index [OF l this] ok c(3) t
  have "decode_quilt_index B (range_read_from_columns ?q) (nr * s) = Inr ps" by simp
  moreover have "length (q_data q) div (s * nc) * s = nr * s" using sh by (simp add: mult.commute mult.left_commute)
  moreover have "q = ?q\<lparr> q_index := Some ps \<rparr>" using layoutD(2) [OF l refl] sh by (simp add: mult.commute)
  ultimately show ?thesis using ne sh(1-4) unfolding new_from_quilt_blob_def Let_def c(1,2) [symmetric]
    by (simp add: get_or_decode_quilt_index_def Let_def)
qed

lemma layout_first_byte:
  assumes l: "quilt_layout B nr nc s blobs ps bs q" shows "new_from_sliver (q_data q) = Inr QuiltVersionV1"
proof -
  have sh: "length (q_data q) = nr * nc * s" "0 < nr * nc * s" using layoutD(1) [OF l refl] by (simp_all add: quilt_shape_def)
  have "column_stream nr nc s (q_data q) ! 0 = QUILT_VERSION_BYTE" using layoutD(6) [OF l refl] by (simp add: stored_at_def meta_bytes_def)
  moreover have "column_stream nr nc s (q_data q) ! 0 = q_data q ! 0" using sh by (simp add: column_stream_def qindex_def qcell_def)
  moreover have "q_data q \<noteq> []" using sh by (cases "q_data q") auto
  ultimately show ?thesis by (simp add: new_from_sliver_def quilt_version_try_from_def)
qed

lemma take_patches_distinct:
  "distinct (map qp_identifier ps) \<Longrightarrow>
   take_patches ids ps = (filter (\<lambda>p. qp_identifier p \<in> set ids) ps, filter (\<lambda>i. i \<notin> qp_identifier ` set ps) ids)"
proof (induction ps arbitrary: ids)
  case (Cons p ps)
  have "qp_identifier x \<noteq> qp_identifier p" if "x \<in> set ps" for x using Cons.prems that by (simp add: image_iff) metis
  then have "filter (\<lambda>x. qp_identifier x \<in> set ids \<and> qp_identifier x \<noteq> qp_identifier p) ps = filter (\<lambda>x. qp_identifier x \<in> set ids) ps"
    by (auto intro!: filter_cong)
  then show ?case using Cons by (auto simp: removeAll_filter_not_eq intro!: filter_cong)
qed simp

text \<open>The index lists the blobs: lookups of patches select blobs.\<close>

lemma layout_identifiers:
  assumes "quilt_layout B nr nc s blobs ps bs q" shows "map qp_identifier ps = map qb_identifier blobs"
  using layoutD(5,13) [OF assms refl] by (auto intro!: nth_equalityI)

lemma layout_by_identifiers:
  assumes l: "quilt_layout B nr nc s blobs ps bs q" and d: "distinct (map qb_identifier blobs)"
  shows "get_quilt_patches_by_identifiers ps ids =
    (if set ids \<subseteq> qb_identifier ` set blobs then Inr (filter (\<lambda>p. qp_identifier p \<in> set ids) ps)
     else Inl (BlobsNotFoundInQuilt (filter (\<lambda>i. i \<notin> qb_identifier ` set blobs) (remdups ids))))"
proof -
  have m: "map qp_identifier ps = map qb_identifier blobs" by (rule layout_identifiers [OF l])
  then have im: "qp_identifier ` set ps = qb_identifier ` set blobs" by (metis image_set)
  have "filter (\<lambda>i. i \<notin> qb_identifier ` set blobs) (remdups ids) \<noteq> [] \<longleftrightarrow> \<not> set ids \<subseteq> qb_identifier ` set blobs"
    by (auto simp: filter_empty_conv)
  then show ?thesis using take_patches_distinct [of ps "remdups ids"] d unfolding get_quilt_patches_by_identifiers_def m im by simp
qed

lemma quilt_input_sort: "quilt_input_ok B blobs \<Longrightarrow> quilt_input_ok B (sort_key qb_identifier blobs)"
  by (simp add: quilt_input_ok_def)

section \<open>Quilts as slivers\<close>

text \<open>Columns of the message matrix are columns of the quilt.\<close>

lemma quilt_column:
  assumes len: "length data = nr * nc * s" and pos: "0 < nr" "0 < s" and j: "j < nc"
  shows "concat (map (\<lambda>r. take s (drop ((nc * r + j) * s) data)) [0..<nr]) = take (nr * s) (drop (j * (nr * s)) (column_stream nr nc s data))"
proof -
  let ?S = "column_stream nr nc s data"
  have upt: "[j * nr..<j * nr + nr] = map (\<lambda>r. r + j * nr) [0..<nr]" using map_add_upt [of "j * nr" nr] by (simp add: add.commute)
  have "take s (drop ((nc * r + j) * s) data) = take s (drop ((j * nr + r) * s) ?S)" if r: "r < nr" for r
  proof -
    have "Suc (j * nr + r) \<le> nr * nc" using r mult_le_mono2 [OF Suc_leI [OF j], of nr] by (simp add: algebra_simps)
    then have "(j * nr + r) * s + 0 + s \<le> nr * nc * s" using mult_le_mono1 [of "Suc (j * nr + r)" "nr * nc" s] by (simp add: algebra_simps)
    moreover have "qindex nr nc s ((j * nr + r) * s + 0) = (nc * r + j) * s"
      unfolding qindex_cell [OF pos(2,2)] using r pos by (simp add: algebra_simps)
    ultimately show ?thesis using column_stream_slice(1) [OF len, of "(j * nr + r) * s + 0" s] pos by simp
  qed
  then have "concat (map (\<lambda>r. take s (drop ((nc * r + j) * s) data)) [0..<nr]) = concat (map (\<lambda>r. take s (drop ((j * nr + r) * s) ?S)) [0..<nr])"
    by (intro arg_cong [where f = concat] map_cong) simp_all
  also have "\<dots> = concat (map (\<lambda>g. take s (drop (g * s) ?S)) [j * nr..<j * nr + nr])"
    unfolding upt map_map comp_def by (simp only: add.commute)
  also have "\<dots> = take (nr * s) (drop (j * (nr * s)) ?S)" unfolding concat_columns by (simp add: mult.assoc)
  finally show ?thesis .
qed

lemma secondary_sliver_column:
  assumes ok: "be_ok L be" and full: "length (be_blob be) = be_n_rows be * be_n_columns be * be_symbol_size be"
  shows "j < be_n_columns be \<Longrightarrow> sym_data (sl_symbols (secondary_sliver L be j)) =
      take (be_n_rows be * be_symbol_size be) (drop (j * (be_n_rows be * be_symbol_size be))
        (column_stream (be_n_rows be) (be_n_columns be) (be_symbol_size be) (be_blob be)))"
    and "j < n_of be \<Longrightarrow> length (sym_data (sl_symbols (secondary_sliver L be j))) = be_n_rows be * be_symbol_size be"
proof -
  note d = be_okD [OF ok]
  have pad: "padded be = be_blob be" by (simp add: padded_def full)
  have "map (\<lambda>r. cell L be r j) [0..<be_n_rows be] = map (\<lambda>r. take (be_symbol_size be) (drop ((be_n_columns be * r + j) * be_symbol_size be) (be_blob be))) [0..<be_n_rows be]"
    if "j < be_n_columns be" using cell_msg [OF ok _ that] by (simp add: msg_def pad)
  then show "j < be_n_columns be \<Longrightarrow> sym_data (sl_symbols (secondary_sliver L be j)) =
      take (be_n_rows be * be_symbol_size be) (drop (j * (be_n_rows be * be_symbol_size be))
        (column_stream (be_n_rows be) (be_n_columns be) (be_symbol_size be) (be_blob be)))"
    using quilt_column [OF full d(4,3)] by (simp only: secondary_sliver_def sliver_data.simps mk_symbols_sel)
  have "sized (be_symbol_size be) (map (\<lambda>r. cell L be r j) [0..<be_n_rows be])" if "j < n_of be"
    using length_cell [OF ok _ that] d(1) by (simp add: sized_map)
  from length_concat_sized [OF this]
  show "j < n_of be \<Longrightarrow> length (sym_data (sl_symbols (secondary_sliver L be j))) = be_n_rows be * be_symbol_size be"
    by (simp add: secondary_sliver_def)
qed

lemma add_slivers_ok:
  assumes "\<forall>s \<in> set ss. length (sym_data (sl_symbols s)) = cs \<and> s = f (sl_index s)" and "qd_column_size d = None \<or> qd_column_size d = Some cs"
  shows "\<exists>d'. add_slivers d ss = (d', Inr ()) \<and> qd_quilt_index d' = qd_quilt_index d \<and> (ss \<noteq> [] \<longrightarrow> qd_column_size d' = Some cs) \<and>
    (\<forall>j. j \<in> sl_index ` set ss \<or> qd_slivers d j = Some (f j) \<longrightarrow> qd_slivers d' j = Some (f j))"
  using assms
proof (induction ss arbitrary: d)
  case (Cons s ss)
  let ?d = "d\<lparr> qd_column_size := Some cs, qd_slivers := (qd_slivers d)(sl_index s \<mapsto> s) \<rparr>"
  have v: "validate_and_update_column_size (qd_column_size d) (length (sym_data (sl_symbols s))) = Inr (Some cs)"
    using Cons.prems by (auto simp: validate_and_update_column_size_def)
  obtain d' where d': "add_slivers ?d ss = (d', Inr ())" "qd_quilt_index d' = qd_quilt_index d" "ss \<noteq> [] \<longrightarrow> qd_column_size d' = Some cs"
    "\<forall>j. j \<in> sl_index ` set ss \<or> qd_slivers ?d j = Some (f j) \<longrightarrow> qd_slivers d' j = Some (f j)"
    using Cons.IH [of ?d] Cons.prems(1) by auto
  have sf: "s = f (sl_index s)" using Cons.prems(1) by simp
  have "qd_slivers d' j = Some (f j)" if "j \<in> sl_index ` set (s # ss) \<or> qd_slivers d j = Some (f j)" for j
  proof (cases "j = sl_index s")
    case True
    then show ?thesis using d'(4) sf by simp
  next
    case False
    then show ?thesis using d'(4) that by auto
  qed
  moreover have "qd_column_size d' = Some cs" using d'(1,3) by (cases "ss = []") auto
  moreover have "add_slivers d (s # ss) = (d', Inr ())" using v d'(1) by simp
  ultimately show ?case using d'(2) by blast
qed simp

text \<open>The decoder of the slivers an encoded quilt gives holds the columns of these slivers.\<close>

lemma encoded_decoder_holds:
  assumes ready: "rs_enc_ready L c" and new: "blob_encoder_new c (q_data q) = Inr be"
    and sh: "quilt_shape (n_source_symbols c Primary) (n_source_symbols c Secondary) s q" and bs: "be_symbol_size be = s"
    and nc: "n_source_symbols c Secondary < 65536" and i: "set is \<subseteq> {..<rs_n_shards c}" "is \<noteq> []"
    and cols: "cols \<subseteq> (\<lambda>i. rs_n_shards c - 1 - i) ` set is \<inter> {..<n_source_symbols c Secondary}"
  obtains d where "add_slivers \<lparr> qd_slivers = Map.empty, qd_quilt_index = idx, qd_column_size = None \<rparr>
        (map (\<lambda>i. pair_secondary (encoded_pairs L be ! i)) is) = (d, Inr ())" and "qd_quilt_index d = idx"
    and "decoder_holds d (n_source_symbols c Primary * s)
      (column_stream (n_source_symbols c Primary) (n_source_symbols c Secondary) s (q_data q)) cols"
proof -
  note be = blob_encoder_new_ok [OF ready new] and ok = be_okD [OF blob_encoder_new_ok(1) [OF ready new]]
  let ?nr = "n_source_symbols c Primary" and ?nc = "n_source_symbols c Secondary"
  have full: "length (be_blob be) = be_n_rows be * be_n_columns be * be_symbol_size be" using sh be(2,3) bs ok(9,10) by (simp add: quilt_shape_def)
  note col = secondary_sliver_column [OF be(1) full]
  have dims: "be_n_rows be = ?nr" "be_n_columns be = ?nc" using ok(9,10) be(2) by simp_all
  let ?ss = "map (\<lambda>i. pair_secondary (encoded_pairs L be ! i)) is"
  have ss: "?ss = map (\<lambda>i. secondary_sliver L be (n_of be - 1 - i)) is" using i(1) be(2) by (auto simp: encoded_pairs_def)
  have len: "\<forall>s \<in> set ?ss. length (sym_data (sl_symbols s)) = ?nr * be_symbol_size be \<and> s = secondary_sliver L be (sl_index s)"
    unfolding ss using col(2) ok(6) dims by (auto simp: secondary_sliver_def)
  obtain d where d: "add_slivers \<lparr> qd_slivers = Map.empty, qd_quilt_index = idx, qd_column_size = None \<rparr> ?ss = (d, Inr ())" "qd_quilt_index d = idx"
    "qd_column_size d = Some (?nr * be_symbol_size be)" "\<forall>j. j \<in> sl_index ` set ?ss \<longrightarrow> qd_slivers d j = Some (secondary_sliver L be j)"
    using add_slivers_ok [OF len, of "\<lparr> qd_slivers = Map.empty, qd_quilt_index = idx, qd_column_size = None \<rparr>"] i(2) by auto
  have "sl_index ` set ?ss = (\<lambda>i. rs_n_shards c - 1 - i) ` set is" unfolding ss be(2) by (auto simp: secondary_sliver_def image_image)
  then have at: "qd_slivers d j = Some (secondary_sliver L be j) \<and> j < ?nc" if "j \<in> cols" for j using d(4) cols that by auto
  have "decoder_holds d (?nr * s) (column_stream ?nr ?nc s (q_data q)) cols"
    unfolding decoder_holds_def
  proof (intro conjI ballI)
    fix j assume j: "j \<in> cols"
    show "(j + 1) * (?nr * s) \<le> length (column_stream ?nr ?nc s (q_data q))"
      using at [OF j] mult_le_mono1 [of "j + 1" ?nc "?nr * s"] by (simp add: ac_simps)
    show "\<exists>sl. qd_slivers d j = Some sl \<and> sym_data (sl_symbols sl) = take (?nr * s) (drop (j * (?nr * s)) (column_stream ?nr ?nc s (q_data q)))"
      using at [OF j] col(1) [of j] dims bs be(3) by simp
    show "j < 65536" using at [OF j] nc by simp
  qed (use d(3) bs in simp)
  then show ?thesis using that d by blast
qed

text \<open>The matrix of a quilt fills its blob: encoding it uses the symbol size of the quilt.\<close>

lemma quilt_encode_value:
  assumes ready: "rs_enc_ready L c" and per: "n_source_symbols c Primary * n_source_symbols c Secondary < 2 ^ 32"
    and l: "quilt_layout B (n_source_symbols c Primary) (n_source_symbols c Secondary) s blobs' ps bs q" and con: "construct_quilt B c blobs = Inr q"
  obtains be where "blob_encoder_new c (q_data q) = Inr be" and "be_symbol_size be = s"
    and "quilt_encode_with_metadata H L B c blobs = Inr (encoded_pairs L be,
      \<lparr> qm_quilt_id = blob_id (expanded_metadata H L be), qm_metadata = metadata (expanded_metadata H L be), qm_index = ps \<rparr>)"
proof -
  let ?k = "n_source_symbols c Primary * n_source_symbols c Secondary"
  have sh: "0 < ?k" "0 < s" "length (q_data q) = ?k * s" "q_symbol_size q = s" "even s" "s < 65536"
    using l by (simp_all add: quilt_layout_def quilt_shape_def)
  have "compute_symbol_size (length (q_data q)) ?k 2 = Inr s" unfolding sh(3) using sh by (intro compute_symbol_size_exact)
  then obtain be where be: "blob_encoder_new c (q_data q) = Inr be" "be_symbol_size be = s"
    using per by (simp add: blob_encoder_new_def source_symbols_per_blob_def checked_mul_def)
  then have "quilt_encode_with_metadata H L B c blobs = Inr (encoded_pairs L be,
      \<lparr> qm_quilt_id = blob_id (expanded_metadata H L be), qm_metadata = metadata (expanded_metadata H L be), qm_index = ps \<rparr>)"
    using encode_with_metadata_ok [OF blob_encoder_new_ok(1) [OF ready be(1)], of H] con layoutD(2) [OF l refl] sh(4)
    by (simp add: quilt_encode_with_metadata_def quilt_index_def)
  then show ?thesis using that be by blast
qed

lemma decoder_holds_check:
  "decoder_holds d cs S cols \<Longrightarrow> {s..<e} \<subseteq> cols \<Longrightarrow> check_missing_slivers d s e = Inr ()"
  by (rule check_missing_ok) (auto simp: decoder_holds_def)

lemma layout_decoder_blobs:
  assumes l: "quilt_layout B nr nc s blobs ps bs q" and h: "decoder_holds d (nr * s) (column_stream nr nc s (q_data q)) cols"
    and ok: "bcs_ok B" "quilt_input_ok B blobs" and d: "distinct (map qb_identifier blobs)" and idx: "qd_quilt_index d = Some ps"
    and ids: "get_sliver_indices_for_identifiers ps ids = Inr wanted" "set wanted \<subseteq> cols"
  shows "decoder_get_blobs_by_identifiers B d ids = Inr (filter (\<lambda>b. qb_identifier b \<in> set ids) blobs)"
proof -
  have by_id: "get_quilt_patches_by_identifiers ps ids = Inr (filter (\<lambda>p. qp_identifier p \<in> set ids) ps)"
    "wanted = concat (map patch_sliver_indices (filter (\<lambda>p. qp_identifier p \<in> set ids) ps))"
    using ids(1) layout_by_identifiers [OF l d, of ids]
    by (auto simp: get_sliver_indices_for_identifiers_def get_quilt_patches_by_identifiers_def split: prod.splits if_splits)
  have "get_patch_by_quilt_patch B d (ps ! j) = Inr (blobs ! j)" if j: "j < length blobs" "qp_identifier (ps ! j) \<in> set ids" for j
  proof -
    have "ps ! j \<in> set ps" using j(1) layoutD(5) [OF l refl] by simp
    then have sub: "{qp_start_index (ps ! j)..<qp_end_index (ps ! j)} \<subseteq> cols" using ids(2) j(2) by (fastforce simp: by_id(2) patch_sliver_indices_def)
    show ?thesis using decoder_holds_check [OF h sub] decoder_reader.layout_decode_blob [OF l h j(1) sub ok] by (simp add: get_patch_by_quilt_patch_def)
  qed
  then have "try_map (get_patch_by_quilt_patch B d) (filter (\<lambda>p. qp_identifier p \<in> set ids) ps) = Inr (filter (\<lambda>b. qb_identifier b \<in> set ids) blobs)"
    using layoutD(13) [OF l refl] by (intro layout_try_map [OF l]) simp_all
  then show ?thesis by (simp add: decoder_get_blobs_by_identifiers_def idx by_id(1))
qed

lemma layout_decoder_index:
  assumes l: "quilt_layout B nr nc s blobs ps bs q" and h: "decoder_holds d (nr * s) (column_stream nr nc s (q_data q)) cols"
    and ok: "bcs_ok B" "\<forall>b \<in> set blobs. btree_ok (qb_tags b)" and nc: "nc < 65536" and idx: "qd_quilt_index d = None"
    and ne: "ps \<noteq> []" and sub: "{..<qp_start_index (hd ps)} \<subseteq> cols"
  shows "decoder_get_or_decode_quilt_index B d = Inr (d\<lparr> qd_quilt_index := Some ps \<rparr>, ps)"
proof -
  let ?first = "div_ceil (length (meta_bytes bs)) (nr * s)"
  have "0 < length ps" using ne by simp
  then have "0 < length blobs" "hd ps = ps ! 0" using layoutD(5) [OF l refl] hd_conv_nth [OF ne] by simp_all
  then have "qp_start_index (hd ps) = ?first" using layoutD(13) [OF l refl, of 0] by simp
  then have sub: "{0..<?first} \<subseteq> cols" using sub by (simp add: lessThan_atLeast0)
  have "0 < ?first" using div_ceil_le_iff [OF layoutD(8) [OF l refl], of "length (meta_bytes bs)" 0] by (auto simp: quilt_constants gr0_conv_Suc)
  then have "{0..<1} \<subseteq> cols" using sub by auto
  from decoder_holds_check [OF h this] decoder_reader.layout_decode_index [OF l h sub ok(1) nc ok(2)] idx h show ?thesis
    by (simp add: decoder_get_or_decode_quilt_index_def decoder_holds_def)
qed

lemma rs_enc_ready_pos: assumes "rs_enc_ready L c" shows "0 < n_source_symbols c e"
proof -
  have "rs_encodable L (n_source_symbols c e) (rs_n_shards c) 2" using assms unfolding rs_enc_ready_def by auto
  then show ?thesis by (simp add: rs_encodable_def)
qed

text \<open>The columns named by the index are columns of the matrix.\<close>

lemma layout_in_cols:
  assumes l: "quilt_layout B nr nc s blobs ps bs q" and p: "p \<in> set ps" shows "qp_start_index p \<le> qp_end_index p \<and> qp_end_index p \<le> nc"
proof -
  obtain j where j: "j < length blobs" "p = ps ! j" using p layoutD(5) [OF l refl] by (auto simp: in_set_conv_nth)
  let ?col = "blob_col B (nr * s) (div_ceil (length (meta_bytes bs)) (nr * s)) blobs"
  have "?col j \<le> ?col (Suc j)" "?col (Suc j) \<le> ?col (length blobs)" using j(1) by (simp_all only: blob_col_mono Suc_leI le_SucI order_refl)
  then show ?thesis using layoutD(7) [OF l refl] layoutD(13) [OF l refl j(1)] j(2) by simp
qed

lemma layout_wanted:
  assumes l: "quilt_layout B nr nc s blobs ps bs q" and d: "distinct (map qb_identifier blobs)"
  shows "set ids \<subseteq> qb_identifier ` set blobs \<Longrightarrow> \<exists>wanted. get_sliver_indices_for_identifiers ps ids = Inr wanted"
    and "get_sliver_indices_for_identifiers ps ids = Inr wanted \<Longrightarrow> set wanted \<subseteq> {..<nc}"
proof -
  have m: "map qp_identifier ps = map qb_identifier blobs" by (rule layout_identifiers [OF l])
  then have im: "qp_identifier ` set ps = qb_identifier ` set blobs" by (metis image_set)
  have dp: "distinct (map qp_identifier ps)" using d m by simp
  show "set ids \<subseteq> qb_identifier ` set blobs \<Longrightarrow> \<exists>wanted. get_sliver_indices_for_identifiers ps ids = Inr wanted"
    unfolding get_sliver_indices_for_identifiers_def take_patches_distinct [OF dp] im by (auto simp: filter_empty_conv)
  show "get_sliver_indices_for_identifiers ps ids = Inr wanted \<Longrightarrow> set wanted \<subseteq> {..<nc}"
    unfolding get_sliver_indices_for_identifiers_def take_patches_distinct [OF dp]
    using layout_in_cols [OF l] by (fastforce simp: patch_sliver_indices_def split: if_splits)
qed

lemma layout_start:
  assumes l: "quilt_layout B nr nc s blobs ps bs q" and "ps \<noteq> []" shows "{..<qp_start_index (hd ps)} \<subseteq> {..<nc}"
  using layout_in_cols [OF l hd_in_set [OF assms(2)]] by auto

section \<open>An example\<close>

definition example_blobs :: "quilt_store_blob list" where
  "example_blobs = [\<lparr> qb_data = [7, 8, 9], qb_identifier = [98], qb_tags = [] \<rparr>,
     \<lparr> qb_data = [1, 2], qb_identifier = [97], qb_tags = [([107], [118])] \<rparr>]"

lemma example_sort: "sort_key qb_identifier example_blobs = [example_blobs ! 1, example_blobs ! 0]"
  by (simp add: example_blobs_def sort_key_def)

lemma example_ser: "map (\<lambda>b. length (blob_ser ascii_bcs b)) [example_blobs ! 1, example_blobs ! 0] = [19, 13]"
  by (simp add: example_blobs_def blob_ser_def get_header_and_extension_bytes_def str_ok_def enc_str_def tags_ok_def enc_list_def enc_pair_def
      try_from_u_def header_as_bytes_def set_has_tags_def)

lemma example_input_ok: "quilt_input_ok ascii_bcs example_blobs"
  using example_ser by (simp add: quilt_input_ok_def example_blobs_def btree_ok_def)

lemma small_config_sources [simp]: "source_symbols_primary small_config = 2" "source_symbols_secondary small_config = 3"
  by (simp_all add: small_config_def)

lemma example_facts:
  shows "\<forall>b \<in> set example_blobs. quilt_blob_ok ascii_bcs b"
    and "bcs_index_size ascii_bcs (empty_index (sort_key qb_identifier example_blobs)) = Some 15"
    and "quilt_fits ((QUILT_INDEX_PREFIX_SIZE + 15) # map (\<lambda>b. length (blob_ser ascii_bcs b)) (sort_key qb_identifier example_blobs))
      (n_source_symbols small_config Secondary) (n_source_symbols small_config Primary) MAX_NUM_SLIVERS_FOR_QUILT_INDEX RS2 10"
proof -
  show "\<forall>b \<in> set example_blobs. quilt_blob_ok ascii_bcs b"
    by (simp add: example_blobs_def quilt_blob_ok_def validate_quilt_identifier_def utf8_len_def trim_end_def is_whitespace_def is_control_def
        btree_ok_def quilt_constants str_ok_def enc_str_def tags_ok_def enc_list_def enc_pair_def)
  show "bcs_index_size ascii_bcs (empty_index (sort_key qb_identifier example_blobs)) = Some 15"
    unfolding example_sort
    by (simp add: example_blobs_def empty_index_def patches_ok_def str_ok_def tags_ok_def enc_list_def enc_patch_def enc_str_def enc_pair_def)
  have "quilt_fits [20, 19, 13] 3 2 MAX_NUM_SLIVERS_FOR_QUILT_INDEX RS2 10"
    by (simp add: quilt_fits_def required_alignment_def can_blobs_fit_into_matrix_def div_ceil_def quilt_constants MAX_NUM_SLIVERS_FOR_QUILT_INDEX_def)
  then show "quilt_fits ((QUILT_INDEX_PREFIX_SIZE + 15) # map (\<lambda>b. length (blob_ser ascii_bcs b)) (sort_key qb_identifier example_blobs))
      (n_source_symbols small_config Secondary) (n_source_symbols small_config Primary) MAX_NUM_SLIVERS_FOR_QUILT_INDEX RS2 10"
    unfolding example_sort example_ser by (simp add: quilt_constants)
qed

lemma example_quilt: "\<exists>q. construct_quilt ascii_bcs small_config example_blobs = Inr q"
proof -
  obtain q where "construct_quilt ascii_bcs small_config example_blobs = Inr q"
    by (rule construct_ok [OF ascii_bcs_ok _ _ _ example_facts(1,2) _ _ example_facts(3)]) (auto simp: example_blobs_def max_symbol_size_def)
  then show ?thesis by blast
qed

section \<open>Properties\<close>

text \<open>
  C18: A quilt can be read back. The matrix that \<^verbatim>\<open>construct_quilt\<close> returns, taken as the bytes of a
  Walrus blob, is recognised as a quilt and opened to the same quilt, index included, and reading
  all blobs gives the blobs it was made of, with their identifiers and tags, in the order of the
  identifiers, as long as each is small enough for the 32-bit size of its header.
\<close>

theorem quilt_roundtrip:
  assumes "bcs_ok B" and "0 < n_source_symbols c Primary" and "n_source_symbols c Secondary < 65536"
    and "quilt_input_ok B blobs" and "construct_quilt B c blobs = Inr q"
  shows "quilt_enum_new B c (q_data q) = Inr (QuiltEnumV1 q) \<and> get_all_blobs B q = Inr (sort_key qb_identifier blobs)"
proof -
  have t: "\<forall>b \<in> set blobs. btree_ok (qb_tags b)" using assms(4) by (simp add: quilt_input_ok_def)
  obtain s ps bs where l: "quilt_layout B (n_source_symbols c Primary) (n_source_symbols c Secondary) s (sort_key qb_identifier blobs) ps bs q"
    using construct_layout [OF assms(1,2) t assms(5)] by blast
  have "try_map (\<lambda>p. decode_blob B (range_read_from_columns q) (qp_start_index p)) (filter (\<lambda>_. True) ps) =
      Inr (filter (\<lambda>_. True) (sort_key qb_identifier blobs))"
    using layout_quilt_blobs [OF l assms(1) quilt_input_sort [OF assms(4)]] by (intro layout_try_map [OF l] refl)
  moreover have "new_from_quilt_blob B c (q_data q) = Inr q" using t assms(3) by (intro new_from_constructed [OF l assms(1) _ refl refl]) simp_all
  ultimately show ?thesis using layout_first_byte [OF l] layoutD(2) [OF l refl]
    by (simp add: quilt_enum_new_def get_all_blobs_def quilt_index_def)
qed

theorem quilt_roundtrip_witness:
  "\<exists>q. construct_quilt ascii_bcs small_config example_blobs = Inr q \<and> quilt_enum_new ascii_bcs small_config (q_data q) = Inr (QuiltEnumV1 q) \<and>
     get_all_blobs ascii_bcs q = Inr [example_blobs ! 1, example_blobs ! 0]"
proof -
  obtain q where q: "construct_quilt ascii_bcs small_config example_blobs = Inr q" using example_quilt by blast
  have "0 < n_source_symbols small_config Primary" "n_source_symbols small_config Secondary < 65536" by simp_all
  from quilt_roundtrip [OF ascii_bcs_ok this example_input_ok q] q show ?thesis unfolding example_sort by blast
qed

text \<open>
  C21: Lookups in a quilt return exactly the matching blobs. By identifiers: the blobs with the requested
  identifiers, each once, in the order of the identifiers; if an identifier is not in the quilt, the
  error names all that are missing. By tag: the blobs with that value of the tag. By the identifier of
  a patch of the index: its blob.
\<close>

theorem quilt_lookups:
  assumes "bcs_ok B" and "0 < n_source_symbols c Primary" and "n_source_symbols c Secondary < 65536"
    and "quilt_input_ok B blobs" and "construct_quilt B c blobs = Inr q"
  shows "get_blobs_by_identifiers B q ids =
      (if set ids \<subseteq> qb_identifier ` set blobs then Inr (filter (\<lambda>b. qb_identifier b \<in> set ids) (sort_key qb_identifier blobs))
       else Inl (BlobsNotFoundInQuilt (filter (\<lambda>i. i \<notin> qb_identifier ` set blobs) (remdups ids)))) \<and>
    get_blobs_by_tag B q t v = Inr (filter (\<lambda>b. map_of (qb_tags b) t = Some v) (sort_key qb_identifier blobs)) \<and>
    (\<exists>ps. q_index q = Some ps \<and>
       list_all2 (\<lambda>p b. qp_identifier p = qb_identifier b \<and>
         get_blob_by_patch_internal_id B q (patch_id_to_bytes (quilt_patch_internal_id p)) = Inr b) ps (sort_key qb_identifier blobs))"
proof -
  let ?blobs = "sort_key qb_identifier blobs"
  have t: "\<forall>b \<in> set blobs. btree_ok (qb_tags b)" using assms(4) by (simp add: quilt_input_ok_def)
  obtain s ps bs where l: "quilt_layout B (n_source_symbols c Primary) (n_source_symbols c Secondary) s ?blobs ps bs q"
    and dup: "check_duplicates ?blobs = Inr ()"
    using construct_layout [OF assms(1,2) t assms(5)] by blast
  note dec = layout_quilt_blobs [OF l assms(1) quilt_input_sort [OF assms(4)]]
  note d = layoutD [OF l refl]
  have dist: "distinct (map qb_identifier ?blobs)" using dup by (intro sorted_duplicates_distinct) simp_all
  have "try_map (\<lambda>p. decode_blob B (range_read_from_columns q) (qp_start_index p)) (filter (\<lambda>p. qp_identifier p \<in> set ids) ps) =
      Inr (filter (\<lambda>b. qb_identifier b \<in> set ids) ?blobs)"
    using dec d(13) by (intro layout_try_map [OF l]) simp_all
  then have "get_blobs_by_identifiers B q ids =
      (if set ids \<subseteq> qb_identifier ` set blobs then Inr (filter (\<lambda>b. qb_identifier b \<in> set ids) ?blobs)
       else Inl (BlobsNotFoundInQuilt (filter (\<lambda>i. i \<notin> qb_identifier ` set blobs) (remdups ids))))"
    using layout_by_identifiers [OF l dist, of ids] d(2) by (simp add: get_blobs_by_identifiers_def quilt_index_def)
  moreover have "get_blobs_by_tag B q t v = Inr (filter (\<lambda>b. map_of (qb_tags b) t = Some v) ?blobs)"
    unfolding get_blobs_by_tag_def quilt_index_def d(2) get_quilt_patches_by_tag_def ok_or_simps and_then_simps
    using dec d(13) by (intro layout_try_map [OF l]) (simp_all add: has_matched_tag_def)
  moreover have "qp_identifier (ps ! j) = qb_identifier (?blobs ! j) \<and>
      get_blob_by_patch_internal_id B q (patch_id_to_bytes (quilt_patch_internal_id (ps ! j))) = Inr (?blobs ! j)" if j: "j < length ?blobs" for j
  proof -
    have "qp_start_index (ps ! j) \<le> qp_end_index (ps ! j)" "qp_end_index (ps ! j) < 65536"
      using d(13) [OF j] d(12) [OF j] blob_col_Suc [OF j] by simp_all
    then have "patch_id_from_bytes (patch_id_to_bytes (quilt_patch_internal_id (ps ! j))) = Inr (quilt_patch_internal_id (ps ! j))"
      using patch_id_roundtrip [of "quilt_patch_internal_id (ps ! j)" "[]"] by (simp add: quilt_patch_internal_id_def)
    then show ?thesis using dec [OF j] d(13) [OF j] by (simp add: get_blob_by_patch_internal_id_def quilt_patch_internal_id_def)
  qed
  ultimately show ?thesis using d(2,5) by (auto simp: list_all2_conv_all_nth)
qed

theorem quilt_lookups_witness:
  "\<exists>q. construct_quilt ascii_bcs small_config example_blobs = Inr q \<and>
     get_blobs_by_identifiers ascii_bcs q [[97]] = Inr [example_blobs ! 1] \<and>
     get_blobs_by_identifiers ascii_bcs q [[97], [99]] = Inl (BlobsNotFoundInQuilt [[99]])"
proof -
  obtain q where q: "construct_quilt ascii_bcs small_config example_blobs = Inr q" using example_quilt by blast
  have c: "0 < n_source_symbols small_config Primary" "n_source_symbols small_config Secondary < 65536" by simp_all
  from quilt_lookups [OF ascii_bcs_ok c example_input_ok q, of "[[97]]"] quilt_lookups [OF ascii_bcs_ok c example_input_ok q, of "[[97], [99]]"]
  show ?thesis using q unfolding example_sort by (auto simp: example_blobs_def)
qed

text \<open>
  C17: The slivers a quilt's index names are enough. Encoding a quilt gives sliver pairs and an index.
  Given any slivers of these pairs, in any order, that include the columns the index gives for a set
  of identifiers, a decoder with the index returns exactly the blobs with these identifiers. And given
  slivers that include the columns before the first blob, a decoder without it recovers the index.
\<close>

theorem quilt_slivers_roundtrip:
  assumes ready: "rs_enc_ready L c" and per: "n_source_symbols c Primary * n_source_symbols c Secondary < 2 ^ 32"
    and nc: "n_source_symbols c Secondary < 65536" and ok: "bcs_ok B" "quilt_input_ok B blobs"
    and enc: "quilt_encode_with_metadata H L B c blobs = Inr (pairs, qm)"
    and i: "set is \<subseteq> {..<rs_n_shards c}" "is \<noteq> []" and avail: "avail = (\<lambda>i. rs_n_shards c - 1 - i) ` set is"
    and slivers: "slivers = map (\<lambda>i. pair_secondary (pairs ! i)) is"
  shows "(get_sliver_indices_for_identifiers (qm_index qm) ids = Inr wanted \<and> set wanted \<subseteq> avail \<longrightarrow>
      and_then (quilt_decoder_new_with_quilt_index slivers (qm_index qm)) (\<lambda>d. decoder_get_blobs_by_identifiers B d ids) =
        Inr (filter (\<lambda>b. qb_identifier b \<in> set ids) (sort_key qb_identifier blobs))) \<and>
    (qm_index qm \<noteq> [] \<and> {..<qp_start_index (hd (qm_index qm))} \<subseteq> avail \<longrightarrow>
      (\<exists>d. quilt_decoder_new slivers = Inr d \<and>
        decoder_get_or_decode_quilt_index B d = Inr (d\<lparr> qd_quilt_index := Some (qm_index qm) \<rparr>, qm_index qm)))"
proof -
  let ?nr = "n_source_symbols c Primary" and ?nc = "n_source_symbols c Secondary" and ?blobs = "sort_key qb_identifier blobs"
  obtain q where con: "construct_quilt B c blobs = Inr q" using enc by (auto simp: quilt_encode_with_metadata_def and_then_Inr_iff)
  have t: "\<forall>b \<in> set blobs. btree_ok (qb_tags b)" using ok(2) by (simp add: quilt_input_ok_def)
  have nr: "0 < ?nr" by (rule rs_enc_ready_pos [OF ready])
  obtain s ps bs where l: "quilt_layout B ?nr ?nc s ?blobs ps bs q" and dup: "check_duplicates ?blobs = Inr ()"
    using construct_layout [OF ok(1) nr t con] by blast
  have dist: "distinct (map qb_identifier ?blobs)" using dup by (intro sorted_duplicates_distinct) simp_all
  obtain be where be: "blob_encoder_new c (q_data q) = Inr be" "be_symbol_size be = s" and e: "pairs = encoded_pairs L be" "qm_index qm = ps"
    by (rule quilt_encode_value [OF ready per l con, of H]) (use enc in auto)
  let ?cols = "avail \<inter> {..<?nc}"
  have c: "?cols \<subseteq> (\<lambda>i. rs_n_shards c - 1 - i) ` set is \<inter> {..<?nc}" unfolding avail by blast
  note dec = encoded_decoder_holds [OF ready be(1) layoutD(1) [OF l refl] be(2) nc i c]
  note lookup = layout_wanted(2) [OF l dist, of ids wanted] and start = layout_start [OF l]
  show ?thesis
  proof (intro conjI impI)
    assume a: "get_sliver_indices_for_identifiers (qm_index qm) ids = Inr wanted \<and> set wanted \<subseteq> avail"
    obtain d where d: "add_slivers \<lparr> qd_slivers = Map.empty, qd_quilt_index = Some ps, qd_column_size = None \<rparr> slivers = (d, Inr ())"
      "qd_quilt_index d = Some ps" "decoder_holds d (?nr * s) (column_stream ?nr ?nc s (q_data q)) ?cols"
      using dec [of "Some ps"] unfolding slivers e(1) by blast
    have "set wanted \<subseteq> ?cols" using a lookup by (simp add: e(2))
    from layout_decoder_blobs [OF l d(3) ok(1) quilt_input_sort [OF ok(2)] dist d(2) _ this] a
    show "and_then (quilt_decoder_new_with_quilt_index slivers (qm_index qm)) (\<lambda>d. decoder_get_blobs_by_identifiers B d ids) =
        Inr (filter (\<lambda>b. qb_identifier b \<in> set ids) ?blobs)"
      using d(1) by (simp add: quilt_decoder_new_with_quilt_index_def e(2))
  next
    assume a: "qm_index qm \<noteq> [] \<and> {..<qp_start_index (hd (qm_index qm))} \<subseteq> avail"
    obtain d where d: "add_slivers \<lparr> qd_slivers = Map.empty, qd_quilt_index = None, qd_column_size = None \<rparr> slivers = (d, Inr ())"
      "qd_quilt_index d = None" "decoder_holds d (?nr * s) (column_stream ?nr ?nc s (q_data q)) ?cols"
      using dec [of None] unfolding slivers e(1) by blast
    have sub: "{..<qp_start_index (hd ps)} \<subseteq> ?cols" using a start by (simp add: e(2))
    have tt: "\<forall>b \<in> set ?blobs. btree_ok (qb_tags b)" using t by simp
    from layout_decoder_index [OF l d(3) ok(1) tt nc d(2) _ sub] a
    show "\<exists>d. quilt_decoder_new slivers = Inr d \<and> decoder_get_or_decode_quilt_index B d = Inr (d\<lparr> qd_quilt_index := Some (qm_index qm) \<rparr>, qm_index qm)"
      using d(1) by (intro exI [of _ d]) (simp add: quilt_decoder_new_def e(2))
  qed
qed

theorem quilt_slivers_roundtrip_witness:
  "\<exists>pairs qm slivers. quilt_encode_with_metadata (\<lambda>q. replicate 32 (of_nat (length q))) small_rs ascii_bcs small_config example_blobs = Inr (pairs, qm) \<and>
     slivers = map (\<lambda>i. pair_secondary (pairs ! i)) [2, 1, 3] \<and>
     and_then (quilt_decoder_new_with_quilt_index slivers (qm_index qm)) (\<lambda>d. decoder_get_blobs_by_identifiers ascii_bcs d [[97]]) = Inr [example_blobs ! 1] \<and>
     (\<exists>d. quilt_decoder_new slivers = Inr d \<and>
        decoder_get_or_decode_quilt_index ascii_bcs d = Inr (d\<lparr> qd_quilt_index := Some (qm_index qm) \<rparr>, qm_index qm))"
proof -
  let ?H = "\<lambda>q :: bytes. replicate 32 (of_nat (length q) :: byte)" and ?blobs = "sort_key qb_identifier example_blobs"
  obtain q where con: "construct_quilt ascii_bcs small_config example_blobs = Inr q" using example_quilt by blast
  have t: "\<forall>b \<in> set example_blobs. btree_ok (qb_tags b)" using example_input_ok by (simp add: quilt_input_ok_def)
  have pos: "0 < n_source_symbols small_config Primary" "n_source_symbols small_config Primary * n_source_symbols small_config Secondary < 2 ^ 32"
    "n_source_symbols small_config Secondary < 65536" by simp_all
  obtain s ps bs where l: "quilt_layout ascii_bcs (n_source_symbols small_config Primary) (n_source_symbols small_config Secondary) s ?blobs ps bs q"
    using construct_layout [OF ascii_bcs_ok pos(1) t con] by blast
  obtain pairs qm where enc: "quilt_encode_with_metadata ?H small_rs ascii_bcs small_config example_blobs = Inr (pairs, qm)" and ps: "qm_index qm = ps"
    by (rule quilt_encode_value [OF rs_ready_enc [OF small_ready] pos(2) l con, of ?H]) auto
  have dist: "distinct (map qb_identifier ?blobs)" unfolding example_sort by (simp add: example_blobs_def)
  have "set [[97]] \<subseteq> qb_identifier ` set ?blobs" unfolding example_sort by (simp add: example_blobs_def)
  then obtain wanted where w: "get_sliver_indices_for_identifiers (qm_index qm) [[97]] = Inr wanted" "set wanted \<subseteq> {..<3}"
    using layout_wanted [OF l dist] ps by fastforce
  define avail where "avail = (\<lambda>i. rs_n_shards small_config - 1 - i) ` set [2, 1, 3]"
  have "avail = {..<3}" by (auto simp: avail_def small_config_def lessThan_nat_numeral)
  moreover have "ps \<noteq> []" using layoutD(5) [OF l refl] by (auto simp: example_blobs_def)
  ultimately have av: "set wanted \<subseteq> avail" "{..<qp_start_index (hd (qm_index qm))} \<subseteq> avail" "qm_index qm \<noteq> []"
    using w(2) layout_start [OF l] ps by auto
  have i: "set [2, 1, 3] \<subseteq> {..<rs_n_shards small_config}" "[2, 1, 3] \<noteq> ([] :: nat list)" by (simp_all add: small_config_def)
  have f: "filter (\<lambda>b. qb_identifier b \<in> set [[97]]) ?blobs = [example_blobs ! 1]" unfolding example_sort by (simp add: example_blobs_def)
  from quilt_slivers_roundtrip [OF rs_ready_enc [OF small_ready] pos(2,3) ascii_bcs_ok example_input_ok enc i avail_def refl, of "[[97]]" wanted] w(1) av enc
  show ?thesis unfolding f by blast
qed

text \<open>
  C19: Construction succeeds when it should. If the identifiers are valid and distinct, the blobs are not empty,
  there are fewer than columns, and some symbol size within the maximum has room for the index and
  all of them, \<^verbatim>\<open>construct_quilt\<close> returns a quilt, without a panic, with a symbol size no larger; and so
  does the encoding of it into slivers.
\<close>

theorem construct_quilt_succeeds:
  assumes ok: "bcs_ok B" and ready: "rs_enc_ready L c" and per: "n_source_symbols c Primary * n_source_symbols c Secondary < 2 ^ 32"
    and nc: "n_source_symbols c Secondary < 65536"
    and dist: "distinct (map qb_identifier blobs)" and bl: "\<forall>b \<in> set blobs. quilt_blob_ok B b"
    and n: "bcs_index_size B (empty_index (sort_key qb_identifier blobs)) = Some n" "n < 2 ^ 32"
    and cnt: "length blobs < n_source_symbols c Secondary"
    and fits: "quilt_fits ((QUILT_INDEX_PREFIX_SIZE + n) # map (\<lambda>b. length (blob_ser B b)) (sort_key qb_identifier blobs))
      (n_source_symbols c Secondary) (n_source_symbols c Primary) MAX_NUM_SLIVERS_FOR_QUILT_INDEX RS2 s" and s: "s \<le> max_symbol_size RS2"
  shows "\<exists>q pairs qm. construct_quilt B c blobs = Inr q \<and> q_symbol_size q \<le> s \<and>
    quilt_encode_with_metadata H L B c blobs = Inr (pairs, qm) \<and> length pairs = rs_n_shards c \<and> q_index q = Some (qm_index qm)"
proof -
  obtain q where q: "construct_quilt B c blobs = Inr q" "q_symbol_size q \<le> s"
    by (rule construct_ok [OF ok rs_enc_ready_pos [OF ready] nc dist bl n cnt fits s])
  have t: "\<forall>b \<in> set blobs. btree_ok (qb_tags b)" using bl by (simp add: quilt_blob_ok_def)
  obtain s' ps bs where l: "quilt_layout B (n_source_symbols c Primary) (n_source_symbols c Secondary) s' (sort_key qb_identifier blobs) ps bs q"
    using construct_layout [OF ok rs_enc_ready_pos [OF ready] t q(1)] by blast
  obtain be where be: "blob_encoder_new c (q_data q) = Inr be" "quilt_encode_with_metadata H L B c blobs = Inr (encoded_pairs L be,
      \<lparr> qm_quilt_id = blob_id (expanded_metadata H L be), qm_metadata = metadata (expanded_metadata H L be), qm_index = ps \<rparr>)"
    by (rule quilt_encode_value [OF ready per l q(1), of H])
  then show ?thesis using q layoutD(2) [OF l refl] blob_encoder_new_ok(2) [OF ready be(1)] by (simp add: encoded_pairs_def)
qed

theorem construct_quilt_succeeds_witness:
  "\<exists>q pairs qm. construct_quilt ascii_bcs small_config example_blobs = Inr q \<and> q_symbol_size q \<le> 10 \<and>
     quilt_encode_with_metadata (\<lambda>q. replicate 32 (of_nat (length q))) small_rs ascii_bcs small_config example_blobs = Inr (pairs, qm) \<and>
     length pairs = 4 \<and> q_index q = Some (qm_index qm)"
proof -
  let ?H = "\<lambda>q :: bytes. replicate 32 (of_nat (length q) :: byte)"
  have c: "n_source_symbols small_config Primary * n_source_symbols small_config Secondary < 2 ^ 32" "n_source_symbols small_config Secondary < 65536"
    "distinct (map qb_identifier example_blobs)" "(15 :: nat) < 2 ^ 32" "length example_blobs < n_source_symbols small_config Secondary"
    "10 \<le> max_symbol_size RS2" by (simp_all add: example_blobs_def max_symbol_size_def)
  from construct_quilt_succeeds [OF ascii_bcs_ok rs_ready_enc [OF small_ready] c(1-3) example_facts(1,2) c(4,5) example_facts(3) c(6), of ?H]
  show ?thesis by (simp add: small_config_def)
qed

section \<open>An empty blob at the end\<close>

definition empty_blob :: quilt_store_blob where
  "empty_blob = \<lparr> qb_data = [], qb_identifier = [97, 98, 99], qb_tags = [] \<rparr>"

lemma empty_blob_search: "quilt_compute_symbol_size [13, 12] 3 2 10 RS2 = Inr 6"
proof -
  note step = search_symbol_size.simps [where blobs_sizes = "[13, 12]" and n_columns = 3 and n_rows = 2]
  have "search_symbol_size [13, 12] 3 2 5 7 = 6"
    by (simp add: step [of 5 7] step [of 5 6] step [of 6 6] can_blobs_fit_into_matrix_def div_ceil_def)
  then show ?thesis
    by (simp add: quilt_compute_symbol_size_def div_ceil_def next_multiple_of_def quilt_constants required_alignment_def max_symbol_size_def
        numeral_2_eq_2 [symmetric])
qed

text \<open>Writing no bytes at a position past the last column fails its assertion.\<close>

lemma add_empty_blob_panics:
  assumes pos: "0 < nr" "0 < s" and len: "length data = nr * nc * s" and p: "get_header_and_extension_bytes B blob = Inr prefix"
    and full: "col * (nr * s) + length prefix = nr * nc * s" and ne: "prefix \<noteq> []" and empty: "qb_data blob = []"
  shows "add_blob_to_quilt B data blob False col (nr * s) (nc * s) s = Inl QuiltPanic"
proof -
  have fit: "col * (nr * s) + 0 + length prefix \<le> nr * nc * s" "col * (nr * s) + 0 < nr * nc * s" using full ne by (metis add.right_neutral order_refl) (metis add.right_neutral full length_greater_0_conv less_add_same_cancel1 ne)
  obtain d where d: "write_bytes_to_columns data prefix col (nc * s) (nr * s) s 0 = Inr d"
    by (rule write_bytes_stream [OF pos len fit])
  have "(col * (nr * s) + length prefix) div (nr * s) = nc" using full pos by (simp add: mult.commute mult.left_commute)
  then have "col + length prefix div (nr * s) = nc" using pos by simp
  then have "write_bytes_to_columns d [] col (nc * s) (nr * s) s (length prefix) = Inl QuiltPanic"
    using pos by (simp add: write_bytes_to_columns_def Let_def)
  then show ?thesis using p d empty by (simp add: add_blob_to_quilt_def)
qed

text \<open>
  An empty blob whose header ends exactly at the end of the matrix makes the construction panic, though
  the search has found room for it: writing its zero bytes of data would start past the last column.
\<close>

theorem construct_quilt_empty_blob_panics: "construct_quilt ascii_bcs small_config [empty_blob] = Inl QuiltPanic"
proof -
  have sort: "sort_key qb_identifier [empty_blob] = [empty_blob]" by simp
  have v: "patch_new_with_tags (qb_identifier empty_blob) (qb_tags empty_blob) =
      Inr \<lparr> qp_start_index = 0, qp_end_index = 0, qp_identifier = [97, 98, 99], qp_tags = [] \<rparr>"
    by (simp add: empty_blob_def patch_new_with_tags_def validate_quilt_identifier_def utf8_len_def trim_end_def is_whitespace_def is_control_def
        btree_collect_def quilt_constants)
  have n: "bcs_index_size ascii_bcs [\<lparr> qp_start_index = 0, qp_end_index = 0, qp_identifier = [97, 98, 99], qp_tags = [] \<rparr>] = Some 8"
    by (simp add: patches_ok_def str_ok_def tags_ok_def enc_list_def enc_patch_def enc_str_def)
  have sz: "serialized_blob_size ascii_bcs empty_blob = Inr 12"
    by (simp add: serialized_blob_size_def empty_blob_def str_ok_def enc_str_def quilt_constants Let_def)
  obtain prefix where p: "get_header_and_extension_bytes ascii_bcs empty_blob = Inr prefix" "length prefix = 12"
    by (simp add: get_header_and_extension_bytes_def empty_blob_def str_ok_def enc_str_def try_from_u_def header_as_bytes_def Let_def)
  have "prefix \<noteq> []" using p(2) by auto
  then have "add_blob_to_quilt ascii_bcs (replicate 36 0) empty_blob False 2 12 18 6 = Inl QuiltPanic"
    using add_empty_blob_panics [of 2 6 "replicate 36 0" 3 ascii_bcs empty_blob prefix 2] p by (auto simp: empty_blob_def)
  then show ?thesis
    by (simp add: construct_quilt_def sort v n sz empty_blob_search try_from_u_def place_blob_def div_ceil_def quilt_constants Let_def
        MAX_NUM_SLIVERS_FOR_QUILT_INDEX_def numeral_2_eq_2 [symmetric] del: ascii_sel sort_key_simps)
qed

end
