(* ===== verification/Mp4.thy ===== *)
theory Mp4
  imports Prelude
begin

text \<open>
  The MP4 index parser of the video samples, \<^verbatim>\<open>drop-lib/src/video_sampling/mp4.rs\<close>: boxes, the tables of a
  video track, and the list of its samples with their times and byte ranges.

  Lengths and unsigned fields are natural numbers, times are integers, with the checked 64-bit
  operations written out. Slices are byte lists. An index out of bounds is \<open>Mp4Panic\<close>.
\<close>

datatype mp4_error =
    Truncated
  | InvalidBoxSize
  | IntegerOverflow
  | MissingMoov
  | DuplicateMoov
  | FragmentedMp4
  | MissingVideoTrack
  | MultipleVideoTracks
  | MultipleAudioTracks
  | UnsupportedTrack
  | UnsupportedEditList
  | ExternalDataReference
  | MissingMediaHeader
  | MissingSampleTable
  | MissingTable string
  | UnsupportedCodec bytes
  | InvalidTable string
  | SampleCountMismatch
  | Mp4Panic

record video_sample =
  vs_index :: nat
  vs_decode_time :: nat
  vs_presentation_time :: int
  vs_duration :: nat
  vs_byte_offset :: nat
  vs_byte_size :: nat
  vs_is_sync :: bool

record video_track =
  vt_timescale :: nat
  vt_media_duration :: nat
  vt_presentation_start :: int
  vt_presentation_end :: int
  vt_codec :: bytes
  vt_samples :: "video_sample list"

section \<open>Reading fields\<close>

definition fourcc :: "string \<Rightarrow> bytes" where
  "fourcc s = map of_char s"

definition read_u32 :: "bytes \<Rightarrow> nat \<Rightarrow> nat option" where
  "read_u32 data offset = map_option from_be_bytes (get_range data offset 4)"

definition read_u64 :: "bytes \<Rightarrow> nat \<Rightarrow> nat option" where
  "read_u64 data offset = map_option from_be_bytes (get_range data offset 8)"

text \<open>\<open>as_signed w\<close> is the conversion of an unsigned \<open>w\<close>-bit integer to the signed type of that width.\<close>

definition as_signed :: "nat \<Rightarrow> nat \<Rightarrow> int" where
  "as_signed w n = (if n < 2 ^ (w - 1) then int n else int n - 2 ^ w)"

definition read_i16 :: "bytes \<Rightarrow> nat \<Rightarrow> int option" where
  "read_i16 data offset = map_option (\<lambda>b. as_signed 16 (from_be_bytes b)) (get_range data offset 2)"

definition read_fourcc :: "bytes \<Rightarrow> nat \<Rightarrow> bytes option" where
  "read_fourcc data offset = get_range data offset 4"

section \<open>Boxes\<close>

record iso_box =
  box_kind :: bytes
  box_payload :: bytes

text \<open>
  \<open>BoxIter::next\<close> on the bytes from the current position on; an error moves the position to the end.
  The size of a box is at most what is left, so the new position does not overflow.
\<close>

definition next_box :: "bytes \<Rightarrow> ((iso_box, mp4_error) result \<times> bytes) option" where
  "next_box remaining =
     (if remaining = [] then None
      else if length remaining < 8 then Some (Inl Truncated, [])
      else
        let size32 = from_be_bytes (take 4 remaining); kind = take 4 (drop 4 remaining) in
        if size32 = 1 \<and> length remaining < 16 then Some (Inl Truncated, [])
        else
          let (header_size, box_size) =
                (if size32 = 1 then (16, from_be_bytes (take 8 (drop 8 remaining)))
                 else if size32 = 0 then (8, length remaining) else (8, size32)) in
          if box_size < header_size \<or> box_size > length remaining then Some (Inl InvalidBoxSize, [])
          else Some (Inr \<lparr> box_kind = kind, box_payload = take (box_size - header_size) (drop header_size remaining) \<rparr>,
                 drop box_size remaining))"

lemma next_box_progress: "next_box data = Some (r, rest) \<Longrightarrow> length rest < length data"
  by (auto simp: next_box_def Let_def split: if_splits)

text \<open>A \<^verbatim>\<open>for\<close> loop over the boxes of a slice with the \<open>?\<close> operator on each item.\<close>

function box_fold :: "('s \<Rightarrow> iso_box \<Rightarrow> ('s, mp4_error) result) \<Rightarrow> 's \<Rightarrow> bytes \<Rightarrow> ('s, mp4_error) result" where
  "box_fold f s data =
     (case next_box data of
        None \<Rightarrow> Inr s
      | Some (item, rest) \<Rightarrow> (case item of Inl e \<Rightarrow> Inl e | Inr b \<Rightarrow> (case f s b of Inl e \<Rightarrow> Inl e | Inr s' \<Rightarrow> box_fold f s' rest)))"
  by pat_completeness auto
termination
  by (relation "measure (\<lambda>(f, s, data). length data)") (auto simp: next_box_progress)

declare box_fold.simps [simp del]

definition find_child :: "bytes \<Rightarrow> bytes \<Rightarrow> (bytes option, mp4_error) result" where
  "find_child data kind =
     box_fold (\<lambda>found item.
       if box_kind item = kind then
         if found \<noteq> None then Inl (InvalidTable ''duplicate box'') else Inr (Some (box_payload item))
       else Inr found) None data"

definition required_child :: "bytes \<Rightarrow> bytes \<Rightarrow> string \<Rightarrow> (bytes, mp4_error) result" where
  "required_child data kind name = and_then (find_child data kind) (ok_or (MissingTable name))"

section \<open>Headers of a track\<close>

datatype handler = Video | Audio

record track_tables =
  tt_timescale :: nat
  tt_media_duration :: nat
  tt_edit_media_time :: int
  tt_stsd :: bytes
  tt_stts :: bytes
  tt_ctts :: "bytes option"
  tt_stss :: "bytes option"
  tt_stsz :: bytes
  tt_stsc :: bytes
  tt_chunk_offsets :: bytes
  tt_chunk_offsets_are_64_bit :: bool

abbreviation read_or :: "(bytes \<Rightarrow> nat \<Rightarrow> 'a option) \<Rightarrow> bytes \<Rightarrow> nat \<Rightarrow> ('a, mp4_error) result" where
  "read_or f data offset \<equiv> ok_or Truncated (f data offset)"

definition first_byte :: "bytes \<Rightarrow> (byte, mp4_error) result" where
  "first_byte data = (case data of [] \<Rightarrow> Inl Truncated | b # _ \<Rightarrow> Inr b)"

definition parse_edit_media_time :: "bytes \<Rightarrow> (int, mp4_error) result" where
  "parse_edit_media_time track =
     and_then (find_child track (fourcc ''edts'')) (\<lambda>edts. case edts of None \<Rightarrow> Inr 0 | Some edts \<Rightarrow>
     and_then (and_then (find_child edts (fourcc ''elst'')) (ok_or UnsupportedEditList)) (\<lambda>elst.
     and_then (first_byte elst) (\<lambda>version.
     and_then (read_or read_u32 elst 4) (\<lambda>entry_count.
     if entry_count \<noteq> 1 then Inl UnsupportedEditList
     else
       and_then
         (if version = 0 then
            and_then (read_or read_u32 elst 8) (\<lambda>d. and_then (read_or read_u32 elst 12) (\<lambda>m. Inr (d, as_signed 32 m, 16)))
          else if version = 1 then
            and_then (read_or read_u64 elst 8) (\<lambda>d. and_then (read_or read_u64 elst 16) (\<lambda>m. Inr (d, as_signed 64 m, 24)))
          else Inl UnsupportedEditList) (\<lambda>(segment_duration, media_time, rate_offset).
       and_then (read_or read_i16 elst rate_offset) (\<lambda>rate_integer.
       and_then (read_or read_i16 elst (rate_offset + 2)) (\<lambda>rate_fraction.
       if segment_duration = 0 \<or> media_time < 0 \<or> rate_integer \<noteq> 1 \<or> rate_fraction \<noteq> 0
       then Inl UnsupportedEditList else Inr media_time)))))))"

definition parse_handler :: "bytes \<Rightarrow> (handler, mp4_error) result" where
  "parse_handler data =
     and_then (read_or read_fourcc data 8) (\<lambda>h.
     if h = fourcc ''vide'' then Inr Video else if h = fourcc ''soun'' then Inr Audio else Inl UnsupportedTrack)"

definition parse_mdhd :: "bytes \<Rightarrow> (nat \<times> nat, mp4_error) result" where
  "parse_mdhd data =
     and_then (first_byte data) (\<lambda>version.
     and_then
       (if version = 0 then
          and_then (read_or read_u32 data 12) (\<lambda>t. and_then (read_or read_u32 data 16) (\<lambda>d. Inr (t, d)))
        else if version = 1 then
          and_then (read_or read_u32 data 20) (\<lambda>t. and_then (read_or read_u64 data 24) (\<lambda>d. Inr (t, d)))
        else Inl (InvalidTable ''mdhd version'')) (\<lambda>(timescale, duration).
     if timescale = 0 then Inl (InvalidTable ''zero timescale'') else Inr (timescale, duration)))"

definition check_data_entry :: "nat \<Rightarrow> iso_box \<Rightarrow> (nat, mp4_error) result" where
  "check_data_entry seen item =
     (if box_kind item \<noteq> fourcc ''url '' \<or> length (box_payload item) < 4 then Inl ExternalDataReference
      else
        let p = box_payload item; flags = unat (p ! 1) * 65536 + unat (p ! 2) * 256 + unat (p ! 3) in
        if flags mod 2 = 0 then Inl ExternalDataReference else Inr (seen + 1))"

definition verify_self_contained :: "bytes \<Rightarrow> (unit, mp4_error) result" where
  "verify_self_contained minf =
     and_then (find_child minf (fourcc ''dinf'')) (\<lambda>dinf. case dinf of None \<Rightarrow> Inr () | Some dinf \<Rightarrow>
     and_then (find_child dinf (fourcc ''dref'')) (\<lambda>dref. case dref of None \<Rightarrow> Inl ExternalDataReference | Some dref \<Rightarrow>
     and_then (read_or read_u32 dref 4) (\<lambda>entry_count.
     and_then (if length dref < 8 then Inl Truncated else Inr (drop 8 dref)) (\<lambda>entries.
     and_then (box_fold check_data_entry 0 entries) (\<lambda>seen.
     if seen \<noteq> entry_count then Inl (InvalidTable ''dref entry count'') else Inr ())))))"

definition parse_track :: "bytes \<Rightarrow> (handler \<times> track_tables, mp4_error) result" where
  "parse_track track =
     and_then (parse_edit_media_time track) (\<lambda>edit_media_time.
     and_then (and_then (find_child track (fourcc ''mdia'')) (ok_or MissingMediaHeader)) (\<lambda>mdia.
     and_then (and_then (find_child mdia (fourcc ''hdlr'')) (ok_or MissingMediaHeader)) (\<lambda>hdlr.
     and_then (parse_handler hdlr) (\<lambda>hd.
     and_then (and_then (find_child mdia (fourcc ''mdhd'')) (ok_or MissingMediaHeader)) (\<lambda>mdhd.
     and_then (parse_mdhd mdhd) (\<lambda>(timescale, media_duration).
     and_then (and_then (find_child mdia (fourcc ''minf'')) (ok_or MissingSampleTable)) (\<lambda>minf.
     and_then (verify_self_contained minf) (\<lambda>_.
     and_then (and_then (find_child minf (fourcc ''stbl'')) (ok_or MissingSampleTable)) (\<lambda>stbl.
     and_then (required_child stbl (fourcc ''stsd'') ''stsd'') (\<lambda>stsd.
     and_then (required_child stbl (fourcc ''stts'') ''stts'') (\<lambda>stts.
     and_then (find_child stbl (fourcc ''ctts'')) (\<lambda>ctts.
     and_then (find_child stbl (fourcc ''stss'')) (\<lambda>stss.
     and_then (required_child stbl (fourcc ''stsz'') ''stsz'') (\<lambda>stsz.
     and_then (required_child stbl (fourcc ''stsc'') ''stsc'') (\<lambda>stsc.
     and_then (find_child stbl (fourcc ''stco'')) (\<lambda>stco.
     and_then (case stco of Some t \<Rightarrow> Inr t | None \<Rightarrow> required_child stbl (fourcc ''co64'') ''stco/co64'') (\<lambda>chunk_offsets.
     Inr (hd, \<lparr> tt_timescale = timescale, tt_media_duration = media_duration, tt_edit_media_time = edit_media_time,
       tt_stsd = stsd, tt_stts = stts, tt_ctts = ctts, tt_stss = stss, tt_stsz = stsz, tt_stsc = stsc,
       tt_chunk_offsets = chunk_offsets, tt_chunk_offsets_are_64_bit = (stco = None) \<rparr>))))))))))))))))))"

section \<open>Sample tables\<close>

definition parse_video_codec :: "bytes \<Rightarrow> (bytes, mp4_error) result" where
  "parse_video_codec stsd =
     and_then (read_or read_u32 stsd 4) (\<lambda>entry_count.
     if entry_count \<noteq> 1 then Inl (InvalidTable ''stsd entry count'')
     else if length stsd < 8 then Inl Truncated
     else
       let entry = drop 8 stsd in
       if length entry < 8 then Inl Truncated
       else
         and_then (read_or read_u32 entry 0) (\<lambda>size.
         if size < 8 \<or> size > length entry then Inl (InvalidTable ''stsd entry size'')
         else
           and_then (read_or read_fourcc entry 4) (\<lambda>codec.
           if codec \<noteq> fourcc ''avc1'' \<and> codec \<noteq> fourcc ''avc3'' then Inl (UnsupportedCodec codec) else Inr codec)))"

definition parse_stsz :: "bytes \<Rightarrow> (nat list, mp4_error) result" where
  "parse_stsz data =
     and_then (read_or read_u32 data 4) (\<lambda>fixed_size.
     and_then (read_or read_u32 data 8) (\<lambda>sample_count.
     if fixed_size \<noteq> 0 then Inr (replicate sample_count fixed_size)
     else try_map (\<lambda>index. read_or read_u32 data (12 + index * 4)) [0..<sample_count]))"

definition parse_stts :: "bytes \<Rightarrow> nat \<Rightarrow> (nat list, mp4_error) result" where
  "parse_stts data sample_count =
     and_then (read_or read_u32 data 4) (\<lambda>entry_count.
     and_then
       (try_fold (\<lambda>durations index.
          let base = 8 + index * 8 in
          and_then (read_or read_u32 data base) (\<lambda>count.
          and_then (read_or read_u32 data (base + 4)) (\<lambda>delta.
          if count = 0 \<or> delta = 0 \<or> length durations + count > sample_count then Inl (InvalidTable ''stts'')
          else Inr (durations @ replicate count delta)))) [] [0..<entry_count]) (\<lambda>durations.
     if length durations \<noteq> sample_count then Inl SampleCountMismatch else Inr durations))"

definition parse_ctts :: "bytes option \<Rightarrow> nat \<Rightarrow> (int list, mp4_error) result" where
  "parse_ctts data sample_count =
     (case data of None \<Rightarrow> Inr (replicate sample_count 0) | Some data \<Rightarrow>
      and_then (first_byte data) (\<lambda>version.
      if unat version > 1 then Inl (InvalidTable ''ctts version'')
      else
        and_then (read_or read_u32 data 4) (\<lambda>entry_count.
        and_then
          (try_fold (\<lambda>signed_offsets index.
             and_then (read_or read_u32 data (8 + index * 8 + 4)) (\<lambda>raw. Inr (signed_offsets \<or> raw > 2 ^ 31 - 1)))
             (version = 1) [0..<entry_count]) (\<lambda>signed_offsets.
        and_then
          (try_fold (\<lambda>offsets index.
             let base = 8 + index * 8 in
             and_then (read_or read_u32 data base) (\<lambda>count.
             and_then (read_or read_u32 data (base + 4)) (\<lambda>raw.
             let offset = (if signed_offsets then as_signed 32 raw else int raw) in
             if count = 0 \<or> length offsets + count > sample_count then Inl (InvalidTable ''ctts'')
             else Inr (offsets @ replicate count offset)))) [] [0..<entry_count]) (\<lambda>offsets.
        if length offsets \<noteq> sample_count then Inl SampleCountMismatch else Inr offsets)))))"

definition mark_sync :: "bytes \<Rightarrow> nat \<Rightarrow> bool list \<times> nat \<Rightarrow> nat \<Rightarrow> (bool list \<times> nat, mp4_error) result" where
  "mark_sync data sample_count = (\<lambda>(sync, previous) index.
     and_then (read_or read_u32 data (8 + index * 4)) (\<lambda>sample_number.
     if sample_number = 0 \<or> sample_number \<le> previous \<or> sample_number > sample_count then Inl (InvalidTable ''stss'')
     else Inr (sync[sample_number - 1 := True], sample_number)))"

definition parse_stss :: "bytes option \<Rightarrow> nat \<Rightarrow> (bool list, mp4_error) result" where
  "parse_stss data sample_count =
     (case data of None \<Rightarrow> Inr (replicate sample_count True) | Some data \<Rightarrow>
      and_then (read_or read_u32 data 4) (\<lambda>entry_count.
      and_then (try_fold (mark_sync data sample_count) (replicate sample_count False, 0) [0..<entry_count]) (\<lambda>(sync, _).
      Inr sync)))"

record stsc_entry =
  first_chunk :: nat
  samples_per_chunk :: nat

definition push_stsc :: "bytes \<Rightarrow> stsc_entry list \<times> nat \<Rightarrow> nat \<Rightarrow> (stsc_entry list \<times> nat, mp4_error) result" where
  "push_stsc data = (\<lambda>(entries, previous) index.
     let base = 8 + index * 12 in
     and_then (read_or read_u32 data base) (\<lambda>first.
     and_then (read_or read_u32 data (base + 4)) (\<lambda>per_chunk.
     and_then (read_or read_u32 data (base + 8)) (\<lambda>sample_description.
     if first = 0 \<or> first \<le> previous \<or> per_chunk = 0 \<or> sample_description \<noteq> 1 then Inl (InvalidTable ''stsc'')
     else Inr (entries @ [\<lparr> first_chunk = first, samples_per_chunk = per_chunk \<rparr>], first)))))"

definition parse_stsc :: "bytes \<Rightarrow> (stsc_entry list, mp4_error) result" where
  "parse_stsc data =
     and_then (read_or read_u32 data 4) (\<lambda>entry_count.
     and_then (try_fold (push_stsc data) ([], 0) [0..<entry_count]) (\<lambda>(entries, _).
     if entries = [] \<or> first_chunk (hd entries) \<noteq> 1 then Inl (InvalidTable ''stsc first chunk'') else Inr entries))"

definition parse_chunk_offsets :: "bytes \<Rightarrow> bool \<Rightarrow> (nat list, mp4_error) result" where
  "parse_chunk_offsets data are_64_bit =
     and_then (read_or read_u32 data 4) (\<lambda>entry_count.
     let width = (if are_64_bit then 8 else 4) in
     try_map (\<lambda>index.
       let position = 8 + index * width in
       if are_64_bit then read_or read_u64 data position else read_or read_u32 data position) [0..<entry_count])"

function advance_stsc :: "stsc_entry list \<Rightarrow> nat \<Rightarrow> nat \<Rightarrow> nat" where
  "advance_stsc stsc chunk_number stsc_index =
     (if stsc_index + 1 < length stsc \<and> first_chunk (stsc ! (stsc_index + 1)) \<le> chunk_number
      then advance_stsc stsc chunk_number (stsc_index + 1) else stsc_index)"
  by pat_completeness auto
termination
  by (relation "measure (\<lambda>(stsc, c, i). length stsc - i)") auto

declare advance_stsc.simps [simp del]

text \<open>The samples of one chunk: the offsets so far, the running offset and the number of samples.\<close>

definition place_sample :: "nat list \<Rightarrow> nat list \<times> nat \<times> nat \<Rightarrow> nat \<Rightarrow> (nat list \<times> nat \<times> nat, mp4_error) result" where
  "place_sample sample_sizes = (\<lambda>(offsets, offset, sample_index) _.
     if sample_index < length sample_sizes then
       and_then (ok_or IntegerOverflow (checked_add 64 offset (sample_sizes ! sample_index))) (\<lambda>offset'.
       Inr (offsets @ [offset], offset', sample_index + 1))
     else Inl SampleCountMismatch)"

definition place_chunk ::
  "nat list \<Rightarrow> stsc_entry list \<Rightarrow> nat list \<times> nat \<times> nat \<Rightarrow> nat \<times> nat \<Rightarrow> (nat list \<times> nat \<times> nat, mp4_error) result" where
  "place_chunk sample_sizes stsc = (\<lambda>(offsets, sample_index, stsc_index) (chunk_zero_index, chunk_start).
     let stsc_index = advance_stsc stsc (chunk_zero_index + 1) stsc_index in
     if stsc_index < length stsc then
       and_then (try_fold (place_sample sample_sizes) (offsets, chunk_start, sample_index) [0..<samples_per_chunk (stsc ! stsc_index)])
         (\<lambda>(offsets, _, sample_index). Inr (offsets, sample_index, stsc_index))
     else Inl Mp4Panic)"

definition expand_sample_offsets :: "nat list \<Rightarrow> nat list \<Rightarrow> stsc_entry list \<Rightarrow> (nat list, mp4_error) result" where
  "expand_sample_offsets sample_sizes chunk_offsets stsc =
     and_then (try_fold (place_chunk sample_sizes stsc) ([], 0, 0) (enumerate 0 chunk_offsets)) (\<lambda>(offsets, sample_index, _).
     if sample_index \<noteq> length sample_sizes then Inl SampleCountMismatch else Inr offsets)"

text \<open>One turn of the loop of \<^verbatim>\<open>build_video_track\<close>: samples, decode time, first and last presentation time.\<close>

definition push_sample ::
  "int \<Rightarrow> nat list \<Rightarrow> int list \<Rightarrow> bool list \<Rightarrow> nat list \<Rightarrow> nat list \<Rightarrow> video_sample list \<times> nat \<times> int \<times> int \<Rightarrow> nat \<Rightarrow>
   (video_sample list \<times> nat \<times> int \<times> int, mp4_error) result" where
  "push_sample edit_media_time timings composition_offsets sync byte_offsets sample_sizes =
     (\<lambda>(samples, decode_time, presentation_start, presentation_end) index.
     and_then (ok_or IntegerOverflow (i64_checked (int decode_time))) (\<lambda>decode_i64.
     and_then (ok_or IntegerOverflow (i64_checked (decode_i64 + composition_offsets ! index))) (\<lambda>time.
     and_then (ok_or IntegerOverflow (i64_checked (time - edit_media_time))) (\<lambda>presentation_time.
     and_then (ok_or IntegerOverflow (i64_checked (presentation_time + int (timings ! index)))) (\<lambda>end_time.
     let sample = \<lparr> vs_index = index mod 2 ^ 32, vs_decode_time = decode_time, vs_presentation_time = presentation_time,
       vs_duration = timings ! index, vs_byte_offset = byte_offsets ! index, vs_byte_size = sample_sizes ! index,
       vs_is_sync = sync ! index \<rparr> in
     and_then (ok_or IntegerOverflow (checked_add 64 decode_time (timings ! index))) (\<lambda>decode_time.
     Inr (samples @ [sample], decode_time, min presentation_start presentation_time, max presentation_end end_time)))))))"

definition build_video_track :: "track_tables \<Rightarrow> (video_track, mp4_error) result" where
  "build_video_track tables =
     and_then (parse_video_codec (tt_stsd tables)) (\<lambda>codec.
     and_then (parse_stsz (tt_stsz tables)) (\<lambda>sample_sizes.
     let sample_count = length sample_sizes in
     and_then (parse_stts (tt_stts tables) sample_count) (\<lambda>timings.
     and_then (parse_ctts (tt_ctts tables) sample_count) (\<lambda>composition_offsets.
     and_then (parse_stss (tt_stss tables) sample_count) (\<lambda>sync.
     and_then (parse_chunk_offsets (tt_chunk_offsets tables) (tt_chunk_offsets_are_64_bit tables)) (\<lambda>chunk_offsets.
     and_then (parse_stsc (tt_stsc tables)) (\<lambda>stsc.
     and_then (expand_sample_offsets sample_sizes chunk_offsets stsc) (\<lambda>byte_offsets.
     and_then
       (try_fold (push_sample (tt_edit_media_time tables) timings composition_offsets sync byte_offsets sample_sizes)
          ([], 0, 2 ^ 63 - 1, - (2 ^ 63)) [0..<sample_count]) (\<lambda>(samples, _, presentation_start, presentation_end).
     if samples = [] then Inl (InvalidTable ''empty video track'')
     else Inr \<lparr> vt_timescale = tt_timescale tables, vt_media_duration = tt_media_duration tables,
       vt_presentation_start = presentation_start, vt_presentation_end = presentation_end, vt_codec = codec, vt_samples = samples \<rparr>)))))))))"

section \<open>Tracks of a file\<close>

definition scan_track :: "video_track option \<times> nat \<Rightarrow> iso_box \<Rightarrow> (video_track option \<times> nat, mp4_error) result" where
  "scan_track = (\<lambda>(video, audio_tracks) item.
     if box_kind item \<noteq> fourcc ''trak'' then Inr (video, audio_tracks)
     else
       and_then (parse_track (box_payload item)) (\<lambda>(h, tables). case h of
         Video \<Rightarrow>
           if video \<noteq> None then Inl MultipleVideoTracks
           else and_then (build_video_track tables) (\<lambda>v. Inr (Some v, audio_tracks))
       | Audio \<Rightarrow> if audio_tracks + 1 > 1 then Inl MultipleAudioTracks else Inr (video, audio_tracks + 1)))"

definition check_sample_range :: "nat \<Rightarrow> video_sample \<Rightarrow> (unit, mp4_error) result" where
  "check_sample_range file_len sample =
     and_then (ok_or IntegerOverflow (checked_add 64 (vs_byte_offset sample) (vs_byte_size sample))) (\<lambda>end_offset.
     ensure (end_offset \<le> file_len) (InvalidTable ''sample byte range''))"

definition parse_mp4_video_track_from_moov :: "bytes \<Rightarrow> nat \<Rightarrow> (video_track, mp4_error) result" where
  "parse_mp4_video_track_from_moov moov file_len =
     and_then (box_fold scan_track (None, 0) moov) (\<lambda>(video, _).
     and_then (ok_or MissingVideoTrack video) (\<lambda>video.
     and_then (try_all (check_sample_range file_len) (vt_samples video)) (\<lambda>_.
     Inr video)))"

definition find_moov :: "bytes option \<Rightarrow> iso_box \<Rightarrow> (bytes option, mp4_error) result" where
  "find_moov moov item =
     (if box_kind item = fourcc ''moov'' then
        if moov \<noteq> None then Inl DuplicateMoov else Inr (Some (box_payload item))
      else if box_kind item = fourcc ''moof'' then Inl FragmentedMp4
      else Inr moov)"

definition parse_mp4_video_track :: "bytes \<Rightarrow> (video_track, mp4_error) result" where
  "parse_mp4_video_track data =
     and_then (box_fold find_moov None data) (\<lambda>moov.
     and_then (ok_or MissingMoov moov) (\<lambda>moov.
     parse_mp4_video_track_from_moov moov (length data)))"

section \<open>Tables have one entry per sample\<close>

lemma try_fold_indices:
  assumes "try_fold f s [m..<n] = Inr t" and "P m s" and "m \<le> n"
    and "\<And>i s s'. m \<le> i \<Longrightarrow> i < n \<Longrightarrow> P i s \<Longrightarrow> f s i = Inr s' \<Longrightarrow> P (Suc i) s'"
  shows "P n t"
  using assms
proof (induction "n - m" arbitrary: m s)
  case (Suc d)
  then have "[m..<n] = m # [Suc m..<n]" by (simp add: upt_conv_Cons)
  with Suc.prems(1) obtain s' where s': "f s m = Inr s'" "try_fold f s' [Suc m..<n] = Inr t"
    by (auto simp: and_then_Inr_iff)
  have "P (Suc m) s'" using Suc.prems(2,4) s'(1) Suc.hyps(2) by simp
  then show ?case using Suc.hyps s'(2) Suc.prems(4) by (intro Suc.hyps(1) [of "Suc m"]) auto
qed simp

lemma read_u32_bound: "read_u32 data off = Some n \<Longrightarrow> n < 2 ^ 32"
proof -
  assume "read_u32 data off = Some n"
  then obtain b where b: "get_range data off 4 = Some b" "n = from_be_bytes b" by (auto simp: read_u32_def)
  then have "length b = 4" by (rule_tac get_range_Some_length)
  with from_be_bytes_bound [of b] b(2) show ?thesis by simp
qed

lemma parse_stsz_bound:
  assumes "parse_stsz data = Inr sizes" shows "length sizes < 2 ^ 32"
proof -
  from assms obtain n where "read_u32 data 8 = Some n" "length sizes = n"
    by (auto simp: parse_stsz_def result_simps dest!: try_map_length split: if_splits)
  then show ?thesis using read_u32_bound by blast
qed

lemma parse_stts_durations:
  assumes "parse_stts data n = Inr ds" shows "length ds = n" and "\<forall>d \<in> set ds. 0 < d"
proof -
  from assms obtain m where
    "try_fold (\<lambda>durations index. let base = 8 + index * 8 in
       and_then (read_or read_u32 data base) (\<lambda>count. and_then (read_or read_u32 data (base + 4)) (\<lambda>delta.
       if count = 0 \<or> delta = 0 \<or> length durations + count > n then Inl (InvalidTable ''stts'')
       else Inr (durations @ replicate count delta)))) [] [0..<m] = Inr ds" and len: "length ds = n"
    by (auto simp: parse_stts_def result_simps split: if_splits)
  then show "\<forall>d \<in> set ds. 0 < d"
    by (elim try_fold_invariant) (auto simp: Let_def result_simps split: if_splits)
  show "length ds = n" by (rule len)
qed

lemma parse_ctts_length: "parse_ctts data n = Inr offsets \<Longrightarrow> length offsets = n"
  by (auto simp: parse_ctts_def result_simps split: option.splits if_splits)

lemma parse_stss_length:
  assumes "parse_stss data n = Inr sync" shows "length sync = n"
proof (cases data)
  case None
  with assms show ?thesis by (auto simp: parse_stss_def)
next
  case (Some d)
  with assms obtain m p where run: "try_fold (mark_sync d n) (replicate n False, 0) [0..<m] = Inr (sync, p)"
    by (auto simp: parse_stss_def result_simps split: prod.splits)
  have "length (fst (sync, p)) = n"
    by (rule try_fold_invariant [OF run]) (auto simp: mark_sync_def result_simps split: prod.splits if_splits)
  then show ?thesis by simp
qed

text \<open>The chunk runs start at chunk 1 and their first chunks increase.\<close>

definition stsc_ok :: "stsc_entry list \<Rightarrow> bool" where
  "stsc_ok stsc \<longleftrightarrow> stsc \<noteq> [] \<and> first_chunk (hd stsc) = 1 \<and> sorted_wrt (<) (map first_chunk stsc) \<and>
     (\<forall>e \<in> set stsc. 0 < samples_per_chunk e)"

lemma parse_stsc_ok:
  assumes "parse_stsc data = Inr stsc" shows "stsc_ok stsc"
proof -
  from assms obtain m p where run: "try_fold (push_stsc data) ([], 0) [0..<m] = Inr (stsc, p)"
    and h: "stsc \<noteq> []" "first_chunk (hd stsc) = 1"
    by (auto simp: parse_stsc_def result_simps split: prod.splits if_splits)
  have "sorted_wrt (<) (map first_chunk (fst (stsc, p))) \<and> (\<forall>e \<in> set (fst (stsc, p)). first_chunk e \<le> snd (stsc, p) \<and> 0 < samples_per_chunk e)"
    by (rule try_fold_invariant [OF run])
      (fastforce simp: push_stsc_def Let_def result_simps sorted_wrt_append split: prod.splits if_splits)+
  with h show ?thesis by (auto simp: stsc_ok_def)
qed

section \<open>Sample offsets\<close>

text \<open>
  The layout that the tables describe: chunk \<open>c\<close> (from 1) has as many samples as the last run that
  starts at or before it says, and the samples of a chunk follow one another from its offset.
\<close>

definition chunk_samples :: "stsc_entry list \<Rightarrow> nat \<Rightarrow> nat" where
  "chunk_samples stsc c = samples_per_chunk (last (filter (\<lambda>e. first_chunk e \<le> c) stsc))"

primrec consecutive :: "nat \<Rightarrow> nat list \<Rightarrow> nat list" where
  "consecutive off [] = []"
| "consecutive off (s # ss) = off # consecutive (off + s) ss"

primrec layout :: "nat list \<Rightarrow> (nat \<times> nat) list \<Rightarrow> nat list" where
  "layout sizes [] = []"
| "layout sizes (ch # chs) = consecutive (fst ch) (take (snd ch) sizes) @ layout (drop (snd ch) sizes) chs"

definition chunk_layout :: "nat list \<Rightarrow> stsc_entry list \<Rightarrow> (nat \<times> nat) list" where
  "chunk_layout chunk_offsets stsc = map (\<lambda>(i, off). (off, chunk_samples stsc (i + 1))) (enumerate 0 chunk_offsets)"

text \<open>The current run after \<open>advance_stsc\<close> is the last one that starts at or before the chunk.\<close>

definition current_run :: "stsc_entry list \<Rightarrow> nat \<Rightarrow> nat \<Rightarrow> bool" where
  "current_run stsc c i \<longleftrightarrow> i < length stsc \<and> first_chunk (stsc ! i) \<le> c \<and>
     (\<forall>j < length stsc. i < j \<longrightarrow> c < first_chunk (stsc ! j))"

lemma advance_stsc_run:
  assumes "stsc_ok stsc" and "i < length stsc" and "first_chunk (stsc ! i) \<le> c"
  shows "current_run stsc c (advance_stsc stsc c i)"
  using assms
proof (induction stsc c i rule: advance_stsc.induct)
  case (1 stsc c i)
  show ?case
  proof (cases "i + 1 < length stsc \<and> first_chunk (stsc ! (i + 1)) \<le> c")
    case True
    with 1 show ?thesis by (simp add: advance_stsc.simps [of stsc c i])
  next
    case False
    have "c < first_chunk (stsc ! j)" if j: "j < length stsc" "i < j" for j
    proof (cases "j = i + 1")
      case True
      with False j show ?thesis by simp
    next
      case F: False
      then have "first_chunk (stsc ! (i + 1)) < first_chunk (stsc ! j)"
        using 1(2) j by (auto simp: stsc_ok_def sorted_wrt_iff_nth_less)
      with False F j show ?thesis by simp
    qed
    with False 1(3,4) show ?thesis by (subst advance_stsc.simps) (auto simp: current_run_def)
  qed
qed

lemma current_run_samples:
  assumes "stsc_ok stsc" and "current_run stsc c i"
  shows "chunk_samples stsc c = samples_per_chunk (stsc ! i)"
proof -
  have i: "i < length stsc" using assms(2) by (simp add: current_run_def)
  have "filter (\<lambda>e. first_chunk e \<le> c) (drop (Suc i) stsc) = []"
  proof -
    have "c < first_chunk e" if "e \<in> set (drop (Suc i) stsc)" for e
    proof -
      from that obtain j where "j < length stsc - Suc i" "e = stsc ! (Suc i + j)" by (auto simp: in_set_conv_nth)
      then show ?thesis using assms(2) by (simp add: current_run_def)
    qed
    then show ?thesis by (simp add: filter_empty_conv not_le)
  qed
  then have "filter (\<lambda>e. first_chunk e \<le> c) stsc = filter (\<lambda>e. first_chunk e \<le> c) (take i stsc) @ [stsc ! i]"
    using id_take_nth_drop [OF i] assms(2) by (metis current_run_def filter.simps(2) filter_append)
  then show ?thesis by (simp add: chunk_samples_def)
qed

lemma place_samples:
  assumes "try_fold (place_sample sizes) (os, off, idx) xs = Inr (os', off', idx')"
  shows "idx' = idx + length xs \<and> os' = os @ consecutive off (take (length xs) (drop idx sizes)) \<and>
    (xs \<noteq> [] \<longrightarrow> idx' \<le> length sizes)"
  using assms
proof (induction xs arbitrary: os off idx)
  case (Cons x xs)
  then have i: "idx < length sizes"
    and run: "try_fold (place_sample sizes) (os @ [off], off + sizes ! idx, Suc idx) xs = Inr (os', off', idx')"
    by (auto simp: place_sample_def result_simps checked_Some split: if_splits)
  have "take (length (x # xs)) (drop idx sizes) = sizes ! idx # take (length xs) (drop (Suc idx) sizes)"
    using i by (metis Cons_nth_drop_Suc length_Cons take_Suc_Cons)
  then show ?case using Cons.IH [OF run] i by (cases xs) auto
qed simp

lemma place_chunks:
  assumes "try_fold (place_chunk sizes stsc) (os, idx, i) (enumerate k offs) = Inr (os', idx', i')"
    and "stsc_ok stsc" and "i < length stsc" and "first_chunk (stsc ! i) \<le> k + 1"
  shows "let counts = map (\<lambda>(j, off). (off, chunk_samples stsc (j + 1))) (enumerate k offs) in
    idx' = idx + sum_list (map snd counts) \<and> os' = os @ layout (drop idx sizes) counts"
  using assms
proof (induction offs arbitrary: os idx i k)
  case (Cons off offs)
  let ?i = "advance_stsc stsc (k + 1) i"
  have run: "current_run stsc (k + 1) ?i" by (rule advance_stsc_run) (use Cons.prems in auto)
  then have i: "?i < length stsc" "first_chunk (stsc ! ?i) \<le> k + 1" by (simp_all add: current_run_def)
  note n = current_run_samples [OF Cons.prems(2) run]
  from Cons.prems(1) i obtain os1 off1 idx1 where
    one: "try_fold (place_sample sizes) (os, off, idx) [0..<samples_per_chunk (stsc ! ?i)] = Inr (os1, off1, idx1)"
    and rest: "try_fold (place_chunk sizes stsc) (os1, idx1, ?i) (enumerate (Suc k) offs) = Inr (os', idx', i')"
    by (auto simp: place_chunk_def Let_def result_simps split: prod.splits)
  have "os1 = os @ consecutive off (take (chunk_samples stsc (k + 1)) (drop idx sizes))" "idx1 = idx + chunk_samples stsc (k + 1)"
    using place_samples [OF one] n by auto
  with Cons.IH [OF rest Cons.prems(2) i(1)] i(2) show ?case by (simp add: Let_def add.commute)
qed simp

lemma expand_sample_offsets_layout:
  assumes "expand_sample_offsets sizes chunk_offsets stsc = Inr os" and "stsc_ok stsc"
  shows "os = layout sizes (chunk_layout chunk_offsets stsc) \<and> sum_list (map snd (chunk_layout chunk_offsets stsc)) = length sizes"
proof -
  from assms(1) obtain i where run: "try_fold (place_chunk sizes stsc) ([], 0, 0) (enumerate 0 chunk_offsets) = Inr (os, length sizes, i)"
    by (auto simp: expand_sample_offsets_def result_simps split: prod.splits if_splits)
  have "0 < length stsc" "first_chunk (stsc ! 0) \<le> 0 + 1" using assms(2) by (auto simp: stsc_ok_def hd_conv_nth)
  from place_chunks [OF run assms(2) this] show ?thesis by (simp add: Let_def chunk_layout_def)
qed

lemma length_consecutive [simp]: "length (consecutive off ss) = length ss"
  by (induction ss arbitrary: off) auto

lemma length_layout: "length (layout sizes chs) = min (length sizes) (sum_list (map snd chs))"
  by (induction chs arbitrary: sizes) auto

section \<open>Well-formed tracks\<close>

text \<open>What every track that the parser returns satisfies, with the samples as far as they are built.\<close>

definition samples_ok :: "video_sample list \<Rightarrow> nat \<Rightarrow> int \<Rightarrow> int \<Rightarrow> bool" where
  "samples_ok samples decode_time ps pe \<longleftrightarrow>
     decode_time = sum_list (map vs_duration samples) \<and>
     (if samples = [] then ps = 2 ^ 63 - 1 \<and> pe = - (2 ^ 63)
      else (\<exists>s \<in> set samples. vs_presentation_time s = ps) \<and>
        (\<exists>s \<in> set samples. vs_presentation_time s + int (vs_duration s) = pe)) \<and>
     (\<forall>i < length samples. vs_index (samples ! i) = i \<and> 0 < vs_duration (samples ! i) \<and>
        vs_decode_time (samples ! i) = sum_list (map vs_duration (take i samples)) \<and>
        ps \<le> vs_presentation_time (samples ! i) \<and> vs_presentation_time (samples ! i) + int (vs_duration (samples ! i)) \<le> pe)"

lemma samples_ok_snoc:
  assumes "samples_ok samples dt ps pe" and "vs_index s = length samples" and "0 < vs_duration s" and "vs_decode_time s = dt"
    and "vs_presentation_time s < 2 ^ 63" and "- (2 ^ 63) \<le> vs_presentation_time s + int (vs_duration s)"
  shows "samples_ok (samples @ [s]) (dt + vs_duration s) (min ps (vs_presentation_time s)) (max pe (vs_presentation_time s + int (vs_duration s)))"
proof -
  have "if samples @ [s] = [] then P else
      (\<exists>x \<in> set (samples @ [s]). vs_presentation_time x = min ps (vs_presentation_time s)) \<and>
      (\<exists>x \<in> set (samples @ [s]). vs_presentation_time x + int (vs_duration x) = max pe (vs_presentation_time s + int (vs_duration s)))" for P
    using assms(1,5,6) by (cases "samples = []") (auto simp: samples_ok_def min_def max_def)
  moreover have "\<forall>i < length (samples @ [s]). let x = (samples @ [s]) ! i in vs_index x = i \<and> 0 < vs_duration x \<and>
      vs_decode_time x = sum_list (map vs_duration (take i (samples @ [s]))) \<and>
      min ps (vs_presentation_time s) \<le> vs_presentation_time x \<and>
      vs_presentation_time x + int (vs_duration x) \<le> max pe (vs_presentation_time s + int (vs_duration s))"
    using assms by (auto simp: samples_ok_def nth_append less_Suc_eq Let_def)
  ultimately show ?thesis using assms(1) by (simp add: samples_ok_def Let_def)
qed

lemma push_samples:
  assumes "try_fold (push_sample edit timings ct sync offsets sizes) ([], 0, 2 ^ 63 - 1, - (2 ^ 63)) [0..<n] = Inr (samples, dt, ps, pe)"
    and "n < 2 ^ 32" and "length timings = n" and "\<forall>d \<in> set timings. 0 < d"
  shows "length samples = n \<and> samples_ok samples dt ps pe \<and> map vs_byte_offset samples = map (\<lambda>i. offsets ! i) [0..<n] \<and>
    map vs_byte_size samples = map (\<lambda>i. sizes ! i) [0..<n] \<and> map vs_is_sync samples = map (\<lambda>i. sync ! i) [0..<n] \<and>
    map vs_duration samples = map (\<lambda>i. timings ! i) [0..<n] \<and>
    map vs_presentation_time samples = map (\<lambda>i. int (sum_list (take i timings)) + ct ! i - edit) [0..<n]"
proof -
  let ?P = "\<lambda>m (samples, dt, ps, pe). length samples = m \<and> samples_ok samples dt ps pe \<and> dt = sum_list (take m timings) \<and>
    map vs_byte_offset samples = map (\<lambda>i. offsets ! i) [0..<m] \<and>
    map vs_byte_size samples = map (\<lambda>i. sizes ! i) [0..<m] \<and> map vs_is_sync samples = map (\<lambda>i. sync ! i) [0..<m] \<and>
    map vs_duration samples = map (\<lambda>i. timings ! i) [0..<m] \<and>
    map vs_presentation_time samples = map (\<lambda>i. int (sum_list (take i timings)) + ct ! i - edit) [0..<m]"
  have "?P n (samples, dt, ps, pe)"
  proof (rule try_fold_indices [OF assms(1)])
    fix m st st' assume m: "m < n" and P: "?P m st" and step: "push_sample edit timings ct sync offsets sizes st m = Inr st'"
    obtain samples dt ps pe where st: "st = (samples, dt, ps, pe)" by (cases st)
    define s where "s = \<lparr> vs_index = m, vs_decode_time = dt, vs_presentation_time = int dt + ct ! m - edit,
       vs_duration = timings ! m, vs_byte_offset = offsets ! m, vs_byte_size = sizes ! m, vs_is_sync = sync ! m \<rparr>"
    have st': "st' = (samples @ [s], dt + vs_duration s, min ps (vs_presentation_time s), max pe (vs_presentation_time s + int (vs_duration s)))"
      and bounds: "vs_presentation_time s < 2 ^ 63" "- (2 ^ 63) \<le> vs_presentation_time s + int (vs_duration s)"
      using step m assms(2) by (auto simp: push_sample_def st s_def Let_def result_simps checked_Some)
    have s: "vs_index s = m" "0 < vs_duration s" "vs_decode_time s = dt" using m assms(3,4) by (simp_all add: s_def)
    have "take (Suc m) timings = take m timings @ [timings ! m]" using m assms(3) by (simp add: take_Suc_conv_app_nth)
    moreover have "samples_ok samples dt ps pe" "vs_index s = length samples" using P s(1) unfolding st by auto
    note samples_ok_snoc [OF this s(2,3) bounds]
    ultimately show "?P (Suc m) st'" using P unfolding st' st by (simp add: s_def)
  qed (simp_all add: samples_ok_def)
  then show ?thesis by auto
qed

lemma build_video_track_parts:
  assumes "build_video_track tables = Inr track"
  obtains codec sizes timings ct sync chunk_offsets stsc offsets where
    "parse_video_codec (tt_stsd tables) = Inr codec" "parse_stsz (tt_stsz tables) = Inr sizes"
    "parse_stts (tt_stts tables) (length sizes) = Inr timings" "parse_ctts (tt_ctts tables) (length sizes) = Inr ct"
    "parse_stss (tt_stss tables) (length sizes) = Inr sync"
    "parse_chunk_offsets (tt_chunk_offsets tables) (tt_chunk_offsets_are_64_bit tables) = Inr chunk_offsets"
    "parse_stsc (tt_stsc tables) = Inr stsc" "expand_sample_offsets sizes chunk_offsets stsc = Inr offsets"
    "vt_codec track = codec" "vt_timescale track = tt_timescale tables" "vt_samples track \<noteq> []"
    "\<exists>dt. try_fold (push_sample (tt_edit_media_time tables) timings ct sync offsets sizes)
       ([], 0, 2 ^ 63 - 1, - (2 ^ 63)) [0..<length sizes] =
       Inr (vt_samples track, dt, vt_presentation_start track, vt_presentation_end track)"
  using assms by (auto simp: build_video_track_def Let_def and_then_Inr_iff split: prod.splits if_splits)

definition track_ok :: "video_track \<Rightarrow> bool" where
  "track_ok track \<longleftrightarrow> vt_samples track \<noteq> [] \<and> 0 < vt_timescale track \<and> vt_codec track \<in> {fourcc ''avc1'', fourcc ''avc3''} \<and>
     (\<exists>s \<in> set (vt_samples track). vs_presentation_time s = vt_presentation_start track) \<and>
     (\<exists>s \<in> set (vt_samples track). vs_presentation_time s + int (vs_duration s) = vt_presentation_end track) \<and>
     (\<forall>i < length (vt_samples track). let s = vt_samples track ! i in
        vs_index s = i \<and> 0 < vs_duration s \<and> vs_decode_time s = sum_list (map vs_duration (take i (vt_samples track))) \<and>
        vt_presentation_start track \<le> vs_presentation_time s \<and>
        vs_presentation_time s + int (vs_duration s) \<le> vt_presentation_end track)"

lemma parse_video_codec_avc: "parse_video_codec stsd = Inr codec \<Longrightarrow> codec \<in> {fourcc ''avc1'', fourcc ''avc3''}"
  by (auto simp: parse_video_codec_def Let_def result_simps split: if_splits)

lemma build_video_track_ok:
  assumes "build_video_track tables = Inr track" and "0 < tt_timescale tables"
  shows "track_ok track"
proof -
  obtain codec sizes timings ct sync chunk_offsets stsc offsets dt where
    parts: "parse_video_codec (tt_stsd tables) = Inr codec" "parse_stsz (tt_stsz tables) = Inr sizes"
      "parse_stts (tt_stts tables) (length sizes) = Inr timings"
      "vt_codec track = codec" "vt_timescale track = tt_timescale tables" "vt_samples track \<noteq> []"
    and run: "try_fold (push_sample (tt_edit_media_time tables) timings ct sync offsets sizes)
       ([], 0, 2 ^ 63 - 1, - (2 ^ 63)) [0..<length sizes] =
       Inr (vt_samples track, dt, vt_presentation_start track, vt_presentation_end track)"
    by (rule build_video_track_parts [OF assms(1)]) blast
  show ?thesis
    using push_samples [OF run parse_stsz_bound [OF parts(2)] parse_stts_durations [OF parts(3)]]
      parse_video_codec_avc [OF parts(1)] parts(4-6) assms(2)
    by (simp add: track_ok_def samples_ok_def Let_def)
qed

lemma parse_track_timescale: "parse_track track = Inr (h, tables) \<Longrightarrow> 0 < tt_timescale tables"
  by (auto simp: parse_track_def parse_mdhd_def and_then_Inr_iff split: if_splits prod.splits)

lemma box_fold_invariant:
  assumes "box_fold f s data = Inr t" and "P s" and "\<And>s b s'. P s \<Longrightarrow> f s b = Inr s' \<Longrightarrow> P s'"
  shows "P t"
  using assms
proof (induction f s data rule: box_fold.induct)
  case (1 f s data)
  show ?case
  proof (cases "next_box data")
    case None
    with 1 show ?thesis by (simp add: box_fold.simps [of f s data])
  next
    case (Some r)
    with "1.prems"(1) obtain b rest s' where r: "r = (Inr b, rest)" "f s b = Inr s'" "box_fold f s' rest = Inr t"
      by (auto simp: box_fold.simps [of f s data] split: prod.splits sum.splits)
    show ?thesis
      by (rule "1.IH" [OF Some r(1) [symmetric] refl r(2,3) "1.prems"(3) [OF "1.prems"(2) r(2)] "1.prems"(3)])
  qed
qed

lemma parse_from_moov_ok:
  assumes "parse_mp4_video_track_from_moov moov file_len = Inr track"
  shows "track_ok track" and "\<forall>s \<in> set (vt_samples track). vs_byte_offset s + vs_byte_size s \<le> file_len"
proof -
  from assms obtain n where run: "box_fold scan_track (None, 0) moov = Inr (Some track, n)"
    and range: "\<forall>s \<in> set (vt_samples track). check_sample_range file_len s = Inr ()"
    by (auto simp: parse_mp4_video_track_from_moov_def result_simps try_all_Inr_iff split: prod.splits)
  have "\<forall>v. fst (Some track, n) = Some v \<longrightarrow> track_ok v"
    by (rule box_fold_invariant [OF run])
      (auto simp: scan_track_def result_simps intro: build_video_track_ok parse_track_timescale
        split: if_splits handler.splits prod.splits)
  then show "track_ok track" by simp
  show "\<forall>s \<in> set (vt_samples track). vs_byte_offset s + vs_byte_size s \<le> file_len"
    using range by (auto simp: check_sample_range_def result_simps checked_Some)
qed

section \<open>Boxes\<close>

text \<open>The serializer of the source's tests: a 32-bit size, the kind, the payload.\<close>

definition mp4_box :: "iso_box \<Rightarrow> bytes" where
  "mp4_box b = to_be_bytes 4 (length (box_payload b) + 8) @ box_kind b @ box_payload b"

definition box_fits :: "iso_box \<Rightarrow> bool" where
  "box_fits b \<longleftrightarrow> length (box_kind b) = 4 \<and> length (box_payload b) + 8 < 2 ^ 32"

lemma next_box_mp4_box:
  assumes "box_fits b" shows "next_box (mp4_box b @ rest) = Some (Inr b, rest)"
proof -
  have "from_be_bytes (to_be_bytes 4 (length (box_payload b) + 8)) = length (box_payload b) + 8"
    using assms by (intro from_to_be_bytes) (simp add: box_fits_def)
  moreover have "to_be_bytes 4 8 \<noteq> []" by (simp flip: length_greater_0_conv)
  ultimately show ?thesis using assms by (simp add: next_box_def mp4_box_def box_fits_def Let_def)
qed

lemma box_fold_mp4_boxes:
  "\<forall>b \<in> set bs. box_fits b \<Longrightarrow> box_fold f s (concat (map mp4_box bs)) = try_fold f s bs"
proof (induction bs arbitrary: s)
  case Nil
  show ?case by (simp add: box_fold.simps next_box_def)
next
  case (Cons b bs)
  then show ?case
    by (simp add: box_fold.simps [of f s "mp4_box b @ concat (map mp4_box bs)"] next_box_mp4_box and_then_def split: sum.splits)
qed

section \<open>Properties\<close>

text \<open>
  C22: Every track that the parser accepts is well formed: it has samples and a time scale, an H.264 codec,
  its samples are numbered in order, have positive durations and follow one another in decoding time, all
  presentation times lie between the track's start and end, which are attained, and every sample lies
  inside the file.
\<close>

theorem mp4_track_wellformed:
  assumes "parse_mp4_video_track data = Inr track"
  shows "track_ok track \<and> (\<forall>s \<in> set (vt_samples track). vs_byte_offset s + vs_byte_size s \<le> length data)"
  using assms parse_from_moov_ok by (auto simp: parse_mp4_video_track_def result_simps)

text \<open>
  C23: The loop that assigns samples to chunks computes the layout that the tables describe: the samples of
  chunk \<open>c\<close> follow one another from the chunk's offset, their number is that of the last run of chunks that
  starts at or before \<open>c\<close>, and together the chunks hold exactly the samples of the size table.
\<close>

theorem sample_offsets_layout:
  assumes "parse_stsc data = Inr stsc" and "expand_sample_offsets sizes chunk_offsets stsc = Inr offsets"
  shows "offsets = layout sizes (chunk_layout chunk_offsets stsc) \<and>
    sum_list (map snd (chunk_layout chunk_offsets stsc)) = length sizes \<and> length offsets = length sizes"
  using expand_sample_offsets_layout [OF assms(2) parse_stsc_ok [OF assms(1)]] length_layout by simp

end
