(* ===== verification/Video_Plan.thy ===== *)
theory Video_Plan
  imports Mp4
begin

text \<open>
  The choice of the video samples, \<^verbatim>\<open>drop-lib/src/video_sampling\<close>: the seed derivation of
  \<^verbatim>\<open>randomness.rs\<close>, the unbiased choice of an offset of \<^verbatim>\<open>selection.rs\<close> and the three sample plans
  of \<^verbatim>\<open>sampling.rs\<close>. BLAKE3 is a parameter on byte strings.

  The rejection loop of \<^verbatim>\<open>unbiased_offset\<close> has no bound, so it is a partial function: \<open>None\<close> is a
  loop that never ends, and everything that calls it passes \<open>None\<close> on.
\<close>

section \<open>Seeds\<close>

definition MASTER_DOMAIN :: bytes where "MASTER_DOMAIN = fourcc ''TrustDrop.VideoSampling.v1''"
definition SPEC_DOMAIN :: bytes where "SPEC_DOMAIN = fourcc ''TrustDrop.VideoSampling.spec.v1''"
definition PROFILE :: bytes where "PROFILE = fourcc ''mp4-h264-v1''"
definition CANDIDATE_DOMAIN :: bytes where "CANDIDATE_DOMAIN = fourcc ''TrustDrop.VideoSampling.candidate.v1''"

record sampling_seed_input =
  ss_chain_id :: nat
  ss_sale_contract :: bytes
  ss_sale_id :: bytes
  ss_origin_blob_id :: bytes
  ss_spec_hash :: bytes
  ss_external_randomness :: bytes

datatype seed_error = SeedInvalidPreviewDuration

definition sampling_spec_hash :: "(bytes \<Rightarrow> bytes) \<Rightarrow> nat \<Rightarrow> (bytes, seed_error) result" where
  "sampling_spec_hash blake3 preview_duration_ms =
     (if preview_duration_ms = 0 then Inl SeedInvalidPreviewDuration
      else Inr (blake3 (SPEC_DOMAIN @ to_be_bytes 4 (length PROFILE) @ PROFILE @ to_be_bytes 4 preview_duration_ms)))"

definition derive_sampling_seed :: "(bytes \<Rightarrow> bytes) \<Rightarrow> sampling_seed_input \<Rightarrow> bytes" where
  "derive_sampling_seed blake3 input =
     blake3 (MASTER_DOMAIN @ to_be_bytes 8 (ss_chain_id input) @ ss_sale_contract input @ ss_sale_id input @
       ss_origin_blob_id input @ ss_spec_hash input @ ss_external_randomness input)"

section \<open>Buckets and offsets\<close>

definition bucket_boundary :: "int \<Rightarrow> nat \<Rightarrow> nat \<Rightarrow> nat \<Rightarrow> int option" where
  "bucket_boundary start timeline_len bucket bucket_count =
     Option.bind (checked_mul 128 timeline_len bucket) (\<lambda>product.
     Option.bind (i64_checked (int (product div bucket_count))) (\<lambda>offset.
     i64_checked (start + offset)))"

definition candidate_value :: "(bytes \<Rightarrow> bytes) \<Rightarrow> bytes \<Rightarrow> nat \<Rightarrow> nat \<Rightarrow> nat" where
  "candidate_value blake3 seed bucket counter =
     from_be_bytes (take 8 (blake3 (CANDIDATE_DOMAIN @ seed @ to_be_bytes 4 bucket @ to_be_bytes 8 counter)))"

definition zone :: "nat \<Rightarrow> nat" where
  "zone rng = 2 ^ 64 - 2 ^ 64 mod rng"

partial_function (option) unbiased_offset :: "(bytes \<Rightarrow> bytes) \<Rightarrow> bytes \<Rightarrow> nat \<Rightarrow> nat \<Rightarrow> nat \<Rightarrow> nat option" where
  "unbiased_offset blake3 seed bucket counter rng =
     (let value = candidate_value blake3 seed bucket counter in
      if value < zone rng then Some (value mod rng)
      else unbiased_offset blake3 seed bucket ((counter + 1) mod 2 ^ 64) rng)"

declare unbiased_offset.simps [code]

section \<open>Plans\<close>

definition BUCKET_COUNT :: nat where "BUCKET_COUNT = 3"
definition MAX_ATTEMPTS_PER_BUCKET :: nat where "MAX_ATTEMPTS_PER_BUCKET = 128"

record sample_plan =
  bucket_index :: nat
  target_time :: int
  decode_start_sample :: nat
  decode_start_time :: int
  presentation_end_time :: int

datatype sampling_error =
    InvalidTimeline
  | InvalidPreviewDuration
  | BucketTooShort nat
  | NoSyncSample nat
  | DuplicateAlignedSample nat
  | SamplingIntegerOverflow

type_synonym 'a sampling = "('a, sampling_error) result option"

definition sampling_then :: "('a, 'e) result option \<Rightarrow> ('a \<Rightarrow> ('b, 'e) result option) \<Rightarrow> ('b, 'e) result option" where
  "sampling_then r f = (case r of None \<Rightarrow> None | Some (Inl e) \<Rightarrow> Some (Inl e) | Some (Inr a) \<Rightarrow> f a)"

text \<open>\<open>Iterator::max_by_key\<close>: the last of the samples with the greatest presentation time.\<close>

definition later_sample :: "video_sample option \<Rightarrow> video_sample \<Rightarrow> video_sample option" where
  "later_sample best s =
     (case best of None \<Rightarrow> Some s
      | Some b \<Rightarrow> if vs_presentation_time b \<le> vs_presentation_time s then Some s else Some b)"

definition last_sync :: "video_sample list \<Rightarrow> int \<Rightarrow> video_sample option" where
  "last_sync samples target =
     foldl later_sample None (filter (\<lambda>s. vs_is_sync s \<and> vs_presentation_time s \<le> target) samples)"

text \<open>
  The loop over the attempts of a bucket: the selected plan, if any, and whether a sync sample was
  seen.
\<close>

fun attempts ::
  "(bytes \<Rightarrow> bytes) \<Rightarrow> video_track \<Rightarrow> bytes \<Rightarrow> nat \<Rightarrow> sample_plan list \<Rightarrow> nat \<Rightarrow> int \<Rightarrow> nat \<Rightarrow> nat list \<Rightarrow> bool \<Rightarrow>
   (sample_plan option \<times> bool) sampling" where
  "attempts blake3 track seed preview_ticks plans bucket bucket_start candidate_count [] saw_sync = Some (Inr (None, saw_sync))"
| "attempts blake3 track seed preview_ticks plans bucket bucket_start candidate_count (counter # counters) saw_sync =
     (case unbiased_offset blake3 seed bucket counter candidate_count of None \<Rightarrow> None | Some offset \<Rightarrow>
      sampling_then (Some (ok_or SamplingIntegerOverflow (i64_checked (bucket_start + as_signed 64 offset)))) (\<lambda>target.
      case last_sync (vt_samples track) target of
        None \<Rightarrow> attempts blake3 track seed preview_ticks plans bucket bucket_start candidate_count counters saw_sync
      | Some sync \<Rightarrow>
          if list_ex (\<lambda>plan. decode_start_sample plan = vs_index sync) plans
          then attempts blake3 track seed preview_ticks plans bucket bucket_start candidate_count counters True
          else sampling_then (Some (ok_or SamplingIntegerOverflow (i64_checked (target + as_signed 64 preview_ticks)))) (\<lambda>end_time.
            Some (Inr (Some \<lparr> bucket_index = bucket, target_time = target, decode_start_sample = vs_index sync,
              decode_start_time = vs_presentation_time sync, presentation_end_time = end_time \<rparr>, True)))))"

definition plan_bucket ::
  "(bytes \<Rightarrow> bytes) \<Rightarrow> video_track \<Rightarrow> bytes \<Rightarrow> nat \<Rightarrow> nat \<Rightarrow> sample_plan list \<Rightarrow> nat \<Rightarrow> sample_plan list sampling" where
  "plan_bucket blake3 track seed timeline_len preview_ticks plans bucket =
     sampling_then (Some (ok_or SamplingIntegerOverflow
       (bucket_boundary (vt_presentation_start track) timeline_len bucket BUCKET_COUNT))) (\<lambda>bucket_start.
     sampling_then (Some (ok_or SamplingIntegerOverflow
       (bucket_boundary (vt_presentation_start track) timeline_len (bucket + 1) BUCKET_COUNT))) (\<lambda>bucket_end.
     sampling_then (Some (ok_or (BucketTooShort bucket) (i64_checked (bucket_end - as_signed 64 preview_ticks)))) (\<lambda>latest_target.
     if latest_target < bucket_start then Some (Inl (BucketTooShort bucket))
     else
       sampling_then (Some (ok_or SamplingIntegerOverflow
         (Option.bind (i64_checked (latest_target - bucket_start)) (\<lambda>value. i64_checked (value + 1))))) (\<lambda>candidate_count.
       sampling_then (attempts blake3 track seed preview_ticks plans bucket bucket_start (nat candidate_count)
         [0..<MAX_ATTEMPTS_PER_BUCKET] False) (\<lambda>(selected, saw_sync).
       Some (and_then (ok_or (if saw_sync then DuplicateAlignedSample bucket else NoSyncSample bucket) selected) (\<lambda>plan.
         Inr (plans @ [plan]))))))))"

fun plan_buckets ::
  "(bytes \<Rightarrow> bytes) \<Rightarrow> video_track \<Rightarrow> bytes \<Rightarrow> nat \<Rightarrow> nat \<Rightarrow> sample_plan list \<Rightarrow> nat list \<Rightarrow> sample_plan list sampling" where
  "plan_buckets blake3 track seed timeline_len preview_ticks plans [] = Some (Inr plans)"
| "plan_buckets blake3 track seed timeline_len preview_ticks plans (bucket # buckets) =
     sampling_then (plan_bucket blake3 track seed timeline_len preview_ticks plans bucket) (\<lambda>plans.
     plan_buckets blake3 track seed timeline_len preview_ticks plans buckets)"

definition plan_three_samples :: "(bytes \<Rightarrow> bytes) \<Rightarrow> video_track \<Rightarrow> bytes \<Rightarrow> nat \<Rightarrow> sample_plan list sampling" where
  "plan_three_samples blake3 track master_seed preview_duration_ms =
     (if vt_presentation_end track \<le> vt_presentation_start track \<or> vt_timescale track = 0 then Some (Inl InvalidTimeline)
      else if preview_duration_ms = 0 then Some (Inl InvalidPreviewDuration)
      else
        sampling_then (Some (ok_or SamplingIntegerOverflow
          (Option.bind (checked_mul 64 preview_duration_ms (vt_timescale track)) (\<lambda>value. checked_add 64 value 999)))) (\<lambda>scaled.
        let preview_ticks = scaled div 1000 in
        if preview_ticks = 0 \<or> preview_ticks > 2 ^ 63 - 1 then Some (Inl InvalidPreviewDuration)
        else
          sampling_then (Some (ok_or SamplingIntegerOverflow
            (i64_checked (vt_presentation_end track - vt_presentation_start track)))) (\<lambda>timeline_len.
          sampling_then (plan_buckets blake3 track master_seed (nat timeline_len) preview_ticks [] [0..<BUCKET_COUNT]) (\<lambda>plans.
          Some (if length plans = 3 then Inr plans else Inl InvalidTimeline)))))"

section \<open>Offsets are unbiased\<close>

lemma sampling_then_Inr_iff:
  "sampling_then r f = Some (Inr b) \<longleftrightarrow> (\<exists>a. r = Some (Inr a) \<and> f a = Some (Inr b))"
  by (auto simp: sampling_then_def split: option.splits sum.splits)

lemma sampling_then_simps [simp]:
  "sampling_then (Some (Inr a)) f = f a" "sampling_then (Some (Inl e)) f = Some (Inl e)" "sampling_then None f = None"
  by (simp_all add: sampling_then_def)

lemma zone_multiple: "0 < rng \<Longrightarrow> rng dvd zone rng"
  by (simp add: zone_def minus_mod_eq_mult_div)

lemma zone_large: "0 < rng \<Longrightarrow> rng \<le> 2 ^ 63 \<Longrightarrow> 2 ^ 63 < zone rng"
proof -
  assume "0 < rng" and le: "rng \<le> 2 ^ 63"
  then have "2 ^ 64 mod rng < rng" by simp
  with le show ?thesis by (simp add: zone_def)
qed

lemma unbiased_offset_steps:
  assumes "\<forall>j < k. zone rng \<le> candidate_value blake3 seed bucket ((counter + j) mod 2 ^ 64)" and "counter < 2 ^ 64"
  shows "unbiased_offset blake3 seed bucket counter rng = unbiased_offset blake3 seed bucket ((counter + k) mod 2 ^ 64) rng"
  using assms(1)
proof (induction k)
  case 0
  then show ?case using assms(2) by simp
next
  case (Suc k)
  then have "unbiased_offset blake3 seed bucket counter rng = unbiased_offset blake3 seed bucket ((counter + k) mod 2 ^ 64) rng"
    by simp
  also have "\<dots> = unbiased_offset blake3 seed bucket (((counter + k) mod 2 ^ 64 + 1) mod 2 ^ 64) rng"
    using Suc.prems by (subst unbiased_offset.simps) (simp add: Let_def leD)
  also have "((counter + k) mod 2 ^ 64 + 1) mod 2 ^ 64 = (counter + Suc k) mod 2 ^ 64" by (simp add: mod_simps)
  finally show ?case .
qed

lemma unbiased_offset_accepted:
  assumes "\<forall>j < k. zone rng \<le> candidate_value blake3 seed bucket ((counter + j) mod 2 ^ 64)" and "counter < 2 ^ 64"
    and "candidate_value blake3 seed bucket ((counter + k) mod 2 ^ 64) < zone rng"
  shows "unbiased_offset blake3 seed bucket counter rng =
    Some (candidate_value blake3 seed bucket ((counter + k) mod 2 ^ 64) mod rng)"
  unfolding unbiased_offset_steps [OF assms(1,2)] using assms(3) by (subst unbiased_offset.simps) (simp add: Let_def)

lemma unbiased_offset_value:
  assumes "unbiased_offset blake3 seed bucket counter rng = Some offset" and "counter < 2 ^ 64"
  shows "\<exists>k. candidate_value blake3 seed bucket ((counter + k) mod 2 ^ 64) < zone rng \<and>
    offset = candidate_value blake3 seed bucket ((counter + k) mod 2 ^ 64) mod rng"
  using assms
proof (induction rule: unbiased_offset.raw_induct [rotated, consumes 1, case_names step])
  case (step f blake3 seed bucket counter rng offset)
  show ?case
  proof (cases "candidate_value blake3 seed bucket counter < zone rng")
    case True
    with step.hyps step.prems show ?thesis by (intro exI [of _ 0]) (simp add: Let_def)
  next
    case False
    with step.hyps have "f blake3 seed bucket ((counter + 1) mod 2 ^ 64) rng = Some offset" by (simp add: Let_def)
    from step.IH [OF this] obtain k where
      "candidate_value blake3 seed bucket (((counter + 1) mod 2 ^ 64 + k) mod 2 ^ 64) < zone rng \<and>
       offset = candidate_value blake3 seed bucket (((counter + 1) mod 2 ^ 64 + k) mod 2 ^ 64) mod rng" by auto
    then show ?thesis by (intro exI [of _ "Suc k"]) (simp add: mod_simps)
  qed
qed

lemma residues_uniform:
  assumes "k < rng"
  shows "card {v. v < zone rng \<and> v mod rng = k} = zone rng div rng"
proof -
  define m where "m = zone rng div rng"
  have z: "zone rng = m * rng" using zone_multiple [of rng] assms by (simp add: m_def)
  have less: "i * rng + k < m * rng" if "i < m" for i
  proof -
    have "i * rng + k < Suc i * rng" using assms by simp
    also have "\<dots> \<le> m * rng" using that by (intro mult_le_mono1) simp
    finally show ?thesis .
  qed
  have "{v. v < zone rng \<and> v mod rng = k} = (\<lambda>i. i * rng + k) ` {..<m}"
  proof (intro set_eqI iffI)
    fix v assume "v \<in> {v. v < zone rng \<and> v mod rng = k}"
    then have v: "v < m * rng" "v = v div rng * rng + k" using z by auto
    then have "v div rng < m" using assms by (simp add: div_less_iff_less_mult)
    with v(2) show "v \<in> (\<lambda>i. i * rng + k) ` {..<m}" by blast
  qed (use less assms z in auto)
  moreover have "inj_on (\<lambda>i. i * rng + k) {..<m}" using assms by (auto simp: inj_on_def)
  ultimately show ?thesis by (simp add: card_image m_def)
qed

section \<open>What a plan promises\<close>

lemma as_signed_small: "n < 2 ^ (w - 1) \<Longrightarrow> as_signed w n = int n"
  by (simp add: as_signed_def)

lemma later_sample_max:
  assumes "foldl later_sample best xs = Some s"
  shows "(s \<in> set xs \<or> best = Some s) \<and> (\<forall>x \<in> set xs \<union> set_option best. vs_presentation_time x \<le> vs_presentation_time s)"
  using assms
proof (induction xs arbitrary: best)
  case (Cons x xs)
  have "foldl later_sample (later_sample best x) xs = Some s" using Cons.prems by simp
  note ih = Cons.IH [OF this]
  show ?case
  proof (cases best)
    case None
    with ih show ?thesis by (auto simp: later_sample_def)
  next
    case (Some b)
    with ih show ?thesis by (cases "vs_presentation_time b \<le> vs_presentation_time x") (auto simp: later_sample_def)
  qed
qed simp

definition latest_sync_at :: "video_sample list \<Rightarrow> int \<Rightarrow> video_sample \<Rightarrow> bool" where
  "latest_sync_at samples t s \<longleftrightarrow> s \<in> set samples \<and> vs_is_sync s \<and> vs_presentation_time s \<le> t \<and>
     (\<forall>x \<in> set samples. vs_is_sync x \<and> vs_presentation_time x \<le> t \<longrightarrow> vs_presentation_time x \<le> vs_presentation_time s)"

lemma last_sync_latest: "last_sync samples t = Some s \<Longrightarrow> latest_sync_at samples t s"
  using later_sample_max [of None "filter (\<lambda>s. vs_is_sync s \<and> vs_presentation_time s \<le> t) samples" s]
  by (auto simp: last_sync_def latest_sync_at_def)

definition plan_ok :: "video_track \<Rightarrow> nat \<Rightarrow> nat \<Rightarrow> int \<Rightarrow> int \<Rightarrow> sample_plan \<Rightarrow> bool" where
  "plan_ok track ticks bucket lo hi p \<longleftrightarrow> bucket_index p = bucket \<and> lo \<le> target_time p \<and>
     presentation_end_time p = target_time p + int ticks \<and> presentation_end_time p \<le> hi \<and>
     (\<exists>s. latest_sync_at (vt_samples track) (target_time p) s \<and> decode_start_sample p = vs_index s \<and>
        decode_start_time p = vs_presentation_time s)"

lemma attempts_plan:
  assumes "attempts blake3 track seed ticks plans bucket lo count counters saw = Some (Inr (Some p, saw'))"
    and "0 < count" and "count < 2 ^ 63" and "ticks < 2 ^ 63" and "\<forall>c \<in> set counters. c < 2 ^ 64"
  shows "plan_ok track ticks bucket lo (lo + int count - 1 + int ticks) p \<and>
    (\<forall>plan \<in> set plans. decode_start_sample plan \<noteq> decode_start_sample p)"
  using assms(1,5)
proof (induction counters arbitrary: saw)
  case (Cons c cs)
  from Cons.prems obtain offset target where off: "unbiased_offset blake3 seed bucket c count = Some offset"
    and target: "i64_checked (lo + as_signed 64 offset) = Some target"
    by (auto simp: sampling_then_Inr_iff ok_or_Inr_iff split: option.splits)
  have "offset < count" using unbiased_offset_value [OF off] Cons.prems(2) assms(2) by auto
  then have t: "target = lo + int offset" "offset < count" using target assms(3) by (auto simp: i64_checked_Some as_signed_small)
  show ?case
  proof (cases "last_sync (vt_samples track) target")
    case None
    then show ?thesis using Cons off target by simp
  next
    case (Some s)
    show ?thesis
    proof (cases "list_ex (\<lambda>plan. decode_start_sample plan = vs_index s) plans")
      case True
      then show ?thesis using Cons off target Some by simp
    next
      case False
      then have "p = \<lparr> bucket_index = bucket, target_time = target, decode_start_sample = vs_index s,
          decode_start_time = vs_presentation_time s, presentation_end_time = target + int ticks \<rparr>"
        using Cons.prems(1) off target Some assms(4)
        by (auto simp: sampling_then_Inr_iff ok_or_Inr_iff i64_checked_Some as_signed_small)
      then show ?thesis using False t last_sync_latest [OF Some] by (auto simp: plan_ok_def list_ex_iff)
    qed
  qed
qed simp

definition boundary :: "video_track \<Rightarrow> nat \<Rightarrow> int" where
  "boundary track k = vt_presentation_start track + (vt_presentation_end track - vt_presentation_start track) * int k div 3"

lemma bucket_boundary_value:
  assumes "bucket_boundary (vt_presentation_start track) (nat (vt_presentation_end track - vt_presentation_start track)) k BUCKET_COUNT = Some b"
    and "vt_presentation_start track \<le> vt_presentation_end track"
  shows "b = boundary track k"
  using assms by (auto simp: bucket_boundary_def bind_eq_Some_conv checked_Some boundary_def BUCKET_COUNT_def zdiv_int)

lemma plan_bucket_plan:
  assumes "plan_bucket blake3 track seed (nat (vt_presentation_end track - vt_presentation_start track)) ticks plans bucket = Some (Inr plans')"
    and "vt_presentation_start track < vt_presentation_end track" and "ticks < 2 ^ 63"
  obtains p where "plans' = plans @ [p]" "plan_ok track ticks bucket (boundary track bucket) (boundary track (bucket + 1)) p"
    "\<forall>plan \<in> set plans. decode_start_sample plan \<noteq> decode_start_sample p"
proof -
  let ?n = "nat (vt_presentation_end track - vt_presentation_start track)"
  from assms(1) obtain lo hi latest count p saw where
    b: "bucket_boundary (vt_presentation_start track) ?n bucket BUCKET_COUNT = Some lo"
      "bucket_boundary (vt_presentation_start track) ?n (bucket + 1) BUCKET_COUNT = Some hi"
    and latest: "i64_checked (hi - as_signed 64 ticks) = Some latest" "\<not> latest < lo"
    and count: "i64_checked (latest - lo + 1) = Some count"
    and run: "attempts blake3 track seed ticks plans bucket lo (nat count) [0..<MAX_ATTEMPTS_PER_BUCKET] False = Some (Inr (Some p, saw))"
    and plans': "plans' = plans @ [p]"
    by (auto simp: plan_bucket_def sampling_then_Inr_iff ok_or_Inr_iff and_then_Inr_iff bind_eq_Some_conv i64_checked_Some
        split: if_splits)
  have "lo = boundary track bucket" "hi = boundary track (bucket + 1)"
    using bucket_boundary_value b assms(2) by (blast intro: less_imp_le)+
  moreover have "int (nat count) = latest - lo + 1" "0 < nat count" "nat count < 2 ^ 63" "latest = hi - int ticks"
    using count latest assms(3) by (auto simp: i64_checked_Some as_signed_small)
  moreover have "\<forall>c \<in> set [0..<MAX_ATTEMPTS_PER_BUCKET]. c < 2 ^ 64" by (simp add: MAX_ATTEMPTS_PER_BUCKET_def)
  ultimately show ?thesis using attempts_plan [OF run _ _ assms(3)] plans' that by auto
qed

lemma plan_buckets_ok:
  assumes "plan_buckets blake3 track seed (nat (vt_presentation_end track - vt_presentation_start track)) ticks plans [m..<n] = Some (Inr out)"
    and "vt_presentation_start track < vt_presentation_end track" and "ticks < 2 ^ 63" and "m \<le> n"
    and "length plans = m" and "distinct (map decode_start_sample plans)"
    and "\<forall>k < m. plan_ok track ticks k (boundary track k) (boundary track (k + 1)) (plans ! k)"
  shows "length out = n \<and> distinct (map decode_start_sample out) \<and>
    (\<forall>k < n. plan_ok track ticks k (boundary track k) (boundary track (k + 1)) (out ! k))"
  using assms(1,4-)
proof (induction "n - m" arbitrary: m plans)
  case (Suc d)
  then have mn: "m < n" "[m..<n] = m # [Suc m..<n]" by (simp_all add: upt_conv_Cons)
  with Suc.prems(1) obtain plans' where
    step: "plan_bucket blake3 track seed (nat (vt_presentation_end track - vt_presentation_start track)) ticks plans m = Some (Inr plans')"
    and rest: "plan_buckets blake3 track seed (nat (vt_presentation_end track - vt_presentation_start track)) ticks plans' [Suc m..<n] = Some (Inr out)"
    by (auto simp: sampling_then_Inr_iff)
  obtain p where p: "plans' = plans @ [p]" "plan_ok track ticks m (boundary track m) (boundary track (m + 1)) p"
    "\<forall>plan \<in> set plans. decode_start_sample plan \<noteq> decode_start_sample p"
    by (rule plan_bucket_plan [OF step assms(2,3)])
  show ?case
    by (rule Suc.hyps(1) [OF _ rest])
      (use Suc p mn in \<open>auto simp: nth_append less_Suc_eq\<close>)
qed simp

section \<open>The search ends\<close>

lemma unbiased_offset_returns:
  assumes "c < 2 ^ 64" and "candidate_value blake3 seed bucket c < zone rng" and "counter < 2 ^ 64"
  shows "\<exists>offset. unbiased_offset blake3 seed bucket counter rng = Some offset"
proof -
  let ?ok = "\<lambda>k. candidate_value blake3 seed bucket ((counter + k) mod 2 ^ 64) < zone rng"
  have "(counter + (c + (2 ^ 64 - counter))) mod 2 ^ 64 = c" using assms(1,3) by simp
  then have "?ok (c + (2 ^ 64 - counter))" using assms(2) by simp
  then obtain k where k: "?ok k" "\<forall>j < k. \<not> ?ok j" using exists_least_iff [of ?ok] by blast
  then have "\<forall>j < k. zone rng \<le> candidate_value blake3 seed bucket ((counter + j) mod 2 ^ 64)" by (simp only: not_less)
  from unbiased_offset_accepted [OF this assms(3) k(1)] show ?thesis by blast
qed

definition answers :: "(bytes \<Rightarrow> bytes) \<Rightarrow> bytes \<Rightarrow> nat \<Rightarrow> bool" where
  "answers blake3 seed bucket \<longleftrightarrow> (\<exists>c < 2 ^ 64. candidate_value blake3 seed bucket c < 2 ^ 63)"

lemma sampling_then_returns:
  "r \<noteq> None \<Longrightarrow> (\<And>a. r = Some (Inr a) \<Longrightarrow> f a \<noteq> None) \<Longrightarrow> sampling_then r f \<noteq> None"
  by (cases r; cases "the r") auto

lemma attempts_return:
  assumes "answers blake3 seed bucket" and "0 < count" and "count \<le> 2 ^ 63" and "\<forall>c \<in> set counters. c < 2 ^ 64"
  shows "attempts blake3 track seed ticks plans bucket lo count counters saw \<noteq> None"
  using assms(4)
proof (induction counters arbitrary: saw)
  case (Cons c cs)
  obtain c' where "c' < 2 ^ 64" "candidate_value blake3 seed bucket c' < zone count"
    using assms(1) zone_large [OF assms(2,3)] by (auto simp: answers_def dest: less_trans)
  then obtain offset where "unbiased_offset blake3 seed bucket c count = Some offset"
    using unbiased_offset_returns Cons.prems by (metis list.set_intros(1))
  then show ?case using Cons by (auto simp: sampling_then_def split: option.splits sum.splits)
qed simp

lemma plan_bucket_returns:
  assumes "answers blake3 seed bucket"
  shows "plan_bucket blake3 track seed timeline_len ticks plans bucket \<noteq> None"
proof -
  have c: "\<forall>c \<in> set [0..<MAX_ATTEMPTS_PER_BUCKET]. c < 2 ^ 64" by (simp add: MAX_ATTEMPTS_PER_BUCKET_def)
  show ?thesis
    unfolding plan_bucket_def
  proof (intro sampling_then_returns)
    fix lo hi latest
    show "(if latest < lo then Some (Inl (BucketTooShort bucket))
       else sampling_then (Some (ok_or SamplingIntegerOverflow
         (Option.bind (i64_checked (latest - lo)) (\<lambda>value. i64_checked (value + 1))))) (\<lambda>candidate_count.
       sampling_then (attempts blake3 track seed ticks plans bucket lo (nat candidate_count)
         [0..<MAX_ATTEMPTS_PER_BUCKET] False) (\<lambda>(selected, saw_sync).
       Some (and_then (ok_or (if saw_sync then DuplicateAlignedSample bucket else NoSyncSample bucket) selected) (\<lambda>plan.
         Inr (plans @ [plan])))))) \<noteq> None"
    proof (cases "latest < lo")
      case False
      have "attempts blake3 track seed ticks plans bucket lo (nat count) [0..<MAX_ATTEMPTS_PER_BUCKET] False \<noteq> None"
        if "Option.bind (i64_checked (latest - lo)) (\<lambda>value. i64_checked (value + 1)) = Some count" for count
        by (rule attempts_return [OF assms _ _ c]) (use that False in \<open>auto simp: bind_eq_Some_conv i64_checked_Some\<close>)
      with False show ?thesis
        by (simp only: if_False) (intro sampling_then_returns; simp add: ok_or_Inr_iff split: prod.splits)
    qed simp
  qed simp_all
qed

lemma plan_buckets_return:
  "\<forall>bucket \<in> set buckets. answers blake3 seed bucket \<Longrightarrow> plan_buckets blake3 track seed timeline_len ticks plans buckets \<noteq> None"
  by (induction buckets arbitrary: plans)
    (use plan_bucket_returns in \<open>auto simp: sampling_then_def split: option.splits sum.splits\<close>)

lemma plan_three_samples_plans:
  assumes "plan_three_samples blake3 track seed ms = Some (Inr plans)"
  shows "length plans = 3 \<and> distinct (map decode_start_sample plans) \<and>
    (\<forall>k < 3. plan_ok track ((ms * vt_timescale track + 999) div 1000) k (boundary track k) (boundary track (k + 1)) (plans ! k))"
proof -
  define ticks where "ticks = (ms * vt_timescale track + 999) div 1000"
  have run: "plan_buckets blake3 track seed (nat (vt_presentation_end track - vt_presentation_start track)) ticks [] [0..<3] = Some (Inr plans)"
    and t: "ticks < 2 ^ 63" "vt_presentation_start track < vt_presentation_end track"
    using assms unfolding ticks_def
    by (auto simp: plan_three_samples_def sampling_then_Inr_iff ok_or_Inr_iff bind_eq_Some_conv checked_Some Let_def
        BUCKET_COUNT_def split: if_splits)
  show ?thesis using plan_buckets_ok [OF run t(2,1)] by (simp add: ticks_def)
qed

lemma plans_shape:
  assumes "plan_three_samples blake3 track seed ms = Some (Inr plans)"
  shows "length plans = 3 \<and> (\<forall>k < 3. bucket_index (plans ! k) = k)"
  using plan_three_samples_plans [OF assms] by (auto simp: plan_ok_def)

section \<open>Properties\<close>

lemma unbiased_offset_first:
  assumes "counter < 2 ^ 64"
  shows "unbiased_offset blake3 seed bucket counter rng = Some offset \<longleftrightarrow>
    (\<exists>k. (\<forall>j < k. zone rng \<le> candidate_value blake3 seed bucket ((counter + j) mod 2 ^ 64)) \<and>
      candidate_value blake3 seed bucket ((counter + k) mod 2 ^ 64) < zone rng \<and>
      offset = candidate_value blake3 seed bucket ((counter + k) mod 2 ^ 64) mod rng)"
    (is "_ \<longleftrightarrow> (\<exists>k. ?first k \<and> ?ok k \<and> offset = ?v k mod rng)")
proof
  assume run: "unbiased_offset blake3 seed bucket counter rng = Some offset"
  from unbiased_offset_value [OF this assms] obtain k where "?ok k" by blast
  then obtain k where k: "?ok k" "\<forall>j < k. \<not> ?ok j" using exists_least_iff [of ?ok] by blast
  then have "?first k" by (simp only: not_less)
  with unbiased_offset_accepted [OF this assms k(1)] run k(1) show "\<exists>k. ?first k \<and> ?ok k \<and> offset = ?v k mod rng" by auto
qed (use unbiased_offset_accepted [OF _ assms] in blast)

text \<open>A hash function that answers every question with one 64-bit value.\<close>

lemma unbiased_offset_constant:
  assumes "v < 2 ^ 64" and "counter < 2 ^ 64"
  shows "unbiased_offset (\<lambda>_. to_be_bytes 8 v) seed bucket counter rng = Some offset \<longleftrightarrow> v < zone rng \<and> offset = v mod rng"
proof -
  have "candidate_value (\<lambda>_. to_be_bytes 8 v) seed bucket c = v" for c
    using assms(1) by (simp add: candidate_value_def from_to_be_bytes)
  then show ?thesis unfolding unbiased_offset_first [OF assms(2)] by auto
qed

text \<open>
  C25: The rejection loop. It returns the residue of the first accepted value, counting up from the given counter and
  wrapping at 64 bits, and it never returns exactly when all 64-bit counters are rejected. The result is
  below the range, and it is unbiased: among the 64-bit values that the hash may give, each offset of the range is
  returned for equally many.
\<close>

theorem unbiased_offset_spec:
  assumes "0 < rng" and "counter < 2 ^ 64"
  shows "(\<forall>offset. unbiased_offset blake3 seed bucket counter rng = Some offset \<longleftrightarrow>
      (\<exists>k. (\<forall>j < k. zone rng \<le> candidate_value blake3 seed bucket ((counter + j) mod 2 ^ 64)) \<and>
        candidate_value blake3 seed bucket ((counter + k) mod 2 ^ 64) < zone rng \<and>
        offset = candidate_value blake3 seed bucket ((counter + k) mod 2 ^ 64) mod rng)) \<and>
    (unbiased_offset blake3 seed bucket counter rng = None \<longleftrightarrow> (\<forall>c < 2 ^ 64. zone rng \<le> candidate_value blake3 seed bucket c)) \<and>
    (\<forall>offset. unbiased_offset blake3 seed bucket counter rng = Some offset \<longrightarrow> offset < rng) \<and>
    (\<forall>offset < rng. card {v. v < 2 ^ 64 \<and> unbiased_offset (\<lambda>_. to_be_bytes 8 v) seed bucket counter rng = Some offset} = 2 ^ 64 div rng)"
proof (intro conjI allI impI)
  show "unbiased_offset blake3 seed bucket counter rng = None \<longleftrightarrow> (\<forall>c < 2 ^ 64. zone rng \<le> candidate_value blake3 seed bucket c)"
    using unbiased_offset_value [OF _ assms(2)] unbiased_offset_returns [OF _ _ assms(2)]
    by (metis mod_less_divisor not_less option.exhaust option.distinct(1) zero_less_numeral zero_less_power)
next
  fix offset assume "unbiased_offset blake3 seed bucket counter rng = Some offset"
  then show "offset < rng" using unbiased_offset_value [OF _ assms(2)] assms(1) by fastforce
next
  fix offset assume "offset < rng"
  have z: "zone rng \<le> 2 ^ 64" "zone rng div rng = 2 ^ 64 div rng" using assms(1) by (simp_all add: zone_def minus_mod_eq_mult_div)
  then have "{v. v < 2 ^ 64 \<and> unbiased_offset (\<lambda>_. to_be_bytes 8 v) seed bucket counter rng = Some offset} =
      {v. v < zone rng \<and> v mod rng = offset}"
    using unbiased_offset_constant [OF _ assms(2)] by auto
  then show "card {v. v < 2 ^ 64 \<and> unbiased_offset (\<lambda>_. to_be_bytes 8 v) seed bucket counter rng = Some offset} = 2 ^ 64 div rng"
    using residues_uniform [OF \<open>offset < rng\<close>] z(2) by simp
qed (rule unbiased_offset_first [OF assms(2)])

theorem unbiased_offset_spec_witness:
  "unbiased_offset (\<lambda>_. replicate 7 0 @ [19]) [] 1 0 17 = Some 2 \<and>
   card {v. v < 2 ^ 64 \<and> unbiased_offset (\<lambda>_. to_be_bytes 8 v) [] 1 0 17 = Some 16} = 2 ^ 64 div 17"
proof -
  have "0 < (17 :: nat)" "(0 :: nat) < 2 ^ 64" by simp_all
  note spec = unbiased_offset_spec [OF this, of "\<lambda>_. replicate 7 0 @ [19]" "[]" 1]
  have "candidate_value (\<lambda>_. replicate 7 0 @ [19]) [] 1 c = 19" for c
    by (simp add: candidate_value_def from_be_bytes_def)
  then have "unbiased_offset (\<lambda>_. replicate 7 0 @ [19]) [] 1 0 17 = Some 2"
    using spec [THEN conjunct1, rule_format, of 2] by (auto simp: zone_def intro: exI [of _ 0])
  moreover have "(16 :: nat) < 17" by simp
  ultimately show ?thesis using spec by blast
qed

text \<open>
  C24: The three plans. When planning succeeds there is one plan per third of the presentation
  timeline, the preview it asks for lies inside its third and is as long as the duration asked for,
  decoding starts at the latest sync sample at or before the target, and no two plans start at the
  same sample.
\<close>

theorem plan_three_samples_ok:
  assumes "plan_three_samples blake3 track seed ms = Some (Inr plans)"
  shows "length plans = 3 \<and> distinct (map decode_start_sample plans) \<and>
    (\<forall>k < 3. let p = plans ! k in
       bucket_index p = k \<and> boundary track k \<le> target_time p \<and> presentation_end_time p \<le> boundary track (k + 1) \<and>
       1000 * (presentation_end_time p - target_time p) \<ge> int (ms * vt_timescale track) \<and>
       (\<exists>s. latest_sync_at (vt_samples track) (target_time p) s \<and> decode_start_sample p = vs_index s \<and>
          decode_start_time p = vs_presentation_time s))"
proof -
  define ticks where "ticks = (ms * vt_timescale track + 999) div 1000"
  have "n \<le> 1000 * ((n + 999) div 1000)" for n :: nat
    using div_mult_mod_eq [of "n + 999" 1000] mod_less_divisor [of 1000 "n + 999"] by linarith
  then have "ms * vt_timescale track \<le> 1000 * ticks" unfolding ticks_def .
  then have "int (ms * vt_timescale track) \<le> 1000 * int ticks" by linarith
  then show ?thesis using plan_three_samples_plans [OF assms, folded ticks_def] by (auto simp: plan_ok_def Let_def)
qed

definition demo_samples :: "video_sample list" where
  "demo_samples = map (\<lambda>i. \<lparr> vs_index = i, vs_decode_time = 5 * i, vs_presentation_time = int (5 * i), vs_duration = 5,
     vs_byte_offset = 10 * i, vs_byte_size = 10, vs_is_sync = even i \<rparr>) [0..<6]"

definition demo_track :: video_track where
  "demo_track = \<lparr> vt_timescale = 1, vt_media_duration = 30, vt_presentation_start = 0, vt_presentation_end = 30,
     vt_codec = fourcc ''avc1'', vt_samples = demo_samples \<rparr>"

definition demo_plans :: "sample_plan list" where
  "demo_plans = map (\<lambda>k. \<lparr> bucket_index = k, target_time = int (10 * k) + 2, decode_start_sample = 2 * k,
     decode_start_time = int (10 * k), presentation_end_time = int (10 * k) + 7 \<rparr>) [0..<3]"

lemma demo_offset: "unbiased_offset (\<lambda>_. replicate 7 0 @ [8]) [] bucket counter 6 = Some 2"
proof -
  have "candidate_value (\<lambda>_. replicate 7 0 @ [8]) [] bucket counter = 8"
    by (simp add: candidate_value_def from_be_bytes_def)
  then show ?thesis by (subst unbiased_offset.simps) (simp add: zone_def)
qed

lemma demo_sync: "last_sync demo_samples 2 = Some (demo_samples ! 0)" "last_sync demo_samples 12 = Some (demo_samples ! 2)"
  "last_sync demo_samples 22 = Some (demo_samples ! 4)"
  by code_simp+

lemma demo_bucket:
  assumes "bucket < 3"
  shows "plan_bucket (\<lambda>_. replicate 7 0 @ [8]) demo_track [] 30 5 (take bucket demo_plans) bucket = Some (Inr (take (bucket + 1) demo_plans))"
proof -
  have c: "[0..<MAX_ATTEMPTS_PER_BUCKET] = 0 # [1..<128]" by (simp add: MAX_ATTEMPTS_PER_BUCKET_def upt_conv_Cons)
  consider "bucket = 0" | "bucket = 1" | "bucket = 2" using assms by linarith
  then show ?thesis
    by cases (simp_all add: plan_bucket_def c bucket_boundary_def checked_mul_def i64_checked_def BUCKET_COUNT_def as_signed_def
        demo_offset demo_track_def demo_sync del: upt_rec_numeral, simp_all add: demo_samples_def demo_plans_def upt_rec)
qed

lemma demo_plans_run: "plan_three_samples (\<lambda>_. replicate 7 0 @ [8]) demo_track [] 5000 = Some (Inr demo_plans)"
proof -
  have b: "[0..<BUCKET_COUNT] = [0, 1, 2]" by (simp add: BUCKET_COUNT_def upt_rec)
  have "length demo_plans = 3" by (simp add: demo_plans_def)
  then have "plan_buckets (\<lambda>_. replicate 7 0 @ [8]) demo_track [] 30 5 [] [0, 1, 2] = Some (Inr demo_plans)"
    using demo_bucket [of 0] demo_bucket [of 1] demo_bucket [of 2] by (simp add: numeral_2_eq_2 numeral_3_eq_3)
  then show ?thesis using \<open>length demo_plans = 3\<close>
    by (simp add: plan_three_samples_def demo_track_def checked_mul_def checked_add_def i64_checked_def b)
qed

theorem plan_three_samples_ok_witness:
  "boundary demo_track 2 \<le> target_time (demo_plans ! 2) \<and> presentation_end_time (demo_plans ! 2) \<le> boundary demo_track 3 \<and>
   distinct (map decode_start_sample demo_plans)"
proof -
  have "2 < (3 :: nat)" by simp
  with plan_three_samples_ok [OF demo_plans_run] show ?thesis unfolding Let_def by (metis one_plus_numeral add.commute semiring_norm(3))
qed

text \<open>
  C26: Planning ends. If for each of the three buckets one of the 64-bit counters hashes to a value below
  half of the 64-bit range, then planning returns a value, plans or an error, for every track and every
  duration.
\<close>

theorem plan_three_samples_returns:
  assumes "\<forall>bucket < 3. \<exists>c < 2 ^ 64. candidate_value blake3 seed bucket c < 2 ^ 63"
  shows "\<exists>r. plan_three_samples blake3 track seed ms = Some r"
proof -
  have "\<forall>bucket \<in> set [0..<BUCKET_COUNT]. answers blake3 seed bucket" using assms by (simp add: answers_def BUCKET_COUNT_def)
  note returns = plan_buckets_return [OF this]
  have "plan_three_samples blake3 track seed ms \<noteq> None"
    unfolding plan_three_samples_def Let_def
    by (split if_split, intro conjI impI, simp, split if_split, intro conjI impI, simp, intro sampling_then_returns, simp,
        split if_split, intro conjI impI, simp, intro sampling_then_returns returns) simp_all
  then show ?thesis by blast
qed

theorem plan_three_samples_returns_witness:
  "\<exists>r. plan_three_samples (\<lambda>_. replicate 32 0) demo_track [] 11000 = Some r"
proof (rule plan_three_samples_returns, intro allI impI)
  fix bucket :: nat
  have "candidate_value (\<lambda>_. replicate 32 0) [] bucket 0 < 2 ^ 63"
    by (simp add: candidate_value_def from_be_bytes_def)
  moreover have "(0 :: nat) < 2 ^ 64" by simp
  ultimately show "\<exists>c < 2 ^ 64. candidate_value (\<lambda>_. replicate 32 0) [] bucket c < 2 ^ 63" by blast
qed

end
