(* ===== verification/Video_Guest.thy ===== *)
theory Video_Guest
  imports Video_Plan Vdd_Host
begin

text \<open>
  The video sampling guest, \<^verbatim>\<open>guest/video-sampling/program/src/main.rs\<close>: it checks a partial opening of a
  Walrus blob, reads the MP4 index out of the opened symbols, plans the three samples again, fills the
  sample bytes into the preview templates and commits to the identifiers of the finished previews.

  Panics and failed assertions are \<open>Inl\<close> with their message. Ordered maps are association lists whose keys
  are visited in ascending order. The guest returns the record of its public values; their ABI encoding
  belongs to the \<^verbatim>\<open>alloy\<close> crate. \<open>None\<close> is the rejection loop of the planning that never ends.
\<close>

section \<open>The witness\<close>

record top_level_box =
  tb_offset :: nat
  tb_size :: nat
  tb_kind :: bytes
  tb_header_size :: nat

record preview_segment =
  seg_offset :: nat
  seg_bytes :: bytes

record preview_template =
  pv_file_len :: nat
  non_sample_segments :: "preview_segment list"

record auth_symbol =
  as_leaf_index :: nat
  as_bytes :: bytes

record multiproof_node =
  mn_level :: nat
  mn_index :: nat
  mn_node :: node

record auth_sliver =
  au_shard_index :: nat
  au_primary_root :: bytes
  au_secondary_root :: bytes
  au_pair_leaf_path :: "node list"
  au_symbols :: "auth_symbol list"
  au_proof_nodes :: "multiproof_node list"

record video_opening =
  vo_blob_id :: bytes
  vo_encoding_type :: byte
  vo_unencoded_length :: nat
  vo_n_shards :: nat
  vo_metadata_root :: bytes
  vo_primary_slivers :: "auth_sliver list"

record video_witness =
  vw_origin :: video_opening
  vw_top_level_boxes :: "top_level_box list"
  vw_previews :: "preview_template list"

record sale_context =
  sc_chain_id :: nat
  sc_sale_contract :: bytes
  sc_sale_id :: bytes
  sc_external_randomness :: bytes

record video_public_values =
  origin_blob_id :: bytes
  spec_hash :: bytes
  sampling_seed :: bytes
  preview_cid_digests :: "bytes list"

definition PREVIEW_DURATION_MS :: nat where "PREVIEW_DURATION_MS = 5000"

section \<open>The opening\<close>

definition insert_symbol ::
  "(bytes \<Rightarrow> bytes) \<Rightarrow> nat \<Rightarrow> nat \<Rightarrow> (nat \<times> node) list \<Rightarrow> auth_symbol \<Rightarrow> ((nat \<times> node) list, string) result" where
  "insert_symbol H n sym_size current symbol =
     and_then (ensure (length (as_bytes symbol) = sym_size) ''wrong Walrus symbol size'') (\<lambda>_.
     and_then (ensure (as_leaf_index symbol < n \<and> map_of current (as_leaf_index symbol) = None) ''duplicate primary symbol'') (\<lambda>_.
     Inr (current @ [(as_leaf_index symbol, root (build H [as_bytes symbol]))])))"

definition multiproof_child ::
  "(nat \<times> node) list \<Rightarrow> (nat \<times> nat \<Rightarrow> node option) \<Rightarrow> nat \<Rightarrow> nat \<Rightarrow> nat \<Rightarrow> (node, string) result" where
  "multiproof_child current prf level width index =
     ok_or ''missing primary multiproof node''
       (case map_of current index of Some x \<Rightarrow> Some x
        | None \<Rightarrow> (case prf (level, index) of Some x \<Rightarrow> Some x | None \<Rightarrow> if width \<le> index then Some Empty else None))"

definition multiproof_parent ::
  "(bytes \<Rightarrow> bytes) \<Rightarrow> (nat \<times> node) list \<Rightarrow> (nat \<times> nat \<Rightarrow> node option) \<Rightarrow> nat \<Rightarrow> nat \<Rightarrow> nat \<Rightarrow> (nat \<times> node, string) result" where
  "multiproof_parent H current prf level width parent =
     and_then (multiproof_child current prf level width (parent * 2)) (\<lambda>l.
     and_then (multiproof_child current prf level width (parent * 2 + 1)) (\<lambda>r.
     Inr (parent, root (build_from_leaf_hashes H [l, r]))))"

definition parent_indices :: "(nat \<times> node) list \<Rightarrow> nat list" where
  "parent_indices current = sort (remdups (map (\<lambda>(index, _). index div 2) current))"

function multiproof_levels ::
  "(bytes \<Rightarrow> bytes) \<Rightarrow> (nat \<times> nat \<Rightarrow> node option) \<Rightarrow> (nat \<times> node) list \<Rightarrow> nat \<Rightarrow> nat \<Rightarrow> (node, string) result" where
  "multiproof_levels H prf current level width =
     (if 1 < width then
        and_then (try_map (multiproof_parent H current prf level width) (parent_indices current)) (\<lambda>next_nodes.
        multiproof_levels H prf next_nodes (level + 1) (next_multiple_of width 2 div 2))
      else ok_or ''multiproof produced no root'' (map_of current 0))"
  by pat_completeness auto
termination
  by (relation "measure (\<lambda>(H, prf, current, level, width). width)")
    (simp_all only: wf_measure in_measure prod.case half_up_eqs half_up_less)

declare multiproof_levels.simps [simp del]

definition multiproof_map :: "multiproof_node list \<Rightarrow> nat \<times> nat \<Rightarrow> node option" where
  "multiproof_map ns = map_of (rev (map (\<lambda>x. ((mn_level x, mn_index x), mn_node x)) ns))"

definition verify_primary_multiproof :: "(bytes \<Rightarrow> bytes) \<Rightarrow> auth_sliver \<Rightarrow> nat \<Rightarrow> nat \<Rightarrow> (node, string) result" where
  "verify_primary_multiproof H sliver n sym_size =
     and_then (try_fold (insert_symbol H n sym_size) [] (au_symbols sliver)) (\<lambda>current.
     and_then (ensure (current \<noteq> []) ''empty primary symbol multiproof'') (\<lambda>_.
     multiproof_levels H (multiproof_map (au_proof_nodes sliver)) current 0 n))"

definition verify_auth_sliver ::
  "(bytes \<Rightarrow> bytes) \<Rightarrow> video_opening \<Rightarrow> nat \<Rightarrow> nat list \<Rightarrow> auth_sliver \<Rightarrow> (nat list, string) result" where
  "verify_auth_sliver H origin sym_size seen_shards sliver =
     and_then (ensure (au_shard_index sliver \<notin> set seen_shards) ''duplicate primary sliver'') (\<lambda>_.
     and_then (ensure (au_shard_index sliver < vo_n_shards origin) ''panic'') (\<lambda>_.
     and_then (map_err (\<lambda>_. ''sliver pair opening mismatch'')
       (verify_proof H (au_pair_leaf_path sliver) (Digest (vo_metadata_root origin)) (vo_n_shards origin)
         (au_primary_root sliver @ au_secondary_root sliver) (au_shard_index sliver))) (\<lambda>_.
     and_then (verify_primary_multiproof H sliver (vo_n_shards origin) sym_size) (\<lambda>rt.
     and_then (ensure (rt = Digest (au_primary_root sliver)) ''primary symbol multiproof mismatch'') (\<lambda>_.
     Inr (au_shard_index sliver # seen_shards))))))"

definition verify_walrus_video_opening :: "(bytes \<Rightarrow> bytes) \<Rightarrow> video_opening \<Rightarrow> (unit, string) result" where
  "verify_walrus_video_opening H origin =
     and_then (ok_or ''invalid Walrus encoding'' (encoding_type_try_from (vo_encoding_type origin))) (\<lambda>encoding.
     and_then (ensure (vo_n_shards origin = 1000) ''unsupported Walrus shard count'') (\<lambda>_.
     and_then (ensure (from_metadata H (Digest (vo_metadata_root origin)) encoding (vo_unencoded_length origin) = vo_blob_id origin)
       ''Walrus blob ID mismatch'') (\<lambda>_.
     and_then (try_fold (verify_auth_sliver H origin (walrus_symbol_size (vo_unencoded_length origin))) [] (vo_primary_slivers origin)) (\<lambda>_.
     Inr ()))))"

section \<open>Reading the blob\<close>

definition find_primary_symbol :: "video_opening \<Rightarrow> nat \<Rightarrow> nat \<Rightarrow> (bytes, string) result" where
  "find_primary_symbol origin shard leaf =
     and_then (ok_or ''missing authenticated primary sliver'' (find (\<lambda>s. au_shard_index s = shard) (vo_primary_slivers origin))) (\<lambda>sliver.
     and_then (ok_or ''missing authenticated primary symbol'' (find (\<lambda>s. as_leaf_index s = leaf) (au_symbols sliver))) (\<lambda>symbol.
     Inr (as_bytes symbol)))"

function read_symbols :: "video_opening \<Rightarrow> nat \<Rightarrow> nat \<Rightarrow> nat \<Rightarrow> bytes \<Rightarrow> (bytes, string) result" where
  "read_symbols origin sym_size cursor end_offset out =
     (if cursor < end_offset then
        if sym_size = 0 then Inl ''panic''
        else
          let flat_symbol = cursor div sym_size in
          case find_primary_symbol origin (flat_symbol div COL_HEIGHT_SECONDARY mod 2 ^ 32) (flat_symbol mod COL_HEIGHT_SECONDARY) of
            Inl e \<Rightarrow> Inl e
          | Inr symbol \<Rightarrow>
              if length symbol \<noteq> sym_size then Inl ''wrong Walrus symbol size''
              else
                let within = cursor mod sym_size; n = min (length symbol - within) (end_offset - cursor) in
                read_symbols origin sym_size (cursor + n) end_offset (out @ take n (drop within symbol))
      else Inr out)"
  by pat_completeness auto
termination
  by (relation "measure (\<lambda>(origin, s, cursor, end_offset, out). end_offset - cursor)") (auto simp: mod_less_divisor diff_less_mono2)

declare read_symbols.simps [simp del]

definition read_origin_range :: "video_opening \<Rightarrow> nat \<Rightarrow> nat \<Rightarrow> (bytes, string) result" where
  "read_origin_range origin offset len =
     and_then (ok_or ''source range overflow'' (checked_add 64 offset len)) (\<lambda>end_offset.
     and_then (ensure (end_offset \<le> vo_unencoded_length origin) ''source range outside blob'') (\<lambda>_.
     read_symbols origin (walrus_symbol_size (vo_unencoded_length origin)) offset end_offset []))"

section \<open>The index\<close>

definition declared_size :: "top_level_box \<Rightarrow> bytes \<Rightarrow> (nat, string) result" where
  "declared_size entry header =
     (if tb_header_size entry = 8 then Inr (from_be_bytes (take 4 header))
      else if from_be_bytes (take 4 header) = 1 then Inr (from_be_bytes (take 8 (drop 8 header)))
      else Inl ''panic'')"

definition walk_box ::
  "video_opening \<Rightarrow> nat \<times> bytes option \<Rightarrow> top_level_box \<Rightarrow> (nat \<times> bytes option, string) result" where
  "walk_box origin = (\<lambda>(cursor, moov_payload) entry.
     and_then (ensure (tb_offset entry = cursor) ''top-level MP4 directory has a gap'') (\<lambda>_.
     and_then (ensure (tb_header_size entry = 8 \<or> tb_header_size entry = 16) ''invalid MP4 header size'') (\<lambda>_.
     and_then (ensure (tb_header_size entry \<le> tb_size entry) ''invalid top-level MP4 box size'') (\<lambda>_.
     and_then (read_origin_range origin (tb_offset entry) (tb_header_size entry)) (\<lambda>header.
     and_then (ensure (take 4 (drop 4 header) = tb_kind entry) ''top-level MP4 type mismatch'') (\<lambda>_.
     and_then (declared_size entry header) (\<lambda>declared.
     and_then (ensure (declared = tb_size entry) ''top-level MP4 size mismatch'') (\<lambda>_.
     and_then (ensure (tb_kind entry \<noteq> fourcc ''moof'') ''fragmented MP4 is unsupported'') (\<lambda>_.
     and_then
       (if tb_kind entry = fourcc ''moov'' then
          and_then (ensure (moov_payload = None) ''multiple moov boxes'') (\<lambda>_.
          and_then (read_origin_range origin (tb_offset entry + tb_header_size entry) (tb_size entry - tb_header_size entry)) (\<lambda>payload.
          Inr (Some payload)))
        else Inr moov_payload) (\<lambda>moov_payload.
     and_then (ok_or ''MP4 directory overflow'' (checked_add 64 cursor (tb_size entry))) (\<lambda>cursor.
     Inr (cursor, moov_payload))))))))))))"

definition authenticated_moov :: "video_witness \<Rightarrow> (bytes, string) result" where
  "authenticated_moov witness =
     and_then (try_fold (walk_box (vw_origin witness)) (0, None) (vw_top_level_boxes witness)) (\<lambda>(cursor, moov_payload).
     and_then (ensure (cursor = vo_unencoded_length (vw_origin witness)) ''MP4 directory length mismatch'') (\<lambda>_.
     ok_or ''missing moov box'' moov_payload))"

section \<open>Previews\<close>

definition selected_samples :: "video_sample list \<Rightarrow> sample_plan \<Rightarrow> (video_sample list, string) result" where
  "selected_samples samples plan =
     (let window = map vs_index (filter (\<lambda>s. decode_start_sample plan \<le> vs_index s \<and>
            vs_presentation_time s < presentation_end_time plan) samples)
      in if window = [] then Inl ''sample window contains no frames''
         else
           let last_index = Max (set window) in
           Inr (filter (\<lambda>s. decode_start_sample plan \<le> vs_index s \<and> vs_index s \<le> last_index) samples))"

definition copy_into :: "bytes \<Rightarrow> nat \<Rightarrow> bytes \<Rightarrow> bytes" where
  "copy_into xs start ys = take start xs @ ys @ drop (start + length ys) xs"

definition place_segment ::
  "nat \<Rightarrow> bytes \<times> (nat \<times> nat) list \<times> nat \<Rightarrow> preview_segment \<Rightarrow> (bytes \<times> (nat \<times> nat) list \<times> nat, string) result" where
  "place_segment file_len = (\<lambda>(preview, supplied_segments, previous_end) segment.
     let start = seg_offset segment in
     and_then (ok_or ''preview segment overflow'' (checked_add 64 start (length (seg_bytes segment)))) (\<lambda>end_offset.
     and_then (ensure (previous_end \<le> start \<and> end_offset \<le> file_len) ''invalid preview segment'') (\<lambda>_.
     Inr (copy_into preview start (seg_bytes segment), supplied_segments @ [(start, end_offset)], end_offset))))"

definition sample_range :: "nat \<Rightarrow> video_sample \<Rightarrow> (nat \<times> nat, string) result" where
  "sample_range file_len sample =
     and_then (ok_or ''sample range overflow'' (checked_add 64 (vs_byte_offset sample) (vs_byte_size sample))) (\<lambda>end_offset.
     and_then (ensure (end_offset \<le> file_len) ''sample outside preview'') (\<lambda>_.
     Inr (vs_byte_offset sample, end_offset)))"

text \<open>Sorting pairs: by the second component, then stably by the first.\<close>

definition sort_ranges :: "(nat \<times> nat) list \<Rightarrow> (nat \<times> nat) list" where
  "sort_ranges rs = sort_key fst (sort_key snd rs)"

definition ranges_disjoint :: "(nat \<times> nat) list \<Rightarrow> bool" where
  "ranges_disjoint rs = list_all (\<lambda>(a, b). snd a \<le> fst b) (zip rs (tl rs))"

definition sorted_sample_ranges :: "video_sample list \<Rightarrow> nat \<Rightarrow> ((nat \<times> nat) list, string) result" where
  "sorted_sample_ranges samples file_len =
     and_then (try_map (sample_range file_len) samples) (\<lambda>ranges.
     let ranges = sort_ranges ranges in
     and_then (ensure (ranges_disjoint ranges) ''overlapping preview samples'') (\<lambda>_.
     Inr ranges))"

primrec complement_from :: "nat \<Rightarrow> (nat \<times> nat) list \<Rightarrow> nat \<Rightarrow> (nat \<times> nat) list" where
  "complement_from cursor [] file_len = (if cursor < file_len then [(cursor, file_len)] else [])"
| "complement_from cursor (r # rs) file_len =
     (if cursor < fst r then [(cursor, fst r)] else []) @ complement_from (snd r) rs file_len"

definition complement_ranges :: "(nat \<times> nat) list \<Rightarrow> nat \<Rightarrow> (nat \<times> nat) list" where
  "complement_ranges sample_ranges file_len = complement_from 0 sample_ranges file_len"

definition fill_sample :: "video_opening \<Rightarrow> bytes \<Rightarrow> video_sample \<times> video_sample \<Rightarrow> (bytes, string) result" where
  "fill_sample origin preview = (\<lambda>(preview_sample, source_sample).
     and_then (ensure (vs_byte_size preview_sample = vs_byte_size source_sample) ''preview sample size changed'') (\<lambda>_.
     and_then (ensure (vs_duration preview_sample = vs_duration source_sample) ''preview sample duration changed'') (\<lambda>_.
     and_then (ensure (vs_is_sync preview_sample = vs_is_sync source_sample) ''preview sync table changed'') (\<lambda>_.
     and_then (read_origin_range origin (vs_byte_offset source_sample) (vs_byte_size source_sample)) (\<lambda>source_bytes.
     and_then (ensure (vs_byte_offset preview_sample + vs_byte_size preview_sample \<le> length preview \<and>
       length source_bytes = vs_byte_size preview_sample) ''panic'') (\<lambda>_.
     Inr (copy_into preview (vs_byte_offset preview_sample) source_bytes)))))))"

definition materialize_preview ::
  "preview_template \<Rightarrow> bytes \<Rightarrow> video_sample list \<Rightarrow> video_opening \<Rightarrow> (bytes, string) result" where
  "materialize_preview template source_codec source_samples origin =
     (let file_len = pv_file_len template in
      and_then (try_fold (place_segment file_len) (replicate file_len 0, [], 0) (non_sample_segments template)) (\<lambda>(preview, supplied_segments, _).
      and_then (map_err (\<lambda>_. ''invalid preview MP4 template'') (parse_mp4_video_track preview)) (\<lambda>preview_track.
      and_then (ensure (vt_codec preview_track = source_codec) ''preview codec changed'') (\<lambda>_.
      and_then (ensure (length (vt_samples preview_track) = length source_samples) ''preview sample count changed'') (\<lambda>_.
      and_then (sorted_sample_ranges (vt_samples preview_track) file_len) (\<lambda>sample_ranges.
      and_then (ensure (supplied_segments = complement_ranges sample_ranges file_len)
        ''preview template must contain exactly the non-sample bytes'') (\<lambda>_.
      try_fold (fill_sample origin) preview (zip (vt_samples preview_track) source_samples))))))))"

section \<open>The guest\<close>

definition preview_digest ::
  "('mh, 'cid) cid_lib \<Rightarrow> (bytes \<Rightarrow> bytes) \<Rightarrow> video_witness \<Rightarrow> video_track \<Rightarrow> bytes list \<Rightarrow> sample_plan \<Rightarrow> (bytes list, string) result" where
  "preview_digest CL sha256 witness source_track digests plan =
     and_then (selected_samples (vt_samples source_track) plan) (\<lambda>selected.
     if bucket_index plan < length (vw_previews witness) \<and> bucket_index plan < length digests then
       and_then (materialize_preview (vw_previews witness ! bucket_index plan) (vt_codec source_track) selected (vw_origin witness)) (\<lambda>preview.
       and_then (map_err (\<lambda>_. ''panic'') (compute_ipfs_cid_zk_optimized CL sha256 preview)) (\<lambda>cid.
       if length cid < 32 then Inl ''panic''
       else Inr (digests[bucket_index plan := drop (length cid - 32) cid])))
     else Inl ''panic'')"

definition video_seed_input :: "video_witness \<Rightarrow> sale_context \<Rightarrow> bytes \<Rightarrow> sampling_seed_input" where
  "video_seed_input witness sale spec =
     \<lparr> ss_chain_id = sc_chain_id sale, ss_sale_contract = sc_sale_contract sale, ss_sale_id = sc_sale_id sale,
       ss_origin_blob_id = vo_blob_id (vw_origin witness), ss_spec_hash = spec,
       ss_external_randomness = sc_external_randomness sale \<rparr>"

definition video_main ::
  "(bytes \<Rightarrow> bytes) \<Rightarrow> (bytes \<Rightarrow> bytes) \<Rightarrow> (bytes \<Rightarrow> bytes) \<Rightarrow> ('mh, 'cid) cid_lib \<Rightarrow> video_witness \<Rightarrow> sale_context \<Rightarrow>
   (video_public_values, string) result option" where
  "video_main blake3 sha256 H CL witness sale =
     sampling_then (Some (verify_walrus_video_opening H (vw_origin witness))) (\<lambda>_.
     sampling_then (Some (authenticated_moov witness)) (\<lambda>moov.
     sampling_then (Some (map_err (\<lambda>_. ''unsupported authenticated MP4 metadata'')
       (parse_mp4_video_track_from_moov moov (vo_unencoded_length (vw_origin witness))))) (\<lambda>source_track.
     sampling_then (Some (map_err (\<lambda>_. ''valid sampling spec'') (sampling_spec_hash blake3 PREVIEW_DURATION_MS))) (\<lambda>spec.
     let seed = derive_sampling_seed blake3 (video_seed_input witness sale spec) in
     sampling_then (map_option (map_err (\<lambda>_. ''unable to plan authenticated video samples''))
       (plan_three_samples blake3 source_track seed PREVIEW_DURATION_MS)) (\<lambda>plans.
     sampling_then (Some (try_fold (preview_digest CL sha256 witness source_track) (replicate 3 (replicate 32 0)) plans)) (\<lambda>digests.
     Some (Inr \<lparr> origin_blob_id = vo_blob_id (vw_origin witness), spec_hash = spec, sampling_seed = seed,
       preview_cid_digests = digests \<rparr>)))))))"

end
