(* ===== verification/Video_Sound.thy ===== *)
theory Video_Sound
  imports Video_Guest
begin

text \<open>
  What an accepted run of the video sampling guest shows of the blob: the opened symbols are the blob's,
  so every range that is read is the blob's range, the walk over the directory is the parser's walk over
  the whole file, and the finished previews carry the bytes of the planned samples.
\<close>

section \<open>Multiproofs bind\<close>

lemma root_pair_hash: "root (build_from_leaf_hashes H [l, r]) = inner_hash H l r"
  by (simp add: root_build_from_leaf_hashes root_of.simps parents_def pad_def)

definition parent_query ::
  "(nat \<times> node) list \<Rightarrow> (nat \<times> nat \<Rightarrow> node option) \<Rightarrow> nat \<Rightarrow> nat \<Rightarrow> nat \<Rightarrow> bytes list" where
  "parent_query current prf level width p =
     (case (multiproof_child current prf level width (p * 2), multiproof_child current prf level width (p * 2 + 1)) of
        (Inr l, Inr r) \<Rightarrow> [inner_query l r] | _ \<Rightarrow> [])"

function multiproof_queries ::
  "(bytes \<Rightarrow> bytes) \<Rightarrow> (nat \<times> nat \<Rightarrow> node option) \<Rightarrow> (nat \<times> node) list \<Rightarrow> nat \<Rightarrow> nat \<Rightarrow> bytes list" where
  "multiproof_queries H prf current level width =
     (if 1 < width then
        concat (map (parent_query current prf level width) (parent_indices current)) @
        (case try_map (multiproof_parent H current prf level width) (parent_indices current) of
           Inl _ \<Rightarrow> []
         | Inr next_nodes \<Rightarrow> multiproof_queries H prf next_nodes (level + 1) ((width + 1) div 2))
      else [])"
  by pat_completeness auto
termination
  by (relation "measure (\<lambda>(H, prf, current, level, width). width)") (simp_all add: half_up_less)

declare multiproof_queries.simps [simp del]

lemma set_parent_indices: "set (parent_indices current) = (\<lambda>(i, _). i div 2) ` set current"
  by (simp add: parent_indices_def)

lemma distinct_parent_indices: "distinct (parent_indices current)"
  by (simp add: parent_indices_def)

lemma multiproof_parent_Inr:
  assumes "multiproof_parent H current prf level width p = Inr x"
  obtains l r where "multiproof_child current prf level width (p * 2) = Inr l"
    "multiproof_child current prf level width (p * 2 + 1) = Inr r" "x = (p, inner_hash H l r)"
    "parent_query current prf level width p = [inner_query l r]"
  using assms by (auto simp: multiproof_parent_def and_then_Inr_iff root_pair_hash parent_query_def)

lemma multiproof_child_ok:
  assumes "multiproof_child current prf level width i = Inr x"
    and "\<forall>(j, n) \<in> set current. node_ok n" and "\<forall>k n. prf k = Some n \<longrightarrow> node_ok n"
  shows "node_ok x"
  using assms by (auto simp: multiproof_child_def ok_or_Inr_iff dest!: map_of_SomeD split: option.splits if_splits)

lemma try_map_mem: "try_map f xs = Inr ys \<Longrightarrow> x \<in> set xs \<Longrightarrow> \<exists>y \<in> set ys. f x = Inr y"
  by (induction xs arbitrary: ys) (auto simp: and_then_Inr_iff)

text \<open>The step from a level to the one above.\<close>

lemma multiproof_step:
  assumes H: "digest32 H" "inj_on H Q"
    and step: "try_map (multiproof_parent H current prf level (length xs)) (parent_indices current) = Inr next_nodes"
    and len: "1 < length xs"
    and xs: "\<forall>x \<in> set xs. node_ok x" and cur: "\<forall>(i, n) \<in> set current. node_ok n \<and> i < length xs" "distinct (map fst current)"
    and pn: "\<forall>k n. prf k = Some n \<longrightarrow> node_ok n"
    and q: "set (concat (map (parent_query current prf level (length xs)) (parent_indices current))) \<subseteq> Q"
    and t: "set (tree_queries H xs) \<subseteq> Q"
    and up: "\<forall>(p, n) \<in> set next_nodes. node_bytes n = node_bytes (parents H (pad xs) ! p)"
  shows "\<forall>(i, n) \<in> set current. node_bytes n = node_bytes (xs ! i)"
proof (clarify)
  fix i n assume i: "(i, n) \<in> set current"
  let ?p = "i div 2"
  have "?p \<in> set (parent_indices current)" using i by (force simp: set_parent_indices)
  then obtain x where x: "x \<in> set next_nodes" "multiproof_parent H current prf level (length xs) ?p = Inr x"
    using try_map_mem [OF step] by blast
  obtain l r where lr: "multiproof_child current prf level (length xs) (?p * 2) = Inr l"
    "multiproof_child current prf level (length xs) (?p * 2 + 1) = Inr r" "x = (?p, inner_hash H l r)"
    "parent_query current prf level (length xs) ?p = [inner_query l r]"
    by (rule multiproof_parent_Inr [OF x(2)])
  have p: "?p < length (pad xs) div 2" using i cur(1) by (auto simp: length_pad)
  have a: "inner_query l r \<in> Q" using q lr(4) \<open>?p \<in> set (parent_indices current)\<close> by force
  have b: "inner_query (pad xs ! (2 * ?p)) (pad xs ! (2 * ?p + 1)) \<in> Q"
    using t len p by (auto simp: tree_queries.simps [of H xs])
  have "node_bytes (inner_hash H l r) = node_bytes (parents H (pad xs) ! ?p)" using up x(1) lr(3) by auto
  then have "inner_query l r = inner_query (pad xs ! (2 * ?p)) (pad xs ! (2 * ?p + 1))"
    using p a b H(2) by (auto simp: parents_nth inner_hash_query dest: inj_onD)
  moreover have "node_ok l" using multiproof_child_ok [OF lr(1)] cur(1) pn by blast
  moreover have "node_ok (pad xs ! (2 * ?p))" using xs p by (intro node_ok_pad) auto
  ultimately have eq: "node_bytes l = node_bytes (pad xs ! (2 * ?p))" "node_bytes r = node_bytes (pad xs ! (2 * ?p + 1))"
    using inner_query_inject by blast+
  have "map_of current i = Some n" using i cur(2) by simp
  moreover have "i = ?p * 2" if "even i" using that by presburger
  moreover have "i = ?p * 2 + 1" if "odd i" using that by presburger
  ultimately have "n = (if even i then l else r)" using lr(1,2)
    by (cases "even i") (auto simp: multiproof_child_def)
  moreover have "pad xs ! i = xs ! i" using i cur(1) by (auto intro: nth_pad)
  moreover have "2 * ?p = (if even i then i else i - 1)" "2 * ?p + 1 = (if even i then i + 1 else i)" by presburger+
  ultimately show "node_bytes n = node_bytes (xs ! i)" using eq by (auto split: if_splits)
qed

lemma multiproof_binds:
  assumes "digest32 H" and "inj_on H Q"
    and "multiproof_levels H prf current level (length xs) = Inr (root_of H xs)"
    and "\<forall>x \<in> set xs. node_ok x" and "\<forall>(i, n) \<in> set current. node_ok n \<and> i < length xs" and "distinct (map fst current)"
    and "\<forall>k n. prf k = Some n \<longrightarrow> node_ok n"
    and "set (multiproof_queries H prf current level (length xs)) \<subseteq> Q" and "set (tree_queries H xs) \<subseteq> Q"
  shows "\<forall>(i, n) \<in> set current. node_bytes n = node_bytes (xs ! i)"
  using assms(3-)
proof (induction "length xs" arbitrary: xs current level rule: less_induct)
  case less
  show ?case
  proof (cases "1 < length xs")
    case False
    have "xs \<noteq> [] \<Longrightarrow> length xs = 1" using False by (cases xs) auto
    then have m: "map_of current 0 = Some (xs ! 0)" if "xs \<noteq> []"
      using less.prems(1) that
      by (simp add: multiproof_levels.simps [of H _ current level] root_of.simps [of H xs] ok_or_Inr_iff)
    show ?thesis
    proof clarify
      fix i n assume i: "(i, n) \<in> set current"
      then have "i = 0" "xs \<noteq> []" using less.prems(3) False by fastforce+
      moreover have "map_of current i = Some n" using i less.prems(4) by simp
      ultimately show "node_bytes n = node_bytes (xs ! i)" using m by simp
    qed
  next
    case True
    let ?ys = "parents H (pad xs)"
    have half: "next_multiple_of (length xs) 2 div 2 = length ?ys" by (simp add: half_up_eqs)
    obtain nn where step: "try_map (multiproof_parent H current prf level (length xs)) (parent_indices current) = Inr nn"
      and up: "multiproof_levels H prf nn (level + 1) (length ?ys) = Inr (root_of H ?ys)"
      using less.prems(1) True unfolding half [symmetric]
      by (auto simp: multiproof_levels.simps [of H _ current level "length xs"] root_of.simps [of H xs] and_then_Inr_iff)
    have q: "set (concat (map (parent_query current prf level (length xs)) (parent_indices current))) \<subseteq> Q"
      "set (multiproof_queries H prf nn (level + 1) (length ?ys)) \<subseteq> Q"
      using less.prems(6) True step by (auto simp: multiproof_queries.simps [of H _ current level "length xs"])
    have t: "set (tree_queries H ?ys) \<subseteq> Q" using less.prems(7) True by (auto simp: tree_queries.simps [of H xs])
    have par: "\<exists>p. p \<in> set (parent_indices current) \<and> fst x = p \<and> node_ok (snd x)" if x: "x \<in> set nn" for x
    proof -
      obtain p where "p \<in> set (parent_indices current)" "multiproof_parent H current prf level (length xs) p = Inr x"
        using try_map_Inr_mem [OF step x] by blast
      then show ?thesis using assms(1)
        by (auto simp: inner_hash_query elim!: multiproof_parent_Inr)
    qed
    have "p < length ?ys" if "p \<in> set (parent_indices current)" for p
      using that less.prems(3) by (auto simp: set_parent_indices)
    with par have nn: "\<forall>(i, n) \<in> set nn. node_ok n \<and> i < length ?ys" by fastforce
    have "map fst nn = parent_indices current"
    proof -
      have "list_all2 (\<lambda>p x. multiproof_parent H current prf level (length xs) p = Inr x) (parent_indices current) nn"
        using step by (simp add: try_map_Inr_iff)
      then show ?thesis by (induction rule: list_all2_induct) (auto elim!: multiproof_parent_Inr)
    qed
    then have d: "distinct (map fst nn)" by (simp add: distinct_parent_indices)
    have "length ?ys < length xs" using True half_up_less by simp
    from less.hyps [OF this up node_ok_parents [OF assms(1)] nn d less.prems(5) q(2) t]
    show ?thesis by (rule multiproof_step [OF assms(1,2) step True less.prems(2-5) q(1) less.prems(7)])
  qed
qed

section \<open>The opened symbols are the blob's\<close>

lemma inserted_symbols:
  assumes "try_fold (insert_symbol H n s) current symbols = Inr current'" and "distinct (map fst current)"
  shows "current' = current @ map (\<lambda>y. (as_leaf_index y, leaf_hash H (as_bytes y))) symbols \<and> distinct (map fst current') \<and>
    (\<forall>y \<in> set symbols. length (as_bytes y) = s \<and> as_leaf_index y < n)"
  using assms
proof (induction symbols arbitrary: current)
  case (Cons y ys)
  let ?c = "current @ [(as_leaf_index y, leaf_hash H (as_bytes y))]"
  from Cons.prems have y: "length (as_bytes y) = s" "as_leaf_index y < n" "as_leaf_index y \<notin> fst ` set current"
    and run: "try_fold (insert_symbol H n s) ?c ys = Inr current'"
    by (auto simp: insert_symbol_def [of H n s current y] result_simps root_build_single map_of_eq_None_iff)
  have "distinct (map fst ?c)" using y(3) Cons.prems(2) by simp
  note ih = Cons.IH [OF run this]
  show ?case
  proof (intro conjI)
    show "current' = current @ map (\<lambda>y. (as_leaf_index y, leaf_hash H (as_bytes y))) (y # ys)" using ih by simp
    show "distinct (map fst current')" using ih by blast
    show "\<forall>y \<in> set (y # ys). length (as_bytes y) = s \<and> as_leaf_index y < n" using ih y by simp
  qed
qed simp

lemma multiproof_map_ok:
  assumes "\<forall>x \<in> set ns. node_ok (mn_node x)" and "multiproof_map ns k = Some n"
  shows "node_ok n"
  using assms by (auto simp: multiproof_map_def dest!: map_of_SomeD)

definition sliver_current :: "(bytes \<Rightarrow> bytes) \<Rightarrow> auth_sliver \<Rightarrow> (nat \<times> node) list" where
  "sliver_current H sl = map (\<lambda>y. (as_leaf_index y, leaf_hash H (as_bytes y))) (au_symbols sl)"

definition auth_sliver_queries :: "(bytes \<Rightarrow> bytes) \<Rightarrow> bytes list \<Rightarrow> nat \<Rightarrow> auth_sliver \<Rightarrow> bytes list" where
  "auth_sliver_queries H leaves n sl =
     proof_queries H (au_pair_leaf_path sl) (au_primary_root sl @ au_secondary_root sl) (au_shard_index sl) @
     map (\<lambda>y. 0 # as_bytes y) (au_symbols sl) @
     multiproof_queries H (multiproof_map (au_proof_nodes sl)) (sliver_current H sl) 0 n @ build_queries H leaves"

lemma multiproof_symbols:
  assumes H: "digest32 H" and leaves: "1 < length leaves"
    and v: "verify_primary_multiproof H sl (length leaves) s = Inr (root (build H leaves))"
    and nodes: "\<forall>x \<in> set (au_proof_nodes sl). node_ok (mn_node x)"
    and cf: "collision_free H (auth_sliver_queries H leaves (length leaves) sl)" and y: "y \<in> set (au_symbols sl)"
  shows "as_leaf_index y < length leaves \<and> as_bytes y = leaves ! as_leaf_index y"
proof -
  let ?xs = "map (leaf_hash H) leaves" let ?Q = "set (auth_sliver_queries H leaves (length leaves) sl)"
  obtain current where run: "try_fold (insert_symbol H (length leaves) s) [] (au_symbols sl) = Inr current"
    and lv: "multiproof_levels H (multiproof_map (au_proof_nodes sl)) current 0 (length ?xs) = Inr (root_of H ?xs)"
    using v by (auto simp: verify_primary_multiproof_def result_simps build_def root_build_from_leaf_hashes)
  have c: "current = sliver_current H sl" "distinct (map fst current)" "\<forall>y \<in> set (au_symbols sl). as_leaf_index y < length leaves"
    using inserted_symbols [OF run] unfolding sliver_current_def by auto
  have inj: "inj_on H ?Q" using cf by (simp add: collision_free_def)
  have "\<forall>(i, n) \<in> set current. node_bytes n = node_bytes (?xs ! i)"
  proof (rule multiproof_binds [OF H inj lv])
    show "\<forall>(i, n) \<in> set current. node_ok n \<and> i < length ?xs"
      using c(1,3) H by (auto simp: sliver_current_def leaf_hash_def)
    show "set (multiproof_queries H (multiproof_map (au_proof_nodes sl)) current 0 (length ?xs)) \<subseteq> ?Q"
      and "set (tree_queries H ?xs) \<subseteq> ?Q" by (auto simp: auth_sliver_queries_def build_queries_def c(1))
  qed (use H c(2) nodes multiproof_map_ok in \<open>auto simp: leaf_hash_def\<close>)
  moreover have "(as_leaf_index y, leaf_hash H (as_bytes y)) \<in> set current" using y by (simp add: c(1) sliver_current_def)
  ultimately have "H (0 # as_bytes y) = H (0 # leaves ! as_leaf_index y)"
    using c(3) y by (auto simp: leaf_hash_def)
  moreover have "0 # as_bytes y \<in> ?Q" "0 # leaves ! as_leaf_index y \<in> ?Q"
    using y c(3) by (auto simp: auth_sliver_queries_def build_queries_def)
  ultimately show ?thesis using inj c(3) y by (auto dest: inj_onD)
qed

text \<open>The ranges of the Rust types.\<close>

definition video_opening_typed :: "video_opening \<Rightarrow> bool" where
  "video_opening_typed op \<longleftrightarrow> vo_unencoded_length op < 2 ^ 64 \<and> length (vo_metadata_root op) = 32 \<and>
     (\<forall>sl \<in> set (vo_primary_slivers op). length (au_primary_root sl) = 32 \<and>
        (\<forall>n \<in> set (au_pair_leaf_path sl). node_ok n) \<and> (\<forall>x \<in> set (au_proof_nodes sl). node_ok (mn_node x)))"

definition opening_id_query :: "video_opening \<Rightarrow> bytes" where
  "opening_id_query op = [vo_encoding_type op] @ to_le_bytes 8 (vo_unencoded_length op) @ vo_metadata_root op"

text \<open>The inputs that are hashed when the blob is encoded and when the opening is verified.\<close>

definition video_queries :: "(bytes \<Rightarrow> bytes) \<Rightarrow> rs_lib \<Rightarrow> blob_encoder \<Rightarrow> video_opening \<Rightarrow> bytes list" where
  "video_queries H L be op = opening_id_query op # id_queries H (metadata (expanded_metadata H L be)) @
     concat (map (\<lambda>sl. auth_sliver_queries H (matrix_line L be (au_shard_index sl)) 1000 sl) (vo_primary_slivers op))"

lemma verified_slivers:
  assumes "try_fold (verify_auth_sliver H op s) seen slivers = Inr seen'" and "sl \<in> set slivers"
  shows "au_shard_index sl < vo_n_shards op \<and>
    verify_proof H (au_pair_leaf_path sl) (Digest (vo_metadata_root op)) (vo_n_shards op)
      (au_primary_root sl @ au_secondary_root sl) (au_shard_index sl) = Inr () \<and>
    verify_primary_multiproof H sl (vo_n_shards op) s = Inr (Digest (au_primary_root sl))"
  using assms
proof (induction slivers arbitrary: seen)
  case (Cons x xs)
  then show ?case by (auto simp: verify_auth_sliver_def result_simps)
qed simp

lemma video_opened:
  assumes H: "digest32 H" and be: "be_1000 L data be" and v: "verify_walrus_video_opening H op = Inr ()"
    and t: "video_opening_typed op" and id: "vo_blob_id op = blob_id (expanded_metadata H L be)"
    and cf: "collision_free H (video_queries H L be op)"
  shows "vo_unencoded_length op = length data"
    and "sl \<in> set (vo_primary_slivers op) \<Longrightarrow> y \<in> set (au_symbols sl) \<Longrightarrow>
      au_shard_index sl < 1000 \<and> as_leaf_index y < 1000 \<and> as_bytes y = cell L be (au_shard_index sl) (as_leaf_index y)"
proof -
  note b = be_1000D [OF be]
  let ?md = "metadata (expanded_metadata H L be)"
  obtain seen where e: "vo_encoding_type op = 1" and n: "vo_n_shards op = 1000"
    and bid: "from_metadata H (Digest (vo_metadata_root op)) RS2 (vo_unencoded_length op) = vo_blob_id op"
    and run: "try_fold (verify_auth_sliver H op (walrus_symbol_size (vo_unencoded_length op))) [] (vo_primary_slivers op) = Inr seen"
    using v by (auto simp: verify_walrus_video_opening_def result_simps encoding_type_try_from_def split: if_splits)
  have inj: "inj_on H (set (video_queries H L be op))" using cf by (simp add: collision_free_def)
  have "H (opening_id_query op) = H (id_query H ?md)"
    using bid id e by (simp add: from_metadata_def new_with_hash_function_def opening_id_query_def expanded_metadata_simps(1)
        from_sliver_pair_metadata_query)
  then have q: "opening_id_query op = id_query H ?md"
    using inj by (auto simp: video_queries_def id_queries_def dest!: inj_onD)
  have enc: "md_encoding_type ?md = RS2" by (simp add: expanded_metadata_def new_verified_from_metadata_def Let_def)
  have len: "length data < 2 ^ 64"
  proof -
    have "length data \<le> ROW_WIDTH_PRIMARY * COL_HEIGHT_SECONDARY * 65535"
      using be_ok_blob [OF b(1)] b(3-7) by (simp add: order.trans [OF _ mult_le_mono2])
    then show ?thesis by (simp add: ROW_WIDTH_PRIMARY_def COL_HEIGHT_SECONDARY_def)
  qed
  have "to_le_bytes 8 (vo_unencoded_length op) = to_le_bytes 8 (length data)"
    and root: "vo_metadata_root op = node_bytes (compute_root_hash H ?md)"
    using q unfolding opening_id_query_def id_query_def expanded_metadata_simps(2) b(5)
    by (simp_all only: append_Cons append_Nil list.inject append_eq_append_conv length_to_le_bytes simp_thms)
  then show ul: "vo_unencoded_length op = length data"
    using t len by (auto simp: video_opening_typed_def intro: to_le_bytes_inj [of 8])
  assume sl: "sl \<in> set (vo_primary_slivers op)" and y: "y \<in> set (au_symbols sl)"
  let ?c = "au_shard_index sl" let ?leaves = "matrix_line L be ?c" let ?pairs = "map pair_leaf_input (hashes ?md)"
  have sv: "?c < 1000" "verify_proof H (au_pair_leaf_path sl) (Digest (vo_metadata_root op)) 1000 (au_primary_root sl @ au_secondary_root sl) ?c = Inr ()"
    "verify_primary_multiproof H sl 1000 (walrus_symbol_size (vo_unencoded_length op)) = Inr (Digest (au_primary_root sl))"
    using verified_slivers [OF run sl] by (simp_all add: n)
  have len2: "length ?pairs = 1000" "length ?leaves = 1000" by (simp_all add: expanded_metadata_simps matrix_line_def b(2))
  have ne: "hashes ?md \<noteq> []" using len2(1) by auto
  have "Digest (vo_metadata_root op) = root (build H ?pairs)"
    using root root_build_digest [of ?pairs H] ne by (auto simp: compute_root_hash_def)
  then have vp: "verify_proof H (au_pair_leaf_path sl) (root (build H ?pairs)) (length ?pairs) (au_primary_root sl @ au_secondary_root sl) ?c = Inr ()"
    using sv(2) len2(1) by simp
  have sub: "set (auth_sliver_queries H ?leaves 1000 sl) \<subseteq> set (video_queries H L be op)" using sl by (auto simp: video_queries_def)
  have cp: "collision_free H (proof_queries H (au_pair_leaf_path sl) (au_primary_root sl @ au_secondary_root sl) ?c @ build_queries H ?pairs)"
    by (rule collision_free_subset [OF cf]) (use sub in \<open>auto simp: auth_sliver_queries_def video_queries_def id_queries_def\<close>)
  have "\<forall>n \<in> set (au_pair_leaf_path sl). node_ok n" using t sl by (simp add: video_opening_typed_def)
  from verify_proof_binds [OF H this cp vp] have "au_primary_root sl @ au_secondary_root sl = ?pairs ! ?c" by simp
  then have "au_primary_root sl @ au_secondary_root sl = pair_leaf_input (expanded_hashes H L be ! ?c)"
    using sv(1) len2(1) by (simp add: expanded_metadata_simps)
  moreover have "primary_hash (expanded_hashes H L be ! ?c) = root (build H ?leaves)"
    using sv(1) by (simp add: expanded_hashes_def matrix_line_def b(2) nth_map_upt0 del: upt_rec_numeral)
  moreover have lv: "?leaves \<noteq> []" using len2(2) by auto
  note length_root_bytes [OF H lv]
  ultimately have "au_primary_root sl = node_bytes (root (build H ?leaves))"
    using t sl by (simp add: pair_leaf_input_def video_opening_typed_def)
  then have "verify_primary_multiproof H sl (length ?leaves) (walrus_symbol_size (vo_unencoded_length op)) = Inr (root (build H ?leaves))"
    using sv(3) root_build_digest [OF lv, of H] len2(2) by auto
  moreover have "collision_free H (auth_sliver_queries H ?leaves (length ?leaves) sl)"
    unfolding len2(2) by (rule collision_free_subset [OF cf sub])
  moreover have "\<forall>x \<in> set (au_proof_nodes sl). node_ok (mn_node x)" using t sl by (simp add: video_opening_typed_def)
  ultimately have "as_leaf_index y < 1000 \<and> as_bytes y = ?leaves ! as_leaf_index y"
    using multiproof_symbols [OF H, of ?leaves sl] len2(2) y by simp
  then show "?c < 1000 \<and> as_leaf_index y < 1000 \<and> as_bytes y = cell L be ?c (as_leaf_index y)"
    using sv(1) by (simp add: matrix_line_def b(2) nth_map_upt0 del: upt_rec_numeral)
qed

section \<open>Every range that is read is the blob's\<close>

definition reads :: "video_opening \<Rightarrow> bytes \<Rightarrow> bool" where
  "reads op data \<longleftrightarrow> vo_unencoded_length op = length data \<and>
     (\<forall>c < ROW_WIDTH_PRIMARY. \<forall>r < COL_HEIGHT_SECONDARY. \<forall>y. find_primary_symbol op c r = Inr y \<longrightarrow>
        y = padded_symbol data (walrus_symbol_size (length data)) c r)"

lemma find_SomeD: "find P xs = Some x \<Longrightarrow> x \<in> set xs \<and> P x"
  by (auto simp: find_Some_iff)

lemma video_opening_reads:
  assumes "digest32 H" and be: "be_1000 L data be" and "verify_walrus_video_opening H op = Inr ()"
    and "video_opening_typed op" and "vo_blob_id op = blob_id (expanded_metadata H L be)"
    and "collision_free H (video_queries H L be op)"
  shows "reads op data"
proof -
  note opened = video_opened [OF assms]
  note b = be_1000D [OF be]
  have "y = padded_symbol data (walrus_symbol_size (length data)) c r"
    if cr: "c < ROW_WIDTH_PRIMARY" "r < COL_HEIGHT_SECONDARY" and f: "find_primary_symbol op c r = Inr y" for c r y
  proof -
    from f obtain sl sy where "sl \<in> set (vo_primary_slivers op)" "au_shard_index sl = c" "sy \<in> set (au_symbols sl)"
      "as_leaf_index sy = r" "y = as_bytes sy"
      by (auto simp: find_primary_symbol_def result_simps dest!: find_SomeD)
    with opened(2) have "y = cell L be c r" by blast
    also have "\<dots> = msg be c r" using cell_msg [OF b(1)] cr b(3,4) by simp
    finally show ?thesis using msg_padded_symbol [OF be cr] by simp
  qed
  with opened(1) show ?thesis by (simp add: reads_def)
qed

lemma padded_symbol_slice:
  assumes "within + n \<le> s" and "row_off s c r + within + n \<le> length data"
  shows "take n (drop within (padded_symbol data s c r)) = take n (drop (row_off s c r + within) data)"
  using assms by (intro nth_equalityI) (auto simp: nth_padded_symbol add.assoc)

lemma read_symbols_data:
  assumes "read_symbols op s cursor e out = Inr res" and "reads op data" and "s = walrus_symbol_size (length data)"
    and "e \<le> length data" and "cursor \<le> e"
  shows "res = out @ take (e - cursor) (drop cursor data)"
  using assms
proof (induction op s cursor e out rule: read_symbols.induct)
  case (1 op s cursor e out)
  show ?case
  proof (cases "cursor < e")
    case False
    then have "read_symbols op s cursor e out = Inr out" by (subst read_symbols.simps) simp
    with "1.prems"(1,5) False show ?thesis by simp
  next
    case True
    define flat where "flat = cursor div s"
    define c where "c = flat div COL_HEIGHT_SECONDARY" define r where "r = flat mod COL_HEIGHT_SECONDARY"
    define within where "within = cursor mod s" define n where "n = min (s - within) (e - cursor)"
    have s: "0 < s" "length data \<le> 334 * 667 * s" using walrus_symbol_size_least "1.prems"(3) by auto
    then have "cursor < 334 * 667 * s" using True "1.prems"(4) by linarith
    then have "flat < 334 * 667" using s(1) by (simp add: flat_def div_less_iff_less_mult)
    then have c: "c < ROW_WIDTH_PRIMARY" "r < COL_HEIGHT_SECONDARY" "c mod 4294967296 = c"
      by (simp_all add: c_def r_def ROW_WIDTH_PRIMARY_def COL_HEIGHT_SECONDARY_def less_mult_imp_div_less)
    from "1.prems"(1) True s(1) obtain y where y: "find_primary_symbol op c r = Inr y" "length y = s"
      and rest: "read_symbols op s (cursor + n) e (out @ take n (drop within y)) = Inr res"
      by (auto simp: read_symbols.simps [of op s cursor e out] Let_def c(3) flat_def [symmetric] c_def [symmetric] r_def [symmetric]
          within_def [symmetric] n_def [symmetric] simp del: c_def r_def split: sum.splits if_splits)
    have yv: "y = padded_symbol data s c r" using "1.prems"(2,3) c(1,2) y(1) by (simp add: reads_def)
    have off: "row_off s c r + within = cursor"
      unfolding row_off_def within_def c_def r_def flat_def by simp
    have "within < s" using s(1) by (simp add: within_def)
    then have n: "0 < n" "within + n \<le> s" "cursor + n \<le> e" using True by (auto simp: n_def)
    have "take n (drop within y) = take n (drop cursor data)"
      unfolding yv using padded_symbol_slice [of within n s c r data] n off "1.prems"(4) by simp
    moreover have "res = (out @ take n (drop within y)) @ take (e - (cursor + n)) (drop (cursor + n) data)"
      by (rule "1.IH" [OF True _ flat_def _ _ within_def]) (use y rest n s c(3) "1.prems" in \<open>auto simp: c_def r_def n_def\<close>)
    moreover have "e - cursor = n + (e - (cursor + n))" using n(3) by simp
    ultimately show ?thesis by (simp add: take_add add.commute)
  qed
qed

lemma read_origin_range_data:
  assumes "read_origin_range op off len = Inr out" and "reads op data"
  shows "off + len \<le> length data \<and> out = take len (drop off data)"
proof -
  from assms have le: "off + len \<le> length data"
    and run: "read_symbols op (walrus_symbol_size (length data)) off (off + len) [] = Inr out"
    by (auto simp: read_origin_range_def result_simps checked_Some reads_def)
  from read_symbols_data [OF run assms(2) refl le] le show ?thesis by simp
qed

section \<open>The directory walk is the parser's\<close>

lemma walk_boxD:
  assumes "walk_box op (c, m) e = Inr (c', m')" and "reads op data"
  obtains h where "tb_offset e = c" "tb_header_size e = h" "h = 8 \<or> h = 16" "h \<le> tb_size e" "c + h \<le> length data"
    "take 4 (drop 4 (take h (drop c data))) = tb_kind e" "declared_size e (take h (drop c data)) = Inr (tb_size e)"
    "tb_kind e \<noteq> fourcc ''moof''" "c' = c + tb_size e"
    "if tb_kind e = fourcc ''moov'' then m = None \<and> m' = Some (take (tb_size e - h) (drop (c + h) data)) else m' = m"
proof -
  let ?h = "tb_header_size e"
  from assms(1) obtain header where off: "tb_offset e = c" and h: "?h = 8 \<or> ?h = 16" "?h \<le> tb_size e"
    and rd: "read_origin_range op c ?h = Inr header"
    and k: "take 4 (drop 4 header) = tb_kind e" "declared_size e header = Inr (tb_size e)" "tb_kind e \<noteq> fourcc ''moof''"
    and m: "if tb_kind e = fourcc ''moov''
      then m = None \<and> (\<exists>p. read_origin_range op (c + ?h) (tb_size e - ?h) = Inr p \<and> m' = Some p) else m' = m"
    and c': "c' = c + tb_size e"
    by (auto simp: walk_box_def result_simps checked_Some split: if_splits)
  note hd = read_origin_range_data [OF rd assms(2)]
  have "if tb_kind e = fourcc ''moov'' then m = None \<and> m' = Some (take (tb_size e - ?h) (drop (c + ?h) data)) else m' = m"
    using m read_origin_range_data [OF _ assms(2)] by (auto split: if_splits)
  with that [of ?h] off h hd k c' show ?thesis by simp
qed

lemma walk_box_step:
  assumes "walk_box op (c, m) e = Inr (c', m')" and "reads op data" and "c' \<le> length data"
  shows "c < c' \<and> (\<exists>b. next_box (drop c data) = Some (Inr b, drop c' data) \<and> find_moov m b = Inr m')"
proof -
  obtain h where w: "tb_header_size e = h" "h = 8 \<or> h = 16" "h \<le> tb_size e" "c + h \<le> length data"
    "take 4 (drop 4 (take h (drop c data))) = tb_kind e" "declared_size e (take h (drop c data)) = Inr (tb_size e)"
    "tb_kind e \<noteq> fourcc ''moof''" "c' = c + tb_size e"
    "if tb_kind e = fourcc ''moov'' then m = None \<and> m' = Some (take (tb_size e - h) (drop (c + h) data)) else m' = m"
    by (rule walk_boxD [OF assms(1,2)]) blast
  let ?rem = "drop c data"
  let ?b = "\<lparr> box_kind = tb_kind e, box_payload = take (tb_size e - h) (drop h ?rem) \<rparr>"
  have k: "take 4 (drop 4 ?rem) = tb_kind e" using w(2,5) by (auto simp: drop_take min_def)
  have len: "8 \<le> length ?rem" "tb_size e \<le> length ?rem" "h \<le> length ?rem" using w(2,4,8) assms(3) by auto
  have drop: "drop c' data = drop (tb_size e) ?rem" using w(8) by (simp add: add.commute)
  have "next_box ?rem = Some (Inr ?b, drop c' data)"
  proof (cases "h = 8")
    case True
    then have "from_be_bytes (take 4 ?rem) = tb_size e" using w(1,6) by (simp add: declared_size_def min_def)
    then show ?thesis unfolding drop next_box_def using len k w(3) True by (auto simp: Let_def)
  next
    case False
    with w(2) have h: "h = 16" by simp
    then have "from_be_bytes (take 4 ?rem) = 1" "from_be_bytes (take 8 (drop 8 ?rem)) = tb_size e"
      using w(1,6) by (auto simp: declared_size_def min_def drop_take split: if_splits)
    then show ?thesis unfolding drop next_box_def using len k w(3) h by (auto simp: Let_def)
  qed
  moreover have "find_moov m ?b = Inr m'" using w(7,9) by (auto simp: find_moov_def add.commute split: if_splits)
  moreover have "c < c'" using w(2,3,8) by auto
  ultimately show ?thesis by blast
qed

lemma walk_cursor:
  assumes "try_fold (walk_box op) (c, m) es = Inr (c', m')" and "reads op data"
  shows "c \<le> c'"
  using assms(1)
proof (induction es arbitrary: c m)
  case (Cons e es)
  from Cons.prems obtain c1 m1 where one: "walk_box op (c, m) e = Inr (c1, m1)"
    and rest: "try_fold (walk_box op) (c1, m1) es = Inr (c', m')" by (auto simp: and_then_Inr_iff)
  have "c1 = c + tb_size e" by (rule walk_boxD [OF one assms(2)])
  with Cons.IH [OF rest] show ?case by simp
qed simp

lemma walk_is_parse:
  assumes "try_fold (walk_box op) (c, m) es = Inr (length data, m')" and "reads op data"
  shows "box_fold find_moov m (drop c data) = Inr m'"
  using assms(1)
proof (induction es arbitrary: c m)
  case Nil
  then show ?case by (simp add: box_fold.simps [of find_moov _ "[]"] next_box_def)
next
  case (Cons e es)
  from Cons.prems obtain c1 m1 where one: "walk_box op (c, m) e = Inr (c1, m1)"
    and rest: "try_fold (walk_box op) (c1, m1) es = Inr (length data, m')" by (auto simp: and_then_Inr_iff)
  have "c1 \<le> length data" by (rule walk_cursor [OF rest assms(2)])
  from walk_box_step [OF one assms(2) this] obtain b where
    "next_box (drop c data) = Some (Inr b, drop c1 data)" "find_moov m b = Inr m1" by blast
  then show ?case using Cons.IH [OF rest] by (simp add: box_fold.simps [of find_moov m "drop c data"])
qed

lemma authenticated_track:
  assumes "authenticated_moov w = Inr moov" and "reads (vw_origin w) data"
    and "parse_mp4_video_track_from_moov moov (vo_unencoded_length (vw_origin w)) = Inr track"
  shows "parse_mp4_video_track data = Inr track"
proof -
  have len: "vo_unencoded_length (vw_origin w) = length data" using assms(2) by (simp add: reads_def)
  from assms(1) have "try_fold (walk_box (vw_origin w)) (0, None) (vw_top_level_boxes w) = Inr (length data, Some moov)"
    by (auto simp: authenticated_moov_def result_simps len split: prod.splits)
  from walk_is_parse [OF this assms(2)] show ?thesis using assms(3) len by (simp add: parse_mp4_video_track_def)
qed

section \<open>Previews carry the source samples\<close>

lemma copy_into_facts:
  assumes "start + length ys \<le> length xs"
  shows "length (copy_into xs start ys) = length xs"
    and "i < length xs \<Longrightarrow> copy_into xs start ys ! i = (if start \<le> i \<and> i < start + length ys then ys ! (i - start) else xs ! i)"
  using assms by (auto simp: copy_into_def nth_append)

definition covers :: "video_sample \<Rightarrow> nat \<Rightarrow> bool" where
  "covers p i \<longleftrightarrow> vs_byte_offset p \<le> i \<and> i < vs_byte_offset p + vs_byte_size p"

definition apart :: "video_sample \<Rightarrow> video_sample \<Rightarrow> bool" where
  "apart p q \<longleftrightarrow> vs_byte_offset p + vs_byte_size p \<le> vs_byte_offset q \<or> vs_byte_offset q + vs_byte_size q \<le> vs_byte_offset p"

text \<open>Sample \<open>p\<close> of a preview is sample \<open>s\<close> of the blob.\<close>

definition shows_sample :: "bytes \<Rightarrow> bytes \<Rightarrow> video_sample \<Rightarrow> video_sample \<Rightarrow> bool" where
  "shows_sample data preview p s \<longleftrightarrow>
     vs_byte_size p = vs_byte_size s \<and> vs_duration p = vs_duration s \<and> vs_is_sync p = vs_is_sync s \<and>
     vs_byte_offset p + vs_byte_size p \<le> length preview \<and> vs_byte_offset s + vs_byte_size s \<le> length data \<and>
     take (vs_byte_size p) (drop (vs_byte_offset p) preview) = take (vs_byte_size s) (drop (vs_byte_offset s) data)"

lemma sorted_wrt_mset:
  assumes "mset xs = mset ys" and "sorted_wrt R xs" and sym: "\<And>a b. R a b \<Longrightarrow> R b a"
  shows "sorted_wrt R ys"
  using assms(1,2)
proof (induction ys arbitrary: xs)
  case (Cons y ys)
  then have "y \<in> set xs" using mset_eq_setD by fastforce
  then obtain as bs where xs: "xs = as @ y # bs" by (auto simp: in_set_conv_decomp)
  have m: "mset (as @ bs) = mset ys" using Cons.prems(1) xs by simp
  have "sorted_wrt R (as @ bs)" using Cons.prems(2) xs by (auto simp: sorted_wrt_append)
  from Cons.IH [OF m this] have "sorted_wrt R ys" .
  moreover have "R y z" if "z \<in> set ys" for z
  proof -
    have "z \<in> set as \<or> z \<in> set bs" using that mset_eq_setD [OF m] by auto
    then show ?thesis using Cons.prems(2) xs sym by (auto simp: sorted_wrt_append)
  qed
  ultimately show ?case by simp
qed simp

lemma ranges_disjoint_sorted:
  assumes "ranges_disjoint rs" and "\<forall>r \<in> set rs. fst r \<le> snd r"
  shows "sorted_wrt (\<lambda>a b. snd a \<le> fst b) rs"
  using assms
proof (induction rs rule: induct_list012)
  case (3 a b rs)
  then have ab: "snd a \<le> fst b" and "ranges_disjoint (b # rs)" by (simp_all add: ranges_disjoint_def)
  then have s: "sorted_wrt (\<lambda>a b. snd a \<le> fst b) (b # rs)" using 3 by simp
  have "snd a \<le> fst c" if "c \<in> set rs" for c
  proof -
    have "snd b \<le> fst c" using s that by simp
    moreover have "fst b \<le> snd b" using "3.prems"(2) by simp
    ultimately show ?thesis using ab by linarith
  qed
  with s ab show ?case by simp
qed simp_all

lemma sample_ranges_apart:
  assumes "sorted_sample_ranges samples n = Inr rs"
  shows "sorted_wrt apart samples"
proof -
  let ?R = "\<lambda>a b. snd a \<le> fst b \<or> snd b \<le> (fst a :: nat)" let ?f = "\<lambda>p. (vs_byte_offset p, vs_byte_offset p + vs_byte_size p)"
  from assms obtain rs0 where rs0: "try_map (sample_range n) samples = Inr rs0" and d: "ranges_disjoint (sort_ranges rs0)"
    by (auto simp: sorted_sample_ranges_def Let_def result_simps)
  have "rs0 = map ?f samples"
  proof -
    have "list_all2 (\<lambda>p r. sample_range n p = Inr r) samples rs0" using rs0 by (simp add: try_map_Inr_iff)
    then show ?thesis by (induction rule: list_all2_induct) (auto simp: sample_range_def result_simps checked_Some)
  qed
  moreover have m: "mset (sort_ranges rs0) = mset rs0" by (simp add: sort_ranges_def)
  moreover have "set (sort_ranges rs0) = set rs0" using mset_eq_setD [OF m] .
  ultimately have "sorted_wrt (\<lambda>a b. snd a \<le> fst b) (sort_ranges rs0)"
    by (intro ranges_disjoint_sorted [OF d]) auto
  then have "sorted_wrt ?R (sort_ranges rs0)" by (rule sorted_wrt_mono_rel [rotated]) simp
  from sorted_wrt_mset [OF m this] have "sorted_wrt ?R rs0" by blast
  then show ?thesis unfolding \<open>rs0 = map ?f samples\<close> sorted_wrt_map
    by (rule sorted_wrt_mono_rel [rotated]) (simp add: apart_def)
qed

lemma fill_samples:
  assumes "try_fold (fill_sample op) pv (zip ps ss) = Inr out" and "reads op data" and "length ps = length ss" and "sorted_wrt apart ps"
  shows "length out = length pv \<and> list_all2 (shows_sample data out) ps ss \<and>
    (\<forall>i < length pv. (\<forall>p \<in> set ps. \<not> covers p i) \<longrightarrow> out ! i = pv ! i)"
  using assms(1,3,4)
proof (induction ps arbitrary: ss pv)
  case (Cons p ps)
  obtain s ss' where ss: "ss = s # ss'" using Cons.prems(2) by (cases ss) auto
  from Cons.prems(1) ss obtain src where eqs: "vs_byte_size p = vs_byte_size s" "vs_duration p = vs_duration s" "vs_is_sync p = vs_is_sync s"
    and rd: "read_origin_range op (vs_byte_offset s) (vs_byte_size s) = Inr src"
    and fit: "vs_byte_offset p + vs_byte_size p \<le> length pv" "length src = vs_byte_size p"
    and rest: "try_fold (fill_sample op) (copy_into pv (vs_byte_offset p) src) (zip ps ss') = Inr out"
    by (auto simp: fill_sample_def [of op pv] result_simps)
  let ?pv = "copy_into pv (vs_byte_offset p) src"
  note src = read_origin_range_data [OF rd assms(2)]
  note pv = copy_into_facts [of "vs_byte_offset p" src pv]
  have ih: "length out = length ?pv" "list_all2 (shows_sample data out) ps ss'"
    "\<And>i. i < length ?pv \<Longrightarrow> \<forall>p \<in> set ps. \<not> covers p i \<Longrightarrow> out ! i = ?pv ! i"
    using Cons.IH [OF rest] Cons.prems(2,3) ss by auto
  have len: "length ?pv = length pv" using pv(1) fit by simp
  have own: "out ! i = ?pv ! i" if "covers p i" for i
  proof (rule ih(3))
    show "\<forall>q \<in> set ps. \<not> covers q i" using Cons.prems(3) that by (fastforce simp: apart_def covers_def)
    show "i < length ?pv" using that fit len by (simp add: covers_def)
  qed
  have "take (vs_byte_size p) (drop (vs_byte_offset p) out) = src"
  proof (rule nth_equalityI)
    show "length (take (vs_byte_size p) (drop (vs_byte_offset p) out)) = length src" using fit ih(1) len by simp
    fix i assume "i < length (take (vs_byte_size p) (drop (vs_byte_offset p) out))"
    then have i: "i < vs_byte_size p" by simp
    then show "take (vs_byte_size p) (drop (vs_byte_offset p) out) ! i = src ! i"
      using own [of "vs_byte_offset p + i"] pv(2) [of "vs_byte_offset p + i"] fit ih(1) len by (simp add: covers_def)
  qed
  then have "shows_sample data out p s" using eqs src fit ih(1) len by (simp add: shows_sample_def)
  moreover have "out ! i = pv ! i" if "i < length pv" "\<forall>q \<in> set (p # ps). \<not> covers q i" for i
    using ih(3) [of i] pv(2) [of i] that fit len by (auto simp: covers_def)
  ultimately show ?case using ih(1,2) len ss by simp
qed simp

text \<open>
  A preview of source samples: outside its samples it is the skeleton that the parser accepts, inside it
  has the source samples' bytes.
\<close>

definition preview_shows :: "bytes \<Rightarrow> bytes \<Rightarrow> video_sample list \<Rightarrow> bytes \<Rightarrow> bool" where
  "preview_shows data codec samples preview \<longleftrightarrow>
     (\<exists>skeleton track. length preview = length skeleton \<and> parse_mp4_video_track skeleton = Inr track \<and> vt_codec track = codec \<and>
        list_all2 (shows_sample data preview) (vt_samples track) samples \<and>
        (\<forall>i < length preview. (\<forall>p \<in> set (vt_samples track). \<not> covers p i) \<longrightarrow> preview ! i = skeleton ! i))"

lemma materialized_preview:
  assumes "materialize_preview template codec samples op = Inr preview" and "reads op data"
  shows "preview_shows data codec samples preview"
proof -
  from assms(1) obtain skeleton track rs where "parse_mp4_video_track skeleton = Inr track" "vt_codec track = codec"
    and len: "length (vt_samples track) = length samples" and rs: "sorted_sample_ranges (vt_samples track) (pv_file_len template) = Inr rs"
    and run: "try_fold (fill_sample op) skeleton (zip (vt_samples track) samples) = Inr preview"
    by (auto simp: materialize_preview_def Let_def result_simps split: prod.splits)
  with fill_samples [OF run assms(2) len sample_ranges_apart [OF rs]] show ?thesis unfolding preview_shows_def by metis
qed

section \<open>The guest\<close>

lemma preview_digests_step:
  assumes "preview_digest CL sha256 w track digests plan = Inr digests'" and "reads (vw_origin w) data"
  obtains selected preview cid where "selected_samples (vt_samples track) plan = Inr selected"
    "preview_shows data (vt_codec track) selected preview" "compute_ipfs_cid_zk_optimized CL sha256 preview = Inr cid"
    "32 \<le> length cid" "digests' = digests[bucket_index plan := drop (length cid - 32) cid]" "bucket_index plan < length digests"
proof -
  from assms(1) obtain selected preview cid where p: "selected_samples (vt_samples track) plan = Inr selected"
    "materialize_preview (vw_previews w ! bucket_index plan) (vt_codec track) selected (vw_origin w) = Inr preview"
    "compute_ipfs_cid_zk_optimized CL sha256 preview = Inr cid" "32 \<le> length cid"
    "digests' = digests[bucket_index plan := drop (length cid - 32) cid]" "bucket_index plan < length digests"
    by (auto simp: preview_digest_def result_simps split: if_splits)
  show ?thesis by (rule that [OF p(1) materialized_preview [OF p(2) assms(2)] p(3-6)])
qed

definition preview_committed ::
  "('mh, 'cid) cid_lib \<Rightarrow> (bytes \<Rightarrow> bytes) \<Rightarrow> bytes \<Rightarrow> video_track \<Rightarrow> sample_plan \<Rightarrow> bytes \<Rightarrow> bool" where
  "preview_committed CL sha256 data track plan digest \<longleftrightarrow>
     (\<exists>selected preview cid. selected_samples (vt_samples track) plan = Inr selected \<and>
        preview_shows data (vt_codec track) selected preview \<and> compute_ipfs_cid_zk_optimized CL sha256 preview = Inr cid \<and>
        32 \<le> length cid \<and> digest = drop (length cid - 32) cid)"

lemma preview_digests:
  assumes "try_fold (preview_digest CL sha256 w track) digests plans = Inr digests'" and "reads (vw_origin w) data"
    and "distinct (map bucket_index plans)"
  shows "length digests' = length digests \<and>
    (\<forall>plan \<in> set plans. preview_committed CL sha256 data track plan (digests' ! bucket_index plan)) \<and>
    (\<forall>k. k \<notin> bucket_index ` set plans \<longrightarrow> digests' ! k = digests ! k)"
  using assms(1,3)
proof (induction plans arbitrary: digests)
  case (Cons plan plans)
  from Cons.prems(1) obtain d where one: "preview_digest CL sha256 w track digests plan = Inr d"
    and rest: "try_fold (preview_digest CL sha256 w track) d plans = Inr digests'" by (auto simp: and_then_Inr_iff)
  obtain selected preview cid where p: "selected_samples (vt_samples track) plan = Inr selected"
    "preview_shows data (vt_codec track) selected preview" "compute_ipfs_cid_zk_optimized CL sha256 preview = Inr cid"
    "32 \<le> length cid" "d = digests[bucket_index plan := drop (length cid - 32) cid]" "bucket_index plan < length digests"
    by (rule preview_digests_step [OF one assms(2)])
  have "distinct (map bucket_index plans)" "bucket_index plan \<notin> bucket_index ` set plans" using Cons.prems(2) by auto
  note ih = Cons.IH [OF rest this(1)] this(2)
  have "digests' ! bucket_index plan = drop (length cid - 32) cid" using ih p(5,6) by simp
  then have "preview_committed CL sha256 data track plan (digests' ! bucket_index plan)"
    unfolding preview_committed_def using p by blast
  with ih p(5) show ?case by auto
qed simp

text \<open>
  C5: What an accepted run of the video sampling guest shows of the blob behind the committed identifier,
  absent collisions among the hashed inputs: the guest's index is the one that parsing the whole blob gives,
  the seed is derived from the sale, the blob and the external randomness, the plans are those of the seed,
  and each committed digest is that of a preview that carries the codec and, at its sample positions, the
  bytes of the blob's samples from the planned start to the last frame of the planned window.
\<close>

theorem video_guest_sound:
  assumes "video_main blake3 sha256 H CL w sale = Some (Inr out)"
    and "rs_enc_ready L walrus_1000" and "digest32 H" and "blob_encoder_new walrus_1000 data = Inr be"
    and "compute_blob_id_default H L data = Inr (vo_blob_id (vw_origin w))"
    and "video_opening_typed (vw_origin w)" and "collision_free H (video_queries H L be (vw_origin w))"
  shows "\<exists>track plans. parse_mp4_video_track data = Inr track \<and>
    origin_blob_id out = vo_blob_id (vw_origin w) \<and> sampling_spec_hash blake3 5000 = Inr (spec_hash out) \<and>
    sampling_seed out = derive_sampling_seed blake3 (video_seed_input w sale (spec_hash out)) \<and>
    plan_three_samples blake3 track (sampling_seed out) 5000 = Some (Inr plans) \<and>
    (\<forall>k < 3. preview_committed CL sha256 data track (plans ! k) (preview_cid_digests out ! k))"
proof -
  have be: "be_1000 L data be" by (rule be_1000_new [OF assms(2,4)])
  have id: "vo_blob_id (vw_origin w) = blob_id (expanded_metadata H L be)"
    using assms(4,5) by (simp add: compute_blob_id_default_eq [OF assms(2)])
  obtain moov track plans digests where v: "verify_walrus_video_opening H (vw_origin w) = Inr ()"
    and moov: "authenticated_moov w = Inr moov"
    and track: "parse_mp4_video_track_from_moov moov (vo_unencoded_length (vw_origin w)) = Inr track"
    and spec: "sampling_spec_hash blake3 5000 = Inr (spec_hash out)"
    and seed: "sampling_seed out = derive_sampling_seed blake3 (video_seed_input w sale (spec_hash out))"
    and plans: "plan_three_samples blake3 track (sampling_seed out) 5000 = Some (Inr plans)"
    and digests: "try_fold (preview_digest CL sha256 w track) (replicate 3 (replicate 32 0)) plans = Inr (preview_cid_digests out)"
    and oid: "origin_blob_id out = vo_blob_id (vw_origin w)"
    using assms(1) by (auto simp: video_main_def Let_def sampling_then_Inr_iff map_err_Inr_iff PREVIEW_DURATION_MS_def)
  have reads: "reads (vw_origin w) data" by (rule video_opening_reads [OF assms(3) be v assms(6) id assms(7)])
  have len: "length plans = 3" and idx: "\<forall>k < 3. bucket_index (plans ! k) = k"
    using plans_shape [OF plans] by simp_all
  have "map bucket_index plans = [0..<3]" using len idx by (intro nth_equalityI) auto
  then have "distinct (map bucket_index plans)" by simp
  from preview_digests [OF digests reads this] len idx
  have "\<forall>k < 3. preview_committed CL sha256 data track (plans ! k) (preview_cid_digests out ! k)" by (metis nth_mem)
  with authenticated_track [OF moov reads track] oid spec seed plans show ?thesis by blast
qed

end
