(* ===== verification/Video_Host.thy ===== *)
theory Video_Host
  imports Video_Sound
begin

text \<open>
  The host of the video samples, \<^verbatim>\<open>guest/video-sampling/script/src/main.rs\<close>: which symbols of the blob the
  guest will read, the partial opening with one multiproof per sliver, the directory of top-level boxes
  and the preview templates. Reading files, running \<^verbatim>\<open>ffmpeg\<close>, the prover and the network are not modelled.

  Panics are \<open>Inl\<close>; an arithmetic overflow is a panic, as in the profile with overflow checks. The
  ordered map of needed symbols is an association list with ascending keys and ascending leaves.
\<close>

section \<open>Needed symbols\<close>

type_synonym needed_symbols = "(nat \<times> nat list) list"

fun need_symbol :: "nat \<Rightarrow> nat \<Rightarrow> needed_symbols \<Rightarrow> needed_symbols" where
  "need_symbol shard leaf [] = [(shard, [leaf])]"
| "need_symbol shard leaf ((s, leaves) # needed) =
     (if shard = s then (s, insort_insert leaf leaves) # needed
      else if shard < s then (shard, [leaf]) # (s, leaves) # needed
      else (s, leaves) # need_symbol shard leaf needed)"

definition mark_range :: "needed_symbols \<Rightarrow> nat \<Rightarrow> nat \<Rightarrow> nat \<Rightarrow> (needed_symbols, string) result" where
  "mark_range needed offset len sym_size =
     (if sym_size = 0 \<or> offset + len = 0 \<or> 2 ^ 64 \<le> offset + len then Inl ''panic''
      else
        let first = offset div sym_size; last_symbol = (offset + len - 1) div sym_size in
        Inr (fold (\<lambda>flat. need_symbol (flat div COL_HEIGHT_SECONDARY mod 2 ^ 32) (flat mod COL_HEIGHT_SECONDARY mod 2 ^ 32))
          [first..<last_symbol + 1] needed))"

section \<open>The opening\<close>

type_synonym node_map = "((nat \<times> nat) \<times> node) list"

definition or_insert :: "nat \<times> nat \<Rightarrow> node \<Rightarrow> node_map \<Rightarrow> node_map" where
  "or_insert key n m = (if map_of m key = None then m @ [(key, n)] else m)"

definition sibling_index :: "nat \<Rightarrow> nat" where
  "sibling_index i = (if i mod 2 = 0 then i + 1 else i - 1)"

primrec collect_path :: "nat \<Rightarrow> nat \<Rightarrow> node list \<Rightarrow> node_map \<Rightarrow> node_map" where
  "collect_path level level_index [] m = m"
| "collect_path level level_index (n # path) m =
     collect_path (level + 1) (level_index div 2) path (or_insert (level mod 256, sibling_index level_index mod 2 ^ 32) n m)"

definition open_symbol ::
  "merkle_tree \<Rightarrow> bytes list \<Rightarrow> node_map \<times> auth_symbol list \<Rightarrow> nat \<Rightarrow> (node_map \<times> auth_symbol list, string) result" where
  "open_symbol tree expanded = (\<lambda>(m, opened) leaf_index.
     and_then (map_err (\<lambda>_. ''panic'') (get_proof tree leaf_index)) (\<lambda>path.
     and_then (ensure (leaf_index < length expanded) ''panic'') (\<lambda>_.
     Inr (collect_path 0 leaf_index path m, opened @ [\<lparr> as_leaf_index = leaf_index, as_bytes = expanded ! leaf_index \<rparr>]))))"

text \<open>The entries of the ordered map, by level and index.\<close>

definition map_entries :: "node_map \<Rightarrow> multiproof_node list" where
  "map_entries m = map (\<lambda>((level, i), n). \<lparr> mn_level = level, mn_index = i, mn_node = n \<rparr>)
     (sort_key (\<lambda>e. fst (fst e)) (sort_key (\<lambda>e. snd (fst e)) m))"

definition open_sliver ::
  "(bytes \<Rightarrow> bytes) \<Rightarrow> rs_lib \<Rightarrow> rs_config \<Rightarrow> sliver_pair list \<Rightarrow> sliver_pair_roots list \<Rightarrow> merkle_tree \<Rightarrow> nat \<times> nat list \<Rightarrow>
   (auth_sliver, string) result" where
  "open_sliver H L config slivers roots pair_tree = (\<lambda>(index, leaves).
     and_then (ensure (index < length slivers) ''panic'') (\<lambda>_.
     and_then (map_err (\<lambda>_. ''panic'') (recovery_symbols L config Primary (pair_primary (slivers ! index)))) (\<lambda>recovery.
     let expanded = to_symbols recovery; tree = build H expanded in
     and_then (ensure (index < length roots \<and> root tree = Digest (spr_primary (roots ! index))) ''panic'') (\<lambda>_.
     and_then (try_fold (open_symbol tree expanded) ([], []) leaves) (\<lambda>(proof_nodes, opened).
     and_then (map_err (\<lambda>_. ''panic'') (get_proof pair_tree index)) (\<lambda>path.
     Inr \<lparr> au_shard_index = index, au_primary_root = spr_primary (roots ! index), au_secondary_root = spr_secondary (roots ! index),
       au_pair_leaf_path = path, au_symbols = opened, au_proof_nodes = map_entries proof_nodes \<rparr>))))))"

definition build_opening_from_slivers ::
  "(bytes \<Rightarrow> bytes) \<Rightarrow> rs_lib \<Rightarrow> sliver_pair list \<Rightarrow> blob_metadata_with_id \<Rightarrow> rs_config \<Rightarrow> needed_symbols \<Rightarrow>
   (video_opening, string) result" where
  "build_opening_from_slivers H L slivers md config needed =
     (let roots = map (\<lambda>p. \<lparr> spr_primary = node_bytes (primary_hash p), spr_secondary = node_bytes (secondary_hash p) \<rparr>) (hashes (metadata md));
          pair_tree = build H (map root_pair_leaf roots)
      in
      and_then (try_map (open_sliver H L config slivers roots pair_tree) needed) (\<lambda>primary_slivers.
      Inr \<lparr> vo_blob_id = blob_id md, vo_encoding_type = encoding_type_u8 (md_encoding_type (metadata md)),
        vo_unencoded_length = unencoded_length (metadata md), vo_n_shards = length roots mod 2 ^ 32,
        vo_metadata_root = node_bytes (root pair_tree), vo_primary_slivers = primary_slivers \<rparr>))"

section \<open>Templates and directory\<close>

text \<open>The non-sample segments, cut out between sorted ranges.\<close>

primrec segments_from :: "bytes \<Rightarrow> nat \<Rightarrow> (nat \<times> nat) list \<Rightarrow> preview_segment list" where
  "segments_from preview cursor [] =
     (if cursor < length preview then [\<lparr> seg_offset = cursor, seg_bytes = drop cursor preview \<rparr>] else [])"
| "segments_from preview cursor (r # rs) =
     (if cursor < fst r then [\<lparr> seg_offset = cursor, seg_bytes = take (fst r - cursor) (drop cursor preview) \<rparr>] else []) @
     segments_from preview (snd r) rs"

definition strip_preview_samples :: "bytes \<Rightarrow> (preview_template, string) result" where
  "strip_preview_samples preview =
     and_then (map_err (\<lambda>_. ''parse generated preview'') (parse_mp4_video_track preview)) (\<lambda>track.
     and_then (try_map (\<lambda>s.
         and_then (ensure (vs_byte_offset s + vs_byte_size s \<le> length preview) ''generated preview sample outside file'') (\<lambda>_.
         Inr (vs_byte_offset s, vs_byte_offset s + vs_byte_size s))) (vt_samples track)) (\<lambda>ranges.
     let ranges = sort_ranges ranges in
     and_then (ensure (ranges_disjoint ranges) ''generated preview samples overlap'') (\<lambda>_.
     Inr \<lparr> pv_file_len = length preview, non_sample_segments = segments_from preview 0 ranges \<rparr>)))"

definition build_previews :: "(sample_plan \<Rightarrow> bytes) \<Rightarrow> sample_plan list \<Rightarrow> (preview_template list, string) result" where
  "build_previews ffmpeg plans =
     try_fold (\<lambda>previews plan.
       and_then (strip_preview_samples (ffmpeg plan)) (\<lambda>template.
       and_then (ensure (bucket_index plan < length previews) ''panic'') (\<lambda>_.
       Inr (previews[bucket_index plan := template]))))
     (replicate 3 \<lparr> pv_file_len = 0, non_sample_segments = [] \<rparr>) plans"

function parse_boxes_from :: "bytes \<Rightarrow> nat \<Rightarrow> (top_level_box list, string) result" where
  "parse_boxes_from data offset =
     (if offset < length data then
        if length data < offset + 8 then Inl ''truncated top-level box''
        else
          let size32 = from_be_bytes (take 4 (drop offset data)); kind = take 4 (drop (offset + 4) data) in
          if size32 = 1 \<and> length data < offset + 16 then Inl ''truncated extended box''
          else
            let (header_size, size) =
                  (if size32 = 1 then (16, from_be_bytes (take 8 (drop (offset + 8) data)))
                   else if size32 = 0 then (8, length data - offset) else (8, size32)) in
            if size < header_size \<or> length data < offset + size then Inl ''panic''
            else and_then (parse_boxes_from data (offset + size)) (\<lambda>rest.
              Inr (\<lparr> tb_offset = offset, tb_size = size, tb_kind = kind, tb_header_size = header_size \<rparr> # rest))
      else Inr [])"
  by pat_completeness auto
termination
  by (relation "measure (\<lambda>(data, offset). length data - offset)") (auto split: if_splits)

declare parse_boxes_from.simps [simp del]

definition parse_top_level_boxes :: "bytes \<Rightarrow> (top_level_box list, string) result" where
  "parse_top_level_boxes data = parse_boxes_from data 0"

section \<open>What the guest will read\<close>

definition mark_box :: "nat \<Rightarrow> needed_symbols \<Rightarrow> top_level_box \<Rightarrow> (needed_symbols, string) result" where
  "mark_box sym_size needed entry =
     and_then (mark_range needed (tb_offset entry) (tb_header_size entry) sym_size) (\<lambda>needed.
     if tb_kind entry = fourcc ''moov'' then mark_range needed (tb_offset entry) (tb_size entry) sym_size else Inr needed)"

definition mark_plan :: "nat \<Rightarrow> video_track \<Rightarrow> needed_symbols \<Rightarrow> sample_plan \<Rightarrow> (needed_symbols, string) result" where
  "mark_plan sym_size track needed plan =
     and_then (selected_samples (vt_samples track) plan) (\<lambda>selected.
     try_fold (\<lambda>needed s. mark_range needed (vs_byte_offset s) (vs_byte_size s) sym_size) needed selected)"

text \<open>The sale context, from the fields of a JSON file; decoding hex digits is the \<^verbatim>\<open>hex\<close> crate's.\<close>

record sale_context_file =
  scf_chain_id :: nat
  scf_sale_contract :: string
  scf_sale_id :: string

definition decode_hex_array :: "(string \<Rightarrow> bytes option) \<Rightarrow> nat \<Rightarrow> string \<Rightarrow> string \<Rightarrow> (bytes, string) result" where
  "decode_hex_array hex_decode n value field =
     and_then (ok_or (field @ '' must start with 0x'') (if take 2 value = ''0x'' then Some (drop 2 value) else None)) (\<lambda>raw.
     and_then (ok_or (field @ '' must be valid hex'') (hex_decode raw)) (\<lambda>decoded.
     and_then (ensure (length decoded = n) (field @ '' must contain exactly the expected number of bytes'')) (\<lambda>_. Inr decoded)))"

definition into_sale_context :: "(string \<Rightarrow> bytes option) \<Rightarrow> sale_context_file \<Rightarrow> (sale_context, string) result" where
  "into_sale_context hex_decode file =
     and_then (decode_hex_array hex_decode 20 (scf_sale_contract file) ''saleContract'') (\<lambda>contract.
     and_then (decode_hex_array hex_decode 32 (scf_sale_id file) ''saleId'') (\<lambda>sale_id.
     if scf_chain_id file = 0 \<or> contract = replicate 20 0 \<or> sale_id = replicate 32 0
     then Inl ''sale context cannot contain placeholder values''
     else Inr \<lparr> sc_chain_id = scf_chain_id file, sc_sale_contract = contract, sc_sale_id = sale_id,
       sc_external_randomness = replicate 32 0 \<rparr>))"

text \<open>
  The main function of the client from the source file on, with the preview files that \<^verbatim>\<open>ffmpeg\<close> writes as
  an argument; the sale context holds the randomness of the challenge.
\<close>

definition video_witness_main ::
  "(bytes \<Rightarrow> bytes) \<Rightarrow> (bytes \<Rightarrow> bytes) \<Rightarrow> rs_lib \<Rightarrow> (sample_plan \<Rightarrow> bytes) \<Rightarrow> bytes \<Rightarrow> sale_context \<Rightarrow>
   (video_witness, string) result option" where
  "video_witness_main blake3 H L ffmpeg mp4 sale =
     sampling_then (Some (map_err (\<lambda>_. ''supported source MP4'') (parse_mp4_video_track mp4))) (\<lambda>track.
     sampling_then (Some (parse_top_level_boxes mp4)) (\<lambda>boxes.
     sampling_then (Some (map_err (\<lambda>_. ''panic'') (encoding_config_new 1000))) (\<lambda>config.
     sampling_then (Some (map_err (\<lambda>_. ''Walrus encoding'') (config_encode_with_metadata H L (reed_solomon config) mp4))) (\<lambda>(slivers, md).
     sampling_then (Some (map_err (\<lambda>_. ''panic'') (sampling_spec_hash blake3 PREVIEW_DURATION_MS))) (\<lambda>spec.
     let seed = derive_sampling_seed blake3
           \<lparr> ss_chain_id = sc_chain_id sale, ss_sale_contract = sc_sale_contract sale, ss_sale_id = sc_sale_id sale,
             ss_origin_blob_id = blob_id md, ss_spec_hash = spec, ss_external_randomness = sc_external_randomness sale \<rparr> in
     sampling_then (map_option (map_err (\<lambda>_. ''sampling plans'')) (plan_three_samples blake3 track seed PREVIEW_DURATION_MS)) (\<lambda>plans.
     sampling_then (Some (build_previews ffmpeg plans)) (\<lambda>previews.
     let sym_size = walrus_symbol_size (length mp4) in
     sampling_then (Some (try_fold (mark_box sym_size) [] boxes)) (\<lambda>needed.
     sampling_then (Some (try_fold (mark_plan sym_size track) needed plans)) (\<lambda>needed.
     sampling_then (Some (build_opening_from_slivers H L slivers md (reed_solomon config) needed)) (\<lambda>opening.
     Some (Inr \<lparr> vw_origin = opening, vw_top_level_boxes = boxes, vw_previews = previews \<rparr>)))))))))))"

section \<open>Multiproofs of honest nodes\<close>

primrec level_nodes :: "(bytes \<Rightarrow> bytes) \<Rightarrow> node list \<Rightarrow> nat \<Rightarrow> node list" where
  "level_nodes H xs 0 = xs"
| "level_nodes H xs (Suc l) = parents H (pad (level_nodes H xs l))"

definition good_proof :: "(bytes \<Rightarrow> bytes) \<Rightarrow> (nat \<times> nat \<Rightarrow> node option) \<Rightarrow> nat \<Rightarrow> node list \<Rightarrow> nat set \<Rightarrow> bool" where
  "good_proof H prf level xs S \<longleftrightarrow> (\<forall>l. \<forall>i \<in> S. 1 < length (level_nodes H xs l) \<longrightarrow>
     prf (level + l, sibling_index (i div 2 ^ l)) = Some (pad (level_nodes H xs l) ! sibling_index (i div 2 ^ l)))"

lemma level_nodes_shift: "level_nodes H (parents H (pad xs)) l = level_nodes H xs (Suc l)"
  by (induction l) simp_all

lemma good_proof_up:
  assumes "good_proof H prf level xs S"
  shows "good_proof H prf (level + 1) (parents H (pad xs)) ((\<lambda>i. i div 2) ` S)"
proof -
  have "prf (level + 1 + l, sibling_index (i div 2 div 2 ^ l)) = Some (pad (level_nodes H xs (Suc l)) ! sibling_index (i div 2 div 2 ^ l))"
    if "i \<in> S" "1 < length (level_nodes H xs (Suc l))" for l i
  proof -
    have "i div 2 div 2 ^ l = i div 2 ^ Suc l" by (simp add: div_mult2_eq)
    then show ?thesis using assms that unfolding good_proof_def by (metis add.assoc plus_1_eq_Suc)
  qed
  then show ?thesis unfolding good_proof_def level_nodes_shift by blast
qed

lemma honest_child:
  assumes good: "good_proof H prf level xs S" and S: "S = fst ` set current" and len: "1 < length xs"
    and cur: "\<forall>(i, n) \<in> set current. i < length xs \<and> n = xs ! i" and i: "i \<in> S" and k: "k div 2 = i div 2"
  shows "multiproof_child current prf level (length xs) k = Inr (pad xs ! k)"
proof (cases "k \<in> S")
  case True
  then obtain n where n: "map_of current k = Some n" using S by (metis map_of_eq_None_iff not_None_eq)
  then have "k < length xs" "n = xs ! k" using cur by (auto dest!: map_of_SomeD)
  then show ?thesis using n by (simp add: multiproof_child_def nth_pad)
next
  case False
  then have "k \<noteq> i" using i by blast
  then have "k = sibling_index i" using k unfolding sibling_index_def by presburger
  moreover have "prf (level, sibling_index i) = Some (pad xs ! sibling_index i)"
    using good i len unfolding good_proof_def by (metis add.right_neutral div_by_1 level_nodes.simps(1) power_0)
  moreover have "map_of current k = None" using False S by (simp add: map_of_eq_None_iff)
  ultimately show ?thesis by (simp add: multiproof_child_def)
qed

lemma multiproof_complete:
  assumes "good_proof H prf level xs (fst ` set current)" and "\<forall>(i, n) \<in> set current. i < length xs \<and> n = xs ! i" and "current \<noteq> []"
  shows "multiproof_levels H prf current level (length xs) = Inr (root_of H xs) \<and>
    set (multiproof_queries H prf current level (length xs)) \<subseteq> set (tree_queries H xs)"
  using assms
proof (induction "length xs" arbitrary: xs current level rule: less_induct)
  case less
  obtain i0 n0 where c0: "(i0, n0) \<in> set current" using less.prems(3) by (metis list.set_intros(1) neq_Nil_conv surj_pair)
  then have i0: "i0 < length xs" using less.prems(2) by auto
  show ?case
  proof (cases "1 < length xs")
    case False
    then have len: "length xs = 1" and "i0 = 0" using i0 by linarith+
    then have "0 \<in> fst ` set current" using c0 by (metis fst_conv image_eqI)
    then obtain y where y: "map_of current 0 = Some y" by (metis map_of_eq_None_iff not_None_eq)
    then have "y = xs ! 0" using less.prems(2) map_of_SomeD [OF y] by auto
    with y have "map_of current 0 = Some (xs ! 0)" by simp
    then show ?thesis using False len
      by (auto simp: multiproof_levels.simps [of H _ current level] multiproof_queries.simps [of H _ current level] root_of.simps [of H xs])
  next
    case True
    let ?ys = "parents H (pad xs)" let ?nn = "map (\<lambda>p. (p, ?ys ! p)) (parent_indices current)"
    have par: "multiproof_parent H current prf level (length xs) p = Inr (p, ?ys ! p)" (is ?a)
      "p < length ?ys" (is ?b)
      "parent_query current prf level (length xs) p = [inner_query (pad xs ! (2 * p)) (pad xs ! (2 * p + 1))]" (is ?c)
      if "p \<in> set (parent_indices current)" for p
    proof -
      from that obtain i n where i: "(i, n) \<in> set current" "i div 2 = p" by (auto simp: set_parent_indices)
      have ch: "multiproof_child current prf level (length xs) k = Inr (pad xs ! k)" if "k div 2 = i div 2" for k
        by (rule honest_child [OF less.prems(1) refl True less.prems(2) _ that]) (use i in force)
      have l: "multiproof_child current prf level (length xs) (p * 2) = Inr (pad xs ! (2 * p))"
        "multiproof_child current prf level (length xs) (p * 2 + 1) = Inr (pad xs ! (2 * p + 1))"
        using ch [of "p * 2"] ch [of "p * 2 + 1"] i(2) by (simp_all add: mult.commute)
      have "i < length xs" using i less.prems(2) by auto
      then show ?b using i(2) by simp
      then have "p < length (pad xs) div 2" by (simp add: parents_def)
      then show ?a ?c using l by (simp_all add: multiproof_parent_def parent_query_def root_pair_hash parents_nth)
    qed
    have step: "try_map (multiproof_parent H current prf level (length xs)) (parent_indices current) = Inr ?nn"
      by (rule try_map_total) (use par(1) in simp)
    have keys: "fst ` set ?nn = (\<lambda>i. i div 2) ` fst ` set current" by (force simp: set_parent_indices image_image)
    have up: "good_proof H prf (level + 1) ?ys (fst ` set ?nn)" unfolding keys by (rule good_proof_up [OF less.prems(1)])
    have shorter: "length ?ys < length xs" using True half_up_less by simp
    have nn: "\<forall>(i, n) \<in> set ?nn. i < length ?ys \<and> n = ?ys ! i" using par(2) by auto
    have "i0 div 2 \<in> set (parent_indices current)" using c0 by (force simp: set_parent_indices)
    then have ne: "?nn \<noteq> []" by auto
    note ih = less.hyps [OF shorter up nn ne]
    have half: "next_multiple_of (length xs) 2 div 2 = length ?ys" "(length xs + 1) div 2 = length ?ys" by (simp_all add: half_up_eqs)
    have "multiproof_levels H prf current level (length xs) = Inr (root_of H xs)"
      using ih True step by (simp add: multiproof_levels.simps [of H _ current level "length xs"] root_of.simps [of H xs] half(1) del: length_parents_pad)
    moreover have "set (concat (map (parent_query current prf level (length xs)) (parent_indices current))) \<subseteq> set (tree_queries H xs)"
      using par(2,3) True by (fastforce simp: tree_queries.simps [of H xs] parents_def)
    moreover have "set (tree_queries H ?ys) \<subseteq> set (tree_queries H xs)" using True by (auto simp: tree_queries.simps [of H xs])
    moreover have "multiproof_queries H prf current level (length xs) =
        concat (map (parent_query current prf level (length xs)) (parent_indices current)) @ multiproof_queries H prf ?nn (level + 1) (length ?ys)"
      by (subst multiproof_queries.simps) (simp only: True step half(2) if_True sum.case)
    ultimately show ?thesis using ih by (simp only: set_append) blast
  qed
qed

section \<open>The nodes the host collects\<close>

lemma length_level_nodes: "length (level_nodes H xs (Suc l)) = (length (level_nodes H xs l) + 1) div 2"
  by simp

lemma path_of_levels:
  "i < length xs \<Longrightarrow> (\<forall>l < length (path_of H xs i). path_of H xs i ! l = pad (level_nodes H xs l) ! sibling_index (i div 2 ^ l)) \<and>
    (\<forall>l. 1 < length (level_nodes H xs l) \<longrightarrow> l < length (path_of H xs i))"
proof (induction H xs i rule: path_of.induct)
  case (1 H xs i)
  show ?case
  proof (cases "1 < length xs")
    case False
    have "\<not> 1 < length (level_nodes H xs l)" for l
      using False by (induction l) auto
    then show ?thesis using False by (simp add: path_of.simps [of H xs i])
  next
    case True
    have "i div 2 < length (parents H (pad xs))" using "1.prems" by simp
    note ih = "1.IH" [OF True this]
    have p: "path_of H xs i = pad xs ! sibling_index i # path_of H (parents H (pad xs)) (i div 2)"
      using True by (simp add: path_of.simps [of H xs i] sibling_index_def)
    have d: "i div 2 ^ Suc l = i div 2 div 2 ^ l" for l by (simp add: div_mult2_eq)
    show ?thesis
    proof (intro conjI allI impI)
      fix l assume "l < length (path_of H xs i)"
      then show "path_of H xs i ! l = pad (level_nodes H xs l) ! sibling_index (i div 2 ^ l)"
      proof (cases l)
        case (Suc k)
        with \<open>l < length (path_of H xs i)\<close> have "k < length (path_of H (parents H (pad xs)) (i div 2))" by (simp add: p)
        then show ?thesis using ih unfolding p Suc d by (simp add: level_nodes_shift del: level_nodes.simps(2))
      qed (simp add: p)
    next
      fix l assume "1 < length (level_nodes H xs l)"
      then show "l < length (path_of H xs i)"
        using ih unfolding p by (cases l) (simp_all add: level_nodes_shift del: level_nodes.simps(2))
    qed
  qed
qed

definition honest_map :: "(bytes \<Rightarrow> bytes) \<Rightarrow> node list \<Rightarrow> node_map \<Rightarrow> bool" where
  "honest_map H xs m \<longleftrightarrow> distinct (map fst m) \<and> (\<forall>((l, k), n) \<in> set m. n = pad (level_nodes H xs l) ! k)"

lemma or_insert_honest:
  assumes "honest_map H xs m" and "n = pad (level_nodes H xs l) ! k"
  shows "honest_map H xs (or_insert (l, k) n m)" and "fst ` set (or_insert (l, k) n m) = insert (l, k) (fst ` set m)"
proof -
  have "(l, k) \<notin> fst ` set m \<longleftrightarrow> map_of m (l, k) = None" by (simp add: map_of_eq_None_iff)
  then show "honest_map H xs (or_insert (l, k) n m)" "fst ` set (or_insert (l, k) n m) = insert (l, k) (fst ` set m)"
    using assms by (auto simp: or_insert_def honest_map_def)
qed

lemma collect_path_honest:
  assumes "honest_map H xs m" and "level + length path \<le> 256" and "i < 2 ^ 31"
    and "\<forall>l < length path. path ! l = pad (level_nodes H xs (level + l)) ! sibling_index (i div 2 ^ l)"
  shows "honest_map H xs (collect_path level i path m) \<and>
    fst ` set (collect_path level i path m) = fst ` set m \<union> (\<lambda>l. (level + l, sibling_index (i div 2 ^ l))) ` {..<length path}"
  using assms
proof (induction path arbitrary: level i m)
  case (Cons n path)
  let ?m = "or_insert (level, sibling_index i) n m"
  have n: "n = pad (level_nodes H xs level) ! sibling_index i" using Cons.prems(4) by force
  have "sibling_index i < 2 ^ 32" using Cons.prems(3) by (simp add: sibling_index_def less_imp_diff_less)
  then have m: "collect_path level i (n # path) m = collect_path (level + 1) (i div 2) path ?m"
    using Cons.prems(2) by simp
  have d: "i div 2 ^ Suc l = i div 2 div 2 ^ l" for l by (simp add: div_mult2_eq)
  have rest: "\<forall>l < length path. path ! l = pad (level_nodes H xs (level + 1 + l)) ! sibling_index (i div 2 div 2 ^ l)"
  proof (intro allI impI)
    fix l assume "l < length path"
    then show "path ! l = pad (level_nodes H xs (level + 1 + l)) ! sibling_index (i div 2 div 2 ^ l)"
      using Cons.prems(4) [rule_format, of "Suc l"] unfolding d by simp
  qed
  note ih = Cons.IH [OF or_insert_honest(1) [OF Cons.prems(1) n] _ _ rest]
  have "{..<length (n # path)} = insert 0 (Suc ` {..<length path})" by (simp add: lessThan_Suc_eq_insert_0)
  then have "(\<lambda>l. (level + l, sibling_index (i div 2 ^ l))) ` {..<length (n # path)} =
      insert (level, sibling_index i) ((\<lambda>l. (level + 1 + l, sibling_index (i div 2 div 2 ^ l))) ` {..<length path})"
    by (simp only: image_insert image_image d) simp
  with ih Cons.prems(2,3) or_insert_honest(2) [OF Cons.prems(1) n] show ?case unfolding m by auto
qed simp

lemma multiproof_map_entries:
  assumes "distinct (map fst m)" shows "multiproof_map (map_entries m) = map_of m"
proof -
  let ?s = "sort_key (\<lambda>e. fst (fst e)) (sort_key (\<lambda>e. snd (fst e)) m)"
  have e: "map (\<lambda>x. ((mn_level x, mn_index x), mn_node x)) (map_entries m) = ?s"
    by (auto simp: map_entries_def comp_def case_prod_beta intro: map_idI)
  have "mset (map fst ?s) = mset (map fst m)" by simp
  then have "distinct (map fst ?s)" using assms mset_eq_imp_distinct_iff by blast
  moreover have "set ?s = set m" by simp
  ultimately have "map_of (rev ?s) = map_of m" using assms by (subst map_of_inject_set) (simp_all add: rev_map [symmetric])
  then show ?thesis unfolding multiproof_map_def e .
qed

lemma opened_symbols:
  assumes "\<forall>l \<in> set leaves. l < length expanded" and "length expanded < 2 ^ 31" and "path_length (length expanded) \<le> 256"
    and "honest_map H (map (leaf_hash H) expanded) m0"
  shows "\<exists>m. try_fold (open_symbol (build H expanded) expanded) (m0, o0) leaves =
      Inr (m, o0 @ map (\<lambda>l. \<lparr> as_leaf_index = l, as_bytes = expanded ! l \<rparr>) leaves) \<and>
    honest_map H (map (leaf_hash H) expanded) m \<and> fst ` set m0 \<subseteq> fst ` set m \<and>
    (\<forall>leaf \<in> set leaves. \<forall>l < path_length (length expanded). (l, sibling_index (leaf div 2 ^ l)) \<in> fst ` set m)"
  using assms(1,4)
proof (induction leaves arbitrary: m0 o0)
  case (Cons leaf leaves)
  let ?xs = "map (leaf_hash H) expanded" let ?p = "path_of H ?xs leaf"
  have leaf: "leaf < length ?xs" using Cons.prems(1) by simp
  have p: "get_proof (build H expanded) leaf = Inr ?p" using leaf by (simp add: build_def get_proof_build_from_leaf_hashes)
  have len: "length ?p = path_length (length expanded)" by (simp add: length_path_of)
  define m1 where "m1 = collect_path 0 leaf ?p m0"
  have m1: "honest_map H ?xs m1" "fst ` set m1 = fst ` set m0 \<union> (\<lambda>l. (l, sibling_index (leaf div 2 ^ l))) ` {..<length ?p}"
    using collect_path_honest [OF Cons.prems(2), of 0 ?p leaf] path_of_levels [OF leaf, of H] leaf len assms(2,3)
    by (simp_all add: m1_def)
  obtain m where m: "try_fold (open_symbol (build H expanded) expanded) (m1, o0 @ [\<lparr> as_leaf_index = leaf, as_bytes = expanded ! leaf \<rparr>]) leaves =
      Inr (m, (o0 @ [\<lparr> as_leaf_index = leaf, as_bytes = expanded ! leaf \<rparr>]) @ map (\<lambda>l. \<lparr> as_leaf_index = l, as_bytes = expanded ! l \<rparr>) leaves)"
    "honest_map H ?xs m" "fst ` set m1 \<subseteq> fst ` set m"
    "\<forall>leaf \<in> set leaves. \<forall>l < path_length (length expanded). (l, sibling_index (leaf div 2 ^ l)) \<in> fst ` set m"
    using Cons.IH [OF _ m1(1)] Cons.prems(1) by (meson list.set_intros(2))
  have "open_symbol (build H expanded) expanded (m0, o0) leaf = Inr (m1, o0 @ [\<lparr> as_leaf_index = leaf, as_bytes = expanded ! leaf \<rparr>])"
    using p leaf by (simp add: open_symbol_def m1_def ensure_def)
  with m m1(2) len show ?case by (intro exI [of _ m]) auto
qed simp

lemma insert_symbols_ok:
  assumes "distinct leaves" and "\<forall>l \<in> set leaves. l < n \<and> length (f l) = s \<and> l \<notin> fst ` set current"
  shows "try_fold (insert_symbol H n s) current (map (\<lambda>l. \<lparr> as_leaf_index = l, as_bytes = f l \<rparr>) leaves) =
    Inr (current @ map (\<lambda>l. (l, leaf_hash H (f l))) leaves)"
  using assms
proof (induction leaves arbitrary: current)
  case (Cons l leaves)
  then have "map_of current l = None" by (simp add: map_of_eq_None_iff)
  then have "insert_symbol H n s current \<lparr> as_leaf_index = l, as_bytes = f l \<rparr> = Inr (current @ [(l, leaf_hash H (f l))])"
    using Cons.prems(2) by (simp add: insert_symbol_def ensure_def root_build_single)
  moreover have "\<forall>k \<in> set leaves. k < n \<and> length (f k) = s \<and> k \<notin> fst ` set (current @ [(l, leaf_hash H (f l))])"
    using Cons.prems by auto
  ultimately show ?case using Cons.IH Cons.prems(1) by simp
qed simp

lemma host_multiproof:
  assumes leaves: "leaves \<noteq> []" "distinct leaves" "\<forall>l \<in> set leaves. l < length expanded"
    and sz: "\<forall>x \<in> set expanded. length x = s" and len: "length expanded < 2 ^ 31" "path_length (length expanded) \<le> 256"
  obtains m where "try_fold (open_symbol (build H expanded) expanded) ([], []) leaves =
      Inr (m, map (\<lambda>l. \<lparr> as_leaf_index = l, as_bytes = expanded ! l \<rparr>) leaves)"
    and "honest_map H (map (leaf_hash H) expanded) m"
    and "\<And>sl. au_symbols sl = map (\<lambda>l. \<lparr> as_leaf_index = l, as_bytes = expanded ! l \<rparr>) leaves \<Longrightarrow> au_proof_nodes sl = map_entries m \<Longrightarrow>
      verify_primary_multiproof H sl (length expanded) s = Inr (root (build H expanded)) \<and>
      set (map (\<lambda>y. 0 # as_bytes y) (au_symbols sl)) \<union>
      set (multiproof_queries H (multiproof_map (au_proof_nodes sl)) (sliver_current H sl) 0 (length expanded)) \<subseteq> set (build_queries H expanded)"
proof -
  let ?xs = "map (leaf_hash H) expanded" let ?syms = "map (\<lambda>l. \<lparr> as_leaf_index = l, as_bytes = expanded ! l \<rparr>) leaves"
  let ?cur = "map (\<lambda>l. (l, leaf_hash H (expanded ! l))) leaves"
  have "honest_map H ?xs []" by (simp add: honest_map_def)
  from opened_symbols [OF leaves(3) len this, of "[]"] obtain m where
    m: "try_fold (open_symbol (build H expanded) expanded) ([], []) leaves = Inr (m, ?syms)" "honest_map H ?xs m"
      "\<forall>leaf \<in> set leaves. \<forall>l < path_length (length expanded). (l, sibling_index (leaf div 2 ^ l)) \<in> fst ` set m"
    by auto
  have d: "distinct (map fst m)" using m(2) by (simp add: honest_map_def)
  have good: "good_proof H (map_of m) 0 ?xs (set leaves)"
    unfolding good_proof_def
  proof (intro allI ballI impI)
    fix l i assume i: "i \<in> set leaves" and l: "1 < length (level_nodes H ?xs l)"
    have "i < length ?xs" using i leaves(3) by simp
    then have "l < path_length (length expanded)" using path_of_levels [of i ?xs H] l by (simp add: length_path_of)
    then obtain n where n: "((l, sibling_index (i div 2 ^ l)), n) \<in> set m" using m(3) i by fastforce
    then have "n = pad (level_nodes H ?xs l) ! sibling_index (i div 2 ^ l)" using m(2) by (auto simp: honest_map_def)
    with n d show "map_of m (0 + l, sibling_index (i div 2 ^ l)) = Some (pad (level_nodes H ?xs l) ! sibling_index (i div 2 ^ l))" by simp
  qed
  have cur: "fst ` set ?cur = set leaves" by force
  have mp: "multiproof_levels H (map_of m) ?cur 0 (length ?xs) = Inr (root_of H ?xs) \<and>
      set (multiproof_queries H (map_of m) ?cur 0 (length ?xs)) \<subseteq> set (tree_queries H ?xs)"
    by (rule multiproof_complete) (use good cur leaves in auto)
  have ins: "try_fold (insert_symbol H (length expanded) s) [] ?syms = Inr ?cur"
    using insert_symbols_ok [OF leaves(2), of "length expanded" "\<lambda>l. expanded ! l" s "[]" H] leaves(3) sz by simp
  have "verify_primary_multiproof H sl (length expanded) s = Inr (root (build H expanded)) \<and>
      set (map (\<lambda>y. 0 # as_bytes y) (au_symbols sl)) \<union>
      set (multiproof_queries H (multiproof_map (au_proof_nodes sl)) (sliver_current H sl) 0 (length expanded)) \<subseteq> set (build_queries H expanded)"
    if "au_symbols sl = ?syms" "au_proof_nodes sl = map_entries m" for sl
  proof -
    have "sliver_current H sl = ?cur" by (simp add: sliver_current_def that comp_def)
    then show ?thesis using mp ins leaves(1,3) that
      by (auto simp: verify_primary_multiproof_def multiproof_map_entries [OF d] ensure_def build_def root_build_from_leaf_hashes build_queries_def)
  qed
  with that m show ?thesis by blast
qed

section \<open>The opening is accepted\<close>

definition needed_ok :: "needed_symbols \<Rightarrow> bool" where
  "needed_ok needed \<longleftrightarrow> distinct (map fst needed) \<and>
     (\<forall>(c, ls) \<in> set needed. c < ROW_WIDTH_PRIMARY \<and> ls \<noteq> [] \<and> distinct ls \<and> (\<forall>l \<in> set ls. l < COL_HEIGHT_SECONDARY))"

definition host_roots :: "(bytes \<Rightarrow> bytes) \<Rightarrow> rs_lib \<Rightarrow> blob_encoder \<Rightarrow> sliver_pair_roots list" where
  "host_roots H L be = map (\<lambda>p. \<lparr> spr_primary = node_bytes (primary_hash p), spr_secondary = node_bytes (secondary_hash p) \<rparr>)
     (expanded_hashes H L be)"

lemma recovery_line:
  assumes be: "be_1000 L data be" and c: "c < ROW_WIDTH_PRIMARY"
  shows "recovery_symbols L walrus_1000 Primary (primary_sliver L be c) = Inr (mk_symbols (be_symbol_size be) (matrix_line L be c))"
proof -
  note b = be_1000D [OF be]
  have c': "c < be_n_rows be" using c b(3) by simp
  let ?xs = "map (msg be c) [0..<be_n_columns be]"
  have code: "matrix_line L be c = row_code L be c"
    using row_code_props(1) [OF b(1) c'] by (intro nth_equalityI) (simp_all add: matrix_line_def cell_row [OF b(1) c'])
  have conf: "be_config be = walrus_1000" using be by (simp add: be_1000_def)
  have sup: "rs_encodable L (n_source_symbols (be_config be) Secondary) (n_of be) (be_symbol_size be)" using be_okD(8,10) [OF b(1)] by simp
  have ort: "orthogonal Primary = Secondary" by simp
  have "length ?xs = n_source_symbols (be_config be) Secondary" using be_okD(10) [OF b(1)] by simp
  from recovery_symbols_ok [where t = Primary, unfolded ort, OF sup this sized_msg_row [OF b(1) c'], of c] show ?thesis
    unfolding primary_sliver_row [OF b(1) c'] code row_code_def conf .
qed

end
