(* ===== verification/Video_Run.thy ===== *)
theory Video_Run
  imports Video_Host
begin

text \<open>
  The opening that the video sampling host builds, seen by the guest: it is accepted, every range of bytes
  that was marked can be read, and the walk over the host's directory finds the index of the file.
\<close>

section \<open>The opening is accepted\<close>

lemma host_root_leaves: "map root_pair_leaf (host_roots H L be) = map pair_leaf_input (hashes (metadata (expanded_metadata H L be)))"
  by (simp add: host_roots_def root_pair_leaf_def pair_leaf_input_def expanded_metadata_simps)

lemma collect_path_ok:
  assumes "\<forall>e \<in> set m. node_ok (snd e)" and "\<forall>n \<in> set path. node_ok n"
  shows "\<forall>e \<in> set (collect_path level i path m). node_ok (snd e)"
  using assms
proof (induction path arbitrary: level i m)
  case (Cons n path)
  have "\<forall>e \<in> set (or_insert k n m). node_ok (snd e)" for k using Cons.prems by (auto simp: or_insert_def)
  from Cons.IH [OF this] Cons.prems(2) show ?case by simp
qed simp

lemma opened_nodes_ok:
  assumes H: "digest32 H" and run: "try_fold (open_symbol (build H expanded) expanded) ([], []) leaves = Inr (m, os)"
  shows "\<forall>e \<in> set m. node_ok (snd e)"
proof -
  have "\<forall>e \<in> set (fst (m, os)). node_ok (snd e)"
  proof (rule try_fold_invariant [OF run])
    fix st l st' assume st: "\<forall>e \<in> set (fst st). node_ok (snd e)" "open_symbol (build H expanded) expanded st l = Inr st'"
    obtain m0 o0 where s: "st = (m0, o0)" by (cases st)
    from st(2) have l: "l < length expanded" "fst st' = collect_path 0 l (path_of H (map (leaf_hash H) expanded) l) m0"
      by (auto simp: open_symbol_def s result_simps build_def get_proof_build_from_leaf_hashes split: if_splits)
    have "\<forall>n \<in> set (path_of H (map (leaf_hash H) expanded) l). node_ok n"
      by (rule node_ok_path_of [OF H]) (use l(1) H in \<open>auto simp: leaf_hash_def\<close>)
    then show "\<forall>e \<in> set (fst st'). node_ok (snd e)" using collect_path_ok st(1) unfolding l(2) s by simp
  qed simp
  then show ?thesis by simp
qed

lemma length_encoded_pairs: "be_1000 L data be \<Longrightarrow> length (encoded_pairs L be) = 1000 \<and> length (host_roots H L be) = 1000"
  by (simp add: encoded_pairs_def host_roots_def expanded_hashes_def be_1000D(2))

lemma host_root_primary:
  assumes "be_1000 L data be" and "c < 1000"
  shows "root (build H (matrix_line L be c)) = Digest (spr_primary (host_roots H L be ! c))"
    and "pair_leaf_input (expanded_hashes H L be ! c) = spr_primary (host_roots H L be ! c) @ spr_secondary (host_roots H L be ! c)"
proof -
  note n = be_1000D(2) [OF assms(1)]
  have "matrix_line L be c \<noteq> []" by (simp add: matrix_line_def n)
  from root_build_digest [OF this, of H] obtain b where b: "root (build H (matrix_line L be c)) = Digest b" by blast
  have "primary_hash (expanded_hashes H L be ! c) = root (build H (matrix_line L be c))"
    using assms(2) by (simp add: expanded_hashes_def matrix_line_def n nth_map_upt0 del: upt_rec_numeral)
  moreover have "c < length (expanded_hashes H L be)" using assms(2) by (simp add: expanded_metadata_simps n)
  ultimately show "root (build H (matrix_line L be c)) = Digest (spr_primary (host_roots H L be ! c))"
    "pair_leaf_input (expanded_hashes H L be ! c) = spr_primary (host_roots H L be ! c) @ spr_secondary (host_roots H L be ! c)"
    using b by (simp_all add: host_roots_def pair_leaf_input_def)
qed

abbreviation pair_tree :: "(bytes \<Rightarrow> bytes) \<Rightarrow> rs_lib \<Rightarrow> blob_encoder \<Rightarrow> merkle_tree" where
  "pair_tree H L be \<equiv> build H (map root_pair_leaf (host_roots H L be))"

text \<open>What the host's sliver is to the guest.\<close>

definition sliver_opens :: "(bytes \<Rightarrow> bytes) \<Rightarrow> rs_lib \<Rightarrow> blob_encoder \<Rightarrow> nat \<times> nat list \<Rightarrow> auth_sliver \<Rightarrow> bool" where
  "sliver_opens H L be = (\<lambda>(c, leaves) sl. au_shard_index sl = c \<and>
     au_symbols sl = map (\<lambda>l. \<lparr> as_leaf_index = l, as_bytes = cell L be c l \<rparr>) leaves \<and>
     length (au_primary_root sl) = 32 \<and> (\<forall>n \<in> set (au_pair_leaf_path sl). node_ok n) \<and> (\<forall>x \<in> set (au_proof_nodes sl). node_ok (mn_node x)) \<and>
     verify_proof H (au_pair_leaf_path sl) (root (pair_tree H L be)) 1000 (au_primary_root sl @ au_secondary_root sl) c = Inr () \<and>
     verify_primary_multiproof H sl 1000 (be_symbol_size be) = Inr (Digest (au_primary_root sl)) \<and>
     set (auth_sliver_queries H (matrix_line L be c) 1000 sl) \<subseteq>
       set (id_queries H (metadata (expanded_metadata H L be))) \<union> set (build_queries H (matrix_line L be c)))"

lemma sliver_opened:
  assumes H: "digest32 H" and be: "be_1000 L data be" and c: "c < ROW_WIDTH_PRIMARY"
    and leaves: "leaves \<noteq> []" "distinct leaves" "\<forall>l \<in> set leaves. l < COL_HEIGHT_SECONDARY"
  obtains sl where "open_sliver H L walrus_1000 (encoded_pairs L be) (host_roots H L be) (pair_tree H L be) (c, leaves) = Inr sl"
    and "sliver_opens H L be (c, leaves) sl"
proof -
  note b = be_1000D [OF be]
  let ?line = "matrix_line L be c" let ?s = "be_symbol_size be" let ?pairs = "map root_pair_leaf (host_roots H L be)"
  let ?r = "host_roots H L be ! c" let ?md = "metadata (expanded_metadata H L be)"
  have c': "c < 1000" using c by (simp add: ROW_WIDTH_PRIMARY_def)
  have len: "length ?line = 1000" "length ?pairs = 1000" using length_encoded_pairs [OF be] by (simp_all add: matrix_line_def b(2))
  have sz: "\<forall>x \<in> set ?line. length x = ?s"
    using length_cell [OF b(1)] c' by (auto simp: matrix_line_def b(2))
  have s0: "0 < ?s" using be_okD(3) [OF b(1)] by simp
  have small: "length ?line < 2 ^ 31" "path_length (length ?line) \<le> 256" by (simp_all add: len path_length_def ilog2.simps)
  have l1000: "\<forall>l \<in> set leaves. l < length ?line" using leaves(3) by (auto simp: len COL_HEIGHT_SECONDARY_def)
  have syms: "map (\<lambda>l. \<lparr> as_leaf_index = l, as_bytes = ?line ! l \<rparr>) leaves = map (\<lambda>l. \<lparr> as_leaf_index = l, as_bytes = cell L be c l \<rparr>) leaves"
    using l1000 by (simp add: matrix_line_def)
  obtain m where m: "try_fold (open_symbol (build H ?line) ?line) ([], []) leaves = Inr (m, map (\<lambda>l. \<lparr> as_leaf_index = l, as_bytes = ?line ! l \<rparr>) leaves)"
    and mp: "\<And>sl. au_symbols sl = map (\<lambda>l. \<lparr> as_leaf_index = l, as_bytes = ?line ! l \<rparr>) leaves \<Longrightarrow> au_proof_nodes sl = map_entries m \<Longrightarrow>
      verify_primary_multiproof H sl (length ?line) ?s = Inr (root (build H ?line)) \<and>
      set (map (\<lambda>y. 0 # as_bytes y) (au_symbols sl)) \<union>
      set (multiproof_queries H (multiproof_map (au_proof_nodes sl)) (sliver_current H sl) 0 (length ?line)) \<subseteq> set (build_queries H ?line)"
    using host_multiproof [OF leaves(1,2) l1000 sz small, of H thesis] by blast
  let ?p = "path_of H (map (leaf_hash H) ?pairs) c"
  define sl where "sl = \<lparr> au_shard_index = c, au_primary_root = spr_primary ?r, au_secondary_root = spr_secondary ?r,
    au_pair_leaf_path = ?p, au_symbols = map (\<lambda>l. \<lparr> as_leaf_index = l, as_bytes = ?line ! l \<rparr>) leaves, au_proof_nodes = map_entries m \<rparr>"
  have root: "root (build H ?line) = Digest (spr_primary ?r)" by (rule host_root_primary(1) [OF be c'])
  have pl: "?pairs ! c = spr_primary ?r @ spr_secondary ?r" using c' len(2) by (simp add: root_pair_leaf_def)
  have "pair_primary (encoded_pairs L be ! c) = primary_sliver L be c"
    using c' by (simp add: encoded_pairs_def b(2) nth_map_upt0 del: upt_rec_numeral)
  moreover have "get_proof (pair_tree H L be) c = Inr ?p"
    using c' len(2) by (simp add: build_def get_proof_build_from_leaf_hashes)
  moreover have "to_symbols (mk_symbols ?s ?line) = ?line" by (rule to_symbols_mk) (use sz s0 in \<open>auto simp: sized_def\<close>)
  ultimately have run: "open_sliver H L walrus_1000 (encoded_pairs L be) (host_roots H L be) (pair_tree H L be) (c, leaves) = Inr sl"
    using length_encoded_pairs [OF be, of H] c' recovery_line [OF be c] root m
    by (simp add: open_sliver_def ensure_def sl_def)
  have "sliver_opens H L be (c, leaves) sl"
    unfolding sliver_opens_def prod.case
  proof (intro conjI)
    have ne: "?line \<noteq> []" using len(1) by auto
    show "length (au_primary_root sl) = 32" using length_root_bytes [OF H ne] root by (simp add: sl_def)
    show "\<forall>n \<in> set (au_pair_leaf_path sl). node_ok n"
      unfolding sl_def auth_sliver.simps by (rule node_ok_path_of [OF H]) (use c' len(2) H in \<open>auto simp: leaf_hash_def\<close>)
    show "\<forall>x \<in> set (au_proof_nodes sl). node_ok (mn_node x)"
      using opened_nodes_ok [OF H m] by (auto simp: sl_def map_entries_def)
    show "verify_proof H (au_pair_leaf_path sl) (root (pair_tree H L be)) 1000 (au_primary_root sl @ au_secondary_root sl) c = Inr ()"
      using verify_path_of [of c ?pairs H] c' len(2) pl by (simp add: sl_def build_def root_build_from_leaf_hashes)
    show "verify_primary_multiproof H sl 1000 ?s = Inr (Digest (au_primary_root sl))"
      using mp [of sl] root len(1) by (simp add: sl_def)
    have "set (proof_queries H ?p (?pairs ! c) c) \<subseteq> set (build_queries H ?pairs)"
      using climb_queries_path_of [of c "map (leaf_hash H) ?pairs" H] c' len(2)
      by (auto simp: proof_queries_def build_queries_def)
    moreover have "set (build_queries H ?pairs) \<subseteq> set (id_queries H ?md)" unfolding host_root_leaves id_queries_def by auto
    moreover have "proof_queries H (au_pair_leaf_path sl) (au_primary_root sl @ au_secondary_root sl) (au_shard_index sl) =
        proof_queries H ?p (?pairs ! c) c" by (simp add: sl_def pl del: nth_map)
    ultimately show "set (auth_sliver_queries H ?line 1000 sl) \<subseteq> set (id_queries H ?md) \<union> set (build_queries H ?line)"
      using mp [of sl] len(1) by (auto simp: auth_sliver_queries_def sl_def [THEN arg_cong [of _ _ au_symbols]] sl_def [THEN arg_cong [of _ _ au_proof_nodes]])
  qed (simp_all add: sl_def syms)
  with run that show ?thesis by blast
qed

text \<open>The slivers of an opening, in the order of the map.\<close>

lemma slivers_opened:
  assumes H: "digest32 H" and be: "be_1000 L data be" and ok: "needed_ok needed"
  obtains sls where "try_map (open_sliver H L walrus_1000 (encoded_pairs L be) (host_roots H L be) (pair_tree H L be)) needed = Inr sls"
    and "list_all2 (sliver_opens H L be) needed sls"
proof -
  have "\<exists>sl. open_sliver H L walrus_1000 (encoded_pairs L be) (host_roots H L be) (pair_tree H L be) e = Inr sl \<and> sliver_opens H L be e sl"
    if "e \<in> set needed" for e
  proof -
    obtain c ls where e: "e = (c, ls)" by (cases e)
    then show ?thesis using sliver_opened [OF H be, of c ls] ok that by (fastforce simp: needed_ok_def)
  qed
  then have "\<exists>sls. try_map (open_sliver H L walrus_1000 (encoded_pairs L be) (host_roots H L be) (pair_tree H L be)) xs = Inr sls \<and>
      list_all2 (sliver_opens H L be) xs sls" if "set xs \<subseteq> set needed" for xs
    using that by (induction xs) fastforce+
  then show ?thesis using that by blast
qed

lemma slivers_verified:
  assumes "list_all2 (sliver_opens H L be) needed sls" and "distinct (map fst needed)" and "\<forall>e \<in> set needed. fst e < 1000 \<and> fst e \<notin> set seen"
    and "vo_n_shards op = 1000" and "Digest (vo_metadata_root op) = root (pair_tree H L be)"
  shows "\<exists>seen'. try_fold (verify_auth_sliver H op (be_symbol_size be)) seen sls = Inr seen'"
  using assms(1-3)
proof (induction arbitrary: seen rule: list_all2_induct)
  case (Cons e needed sl sls)
  then have "verify_auth_sliver H op (be_symbol_size be) seen sl = Inr (fst e # seen)"
    using assms(4,5) by (auto simp: verify_auth_sliver_def sliver_opens_def ensure_def)
  moreover have "\<exists>seen'. try_fold (verify_auth_sliver H op (be_symbol_size be)) (fst e # seen) sls = Inr seen'"
  proof (rule Cons.IH)
    have "fst e \<notin> fst ` set needed" using Cons.prems(1) by simp
    then have "fst x \<noteq> fst e" if "x \<in> set needed" for x using that by (metis image_eqI)
    then show "\<forall>x \<in> set needed. fst x < 1000 \<and> fst x \<notin> set (fst e # seen)" using Cons.prems(2) by simp
  qed (use Cons.prems(1) in simp)
  ultimately show ?case by simp
qed simp

lemma find_symbol_opened:
  assumes "list_all2 (sliver_opens H L be) needed (vo_primary_slivers op)" and "distinct (map fst needed)"
    and "(c, ls) \<in> set needed" and "l \<in> set ls"
  shows "find_primary_symbol op c l = Inr (cell L be c l)"
proof -
  have "find (\<lambda>y. as_leaf_index y = l) (map (\<lambda>l. \<lparr> as_leaf_index = l, as_bytes = f l \<rparr>) ls) = Some \<lparr> as_leaf_index = l, as_bytes = f l \<rparr>" for f
    using assms(4) by (induction ls) auto
  moreover have "\<exists>sl. find (\<lambda>s. au_shard_index s = c) sls = Some sl \<and> sliver_opens H L be (c, ls) sl"
    if "list_all2 (sliver_opens H L be) xs sls" "distinct (map fst xs)" "(c, ls) \<in> set xs" for xs sls
    using that
  proof (induction rule: list_all2_induct)
    case (Cons e xs sl sls)
    have "au_shard_index sl = fst e" using Cons.hyps(1) by (auto simp: sliver_opens_def)
    then show ?case using Cons by (cases "fst e = c") (auto intro: rev_image_eqI)
  qed simp
  from this [OF assms(1-3)] obtain sl where "find (\<lambda>s. au_shard_index s = c) (vo_primary_slivers op) = Some sl" "sliver_opens H L be (c, ls) sl"
    by blast
  ultimately show ?thesis by (simp add: find_primary_symbol_def sliver_opens_def)
qed

lemma video_opening_built:
  assumes H: "digest32 H" and be: "be_1000 L data be" and ok: "needed_ok needed"
  obtains op where "build_opening_from_slivers H L (encoded_pairs L be) (expanded_metadata H L be) walrus_1000 needed = Inr op"
    and "verify_walrus_video_opening H op = Inr ()" and "vo_blob_id op = blob_id (expanded_metadata H L be)"
    and "video_opening_typed op" and "vo_unencoded_length op = length data"
    and "set (video_queries H L be op) \<subseteq> set (id_queries H (metadata (expanded_metadata H L be))) \<union>
      (\<Union>c < 1000. set (build_queries H (matrix_line L be c)))"
    and "\<And>c ls l. (c, ls) \<in> set needed \<Longrightarrow> l \<in> set ls \<Longrightarrow>
      find_primary_symbol op c l = Inr (padded_symbol data (walrus_symbol_size (length data)) c l)"
    and "reads op data"
proof -
  note b = be_1000D [OF be]
  let ?md = "metadata (expanded_metadata H L be)"
  obtain sls where sls: "try_map (open_sliver H L walrus_1000 (encoded_pairs L be) (host_roots H L be) (pair_tree H L be)) needed = Inr sls"
    and opens: "list_all2 (sliver_opens H L be) needed sls" by (rule slivers_opened [OF H be ok])
  define op where "op = \<lparr> vo_blob_id = blob_id (expanded_metadata H L be), vo_encoding_type = 1, vo_unencoded_length = length data,
    vo_n_shards = 1000, vo_metadata_root = node_bytes (root (pair_tree H L be)), vo_primary_slivers = sls \<rparr>"
  have enc: "md_encoding_type ?md = RS2" by (simp add: expanded_metadata_def new_verified_from_metadata_def Let_def)
  have roots: "map (\<lambda>p. \<lparr> spr_primary = node_bytes (primary_hash p), spr_secondary = node_bytes (secondary_hash p) \<rparr>) (hashes ?md) = host_roots H L be"
    by (simp add: host_roots_def expanded_metadata_simps)
  have 1: "build_opening_from_slivers H L (encoded_pairs L be) (expanded_metadata H L be) walrus_1000 needed = Inr op"
    using sls length_encoded_pairs [OF be, of H]
    by (simp add: build_opening_from_slivers_def Let_def roots enc op_def expanded_metadata_simps(2) b(5))
  have ne: "map root_pair_leaf (host_roots H L be) \<noteq> []" using length_encoded_pairs [OF be, of H] by auto
  have rd: "Digest (vo_metadata_root op) = root (pair_tree H L be)" using root_build_digest [OF ne, of H] by (auto simp: op_def)
  have crh: "root (pair_tree H L be) = compute_root_hash H ?md" by (simp add: compute_root_hash_def host_root_leaves)
  have small: "\<forall>e \<in> set needed. fst e < 1000" using ok by (fastforce simp: needed_ok_def ROW_WIDTH_PRIMARY_def)
  have d: "distinct (map fst needed)" using ok by (simp add: needed_ok_def)
  obtain seen where "try_fold (verify_auth_sliver H op (be_symbol_size be)) [] sls = Inr seen"
    using slivers_verified [OF opens d _ _ rd, of "[]"] small by (auto simp: op_def)
  moreover have "from_metadata H (Digest (vo_metadata_root op)) RS2 (length data) = blob_id (expanded_metadata H L be)"
    unfolding rd crh by (simp add: expanded_metadata_simps(1,2) from_sliver_pair_metadata_def enc b(5))
  ultimately have 2: "verify_walrus_video_opening H op = Inr ()"
    using b(6) by (simp add: verify_walrus_video_opening_def op_def encoding_type_try_from_def ensure_def)
  have len: "length data < 2 ^ 64"
  proof -
    have "length data \<le> ROW_WIDTH_PRIMARY * COL_HEIGHT_SECONDARY * 65535"
      using be_ok_blob [OF b(1)] b(3-7) by (simp add: order.trans [OF _ mult_le_mono2])
    then show ?thesis by (simp add: ROW_WIDTH_PRIMARY_def COL_HEIGHT_SECONDARY_def)
  qed
  have mem: "\<exists>e \<in> set needed. sliver_opens H L be e sl" if "sl \<in> set sls" for sl
    using opens that by (metis list_all2_conv_all_nth in_set_conv_nth)
  have 3: "video_opening_typed op"
    using len length_root_bytes [OF H ne] mem by (fastforce simp: video_opening_typed_def op_def sliver_opens_def)
  have "opening_id_query op = id_query H ?md"
    by (simp add: opening_id_query_def id_query_def op_def crh enc expanded_metadata_simps(2) b(5))
  moreover have "set (auth_sliver_queries H (matrix_line L be (au_shard_index sl)) 1000 sl) \<subseteq> set (id_queries H ?md) \<union>
      (\<Union>c < 1000. set (build_queries H (matrix_line L be c)))" if "sl \<in> set sls" for sl
    using mem [OF that] small by (fastforce simp: sliver_opens_def)
  ultimately have 4: "set (video_queries H L be op) \<subseteq> set (id_queries H ?md) \<union> (\<Union>c < 1000. set (build_queries H (matrix_line L be c)))"
    by (simp add: video_queries_def op_def id_queries_def) blast
  have "find_primary_symbol op c l = Inr (padded_symbol data (walrus_symbol_size (length data)) c l)"
    if "(c, ls) \<in> set needed" "l \<in> set ls" for c ls l
  proof -
    have cl: "c < ROW_WIDTH_PRIMARY" "l < COL_HEIGHT_SECONDARY" using ok that by (fastforce simp: needed_ok_def)+
    then show ?thesis using find_symbol_opened [OF _ d that, of H L be op] opens cell_msg [OF b(1), of c l] b(3,4) msg_padded_symbol [OF be cl]
      by (simp add: op_def)
  qed
  moreover have "reads op data"
    unfolding reads_def
  proof (intro conjI allI impI)
    fix c r y assume c: "c < ROW_WIDTH_PRIMARY" "r < COL_HEIGHT_SECONDARY" and "find_primary_symbol op c r = Inr y"
    then obtain sl sy where "sl \<in> set sls" "au_shard_index sl = c" "sy \<in> set (au_symbols sl)" "as_leaf_index sy = r" "y = as_bytes sy"
      by (auto simp: find_primary_symbol_def result_simps op_def dest!: find_SomeD)
    with mem have "y = cell L be c r" by (fastforce simp: sliver_opens_def)
    then show "y = padded_symbol data (walrus_symbol_size (length data)) c r"
      using cell_msg [OF b(1), of c r] b(3,4) msg_padded_symbol [OF be c] c by simp
  qed (simp add: op_def)
  ultimately show ?thesis using that [OF 1 2 _ 3 _ 4] by (simp add: op_def)
qed

section \<open>Every marked range can be read\<close>

definition wants :: "needed_symbols \<Rightarrow> (nat \<times> nat) set" where
  "wants needed = {(c, l). \<exists>ls. (c, ls) \<in> set needed \<and> l \<in> set ls}"

definition marks_ok :: "needed_symbols \<Rightarrow> bool" where
  "marks_ok needed \<longleftrightarrow> needed_ok needed \<and> sorted_wrt (<) (map fst needed)"

lemma need_symbol_keys: "set (map fst (need_symbol c l needed)) = insert c (set (map fst needed))"
  by (induction c l needed rule: need_symbol.induct) auto

lemma need_symbol_sorted: "sorted_wrt (<) (map fst needed) \<Longrightarrow> sorted_wrt (<) (map fst (need_symbol c l needed))"
proof (induction c l needed rule: need_symbol.induct)
  case (2 shard leaf s leaves needed)
  then show ?case using need_symbol_keys [of shard leaf needed] by (auto simp: less_imp_neq dest: order.strict_trans)
qed simp

lemma wants_simps [simp]: "wants [] = {}" "wants ((c, ls) # needed) = {c} \<times> set ls \<union> wants needed"
  by (auto simp: wants_def)

lemma need_symbol_wants: "wants (need_symbol c l needed) = insert (c, l) (wants needed)"
  by (induction c l needed rule: need_symbol.induct) (auto simp: set_insort_insert)

lemma need_symbol_ok:
  assumes "marks_ok needed" and "c < ROW_WIDTH_PRIMARY" and "l < COL_HEIGHT_SECONDARY"
  shows "marks_ok (need_symbol c l needed)"
proof -
  have s: "sorted_wrt (<) (map fst (need_symbol c l needed))" using assms(1) need_symbol_sorted by (simp add: marks_ok_def)
  then have "distinct (map fst (need_symbol c l needed))" by (simp add: strict_sorted_iff)
  moreover have "\<forall>(c, ls) \<in> set needed. c < ROW_WIDTH_PRIMARY \<and> ls \<noteq> [] \<and> distinct ls \<and> (\<forall>l \<in> set ls. l < COL_HEIGHT_SECONDARY)"
    using assms(1) by (simp add: marks_ok_def needed_ok_def)
  then have "\<forall>(c, ls) \<in> set (need_symbol c l needed). c < ROW_WIDTH_PRIMARY \<and> ls \<noteq> [] \<and> distinct ls \<and> (\<forall>l \<in> set ls. l < COL_HEIGHT_SECONDARY)"
    using assms(2,3)
    by (induction c l needed rule: need_symbol.induct) (auto simp: distinct_insort set_insort_key insort_insert_key_def)
  ultimately show ?thesis using s by (simp add: marks_ok_def needed_ok_def)
qed

text \<open>The symbols of a range of bytes.\<close>

definition covered :: "needed_symbols \<Rightarrow> nat \<Rightarrow> nat \<Rightarrow> nat \<Rightarrow> bool" where
  "covered needed s offset len \<longleftrightarrow> (\<forall>i. offset \<le> i \<and> i < offset + len \<longrightarrow>
     (i div s div COL_HEIGHT_SECONDARY, i div s mod COL_HEIGHT_SECONDARY) \<in> wants needed)"

lemma covered_mono: "covered needed s offset len \<Longrightarrow> wants needed \<subseteq> wants needed' \<Longrightarrow> covered needed' s offset len"
  by (auto simp: covered_def)

lemma need_symbols_ok:
  assumes "marks_ok needed" and "\<forall>flat \<in> set flats. flat < ROW_WIDTH_PRIMARY * COL_HEIGHT_SECONDARY"
  defines "needed' \<equiv> fold (\<lambda>flat. need_symbol (flat div COL_HEIGHT_SECONDARY mod 2 ^ 32) (flat mod COL_HEIGHT_SECONDARY mod 2 ^ 32)) flats needed"
  shows "marks_ok needed' \<and> wants needed' = wants needed \<union> (\<lambda>flat. (flat div COL_HEIGHT_SECONDARY, flat mod COL_HEIGHT_SECONDARY)) ` set flats"
  using assms(1,2) unfolding needed'_def
proof (induction flats arbitrary: needed)
  case (Cons flat flats)
  let ?c = "flat div COL_HEIGHT_SECONDARY" let ?l = "flat mod COL_HEIGHT_SECONDARY"
  have c: "?c < ROW_WIDTH_PRIMARY" "?l < COL_HEIGHT_SECONDARY" using Cons.prems(2)
    by (simp_all add: less_mult_imp_div_less COL_HEIGHT_SECONDARY_def)
  then have m: "?c mod 2 ^ 32 = ?c" "?l mod 2 ^ 32 = ?l" by (simp_all add: ROW_WIDTH_PRIMARY_def COL_HEIGHT_SECONDARY_def)
  from Cons.IH [OF need_symbol_ok [OF Cons.prems(1) c]] Cons.prems(2) show ?case
    unfolding fold_simps m o_apply need_symbol_wants by auto
qed simp

lemma covered_sub: "covered needed s offset len \<Longrightarrow> offset \<le> offset' \<Longrightarrow> offset' + len' \<le> offset + len \<Longrightarrow> covered needed s offset' len'"
  by (auto simp: covered_def)

lemma mark_range_Inr:
  assumes "mark_range needed offset len (walrus_symbol_size (length data)) = Inr needed'" and "marks_ok needed" and "offset + len \<le> length data"
  shows "marks_ok needed' \<and> wants needed \<subseteq> wants needed' \<and> covered needed' (walrus_symbol_size (length data)) offset len"
proof -
  let ?s = "walrus_symbol_size (length data)" let ?flats = "[offset div ?s..<(offset + len - 1) div ?s + 1]"
  from assms(1) have pos: "0 < offset + len"
    and n: "needed' = fold (\<lambda>flat. need_symbol (flat div COL_HEIGHT_SECONDARY mod 2 ^ 32) (flat mod COL_HEIGHT_SECONDARY mod 2 ^ 32)) ?flats needed"
    by (auto simp: mark_range_def Let_def split: if_splits simp del: upt_Suc)
  have s: "0 < ?s" "length data \<le> 334 * 667 * ?s" using walrus_symbol_size_least by auto
  have "offset + len - 1 < 334 * 667 * ?s" using assms(3) pos s(2) by linarith
  then have "(offset + len - 1) div ?s < ROW_WIDTH_PRIMARY * COL_HEIGHT_SECONDARY"
    using s(1) by (simp add: div_less_iff_less_mult ROW_WIDTH_PRIMARY_def COL_HEIGHT_SECONDARY_def)
  then have "\<forall>flat \<in> set ?flats. flat < ROW_WIDTH_PRIMARY * COL_HEIGHT_SECONDARY" by auto
  note ok = need_symbols_ok [OF assms(2) this]
  have "i div ?s \<in> set ?flats" if "offset \<le> i" "i < offset + len" for i
  proof -
    have "offset div ?s \<le> i div ?s" "i div ?s \<le> (offset + len - 1) div ?s" using that by (auto intro: div_le_mono)
    then show ?thesis by auto
  qed
  with ok show ?thesis unfolding n covered_def by (auto simp del: upt_Suc)
qed

definition opens :: "video_opening \<Rightarrow> bytes \<Rightarrow> needed_symbols \<Rightarrow> bool" where
  "opens op data needed \<longleftrightarrow> vo_unencoded_length op = length data \<and> length data < 2 ^ 64 \<and>
     (\<forall>(c, l) \<in> wants needed. find_primary_symbol op c l = Inr (padded_symbol data (walrus_symbol_size (length data)) c l))"

lemma read_symbols_covered:
  assumes "opens op data needed" and "covered needed s cursor (e - cursor)" and "s = walrus_symbol_size (length data)" and "e \<le> length data"
  shows "\<exists>res. read_symbols op s cursor e out = Inr res"
  using assms
proof (induction op s cursor e out rule: read_symbols.induct)
  case (1 op s cursor e out)
  show ?case
  proof (cases "cursor < e")
    case True
    let ?flat = "cursor div s" let ?c = "?flat div COL_HEIGHT_SECONDARY" let ?r = "?flat mod COL_HEIGHT_SECONDARY"
    let ?y = "padded_symbol data s ?c ?r" let ?n = "min (length ?y - cursor mod s) (e - cursor)"
    have s: "0 < s" "length data \<le> 334 * 667 * s" using walrus_symbol_size_least "1.prems"(3) by auto
    then have "cursor < 334 * 667 * s" using True "1.prems"(4) by linarith
    then have "?flat < 334 * 667" using s(1) by (simp add: div_less_iff_less_mult)
    then have m: "?c mod 2 ^ 32 = ?c" by (simp add: COL_HEIGHT_SECONDARY_def)
    have f: "find_primary_symbol op ?c ?r = Inr ?y"
      using "1.prems"(1-3) True by (auto simp: opens_def covered_def)
    have l: "length ?y = s" by (simp add: padded_symbol_def)
    have "cursor \<le> i \<and> i < cursor + (e - cursor)" if "cursor + ?n \<le> i" "i < cursor + ?n + (e - (cursor + ?n))" for i
      using that by linarith
    then have "covered needed s (cursor + ?n) (e - (cursor + ?n))"
      using "1.prems"(2) unfolding covered_def by blast
    then have "\<exists>res. read_symbols op s (cursor + ?n) e (out @ take ?n (drop (cursor mod s) ?y)) = Inr res"
      using "1.IH" [OF True _ refl _ _ refl refl, of ?y] f l m s(1) "1.prems"(1,3,4) by simp
    then show ?thesis using True s(1) f l m by (subst read_symbols.simps) (simp add: Let_def)
  qed (simp add: read_symbols.simps [of op s cursor e out])
qed

lemma read_covered:
  assumes "opens op data needed" and "reads op data" and "covered needed (walrus_symbol_size (length data)) offset len"
    and "offset + len \<le> length data"
  shows "read_origin_range op offset len = Inr (take len (drop offset data))"
proof -
  have "\<exists>res. read_symbols op (walrus_symbol_size (length data)) offset (offset + len) [] = Inr res"
    by (rule read_symbols_covered [OF assms(1) _ refl assms(4)]) (use assms(3) in simp)
  then obtain res where res: "read_origin_range op offset len = Inr res"
    using assms(1,4) by (auto simp: read_origin_range_def opens_def checked_add_def ensure_def)
  with read_origin_range_data [OF res assms(2)] show ?thesis by simp
qed

section \<open>The directory\<close>

text \<open>The boxes that the host lists, with their headers; the last box may not be of unstated size.\<close>

definition box_listed :: "bytes \<Rightarrow> top_level_box \<Rightarrow> bool" where
  "box_listed data b \<longleftrightarrow> tb_offset b + tb_size b \<le> length data \<and> tb_header_size b \<le> tb_size b"

definition box_sized :: "bytes \<Rightarrow> top_level_box \<Rightarrow> bool" where
  "box_sized data b \<longleftrightarrow> from_be_bytes (take 4 (drop (tb_offset b) data)) \<noteq> 0"

definition box_open :: "needed_symbols \<Rightarrow> nat \<Rightarrow> top_level_box \<Rightarrow> bool" where
  "box_open needed s b \<longleftrightarrow> covered needed s (tb_offset b) (tb_header_size b) \<and>
     (tb_kind b = fourcc ''moov'' \<longrightarrow> covered needed s (tb_offset b) (tb_size b))"

lemma parse_boxes_step:
  assumes "parse_boxes_from data offset = Inr boxes"
  shows "if offset < length data then
      \<exists>b bs h. boxes = b # bs \<and> tb_offset b = offset \<and> tb_header_size b = h \<and> tb_kind b = take 4 (drop (offset + 4) data) \<and>
        offset + h \<le> length data \<and> h \<le> tb_size b \<and> offset + tb_size b \<le> length data \<and>
        (let size32 = from_be_bytes (take 4 (drop offset data)) in
         if size32 = 1 then h = 16 \<and> tb_size b = from_be_bytes (take 8 (drop (offset + 8) data))
         else h = 8 \<and> (size32 \<noteq> 0 \<longrightarrow> tb_size b = size32)) \<and>
        parse_boxes_from data (offset + tb_size b) = Inr bs
    else boxes = []"
  using assms by (auto simp: parse_boxes_from.simps [of data offset] Let_def and_then_Inr_iff split: if_splits)

lemma listed_boxes: "parse_boxes_from data offset = Inr boxes \<Longrightarrow> b \<in> set boxes \<Longrightarrow> box_listed data b"
proof (induction boxes arbitrary: offset)
  case (Cons x xs)
  note step = parse_boxes_step [OF Cons.prems(1)]
  then have "box_listed data x" "parse_boxes_from data (offset + tb_size x) = Inr xs" by (auto simp: box_listed_def split: if_splits)
  with Cons.IH Cons.prems(2) show ?case by auto
qed simp

lemma moov_not_moof: "fourcc ''moov'' \<noteq> fourcc ''moof''"
  by (simp add: fourcc_def)

lemma walk_listed_step:
  assumes op: "opens op data needed" "reads op data"
    and b: "parse_boxes_from data c = Inr (b # bs)" and sized: "box_sized data b" and cov: "box_open needed (walrus_symbol_size (length data)) b"
    and fold: "box_fold find_moov m (drop c data) = Inr m'"
  obtains m1 where "walk_box op (c, m) b = Inr (c + tb_size b, m1)" and "box_fold find_moov m1 (drop (c + tb_size b) data) = Inr m'"
    and "parse_boxes_from data (c + tb_size b) = Inr bs"
proof -
  let ?h = "tb_header_size b" let ?n = "tb_size b" let ?rem = "drop c data" let ?s = "walrus_symbol_size (length data)"
  let ?size32 = "from_be_bytes (take 4 ?rem)" let ?box = "\<lparr> box_kind = tb_kind b, box_payload = take (?n - ?h) (drop ?h ?rem) \<rparr>"
  have c: "c < length data" using parse_boxes_step [OF b] by (auto split: if_splits)
  with parse_boxes_step [OF b] have off: "tb_offset b = c" and kind: "tb_kind b = take 4 (drop 4 ?rem)"
    and le: "c + ?h \<le> length data" "?h \<le> ?n" "c + ?n \<le> length data"
    and size: "if ?size32 = 1 then ?h = 16 \<and> ?n = from_be_bytes (take 8 (drop 8 ?rem)) else ?h = 8 \<and> (?size32 \<noteq> 0 \<longrightarrow> ?n = ?size32)"
    and rest: "parse_boxes_from data (c + ?n) = Inr bs"
    by (auto simp: Let_def add.commute)
  have "?size32 \<noteq> 0" using sized off by (simp add: box_sized_def)
  with size have h: "?size32 = 1 \<and> ?h = 16 \<and> ?n = from_be_bytes (take 8 (drop 8 ?rem)) \<or> ?size32 = ?n \<and> ?h = 8 \<and> ?size32 \<noteq> 1 \<and> ?size32 \<noteq> 0"
    by (auto split: if_splits)
  have hd: "read_origin_range op c ?h = Inr (take ?h ?rem)"
    using read_covered [OF op _ le(1)] cov off by (simp add: box_open_def)
  have mv: "read_origin_range op (c + ?h) (?n - ?h) = Inr (take (?n - ?h) (drop ?h ?rem))" if "tb_kind b = fourcc ''moov''"
  proof -
    have "covered needed ?s c ?n" using cov that off by (simp add: box_open_def)
    then have "covered needed ?s (c + ?h) (?n - ?h)" by (rule covered_sub) (use le(2) in auto)
    from read_covered [OF op this] show ?thesis using le by (simp add: add.commute)
  qed
  have decl: "declared_size b (take ?h ?rem) = Inr ?n" using h by (auto simp: declared_size_def drop_take min_def)
  have len: "8 \<le> length ?rem" "?h \<le> length ?rem" "?n \<le> length ?rem" using h le by auto
  have "next_box ?rem = Some (Inr ?box, drop ?n ?rem)"
    using h len le(2) kind c unfolding next_box_def by (auto simp: Let_def)
  then obtain m1 where m1: "find_moov m ?box = Inr m1" "box_fold find_moov m1 (drop (c + ?n) data) = Inr m'"
    using fold by (auto simp: box_fold.simps [of find_moov m ?rem] add.commute split: sum.splits)
  have "take 4 (drop 4 (take ?h ?rem)) = tb_kind b" using h kind by (auto simp: drop_take min_def)
  moreover have "c + ?n < 2 ^ 64" using op(1) le(3) by (simp add: opens_def)
  ultimately have "walk_box op (c, m) b = Inr (c + ?n, m1)"
    using off h le hd mv decl m1(1) moov_not_moof by (auto simp: walk_box_def ensure_def find_moov_def checked_add_def split: if_splits)
  with m1(2) rest that show ?thesis by blast
qed

lemma walk_listed:
  assumes op: "opens op data needed" "reads op data"
    and "parse_boxes_from data c = Inr boxes" and "c \<le> length data"
    and "\<forall>b \<in> set boxes. box_sized data b \<and> box_open needed (walrus_symbol_size (length data)) b"
    and "box_fold find_moov m (drop c data) = Inr m'"
  shows "try_fold (walk_box op) (c, m) boxes = Inr (length data, m')"
  using assms(3-)
proof (induction boxes arbitrary: c m)
  case Nil
  then have "c = length data" using parse_boxes_step [OF Nil.prems(1)] by (auto split: if_splits)
  with Nil.prems(4) show ?case by (simp add: box_fold.simps [of find_moov m "[]"] next_box_def)
next
  case (Cons b bs)
  then have "box_sized data b" "box_open needed (walrus_symbol_size (length data)) b" by simp_all
  with walk_listed_step [OF op Cons.prems(1) _ _ Cons.prems(4)] obtain m1 where
    step: "walk_box op (c, m) b = Inr (c + tb_size b, m1)" "box_fold find_moov m1 (drop (c + tb_size b) data) = Inr m'"
      "parse_boxes_from data (c + tb_size b) = Inr bs" by blast
  have "tb_offset b = c" "box_listed data b"
    using parse_boxes_step [OF Cons.prems(1)] listed_boxes [OF Cons.prems(1)] by (auto split: if_splits)
  then have "c + tb_size b \<le> length data" by (simp add: box_listed_def)
  with Cons.IH [OF step(3) _ _ step(2)] Cons.prems(3) step(1) show ?case by simp
qed

lemma authenticated_moov_listed:
  assumes "opens (vw_origin w) data needed" "reads (vw_origin w) data" and "parse_top_level_boxes data = Inr (vw_top_level_boxes w)"
    and "\<forall>b \<in> set (vw_top_level_boxes w). box_sized data b \<and> box_open needed (walrus_symbol_size (length data)) b"
    and "parse_mp4_video_track data = Inr track"
  obtains moov where "authenticated_moov w = Inr moov" and "parse_mp4_video_track_from_moov moov (vo_unencoded_length (vw_origin w)) = Inr track"
proof -
  from assms(5) obtain moov where moov: "box_fold find_moov None (drop 0 data) = Inr (Some moov)"
    "parse_mp4_video_track_from_moov moov (length data) = Inr track"
    by (auto simp: parse_mp4_video_track_def result_simps)
  have "try_fold (walk_box (vw_origin w)) (0, None) (vw_top_level_boxes w) = Inr (length data, Some moov)"
    by (rule walk_listed [OF assms(1,2) _ _ assms(4) moov(1)]) (use assms(3) in \<open>simp_all add: parse_top_level_boxes_def\<close>)
  moreover have "vo_unencoded_length (vw_origin w) = length data" using assms(2) by (simp add: reads_def)
  ultimately show ?thesis using that moov(2) by (simp add: authenticated_moov_def ensure_def)
qed

end
