(* ===== verification/Video_Accept.thy ===== *)
theory Video_Accept
  imports Video_Run
begin

text \<open>
  The run of the video sampling host and guest on an honest seller's file: the templates that the host
  cuts out of the preview files are filled again by the guest, and the committed digests are those of the
  preview files.
\<close>

section \<open>Templates\<close>

abbreviation sample_span :: "video_sample \<Rightarrow> nat \<times> nat" where
  "sample_span s \<equiv> (vs_byte_offset s, vs_byte_offset s + vs_byte_size s)"

text \<open>A preview with zeros for its sample bytes.\<close>

definition blanked :: "video_sample list \<Rightarrow> bytes \<Rightarrow> bytes" where
  "blanked samples preview = map (\<lambda>i. if list_ex (\<lambda>s. covers s i) samples then 0 else preview ! i) [0..<length preview]"

lemma place_one:
  assumes "cursor \<le> e" and "e \<le> length p" and "length p < 2 ^ 64" and "prev \<le> cursor" and "length acc = length p"
  obtains out prev' where "try_fold (place_segment (length p)) (acc, segs, prev)
      (if cursor < e then [\<lparr> seg_offset = cursor, seg_bytes = take (e - cursor) (drop cursor p) \<rparr>] else []) =
      Inr (out, segs @ (if cursor < e then [(cursor, e)] else []), prev')"
    and "prev' \<le> e" and "length out = length p" and "\<And>i. i < length p \<Longrightarrow> out ! i = (if cursor \<le> i \<and> i < e then p ! i else acc ! i)"
proof (cases "cursor < e")
  case True
  let ?seg = "take (e - cursor) (drop cursor p)" let ?out = "copy_into acc cursor ?seg"
  note f = copy_into_facts [of cursor ?seg acc]
  have "place_segment (length p) (acc, segs, prev) \<lparr> seg_offset = cursor, seg_bytes = ?seg \<rparr> = Inr (?out, segs @ [(cursor, e)], e)"
    using assms True by (simp add: place_segment_def ensure_def checked_add_def)
  then show ?thesis using True assms f by (intro that [of ?out e]) auto
next
  case False
  then show ?thesis using assms by (intro that [of acc prev]) auto
qed

lemma place_segments:
  assumes "sorted_wrt (\<lambda>a b. snd a \<le> fst b) rs" and "\<forall>r \<in> set rs. cursor \<le> fst r \<and> fst r \<le> snd r \<and> snd r \<le> length p"
    and "length p < 2 ^ 64" and "cursor \<le> length p" and "prev \<le> cursor" and "length acc = length p" and "\<forall>i. cursor \<le> i \<and> i < length p \<longrightarrow> acc ! i = 0"
  shows "\<exists>out e. try_fold (place_segment (length p)) (acc, segs, prev) (segments_from p cursor rs) =
      Inr (out, segs @ complement_from cursor rs (length p), e) \<and> length out = length p \<and>
    (\<forall>i < length p. out ! i = (if i < cursor then acc ! i else if \<exists>r \<in> set rs. fst r \<le> i \<and> i < snd r then 0 else p ! i))"
  using assms
proof (induction rs arbitrary: cursor acc segs prev)
  case Nil
  have t: "take (length p - cursor) (drop cursor p) = drop cursor p" by simp
  obtain out e where "try_fold (place_segment (length p)) (acc, segs, prev)
      (if cursor < length p then [\<lparr> seg_offset = cursor, seg_bytes = drop cursor p \<rparr>] else []) =
      Inr (out, segs @ (if cursor < length p then [(cursor, length p)] else []), e)" "length out = length p"
    "\<And>i. i < length p \<Longrightarrow> out ! i = (if cursor \<le> i \<and> i < length p then p ! i else acc ! i)"
    by (rule place_one [OF Nil.prems(4) order.refl Nil.prems(3,5,6), of segs, unfolded t]) blast
  then show ?case by auto
next
  case (Cons r rs)
  have r: "cursor \<le> fst r" "fst r \<le> snd r" "snd r \<le> length p" using Cons.prems(2) by auto
  have rest: "\<forall>q \<in> set rs. snd r \<le> fst q \<and> fst q \<le> snd q \<and> snd q \<le> length p" using Cons.prems(1,2) by auto
  let ?first = "if cursor < fst r then [(cursor, fst r)] else []"
  obtain acc' prev' where one: "try_fold (place_segment (length p)) (acc, segs, prev)
      (if cursor < fst r then [\<lparr> seg_offset = cursor, seg_bytes = take (fst r - cursor) (drop cursor p) \<rparr>] else []) = Inr (acc', segs @ ?first, prev')"
    "prev' \<le> fst r" "length acc' = length p" and acc': "\<And>i. i < length p \<Longrightarrow> acc' ! i = (if cursor \<le> i \<and> i < fst r then p ! i else acc ! i)"
    by (rule place_one [OF r(1) order.trans [OF r(2,3)] Cons.prems(3,5,6), of segs]) blast
  have z: "\<forall>i. snd r \<le> i \<and> i < length p \<longrightarrow> acc' ! i = 0" using acc' Cons.prems(7) r by auto
  have "sorted_wrt (\<lambda>a b. snd a \<le> fst b) rs" using Cons.prems(1) by simp
  from Cons.IH [OF this rest Cons.prems(3) r(3) order.trans [OF one(2) r(2)] one(3) z, of "segs @ ?first"] obtain out e where
    run: "try_fold (place_segment (length p)) (acc', segs @ ?first, prev') (segments_from p (snd r) rs) =
      Inr (out, (segs @ ?first) @ complement_from (snd r) rs (length p), e)"
    and out: "length out = length p"
      "\<And>i. i < length p \<Longrightarrow> out ! i = (if i < snd r then acc' ! i else if \<exists>q \<in> set rs. fst q \<le> i \<and> i < snd q then 0 else p ! i)"
    by blast
  have "out ! i = (if i < cursor then acc ! i else if \<exists>q \<in> set (r # rs). fst q \<le> i \<and> i < snd q then 0 else p ! i)"
    if i: "i < length p" for i
  proof (cases "i < snd r")
    case True
    have "\<not> (\<exists>q \<in> set rs. fst q \<le> i \<and> i < snd q)" using True rest by fastforce
    then show ?thesis using out(2) [OF i] acc' [OF i] Cons.prems(7) r True i by auto
  next
    case False
    then show ?thesis using out(2) [OF i] r by auto
  qed
  moreover have "try_fold (place_segment (length p)) (acc, segs, prev) (segments_from p cursor (r # rs)) =
      Inr (out, segs @ complement_from cursor (r # rs) (length p), e)"
    using one(1) run by (simp only: segments_from.simps try_fold_append and_then_simps complement_from.simps append_assoc)
  ultimately show ?case using out(1) by blast
qed

text \<open>The template that the host cuts out of a preview gives the guest the blanked preview.\<close>

lemma stripped_preview:
  assumes "strip_preview_samples p = Inr template" and "parse_mp4_video_track p = Inr track" and "length p < 2 ^ 64"
  obtains ranges e where "pv_file_len template = length p"
    and "try_fold (place_segment (length p)) (replicate (length p) 0, [], 0) (non_sample_segments template) =
      Inr (blanked (vt_samples track) p, complement_ranges ranges (length p), e)"
    and "sorted_sample_ranges (vt_samples track) (length p) = Inr ranges"
proof -
  let ?ss = "vt_samples track" let ?rs = "sort_ranges (map sample_span ?ss)"
  from assms(1,2) obtain rs0 where rs0: "try_map (\<lambda>s. and_then (ensure (vs_byte_offset s + vs_byte_size s \<le> length p) ''generated preview sample outside file'') (\<lambda>_.
      Inr (sample_span s))) ?ss = Inr rs0" and d0: "ranges_disjoint (sort_ranges rs0)"
    and tpl: "template = \<lparr> pv_file_len = length p, non_sample_segments = segments_from p 0 (sort_ranges rs0) \<rparr>"
    by (auto simp: strip_preview_samples_def result_simps Let_def)
  have fits: "\<forall>s \<in> set ?ss. vs_byte_offset s + vs_byte_size s \<le> length p"
    using try_map_mem [OF rs0] by (auto simp: result_simps)
  have "try_map (\<lambda>s. and_then (ensure (vs_byte_offset s + vs_byte_size s \<le> length p) ''generated preview sample outside file'') (\<lambda>_.
      Inr (sample_span s))) ?ss = Inr (map sample_span ?ss)"
    by (rule try_map_total) (use fits in \<open>simp add: ensure_def\<close>)
  with rs0 have r: "rs0 = map sample_span ?ss" by simp
  note d = d0 [unfolded r]
  have m: "mset ?rs = mset (map sample_span ?ss)" by (simp add: sort_ranges_def)
  have set: "set ?rs = sample_span ` set ?ss" using mset_eq_setD [OF m] by simp
  have s: "sorted_wrt (\<lambda>a b. snd a \<le> fst b) ?rs" by (rule ranges_disjoint_sorted [OF d]) (auto simp: set)
  have b: "\<forall>r \<in> set ?rs. 0 \<le> fst r \<and> fst r \<le> snd r \<and> snd r \<le> length p" using fits by (auto simp: set)
  obtain out e where run: "try_fold (place_segment (length p)) (replicate (length p) 0, [], 0) (segments_from p 0 ?rs) =
      Inr (out, complement_ranges ?rs (length p), e)" and len: "length out = length p"
    and out: "\<forall>i < length p. out ! i = (if \<exists>r \<in> set ?rs. fst r \<le> i \<and> i < snd r then 0 else p ! i)"
    using place_segments [OF s b assms(3), of 0 "replicate (length p) 0" "[]"] by (auto simp: complement_ranges_def)
  have "out = blanked ?ss p"
    using len out by (intro nth_equalityI) (auto simp: blanked_def set covers_def list_ex_iff)
  moreover have "try_map (sample_range (length p)) ?ss = Inr (map sample_span ?ss)"
    by (rule try_map_total) (use fits assms(3) in \<open>fastforce simp: sample_range_def checked_add_def ensure_def\<close>)
  then have "sorted_sample_ranges ?ss (length p) = Inr ?rs" using d by (simp add: sorted_sample_ranges_def ensure_def)
  ultimately show ?thesis using that run by (simp add: tpl r)
qed

text \<open>
  What the seller's tool promises of a preview: it parses also with its sample bytes blanked out, which the
  guest parses, and its samples are the source's.
\<close>

definition preview_fits :: "bytes \<Rightarrow> video_track \<Rightarrow> sample_plan \<Rightarrow> bytes \<Rightarrow> bool" where
  "preview_fits data track plan p \<longleftrightarrow> length p < 2 ^ 64 \<and>
     (\<exists>t selected. parse_mp4_video_track p = Inr t \<and> parse_mp4_video_track (blanked (vt_samples t) p) = Inr t \<and>
        vt_codec t = vt_codec track \<and> selected_samples (vt_samples track) plan = Inr selected \<and>
        list_all2 (shows_sample data p) (vt_samples t) selected)"

lemma filled_preview:
  assumes op: "opens op data needed" "reads op data" and len: "length pv = length p"
    and fits: "list_all2 (shows_sample data p) ps ss"
    and cov: "\<forall>s \<in> set ss. covered needed (walrus_symbol_size (length data)) (vs_byte_offset s) (vs_byte_size s)"
  shows "\<exists>out. try_fold (fill_sample op) pv (zip ps ss) = Inr out"
  using fits len cov
proof (induction arbitrary: pv rule: list_all2_induct)
  case (Cons a ps s ss)
  have a: "vs_byte_size a = vs_byte_size s" "vs_duration a = vs_duration s" "vs_is_sync a = vs_is_sync s"
    "vs_byte_offset a + vs_byte_size a \<le> length pv" "vs_byte_offset s + vs_byte_size s \<le> length data"
    using Cons.hyps(1) Cons.prems(1) by (auto simp: shows_sample_def)
  let ?src = "take (vs_byte_size s) (drop (vs_byte_offset s) data)"
  have "read_origin_range op (vs_byte_offset s) (vs_byte_size s) = Inr ?src"
    using read_covered [OF op _ a(5)] Cons.prems(2) by simp
  moreover have "length ?src = vs_byte_size a" using a by simp
  ultimately have "fill_sample op pv (a, s) = Inr (copy_into pv (vs_byte_offset a) ?src)" "length (copy_into pv (vs_byte_offset a) ?src) = length p"
    using a Cons.prems(1) copy_into_facts(1) [of "vs_byte_offset a" ?src pv] by (simp_all add: fill_sample_def ensure_def)
  with Cons.IH [of "copy_into pv (vs_byte_offset a) ?src"] Cons.prems(2) show ?case by simp
qed simp

lemma preview_restored:
  assumes op: "opens op data needed" "reads op data" and strip: "strip_preview_samples p = Inr template"
    and fits: "preview_fits data track plan p" and sel: "selected_samples (vt_samples track) plan = Inr selected"
    and cov: "\<forall>s \<in> set selected. covered needed (walrus_symbol_size (length data)) (vs_byte_offset s) (vs_byte_size s)"
  shows "materialize_preview template (vt_codec track) selected op = Inr p"
proof -
  from fits sel obtain t where t: "parse_mp4_video_track p = Inr t" "parse_mp4_video_track (blanked (vt_samples t) p) = Inr t"
    "vt_codec t = vt_codec track" "list_all2 (shows_sample data p) (vt_samples t) selected" and len: "length p < 2 ^ 64"
    by (auto simp: preview_fits_def)
  let ?ss = "vt_samples t" let ?sk = "blanked ?ss p"
  obtain ranges e where tpl: "pv_file_len template = length p"
    "try_fold (place_segment (length p)) (replicate (length p) 0, [], 0) (non_sample_segments template) = Inr (?sk, complement_ranges ranges (length p), e)"
    "sorted_sample_ranges ?ss (length p) = Inr ranges"
    by (rule stripped_preview [OF strip t(1) len])
  have l: "length ?sk = length p" "length ?ss = length selected" using t(4) by (simp_all add: blanked_def list_all2_lengthD)
  obtain out where out: "try_fold (fill_sample op) ?sk (zip ?ss selected) = Inr out"
    using filled_preview [OF op l(1) t(4) cov] by blast
  note f = fill_samples [OF out op(2) l(2) sample_ranges_apart [OF tpl(3)]]
  have "out = p"
  proof (rule nth_equalityI)
    show "length out = length p" using f l(1) by simp
    fix i assume i: "i < length out"
    show "out ! i = p ! i"
    proof (cases "\<exists>s \<in> set ?ss. covers s i")
      case False
      then show ?thesis using f i l(1) by (auto simp: blanked_def list_ex_iff)
    next
      case True
      then obtain k where k: "k < length ?ss" "covers (?ss ! k) i" by (auto simp: in_set_conv_nth)
      let ?s = "?ss ! k" let ?j = "i - vs_byte_offset ?s"
      have "shows_sample data out ?s (selected ! k)" "shows_sample data p ?s (selected ! k)"
        using f t(4) k(1) by (auto simp: list_all2_conv_all_nth)
      then have "take (vs_byte_size ?s) (drop (vs_byte_offset ?s) out) ! ?j = take (vs_byte_size ?s) (drop (vs_byte_offset ?s) p) ! ?j"
        unfolding shows_sample_def by metis
      moreover have "?j < vs_byte_size ?s" "vs_byte_offset ?s + ?j = i" using k(2) by (auto simp: covers_def)
      ultimately show ?thesis using i f l(1) by simp
    qed
  qed
  then show ?thesis using tpl out t(2,3) l by (simp add: materialize_preview_def Let_def ensure_def)
qed

section \<open>What the host marks\<close>

lemma marks_fold:
  assumes "try_fold f needed xs = Inr needed'" and "marks_ok needed"
    and step: "\<And>x n n'. x \<in> set xs \<Longrightarrow> marks_ok n \<Longrightarrow> f n x = Inr n' \<Longrightarrow> marks_ok n' \<and> wants n \<subseteq> wants n' \<and> P x n'"
    and mono: "\<And>x n n'. P x n \<Longrightarrow> wants n \<subseteq> wants n' \<Longrightarrow> P x n'"
  shows "marks_ok needed' \<and> wants needed \<subseteq> wants needed' \<and> (\<forall>x \<in> set xs. P x needed')"
  using assms(1-3)
proof (induction xs arbitrary: needed)
  case (Cons x xs)
  from Cons.prems(1) obtain n where n: "f needed x = Inr n" "try_fold f n xs = Inr needed'" by (auto simp: and_then_Inr_iff)
  have one: "marks_ok n \<and> wants needed \<subseteq> wants n \<and> P x n" by (rule Cons.prems(3) [OF _ Cons.prems(2) n(1)]) simp
  have "marks_ok needed' \<and> wants n \<subseteq> wants needed' \<and> (\<forall>x \<in> set xs. P x needed')"
    by (rule Cons.IH [OF n(2)]) (use one Cons.prems(3) in auto)
  with one mono [of x n needed'] show ?case by auto
qed simp

lemma mark_box_Inr:
  assumes "mark_box (walrus_symbol_size (length data)) n b = Inr n'" and "marks_ok n" and "box_listed data b"
  shows "marks_ok n' \<and> wants n \<subseteq> wants n' \<and> box_open n' (walrus_symbol_size (length data)) b"
proof -
  let ?s = "walrus_symbol_size (length data)"
  from assms(1) obtain n1 where n1: "mark_range n (tb_offset b) (tb_header_size b) ?s = Inr n1"
    and rest: "if tb_kind b = fourcc ''moov'' then mark_range n1 (tb_offset b) (tb_size b) ?s = Inr n' else n' = n1"
    by (auto simp: mark_box_def and_then_Inr_iff split: if_splits)
  have b: "tb_offset b + tb_header_size b \<le> length data" "tb_offset b + tb_size b \<le> length data"
    using assms(3) by (auto simp: box_listed_def)
  note a = mark_range_Inr [OF n1 assms(2) b(1)]
  show ?thesis
  proof (cases "tb_kind b = fourcc ''moov''")
    case True
    with rest have "mark_range n1 (tb_offset b) (tb_size b) ?s = Inr n'" by simp
    from mark_range_Inr [OF this _ b(2)] a show ?thesis by (auto simp: box_open_def intro: covered_mono)
  qed (use a rest in \<open>simp add: box_open_def\<close>)
qed

definition plan_open :: "bytes \<Rightarrow> video_track \<Rightarrow> sample_plan \<Rightarrow> needed_symbols \<Rightarrow> bool" where
  "plan_open data track plan needed \<longleftrightarrow> (\<exists>selected. selected_samples (vt_samples track) plan = Inr selected \<and>
     (\<forall>s \<in> set selected. covered needed (walrus_symbol_size (length data)) (vs_byte_offset s) (vs_byte_size s)))"

lemma selected_subset: "selected_samples samples plan = Inr selected \<Longrightarrow> set selected \<subseteq> set samples"
  by (auto simp: selected_samples_def Let_def split: if_splits)

lemma mark_plan_Inr:
  assumes "mark_plan (walrus_symbol_size (length data)) track n plan = Inr n'" and "marks_ok n"
    and "\<forall>s \<in> set (vt_samples track). vs_byte_offset s + vs_byte_size s \<le> length data"
  shows "marks_ok n' \<and> wants n \<subseteq> wants n' \<and> plan_open data track plan n'"
proof -
  let ?s = "walrus_symbol_size (length data)"
  from assms(1) obtain selected where sel: "selected_samples (vt_samples track) plan = Inr selected"
    and run: "try_fold (\<lambda>needed s. mark_range needed (vs_byte_offset s) (vs_byte_size s) ?s) n selected = Inr n'"
    by (auto simp: mark_plan_def and_then_Inr_iff)
  have "marks_ok n' \<and> wants n \<subseteq> wants n' \<and> (\<forall>s \<in> set selected. covered n' ?s (vs_byte_offset s) (vs_byte_size s))"
    by (rule marks_fold [OF run assms(2)]) (use selected_subset [OF sel] assms(3) in \<open>auto dest!: mark_range_Inr intro: covered_mono\<close>)
  with sel show ?thesis by (auto simp: plan_open_def)
qed

lemma samples_in_file:
  assumes "parse_mp4_video_track data = Inr track" and "s \<in> set (vt_samples track)"
  shows "vs_byte_offset s + vs_byte_size s \<le> length data"
proof -
  from assms(1) obtain moov where "parse_mp4_video_track_from_moov moov (length data) = Inr track"
    by (auto simp: parse_mp4_video_track_def result_simps)
  then have "check_sample_range (length data) s = Inr ()"
    using assms(2) by (auto simp: parse_mp4_video_track_from_moov_def result_simps try_all_Inr_iff split: prod.splits)
  then show ?thesis by (auto simp: check_sample_range_def result_simps checked_Some)
qed

lemma built_previews:
  assumes "build_previews ffmpeg plans = Inr previews" and "length plans = 3" and "\<forall>k < 3. bucket_index (plans ! k) = k"
  shows "length previews = 3 \<and> (\<forall>k < 3. strip_preview_samples (ffmpeg (plans ! k)) = Inr (previews ! k))"
proof -
  obtain p0 p1 p2 where p: "plans = [p0, p1, p2]" using assms(2) by (auto simp: numeral_3_eq_3 length_Suc_conv)
  have k: "k < 3 \<longleftrightarrow> k = 0 \<or> k = 1 \<or> k = (2 :: nat)" for k by auto
  have "bucket_index p0 = 0" "bucket_index p1 = 1" "bucket_index p2 = 2"
    using assms(3) unfolding p k by (simp_all add: conj_disj_distribL all_conj_distrib)
  then show ?thesis using assms(1) unfolding p k build_previews_def
    by (auto simp: result_simps numeral_3_eq_3)
qed

section \<open>The run\<close>

definition cid_tail :: "bytes \<Rightarrow> bytes" where
  "cid_tail cid = drop (length cid - 32) cid"

lemma digests_committed:
  assumes "length plans = 3" and "\<forall>k < 3. bucket_index (plans ! k) = k" and "length (vw_previews w) = 3"
    and "\<forall>plan \<in> set plans. \<exists>selected. selected_samples (vt_samples track) plan = Inr selected \<and>
      materialize_preview (vw_previews w ! bucket_index plan) (vt_codec track) selected (vw_origin w) = Inr (ffmpeg plan)"
    and "\<forall>plan \<in> set plans. compute_ipfs_cid_zk_optimized CL sha256 (ffmpeg plan) = Inr (cid plan) \<and> 32 \<le> length (cid plan)"
  shows "try_fold (preview_digest CL sha256 w track) (replicate 3 (replicate 32 0)) plans = Inr (map (\<lambda>plan. cid_tail (cid plan)) plans)"
proof -
  obtain p0 p1 p2 where p: "plans = [p0, p1, p2]" using assms(1) by (auto simp: numeral_3_eq_3 length_Suc_conv)
  have k: "k < 3 \<longleftrightarrow> k = 0 \<or> k = 1 \<or> k = (2 :: nat)" for k by auto
  have b: "bucket_index p0 = 0" "bucket_index p1 = 1" "bucket_index p2 = 2"
    using assms(2) unfolding p k by (simp_all add: conj_disj_distribL all_conj_distrib)
  have "preview_digest CL sha256 w track digests plan = Inr (digests[bucket_index plan := cid_tail (cid plan)])"
    if "plan \<in> set plans" "length digests = 3" "bucket_index plan < 3" for plan digests
  proof -
    have "compute_ipfs_cid_zk_optimized CL sha256 (ffmpeg plan) = Inr (cid plan)" "\<not> length (cid plan) < 32" using assms(5) that(1) by auto
    with assms(4) that assms(3) show ?thesis by (auto simp: preview_digest_def cid_tail_def)
  qed
  then show ?thesis unfolding p by (simp add: b numeral_3_eq_3)
qed

text \<open>The parts of a run of the host.\<close>

lemma host_steps:
  assumes "video_witness_main blake3 H L ffmpeg mp4 sale = Some (Inr w)"
    and "parse_mp4_video_track mp4 = Inr track" and "sampling_spec_hash blake3 5000 = Inr spec"
  obtains slivers md n1 n2 plans where "parse_top_level_boxes mp4 = Inr (vw_top_level_boxes w)"
    and "config_encode_with_metadata H L walrus_1000 mp4 = Inr (slivers, md)"
    and "plan_three_samples blake3 track (derive_sampling_seed blake3 \<lparr> ss_chain_id = sc_chain_id sale, ss_sale_contract = sc_sale_contract sale,
      ss_sale_id = sc_sale_id sale, ss_origin_blob_id = blob_id md, ss_spec_hash = spec,
      ss_external_randomness = sc_external_randomness sale \<rparr>) 5000 = Some (Inr plans)"
    and "build_previews ffmpeg plans = Inr (vw_previews w)"
    and "try_fold (mark_box (walrus_symbol_size (length mp4))) [] (vw_top_level_boxes w) = Inr n1"
    and "try_fold (mark_plan (walrus_symbol_size (length mp4)) track) n1 plans = Inr n2"
    and "build_opening_from_slivers H L slivers md walrus_1000 n2 = Inr (vw_origin w)"
  using assms
  by (auto simp: video_witness_main_def Let_def sampling_then_Inr_iff map_err_Inr_iff PREVIEW_DURATION_MS_def config_1000 split: prod.splits)

lemma host_run:
  assumes run: "video_witness_main blake3 H L ffmpeg mp4 sale = Some (Inr w)" and L: "rs_enc_ready L walrus_1000" and H: "digest32 H"
    and track: "parse_mp4_video_track mp4 = Inr track" and spec: "sampling_spec_hash blake3 5000 = Inr spec"
  obtains be needed plans where "blob_encoder_new walrus_1000 mp4 = Inr be" and "vo_blob_id (vw_origin w) = blob_id (expanded_metadata H L be)"
    and "verify_walrus_video_opening H (vw_origin w) = Inr ()" and "video_opening_typed (vw_origin w)"
    and "set (video_queries H L be (vw_origin w)) \<subseteq> set (id_queries H (metadata (expanded_metadata H L be))) \<union>
      (\<Union>c < 1000. set (build_queries H (matrix_line L be c)))"
    and "opens (vw_origin w) mp4 needed" and "reads (vw_origin w) mp4"
    and "parse_top_level_boxes mp4 = Inr (vw_top_level_boxes w)"
    and "\<forall>b \<in> set (vw_top_level_boxes w). box_open needed (walrus_symbol_size (length mp4)) b"
    and "plan_three_samples blake3 track (derive_sampling_seed blake3 (video_seed_input w sale spec)) 5000 = Some (Inr plans)"
    and "\<forall>plan \<in> set plans. plan_open mp4 track plan needed" and "build_previews ffmpeg plans = Inr (vw_previews w)"
proof -
  let ?s = "walrus_symbol_size (length mp4)"
  obtain slivers md n1 n2 plans where boxes: "parse_top_level_boxes mp4 = Inr (vw_top_level_boxes w)"
    and enc: "config_encode_with_metadata H L walrus_1000 mp4 = Inr (slivers, md)"
    and plans: "plan_three_samples blake3 track (derive_sampling_seed blake3 \<lparr> ss_chain_id = sc_chain_id sale, ss_sale_contract = sc_sale_contract sale,
      ss_sale_id = sc_sale_id sale, ss_origin_blob_id = blob_id md, ss_spec_hash = spec,
      ss_external_randomness = sc_external_randomness sale \<rparr>) 5000 = Some (Inr plans)"
    and pvs: "build_previews ffmpeg plans = Inr (vw_previews w)"
    and n1: "try_fold (mark_box ?s) [] (vw_top_level_boxes w) = Inr n1" and n2: "try_fold (mark_plan ?s track) n1 plans = Inr n2"
    and op: "build_opening_from_slivers H L slivers md walrus_1000 n2 = Inr (vw_origin w)"
    by (rule host_steps [OF run track spec])
  obtain be where be: "blob_encoder_new walrus_1000 mp4 = Inr be" using enc by (auto simp: config_encode_with_metadata_def and_then_Inr_iff)
  have e: "slivers = encoded_pairs L be" "md = expanded_metadata H L be"
    using encode_with_metadata_ok [OF blob_encoder_new_ok(1) [OF L be], of H] enc be by (simp_all add: config_encode_with_metadata_def)
  note b = be_1000_new [OF L be]
  have listed: "box_listed mp4 x" if "x \<in> set (vw_top_level_boxes w)" for x
    using listed_boxes [of mp4 0] boxes that by (simp add: parse_top_level_boxes_def)
  have empty: "marks_ok []" by (simp add: marks_ok_def needed_ok_def)
  have "marks_ok n1 \<and> wants [] \<subseteq> wants n1 \<and> (\<forall>x \<in> set (vw_top_level_boxes w). box_open n1 ?s x)"
    by (rule marks_fold [OF n1 _ mark_box_Inr]) (auto simp: empty box_open_def listed intro: covered_mono)
  then have m1: "marks_ok n1" "\<forall>x \<in> set (vw_top_level_boxes w). box_open n1 ?s x" by simp_all
  have fit: "\<forall>s \<in> set (vt_samples track). vs_byte_offset s + vs_byte_size s \<le> length mp4" using samples_in_file [OF track] by blast
  have "marks_ok n2 \<and> wants n1 \<subseteq> wants n2 \<and> (\<forall>plan \<in> set plans. plan_open mp4 track plan n2)"
    by (rule marks_fold [OF n2 m1(1) mark_plan_Inr [OF _ _ fit]]) (auto simp: plan_open_def intro: covered_mono)
  then have m2: "needed_ok n2" "wants n1 \<subseteq> wants n2" "\<forall>plan \<in> set plans. plan_open mp4 track plan n2" by (simp_all add: marks_ok_def)
  have bo: "\<forall>x \<in> set (vw_top_level_boxes w). box_open n2 ?s x" using m1(2) m2(2) by (auto simp: box_open_def intro: covered_mono)
  obtain op' where o: "build_opening_from_slivers H L (encoded_pairs L be) (expanded_metadata H L be) walrus_1000 n2 = Inr op'"
    "verify_walrus_video_opening H op' = Inr ()" "vo_blob_id op' = blob_id (expanded_metadata H L be)" "video_opening_typed op'"
    "vo_unencoded_length op' = length mp4"
    "set (video_queries H L be op') \<subseteq> set (id_queries H (metadata (expanded_metadata H L be))) \<union> (\<Union>c < 1000. set (build_queries H (matrix_line L be c)))"
    "\<And>c ls l. (c, ls) \<in> set n2 \<Longrightarrow> l \<in> set ls \<Longrightarrow> find_primary_symbol op' c l = Inr (padded_symbol mp4 ?s c l)" "reads op' mp4"
    by (rule video_opening_built [OF H b m2(1)]) blast
  have w: "op' = vw_origin w" using o(1) op e by simp
  have "opens op' mp4 n2" using o(4,5,7) by (auto simp: opens_def video_opening_typed_def wants_def)
  with that [OF be _ _ _ _ _ _ boxes bo _ m2(3) pvs] o plans e(2) show ?thesis by (simp add: w video_seed_input_def)
qed

text \<open>The host returns a witness.\<close>

lemma try_fold_returns:
  assumes "P s" and "\<And>x s. x \<in> set xs \<Longrightarrow> P s \<Longrightarrow> \<exists>s'. f s x = Inr s' \<and> P s'"
  shows "\<exists>t. try_fold f s xs = Inr t \<and> P t"
  using assms
proof (induction xs arbitrary: s)
  case (Cons x xs)
  from Cons.prems(2) [OF _ Cons.prems(1), of x] obtain s' where "f s x = Inr s'" "P s'" by auto
  with Cons.IH [of s'] Cons.prems(2) show ?case by auto
qed simp

lemma mark_range_returns:
  assumes "marks_ok n" and "offset + len \<le> length data" and "length data < 2 ^ 64" and "0 < offset + len"
  shows "\<exists>n'. mark_range n offset len (walrus_symbol_size (length data)) = Inr n' \<and> marks_ok n'"
proof -
  have "0 < walrus_symbol_size (length data)" using walrus_symbol_size_least by blast
  then obtain n' where "mark_range n offset len (walrus_symbol_size (length data)) = Inr n'"
    using assms(2-4) by (auto simp: mark_range_def Let_def)
  with mark_range_Inr [OF this assms(1,2)] show ?thesis by blast
qed

lemma mark_box_returns:
  assumes "marks_ok n" and "box_listed data b" and "length data < 2 ^ 64" and "0 < tb_header_size b"
  shows "\<exists>n'. mark_box (walrus_symbol_size (length data)) n b = Inr n' \<and> marks_ok n'"
proof -
  have b: "tb_offset b + tb_header_size b \<le> length data" "tb_offset b + tb_size b \<le> length data" "0 < tb_size b"
    using assms(2,4) by (auto simp: box_listed_def)
  obtain n1 where n1: "mark_range n (tb_offset b) (tb_header_size b) (walrus_symbol_size (length data)) = Inr n1" "marks_ok n1"
    using mark_range_returns [OF assms(1) b(1) assms(3)] assms(4) by auto
  with mark_range_returns [OF n1(2) b(2) assms(3)] b(3) show ?thesis by (auto simp: mark_box_def)
qed

lemma mark_plan_returns:
  assumes "marks_ok n" and "length data < 2 ^ 64" and "parse_mp4_video_track data = Inr track"
    and "selected_samples (vt_samples track) plan = Inr selected" and "\<forall>s \<in> set selected. 0 < vs_byte_offset s + vs_byte_size s"
  shows "\<exists>n'. mark_plan (walrus_symbol_size (length data)) track n plan = Inr n' \<and> marks_ok n'"
proof -
  have "\<exists>n'. try_fold (\<lambda>needed s. mark_range needed (vs_byte_offset s) (vs_byte_size s) (walrus_symbol_size (length data))) n selected = Inr n' \<and> marks_ok n'"
  proof (rule try_fold_returns [of marks_ok, OF assms(1)])
    fix s n assume s: "s \<in> set selected" and n: "marks_ok n"
    have "s \<in> set (vt_samples track)" using selected_subset [OF assms(4)] s by (rule subsetD)
    from mark_range_returns [OF n samples_in_file [OF assms(3) this] assms(2) bspec [OF assms(5) s]]
    show "\<exists>n'. mark_range n (vs_byte_offset s) (vs_byte_size s) (walrus_symbol_size (length data)) = Inr n' \<and> marks_ok n'" .
  qed
  then show ?thesis using assms(4) by (simp add: mark_plan_def)
qed

lemma listed_headers: "parse_boxes_from data offset = Inr boxes \<Longrightarrow> b \<in> set boxes \<Longrightarrow> 0 < tb_header_size b"
proof (induction boxes arbitrary: offset)
  case (Cons x xs)
  note step = parse_boxes_step [OF Cons.prems(1)]
  then have "0 < tb_header_size x" "parse_boxes_from data (offset + tb_size x) = Inr xs" by (auto simp: Let_def split: if_splits)
  with Cons.IH Cons.prems(2) show ?case by auto
qed simp

lemma host_returns:
  assumes L: "rs_enc_ready L walrus_1000" and H: "digest32 H" and be: "blob_encoder_new walrus_1000 mp4 = Inr be"
    and track: "parse_mp4_video_track mp4 = Inr track" and boxes: "parse_top_level_boxes mp4 = Inr boxes"
    and spec: "sampling_spec_hash blake3 5000 = Inr spec"
    and plans: "plan_three_samples blake3 track (derive_sampling_seed blake3 \<lparr> ss_chain_id = sc_chain_id sale, ss_sale_contract = sc_sale_contract sale,
      ss_sale_id = sc_sale_id sale, ss_origin_blob_id = blob_id (expanded_metadata H L be), ss_spec_hash = spec,
      ss_external_randomness = sc_external_randomness sale \<rparr>) 5000 = Some (Inr plans)"
    and pvs: "build_previews ffmpeg plans = Inr previews"
    and sel: "\<forall>plan \<in> set plans. \<exists>selected. selected_samples (vt_samples track) plan = Inr selected \<and>
      (\<forall>s \<in> set selected. 0 < vs_byte_offset s + vs_byte_size s)"
  shows "\<exists>w. video_witness_main blake3 H L ffmpeg mp4 sale = Some (Inr w) \<and> vw_top_level_boxes w = boxes"
proof -
  note b = be_1000_new [OF L be]
  let ?s = "walrus_symbol_size (length mp4)"
  have enc: "config_encode_with_metadata H L walrus_1000 mp4 = Inr (encoded_pairs L be, expanded_metadata H L be)"
    using encode_with_metadata_ok [OF blob_encoder_new_ok(1) [OF L be], of H] be by (simp add: config_encode_with_metadata_def)
  have empty: "marks_ok []" by (simp add: marks_ok_def needed_ok_def)
  obtain op where "video_opening_typed op" "vo_unencoded_length op = length mp4"
    by (rule video_opening_built [OF H b, of "[]"]) (use empty in \<open>simp_all add: marks_ok_def\<close>)
  then have len: "length mp4 < 2 ^ 64" by (simp add: video_opening_typed_def)
  have pb: "parse_boxes_from mp4 0 = Inr boxes" using boxes by (simp add: parse_top_level_boxes_def)
  obtain n1 where n1: "try_fold (mark_box ?s) [] boxes = Inr n1" "marks_ok n1"
    using try_fold_returns [of marks_ok, OF empty, of boxes "mark_box ?s"] mark_box_returns [OF _ listed_boxes [OF pb] len listed_headers [OF pb]] by blast
  obtain n2 where n2: "try_fold (mark_plan ?s track) n1 plans = Inr n2" "marks_ok n2"
    using try_fold_returns [of marks_ok, OF n1(2), of plans "mark_plan ?s track"] mark_plan_returns [OF _ len track] sel by blast
  then have "needed_ok n2" by (simp add: marks_ok_def)
  obtain op where op: "build_opening_from_slivers H L (encoded_pairs L be) (expanded_metadata H L be) walrus_1000 n2 = Inr op"
    by (rule video_opening_built [OF H b \<open>needed_ok n2\<close>])
  show ?thesis
    using track boxes enc spec plans pvs n1(1) n2(1) op
    by (simp add: video_witness_main_def sampling_then_def Let_def PREVIEW_DURATION_MS_def config_1000)
qed

lemma host_run_accepted:
  assumes "video_witness_main blake3 H L ffmpeg mp4 sale = Some (Inr w)" and "rs_enc_ready L walrus_1000" and "digest32 H"
    and "parse_mp4_video_track mp4 = Inr track" and "sampling_spec_hash blake3 5000 = Inr spec"
    and "plan_three_samples blake3 track (derive_sampling_seed blake3 (video_seed_input w sale spec)) 5000 = Some (Inr plans)"
    and "\<forall>b \<in> set (vw_top_level_boxes w). box_sized mp4 b" and "\<forall>plan \<in> set plans. preview_fits mp4 track plan (ffmpeg plan)"
    and "\<forall>plan \<in> set plans. compute_ipfs_cid_zk_optimized CL sha256 (ffmpeg plan) = Inr (cid plan) \<and> 32 \<le> length (cid plan)"
  shows "\<exists>id. compute_blob_id_default H L mp4 = Inr id \<and>
    video_main blake3 sha256 H CL w sale = Some (Inr \<lparr> origin_blob_id = id, spec_hash = spec,
      sampling_seed = derive_sampling_seed blake3 (video_seed_input w sale spec),
      preview_cid_digests = map (\<lambda>plan. cid_tail (cid plan)) plans \<rparr>)"
proof -
  let ?seed = "derive_sampling_seed blake3 (video_seed_input w sale spec)"
  obtain be needed plans' where be: "blob_encoder_new walrus_1000 mp4 = Inr be" "vo_blob_id (vw_origin w) = blob_id (expanded_metadata H L be)"
    and v: "verify_walrus_video_opening H (vw_origin w) = Inr ()" and op: "opens (vw_origin w) mp4 needed" "reads (vw_origin w) mp4"
    and boxes: "parse_top_level_boxes mp4 = Inr (vw_top_level_boxes w)"
      "\<forall>b \<in> set (vw_top_level_boxes w). box_open needed (walrus_symbol_size (length mp4)) b"
    and plans': "plan_three_samples blake3 track ?seed 5000 = Some (Inr plans')"
    and po: "\<forall>plan \<in> set plans'. plan_open mp4 track plan needed" and pv: "build_previews ffmpeg plans' = Inr (vw_previews w)"
    by (rule host_run [OF assms(1-5)])
  have p: "plans' = plans" using plans' assms(6) by simp
  have id: "compute_blob_id_default H L mp4 = Inr (vo_blob_id (vw_origin w))"
    using be by (simp add: compute_blob_id_default_eq [OF assms(2)])
  obtain moov where moov: "authenticated_moov w = Inr moov" "parse_mp4_video_track_from_moov moov (vo_unencoded_length (vw_origin w)) = Inr track"
    using authenticated_moov_listed [OF op boxes(1) _ assms(4)] boxes(2) assms(7) by blast
  have shape: "length plans = 3" "\<forall>k < 3. bucket_index (plans ! k) = k" using plans_shape [OF assms(6)] by simp_all
  note pvs = built_previews [OF pv [unfolded p] shape]
  have "\<exists>selected. selected_samples (vt_samples track) plan = Inr selected \<and>
      materialize_preview (vw_previews w ! bucket_index plan) (vt_codec track) selected (vw_origin w) = Inr (ffmpeg plan)"
    if plan: "plan \<in> set plans" for plan
  proof -
    obtain selected where sel: "selected_samples (vt_samples track) plan = Inr selected"
      "\<forall>s \<in> set selected. covered needed (walrus_symbol_size (length mp4)) (vs_byte_offset s) (vs_byte_size s)"
      using po plan p by (auto simp: plan_open_def)
    obtain k where "k < 3" "plan = plans ! k" using plan shape(1) by (auto simp: in_set_conv_nth)
    then have "strip_preview_samples (ffmpeg plan) = Inr (vw_previews w ! bucket_index plan)" using pvs shape(2) by simp
    from preview_restored [OF op this _ sel] assms(8) plan sel(1) show ?thesis by blast
  qed
  then have "try_fold (preview_digest CL sha256 w track) (replicate 3 (replicate 32 0)) plans = Inr (map (\<lambda>plan. cid_tail (cid plan)) plans)"
    using pvs by (intro digests_committed [OF shape _ _ assms(9)]) auto
  then have "video_main blake3 sha256 H CL w sale = Some (Inr \<lparr> origin_blob_id = vo_blob_id (vw_origin w), spec_hash = spec,
      sampling_seed = ?seed, preview_cid_digests = map (\<lambda>plan. cid_tail (cid plan)) plans \<rparr>)"
    using v moov assms(5,6) by (simp add: video_main_def sampling_then_def Let_def PREVIEW_DURATION_MS_def)
  with id show ?thesis by blast
qed

section \<open>Properties\<close>

text \<open>
  C6: An honest seller's run goes through. Let the host's client return a witness for a file, no top-level box
  leave its size unstated, and let each preview file that the external tool wrote carry the codec and the planned
  samples of the source and keep its index when its sample bytes are blanked out. Then the guest accepts the
  witness, its origin is the identifier of the file, and the committed digests are the tails of the
  identifiers of exactly these preview files.
\<close>

theorem video_run_accepted:
  assumes "video_witness_main blake3 H L ffmpeg mp4 sale = Some (Inr w)" and "rs_enc_ready L walrus_1000" and "digest32 H"
    and "parse_mp4_video_track mp4 = Inr track" and "sampling_spec_hash blake3 5000 = Inr spec"
    and "plan_three_samples blake3 track (derive_sampling_seed blake3 (video_seed_input w sale spec)) 5000 = Some (Inr plans)"
    and "\<forall>b \<in> set (vw_top_level_boxes w). box_sized mp4 b" and "\<forall>plan \<in> set plans. preview_fits mp4 track plan (ffmpeg plan)"
    and "\<forall>plan \<in> set plans. compute_ipfs_cid_zk_optimized CL sha256 (ffmpeg plan) = Inr (cid plan) \<and> 32 \<le> length (cid plan)"
  shows "\<exists>id. compute_blob_id_default H L mp4 = Inr id \<and>
    video_main blake3 sha256 H CL w sale = Some (Inr \<lparr> origin_blob_id = id, spec_hash = spec,
      sampling_seed = derive_sampling_seed blake3 (video_seed_input w sale spec),
      preview_cid_digests = map (\<lambda>plan. cid_tail (cid plan)) plans \<rparr>)"
  using host_run_accepted [OF assms] .

end
