(* ===== verification/Table_Hash.thy ===== *)
theory Table_Hash
  imports Vdd_Host
begin

text \<open>
  For every blob there is a hash function without collisions on the inputs that its encoding hashes, so the
  hypotheses of the binding theorems can hold. Each hashed input is named by a term that does not mention
  digests, the digest of a term is its place in the list of all terms of the blob, and the function looks
  up the input in this table.
\<close>

section \<open>Terms for hashed inputs\<close>

datatype hash_term =
    Leaf_of bytes
  | Node_of hash_term "hash_term option"
  | Pair_of hash_term hash_term
  | Id_of bytes hash_term

definition term_code :: "hash_term list \<Rightarrow> hash_term \<Rightarrow> bytes" where
  "term_code ts t = to_le_bytes 32 (Suc (length (takeWhile (\<lambda>u. u \<noteq> t) ts)))"

definition option_code :: "hash_term list \<Rightarrow> hash_term option \<Rightarrow> bytes" where
  "option_code ts x = (case x of None \<Rightarrow> replicate 32 0 | Some t \<Rightarrow> term_code ts t)"

fun term_query :: "hash_term list \<Rightarrow> hash_term \<Rightarrow> bytes" where
  "term_query ts (Leaf_of x) = 0 # x"
| "term_query ts (Node_of a b) = 1 # term_code ts a @ option_code ts b"
| "term_query ts (Pair_of a b) = 0 # term_code ts a @ term_code ts b"
| "term_query ts (Id_of p a) = p @ term_code ts a"

definition table_hash :: "hash_term list \<Rightarrow> bytes \<Rightarrow> bytes" where
  "table_hash ts q = (case find (\<lambda>t. term_query ts t = q) ts of Some t \<Rightarrow> term_code ts t | None \<Rightarrow> replicate 32 255)"

text \<open>Symbols of one size, not that of a pair of digests; prefixes of identifiers; and every part is in the list.\<close>

fun term_ok :: "nat \<Rightarrow> hash_term list \<Rightarrow> hash_term \<Rightarrow> bool" where
  "term_ok s ts (Leaf_of x) \<longleftrightarrow> length x = s"
| "term_ok s ts (Node_of a b) \<longleftrightarrow> a \<in> set ts \<and> (case b of None \<Rightarrow> True | Some t \<Rightarrow> t \<in> set ts)"
| "term_ok s ts (Pair_of a b) \<longleftrightarrow> a \<in> set ts \<and> b \<in> set ts"
| "term_ok s ts (Id_of p a) \<longleftrightarrow> length p = 9 \<and> hd p = 1 \<and> a \<in> set ts"

definition table_ok :: "nat \<Rightarrow> hash_term list \<Rightarrow> bool" where
  "table_ok s ts \<longleftrightarrow> s \<noteq> 64 \<and> length ts < 2 ^ 255 \<and> (\<forall>t \<in> set ts. term_ok s ts t)"

lemma length_term_code [simp]: "length (term_code ts t) = 32"
  by (simp add: term_code_def)

lemma length_option_code [simp]: "length (option_code ts x) = 32"
  by (simp add: option_code_def split: option.splits)

lemma table_hash_32: "digest32 (table_hash ts)"
  by (simp add: digest32_def table_hash_def split: option.splits)

lemma position_less: "t \<in> set ts \<Longrightarrow> length (takeWhile (\<lambda>u. u \<noteq> t) ts) < length ts \<and> ts ! length (takeWhile (\<lambda>u. u \<noteq> t) ts) = t"
  by (induction ts) auto

lemma term_code_facts:
  assumes "table_ok s ts" and "t \<in> set ts"
  shows "term_code ts t \<noteq> replicate 32 0" and "u \<in> set ts \<Longrightarrow> term_code ts t = term_code ts u \<Longrightarrow> t = u"
proof -
  let ?pos = "\<lambda>t. length (takeWhile (\<lambda>u. u \<noteq> t) ts)"
  have big: "(2 :: nat) ^ 255 < 256 ^ 32" by simp
  have small: "Suc (?pos t) < 256 ^ 32" if "t \<in> set ts" for t
  proof -
    have "?pos t < length ts" "length ts < 2 ^ 255" using position_less [OF that] assms(1) unfolding table_ok_def by blast+
    then have "Suc (?pos t) < 2 ^ 255" by (rule le_less_trans [OF Suc_leI])
    then show ?thesis using big by (rule less_trans)
  qed
  have z: "replicate w 0 = to_le_bytes w 0" for w by (induction w) simp_all
  have "(0 :: nat) < 256 ^ 32" by (rule zero_less_power) simp
  then show "term_code ts t \<noteq> replicate 32 0"
    unfolding term_code_def z using to_le_bytes_inj [of 32 "Suc (?pos t)" 0] small [OF assms(2)] by blast
  assume u: "u \<in> set ts" "term_code ts t = term_code ts u"
  have "Suc (?pos t) = Suc (?pos u)"
    by (rule to_le_bytes_inj [OF u(2) [unfolded term_code_def] small [OF assms(2)] small [OF u(1)]])
  then show "t = u" using position_less [OF assms(2)] position_less [OF u(1)] by (metis Suc_inject)
qed

lemma query_shape:
  "term_ok s ts t \<Longrightarrow> (length (term_query ts t), hd (term_query ts t)) =
     (case t of Leaf_of _ \<Rightarrow> (s + 1, 0) | Node_of _ _ \<Rightarrow> (65, 1) | Pair_of _ _ \<Rightarrow> (65, 0) | Id_of _ _ \<Rightarrow> (41, 1))"
  by (cases t) (auto simp: hd_append)

lemma term_query_inj:
  assumes "table_ok s ts" and "t \<in> set ts" and "u \<in> set ts" and "term_query ts t = term_query ts u"
  shows "t = u"
proof -
  have code: "a = b" if "a \<in> set ts" "b \<in> set ts" "term_code ts a = term_code ts b" for a b
    using term_code_facts(2) [OF assms(1) that(1,2,3)] .
  have ocode: "x = y" if "option_code ts x = option_code ts y" "\<forall>a \<in> set_option x. a \<in> set ts" "\<forall>a \<in> set_option y. a \<in> set ts" for x y
    using that code term_code_facts(1) [OF assms(1)] by (fastforce simp: option_code_def split: option.splits)
  have ok: "term_ok s ts t" "term_ok s ts u" "s \<noteq> 64" using assms(1-3) by (auto simp: table_ok_def)
  have kind: "(case t of Leaf_of _ \<Rightarrow> (s + 1, 0) | Node_of _ _ \<Rightarrow> (65, 1) | Pair_of _ _ \<Rightarrow> (65, 0) | Id_of _ _ \<Rightarrow> (41, 1 :: byte)) =
      (case u of Leaf_of _ \<Rightarrow> (s + 1, 0) | Node_of _ _ \<Rightarrow> (65, 1) | Pair_of _ _ \<Rightarrow> (65, 0) | Id_of _ _ \<Rightarrow> (41, 1))"
    using query_shape [OF ok(1)] query_shape [OF ok(2)] unfolding assms(4) by (rule trans [OF sym])
  show ?thesis
  proof (cases t; cases u)
    fix a b c d assume t: "t = Node_of a b" "u = Node_of c d"
    then have "term_code ts a = term_code ts c" "option_code ts b = option_code ts d" using assms(4) by simp_all
    then show "t = u" using t ok code ocode by (auto split: option.splits)
  next
    fix a b c d assume t: "t = Pair_of a b" "u = Pair_of c d"
    then have "term_code ts a = term_code ts c" "term_code ts b = term_code ts d" using assms(4) by simp_all
    then show "t = u" using t ok code by simp
  next
    fix p a q b assume t: "t = Id_of p a" "u = Id_of q b"
    then have "p = q" "term_code ts a = term_code ts b" using assms(4) ok by simp_all
    then show "t = u" using t ok code by simp
  qed (use assms(4) kind ok(3) in simp_all)
qed

lemma table_hash_query:
  assumes "table_ok s ts" and "t \<in> set ts"
  shows "table_hash ts (term_query ts t) = term_code ts t"
proof -
  have "find (\<lambda>u. term_query ts u = term_query ts t) ts \<noteq> None" using assms(2) by (auto simp: find_None_iff)
  then obtain u where u: "find (\<lambda>u. term_query ts u = term_query ts t) ts = Some u" by blast
  then have "u \<in> set ts" "term_query ts u = term_query ts t" by (auto simp: find_Some_iff)
  then have "u = t" using term_query_inj [OF assms(1)] assms(2) by blast
  with u show ?thesis by (simp add: table_hash_def)
qed

lemma table_hash_collision_free:
  assumes "table_ok s ts" shows "collision_free (table_hash ts) (map (term_query ts) ts)"
  using table_hash_query [OF assms] term_code_facts [OF assms]
  by (auto simp: collision_free_def inj_on_def)

section \<open>Trees of terms\<close>

definition term_parents :: "hash_term list \<Rightarrow> hash_term list" where
  "term_parents xs = map (\<lambda>k. Node_of (xs ! (2 * k)) (if 2 * k + 1 < length xs then Some (xs ! (2 * k + 1)) else None)) [0..<(length xs + 1) div 2]"

function tree_terms :: "hash_term list \<Rightarrow> hash_term list" where
  "tree_terms xs = (if 1 < length xs then term_parents xs @ tree_terms (term_parents xs) else [])"
  by pat_completeness auto
termination
  by (relation "measure length") (auto simp: term_parents_def)

function tree_root :: "hash_term list \<Rightarrow> hash_term" where
  "tree_root xs = (if 1 < length xs then tree_root (term_parents xs) else hd xs)"
  by pat_completeness auto
termination
  by (relation "measure length") (auto simp: term_parents_def)

declare tree_terms.simps [simp del] tree_root.simps [simp del]

lemma length_term_parents [simp]: "length (term_parents xs) = (length xs + 1) div 2"
  by (simp add: term_parents_def)

lemma term_parents_ne: "1 < length xs \<Longrightarrow> term_parents xs \<noteq> []"
proof -
  assume "1 < length xs"
  then have "0 < length (term_parents xs)" by simp
  then show "term_parents xs \<noteq> []" unfolding length_greater_0_conv .
qed

lemma length_tree_terms: "length (tree_terms xs) \<le> length xs * length xs"
proof (induction xs rule: tree_terms.induct)
  case (1 xs)
  show ?case
  proof (cases "1 < length xs")
    case True
    define n where "n = (length xs + 1) div 2"
    have "2 * n \<le> length xs + 1" "1 < length xs" using True by (auto simp: n_def)
    then have "n + n * n \<le> length xs * length xs"
    proof -
      have "n + 1 \<le> length xs" "n \<le> length xs" using \<open>2 * n \<le> length xs + 1\<close> True by linarith+
      then have "n * (n + 1) \<le> length xs * length xs" by (intro mult_le_mono)
      then show ?thesis by (simp add: algebra_simps)
    qed
    then show ?thesis using "1.IH" [OF True] True by (simp add: tree_terms.simps [of xs] n_def)
  qed (simp add: tree_terms.simps [of xs])
qed

lemma tree_root_in: "xs \<noteq> [] \<Longrightarrow> tree_root xs \<in> set xs \<union> set (tree_terms xs)"
proof (induction xs rule: tree_root.induct)
  case (1 xs)
  show ?case
  proof (cases "1 < length xs")
    case True
    from "1.IH" [OF True term_parents_ne [OF True]] True show ?thesis by (auto simp: tree_root.simps [of xs] tree_terms.simps [of xs])
  next
    case False
    then show ?thesis using "1.prems" by (simp add: tree_root.simps [of xs])
  qed
qed

lemma tree_terms_ok:
  "set xs \<subseteq> set ts \<Longrightarrow> set (tree_terms xs) \<subseteq> set ts \<Longrightarrow> t \<in> set (tree_terms xs) \<Longrightarrow> term_ok s ts t"
proof (induction xs rule: tree_terms.induct)
  case (1 xs)
  then have len: "1 < length xs" by (auto simp: tree_terms.simps [of xs] split: if_splits)
  show ?case
  proof (cases "t \<in> set (term_parents xs)")
    case True
    then obtain k where "k < (length xs + 1) div 2" "t = Node_of (xs ! (2 * k)) (if 2 * k + 1 < length xs then Some (xs ! (2 * k + 1)) else None)"
      by (auto simp: term_parents_def)
    moreover from this have "2 * k < length xs" by linarith
    ultimately show ?thesis using "1.prems"(1) by (auto intro: subsetD nth_mem)
  next
    case False
    then show ?thesis using "1.IH" [OF len] "1.prems" len by (auto simp: tree_terms.simps [of xs])
  qed
qed

abbreviation term_node :: "hash_term list \<Rightarrow> hash_term \<Rightarrow> node" where
  "term_node ts t \<equiv> Digest (term_code ts t)"

lemma term_parents_nodes:
  assumes "table_ok s ts" and "set (term_parents xs) \<subseteq> set ts"
  shows "parents (table_hash ts) (pad (map (term_node ts) xs)) = map (term_node ts) (term_parents xs)"
    and "map (\<lambda>k. inner_query (pad (map (term_node ts) xs) ! (2 * k)) (pad (map (term_node ts) xs) ! (2 * k + 1)))
      [0..<length (pad (map (term_node ts) xs)) div 2] = map (term_query ts) (term_parents xs)"
proof -
  let ?ys = "map (term_node ts) xs" let ?n = "(length xs + 1) div 2"
  have l: "length (pad ?ys) div 2 = ?n" by (simp add: length_pad)
  have q: "inner_query (pad ?ys ! (2 * k)) (pad ?ys ! (2 * k + 1)) = term_query ts (term_parents xs ! k)" if k: "k < ?n" for k
  proof -
    have "2 * k < length xs" using k by linarith
    moreover have "\<not> 2 * k + 1 < length xs \<Longrightarrow> 2 * k + 1 = length xs" using k by linarith
    ultimately show ?thesis using k
      by (cases "2 * k + 1 < length xs") (auto simp: term_parents_def nth_pad inner_query_def option_code_def pad_def nth_append)
  qed
  show "map (\<lambda>k. inner_query (pad ?ys ! (2 * k)) (pad ?ys ! (2 * k + 1))) [0..<length (pad ?ys) div 2] = map (term_query ts) (term_parents xs)"
    unfolding l using q by (intro nth_equalityI) simp_all
  show "parents (table_hash ts) (pad ?ys) = map (term_node ts) (term_parents xs)"
  proof (rule nth_equalityI)
    fix k assume "k < length (parents (table_hash ts) (pad ?ys))"
    then have k: "k < ?n" by simp
    have "term_parents xs ! k \<in> set (term_parents xs)" by (rule nth_mem) (use k in simp)
    then have "term_parents xs ! k \<in> set ts" using assms(2) by blast
    from table_hash_query [OF assms(1) this] q [OF k] k
    show "parents (table_hash ts) (pad ?ys) ! k = map (term_node ts) (term_parents xs) ! k"
      by (simp add: parents_nth l inner_hash_query)
  qed simp
qed

lemma tree_of_terms:
  assumes "table_ok s ts" and "set (tree_terms xs) \<subseteq> set ts" and "xs \<noteq> []"
  shows "tree_queries (table_hash ts) (map (term_node ts) xs) = map (term_query ts) (tree_terms xs) \<and>
    root_of (table_hash ts) (map (term_node ts) xs) = term_node ts (tree_root xs)"
  using assms(2,3)
proof (induction xs rule: tree_terms.induct)
  case (1 xs)
  show ?case
  proof (cases "1 < length xs")
    case True
    then have sub: "set (term_parents xs) \<subseteq> set ts" "set (tree_terms (term_parents xs)) \<subseteq> set ts"
      using "1.prems"(1) by (auto simp: tree_terms.simps [of xs])
    note ih = "1.IH" [OF True sub(2) term_parents_ne [OF True]] and p = term_parents_nodes [OF assms(1) sub(1)]
    have len: "length (map (term_node ts) xs) > 1" using True by simp
    have "tree_queries (table_hash ts) (map (term_node ts) xs) = map (term_query ts) (term_parents xs) @ map (term_query ts) (tree_terms (term_parents xs))"
      using ih by (subst tree_queries.simps) (simp only: len if_True p)
    moreover have "root_of (table_hash ts) (map (term_node ts) xs) = term_node ts (tree_root (term_parents xs))"
      using ih by (subst root_of.simps) (simp only: len if_True p)
    ultimately show ?thesis using True by (simp add: tree_terms.simps [of xs] tree_root.simps [of xs])
  next
    case False
    then obtain x where "xs = [x]" using "1.prems"(2) by (cases xs) auto
    then show ?thesis by (simp add: tree_queries.simps root_of.simps tree_terms.simps tree_root.simps)
  qed
qed

lemma build_of_terms:
  assumes "table_ok s ts" and "set lt \<subseteq> set ts" and "set (tree_terms lt) \<subseteq> set ts" and "lt \<noteq> []"
    and "map (term_query ts) lt = map ((#) 0) leaves"
  shows "build_queries (table_hash ts) leaves = map (term_query ts) (lt @ tree_terms lt)"
    and "root (build (table_hash ts) leaves) = term_node ts (tree_root lt)"
proof -
  have "map (leaf_hash (table_hash ts)) leaves = map (\<lambda>q. Digest (table_hash ts q)) (map ((#) 0) leaves)" by (simp add: leaf_hash_def)
  also have "\<dots> = map (term_node ts) lt" unfolding assms(5) [symmetric] using assms(2) table_hash_query [OF assms(1)] by auto
  finally have l: "map (leaf_hash (table_hash ts)) leaves = map (term_node ts) lt" .
  note t = tree_of_terms [OF assms(1,3,4)]
  show "build_queries (table_hash ts) leaves = map (term_query ts) (lt @ tree_terms lt)"
    using t assms(5) by (simp add: build_queries_def l)
  show "root (build (table_hash ts) leaves) = term_node ts (tree_root lt)"
    using t by (simp add: build_def root_build_from_leaf_hashes l)
qed

section \<open>The terms of a blob\<close>

definition row_terms :: "rs_lib \<Rightarrow> blob_encoder \<Rightarrow> nat \<Rightarrow> hash_term list" where
  "row_terms L be i = map (\<lambda>j. Leaf_of (cell L be i j)) [0..<n_of be]"

definition column_terms :: "rs_lib \<Rightarrow> blob_encoder \<Rightarrow> nat \<Rightarrow> hash_term list" where
  "column_terms L be i = map (\<lambda>r. Leaf_of (cell L be r (n_of be - 1 - i))) [0..<n_of be]"

definition pair_terms :: "rs_lib \<Rightarrow> blob_encoder \<Rightarrow> hash_term list" where
  "pair_terms L be = map (\<lambda>i. Pair_of (tree_root (row_terms L be i)) (tree_root (column_terms L be i))) [0..<n_of be]"

definition line_terms :: "hash_term list \<Rightarrow> hash_term list" where
  "line_terms xs = xs @ tree_terms xs"

definition id_prefix :: "blob_encoder \<Rightarrow> bytes" where
  "id_prefix be = 1 # to_le_bytes 8 (length (be_blob be))"

definition blob_terms :: "rs_lib \<Rightarrow> blob_encoder \<Rightarrow> hash_term list" where
  "blob_terms L be = concat (map (\<lambda>i. line_terms (row_terms L be i)) [0..<n_of be]) @
     concat (map (\<lambda>i. line_terms (column_terms L be i)) [0..<n_of be]) @ line_terms (pair_terms L be) @
     [Id_of (id_prefix be) (tree_root (pair_terms L be))]"

lemma length_line_terms: "length (line_terms xs) \<le> length xs + length xs * length xs"
  using length_tree_terms [of xs] by (simp add: line_terms_def)

lemma length_concat_le: "\<forall>x \<in> set xs. length (f x) \<le> M \<Longrightarrow> length (concat (map f xs)) \<le> length xs * M"
  by (induction xs) auto

lemma length_blob_terms: "n_of be = 1000 \<Longrightarrow> length (blob_terms L be) < 2 ^ 255"
proof -
  assume n: "n_of be = 1000"
  have l: "length (line_terms xs) \<le> 1001000" if "length xs = 1000" for xs using length_line_terms [of xs] that by simp
  have "length (concat (map (\<lambda>i. line_terms (row_terms L be i)) [0..<1000])) \<le> length [0..<1000] * 1001000"
    "length (concat (map (\<lambda>i. line_terms (column_terms L be i)) [0..<1000])) \<le> length [0..<1000] * 1001000"
    by (rule length_concat_le, simp add: l row_terms_def column_terms_def n del: upt_rec_numeral)+
  moreover have "length (line_terms (pair_terms L be)) \<le> 1001000" by (rule l) (simp add: pair_terms_def n)
  ultimately have "length (blob_terms L be) \<le> 3000000000" by (simp add: blob_terms_def n del: upt_rec_numeral)
  also have "\<dots> < 2 ^ 255" by simp
  finally show ?thesis .
qed

lemma line_terms_in:
  assumes "n_of be = 1000" and "i < 1000"
  shows "set (line_terms (row_terms L be i)) \<subseteq> set (blob_terms L be)" "set (line_terms (column_terms L be i)) \<subseteq> set (blob_terms L be)"
    "set (line_terms (pair_terms L be)) \<subseteq> set (blob_terms L be)"
  using assms by (auto simp: blob_terms_def)

lemma line_ne: "n_of be = 1000 \<Longrightarrow> row_terms L be i \<noteq> [] \<and> column_terms L be i \<noteq> [] \<and> pair_terms L be \<noteq> []"
  by (simp add: row_terms_def column_terms_def pair_terms_def)

lemma tree_root_line: "xs \<noteq> [] \<Longrightarrow> set (line_terms xs) \<subseteq> set ts \<Longrightarrow> tree_root xs \<in> set ts"
  using tree_root_in [of xs] by (auto simp: line_terms_def)

lemma line_terms_ok:
  assumes "set (line_terms xs) \<subseteq> set ts" and "\<forall>t \<in> set xs. term_ok s ts t"
  shows "\<forall>t \<in> set (line_terms xs). term_ok s ts t"
  using assms tree_terms_ok [of xs ts] by (auto simp: line_terms_def)

lemma blob_table_ok:
  assumes be: "be_1000 L data be" and s: "walrus_symbol_size (length data) \<noteq> 64"
  shows "table_ok (be_symbol_size be) (blob_terms L be)"
proof -
  note b = be_1000D [OF be]
  let ?ts = "blob_terms L be" let ?ok = "\<lambda>xs. \<forall>t \<in> set xs. term_ok (be_symbol_size be) ?ts t"
  note sub = line_terms_in [OF b(2)] and ne = line_ne [OF b(2)]
  have root: "tree_root (row_terms L be i) \<in> set ?ts" "tree_root (column_terms L be i) \<in> set ?ts" if "i < 1000" for i
    using tree_root_line sub(1,2) [OF that] ne by blast+
  have "?ok (line_terms (row_terms L be i))" "?ok (line_terms (column_terms L be i))" if i: "i < 1000" for i
    using i length_cell [OF b(1)] b(2)
    by (intro line_terms_ok sub(1,2) [OF i]; auto simp: row_terms_def column_terms_def)+
  moreover have "?ok (line_terms (pair_terms L be))"
    by (intro line_terms_ok sub(3) [of 0]) (use root b(2) in \<open>auto simp: pair_terms_def\<close>)
  moreover have "tree_root (pair_terms L be) \<in> set ?ts" using tree_root_line sub(3) [of 0] ne by simp
  ultimately have "?ok ?ts" unfolding blob_terms_def [of L be] b(2)
    by (auto simp: id_prefix_def simp del: upt_rec_numeral)
  then show ?thesis using length_blob_terms [OF b(2)] s b(6) by (simp add: table_ok_def)
qed

text \<open>
  The hash function of a blob: every input that encoding hashes, for the rows and for the identifier, is the
  query of a term in the table.
\<close>

lemma blob_hash_collision_free:
  assumes be: "be_1000 L data be" and s: "walrus_symbol_size (length data) \<noteq> 64"
  defines "H \<equiv> table_hash (blob_terms L be)"
  shows "set (id_queries H (metadata (expanded_metadata H L be))) \<union> (\<Union>c < 1000. set (build_queries H (matrix_line L be c))) \<subseteq>
      set (map (term_query (blob_terms L be)) (blob_terms L be))"
    and "collision_free H (map (term_query (blob_terms L be)) (blob_terms L be))"
proof -
  note b = be_1000D [OF be] and ok = blob_table_ok [OF be s]
  let ?ts = "blob_terms L be" let ?md = "metadata (expanded_metadata H L be)"
  show "collision_free H (map (term_query ?ts) ?ts)" unfolding H_def by (rule table_hash_collision_free [OF ok])
  note ne = line_ne [OF b(2)]
  have line: "build_queries H leaves = map (term_query ?ts) (line_terms xs)" "root (build H leaves) = term_node ?ts (tree_root xs)"
    if "set (line_terms xs) \<subseteq> set ?ts" "xs \<noteq> []" "map (term_query ?ts) xs = map ((#) 0) leaves" for xs leaves
    using build_of_terms [OF ok _ _ that(2,3)] that(1) by (simp_all add: H_def line_terms_def)
  have row: "build_queries H (matrix_line L be i) = map (term_query ?ts) (line_terms (row_terms L be i))"
    "root (build H (map (cell L be i) [0..<1000])) = term_node ?ts (tree_root (row_terms L be i))"
    "root (build H (map (\<lambda>r. cell L be r (999 - i)) [0..<1000])) = term_node ?ts (tree_root (column_terms L be i))" if "i < 1000" for i
    using that line line_terms_in [OF b(2) that] ne
    by (simp_all add: matrix_line_def row_terms_def column_terms_def b(2) comp_def del: upt_rec_numeral)
  have leaves: "map (term_query ?ts) (pair_terms L be) = map ((#) 0) (map pair_leaf_input (hashes ?md))"
    using row(2,3) by (simp add: pair_terms_def expanded_metadata_simps expanded_hashes_def pair_leaf_input_def b(2) del: upt_rec_numeral)
  note pairs = line [OF line_terms_in(3) [OF b(2), of 0] _ leaves]
  let ?Q = "set (map (term_query ?ts) ?ts)"
  have in_Q: "set (map (term_query ?ts) (line_terms xs)) \<subseteq> ?Q" if "set (line_terms xs) \<subseteq> set ?ts" for xs
    using image_mono [OF that, of "term_query ?ts"] by simp
  have "id_query H ?md = term_query ?ts (Id_of (id_prefix be) (tree_root (pair_terms L be)))"
    using pairs(2) ne by (simp add: id_query_def compute_root_hash_def id_prefix_def expanded_metadata_simps(2)
        expanded_metadata_def new_verified_from_metadata_def Let_def)
  moreover have "Id_of (id_prefix be) (tree_root (pair_terms L be)) \<in> set ?ts" by (simp add: blob_terms_def)
  ultimately have "id_query H ?md \<in> ?Q" unfolding set_map by (metis imageI)
  moreover have "set (build_queries H (map pair_leaf_input (hashes ?md))) \<subseteq> ?Q"
    using pairs(1) ne in_Q [OF line_terms_in(3) [OF b(2), of 0]] by simp
  moreover have "set (build_queries H (matrix_line L be c)) \<subseteq> ?Q" if "c < 1000" for c
    unfolding row(1) [OF that] by (rule in_Q [OF line_terms_in(1) [OF b(2) that]])
  ultimately show "set (id_queries H ?md) \<union> (\<Union>c < 1000. set (build_queries H (matrix_line L be c))) \<subseteq> ?Q"
    unfolding id_queries_def by (simp del: set_map) blast
qed

end
