(* ===== verification/Video_Example.thy ===== *)
theory Video_Example
  imports Video_Accept Table_Hash Vdd_Example
begin

text \<open>
  A concrete run of the video sampling host and guest: a file of three samples, each of five seconds and
  one byte, its three previews of one sample each, and the hash function of \<open>Table_Hash\<close> for the blob. It
  shows that the theorems on the parser, the host and the guest apply.
\<close>

section \<open>The file\<close>

definition iso :: "string \<Rightarrow> bytes \<Rightarrow> iso_box" where
  "iso k p = \<lparr> box_kind = fourcc k, box_payload = p \<rparr>"

definition boxes :: "iso_box list \<Rightarrow> bytes" where
  "boxes bs = concat (map mp4_box bs)"

text \<open>The tables of a track of \<open>n\<close> samples of one byte that follow one another from offset 212.\<close>

definition clip_tables :: "byte \<Rightarrow> iso_box list" where
  "clip_tables n = [iso ''stsd'' ([0, 0, 0, 0, 0, 0, 0, 1, 0, 0, 0, 8] @ fourcc ''avc1''),
     iso ''stts'' [0, 0, 0, 0, 0, 0, 0, 1, 0, 0, 0, n, 0, 0, 19, 136],
     iso ''stsz'' [0, 0, 0, 0, 0, 0, 0, 1, 0, 0, 0, n],
     iso ''stsc'' [0, 0, 0, 0, 0, 0, 0, 1, 0, 0, 0, 1, 0, 0, 0, n, 0, 0, 0, 1],
     iso ''stco'' [0, 0, 0, 0, 0, 0, 0, 1, 0, 0, 0, 212]]"

definition clip_media :: "byte \<Rightarrow> iso_box list" where
  "clip_media n = [iso ''hdlr'' ([0, 0, 0, 0, 0, 0, 0, 0] @ fourcc ''vide''),
     iso ''mdhd'' ([0, 0, 0, 0, 0, 0, 0, 0, 0, 0, 0, 0, 0, 0, 3, 232, 0, 0, 58, 152]),
     iso ''minf'' (boxes [iso ''stbl'' (boxes (clip_tables n))])]"

definition clip_moov :: "byte \<Rightarrow> bytes" where
  "clip_moov n = boxes [iso ''trak'' (boxes [iso ''mdia'' (boxes (clip_media n))])]"

definition clip :: "byte \<Rightarrow> bytes \<Rightarrow> bytes" where
  "clip n body = boxes [iso ''moov'' (clip_moov n), iso ''mdat'' body]"

definition clip_sample :: "nat \<Rightarrow> video_sample" where
  "clip_sample i = \<lparr> vs_index = i, vs_decode_time = 5000 * i, vs_presentation_time = int (5000 * i), vs_duration = 5000,
     vs_byte_offset = 212 + i, vs_byte_size = 1, vs_is_sync = True \<rparr>"

definition clip_track :: "nat \<Rightarrow> video_track" where
  "clip_track n = \<lparr> vt_timescale = 1000, vt_media_duration = 15000, vt_presentation_start = 0, vt_presentation_end = int (5000 * n),
     vt_codec = fourcc ''avc1'', vt_samples = map clip_sample [0..<n] \<rparr>"

lemma iso_simps [simp]: "box_kind (iso k p) = fourcc k" "box_payload (iso k p) = p"
  by (simp_all add: iso_def)

lemma length_fourcc [simp]: "length (fourcc k) = length k"
  by (simp add: fourcc_def)

lemma length_boxes [simp]: "length (boxes []) = 0" "length (boxes (iso k p # bs)) = 4 + length k + length p + length (boxes bs)"
  by (simp_all add: boxes_def mp4_box_def)

lemma box_fits_iso [simp]: "box_fits (iso k p) \<longleftrightarrow> length k = 4 \<and> length p + 8 < 2 ^ 32"
  by (simp add: box_fits_def)

lemma box_fold_boxes: "\<forall>b \<in> set bs. box_fits b \<Longrightarrow> box_fold f s (boxes bs) = try_fold f s bs"
  unfolding boxes_def by (rule box_fold_mp4_boxes)

lemma clip_lengths [simp]: "length (boxes (clip_tables n)) = 116" "length (boxes (clip_media n)) = 180" "length (clip_moov n) = 196"
  "length (clip n body) = 212 + length body"
proof -
  show t: "length (boxes (clip_tables n)) = 116" by (simp add: clip_tables_def)
  show m: "length (boxes (clip_media n)) = 180" by (simp add: clip_media_def t)
  show "length (clip_moov n) = 196" by (simp add: clip_moov_def m)
  then show "length (clip n body) = 212 + length body" by (simp add: clip_def)
qed

lemma clip_fits: "\<forall>b \<in> set (clip_tables n). box_fits b" "\<forall>b \<in> set (clip_media n). box_fits b"
  by (simp_all add: clip_tables_def clip_media_def)

lemma clip_tables_find:
  "find_child (boxes (clip_tables n)) (fourcc ''stsd'') = Inr (Some ([0, 0, 0, 0, 0, 0, 0, 1, 0, 0, 0, 8] @ fourcc ''avc1''))"
  "find_child (boxes (clip_tables n)) (fourcc ''stts'') = Inr (Some [0, 0, 0, 0, 0, 0, 0, 1, 0, 0, 0, n, 0, 0, 19, 136])"
  "find_child (boxes (clip_tables n)) (fourcc ''ctts'') = Inr None"
  "find_child (boxes (clip_tables n)) (fourcc ''stss'') = Inr None"
  "find_child (boxes (clip_tables n)) (fourcc ''stsz'') = Inr (Some [0, 0, 0, 0, 0, 0, 0, 1, 0, 0, 0, n])"
  "find_child (boxes (clip_tables n)) (fourcc ''stsc'') = Inr (Some [0, 0, 0, 0, 0, 0, 0, 1, 0, 0, 0, 1, 0, 0, 0, n, 0, 0, 0, 1])"
  "find_child (boxes (clip_tables n)) (fourcc ''stco'') = Inr (Some [0, 0, 0, 0, 0, 0, 0, 1, 0, 0, 0, 212])"
  unfolding find_child_def box_fold_boxes [OF clip_fits(1)] by (simp_all add: clip_tables_def fourcc_def)

lemma clip_media_find:
  "find_child (boxes (clip_media n)) (fourcc ''hdlr'') = Inr (Some ([0, 0, 0, 0, 0, 0, 0, 0] @ fourcc ''vide''))"
  "find_child (boxes (clip_media n)) (fourcc ''mdhd'') = Inr (Some ([0, 0, 0, 0, 0, 0, 0, 0, 0, 0, 0, 0, 0, 0, 3, 232, 0, 0, 58, 152]))"
  "find_child (boxes (clip_media n)) (fourcc ''minf'') = Inr (Some (boxes [iso ''stbl'' (boxes (clip_tables n))]))"
  unfolding find_child_def box_fold_boxes [OF clip_fits(2)] by (simp_all add: clip_media_def fourcc_def)

definition clip_track_tables :: "byte \<Rightarrow> track_tables" where
  "clip_track_tables n = \<lparr> tt_timescale = 1000, tt_media_duration = 15000, tt_edit_media_time = 0,
     tt_stsd = [0, 0, 0, 0, 0, 0, 0, 1, 0, 0, 0, 8] @ fourcc ''avc1'', tt_stts = [0, 0, 0, 0, 0, 0, 0, 1, 0, 0, 0, n, 0, 0, 19, 136],
     tt_ctts = None, tt_stss = None, tt_stsz = [0, 0, 0, 0, 0, 0, 0, 1, 0, 0, 0, n],
     tt_stsc = [0, 0, 0, 0, 0, 0, 0, 1, 0, 0, 0, 1, 0, 0, 0, n, 0, 0, 0, 1],
     tt_chunk_offsets = [0, 0, 0, 0, 0, 0, 0, 1, 0, 0, 0, 212], tt_chunk_offsets_are_64_bit = False \<rparr>"

lemma single_find:
  assumes "length k = 4" and "length p + 8 < 2 ^ 32"
  shows "find_child (boxes [iso k p]) kind = Inr (if fourcc k = kind then Some p else None)"
  using assms unfolding find_child_def by (subst box_fold_boxes) auto

lemma clip_parse_track: "parse_track (boxes [iso ''mdia'' (boxes (clip_media n))]) = Inr (Video, clip_track_tables n)"
proof -
  have edts: "parse_edit_media_time (boxes [iso ''mdia'' (boxes (clip_media n))]) = Inr 0"
    by (simp add: parse_edit_media_time_def single_find) (simp add: fourcc_def)
  have hd: "parse_handler ([0, 0, 0, 0, 0, 0, 0, 0] @ fourcc ''vide'') = Inr Video"
    by (simp add: parse_handler_def read_fourcc_def get_range_def fourcc_def)
  have md: "parse_mdhd ([0, 0, 0, 0, 0, 0, 0, 0, 0, 0, 0, 0, 0, 0, 3, 232, 0, 0, 58, 152]) = Inr (1000, 15000)"
    by (simp add: parse_mdhd_def first_byte_def read_u32_def get_range_def from_be_bytes_def)
  have self: "verify_self_contained (boxes [iso ''stbl'' (boxes (clip_tables n))]) = Inr ()"
    by (simp add: verify_self_contained_def single_find) (simp add: fourcc_def)
  show ?thesis
    by (simp add: parse_track_def edts hd [simplified] md self single_find clip_media_find clip_tables_find required_child_def clip_track_tables_def)
qed

lemma clip_codec: "parse_video_codec ([0, 0, 0, 0, 0, 0, 0, 1, 0, 0, 0, 8] @ fourcc ''avc1'') = Inr (fourcc ''avc1'')"
  by (simp add: parse_video_codec_def read_u32_def read_fourcc_def get_range_def from_be_bytes_def fourcc_def)

lemma clip_table_values:
  shows "parse_stsz [0, 0, 0, 0, 0, 0, 0, 1, 0, 0, 0, n] = Inr (replicate (unat n) 1)"
    and "0 < n \<Longrightarrow> parse_stts [0, 0, 0, 0, 0, 0, 0, 1, 0, 0, 0, n, 0, 0, 19, 136] (unat n) = Inr (replicate (unat n) 5000)"
    and "parse_chunk_offsets [0, 0, 0, 0, 0, 0, 0, 1, 0, 0, 0, 212] False = Inr [212]"
    and "0 < n \<Longrightarrow> parse_stsc [0, 0, 0, 0, 0, 0, 0, 1, 0, 0, 0, 1, 0, 0, 0, n, 0, 0, 0, 1] = Inr [\<lparr> first_chunk = 1, samples_per_chunk = unat n \<rparr>]"
  by (simp_all add: parse_stsz_def parse_stts_def parse_chunk_offsets_def parse_stsc_def push_stsc_def read_u32_def get_range_def
      from_be_bytes_def unat_gt_0)

lemma clip_offsets:
  "expand_sample_offsets [1] [212] [\<lparr> first_chunk = 1, samples_per_chunk = 1 \<rparr>] = Inr [212]"
  "expand_sample_offsets (replicate 3 1) [212] [\<lparr> first_chunk = 1, samples_per_chunk = 3 \<rparr>] = Inr [212, 213, 214]"
  by (simp_all add: expand_sample_offsets_def place_chunk_def advance_stsc.simps place_sample_def checked_add_def upt_rec)

lemma clip_push:
  "try_fold (push_sample 0 [5000] [0] [True] [212] [1]) ([], 0, 2 ^ 63 - 1, - (2 ^ 63)) [0..<1] = Inr (map clip_sample [0..<1], 5000, 0, 5000)"
  "try_fold (push_sample 0 (replicate 3 5000) (replicate 3 0) (replicate 3 True) [212, 213, 214] (replicate 3 1)) ([], 0, 2 ^ 63 - 1, - (2 ^ 63)) [0..<3] =
     Inr (map clip_sample [0..<3], 15000, 0, 15000)"
  by (simp_all add: push_sample_def i64_checked_def checked_add_def clip_sample_def upt_rec)

lemma clip_build: "build_video_track (clip_track_tables 1) = Inr (clip_track 1)" "build_video_track (clip_track_tables 3) = Inr (clip_track 3)"
proof -
  show "build_video_track (clip_track_tables 1) = Inr (clip_track 1)"
    using clip_table_values(1,2,4) [of 1] clip_table_values(3) clip_codec clip_offsets(1) clip_push(1)
    by (simp add: build_video_track_def clip_track_tables_def clip_track_def parse_ctts_def parse_stss_def)
  show "build_video_track (clip_track_tables 3) = Inr (clip_track 3)"
    using clip_table_values(1,2,4) [of 3] clip_table_values(3) clip_codec clip_offsets(2) clip_push(2)
    by (simp add: build_video_track_def clip_track_tables_def clip_track_def parse_ctts_def parse_stss_def del: upt_rec_numeral)
qed

text \<open>Parsing the file does not look at the sample bytes.\<close>

lemma clip_parse:
  assumes "unat n = length body" and "n = 1 \<or> n = 3"
  shows "parse_mp4_video_track (clip n body) = Inr (clip_track (length body))"
proof -
  let ?k = "length body"
  have k: "build_video_track (clip_track_tables n) = Inr (clip_track ?k)" "?k \<le> 3" using assms clip_build by auto
  have "box_fold find_moov None (clip n body) = Inr (Some (clip_moov n))"
    unfolding clip_def using k(2) by (subst box_fold_boxes) (auto simp: find_moov_def, auto simp: fourcc_def)
  moreover have "box_fold scan_track (None, 0) (clip_moov n) = Inr (Some (clip_track ?k), 0)"
    unfolding clip_moov_def by (subst box_fold_boxes) (simp_all add: scan_track_def clip_parse_track k(1))
  moreover have "try_all (check_sample_range (212 + ?k)) (vt_samples (clip_track ?k)) = Inr ()"
    using k(2) by (auto simp: try_all_Inr_iff clip_track_def clip_sample_def check_sample_range_def checked_add_def ensure_def)
  ultimately show ?thesis by (simp add: parse_mp4_video_track_def parse_mp4_video_track_from_moov_def)
qed

section \<open>The plans\<close>

definition clip_plan :: "nat \<Rightarrow> sample_plan" where
  "clip_plan k = \<lparr> bucket_index = k, target_time = int (5000 * k), decode_start_sample = k, decode_start_time = int (5000 * k),
     presentation_end_time = int (5000 * k) + 5000 \<rparr>"

lemma clip_offset: "unbiased_offset (const_hash 0) seed bucket counter 1 = Some 0"
proof -
  have "candidate_value (const_hash 0) seed bucket counter = 0"
    by (simp add: candidate_value_def from_be_bytes_def const_hash_def)
  then show ?thesis by (subst unbiased_offset.simps) (simp add: zone_def)
qed

lemma clip_samples: "vt_samples (clip_track 3) = [clip_sample 0, clip_sample 1, clip_sample 2]"
  by (simp add: clip_track_def upt_rec numeral_2_eq_2)

lemma clip_sync: "k < 3 \<Longrightarrow> last_sync (vt_samples (clip_track 3)) (int (5000 * k)) = Some (clip_sample k)"
proof -
  assume "k < 3"
  then consider "k = 0" | "k = 1" | "k = 2" by linarith
  then show ?thesis by cases (simp_all add: clip_samples last_sync_def later_sample_def clip_sample_def)
qed

lemma clip_bucket:
  assumes "bucket < 3"
  shows "plan_bucket (const_hash 0) (clip_track 3) seed 15000 5000 (map clip_plan [0..<bucket]) bucket = Some (Inr (map clip_plan [0..<bucket + 1]))"
proof -
  have c: "[0..<MAX_ATTEMPTS_PER_BUCKET] = 0 # [1..<128]" by (simp add: MAX_ATTEMPTS_PER_BUCKET_def upt_conv_Cons)
  have t: "vt_presentation_start (clip_track 3) = 0" by (simp add: clip_track_def)
  note sync = clip_sync [of 0] clip_sync [of 1] clip_sync [of 2]
  consider "bucket = 0" | "bucket = 1" | "bucket = 2" using assms by linarith
  then show ?thesis using sync clip_offset [of seed bucket 0]
    by cases (simp_all add: plan_bucket_def c t bucket_boundary_def checked_mul_def i64_checked_def BUCKET_COUNT_def as_signed_def
        del: upt_rec_numeral, simp_all add: clip_plan_def clip_sample_def upt_rec)
qed

lemma clip_plans: "plan_three_samples (const_hash 0) (clip_track 3) seed 5000 = Some (Inr (map clip_plan [0..<3]))"
proof -
  have b: "[0..<BUCKET_COUNT] = [0, 1, 2]" by (simp add: BUCKET_COUNT_def upt_rec)
  have "plan_buckets (const_hash 0) (clip_track 3) seed 15000 5000 [] [0, 1, 2] = Some (Inr (map clip_plan [0..<3]))"
    using clip_bucket [of 0] clip_bucket [of 1] clip_bucket [of 2]
    by (simp add: sampling_then_def numeral_2_eq_2 numeral_3_eq_3)
  then show ?thesis
    by (simp add: plan_three_samples_def b clip_track_def [THEN arg_cong [of _ _ vt_timescale]] clip_track_def [THEN arg_cong [of _ _ vt_presentation_start]]
        clip_track_def [THEN arg_cong [of _ _ vt_presentation_end]] checked_mul_def checked_add_def i64_checked_def sampling_then_def
        del: plan_buckets.simps upt_rec_numeral)
qed

lemma clip_selected: "k < 3 \<Longrightarrow> selected_samples (vt_samples (clip_track 3)) (clip_plan k) = Inr [clip_sample k]"
proof -
  assume "k < 3"
  then consider "k = 0" | "k = 1" | "k = 2" by linarith
  then show ?thesis by cases (simp_all add: clip_samples selected_samples_def Let_def clip_plan_def clip_sample_def)
qed

section \<open>The previews\<close>

definition clip_head :: "byte \<Rightarrow> nat \<Rightarrow> bytes" where
  "clip_head n k = mp4_box (iso ''moov'' (clip_moov n)) @ to_be_bytes 4 (k + 8) @ fourcc ''mdat''"

lemma clip_split: "clip n body = clip_head n (length body) @ body"
  by (simp add: clip_def boxes_def clip_head_def mp4_box_def)

lemma length_clip_head [simp]: "length (clip_head n k) = 212"
  by (simp add: clip_head_def mp4_box_def)

definition clip_source :: bytes where
  "clip_source = clip 3 [7, 8, 9]"

definition clip_preview :: "sample_plan \<Rightarrow> bytes" where
  "clip_preview plan = clip 1 [[7, 8, 9] ! bucket_index plan]"

lemma clip_source_parse: "parse_mp4_video_track clip_source = Inr (clip_track 3)"
proof -
  have l: "length [7, 8, 9 :: byte] = 3" by simp
  show ?thesis using clip_parse [of 3 "[7, 8, 9]", unfolded l] by (simp add: clip_source_def)
qed

lemma clip_preview_parse: "parse_mp4_video_track (clip_preview plan) = Inr (clip_track 1)"
  using clip_parse [of 1 "[[7, 8, 9] ! bucket_index plan]"] by (simp add: clip_preview_def)

lemma clip_blanked: "blanked (vt_samples (clip_track 1)) (clip 1 [b]) = clip 1 [0]"
proof (rule nth_equalityI)
  fix i assume "i < length (blanked (vt_samples (clip_track 1)) (clip 1 [b]))"
  then have "i < 213" by (simp add: blanked_def)
  then show "blanked (vt_samples (clip_track 1)) (clip 1 [b]) ! i = clip 1 [0] ! i"
    by (cases "i < 212") (auto simp: blanked_def clip_track_def clip_sample_def covers_def clip_split nth_append)
qed (simp add: blanked_def)

lemma clip_fits_plan: "k < 3 \<Longrightarrow> preview_fits clip_source (clip_track 3) (clip_plan k) (clip_preview (clip_plan k))"
proof -
  assume k: "k < 3"
  have codec: "vt_codec (clip_track n) = fourcc ''avc1''" for n by (simp add: clip_track_def)
  have one: "vt_samples (clip_track 1) = [clip_sample 0]" by (simp add: clip_track_def)
  have "parse_mp4_video_track (blanked (vt_samples (clip_track 1)) (clip_preview (clip_plan k))) = Inr (clip_track 1)"
    unfolding clip_preview_def clip_blanked using clip_parse [of 1 "[0]"] by simp
  moreover have "shows_sample clip_source (clip_preview (clip_plan k)) (clip_sample 0) (clip_sample k)"
    using k by (auto simp: shows_sample_def clip_source_def clip_preview_def clip_plan_def clip_sample_def clip_split take_Suc_conv_app_nth hd_drop_conv_nth)
  moreover have "length (clip_preview (clip_plan k)) < 2 ^ 64" by (simp add: clip_preview_def)
  ultimately show ?thesis
    unfolding preview_fits_def using clip_preview_parse clip_selected [OF k] codec
    by (intro conjI exI [of _ "clip_track 1"] exI [of _ "[clip_sample k]"]) (auto simp: one [simplified])
qed

lemma clip_stripped: "\<exists>template. strip_preview_samples (clip_preview plan) = Inr template"
  by (simp add: strip_preview_samples_def clip_preview_parse Let_def)
    (simp add: clip_track_def clip_sample_def clip_preview_def ensure_def sort_ranges_def ranges_disjoint_def)

lemma clip_previews: "\<exists>previews. build_previews clip_preview (map clip_plan [0..<3]) = Inr previews"
proof -
  have "\<exists>t. build_previews clip_preview (map clip_plan [0..<3]) = Inr t \<and> length t = 3"
    unfolding build_previews_def
  proof (rule try_fold_returns [of "\<lambda>ps. length ps = 3"])
    fix plan and ps :: "preview_template list" assume "plan \<in> set (map clip_plan [0..<3])" and "length ps = 3"
    moreover from this have "bucket_index plan < 3" by (auto simp: clip_plan_def)
    ultimately show "\<exists>s'. and_then (strip_preview_samples (clip_preview plan)) (\<lambda>template.
        and_then (ensure (bucket_index plan < length ps) ''panic'') (\<lambda>_. Inr (ps[bucket_index plan := template]))) = Inr s' \<and> length s' = 3"
      using clip_stripped [of plan] by (auto simp: ensure_def)
  qed simp
  then show ?thesis by blast
qed

section \<open>The run\<close>

definition clip_boxes :: "top_level_box list" where
  "clip_boxes = [\<lparr> tb_offset = 0, tb_size = 204, tb_kind = fourcc ''moov'', tb_header_size = 8 \<rparr>,
     \<lparr> tb_offset = 204, tb_size = 11, tb_kind = fourcc ''mdat'', tb_header_size = 8 \<rparr>]"

lemma clip_bytes: "take 4 clip_source = to_be_bytes 4 204" "take 4 (drop 4 clip_source) = fourcc ''moov''"
  "take 4 (drop 204 clip_source) = to_be_bytes 4 11" "take 4 (drop 208 clip_source) = fourcc ''mdat''" "length clip_source = 215"
  by (simp_all add: clip_source_def clip_split clip_head_def mp4_box_def)

lemma clip_sizes: "from_be_bytes (to_be_bytes 4 204) = 204" "from_be_bytes (to_be_bytes 4 11) = 11"
  by (rule from_to_be_bytes; simp)+

lemma clip_directory: "parse_top_level_boxes clip_source = Inr clip_boxes"
proof -
  have "parse_boxes_from clip_source 215 = Inr []" by (subst parse_boxes_from.simps) (simp add: clip_bytes)
  moreover have "parse_boxes_from clip_source 204 = and_then (parse_boxes_from clip_source 215) (\<lambda>rest. Inr (clip_boxes ! 1 # rest))"
    by (subst parse_boxes_from.simps) (simp add: clip_bytes clip_sizes clip_boxes_def)
  moreover have "parse_boxes_from clip_source 0 = and_then (parse_boxes_from clip_source 204) (\<lambda>rest. Inr (clip_boxes ! 0 # rest))"
    by (subst parse_boxes_from.simps) (simp add: clip_bytes clip_sizes clip_boxes_def)
  ultimately show ?thesis by (simp add: parse_top_level_boxes_def clip_boxes_def)
qed

lemma clip_symbol: "walrus_symbol_size (length clip_source) = 2"
  by (simp add: clip_bytes walrus_symbol_size_def div_ceil_def ROW_WIDTH_PRIMARY_def COL_HEIGHT_SECONDARY_def and_one_eq)

lemma clip_encoder: "\<exists>be. blob_encoder_new walrus_1000 clip_source = Inr be"
proof -
  have "symbol_size_for_blob walrus_1000 (length clip_source) = Inr 2"
    by (simp add: config_eval clip_bytes walrus_1000_def ROW_WIDTH_PRIMARY_def COL_HEIGHT_SECONDARY_def)
  then show ?thesis by (auto simp: symbol_size_for_blob_def blob_encoder_new_def and_then_Inr_iff)
qed

definition clip_sale :: sale_context where
  "clip_sale = \<lparr> sc_chain_id = 1, sc_sale_contract = replicate 20 1, sc_sale_id = replicate 32 2, sc_external_randomness = replicate 32 3 \<rparr>"

definition clip_cid_lib :: "(bytes, bytes) cid_lib" where
  "clip_cid_lib = \<lparr> multihash_from_bytes = Some, new_v1 = (\<lambda>codec mh. of_nat codec # mh), cid_to_bytes = id, cid_to_string = (\<lambda>_. ''cid'') \<rparr>"

lemma clip_cid: "compute_ipfs_cid_zk_optimized clip_cid_lib (const_hash 5) (clip_preview plan) = Inr ([85, 18, 32] @ replicate 32 5)"
  by (simp add: compute_ipfs_cid_zk_optimized_def clip_preview_def CHUNK_SIZE_def compute_raw_cid_bytes_def array_multihash_eq
      sha_multihash_def clip_cid_lib_def const_hash_def)

lemma clip_run:
  obtains H be w where "digest32 H" and "blob_encoder_new walrus_1000 clip_source = Inr be"
    and "video_witness_main (const_hash 0) H repeat_rs clip_preview clip_source clip_sale = Some (Inr w)"
    and "vw_top_level_boxes w = clip_boxes" and "collision_free H (video_queries H repeat_rs be (vw_origin w))"
    and "video_opening_typed (vw_origin w)"
proof -
  obtain be where be: "blob_encoder_new walrus_1000 clip_source = Inr be" using clip_encoder by blast
  have b: "be_1000 repeat_rs clip_source be" by (rule be_1000_new [OF repeat_ready be])
  define H where "H = table_hash (blob_terms repeat_rs be)"
  have "walrus_symbol_size (length clip_source) \<noteq> 64" by (simp add: clip_symbol)
  note free = blob_hash_collision_free [OF b this, folded H_def]
  have H: "digest32 H" unfolding H_def by (rule table_hash_32)
  have spec: "sampling_spec_hash (const_hash 0) 5000 = Inr (replicate 32 0)" by (simp add: sampling_spec_hash_def const_hash_def)
  obtain previews where pv: "build_previews clip_preview (map clip_plan [0..<3]) = Inr previews" using clip_previews by blast
  have "\<forall>plan \<in> set (map clip_plan [0..<3]). \<exists>selected. selected_samples (vt_samples (clip_track 3)) plan = Inr selected \<and>
      (\<forall>s \<in> set selected. 0 < vs_byte_offset s + vs_byte_size s)"
    using clip_selected by (auto simp: clip_sample_def)
  from host_returns [OF repeat_ready H be clip_source_parse clip_directory spec clip_plans pv this] obtain w where
    w: "video_witness_main (const_hash 0) H repeat_rs clip_preview clip_source clip_sale = Some (Inr w)" "vw_top_level_boxes w = clip_boxes" by blast
  obtain be' where be': "blob_encoder_new walrus_1000 clip_source = Inr be'" and t: "video_opening_typed (vw_origin w)"
    "set (video_queries H repeat_rs be' (vw_origin w)) \<subseteq> set (id_queries H (metadata (expanded_metadata H repeat_rs be'))) \<union>
      (\<Union>c < 1000. set (build_queries H (matrix_line repeat_rs be' c)))"
    by (rule host_run [OF w(1) repeat_ready H clip_source_parse spec])
  have "be' = be" using be be' by simp
  note q = subset_trans [OF t(2) [unfolded this] free(1)]
  from that [OF H be w collision_free_subset [OF free(2) q] t(1)] show ?thesis .
qed

text \<open>The facts of the run that the theorems ask for.\<close>

lemma clip_facts:
  shows "sampling_spec_hash (const_hash 0) 5000 = Inr (replicate 32 0)"
    and "\<forall>b \<in> set clip_boxes. box_sized clip_source b"
    and "\<forall>plan \<in> set (map clip_plan [0..<3]). preview_fits clip_source (clip_track 3) plan (clip_preview plan)"
    and "\<forall>plan \<in> set (map clip_plan [0..<3]). compute_ipfs_cid_zk_optimized clip_cid_lib (const_hash 5) (clip_preview plan) =
      Inr ([85, 18, 32] @ replicate 32 5) \<and> 32 \<le> length ([85, 18, 32] @ replicate 32 (5 :: byte))"
proof -
  show "sampling_spec_hash (const_hash 0) 5000 = Inr (replicate 32 0)" by (simp add: sampling_spec_hash_def const_hash_def)
  show "\<forall>b \<in> set clip_boxes. box_sized clip_source b" by (simp add: clip_boxes_def box_sized_def clip_bytes clip_sizes)
  show "\<forall>plan \<in> set (map clip_plan [0..<3]). preview_fits clip_source (clip_track 3) plan (clip_preview plan)" using clip_fits_plan by auto
  show "\<forall>plan \<in> set (map clip_plan [0..<3]). compute_ipfs_cid_zk_optimized clip_cid_lib (const_hash 5) (clip_preview plan) =
      Inr ([85, 18, 32] @ replicate 32 5) \<and> 32 \<le> length ([85, 18, 32] @ replicate 32 (5 :: byte))" using clip_cid by simp
qed

section \<open>Witnesses\<close>

theorem video_run_accepted_witness:
  "\<exists>H w out. video_witness_main (const_hash 0) H repeat_rs clip_preview clip_source clip_sale = Some (Inr w) \<and>
     video_main (const_hash 0) (const_hash 5) H clip_cid_lib w clip_sale = Some (Inr out) \<and>
     preview_cid_digests out = replicate 3 (replicate 32 5)"
proof -
  obtain H be w where run: "digest32 H" "video_witness_main (const_hash 0) H repeat_rs clip_preview clip_source clip_sale = Some (Inr w)"
    "vw_top_level_boxes w = clip_boxes" by (rule clip_run)
  from video_run_accepted [OF run(2) repeat_ready run(1) clip_source_parse clip_facts(1) clip_plans clip_facts(2) [folded run(3)] clip_facts(3,4)]
  obtain id where "video_main (const_hash 0) (const_hash 5) H clip_cid_lib w clip_sale = Some (Inr \<lparr> origin_blob_id = id, spec_hash = replicate 32 0,
      sampling_seed = derive_sampling_seed (const_hash 0) (video_seed_input w clip_sale (replicate 32 0)),
      preview_cid_digests = map (\<lambda>plan. cid_tail ([85, 18, 32] @ replicate 32 5)) (map clip_plan [0..<3]) \<rparr>)" by blast
  then show ?thesis using run(2) by (intro exI conjI) (auto simp: cid_tail_def map_replicate_const)
qed

theorem video_guest_sound_witness:
  "\<exists>H w out. video_main (const_hash 0) (const_hash 5) H clip_cid_lib w clip_sale = Some (Inr out) \<and>
     preview_committed clip_cid_lib (const_hash 5) clip_source (clip_track 3) (clip_plan 2) (preview_cid_digests out ! 2)"
proof -
  obtain H be w where run: "digest32 H" "blob_encoder_new walrus_1000 clip_source = Inr be"
    "video_witness_main (const_hash 0) H repeat_rs clip_preview clip_source clip_sale = Some (Inr w)" "vw_top_level_boxes w = clip_boxes"
    "collision_free H (video_queries H repeat_rs be (vw_origin w))" "video_opening_typed (vw_origin w)" by (rule clip_run)
  note host = host_run_accepted [OF run(3) repeat_ready run(1) clip_source_parse clip_facts(1) clip_plans clip_facts(2) [folded run(4)] clip_facts(3,4)]
  obtain id out where out: "compute_blob_id_default H repeat_rs clip_source = Inr id" "origin_blob_id out = id"
    "video_main (const_hash 0) (const_hash 5) H clip_cid_lib w clip_sale = Some (Inr out)"
    using host by (metis video_public_values.select_convs(1))
  have "vo_blob_id (vw_origin w) = id"
    using out(2,3) by (auto simp: video_main_def Let_def sampling_then_Inr_iff)
  with out(1) have "compute_blob_id_default H repeat_rs clip_source = Inr (vo_blob_id (vw_origin w))" by simp
  from video_guest_sound [OF out(3) repeat_ready run(1,2) this run(6,5)] obtain plans where
    plans: "plan_three_samples (const_hash 0) (clip_track 3) (sampling_seed out) 5000 = Some (Inr plans)"
    "\<forall>k < 3. preview_committed clip_cid_lib (const_hash 5) clip_source (clip_track 3) (plans ! k) (preview_cid_digests out ! k)"
    by (auto simp: clip_source_parse)
  have two: "2 < (3 :: nat)" by simp
  have "plans = map clip_plan [0..<3]" using plans(1) by (simp add: clip_plans del: upt_rec_numeral)
  then have "plans ! 2 = clip_plan 2" by (simp only: nth_map_upt0 [OF two])
  with plans(2) out(3) two show ?thesis by metis
qed

theorem mp4_track_wellformed_witness:
  "track_ok (clip_track 3) \<and> vs_byte_offset (clip_sample 2) + vs_byte_size (clip_sample 2) \<le> 215"
  using mp4_track_wellformed [OF clip_source_parse] by (simp add: clip_samples clip_bytes)

theorem sample_offsets_layout_witness:
  "[212, 213, 214] = layout (replicate 3 1) (chunk_layout [212] [\<lparr> first_chunk = 1, samples_per_chunk = 3 \<rparr>])"
proof -
  have "(0 :: byte) < 3" by simp
  from clip_table_values(4) [OF this] have "parse_stsc [0, 0, 0, 0, 0, 0, 0, 1, 0, 0, 0, 1, 0, 0, 0, 3, 0, 0, 0, 1] = Inr [\<lparr> first_chunk = 1, samples_per_chunk = 3 \<rparr>]"
    by simp
  from sample_offsets_layout [OF this clip_offsets(2)] show ?thesis by blast
qed

end
