(* ===== verification/Spec2Isabelle.thy ===== *)
theory Spec2Isabelle
  imports Drop_Merkle Vss Sliver_Recovery Vdd_Example Quilt_Props Video_Example
begin

text \<open>
  TrustDrop sells encrypted files. A seller stores a file and its ChaCha8 ciphertext as Walrus blobs
  and proves, in a zero-knowledge virtual machine, that the second is the encryption of the first
  under a committed key (verifiable data disclosure); the key is later handed over in a second proof
  (verifiable secret sharing), and for videos three short previews, chosen by public randomness, are
  proved to be parts of the stored file. This development models the Rust code behind these proofs: the
  ciphers and commitments of \<^verbatim>\<open>drop-lib\<close>, the erasure coding of \<^verbatim>\<open>walrus-core\<close>, the guest programs
  under \<^verbatim>\<open>guest\<close> and the parts of \<^verbatim>\<open>drop-script\<close> and of the video client that prepare their input.

  \<^bold>\<open>Theories, in import order.\<close>

  \<^item> \<open>Prelude\<close>: bytes as 8-bit words, the combinators for Rust's \<^verbatim>\<open>Result\<close> (\<open>Inl\<close> the error), loops
    with early return, integer encodings, checked arithmetic.
  \<^item> \<open>Gf256\<close>: the field arithmetic of \<^verbatim>\<open>rslh_ve.rs\<close>, its tables and the field laws (a locale of
    weighted sums, interpreted on it).
  \<^item> \<open>Stream_Ciphers\<close>: \<^verbatim>\<open>chacha8.rs\<close>, \<^verbatim>\<open>kdf.rs\<close>, \<^verbatim>\<open>poseidon.rs\<close>, \<^verbatim>\<open>ecies.rs\<close>, \<^verbatim>\<open>elgamal.rs\<close>; round
    trips and the errors of malformed packages, through a locale of XOR ciphers.
  \<^item> \<open>Rslh_Ve\<close>: the column proofs of \<^verbatim>\<open>rslh_ve.rs\<close>; the honest prover is accepted, and for a given
    plaintext column exactly one ciphertext column is.
  \<^item> \<open>Walrus_Merkle\<close>: \<^verbatim>\<open>walrus-core/src/merkle.rs\<close>; completeness and soundness of its proofs.
  \<^item> \<open>Walrus_Config\<close>, \<open>Walrus_Metadata\<close>: \<^verbatim>\<open>encoding/config.rs\<close>, \<^verbatim>\<open>encoding/utils.rs\<close>, \<^verbatim>\<open>bft.rs\<close>,
    \<^verbatim>\<open>metadata.rs\<close> and the identifiers of \<^verbatim>\<open>lib.rs\<close>; exact sizes with the
    one length whose rounding overflows, metadata verification with the error it reports, binding of blob identifiers.
  \<^item> \<open>Walrus_Symbols\<close>, \<open>Walrus_Mapping\<close>, \<open>Rs_Coding\<close>, \<open>Rs_Example\<close>, \<open>Walrus_Slivers\<close>: \<^verbatim>\<open>symbols.rs\<close>,
    \<^verbatim>\<open>mapping.rs\<close>, \<^verbatim>\<open>basic_encoding.rs\<close>, \<^verbatim>\<open>slivers.rs\<close> and \<^verbatim>\<open>inconsistency.rs\<close> of \<^verbatim>\<open>walrus-core\<close>; the
    symbol vector refines a list, and a concrete erasure code meets the assumptions on the library.
  \<^item> \<open>Blob_Encoding\<close>, \<open>Blob_Correct\<close>, \<open>Blob_Legacy\<close>, \<open>Blob_Decoding\<close>, \<open>Blob_Props\<close>: \<^verbatim>\<open>blob_encoding.rs\<close>;
    its three encoding routines compute the same expanded matrix, which decoding inverts, and what
    the consistency checks guarantee.
  \<^item> \<open>Sliver_Recovery\<close>: lost slivers are recovered and honest writers cannot be accused.
  \<^item> \<open>Walrus_Open\<close>, \<open>Vdd_Guest\<close>, \<open>Vdd_Host\<close>, \<open>Vdd_Example\<close>: openings of blob commitments
    (\<^verbatim>\<open>walrus_open.rs\<close>), the guests of verifiable data disclosure, the host that prepares their
    input, and a concrete run. Here the parts meet: the input the host prepares is accepted, and
    what is accepted holds of the two blobs behind the committed identifiers.
  \<^item> \<open>Cid\<close>, \<open>Drop_Merkle\<close>, \<open>Vss\<close>: \<^verbatim>\<open>cid.rs\<close>, \<^verbatim>\<open>merkle.rs\<close> and \<^verbatim>\<open>common.rs\<close> of \<^verbatim>\<open>drop-lib\<close>, and the
    guest of verifiable secret sharing.
  \<^item> \<open>Quilt_Layout\<close>, \<open>Quilt_Search\<close>, \<open>Quilt\<close>, \<open>Quilt_Correct\<close>, \<open>Quilt_Construct\<close>, \<open>Quilt_Bcs\<close>, \<open>Quilt_Props\<close>:
    \<^verbatim>\<open>encoding/quilt_encoding.rs\<close>, many blobs in one; the column layout, the search for the symbol size, the
    construction and both ways to read back (a locale of column readers, interpreted on the quilt and on
    the decoder of slivers), and a serialization that meets the assumptions.
  \<^item> \<open>Mp4\<close>, \<open>Video_Plan\<close>: \<^verbatim>\<open>drop-lib/src/video_sampling\<close>, the index parser and the choice of the samples;
    accepted tracks are well formed, offsets are unbiased, plans lie in their thirds of the timeline.
  \<^item> \<open>Video_Guest\<close>, \<open>Video_Sound\<close>: the guest of the video samples; what it accepts holds of the blob behind
    the committed identifier.
  \<^item> \<open>Video_Host\<close>, \<open>Video_Run\<close>, \<open>Video_Accept\<close>: the client that builds the guest's witness; its opening verifies,
    every range it marked can be read, and the guest commits to its previews.
  \<^item> \<open>Table_Hash\<close>, \<open>Video_Example\<close>: for every blob whose symbols do not have 64 bytes, a hash function without
    collisions on the inputs that its encoding hashes; and a concrete run of video client and guest.

  \<^bold>\<open>State and errors.\<close> Structs are records and enums datatypes, with the fields and constructors of the
  source; mutable state is passed along. A \<^verbatim>\<open>Result\<close> is a sum with the error on the left, and a panic
  (failed assertion, index out of bounds, arithmetic overflow) is an error value of its own, so every
  statement that a function returns \<open>Inr\<close> also says that it does not panic. Unsigned integers are natural
  numbers with the checks or the wrap-around of the source written out; bytes are 8-bit words. Where the two
  build profiles differ, the offsets of \<^verbatim>\<open>symbols.rs\<close> wrap as in a release build; elsewhere an overflow of unchecked
  arithmetic is a panic, as with overflow checks, and the theories name the places where a release build goes on.

  \<^bold>\<open>Parameters.\<close> Code outside the repository is an argument of the definitions. Hash functions (Blake2b,
  SHA-256, BLAKE3) are functions on bytes, assumed at most to give 32 bytes (\<open>digest32\<close>) and not to collide on
  the inputs that the statement names (\<open>collision_free\<close>). The \<^verbatim>\<open>reed_solomon_simd\<close> crate is a record \<open>rs_lib\<close>,
  assumed to encode (\<open>rs_enc_ready\<close>) and, where decoding matters, to be an erasure code. The \<^verbatim>\<open>bcs\<close>, \<^verbatim>\<open>cid\<close>, \<^verbatim>\<open>hex\<close>
  and curve crates, the ChaCha8 key stream and the preview files that \<^verbatim>\<open>ffmpeg\<close> writes are parameters in the
  same way. Each assumption is met by a concrete function in the theories named \<open>Example\<close> and in the
  theorems named \<open>witness\<close>.

  \<^bold>\<open>Loops and bounds.\<close> Loops are recursive functions with termination proofs, without fuel. Two loops of the
  source may run forever and are partial functions in the option type: the rejection loop that draws an
  offset (\<open>unbiased_offset\<close>), which ends exactly if some counter is accepted, and the chunking of \<^verbatim>\<open>merkle.rs\<close>,
  which does not end for chunks of size zero. The statements on blobs of the network use the
  configuration with 1000 shards, 334 primary and 667 secondary source symbols that the guests fix.

  \<^bold>\<open>Not modelled.\<close> The command line (\<^verbatim>\<open>drop-cli\<close>), the stages of \<^verbatim>\<open>drop-script\<close> and of the video client that
  talk to the chain, to storage or to the prover network, the storage clients and the SQLite state of
  \<^verbatim>\<open>sdk\<close>: they only move values between files, services and the functions modelled here. Committee
  messages (\<^verbatim>\<open>messages.rs\<close>): signatures of the \<^verbatim>\<open>fastcrypto\<close> crate over serialized structs. Serde, Debug and
  Display implementations, logging, the records of \<^verbatim>\<open>drop-lib/src/data.rs\<close>, and the ABI encoding of public values by \<^verbatim>\<open>alloy\<close>. The sampling of
  datasets (the cluster and flow graph guests, their hosts and \<^verbatim>\<open>extensions/dataset-sampling\<close>), which opens blobs as the
  video guest does and draws records in place of frames, is left out, as are the drivers of prover and \<^verbatim>\<open>ffmpeg\<close>
  (\<^verbatim>\<open>guest/vss/script\<close>, \<^verbatim>\<open>guest/vdd/script\<close>, \<^verbatim>\<open>extensions/video-sampler\<close>, \<^verbatim>\<open>extensions/sampling-challenge-client\<close>). The smart contracts,
  the oracle worker, the GUI and the subgraph are written in other languages.
\<close>

end
